(* ===== verification/Rola_Prelude.thy ===== *)
theory Rola_Prelude
  imports Main "HOL-Library.Word"
begin

text \<open>
  The prelude of the development: the errors of the Python code as values, the fallible
  computations that return them, the Python integer helpers the components share
  (\<^verbatim>\<open>int.bit_length\<close>, powers of two, ceiling division, suffix products), and the
  generic lemmas on lists and powers that carry the component proofs.
\<close>

named_theorems res_simps \<open>equations of the fallible computations\<close>
named_theorems pow2_intros \<open>closure of the powers of two\<close>

section \<open>Errors as values\<close>

text \<open>
  One constructor per exception class of the source; the string names the clause that
  raised, so that two refusals of one function stay distinguishable.
\<close>

datatype exc =
    ValueError string
  | TypeError string
  | RuntimeError string
  | IndexError string
  | KeyError string
  | ZeroDivisionError string
  | NotImplementedError string
  | AttributeError string
  | UnknownActivation string
  | AssertionError string
  | StopIteration string
  | BackwardNotImplemented string
  | CarryRefusal string

type_synonym 'a res = "exc + 'a"

fun rbind :: "'a res \<Rightarrow> ('a \<Rightarrow> 'b res) \<Rightarrow> 'b res" where
  "rbind (Inl e) k = Inl e"
| "rbind (Inr x) k = k x"

definition refuse :: "bool \<Rightarrow> exc \<Rightarrow> unit res" where
  "refuse b e = (if b then Inl e else Inr ())"

text \<open>A sequence of guard statements: the first that raises ends the function.\<close>

fun checks :: "unit res list \<Rightarrow> unit res" where
  "checks [] = Inr ()"
| "checks (c # cs) = rbind c (\<lambda>_. checks cs)"

fun rmap :: "('a \<Rightarrow> 'b res) \<Rightarrow> 'a list \<Rightarrow> 'b list res" where
  "rmap f [] = Inr []"
| "rmap f (x # xs) = rbind (f x) (\<lambda>y. rbind (rmap f xs) (\<lambda>ys. Inr (y # ys)))"

fun is_ok :: "'a res \<Rightarrow> bool" where
  "is_ok (Inr _) = True"
| "is_ok (Inl _) = False"

lemma rbind_Inr_iff [res_simps]: "rbind m k = Inr y \<longleftrightarrow> (\<exists>x. m = Inr x \<and> k x = Inr y)"
  by (cases m) auto

lemma rbind_Inl_iff: "rbind m k = Inl e \<longleftrightarrow> m = Inl e \<or> (\<exists>x. m = Inr x \<and> k x = Inl e)"
  by (cases m) auto

lemma refuse_Inr [simp]: "refuse b e = Inr u \<longleftrightarrow> \<not> b"
  by (simp add: refuse_def)

lemma refuse_simps [simp]: "refuse False e = Inr ()" "refuse True e = Inl e"
  by (simp_all add: refuse_def)

lemma refuse_Inl [simp]: "refuse b e = Inl e' \<longleftrightarrow> b \<and> e' = e"
  by (auto simp: refuse_def)

lemma checks_Inr [simp]: "checks cs = Inr u \<longleftrightarrow> (\<forall>c\<in>set cs. is_ok c)"
proof (induction cs)
  case (Cons c cs)
  then show ?case by (cases c) auto
qed simp

lemma is_ok_refuse [simp]: "is_ok (refuse b e) \<longleftrightarrow> \<not> b"
  by (simp add: refuse_def)

lemma is_ok_iff: "is_ok r \<longleftrightarrow> (\<exists>x. r = Inr x)"
  by (cases r) auto

lemma rmap_Inr: "rmap f xs = Inr ys \<longleftrightarrow> list_all2 (\<lambda>x y. f x = Inr y) xs ys"
proof (induction xs arbitrary: ys)
  case Nil
  then show ?case by auto
next
  case (Cons x xs)
  then show ?case by (cases ys) (auto simp: res_simps)
qed

lemma rmap_all: "\<forall>x\<in>set xs. f x = Inr (g x) \<Longrightarrow> rmap f xs = Inr (map g xs)"
  by (induction xs) simp_all

text \<open>
  A method that may raise after it has already changed its object: the result and the state the
  object is left in.
\<close>

type_synonym ('a, 's) step = "'a res \<times> 's"

fun sbind :: "('a, 's) step \<Rightarrow> ('a \<Rightarrow> 's \<Rightarrow> ('b, 's) step) \<Rightarrow> ('b, 's) step" where
  "sbind (Inl e, s) k = (Inl e, s)"
| "sbind (Inr x, s) k = k x s"

lemma sbind_Inr_iff [res_simps]:
  "sbind m k = (Inr y, s') \<longleftrightarrow> (\<exists>x s. m = (Inr x, s) \<and> k x s = (Inr y, s'))"
  by (cases m; cases "fst m") auto

section \<open>Python values at a dynamic type check\<close>

text \<open>
  What a constructor argument can be before \<^verbatim>\<open>type(x) is int\<close> has looked at it. In Python
  a \<^verbatim>\<open>bool\<close> is an instance of \<^verbatim>\<open>int\<close> but its type is not \<^verbatim>\<open>int\<close>: the two are separate constructors.
\<close>

datatype pyval = PyInt int | PyBool bool | PyNone | PyFloat | PyStr string | PyOther

fun is_exact_int :: "pyval \<Rightarrow> bool" where
  "is_exact_int (PyInt _) = True"
| "is_exact_int _ = False"

fun int_of :: "pyval \<Rightarrow> int" where
  "int_of (PyInt i) = i"
| "int_of _ = 0"

lemma is_exact_int_iff: "is_exact_int v \<longleftrightarrow> (\<exists>i. v = PyInt i)"
  by (cases v) auto

section \<open>Python integer helpers\<close>

text \<open>\<^verbatim>\<open>int.bit_length\<close> on a non-negative integer.\<close>

fun bit_length :: "nat \<Rightarrow> nat" where
  "bit_length n = (if n = 0 then 0 else Suc (bit_length (n div 2)))"

declare bit_length.simps [simp del]

lemma bit_length_0 [simp]: "bit_length 0 = 0"
  by (simp add: bit_length.simps)

lemma bit_length_pos: "0 < n \<Longrightarrow> bit_length n = Suc (bit_length (n div 2))"
  by (subst bit_length.simps) simp

lemma less_two_power_bit_length: "n < 2 ^ bit_length n"
proof (induction n rule: bit_length.induct)
  case (1 n)
  show ?case
  proof (cases "n = 0")
    case False
    with 1 have "n div 2 < 2 ^ bit_length (n div 2)" by simp
    with False show ?thesis by (simp add: bit_length_pos)
  qed simp
qed

lemma bit_length_le_iff: "bit_length n \<le> e \<longleftrightarrow> n < 2 ^ e"
proof (induction n arbitrary: e rule: bit_length.induct)
  case (1 n)
  show ?case
  proof (cases "n = 0")
    case False
    show ?thesis
    proof (cases e)
      case 0
      with False show ?thesis by (simp add: bit_length_pos)
    next
      case (Suc e')
      with False 1 [of e'] show ?thesis by (auto simp: bit_length_pos)
    qed
  qed simp
qed

lemma two_power_bit_length_le: "0 < n \<Longrightarrow> 2 ^ (bit_length n - 1) \<le> n"
proof -
  assume "0 < n"
  then have "\<not> bit_length n \<le> bit_length n - 1" by (simp add: bit_length_pos)
  then show ?thesis by (simp add: bit_length_le_iff)
qed

text \<open>\<^verbatim>\<open>1 << (n - 1).bit_length()\<close>: the next power of two at or above \<^verbatim>\<open>n\<close>.\<close>

definition next_pow2 :: "nat \<Rightarrow> nat" where
  "next_pow2 n = 2 ^ bit_length (n - 1)"

lemma next_pow2_ge: "n \<le> next_pow2 n"
  using less_two_power_bit_length [of "n - 1"] by (simp add: next_pow2_def)

lemma next_pow2_le_iff: "0 < n \<Longrightarrow> next_pow2 n \<le> 2 ^ e \<longleftrightarrow> n \<le> 2 ^ e"
proof -
  assume "0 < n"
  have "next_pow2 n \<le> 2 ^ e \<longleftrightarrow> bit_length (n - 1) \<le> e" by (simp add: next_pow2_def)
  also have "\<dots> \<longleftrightarrow> n \<le> 2 ^ e" using \<open>0 < n\<close> by (auto simp: bit_length_le_iff)
  finally show ?thesis .
qed

lemma next_pow2_pos [simp]: "0 < next_pow2 n"
  by (simp add: next_pow2_def)

text \<open>\<^verbatim>\<open>int(math.log2(n))\<close> for a positive \<^verbatim>\<open>n\<close> below the precision of a double.\<close>

definition ilog2 :: "nat \<Rightarrow> nat" where
  "ilog2 n = bit_length n - 1"

lemma ilog2_power [simp]: "ilog2 (2 ^ e) = e"
proof -
  have "bit_length (2 ^ e) \<le> Suc e" by (simp add: bit_length_le_iff)
  moreover have "\<not> bit_length (2 ^ e) \<le> e" by (simp add: bit_length_le_iff)
  ultimately show ?thesis by (simp add: ilog2_def)
qed

definition is_pow2 :: "nat \<Rightarrow> bool" where
  "is_pow2 n \<longleftrightarrow> 0 < n \<and> 2 ^ ilog2 n = n"

lemma is_pow2_iff: "is_pow2 n \<longleftrightarrow> (\<exists>e. n = 2 ^ e)"
  by (metis ilog2_power is_pow2_def zero_less_numeral zero_less_power)

lemma is_pow2_power [simp, pow2_intros]: "is_pow2 (2 ^ e)"
  by (auto simp: is_pow2_iff)

lemma is_pow2_one [simp, pow2_intros]: "is_pow2 1"
  using is_pow2_power [of 0] by simp

lemma is_pow2_Suc_0 [simp]: "is_pow2 (Suc 0)"
  using is_pow2_one by simp

lemma is_pow2_pos: "is_pow2 n \<Longrightarrow> 0 < n"
  by (simp add: is_pow2_def)

lemma is_pow2_mult [pow2_intros]: "is_pow2 a \<Longrightarrow> is_pow2 b \<Longrightarrow> is_pow2 (a * b)"
  by (metis is_pow2_iff power_add)

lemma is_pow2_prod_list [pow2_intros]: "(\<And>x. x \<in> set xs \<Longrightarrow> is_pow2 x) \<Longrightarrow> is_pow2 (prod_list xs)"
  by (induction xs) (auto intro: pow2_intros simp del: One_nat_def)

lemma is_pow2_dvd: "is_pow2 a \<Longrightarrow> is_pow2 b \<Longrightarrow> a \<le> b \<Longrightarrow> a dvd b"
  by (auto simp: is_pow2_iff le_imp_power_dvd)

lemma is_pow2_div: "is_pow2 a \<Longrightarrow> is_pow2 b \<Longrightarrow> b dvd a \<Longrightarrow> is_pow2 (a div b)"
proof -
  assume "is_pow2 a" "is_pow2 b" "b dvd a"
  then obtain x y where ab: "a = 2 ^ x" "b = 2 ^ y" "(2::nat) ^ y dvd 2 ^ x"
    by (auto simp: is_pow2_iff)
  then have "y \<le> x" by (simp add: power_dvd_imp_le)
  with ab have "a div b = 2 ^ (x - y)" by (simp add: power_diff)
  then show ?thesis by simp
qed

lemma is_pow2_next_pow2 [simp]: "is_pow2 (next_pow2 n)"
  by (simp add: next_pow2_def)

lemma next_pow2_id: "is_pow2 n \<Longrightarrow> next_pow2 n = n"
  by (metis is_pow2_iff is_pow2_pos le_antisym next_pow2_ge next_pow2_le_iff order_refl)

text \<open>The C idiom \<^verbatim>\<open>n & (n - 1)\<close> is zero exactly on the powers of two (and on zero).\<close>

lemma and_minus_one_pow2_aux:
  fixes n :: nat
  shows "0 < n \<Longrightarrow> (and n (n - 1) = 0 \<longleftrightarrow> is_pow2 n)"
proof (induction n rule: less_induct)
  case (less n)
  show ?case
  proof (cases "even n")
    case True
    then obtain h where h: "n = 2 * h" by blast
    with less have "0 < h" "h < n" by auto
    then obtain g where g: "h = Suc g" using gr0_conv_Suc by blast
    have "(2 * h - 1) div 2 = h - 1" using g by simp
    then have "and n (n - 1) = 2 * and h (h - 1)"
      unfolding h by (subst and_rec) simp
    moreover have "is_pow2 n \<longleftrightarrow> is_pow2 h"
    proof
      assume "is_pow2 n"
      then obtain e where e: "n = 2 ^ e" by (auto simp: is_pow2_iff)
      with h \<open>0 < h\<close> have "e \<noteq> 0" by (metis One_nat_def Suc_neq_Zero dvd_triv_left odd_one power_0 One_nat_def)
      then obtain e' where "e = Suc e'" using not0_implies_Suc by blast
      with e h show "is_pow2 h" by (auto simp: is_pow2_iff)
    next
      assume "is_pow2 h"
      then show "is_pow2 n" unfolding h by (metis is_pow2_mult is_pow2_power power_one_right)
    qed
    ultimately show ?thesis using less.IH [OF \<open>h < n\<close> \<open>0 < h\<close>] by simp
  next
    case False
    then obtain h where h: "n = Suc (2 * h)" by (auto elim: oddE)
    have "and n (n - 1) = 2 * h" unfolding h
      by (subst and_rec) (simp)
    moreover have "is_pow2 n \<longleftrightarrow> h = 0"
    proof
      assume "is_pow2 n"
      then obtain e where "n = 2 ^ e" by (auto simp: is_pow2_iff)
      with False have "e = 0" by (cases e) auto
      with \<open>n = 2 ^ e\<close> h show "h = 0" by simp
    qed (use h in \<open>simp del: One_nat_def add: One_nat_def [symmetric]\<close>)
    ultimately show ?thesis by simp
  qed
qed

definition ceil_div :: "nat \<Rightarrow> nat \<Rightarrow> nat" where
  "ceil_div a b = (a + b - 1) div b"

lemma ceil_div_cover: "0 < b \<Longrightarrow> a \<le> ceil_div a b * b"
proof -
  assume "0 < b"
  have "a + b - 1 = (a + b - 1) div b * b + (a + b - 1) mod b" by simp
  moreover have "(a + b - 1) mod b \<le> b - 1"
    by (metis Suc_pred' \<open>0 < b\<close> less_Suc_eq_le mod_less_divisor)
  ultimately show ?thesis using \<open>0 < b\<close> unfolding ceil_div_def by linarith
qed

lemma ceil_div_least: "0 < b \<Longrightarrow> a \<le> c * b \<Longrightarrow> ceil_div a b \<le> c"
proof -
  assume "0 < b" "a \<le> c * b"
  then have "a + b - 1 < Suc c * b" by simp
  then have "(a + b - 1) div b < Suc c" by (rule less_mult_imp_div_less)
  then show ?thesis by (simp add: ceil_div_def)
qed

lemma mult_add_less: "a < c \<Longrightarrow> r < b \<Longrightarrow> a * b + r < c * (b::nat)"
proof -
  assume "a < c" "r < b"
  then have "a * b + r < Suc a * b" by simp
  also have "\<dots> \<le> c * b" using \<open>a < c\<close> by (intro mult_le_mono1) simp
  finally show ?thesis .
qed

section \<open>Lists\<close>

lemma prod_list_pos: "(\<forall>x\<in>set xs. 0 < (x::nat)) \<Longrightarrow> 0 < prod_list xs"
  by (induction xs) auto

lemma prod_list_replicate_nat: "prod_list (replicate n (x::nat)) = x ^ n"
  by (induction n) auto

lemma prod_list_map_mult: "prod_list (map (\<lambda>x. f x * g x) xs) = prod_list (map f xs) * (prod_list (map g xs) :: nat)"
  by (induction xs) auto

lemma prod_list_two_power: "prod_list (map (\<lambda>x. 2 ^ x) xs) = (2::nat) ^ sum_list xs"
  by (induction xs) (auto simp: power_add)

lemma prod_list_const_mult: "prod_list (map (\<lambda>x. k * f x) xs) = (k::nat) ^ length xs * prod_list (map f xs)"
  by (induction xs) auto

lemma list_all2_refl_map: "list_all2 P xs (map f xs) \<longleftrightarrow> (\<forall>x\<in>set xs. P x (f x))"
  by (induction xs) auto

end
