(* ===== verification/Rola_Topology.thy ===== *)
theory Rola_Topology
  imports Rola_Prelude
begin

text \<open>
  \<^verbatim>\<open>rola/routing/topology.py\<close>: the limits of the routing tree, the padded level width
  every kernel-facing component derives, and the two validators. A caller's argument is a
  \<^typ>\<open>pyval\<close> until \<^verbatim>\<open>type(x) is int\<close> has accepted it.
\<close>

definition MAX_ROUTING_DEPTH :: nat where "MAX_ROUTING_DEPTH = 4"
definition MAX_BRANCH_WIDTH :: nat where "MAX_BRANCH_WIDTH = 256"
definition PADDED_LEVEL_FLOOR :: nat where "PADDED_LEVEL_FLOOR = 16"

definition padded_width_nat :: "nat \<Rightarrow> nat \<Rightarrow> nat" where
  "padded_width_nat floor w = next_pow2 (max w floor)"

definition padded_level_width :: "nat \<Rightarrow> pyval \<Rightarrow> nat res" where
  "padded_level_width floor width =
     (if \<not> is_exact_int width \<or> int_of width < 1
      then Inl (ValueError ''a level width must be a positive exact int'')
      else Inr (padded_width_nat floor (nat (int_of width))))"

text \<open>The width the producer pads every level to: the default floor.\<close>

abbreviation pad_width :: "nat \<Rightarrow> nat" where
  "pad_width w \<equiv> padded_width_nat PADDED_LEVEL_FLOOR w"

definition validate_level_width :: "pyval \<Rightarrow> nat res" where
  "validate_level_width width =
     (if \<not> is_exact_int width then Inl (TypeError ''width must be an exact int'')
      else if int_of width < 1 then Inl (ValueError ''width must be >= 1'')
      else if int_of width > int MAX_BRANCH_WIDTH then Inl (ValueError ''width must be <= 256'')
      else Inr (nat (int_of width)))"

text \<open>
  The list-wide check walks the levels in order, so the first offending level decides the
  exception. It bounds the widths from above only; the values stay integers.
\<close>

fun check_branches :: "pyval list \<Rightarrow> unit res" where
  "check_branches [] = Inr ()"
| "check_branches (w # ws) =
     (if \<not> is_exact_int w then Inl (TypeError ''branch widths must be exact ints'')
      else if int_of w > int MAX_BRANCH_WIDTH then Inl (ValueError ''branch width must be <= 256'')
      else check_branches ws)"

definition validate_routing_shape :: "pyval list \<Rightarrow> int list res" where
  "validate_routing_shape branches =
     (if branches = [] then Inl (ValueError ''must contain at least one routing level'')
      else if length branches > MAX_ROUTING_DEPTH then Inl (ValueError ''depth D must be <= 4'')
      else rbind (check_branches branches) (\<lambda>_. Inr (map int_of branches)))"

section \<open>The padded width\<close>

lemma padded_width_pow2 [simp]: "is_pow2 (padded_width_nat f w)"
  by (simp add: padded_width_nat_def)

lemma padded_width_ge: "w \<le> padded_width_nat f w" and padded_width_floor: "f \<le> padded_width_nat f w"
  using next_pow2_ge [of "max w f"] by (auto simp: padded_width_nat_def)

lemma padded_width_le_iff:
  "0 < f \<Longrightarrow> padded_width_nat f w \<le> 2 ^ e \<longleftrightarrow> w \<le> 2 ^ e \<and> f \<le> 2 ^ e"
  by (simp add: padded_width_nat_def next_pow2_le_iff)

lemma padded_width_id: "is_pow2 w \<Longrightarrow> f \<le> w \<Longrightarrow> padded_width_nat f w = w"
  by (simp add: padded_width_nat_def next_pow2_id)

lemma pad_width_floor: "16 \<le> pad_width w"
  using padded_width_floor [of PADDED_LEVEL_FLOOR w] by (simp add: PADDED_LEVEL_FLOOR_def)

lemma pad_width_idem: "pad_width (pad_width w) = pad_width w"
  by (rule padded_width_id) (simp_all add: padded_width_floor)

lemma pad_width_max: "w \<le> MAX_BRANCH_WIDTH \<Longrightarrow> pad_width w \<le> MAX_BRANCH_WIDTH"
  using padded_width_le_iff [of PADDED_LEVEL_FLOOR w 8]
  by (simp add: PADDED_LEVEL_FLOOR_def MAX_BRANCH_WIDTH_def)

lemma pad_width_dvd16: "16 dvd pad_width w"
proof (rule is_pow2_dvd)
  show "is_pow2 (16::nat)" using is_pow2_power [of 4] by simp
qed (simp_all add: pad_width_floor)

text \<open>
  A lawful kernel-facing topology: what every level is once padded.
\<close>

definition lawful_widths :: "nat list \<Rightarrow> bool" where
  "lawful_widths ws \<longleftrightarrow> ws \<noteq> [] \<and> length ws \<le> MAX_ROUTING_DEPTH
     \<and> (\<forall>w\<in>set ws. is_pow2 w \<and> PADDED_LEVEL_FLOOR \<le> w \<and> w \<le> MAX_BRANCH_WIDTH)"

lemma lawful_pad:
  "ws \<noteq> [] \<Longrightarrow> length ws \<le> MAX_ROUTING_DEPTH \<Longrightarrow> \<forall>w\<in>set ws. w \<le> MAX_BRANCH_WIDTH
   \<Longrightarrow> lawful_widths (map pad_width ws)"
  by (auto simp: lawful_widths_def pad_width_max padded_width_floor)

lemma lawful_width_dvd16: "lawful_widths ws \<Longrightarrow> w \<in> set ws \<Longrightarrow> 16 dvd w"
  by (metis PADDED_LEVEL_FLOOR_def lawful_widths_def pad_width_dvd16 padded_width_id)

lemma lawful_width_pos: "lawful_widths ws \<Longrightarrow> w \<in> set ws \<Longrightarrow> 0 < w"
  by (auto simp: lawful_widths_def is_pow2_def)

section \<open>The validators\<close>

lemma check_branches_Inr:
  "check_branches ws = Inr u \<longleftrightarrow> (\<forall>w\<in>set ws. is_exact_int w \<and> int_of w \<le> int MAX_BRANCH_WIDTH)"
  by (induction ws) auto

lemma validate_routing_shape_Inr:
  "validate_routing_shape bs = Inr ws \<longleftrightarrow>
     bs \<noteq> [] \<and> length bs \<le> MAX_ROUTING_DEPTH \<and> bs = map PyInt ws
     \<and> (\<forall>w\<in>set ws. w \<le> int MAX_BRANCH_WIDTH)"
proof -
  have "(\<forall>w\<in>set bs. is_exact_int w) \<Longrightarrow> map (PyInt \<circ> int_of) bs = bs"
    by (rule map_idI) (auto simp: is_exact_int_iff)
  then show ?thesis
    by (auto simp: validate_routing_shape_def res_simps check_branches_Inr comp_def)
qed

lemma validate_level_width_Inr:
  "validate_level_width v = Inr w \<longleftrightarrow> v = PyInt (int w) \<and> 1 \<le> w \<and> w \<le> MAX_BRANCH_WIDTH"
  by (cases v) (auto simp: validate_level_width_def)

section \<open>Properties\<close>

text \<open>
  \<^verbatim>\<open>padded_level_width\<close> accepts exactly the positive exact integers, and then returns the
  least power of two that admits both the width and the floor.
\<close>

theorem padded_level_width_correct:
  "padded_level_width PADDED_LEVEL_FLOOR v = Inr p \<longleftrightarrow>
     (\<exists>w\<ge>1. v = PyInt (int w) \<and> is_pow2 p \<and> w \<le> p \<and> 16 \<le> p
            \<and> (\<forall>q. is_pow2 q \<and> w \<le> q \<and> 16 \<le> q \<longrightarrow> p \<le> q))"
  (is "_ \<longleftrightarrow> (\<exists>w\<ge>1. ?P w)")
proof
  assume ok: "padded_level_width PADDED_LEVEL_FLOOR v = Inr p"
  then obtain i where i: "v = PyInt i" "1 \<le> i" "p = pad_width (nat i)"
    by (cases v) (auto simp: padded_level_width_def split: if_splits)
  have "p \<le> q" if "is_pow2 q" "nat i \<le> q" "16 \<le> q" for q
    using that i by (auto simp: is_pow2_iff padded_width_le_iff PADDED_LEVEL_FLOOR_def)
  with i have "?P (nat i)"
    using padded_width_ge [of "nat i" PADDED_LEVEL_FLOOR] pad_width_floor [of "nat i"] by simp
  with i show "\<exists>w\<ge>1. ?P w" by (intro exI [of _ "nat i"]) auto
next
  assume "\<exists>w\<ge>1. ?P w"
  then obtain w where w: "1 \<le> w" "?P w" by blast
  have "pad_width w = p"
  proof (rule le_antisym)
    show "pad_width w \<le> p"
      using w by (auto simp: is_pow2_iff padded_width_le_iff PADDED_LEVEL_FLOOR_def)
    show "p \<le> pad_width w" using w padded_width_ge [of w PADDED_LEVEL_FLOOR] pad_width_floor [of w] by simp
  qed
  with w show "padded_level_width PADDED_LEVEL_FLOOR v = Inr p"
    by (simp add: padded_level_width_def)
qed

theorem padded_level_width_correct_witness:
  "\<exists>w\<ge>1. PyInt 20 = PyInt (int w) \<and> is_pow2 (32::nat) \<and> w \<le> 32 \<and> (16::nat) \<le> 32
     \<and> (\<forall>q. is_pow2 q \<and> w \<le> q \<and> 16 \<le> q \<longrightarrow> 32 \<le> q)"
  by (rule iffD1 [OF padded_level_width_correct])
     (simp add: padded_level_width_def padded_width_nat_def next_pow2_def PADDED_LEVEL_FLOOR_def
        bit_length.simps)

end
