(* ===== verification/Rola_Radix.thy ===== *)
theory Rola_Radix
  imports Rola_Prelude
begin

text \<open>
  The leaf address: MSB-first mixed radix over the level widths. The source derives the
  strides three times, on purpose: the routing types (\<^verbatim>\<open>rola/routing/types.py\<close>), the
  oracle (\<^verbatim>\<open>rola/ops/naive.py\<close>) and the liveness layout
  (\<^verbatim>\<open>rola/engine/facts/liveness.py\<close>). This theory has all three derivations, the digits
  and their inverse, and the locale \<^verbatim>\<open>leaf_order\<close>: what a component relies on when it
  stores the leaves of a plane in another order.
\<close>

section \<open>Strides, three derivations\<close>

definition radix_strides :: "nat list \<Rightarrow> nat list" where
  "radix_strides ws = map (\<lambda>index. prod_list (drop (index + 1) ws)) [0..<length ws]"

definition oracle_leaf_capacity :: "nat list \<Rightarrow> nat" where
  "oracle_leaf_capacity ws = fold (\<lambda>w capacity. capacity * w) ws 1"

definition oracle_radix_strides :: "nat list \<Rightarrow> nat list" where
  "oracle_radix_strides ws =
     fold (\<lambda>index strides. strides @ [fold (\<lambda>w stride. stride * w) (drop (index + 1) ws) 1])
       [0..<length ws] []"

definition layout_radix_strides :: "nat list \<Rightarrow> nat list" where
  "layout_radix_strides ws =
     rev (fst (fold (\<lambda>w (strides, suffix). (strides @ [suffix], suffix * w)) (rev ws) ([], 1)))"

fun suffix_products :: "nat list \<Rightarrow> nat list" where
  "suffix_products [] = []"
| "suffix_products (w # ws) = prod_list ws # suffix_products ws"

lemma length_suffix_products [simp]: "length (suffix_products ws) = length ws"
  by (induction ws) auto

lemma nth_suffix_products: "l < length ws \<Longrightarrow> suffix_products ws ! l = prod_list (drop (Suc l) ws)"
  by (induction ws arbitrary: l) (auto simp: nth_Cons split: nat.splits)

lemma fold_mult: "fold (\<lambda>w c. c * w) ws (c::nat) = c * prod_list ws"
  by (induction ws arbitrary: c) auto

lemma fold_snoc: "fold (\<lambda>i acc. acc @ [f i]) xs acc = acc @ map f xs"
  by (induction xs arbitrary: acc) auto

lemma radix_strides_suffix: "radix_strides ws = suffix_products ws"
  by (rule nth_equalityI) (simp_all add: radix_strides_def nth_suffix_products)

lemma oracle_radix_strides_suffix: "oracle_radix_strides ws = suffix_products ws"
proof -
  have "oracle_radix_strides ws = radix_strides ws"
    by (simp add: oracle_radix_strides_def radix_strides_def fold_snoc fold_mult)
  then show ?thesis by (simp add: radix_strides_suffix)
qed

lemma layout_fold:
  "fold (\<lambda>w (strides, suffix). (strides @ [suffix], suffix * w)) (rev ws) (acc, 1)
   = (acc @ rev (suffix_products ws), prod_list ws)"
  by (induction ws arbitrary: acc) auto

lemma layout_radix_strides_suffix: "layout_radix_strides ws = suffix_products ws"
  by (simp add: layout_radix_strides_def layout_fold del: One_nat_def)

lemmas strides_agree =
  radix_strides_suffix oracle_radix_strides_suffix layout_radix_strides_suffix

section \<open>Digits\<close>

text \<open>
  \<^verbatim>\<open>(s // stride_l) % width_l\<close>, level by level, and the leaf a digit vector addresses.
\<close>

definition leaf_digit :: "nat list \<Rightarrow> nat \<Rightarrow> nat \<Rightarrow> nat" where
  "leaf_digit ws l s = (s div (radix_strides ws ! l)) mod (ws ! l)"

fun digits :: "nat list \<Rightarrow> nat \<Rightarrow> nat list" where
  "digits [] s = []"
| "digits (w # ws) s = (s div prod_list ws) mod w # digits ws s"

fun undigits :: "nat list \<Rightarrow> nat list \<Rightarrow> nat" where
  "undigits (w # ws) (d # ds) = d * prod_list ws + undigits ws ds"
| "undigits _ _ = 0"

definition in_digits :: "nat list \<Rightarrow> nat list \<Rightarrow> bool" where
  "in_digits ws ds \<longleftrightarrow> list_all2 (\<lambda>w d. d < w) ws ds"

lemma in_digits_simps [simp]:
  "in_digits [] ds \<longleftrightarrow> ds = []"
  "in_digits (w # ws) ds \<longleftrightarrow> (\<exists>d ds'. ds = d # ds' \<and> d < w \<and> in_digits ws ds')"
  by (auto simp: in_digits_def list_all2_Cons1)

lemma length_digits [simp]: "length (digits ws s) = length ws"
  by (induction ws) auto

lemma nth_digits: "l < length ws \<Longrightarrow> digits ws s ! l = leaf_digit ws l s"
proof (induction ws arbitrary: l)
  case (Cons w ws)
  then show ?case
    by (cases l) (auto simp: leaf_digit_def radix_strides_suffix)
qed simp

lemma in_digits_digits: "\<forall>w\<in>set ws. 0 < w \<Longrightarrow> in_digits ws (digits ws s)"
  by (induction ws) auto

lemma undigits_less: "in_digits ws ds \<Longrightarrow> undigits ws ds < prod_list ws"
proof (induction ws arbitrary: ds)
  case (Cons w ws)
  then obtain d ds' where ds: "ds = d # ds'" "d < w" "in_digits ws ds'" by auto
  with Cons.IH have "undigits ws ds' < prod_list ws" by blast
  with ds show ?case by (simp add: mult_add_less)
qed simp

lemma digits_shift: "digits ws (a * prod_list ws + s) = digits ws s"
proof (induction ws arbitrary: a)
  case (Cons w ws)
  show ?case
  proof (cases "prod_list ws = 0")
    case True
    then show ?thesis by simp
  next
    case False
    have eq: "a * prod_list (w # ws) + s = (a * w) * prod_list ws + s" by (simp add: ac_simps)
    have "((a * w) * prod_list ws + s) div prod_list ws mod w = s div prod_list ws mod w"
      using False by simp
    then show ?thesis unfolding eq by (simp only: digits.simps Cons)
  qed
qed simp

lemma digits_undigits: "in_digits ws ds \<Longrightarrow> digits ws (undigits ws ds) = ds"
proof (induction ws arbitrary: ds)
  case (Cons w ws)
  then obtain d ds' where ds: "ds = d # ds'" "d < w" "in_digits ws ds'" by auto
  with undigits_less have "undigits ws ds' < prod_list ws" by blast
  with ds Cons.IH [of ds'] show ?case by (simp add: digits_shift)
qed simp

lemma undigits_digits: "undigits ws (digits ws s) = s mod prod_list ws"
proof (induction ws)
  case (Cons w ws)
  have "s mod (prod_list ws * w) = prod_list ws * (s div prod_list ws mod w) + s mod prod_list ws"
    by (rule mod_mult2_eq)
  with Cons show ?case by (simp add: ac_simps)
qed simp

lemma undigits_digits_id [simp]: "s < prod_list ws \<Longrightarrow> undigits ws (digits ws s) = s"
  by (simp add: undigits_digits)

lemma undigits_inject:
  "in_digits ws ds \<Longrightarrow> in_digits ws es \<Longrightarrow> undigits ws ds = undigits ws es \<longleftrightarrow> ds = es"
  by (metis digits_undigits)

lemma in_digits_append:
  "in_digits (us @ vs) ds \<longleftrightarrow>
     in_digits us (take (length us) ds) \<and> in_digits vs (drop (length us) ds)"
proof (induction us arbitrary: ds)
  case (Cons u us)
  then show ?case by (cases ds) auto
qed simp

lemma undigits_append:
  "in_digits (us @ vs) ds \<Longrightarrow>
   undigits (us @ vs) ds = undigits us (take (length us) ds) * prod_list vs + undigits vs (drop (length us) ds)"
proof (induction us arbitrary: ds)
  case (Cons u us)
  then show ?case by (cases ds) (auto simp: algebra_simps)
qed simp

section \<open>A plane re-read in another leaf order\<close>

text \<open>
  \<^verbatim>\<open>index_select(1, pi)\<close> and \<^verbatim>\<open>index_copy_(1, pi, src)\<close> on one \<^verbatim>\<open>[N]\<close> slice of rows. The
  destination of the copy is an uninitialised buffer in the source: an argument here.
\<close>

definition index_select :: "'a list \<Rightarrow> nat list \<Rightarrow> 'a list" where
  "index_select xs idx = map (\<lambda>i. xs ! i) idx"

definition index_copy :: "'a list \<Rightarrow> nat list \<Rightarrow> 'a list \<Rightarrow> 'a list" where
  "index_copy out idx src = fold (\<lambda>(i, x) buf. buf[i := x]) (zip idx src) out"

lemma length_fold_update [simp]: "length (fold (\<lambda>(i, x) buf. buf[i := x]) ps out) = length out"
  by (induction ps arbitrary: out) auto

lemma fold_update_other:
  "j \<notin> set (map fst ps) \<Longrightarrow> fold (\<lambda>(i, x) buf. buf[i := x]) ps out ! j = out ! j"
  by (induction ps arbitrary: out) auto

lemma fold_update_nth:
  "distinct (map fst ps) \<Longrightarrow> k < length ps \<Longrightarrow> fst (ps ! k) < length out
   \<Longrightarrow> fold (\<lambda>(i, x) buf. buf[i := x]) ps out ! fst (ps ! k) = snd (ps ! k)"
proof (induction ps arbitrary: out k)
  case (Cons p ps)
  obtain i x where p: "p = (i, x)" by (cases p)
  show ?case
  proof (cases k)
    case 0
    with Cons.prems p show ?thesis by (simp add: fold_update_other)
  next
    case (Suc k')
    with Cons.prems p Cons.IH [of k' "out[i := x]"] show ?thesis by simp
  qed
qed simp

lemma index_copy_nth:
  "distinct idx \<Longrightarrow> length src = length idx \<Longrightarrow> k < length idx \<Longrightarrow> idx ! k < length out
   \<Longrightarrow> index_copy out idx src ! (idx ! k) = src ! k"
  using fold_update_nth [of "zip idx src" k out] by (simp add: index_copy_def)

lemma index_copy_other:
  "length src = length idx \<Longrightarrow> j \<notin> set idx \<Longrightarrow> index_copy out idx src ! j = out ! j"
  by (simp add: index_copy_def fold_update_other)

lemma index_copy_Nil [simp]: "index_copy out [] src = out"
  by (simp add: index_copy_def)

lemma index_copy_Cons [simp]: "index_copy out (i # idx) (x # src) = index_copy (out[i := x]) idx src"
  by (simp add: index_copy_def)

lemma length_index_copy [simp]: "length (index_copy out idx src) = length out"
  by (simp add: index_copy_def)

locale leaf_order =
  fixes order_of :: "nat \<Rightarrow> nat" and n :: nat
  assumes order_lt: "s < n \<Longrightarrow> order_of s < n"
    and order_inj: "s < n \<Longrightarrow> t < n \<Longrightarrow> order_of s = order_of t \<Longrightarrow> s = t"
begin

lemma inj_on_order: "inj_on order_of {..<n}"
  using order_inj by (auto simp: inj_on_def)

lemma bij_order: "bij_betw order_of {..<n} {..<n}"
  unfolding bij_betw_def using inj_on_order order_lt
  by (simp add: endo_inj_surj image_subset_iff)

definition table :: "nat list" where
  "table = map order_of [0..<n]"

lemma length_table [simp]: "length table = n"
  by (simp add: table_def)

lemma distinct_table: "distinct table"
  using inj_on_order by (simp add: table_def distinct_map atLeast0LessThan)

lemma set_table: "set table = {..<n}"
  using bij_order by (simp add: table_def bij_betw_def atLeast0LessThan)

lemma select_copy:
  assumes "length src = n" "length out = n"
  shows "index_select (index_copy out table src) table = src"
proof (rule nth_equalityI)
  fix k assume "k < length (index_select (index_copy out table src) table)"
  then have k: "k < length table" by (simp add: index_select_def)
  then have "table ! k \<in> set table" by simp
  then have "table ! k < n" by (simp add: set_table)
  with k assms distinct_table have "index_copy out table src ! (table ! k) = src ! k"
    by (intro index_copy_nth) simp_all
  with k show "index_select (index_copy out table src) table ! k = src ! k"
    by (simp add: index_select_def)
qed (use assms in \<open>simp add: index_select_def\<close>)

lemma copy_select:
  assumes "length src = n" "length out = n"
  shows "index_copy out table (index_select src table) = src"
proof (rule nth_equalityI)
  fix j assume "j < length (index_copy out table (index_select src table))"
  then have "j \<in> set table" using assms by (simp add: set_table)
  then obtain k where k: "k < length table" "table ! k = j" by (auto simp: in_set_conv_nth)
  then have "index_copy out table (index_select src table) ! (table ! k) = index_select src table ! k"
    using distinct_table assms k \<open>j \<in> set table\<close>
    by (intro index_copy_nth) (auto simp: index_select_def set_table)
  with k show "index_copy out table (index_select src table) ! j = src ! j"
    by (simp add: index_select_def)
qed (use assms in simp)

end

text \<open>The canonical order itself: digits and back.\<close>

interpretation canonical: leaf_order "\<lambda>s. undigits ws (digits ws s)" "prod_list ws" for ws
  by unfold_locales (auto simp: undigits_digits)

section \<open>Properties\<close>

text \<open>
  The three independent stride derivations agree, on every width list, and the digit
  the oracle reads at a level is the digit of the mixed-radix decomposition.
\<close>

theorem three_strides_agree:
  "oracle_radix_strides ws = radix_strides ws \<and> layout_radix_strides ws = radix_strides ws
   \<and> oracle_leaf_capacity ws = prod_list ws"
  by (simp add: strides_agree oracle_leaf_capacity_def fold_mult)

text \<open>
  The address of a leaf is a bijection between the leaves and the digit vectors.
\<close>

theorem leaf_address_roundtrip:
  assumes "\<forall>w\<in>set ws. 0 < w"
  shows "bij_betw (digits ws) {..<prod_list ws} {ds. in_digits ws ds}"
  using assms
  by (intro bij_betw_byWitness [where f' = "undigits ws"])
     (auto intro: undigits_less digits_undigits in_digits_digits)

theorem leaf_address_roundtrip_witness:
  "bij_betw (digits [16, 32]) {..<prod_list [16, 32]} {ds. in_digits [16, 32] ds}"
  by (rule leaf_address_roundtrip) simp

end
