(* ===== verification/Rola_Lattice.thy ===== *)
theory Rola_Lattice
  imports Rola_Topology Rola_Radix
begin

text \<open>
  \<^verbatim>\<open>rola/ops/lattice.py\<close>: the \<^verbatim>\<open>(k, m)\<close> box lattice. The box distributes the capacity
  \<^verbatim>\<open>m\<close> over the levels (\<^verbatim>\<open>box_shape\<close>), the atom of 16 leaves is a digit rectangle of it
  (\<^verbatim>\<open>atom_rectangle\<close>, \<^verbatim>\<open>walk_unit\<close>), the search picks one box per topology
  (\<^verbatim>\<open>derive_lattice\<close>), and the leaf permutation moves a plane between the canonical and
  the lattice order. Widths and spans are natural numbers: every caller has validated them.
  \<^verbatim>\<open>int(math.log2(x))\<close> is \<^const>\<open>ilog2\<close>, exact below \<^verbatim>\<open>2**48\<close>.
\<close>

definition MMA_K_QUANTUM :: nat where "MMA_K_QUANTUM = 16"
definition LATTICE_CAP_BC :: nat where "LATTICE_CAP_BC = 128"
definition MAX_SPAN :: nat where "MAX_SPAN = 32"
definition MAX_SPAN_K :: nat where "MAX_SPAN_K = 4"

section \<open>The box\<close>

text \<open>The loop that measures how much capacity the innermost level admits.\<close>

function ceil_inner_from :: "nat \<Rightarrow> nat \<Rightarrow> nat \<Rightarrow> nat" where
  "ceil_inner_from k w c =
     (if 0 < k \<and> k * 2 ^ (c + 1) \<le> w \<and> w mod (k * 2 ^ (c + 1)) = 0
      then ceil_inner_from k w (c + 1) else c)"
  by auto
termination
proof (relation "measure (\<lambda>(k, w, c). w - c)")
  fix k w c :: nat
  assume a: "0 < k \<and> k * 2 ^ (c + 1) \<le> w \<and> w mod (k * 2 ^ (c + 1)) = 0"
  have "c < 2 ^ (c + 1)" by (meson less_exp less_trans lessI add_lessD1 Suc_lessD)
  also have "\<dots> \<le> k * 2 ^ (c + 1)" using a by simp
  also have "\<dots> \<le> w" using a by simp
  finally have "c < w" .
  then show "((k, w, c + 1), (k, w, c)) \<in> measure (\<lambda>(k, w, c). w - c)" by simp
qed simp

declare ceil_inner_from.simps [simp del]

definition inner_exponent :: "nat \<Rightarrow> nat \<Rightarrow> nat \<Rightarrow> nat \<Rightarrow> nat" where
  "inner_exponent D j floor_inner ceil_inner =
     min (min (max (j div D + (if j mod D \<noteq> 0 then 1 else 0)) floor_inner) ceil_inner) j"

definition level_exponents :: "nat \<Rightarrow> nat \<Rightarrow> nat \<Rightarrow> nat list" where
  "level_exponents D a_inner j_outer =
     map (\<lambda>l. if l = D - 1 then a_inner
              else j_outer div (D - 1)
                + (if (D - 1) - j_outer mod (D - 1) \<le> l then 1 else 0)) [0..<D]"

type_synonym box = "nat list \<times> nat list \<times> nat list \<times> nat \<times> nat"

definition box_shape :: "nat list \<Rightarrow> nat \<Rightarrow> nat \<Rightarrow> box res" where
  "box_shape ws k m =
     (let D = length ws; j = ilog2 m; kappa = ilog2 k in
      if m = 0 \<or> 2 ^ j \<noteq> m then Inl (ValueError ''the lattice capacity m must be a power of two'')
      else if k = 0 \<or> 2 ^ kappa \<noteq> k then Inl (ValueError ''the lattice span k must be a power of two'')
      else if ws = [] then Inl (IndexError ''widths[D - 1]'')
      else
        let floor_inner = ilog2 MMA_K_QUANTUM - kappa;
            ceil_inner = ceil_inner_from k (ws ! (D - 1)) 0;
            a_inner = inner_exponent D j floor_inner ceil_inner;
            a = level_exponents D a_inner (j - a_inner)
        in if sum_list a \<noteq> j then Inl (ValueError ''the capacity m does not fit widths at k'')
           else
             let m_l = map (\<lambda>x. 2 ^ x) a; s = map (\<lambda>x. k * x) m_l in
             if \<exists>(w, t) \<in> set (zip ws s). w mod t \<noteq> 0
             then Inl (ValueError ''not a whole number of owner spans'')
             else let g = map2 (\<lambda>w t. w div t) ws s in
                  Inr (m_l, s, g, prod_list s, prod_list g))"

text \<open>What a box that was accepted is.\<close>

definition box_on :: "nat list \<Rightarrow> nat list \<Rightarrow> nat list \<Rightarrow> bool" where
  "box_on ws s g \<longleftrightarrow> list_all2 (\<lambda>w t. is_pow2 t \<and> t dvd w) ws s \<and> g = map2 (\<lambda>w t. w div t) ws s"

lemma level_exponents_length [simp]: "length (level_exponents D a j) = D"
  by (simp add: level_exponents_def)

lemma box_shape_Inr:
  assumes "box_shape ws k m = Inr (m_l, s, g, bc, owners)"
  shows "is_pow2 k" "is_pow2 m" "ws \<noteq> []" "box_on ws s g" "bc = prod_list s"
    "owners = prod_list g" "bc = k ^ length ws * m" "s = map (\<lambda>x. k * x) m_l"
proof -
  define a where "a = level_exponents (length ws)
    (inner_exponent (length ws) (ilog2 m) (ilog2 MMA_K_QUANTUM - ilog2 k)
       (ceil_inner_from k (ws ! (length ws - 1)) 0))
    (ilog2 m - inner_exponent (length ws) (ilog2 m) (ilog2 MMA_K_QUANTUM - ilog2 k)
       (ceil_inner_from k (ws ! (length ws - 1)) 0))"
  have len: "length a = length ws" by (simp add: a_def)
  from assms have k: "is_pow2 k" and m: "is_pow2 m" and ne: "ws \<noteq> []" and sum: "sum_list a = ilog2 m"
    and ml: "m_l = map (\<lambda>x. 2 ^ x) a" and s: "s = map (\<lambda>x. k * x) m_l"
    and dvd: "\<forall>(w, t)\<in>set (zip ws s). w mod t = 0"
    and g: "g = map2 (\<lambda>w t. w div t) ws s" and bc: "bc = prod_list s" and ow: "owners = prod_list g"
    by (auto simp: box_shape_def Let_def is_pow2_def a_def split: if_splits)
  show "is_pow2 k" "is_pow2 m" "ws \<noteq> []" "bc = prod_list s" "owners = prod_list g"
    "s = map (\<lambda>x. k * x) m_l" by fact+
  have "is_pow2 t" if "t \<in> set s" for t
    using that k by (auto simp: s ml intro: pow2_intros)
  with dvd len show "box_on ws s g"
    by (auto simp: box_on_def g list_all2_iff mod_eq_0_iff_dvd dest: set_zip_rightD)
      (simp_all add: s ml)
  have "bc = prod_list (map (\<lambda>x. k * 2 ^ x) a)" by (simp add: bc s ml comp_def)
  also have "\<dots> = k ^ length ws * m"
    using m by (simp add: prod_list_const_mult prod_list_two_power sum len is_pow2_def)
  finally show "bc = k ^ length ws * m" .
qed

lemma box_on_length: "box_on ws s g \<Longrightarrow> length s = length ws \<and> length g = length ws"
  by (auto simp: box_on_def list_all2_lengthD)

lemma box_on_prod: "box_on ws s g \<Longrightarrow> prod_list g * prod_list s = prod_list ws"
proof (induction ws arbitrary: s g)
  case (Cons w ws)
  then obtain t s' where s: "s = t # s'" "is_pow2 t" "t dvd w" and
    on: "box_on ws s' (map2 (\<lambda>w t. w div t) ws s')" and g: "g = map2 (\<lambda>w t. w div t) (w # ws) s"
    by (auto simp: box_on_def list_all2_Cons1)
  have "w = w div t * t" using s by simp
  then have "w * prod_list ws = (w div t * t) * (prod_list (map2 (\<lambda>w t. w div t) ws s') * prod_list s')"
    using Cons.IH [OF on] by simp
  then show ?case by (simp add: g s(1) ac_simps)
qed (simp add: box_on_def)

section \<open>The atom, as a digit rectangle\<close>

fun rectangle_from :: "nat list \<Rightarrow> nat \<Rightarrow> nat \<Rightarrow> nat \<times> nat" where
  "rectangle_from [] whole acc = (whole, MMA_K_QUANTUM div acc)"
| "rectangle_from (span # spans) whole acc =
     (if MMA_K_QUANTUM < acc * span then (whole, MMA_K_QUANTUM div acc)
      else rectangle_from spans (whole + 1) (acc * span))"

definition atom_rectangle :: "nat list \<Rightarrow> nat \<times> nat" where
  "atom_rectangle spans = rectangle_from (rev spans) 0 1"

fun walk_from :: "nat list \<Rightarrow> nat \<Rightarrow> (nat \<times> nat \<times> nat) res" where
  "walk_from [] acc = Inl (ValueError ''no suffix of the spans holds a whole atom'')"
| "walk_from (span # outer) acc =
     (let p = acc * span in
      if p mod MMA_K_QUANTUM = 0 then Inr (length outer, p, p div MMA_K_QUANTUM)
      else walk_from outer p)"

definition walk_unit :: "nat list \<Rightarrow> (nat \<times> nat \<times> nat) res" where
  "walk_unit spans = walk_from (rev spans) 1"

lemma is_pow2_16 [simp]: "is_pow2 16"
  using is_pow2_power [of 4] by simp

lemma rectangle_from_correct:
  assumes "rectangle_from (rev spans) whole (prod_list inner) = (n, p)"
    "\<forall>x\<in>set (spans @ inner). is_pow2 x" "whole = length inner" "prod_list inner \<le> 16"
  shows "whole \<le> n \<and> n \<le> length (spans @ inner)
    \<and> prod_list (drop (length (spans @ inner) - n) (spans @ inner)) * p = 16
    \<and> (n < length (spans @ inner) \<longrightarrow>
         p < (spans @ inner) ! (length (spans @ inner) - Suc n)
         \<and> p dvd (spans @ inner) ! (length (spans @ inner) - Suc n))"
  using assms
proof (induction spans arbitrary: whole inner rule: rev_induct)
  case Nil
  moreover have "prod_list inner dvd 16"
    using Nil.prems by (intro is_pow2_dvd is_pow2_prod_list) auto
  ultimately show ?case by (auto simp: MMA_K_QUANTUM_def)
next
  case (snoc x spans)
  have pd: "is_pow2 (prod_list inner)" using snoc.prems by (intro is_pow2_prod_list) auto
  then have dvd: "prod_list inner dvd 16" using snoc.prems by (intro is_pow2_dvd) auto
  show ?case
  proof (cases "16 < prod_list inner * x")
    case True
    then have np: "n = length inner" "p = 16 div prod_list inner"
      using snoc.prems by (auto simp: MMA_K_QUANTUM_def)
    have p16: "prod_list inner * p = 16" using dvd np by simp
    then have "p < x" using True by (metis mult_less_cancel1)
    moreover have "is_pow2 p" using pd dvd np by (simp add: is_pow2_div)
    ultimately have "p dvd x" using snoc.prems by (intro is_pow2_dvd) auto
    with \<open>p < x\<close> np p16 show ?thesis using snoc.prems by (simp add: nth_append)
  next
    case False
    with snoc.prems have "rectangle_from (rev spans) (Suc whole) (prod_list (x # inner)) = (n, p)"
      by (simp add: MMA_K_QUANTUM_def ac_simps)
    note IH = snoc.IH [OF this]
    with snoc.prems False have "Suc (length inner) \<le> n" by (simp add: ac_simps)
    then have "Suc (length inner) - n = 0" by simp
    with IH snoc.prems False show ?thesis by (simp add: ac_simps)
  qed
qed

lemma walk_from_correct:
  "walk_from (rev spans) (prod_list inner) = Inr (base, leaves, atoms) \<Longrightarrow>
   base < length spans \<and> leaves = prod_list (drop base (spans @ inner)) \<and> leaves = atoms * 16
   \<and> (\<forall>b. base < b \<and> b < length spans \<longrightarrow> \<not> 16 dvd prod_list (drop b (spans @ inner)))"
proof (induction spans arbitrary: inner rule: rev_induct)
  case (snoc x spans)
  show ?case
  proof (cases "16 dvd prod_list inner * x")
    case True
    with snoc.prems show ?thesis
      by (auto simp: MMA_K_QUANTUM_def Let_def mod_eq_0_iff_dvd mult.commute)
  next
    case False
    with snoc.prems have "walk_from (rev spans) (prod_list (x # inner)) = Inr (base, leaves, atoms)"
      by (simp add: MMA_K_QUANTUM_def Let_def mod_eq_0_iff_dvd mult.commute)
    from snoc.IH [OF this] False show ?thesis
      by (auto simp: less_Suc_eq mult.commute)
  qed
qed simp

lemma walk_from_total:
  "16 dvd prod_list (rev spans) * p \<Longrightarrow> spans \<noteq> [] \<Longrightarrow> \<exists>r. walk_from spans p = Inr r"
proof (induction spans arbitrary: p)
  case (Cons x spans)
  show ?case
  proof (cases "16 dvd p * x")
    case False
    then have "spans \<noteq> []" using Cons.prems by (auto simp: mult.commute)
    with False Cons.IH [of "p * x"] Cons.prems show ?thesis
      by (auto simp: MMA_K_QUANTUM_def Let_def mod_eq_0_iff_dvd ac_simps)
  qed (auto simp: MMA_K_QUANTUM_def Let_def mod_eq_0_iff_dvd)
qed simp

section \<open>The search\<close>

text \<open>\<^verbatim>\<open>except ValueError\<close>: a refused box is no candidate, any other exception passes through.\<close>

definition admissible :: "nat \<Rightarrow> nat \<Rightarrow> nat list \<Rightarrow> nat list option res" where
  "admissible k m ws =
     (case box_shape ws k m of
        Inl (ValueError _) \<Rightarrow> Inr None
      | Inl e \<Rightarrow> Inl e
      | Inr (_, s, _, bc, _) \<Rightarrow>
          Inr (if LATTICE_CAP_BC < bc \<or> (\<exists>x\<in>set s. MAX_SPAN < x) then None else Some s))"

text \<open>\<^verbatim>\<open>while (1 << j) <= bound\<close>: the powers of two up to a bound, in increasing order.\<close>

function pow2s_from :: "nat \<Rightarrow> nat \<Rightarrow> nat list" where
  "pow2s_from bound j = (if 2 ^ j \<le> bound then 2 ^ j # pow2s_from bound (Suc j) else [])"
  by auto
termination
proof (relation "measure (\<lambda>(bound, j). bound - j)")
  fix bound j :: nat
  assume "2 ^ j \<le> bound"
  moreover have "j < 2 ^ j" by (rule less_exp)
  ultimately have "j < bound" by linarith
  then show "((bound, Suc j), (bound, j)) \<in> measure (\<lambda>(bound, j). bound - j)" by simp
qed simp

declare pow2s_from.simps [simp del]

type_synonym rank = "nat \<times> int \<times> nat"

fun rank_gt :: "rank \<Rightarrow> rank \<Rightarrow> bool" where
  "rank_gt (a, b, c) (a', b', c') \<longleftrightarrow> a' < a \<or> a = a' \<and> (b' < b \<or> b = b' \<and> c' < c)"

definition rank_of :: "nat list \<Rightarrow> nat \<Rightarrow> rank" where
  "rank_of s k =
     (case atom_rectangle s of
        (whole, partial) \<Rightarrow> (prod_list s, - int (whole + (if 1 < partial then 1 else 0)), k))"

definition consider_box :: "nat list \<Rightarrow> nat \<times> nat \<Rightarrow> rank \<times> nat \<times> nat \<Rightarrow> (rank \<times> nat \<times> nat) res" where
  "consider_box ws km best =
     rbind (admissible (fst km) (snd km) ws) (\<lambda>found.
       Inr (case found of
          None \<Rightarrow> best
        | Some s \<Rightarrow> if rank_gt (rank_of s (fst km)) (fst best)
                    then (rank_of s (fst km), km) else best))"

definition lattice_candidates :: "nat list \<Rightarrow> (nat \<times> nat) list" where
  "lattice_candidates ws =
     concat (map (\<lambda>k. map (\<lambda>m. (k, m)) (pow2s_from (prod_list ws) 0)) (pow2s_from MAX_SPAN_K 0))"

definition derive_lattice :: "nat list \<Rightarrow> (nat \<times> nat) res" where
  "derive_lattice ws =
     rbind (fold (\<lambda>km acc. rbind acc (consider_box ws km)) (lattice_candidates ws) (Inr ((0, 0, 0), (1, 1))))
       (\<lambda>best. Inr (snd best))"

text \<open>On a topology with a level no candidate raises, and the search is a plain fold.\<close>

definition fitting :: "nat \<Rightarrow> nat \<Rightarrow> nat list \<Rightarrow> nat list option" where
  "fitting k m ws =
     (case box_shape ws k m of
        Inl _ \<Rightarrow> None
      | Inr (_, s, _, bc, _) \<Rightarrow> if bc \<le> 128 \<and> (\<forall>x\<in>set s. x \<le> 32) then Some s else None)"

definition better_box :: "nat list \<Rightarrow> nat \<times> nat \<Rightarrow> rank \<times> nat \<times> nat \<Rightarrow> rank \<times> nat \<times> nat" where
  "better_box ws km best =
     (case fitting (fst km) (snd km) ws of
        None \<Rightarrow> best
      | Some s \<Rightarrow> if rank_gt (rank_of s (fst km)) (fst best)
                  then (rank_of s (fst km), km) else best)"

lemma box_shape_Inl: "ws \<noteq> [] \<Longrightarrow> box_shape ws k m = Inl e \<Longrightarrow> \<exists>t. e = ValueError t"
  by (auto simp: box_shape_def Let_def split: if_splits)

lemma admissible_fitting:
  assumes "ws \<noteq> []"
  shows "admissible k m ws = Inr (fitting k m ws)"
proof (cases "box_shape ws k m")
  case (Inl e)
  then obtain t where "e = ValueError t" using box_shape_Inl [OF assms] by blast
  with Inl show ?thesis by (simp add: admissible_def fitting_def)
next
  case (Inr b)
  then show ?thesis
    by (cases b) (auto simp: admissible_def fitting_def LATTICE_CAP_BC_def MAX_SPAN_def not_le)
qed

lemma derive_lattice_fold:
  assumes "ws \<noteq> []"
  shows "derive_lattice ws = Inr (snd (fold (better_box ws) (lattice_candidates ws) ((0, 0, 0), (1, 1))))"
proof -
  have "consider_box ws km b = Inr (better_box ws km b)" for km b
    by (simp add: consider_box_def better_box_def admissible_fitting [OF assms])
  then have "fold (\<lambda>km acc. rbind acc (consider_box ws km)) kms (Inr b) = Inr (fold (better_box ws) kms b)" for kms b
    by (induction kms arbitrary: b) simp_all
  then show ?thesis by (simp add: derive_lattice_def)
qed

lemma derive_lattice_empty: "derive_lattice [] = Inl (IndexError ''widths[D - 1]'')"
proof -
  have raise: "consider_box [] km b = Inl (IndexError ''widths[D - 1]'')" if "is_pow2 (fst km)" "is_pow2 (snd km)" for km b
    using that is_pow2_pos [OF that(1)] is_pow2_pos [OF that(2)]
    by (auto simp: consider_box_def admissible_def box_shape_def Let_def is_pow2_def)
  have stuck: "fold (\<lambda>km acc. rbind acc (consider_box [] km)) kms (Inl e) = Inl e" for kms e
    by (induction kms) simp_all
  have "lattice_candidates [] = (1, 1) # tl (lattice_candidates [])" by code_simp
  then obtain rest where "lattice_candidates [] = (1, 1) # rest" by blast
  then show ?thesis using raise [of "(1, 1)"] by (simp add: derive_lattice_def stuck)
qed

lemma set_pow2s_from: "set (pow2s_from bound j) = {2 ^ i | i. j \<le> i \<and> 2 ^ i \<le> bound}"
proof (induction bound j rule: pow2s_from.induct)
  case (1 bound j)
  show ?case
  proof (cases "2 ^ j \<le> bound")
    case True
    then have "set (pow2s_from bound j) = insert (2 ^ j) {2 ^ i | i. Suc j \<le> i \<and> 2 ^ i \<le> bound}"
      using 1 by (subst pow2s_from.simps) simp
    also have "\<dots> = {2 ^ i | i. j \<le> i \<and> 2 ^ i \<le> bound}"
      using True by (auto intro: le_antisym simp: not_less_eq_eq)
    finally show ?thesis .
  next
    case False
    have "\<not> 2 ^ i \<le> bound" if "j \<le> i" for i
    proof -
      have "(2::nat) ^ j \<le> 2 ^ i" using that by (rule power_increasing) simp
      with False show ?thesis by linarith
    qed
    with False show ?thesis by (subst pow2s_from.simps) auto
  qed
qed

lemma lattice_candidates_iff:
  "(k, m) \<in> set (lattice_candidates ws) \<longleftrightarrow>
     is_pow2 k \<and> k \<le> 4 \<and> is_pow2 m \<and> m \<le> prod_list ws"
  by (auto simp: lattice_candidates_def set_pow2s_from is_pow2_iff MAX_SPAN_K_def)

lemma rank_gt_trans: "rank_gt x y \<Longrightarrow> rank_gt y z \<Longrightarrow> rank_gt x z"
  by (cases x; cases y; cases z) auto

lemma rank_gt_irrefl [simp]: "\<not> rank_gt x x"
  by (cases x) auto

lemma rank_gt_total: "rank_gt x y \<or> x = y \<or> rank_gt y x"
  by (cases x; cases y) auto

text \<open>A rank that is not beaten stays not beaten when the best only goes up.\<close>

lemma rank_not_gt_mono: "\<not> rank_gt r b \<Longrightarrow> b' = b \<or> rank_gt b' b \<Longrightarrow> \<not> rank_gt r b'"
  by (metis rank_gt_trans)

lemma better_box_up: "fst (better_box ws km b) = fst b \<or> rank_gt (fst (better_box ws km b)) (fst b)"
  by (auto simp: better_box_def split: option.splits)

lemma fold_consider_up:
  "fst (fold (better_box ws) kms b) = fst b \<or> rank_gt (fst (fold (better_box ws) kms b)) (fst b)"
proof (induction kms arbitrary: b)
  case (Cons km kms)
  from Cons [of "better_box ws km b"] better_box_up [of ws km b] show ?case
    by (auto dest: rank_gt_trans)
qed simp

lemma fold_consider_max:
  "km \<in> set kms \<Longrightarrow> fitting (fst km) (snd km) ws = Some s
   \<Longrightarrow> \<not> rank_gt (rank_of s (fst km)) (fst (fold (better_box ws) kms b))"
proof (induction kms arbitrary: b)
  case (Cons x kms)
  show ?case
  proof (cases "km = x")
    case True
    have "\<not> rank_gt (rank_of s (fst km)) (fst (better_box ws x b))"
      using Cons.prems True by (simp add: better_box_def)
    then show ?thesis using fold_consider_up [of ws kms "better_box ws x b"]
      by (auto dest: rank_gt_trans)
  next
    case False
    with Cons show ?thesis by simp
  qed
qed simp

definition best_ok :: "nat list \<Rightarrow> rank \<times> nat \<times> nat \<Rightarrow> bool" where
  "best_ok ws b \<longleftrightarrow> b = ((0, 0, 0), (1, 1))
     \<or> fst (snd b) \<le> 4 \<and> (\<exists>s. fitting (fst (snd b)) (snd (snd b)) ws = Some s \<and> fst b = rank_of s (fst (snd b)))"

lemma fold_consider_ok: "\<forall>km\<in>set kms. fst km \<le> 4 \<Longrightarrow> best_ok ws b \<Longrightarrow> best_ok ws (fold (better_box ws) kms b)"
proof (induction kms arbitrary: b)
  case (Cons km kms)
  have "best_ok ws (better_box ws km b)"
    using Cons.prems by (auto simp: better_box_def best_ok_def split: option.splits)
  from Cons.IH [OF _ this] Cons.prems(1) show ?case by simp
qed simp

lemma fitting_Some:
  assumes "fitting k m ws = Some s"
  obtains m_l g where "box_shape ws k m = Inr (m_l, s, g, prod_list s, prod_list g)"
    "prod_list s \<le> 128" "\<forall>x\<in>set s. x \<le> 32" "is_pow2 (prod_list s)"
proof -
  from assms obtain m_l g bc ow where b: "box_shape ws k m = Inr (m_l, s, g, bc, ow)"
    "bc \<le> 128" "\<forall>x\<in>set s. x \<le> 32"
    by (auto simp: fitting_def split: sum.splits if_splits)
  note bx = box_shape_Inr [OF b(1)]
  have "is_pow2 (k ^ length ws)" using bx(1) by (auto simp: is_pow2_iff power_mult [symmetric])
  with bx have "is_pow2 (prod_list s)" using is_pow2_mult [of "k ^ length ws" m] by simp
  with b bx that show thesis by (auto simp: not_less)
qed

text \<open>The sixteen-leaf innermost box fits every width list whose innermost level is a multiple of 16.\<close>

lemma ceil_inner_16:
  assumes "16 dvd w" "0 < w"
  shows "4 \<le> ceil_inner_from 1 w 0"
proof -
  have step: "ceil_inner_from 1 w c = ceil_inner_from 1 w (c + 1)" if "c < 4" for c
  proof -
    have "(2::nat) ^ (c + 1) dvd 2 ^ 4" using that by (intro le_imp_power_dvd) simp
    then have "2 ^ (c + 1) dvd w" using assms(1) by (auto intro: dvd_trans)
    then show ?thesis using assms(2)
      by (subst ceil_inner_from.simps) (auto simp: dvd_imp_le simp del: power_Suc)
  qed
  have ge: "c \<le> ceil_inner_from k v c" for k v c
    by (induction k v c rule: ceil_inner_from.induct) (subst ceil_inner_from.simps, auto)
  have "ceil_inner_from 1 w 0 = ceil_inner_from 1 w 4"
    using step [of 0] step [of 1] step [of 2] step [of 3] by (simp add: numeral_eq_Suc)
  with ge [of 4 1 w] show ?thesis by simp
qed

lemma ilog2_16 [simp]: "ilog2 16 = 4" and ilog2_1 [simp]: "ilog2 (Suc 0) = 0"
  using ilog2_power [of 4] ilog2_power [of 0] by simp_all

lemma ceil_share_le: "(4::nat) div D + (if 4 mod D \<noteq> 0 then 1 else 0) \<le> 4"
proof (cases "D \<le> 1")
  case True
  then show ?thesis by (cases D) auto
next
  case False
  then have "4 div D \<le> 4 div 2" by (intro div_le_mono2) simp_all
  then show ?thesis by simp
qed

lemma fitting_16:
  assumes "ws \<noteq> []" "16 dvd last ws" "\<forall>w\<in>set ws. 0 < w"
  shows "fitting 1 16 ws = Some (replicate (length ws - 1) 1 @ [16])"
proof -
  let ?D = "length ws"
  have "4 \<le> ceil_inner_from 1 (ws ! (?D - 1)) 0"
    using assms by (intro ceil_inner_16) (auto simp: last_conv_nth)
  then have inner: "inner_exponent ?D 4 4 (ceil_inner_from 1 (ws ! (?D - 1)) 0) = 4"
    using ceil_share_le [of ?D] by (simp add: inner_exponent_def max_def min_def)
  have "level_exponents ?D 4 0 = map (\<lambda>l. if l = ?D - 1 then 4 else 0) [0..<?D]"
    unfolding level_exponents_def by (rule map_cong) auto
  also have "\<dots> = replicate (?D - 1) 0 @ [4]"
    using assms(1) by (intro nth_equalityI) (auto simp: nth_append)
  finally have a: "level_exponents ?D 4 0 = replicate (?D - 1) 0 @ [4]" .
  obtain us where us: "ws = us @ [last ws]" using assms(1) by (metis append_butlast_last_id)
  then have len: "length us = ?D - 1" by (metis butlast_snoc length_butlast)
  have "zip ws (replicate (?D - 1) 1 @ [16]) = zip (us @ [last ws]) (replicate (length us) 1 @ [16])"
    using us len by simp
  also have "\<dots> = zip us (replicate (length us) 1) @ [(last ws, 16)]"
    by (subst zip_append) simp_all
  finally have z: "zip ws (replicate (?D - 1) 1 @ [16])
      = zip us (replicate (length us) (1::nat)) @ [(last ws, 16)]" .
  have zip_ok: "\<not> (\<exists>(w, t)\<in>set (zip ws (replicate (?D - 1) 1 @ [16])). w mod t \<noteq> 0)"
    unfolding z using assms(2) by (auto simp: mod_eq_0_iff_dvd zip_replicate2)
  have "prod_list (replicate (?D - 1) (1::nat) @ [16]) = 16"
    by (simp add: prod_list_replicate_nat)
  then show ?thesis
    using assms(1) inner a zip_ok
    by (auto simp: fitting_def box_shape_def Let_def MMA_K_QUANTUM_def sum_list_replicate map_replicate_const)
qed

section \<open>The leaf permutation\<close>

definition lattice_index :: "nat list \<Rightarrow> nat list \<Rightarrow> nat list \<Rightarrow> nat \<Rightarrow> nat \<Rightarrow> nat" where
  "lattice_index ws s g bc ell =
     (let d = (\<lambda>l. (ell div prod_list (drop (l + 1) ws)) mod (ws ! l));
          o_term = sum_list (map (\<lambda>l. (d l div s ! l) * prod_list (drop (l + 1) g)) [0..<length ws]);
          loc = sum_list (map (\<lambda>l. (d l mod s ! l) * prod_list (drop (l + 1) s)) [0..<length ws])
      in o_term * bc + loc)"

definition permutation :: "nat list \<Rightarrow> nat \<Rightarrow> nat \<Rightarrow> nat list res" where
  "permutation ws k m =
     rbind (box_shape ws k m) (\<lambda>(_, s, g, bc, _).
       Inr (map (lattice_index ws s g bc) [0..<prod_list ws]))"

text \<open>
  A plane is a list of \<^verbatim>\<open>[N]\<close> slices of rows (the \<^verbatim>\<open>reshape(-1, n, cols)\<close> of the source);
  \<^verbatim>\<open>out\<close> is the uninitialised \<^verbatim>\<open>empty_like\<close> buffer the copy writes into.
\<close>

definition to_lattice :: "'a list list \<Rightarrow> nat list \<Rightarrow> nat \<Rightarrow> nat \<Rightarrow> 'a list list \<Rightarrow> 'a list list res" where
  "to_lattice out ws k m plane =
     rbind (permutation ws k m) (\<lambda>pi. Inr (map2 (\<lambda>buf x. index_copy buf pi x) out plane))"

definition to_canonical :: "nat list \<Rightarrow> nat \<Rightarrow> nat \<Rightarrow> 'a list list \<Rightarrow> 'a list list res" where
  "to_canonical ws k m plane =
     rbind (permutation ws k m) (\<lambda>pi. Inr (map (\<lambda>x. index_select x pi) plane))"

lemma undigits_sum:
  "length ds = length ws \<Longrightarrow>
   undigits ws ds = sum_list (map (\<lambda>l. ds ! l * prod_list (drop (l + 1) ws)) [0..<length ws])"
proof (induction ws arbitrary: ds)
  case (Cons w ws)
  then obtain d ds' where ds: "ds = d # ds'" "length ds' = length ws" by (cases ds) auto
  have "[0..<length (w # ws)] = 0 # map Suc [0..<length ws]"
    by (simp add: upt_conv_Cons map_Suc_upt del: upt_Suc)
  then show ?case using ds Cons.IH [OF ds(2)] by (simp add: comp_def del: upt_Suc)
qed simp

lemma lattice_index_digits:
  assumes "box_on ws s g"
  shows "lattice_index ws s g bc ell =
    undigits g (map2 (\<lambda>d t. d div t) (digits ws ell) s) * bc
      + undigits s (map2 (\<lambda>d t. d mod t) (digits ws ell) s)"
proof -
  note len = box_on_length [OF assms]
  have d: "ell div prod_list (drop (l + 1) ws) mod ws ! l = digits ws ell ! l" if "l < length ws" for l
    using that by (simp add: nth_digits leaf_digit_def radix_strides_def)
  have o_term: "map (\<lambda>l. (ell div prod_list (drop (l + 1) ws)) mod (ws ! l) div s ! l * prod_list (drop (l + 1) g))
          [0..<length ws]
      = map (\<lambda>l. map2 (\<lambda>d t. d div t) (digits ws ell) s ! l * prod_list (drop (l + 1) g)) [0..<length g]"
    and loc: "map (\<lambda>l. (ell div prod_list (drop (l + 1) ws)) mod (ws ! l) mod s ! l * prod_list (drop (l + 1) s))
          [0..<length ws]
      = map (\<lambda>l. map2 (\<lambda>d t. d mod t) (digits ws ell) s ! l * prod_list (drop (l + 1) s)) [0..<length s]"
    using len d by (auto intro!: map_cong)
  show ?thesis
    using len unfolding lattice_index_def Let_def o_term loc by (simp add: undigits_sum)
qed

lemma div_less_div: "d < w \<Longrightarrow> t dvd w \<Longrightarrow> d div t < w div (t::nat)"
  by (metis dvd_div_mult_self less_mult_imp_div_less)

lemma in_digits_box_div:
  "list_all2 (\<lambda>w t. is_pow2 t \<and> t dvd w) ws s \<Longrightarrow> in_digits ws ds
   \<Longrightarrow> in_digits (map2 (\<lambda>w t. w div t) ws s) (map2 (\<lambda>d t. d div t) ds s)
     \<and> in_digits s (map2 (\<lambda>d t. d mod t) ds s)"
  by (induction ws s arbitrary: ds rule: list_all2_induct)
     (auto simp: div_less_div dest: is_pow2_pos)

lemma in_digits_box:
  assumes "box_on ws s g" "in_digits ws ds"
  shows "in_digits g (map2 (\<lambda>d t. d div t) ds s)" "in_digits s (map2 (\<lambda>d t. d mod t) ds s)"
proof -
  from assms(1) have on: "list_all2 (\<lambda>w t. is_pow2 t \<and> t dvd w) ws s"
    and g: "g = map2 (\<lambda>w t. w div t) ws s"
    unfolding box_on_def by blast+
  from in_digits_box_div [OF on assms(2)]
  show "in_digits g (map2 (\<lambda>d t. d div t) ds s)" "in_digits s (map2 (\<lambda>d t. d mod t) ds s)"
    unfolding g by blast+
qed

lemma digits_box_inject:
  "length ds = length s \<Longrightarrow> length es = length s \<Longrightarrow>
   map2 (\<lambda>d t. d div t) ds s = map2 (\<lambda>d t. d div t) es s \<Longrightarrow>
   map2 (\<lambda>d t. d mod t) ds s = map2 (\<lambda>d t. d mod (t::nat)) es s \<Longrightarrow> ds = es"
proof (induction s arbitrary: ds es)
  case (Cons t s)
  from Cons.prems(1,2) obtain d ds' e es' where de: "ds = d # ds'" "es = e # es'"
    by (cases ds; cases es) auto
  with Cons.prems have dm: "d div t = e div t" "d mod t = e mod t" by simp_all
  have "d = d div t * t + d mod t" by simp
  also have "\<dots> = e div t * t + e mod t" by (simp only: dm)
  also have "\<dots> = e" by simp
  finally have "d = e" .
  with Cons de show ?case by simp
qed simp

text \<open>The owner and the offset inside it, read off the lattice index.\<close>

lemma lattice_index_div_mod:
  assumes "box_on ws s g" "\<forall>w\<in>set ws. 0 < w"
  shows "lattice_index ws s g (prod_list s) ell div prod_list s
           = undigits g (map2 (\<lambda>d t. d div t) (digits ws ell) s)"
    and "lattice_index ws s g (prod_list s) ell mod prod_list s
           = undigits s (map2 (\<lambda>d t. d mod t) (digits ws ell) s)"
proof -
  have "undigits s (map2 (\<lambda>d t. d mod t) (digits ws ell) s) < prod_list s"
    by (intro undigits_less in_digits_box [OF assms(1)] in_digits_digits assms(2))
  then show "lattice_index ws s g (prod_list s) ell div prod_list s
           = undigits g (map2 (\<lambda>d t. d div t) (digits ws ell) s)"
    and "lattice_index ws s g (prod_list s) ell mod prod_list s
           = undigits s (map2 (\<lambda>d t. d mod t) (digits ws ell) s)"
    by (simp_all add: lattice_index_digits [OF assms(1)])
qed

lemma lattice_index_lt:
  assumes "box_on ws s g" "\<forall>w\<in>set ws. 0 < w"
  shows "lattice_index ws s g (prod_list s) ell < prod_list ws"
proof -
  have "undigits g (map2 (\<lambda>d t. d div t) (digits ws ell) s) < prod_list g"
    "undigits s (map2 (\<lambda>d t. d mod t) (digits ws ell) s) < prod_list s"
    by (intro undigits_less in_digits_box [OF assms(1)] in_digits_digits assms(2))+
  then show ?thesis
    by (simp add: lattice_index_digits [OF assms(1)] mult_add_less flip: box_on_prod [OF assms(1)])
qed

lemma lattice_index_inject:
  assumes "box_on ws s g" "\<forall>w\<in>set ws. 0 < w" "a < prod_list ws" "b < prod_list ws"
    "lattice_index ws s g (prod_list s) a = lattice_index ws s g (prod_list s) b"
  shows "a = b"
proof -
  note dm = lattice_index_div_mod [OF assms(1,2), of a] lattice_index_div_mod [OF assms(1,2), of b]
  note ind = in_digits_box [OF assms(1) in_digits_digits [OF assms(2)]]
  have "digits ws a = digits ws b"
  proof (rule digits_box_inject)
    show "map2 (\<lambda>d t. d div t) (digits ws a) s = map2 (\<lambda>d t. d div t) (digits ws b) s"
      using dm assms(5) by (simp flip: undigits_inject [OF ind(1) ind(1)])
    show "map2 (\<lambda>d t. d mod t) (digits ws a) s = map2 (\<lambda>d t. d mod t) (digits ws b) s"
      using dm assms(5) by (simp flip: undigits_inject [OF ind(2) ind(2)])
  qed (simp_all add: box_on_length [OF assms(1)])
  then show ?thesis using assms(3,4) by (metis undigits_digits_id)
qed

text \<open>The order a box gives; a box that was refused gives no order, and the identity stands in.\<close>

definition lattice_pos :: "nat list \<Rightarrow> nat \<Rightarrow> nat \<Rightarrow> nat \<Rightarrow> nat" where
  "lattice_pos ws k m ell =
     (case box_shape ws k m of
        Inr (_, s, g, bc, _) \<Rightarrow> lattice_index ws s g bc ell | Inl _ \<Rightarrow> ell)"

lemma prod_list_pos_iff: "0 < prod_list ws \<longleftrightarrow> (\<forall>w\<in>set ws. 0 < (w::nat))"
  by (induction ws) auto

lemma lattice_pos_cases:
  "(\<exists>s g. box_on ws s g \<and> lattice_pos ws k m = lattice_index ws s g (prod_list s))
   \<or> lattice_pos ws k m = (\<lambda>ell. ell)"
  by (cases "box_shape ws k m") (auto simp: lattice_pos_def fun_eq_iff dest: box_shape_Inr(4,5))

interpretation lattice: leaf_order "lattice_pos ws k m" "prod_list ws" for ws k m
proof unfold_locales
  fix a assume a: "a < prod_list ws"
  then have pos: "\<forall>w\<in>set ws. 0 < w" using prod_list_pos_iff [of ws] by simp
  with a show "lattice_pos ws k m a < prod_list ws"
    using lattice_pos_cases [of ws k m] by (auto simp: lattice_index_lt)
  fix b assume "b < prod_list ws" "lattice_pos ws k m a = lattice_pos ws k m b"
  with a pos show "a = b"
    using lattice_pos_cases [of ws k m] by (auto dest: lattice_index_inject)
qed

lemma permutation_table:
  "permutation ws k m =
     (case box_shape ws k m of Inl e \<Rightarrow> Inl e | Inr _ \<Rightarrow> Inr (lattice.table ws k m))"
  by (cases "box_shape ws k m") (auto simp: permutation_def lattice.table_def lattice_pos_def)

section \<open>Properties\<close>

lemma fitting_candidate:
  assumes "fitting k m ws = Some s" "k \<le> 4" "\<forall>w\<in>set ws. 0 < w"
  shows "(k, m) \<in> set (lattice_candidates ws)"
proof -
  obtain m_l g where b: "box_shape ws k m = Inr (m_l, s, g, prod_list s, prod_list g)"
    using assms(1) by (rule fitting_Some)
  note bx = box_shape_Inr [OF b]
  have "prod_list s dvd prod_list ws" using box_on_prod [OF bx(4)] by (metis dvd_triv_right)
  moreover have "0 < prod_list ws" using assms(3) by (simp add: prod_list_pos)
  moreover have "m \<le> prod_list s" using bx(7) is_pow2_pos [OF bx(1)] by simp
  ultimately have "m \<le> prod_list ws" by (meson dvd_imp_le le_trans)
  with bx assms(2) show ?thesis by (simp add: lattice_candidates_iff)
qed

lemma derive_lattice_cases:
  assumes "ws \<noteq> []"
  obtains (none) "derive_lattice ws = Inr (1, 1)"
      "\<And>k m. (k, m) \<in> set (lattice_candidates ws) \<Longrightarrow> fitting k m ws = None"
  | (some) k m s where "derive_lattice ws = Inr (k, m)" "fitting k m ws = Some s" "k \<le> 4"
      "\<And>k' m' s'. (k', m') \<in> set (lattice_candidates ws) \<Longrightarrow> fitting k' m' ws = Some s'
        \<Longrightarrow> \<not> rank_gt (rank_of s' k') (rank_of s k)"
proof -
  let ?b = "fold (better_box ws) (lattice_candidates ws) ((0, 0, 0), (1, 1))"
  note d = derive_lattice_fold [OF assms]
  have max: "\<not> rank_gt (rank_of s' k') (fst ?b)"
    if "(k', m') \<in> set (lattice_candidates ws)" "fitting k' m' ws = Some s'" for k' m' s'
    using fold_consider_max [of "(k', m')" "lattice_candidates ws" ws s'] that by simp
  have "best_ok ws ?b" by (rule fold_consider_ok) (auto simp: best_ok_def lattice_candidates_iff)
  then consider "?b = ((0, 0, 0), (1, 1))"
    | s where "fst (snd ?b) \<le> 4" "fitting (fst (snd ?b)) (snd (snd ?b)) ws = Some s" "fst ?b = rank_of s (fst (snd ?b))"
    unfolding best_ok_def by blast
  then show thesis
  proof cases
    case 1
    have "fitting k m ws = None" if c: "(k, m) \<in> set (lattice_candidates ws)" for k m
    proof (rule ccontr)
      assume "fitting k m ws \<noteq> None"
      then obtain s where s: "fitting k m ws = Some s" by blast
      then have "0 < prod_list s" by (metis fitting_Some is_pow2_pos)
      then have "rank_gt (rank_of s k) (0, 0, 0)" by (simp add: rank_of_def split: prod.splits)
      with max [OF c s] 1 show False by simp
    qed
    with 1 show thesis by (intro none) (auto simp: d)
  next
    case 2
    then show thesis using max
      by (intro some [of "fst (snd ?b)" "snd (snd ?b)"]) (auto simp: d)
  qed
qed

lemma derive_lattice_lawful:
  assumes "ws \<noteq> []" "\<forall>w\<in>set ws. 16 dvd w \<and> 0 < w"
  obtains k m s where "derive_lattice ws = Inr (k, m)" "fitting k m ws = Some s" "16 dvd prod_list s" "k \<le> 4"
    "\<forall>k' m' s'. k' \<le> 4 \<and> fitting k' m' ws = Some s' \<longrightarrow> \<not> rank_gt (rank_of s' k') (rank_of s k)"
proof (cases rule: derive_lattice_cases [OF assms(1)])
  have adm: "fitting 1 16 ws = Some (replicate (length ws - 1) 1 @ [16])"
    using assms by (intro fitting_16) auto
  then have cand: "(1, 16) \<in> set (lattice_candidates ws)"
    by (rule fitting_candidate) (use assms(2) in auto)
  {
    case 1
    from 1(2) [OF cand] adm show thesis by simp
  next
    case (2 k m s)
    from 2(4) [OF cand adm] have "16 \<le> prod_list s"
      by (auto simp: rank_of_def prod_list_replicate_nat split: prod.splits)
    moreover have "is_pow2 (prod_list s)" using 2(2) by (rule fitting_Some)
    ultimately have "16 dvd prod_list s" by (intro is_pow2_dvd) simp_all
    moreover have "\<not> rank_gt (rank_of s' k') (rank_of s k)" if "k' \<le> 4" "fitting k' m' ws = Some s'" for k' m' s'
      using 2(4) [OF fitting_candidate [OF that(2,1)] that(2)] assms(2) by blast
    ultimately show thesis using 2 that by blast
  }
qed

text \<open>
  An accepted box: the spans are powers of two that tile every level, the box holds
  \<^verbatim>\<open>BC = k^D * m\<close> leaves, and the owners tile the leaf space.
\<close>

theorem box_shape_tiles:
  assumes "box_shape ws k m = Inr (m_l, s, g, bc, owners)"
  shows "list_all2 (\<lambda>w t. is_pow2 t \<and> t dvd w) ws s \<and> bc = k ^ length ws * m
         \<and> owners * bc = prod_list ws"
  using box_shape_Inr [OF assms] box_on_prod [of ws s g] by (simp add: box_on_def)

theorem box_shape_tiles_witness:
  "list_all2 (\<lambda>w t. is_pow2 t \<and> t dvd w) [64, 64] [8, 16]
   \<and> (128::nat) = 4 ^ length [64::nat, 64] * 8 \<and> 32 * 128 = prod_list [64::nat, 64]"
  by (rule box_shape_tiles [of "[64, 64]" 4 8 "[2, 4]" "[8, 16]" "[8, 4]" 128 32]) code_simp

text \<open>
  The atom is a digit rectangle: two leaves of one owner lie in the same 16-leaf atom
  exactly when they agree on every level outside the rectangle and on the aligned sub-run of
  the partial level.
\<close>

theorem atom_rectangle_correct:
  assumes "atom_rectangle s = (whole, partial)" "\<forall>x\<in>set s. is_pow2 x"
    "s = outer @ [x] @ inner" "length inner = whole" "in_digits s ds" "in_digits s es"
  shows "undigits s ds div 16 = undigits s es div 16 \<longleftrightarrow>
     take (length outer) ds = take (length outer) es
     \<and> ds ! length outer div partial = es ! length outer div partial"
proof -
  from assms(1,2) have *: "prod_list inner * partial = 16" "partial < x" "partial dvd x"
    using rectangle_from_correct [of s 0 "[]" whole partial] assms(3,4)
    by (auto simp: atom_rectangle_def nth_append)
  then have p: "0 < partial" by (cases partial) auto
  have split: "undigits s ds div 16 = undigits outer (take (length outer) ds) * (x div partial)
      + ds ! length outer div partial" "ds ! length outer div partial < x div partial"
    "in_digits outer (take (length outer) ds)"
    if ds: "in_digits s ds" for ds
  proof -
    let ?o = "take (length outer) ds" let ?r = "drop (length outer) ds"
    from ds assms(3) have i: "in_digits outer ?o" "in_digits (x # inner) ?r"
      by (auto simp: in_digits_append)
    then obtain d r where r: "?r = d # r" "d < x" "in_digits inner r" by auto
    have d: "ds ! length outer = d" using r(1) by (metis hd_drop_conv_nth list.sel(1) drop_eq_Nil
      linorder_not_le list.distinct(1))
    have "undigits s ds = undigits outer ?o * (x * prod_list inner) + (d * prod_list inner + undigits inner r)"
      using ds assms(3) r by (simp add: undigits_append)
    also have "\<dots> = (undigits outer ?o * x + d) * prod_list inner + undigits inner r"
      by (simp add: algebra_simps)
    finally have "undigits s ds div prod_list inner = undigits outer ?o * x + d"
      using undigits_less [OF r(3)] by simp
    then have "undigits s ds div 16 = (undigits outer ?o * x + d) div partial"
      by (simp flip: *(1) add: div_mult2_eq)
    also have "undigits outer ?o * x = (undigits outer ?o * (x div partial)) * partial"
      using *(3) by simp
    finally show "undigits s ds div 16 = undigits outer ?o * (x div partial) + ds ! length outer div partial"
      using p by (simp add: d)
    show "ds ! length outer div partial < x div partial" using r *(3) by (simp add: d div_less_div)
    show "in_digits outer ?o" by (rule i)
  qed
  have inj: "a * n + b = a' * n + b' \<longleftrightarrow> a = a' \<and> b = b'" if "b < n" "b' < n" for a a' b b' n :: nat
    using that by (metis div_mult_self3 div_less mod_mult_self3 mod_less add.right_neutral
      less_nat_zero_code add_cancel_right_right add.commute)
  show ?thesis
    using split(1) [OF assms(5)] split(1) [OF assms(6)] split(2) [OF assms(5)] split(2) [OF assms(6)]
      undigits_inject [OF split(3) [OF assms(5)] split(3) [OF assms(6)]]
    by (simp add: inj)
qed

theorem atom_rectangle_correct_witness:
  "undigits [4, 32] [2, 17] div 16 = undigits [4, 32] [2, 30] div 16 \<longleftrightarrow>
     take (length [4::nat]) [2::nat, 17] = take (length [4::nat]) [2, 30]
     \<and> [2, 17] ! length [4::nat] div 16 = [2, 30] ! length [4::nat] div (16::nat)"
  by (rule atom_rectangle_correct [of "[4, 32]" 0 16 "[4]" 32 "[]" "[2, 17]" "[2, 30]"]) code_simp+

text \<open>
  The lattice index is owner-major: two leaves have the same owner exactly when their
  digits agree up to the span on every level, and the offset inside the owner is the mixed-radix
  number of the run offsets.
\<close>

theorem lattice_owner_offset:
  assumes "box_shape ws k m = Inr (m_l, s, g, bc, owners)"
    "ell < prod_list ws" "ell' < prod_list ws"
  shows "(lattice_pos ws k m ell div bc = lattice_pos ws k m ell' div bc \<longleftrightarrow>
            map2 (\<lambda>d t. d div t) (digits ws ell) s = map2 (\<lambda>d t. d div t) (digits ws ell') s)
       \<and> lattice_pos ws k m ell mod bc = undigits s (map2 (\<lambda>d t. d mod t) (digits ws ell) s)
       \<and> lattice_pos ws k m ell div bc < owners"
proof -
  note b = box_shape_Inr [OF assms(1)]
  have "0 < prod_list ws" using assms(2) by simp
  then have pos: "\<forall>w\<in>set ws. 0 < w" using prod_list_pos_iff by blast
  have pos_eq: "lattice_pos ws k m l = lattice_index ws s g (prod_list s) l" for l
    using assms(1) by (simp add: lattice_pos_def b(5))
  note ind = in_digits_box(1) [OF b(4) in_digits_digits [OF pos]]
  show ?thesis
    using undigits_less [OF ind [of ell]]
    by (simp add: pos_eq b(5,6) lattice_index_div_mod [OF b(4) pos] undigits_inject [OF ind ind])
qed

theorem lattice_owner_offset_witness:
  "(lattice_pos [16, 16] 4 2 17 div 32 = lattice_pos [16, 16] 4 2 35 div 32 \<longleftrightarrow>
      map2 (\<lambda>d t. d div t) (digits [16, 16] 17) [4, 8] = map2 (\<lambda>d t. d div t) (digits [16, 16] 35) [4, 8])
   \<and> lattice_pos [16, 16] 4 2 17 mod 32
       = undigits [4, 8] (map2 (\<lambda>d t. d mod t) (digits [16, 16] 17) [4, 8])
   \<and> lattice_pos [16, 16] 4 2 17 div 32 < 8"
  by (rule lattice_owner_offset [of "[16, 16]" 4 2 "[1, 2]" "[4, 8]" "[4, 2]" 32 8]) code_simp+

text \<open>
  C14 (lat): A plane that crosses into lattice order and back is unchanged, in both directions,
  whatever the uninitialised buffer of the copy held.
\<close>

theorem lattice_roundtrip:
  assumes "is_ok (box_shape ws k m)" "length out = length plane"
    "\<forall>x\<in>set plane. length x = prod_list ws" "\<forall>x\<in>set out. length x = prod_list ws"
  shows "rbind (to_lattice out ws k m plane) (to_canonical ws k m) = Inr plane
       \<and> rbind (to_canonical ws k m plane) (to_lattice out ws k m) = Inr plane"
proof -
  from assms(1) have p: "permutation ws k m = Inr (lattice.table ws k m)"
    by (auto simp: permutation_table is_ok_iff)
  have "map ((\<lambda>x. index_select x (lattice.table ws k m)) \<circ>
           (\<lambda>(buf, x). index_copy buf (lattice.table ws k m) x)) (zip out plane) = plane"
    using assms(2-4)
    by (intro nth_equalityI) (auto simp: lattice.select_copy)
  moreover have "map2 (\<lambda>buf x. index_copy buf (lattice.table ws k m) x) out
           (map (\<lambda>x. index_select x (lattice.table ws k m)) plane) = plane"
    using assms(2-4)
    by (intro nth_equalityI) (auto simp: lattice.copy_select)
  ultimately show ?thesis by (simp add: to_lattice_def to_canonical_def p)
qed

theorem lattice_roundtrip_witness:
  "rbind (to_lattice [replicate 4 0] [2, 2] 2 1 [[5, 6, 7, 8]]) (to_canonical [2, 2] 2 1)
     = Inr [[5, 6, 7, 8 :: nat]]
   \<and> rbind (to_canonical [2, 2] 2 1 [[5, 6, 7, 8]]) (to_lattice [replicate 4 0] [2, 2] 2 1)
     = Inr [[5, 6, 7, 8 :: nat]]"
  by (rule lattice_roundtrip) code_simp+

text \<open>
  On every lawful padded topology the derived box is admissible, holds at most 128
  leaves and a whole number of atoms, and the decode walk has an enumeration unit on it: the
  shallowest suffix of the spans that holds whole atoms.
\<close>

theorem lawful_lattice_walks:
  assumes "lawful_widths ws"
  shows "\<exists>k m s base leaves atoms. derive_lattice ws = Inr (k, m) \<and> admissible k m ws = Inr (Some s)
     \<and> prod_list s \<le> LATTICE_CAP_BC \<and> 16 dvd prod_list s
     \<and> walk_unit s = Inr (base, leaves, atoms)
     \<and> leaves = prod_list (drop base s) \<and> leaves = atoms * MMA_K_QUANTUM
     \<and> (\<forall>b. base < b \<and> b < length s \<longrightarrow> \<not> 16 dvd prod_list (drop b s))"
proof -
  have "ws \<noteq> []" "\<forall>w\<in>set ws. 16 dvd w \<and> 0 < w"
    using assms lawful_width_dvd16 lawful_width_pos by (auto simp: lawful_widths_def)
  then obtain k m s where s: "derive_lattice ws = Inr (k, m)" "fitting k m ws = Some s" "16 dvd prod_list s"
    by (rule derive_lattice_lawful)
  from s(2) have le: "prod_list s \<le> 128" by (rule fitting_Some)
  from s(3) have "s \<noteq> []" by auto
  with s(3) obtain base leaves atoms where w: "walk_unit s = Inr (base, leaves, atoms)"
    using walk_from_total [of "rev s" 1] by (auto simp: walk_unit_def)
  then have "leaves = prod_list (drop base s) \<and> leaves = atoms * 16
      \<and> (\<forall>b. base < b \<and> b < length s \<longrightarrow> \<not> 16 dvd prod_list (drop b s))"
    using walk_from_correct [of s "[]" base leaves atoms] by (simp add: walk_unit_def)
  with s w le admissible_fitting [OF \<open>ws \<noteq> []\<close>] show ?thesis by (auto simp: LATTICE_CAP_BC_def MMA_K_QUANTUM_def)
qed

theorem lawful_lattice_walks_witness:
  "\<exists>k m s base leaves atoms. derive_lattice [64, 64] = Inr (k, m) \<and> admissible k m [64, 64] = Inr (Some s)
     \<and> prod_list s \<le> LATTICE_CAP_BC \<and> 16 dvd prod_list s
     \<and> walk_unit s = Inr (base, leaves, atoms)
     \<and> leaves = prod_list (drop base s) \<and> leaves = atoms * MMA_K_QUANTUM
     \<and> (\<forall>b. base < b \<and> b < length s \<longrightarrow> \<not> 16 dvd prod_list (drop b s))"
  by (rule lawful_lattice_walks) code_simp

end
