(* ===== verification/Rola_Lattice_Best.thy ===== *)
theory Rola_Lattice_Best
  imports Rola_Lattice
begin

text \<open>
  The lattice search is right: the rank of a box in words that are not the search's own, the box
  every lawful topology gets, and the optimality of the search on every list of positive widths.
\<close>

section \<open>The depth of an atom\<close>

text \<open>
  How many levels the atom reaches, read off the place values alone: a level is taken whole when
  what lies from it inwards fits into sixteen leaves, and it is cut when less than an atom lies
  inside it. A box below one atom counts one level more, which no box reaches.
\<close>

definition atom_levels :: "nat list \<Rightarrow> nat" where
  "atom_levels s = length (filter (\<lambda>l. prod_list (drop l s) \<le> 16 \<or> prod_list (drop (Suc l) s) < 16) [0..<length s])
     + (if prod_list s < 16 then 1 else 0)"

lemma atom_cut: "p * q = (16::nat) \<Longrightarrow> 1 < q \<longleftrightarrow> p < 16"
  using mult_le_mono2 [of 2 q p] by (cases "q = 0"; cases "q = 1") auto

lemma rectangle_depth:
  assumes "rectangle_from (rev spans) whole p = (n, q)" "\<forall>x\<in>set spans. is_pow2 x" "is_pow2 p" "p \<le> 16"
  shows "n + (if 1 < q then 1 else 0) = whole
    + length (filter (\<lambda>l. prod_list (drop l spans) * p \<le> 16 \<or> prod_list (drop (Suc l) spans) * p < 16) [0..<length spans])
    + (if prod_list spans * p < 16 then 1 else 0)"
  using assms
proof (induction spans arbitrary: whole p rule: rev_induct)
  case Nil
  then have nq: "q = 16 div p" "n = whole" by (auto simp: MMA_K_QUANTUM_def)
  have "p dvd 16" using Nil.prems by (intro is_pow2_dvd) auto
  then have "p * q = 16" by (simp add: nq(1))
  from atom_cut [OF this] show ?case by (simp add: nq(2))
next
  case (snoc x spans)
  have x: "is_pow2 x" "0 < x" using snoc.prems(2) by (auto dest: is_pow2_pos)
  have dvd: "p dvd 16" using snoc.prems by (intro is_pow2_dvd) auto
  have range: "[0..<length (spans @ [x])] = [0..<length spans] @ [length spans]" by simp
  have inner: "filter (\<lambda>l. prod_list (drop l (spans @ [x])) * p \<le> 16 \<or> prod_list (drop (Suc l) (spans @ [x])) * p < 16)
        [0..<length spans]
      = filter (\<lambda>l. prod_list (drop l spans) * (p * x) \<le> 16 \<or> prod_list (drop (Suc l) spans) * (p * x) < 16) [0..<length spans]"
    by (rule filter_cong) (auto simp: ac_simps)
  show ?case
  proof (cases "16 < p * x")
    case True
    then have nq: "n = whole" "q = 16 div p" using snoc.prems(1) by (auto simp: MMA_K_QUANTUM_def)
    have q: "p * q = 16" using dvd nq by simp
    have big: "16 < prod_list ys * (p * x)" if "\<forall>y\<in>set ys. is_pow2 y" for ys
    proof -
      have "1 \<le> prod_list ys" using that by (simp add: is_pow2_pos is_pow2_prod_list Suc_leI)
      then have "1 * (p * x) \<le> prod_list ys * (p * x)" by (rule mult_le_mono1)
      then show ?thesis using True by linarith
    qed
    have sub: "\<forall>y\<in>set (drop l spans). is_pow2 y" for l using snoc.prems(2) by (auto dest: in_set_dropD)
    have "filter (\<lambda>l. prod_list (drop l spans) * (p * x) \<le> 16 \<or> prod_list (drop (Suc l) spans) * (p * x) < 16) [0..<length spans] = []"
      using big [OF sub] by (auto simp: filter_empty_conv not_le not_less intro: less_imp_le)
    moreover have "\<not> prod_list (spans @ [x]) * p < 16" using big [of spans] snoc.prems(2) by (simp add: ac_simps)
    moreover have "1 < q \<longleftrightarrow> p < 16" using q by (rule atom_cut)
    ultimately show ?thesis using True unfolding range filter_append inner by (simp add: nq(1) ac_simps)
  next
    case False
    with snoc.prems(1) have "rectangle_from (rev spans) (Suc whole) (p * x) = (n, q)"
      by (simp add: MMA_K_QUANTUM_def)
    from snoc.IH [OF this] snoc.prems False x(1) is_pow2_mult [of p x] show ?thesis
      unfolding range filter_append inner by (simp add: ac_simps)
  qed
qed

lemma rank_of_levels:
  "\<forall>x\<in>set s. is_pow2 x \<Longrightarrow> rank_of s k = (prod_list s, - int (atom_levels s), k)"
  using rectangle_depth [of s 0 1] is_pow2_power [of 0]
  by (auto simp: rank_of_def atom_rectangle_def atom_levels_def split: prod.splits if_splits)

lemma fitting_pow2: "fitting k m ws = Some s \<Longrightarrow> x \<in> set s \<Longrightarrow> is_pow2 x"
  by (erule fitting_Some) (auto dest!: box_shape_Inr(4) simp: box_on_def list_all2_conv_all_nth in_set_conv_nth)

section \<open>The boxes of the lawful topologies\<close>

lemma ceil_inner_ge:
  assumes "0 < w" "0 < k" "k * 2 ^ n dvd w"
  shows "n \<le> ceil_inner_from k w 0"
proof -
  have ge: "c \<le> ceil_inner_from k w c" for c
    by (induction k w c rule: ceil_inner_from.induct) (subst ceil_inner_from.simps, auto)
  have "ceil_inner_from k w 0 = ceil_inner_from k w c" if "c \<le> n" for c
    using that
  proof (induction c)
    case (Suc c)
    have "k * 2 ^ Suc c dvd k * 2 ^ n" using Suc.prems by (intro mult_dvd_mono le_imp_power_dvd) simp_all
    then have "k * 2 ^ (c + 1) dvd w" using assms(3) by (metis Suc_eq_plus1 dvd_trans)
    moreover from this have "k * 2 ^ (c + 1) \<le> w" using assms(1) by (rule dvd_imp_le)
    ultimately have "ceil_inner_from k w c = ceil_inner_from k w (c + 1)"
      using assms(2) by (subst ceil_inner_from.simps) (simp add: dvd_eq_mod_eq_0)
    with Suc show ?case by simp
  qed simp
  from this [of n] ge [of n] show ?thesis by simp
qed

lemma fitting_box:
  assumes "ws \<noteq> []" "0 < last ws" "2 ^ \<kappa> * 2 ^ a dvd last ws"
    "\<And>c. a \<le> c \<Longrightarrow> inner_exponent (length ws) j (4 - \<kappa>) c = a"
    "level_exponents (length ws) a (j - a) = e" "sum_list e = j" "map (\<lambda>x. 2 ^ \<kappa> * 2 ^ x) e = s"
    "list_all2 (\<lambda>w t. t dvd w) ws s" "prod_list s \<le> 128" "\<forall>x\<in>set s. x \<le> 32"
  shows "fitting (2 ^ \<kappa>) (2 ^ j) ws = Some s"
proof -
  have "a \<le> ceil_inner_from (2 ^ \<kappa>) (last ws) 0" by (rule ceil_inner_ge) (use assms in simp_all)
  from assms(4) [OF this] assms(1)
  have inner: "inner_exponent (length ws) j (4 - \<kappa>) (ceil_inner_from (2 ^ \<kappa>) (ws ! (length ws - 1)) 0) = a"
    by (simp add: last_conv_nth)
  have tiles: "\<not> (\<exists>(w, t)\<in>set (zip ws s). w mod t \<noteq> 0)"
    using assms(8) by (auto simp: list_all2_iff dvd_eq_mod_eq_0)
  have ml: "map (\<lambda>x. 2 ^ \<kappa> * x) (map (\<lambda>x. 2 ^ x) e) = s" using assms(7) by (simp add: comp_def)
  show ?thesis
    using assms(1,6,9,10) tiles
    by (simp add: fitting_def box_shape_def Let_def MMA_K_QUANTUM_def inner assms(5) ml del: map_map One_nat_def)
qed

lemmas box_eval = inner_exponent_def level_exponents_def upt_rec min_def max_def numeral_2_eq_2 [symmetric]

lemma fits1:
  assumes "16 dvd (w::nat)" "0 < w"
  shows "fitting 4 4 [w] = Some [16]" "32 dvd w \<Longrightarrow> fitting 4 8 [w] = Some [32]"
  using fitting_box [of "[w]" 2 2 2 "[2]" "[16]"] fitting_box [of "[w]" 2 3 3 "[3]" "[32]"] assms
  by (simp_all add: box_eval)

lemma fits2:
  assumes "16 dvd v" "16 dvd w" "0 < (w::nat)"
  shows "fitting 1 128 [v, w] = Some [8, 16]" "fitting 2 32 [v, w] = Some [8, 16]" "fitting 4 8 [v, w] = Some [8, 16]"
proof -
  have d: "8 dvd v" "8 dvd w" using assms(1,2) by (auto intro: dvd_trans [of _ 16])
  show "fitting 1 128 [v, w] = Some [8, 16]" "fitting 2 32 [v, w] = Some [8, 16]" "fitting 4 8 [v, w] = Some [8, 16]"
    using fitting_box [of "[v, w]" 0 4 7 "[3, 4]" "[8, 16]"] fitting_box [of "[v, w]" 1 3 5 "[2, 3]" "[8, 16]"]
      fitting_box [of "[v, w]" 2 2 3 "[1, 2]" "[8, 16]"] assms d
    by (simp_all add: box_eval)
qed

lemma fits3:
  assumes "16 dvd u" "16 dvd v" "16 dvd w" "0 < (w::nat)"
  shows "fitting 1 128 [u, v, w] = Some [2, 4, 16]" "fitting 2 16 [u, v, w] = Some [2, 4, 16]"
    "fitting 4 2 [u, v, w] = Some [4, 4, 8]"
proof -
  have d: "4 dvd u" "2 dvd u" "4 dvd v" "8 dvd w" using assms(1-3) by (auto intro: dvd_trans [of _ 16])
  show "fitting 1 128 [u, v, w] = Some [2, 4, 16]" "fitting 2 16 [u, v, w] = Some [2, 4, 16]"
    "fitting 4 2 [u, v, w] = Some [4, 4, 8]"
    using fitting_box [of "[u, v, w]" 0 4 7 "[1, 2, 4]" "[2, 4, 16]"] fitting_box [of "[u, v, w]" 1 3 4 "[0, 1, 3]" "[2, 4, 16]"]
      fitting_box [of "[u, v, w]" 2 1 1 "[0, 0, 1]" "[4, 4, 8]"] assms d
    by (simp_all add: box_eval)
qed

lemma fits4:
  assumes "16 dvd t" "16 dvd u" "16 dvd v" "16 dvd w" "0 < (w::nat)"
  shows "fitting 1 128 [t, u, v, w] = Some [2, 2, 2, 16]" "fitting 2 8 [t, u, v, w] = Some [2, 2, 2, 16]"
proof -
  have d: "2 dvd t" "2 dvd u" "2 dvd v" using assms(1-3) by (auto intro: dvd_trans [of _ 16])
  show "fitting 1 128 [t, u, v, w] = Some [2, 2, 2, 16]" "fitting 2 8 [t, u, v, w] = Some [2, 2, 2, 16]"
    using fitting_box [of "[t, u, v, w]" 0 4 7 "[1, 1, 1, 4]" "[2, 2, 2, 16]"]
      fitting_box [of "[t, u, v, w]" 1 3 3 "[0, 0, 0, 3]" "[2, 2, 2, 16]"] assms d
    by (simp_all add: box_eval)
qed

text \<open>The winner is one of three boxes of the full capacity, and the ranking tells them apart.\<close>

lemma full_winner:
  assumes "fitting k m ws = Some s" "k \<le> 4" "\<not> rank_gt (rank_of s' k') (rank_of s k)" "prod_list s' = 128"
  shows "prod_list s = 128" "k \<in> {1, 2, 4}" "k ^ length ws * m = 128"
proof -
  obtain m_l g where b: "box_shape ws k m = Inr (m_l, s, g, prod_list s, prod_list g)" "prod_list s \<le> 128"
    using assms(1) by (rule fitting_Some)
  have "is_pow2 k" using box_shape_Inr(1) [OF b(1)] .
  then obtain e where e: "k = 2 ^ e" by (auto simp: is_pow2_iff)
  have "e < 3"
  proof (rule ccontr)
    assume "\<not> e < 3"
    then have "(2::nat) ^ 3 \<le> 2 ^ e" by (intro power_increasing) simp_all
    with assms(2) e show False by simp
  qed
  then have "e = 0 \<or> e = 1 \<or> e = 2" by auto
  with e show "k \<in> {1, 2, 4}" by auto
  show bc: "prod_list s = 128"
    using assms(3,4) b(2) by (auto simp: rank_of_def split: prod.splits)
  show "k ^ length ws * m = 128" using box_shape_Inr(7) [OF b(1)] bc by simp
qed

lemma depths: "rank_of [8, 16] k = (128, - 1, k)" "rank_of [2, 4, 16] k = (128, - 1, k)"
  "rank_of [4, 4, 8] k = (128, - 2, k)" "rank_of [2, 2, 2, 16] k = (128, - 1, k)"
  by (simp_all add: rank_of_def atom_rectangle_def MMA_K_QUANTUM_def)

lemma derive_lattice_closed:
  assumes "lawful_widths ws"
  shows "derive_lattice ws = Inr (case length ws of
     Suc 0 \<Rightarrow> if ws = [16] then (4, 4) else (4, 8) | Suc (Suc 0) \<Rightarrow> (4, 8) | Suc (Suc (Suc 0)) \<Rightarrow> (2, 16) | _ \<Rightarrow> (2, 8))"
proof -
  have w16: "16 dvd w" "0 < w" "is_pow2 w" if "w \<in> set ws" for w
    using lawful_width_dvd16 [OF assms that] lawful_width_pos [OF assms that] assms that
    by (simp_all add: lawful_widths_def)
  have all: "\<forall>w\<in>set ws. 16 dvd w \<and> 0 < w" using w16 by blast
  have ne: "ws \<noteq> []" "length ws \<le> 4" using assms by (auto simp: lawful_widths_def MAX_ROUTING_DEPTH_def)
  obtain k m s where win: "derive_lattice ws = Inr (k, m)" "fitting k m ws = Some s" "16 dvd prod_list s" "k \<le> 4"
    and best: "\<forall>k' m' s'. k' \<le> 4 \<and> fitting k' m' ws = Some s' \<longrightarrow> \<not> rank_gt (rank_of s' k') (rank_of s k)"
    by (rule derive_lattice_lawful [OF ne(1) all])
  have "0 < length ws" using ne(1) by simp
  with ne(2) have "length ws = 1 \<or> length ws = 2 \<or> length ws = 3 \<or> length ws = 4" by linarith
  then consider w where "ws = [w]" | v w where "ws = [v, w]" | u v w where "ws = [u, v, w]"
    | t u v w where "ws = [t, u, v, w]"
    by (auto simp: length_Suc_conv numeral_eq_Suc)
  then show ?thesis
  proof cases
    case (2 v w)
    have f: "fitting 1 128 [v, w] = Some [8, 16]" "fitting 2 32 [v, w] = Some [8, 16]" "fitting 4 8 [v, w] = Some [8, 16]"
      using all 2 by (intro fits2; simp)+
    note win2 = win(2) [unfolded 2]
    have b: "\<not> rank_gt (rank_of [8, 16] 4) (rank_of s k)" using best f(3) 2 by force
    note fw = full_winner [OF win(2,4) b]
    have "k ^ 2 * m = 128" using fw(3) 2 by (simp add: numeral_eq_Suc)
    with fw(2) have "k = 1 \<and> m = 128 \<or> k = 2 \<and> m = 32 \<or> k = 4 \<and> m = 8" by auto
    with b f win2 have "k = 4 \<and> m = 8" by (auto simp: depths)
    with win(1) 2 show ?thesis by simp
  next
    case (3 u v w)
    have f: "fitting 1 128 [u, v, w] = Some [2, 4, 16]" "fitting 2 16 [u, v, w] = Some [2, 4, 16]"
      "fitting 4 2 [u, v, w] = Some [4, 4, 8]"
      using all 3 by (intro fits3; simp)+
    note win3 = win(2) [unfolded 3]
    have b: "\<not> rank_gt (rank_of [2, 4, 16] 2) (rank_of s k)" using best f(2) 3 by force
    note fw = full_winner [OF win(2,4) b]
    have "k ^ 3 * m = 128" using fw(3) 3 by (simp add: numeral_eq_Suc)
    with fw(2) have "k = 1 \<and> m = 128 \<or> k = 2 \<and> m = 16 \<or> k = 4 \<and> m = 2" by auto
    with b f win3 have "k = 2 \<and> m = 16" by (auto simp: depths)
    with win(1) 3 show ?thesis by simp
  next
    case (4 t u v w)
    have f: "fitting 1 128 [t, u, v, w] = Some [2, 2, 2, 16]" "fitting 2 8 [t, u, v, w] = Some [2, 2, 2, 16]"
      using all 4 by (intro fits4; simp)+
    note win4 = win(2) [unfolded 4]
    have b: "\<not> rank_gt (rank_of [2, 2, 2, 16] 2) (rank_of s k)" using best f(2) 4 by force
    note fw = full_winner [OF win(2,4) b]
    have "k ^ 4 * m = 128" using fw(3) 4 by (simp add: numeral_eq_Suc)
    with fw(2) have "k = 1 \<and> m = 128 \<or> k = 2 \<and> m = 8" by auto
    with b f win4 have "k = 2 \<and> m = 8" by (auto simp: depths)
    with win(1) 4 show ?thesis by simp
  next
    case (1 w)
    then have w: "16 dvd w" "0 < w" "is_pow2 w" using w16 by auto
    obtain m_l g where b: "box_shape ws k m = Inr (m_l, s, g, prod_list s, prod_list g)" "\<forall>x\<in>set s. x \<le> 32"
      using win(2) by (rule fitting_Some)
    note bx = box_shape_Inr [OF b(1)]
    have "length s = 1" using box_on_length [OF bx(4)] 1 by simp
    then obtain x where x: "s = [x]" by (auto simp: length_Suc_conv)
    have xs: "x dvd w" "x \<le> 32" "x = k * m" using bx(4,7) b(2) x 1 by (auto simp: box_on_def)
    define y where "y = (if w = 16 then 16 else 32 :: nat)"
    have big: "32 dvd w" if "w \<noteq> 16"
    proof (rule is_pow2_dvd)
      show "is_pow2 (32::nat)" using is_pow2_power [of 5] by simp
      show "32 \<le> w" using w(1,2) that by presburger
    qed (rule w(3))
    have f: "fitting 4 (y div 4) [w] = Some [y]"
      using fits1(1) [OF w(1,2)] fits1(2) [OF w(1,2)] big by (auto simp: y_def)
    then have nb: "\<not> rank_gt (rank_of [y] 4) (rank_of [x] k)" using best 1 x by force
    then have "y \<le> x" by (auto simp: rank_of_def split: prod.splits)
    moreover have "x \<le> y" using xs w(2) by (auto simp: y_def dest: dvd_imp_le)
    ultimately have xy: "x = y" by simp
    with nb have "4 \<le> k" by (auto simp: rank_of_def split: prod.splits)
    with win(4) have "k = 4" by simp
    with xs(3) xy have "m = y div 4" by simp
    with \<open>k = 4\<close> win(1) 1 show ?thesis by (simp add: y_def)
  qed
qed

section \<open>The property\<close>

text \<open>
  C34 (best): The search is right on every list of positive widths: it returns an admissible box
  (at most 128 leaves, no span over 32) that no other admissible box with a sub-box span up to
  four beats, where the order is most leaves, then the atom that reaches fewest levels, then the
  largest sub-box span; and \<^verbatim>\<open>(1, 1)\<close> exactly when no box is admissible. On the padded topologies the
  package serves the answer is a table: \<^verbatim>\<open>(4, 8)\<close> at depth one (\<^verbatim>\<open>(4, 4)\<close> for a single level of
  16) and at depth two, \<^verbatim>\<open>(2, 16)\<close> at depth three, \<^verbatim>\<open>(2, 8)\<close> at depth four. On no levels at all it
  raises.
\<close>

theorem derive_lattice_optimal:
  "derive_lattice [] = Inl (IndexError ''widths[D - 1]'')
   \<and> (ws \<noteq> [] \<and> (\<forall>w\<in>set ws. 0 < w) \<longrightarrow> (\<exists>k m. derive_lattice ws = Inr (k, m)
        \<and> (case fitting k m ws of
             None \<Rightarrow> (k, m) = (1, 1) \<and> (\<forall>k' m'. k' \<le> 4 \<longrightarrow> fitting k' m' ws = None)
           | Some s \<Rightarrow> k \<le> 4 \<and> (\<forall>k' m' s'. k' \<le> 4 \<and> fitting k' m' ws = Some s' \<longrightarrow>
               prod_list s' < prod_list s \<or> prod_list s' = prod_list s
               \<and> (atom_levels s < atom_levels s' \<or> atom_levels s = atom_levels s' \<and> k' \<le> k)))))
   \<and> (lawful_widths ws \<longrightarrow> derive_lattice ws = Inr (case length ws of
        Suc 0 \<Rightarrow> if ws = [16] then (4, 4) else (4, 8)
      | Suc (Suc 0) \<Rightarrow> (4, 8) | Suc (Suc (Suc 0)) \<Rightarrow> (2, 16) | _ \<Rightarrow> (2, 8)))"
proof (intro conjI impI derive_lattice_empty derive_lattice_closed)
  assume ws: "ws \<noteq> [] \<and> (\<forall>w\<in>set ws. 0 < w)"
  then have cand: "(k', m') \<in> set (lattice_candidates ws)" if "k' \<le> 4" "fitting k' m' ws = Some s'" for k' m' s'
    using fitting_candidate [OF that(2,1)] by blast
  show "\<exists>k m. derive_lattice ws = Inr (k, m)
        \<and> (case fitting k m ws of
             None \<Rightarrow> (k, m) = (1, 1) \<and> (\<forall>k' m'. k' \<le> 4 \<longrightarrow> fitting k' m' ws = None)
           | Some s \<Rightarrow> k \<le> 4 \<and> (\<forall>k' m' s'. k' \<le> 4 \<and> fitting k' m' ws = Some s' \<longrightarrow>
               prod_list s' < prod_list s \<or> prod_list s' = prod_list s
               \<and> (atom_levels s < atom_levels s' \<or> atom_levels s = atom_levels s' \<and> k' \<le> k)))"
  proof (cases rule: derive_lattice_cases [OF conjunct1 [OF ws]])
    case 1
    have none: "fitting k' m' ws = None" if "k' \<le> 4" for k' m'
    proof (rule ccontr)
      assume "fitting k' m' ws \<noteq> None"
      with cand [OF that] 1(2) show False by fastforce
    qed
    then have "fitting 1 1 ws = None" by simp
    with 1(1) none show ?thesis by (intro exI [of _ 1]) simp
  next
    case (2 k m s)
    have "prod_list s' < prod_list s \<or> prod_list s' = prod_list s
        \<and> (atom_levels s < atom_levels s' \<or> atom_levels s = atom_levels s' \<and> k' \<le> k)"
      if "k' \<le> 4" "fitting k' m' ws = Some s'" for k' m' s'
    proof -
      have "rank_of s' k' = (prod_list s', - int (atom_levels s'), k')" "rank_of s k = (prod_list s, - int (atom_levels s), k)"
        using fitting_pow2 [OF that(2)] fitting_pow2 [OF 2(2)] by (auto intro!: rank_of_levels)
      then have "\<not> rank_gt (prod_list s', - int (atom_levels s'), k') (prod_list s, - int (atom_levels s), k)"
        using 2(4) [OF cand [OF that] that(2)] by simp
      then show ?thesis by simp linarith
    qed
    with 2 show ?thesis by (rule_tac x = k in exI, rule_tac x = m in exI) (simp, blast)
  qed
qed

theorem derive_lattice_optimal_witness:
  "(\<exists>k m. derive_lattice [16, 32, 64] = Inr (k, m)
        \<and> (case fitting k m [16, 32, 64] of
             None \<Rightarrow> (k, m) = (1, 1) \<and> (\<forall>k' m'. k' \<le> 4 \<longrightarrow> fitting k' m' [16, 32, 64] = None)
           | Some s \<Rightarrow> k \<le> 4 \<and> (\<forall>k' m' s'. k' \<le> 4 \<and> fitting k' m' [16, 32, 64] = Some s' \<longrightarrow>
               prod_list s' < prod_list s \<or> prod_list s' = prod_list s
               \<and> (atom_levels s < atom_levels s' \<or> atom_levels s = atom_levels s' \<and> k' \<le> k))))
   \<and> derive_lattice [16, 32, 64] = Inr (2, 16)
   \<and> fitting 2 16 [16, 32, 64] = Some [2, 4, 16] \<and> fitting 4 2 [16, 32, 64] = Some [4, 4, 8]"
proof -
  have "lawful_widths [16, 32, 64]" by code_simp
  then show ?thesis
    using conjunct2 [OF conjunct2 [OF derive_lattice_optimal [of "[16, 32, 64]"]]] fits3 [of 16 32 64]
    by (intro conjI conjunct1 [OF conjunct2 [OF derive_lattice_optimal], THEN mp]) simp_all
qed

end
