(* ===== verification/Rola_Planes.thy ===== *)
theory Rola_Planes
  imports Rola_Prelude
begin

text \<open>
  \<^verbatim>\<open>rola/ops/paging.py\<close>: the stored form of a state page. A logical page is 16 rows of
  \<^verbatim>\<open>d_v + 1\<close> fp32 words (\<^verbatim>\<open>d_v\<close> value columns and the mass); the stored page is the same bits
  as \<^verbatim>\<open>[16 x DV hi][16 x DV lo][16 mass hi][16 mass lo]\<close>, re-read as 32-bit words. An fp32
  element is its 32-bit pattern (\<^verbatim>\<open>view(torch.int32)\<close>); \<^verbatim>\<open>view(torch.int16)\<close> is
  little-endian.
\<close>

type_synonym w16 = "16 word"
type_synonym w32 = "32 word"
type_synonym row = "w32 list"
type_synonym page = "w32 list"

datatype dtype = Float32 | BFloat16 | Float64 | OtherDtype

section \<open>Words and halves\<close>

text \<open>\<^verbatim>\<open>(words >> 16).to(torch.int16)\<close> shifts arithmetically; \<^verbatim>\<open>words.to(torch.int16)\<close> truncates.\<close>

definition hi_half :: "w32 \<Rightarrow> w16" where "hi_half w = ucast (signed_drop_bit 16 w)"
definition lo_half :: "w32 \<Rightarrow> w16" where "lo_half w = ucast w"

text \<open>\<^verbatim>\<open>(hi << 16) | lo\<close> over halves widened with a sign and masked by \<^verbatim>\<open>0xFFFF\<close>.\<close>

definition widen :: "w16 \<Rightarrow> w32" where "widen h = and (scast h) 0xFFFF"
definition join_halves :: "w16 \<Rightarrow> w16 \<Rightarrow> w32" where
  "join_halves hi lo = or (push_bit 16 (widen hi)) (widen lo)"

lemma bit_mask16: "bit (0xFFFF :: int) n \<longleftrightarrow> n < 16"
proof -
  have "(0xFFFF :: int) = mask 16" by (simp add: mask_eq_exp_minus_1)
  then show ?thesis by (simp only: bit_mask_iff) simp
qed

lemma bit_widen: "bit (widen h) n \<longleftrightarrow> n < 16 \<and> bit h n"
  by (cases "n = 15")
     (auto simp: widen_def bit_and_iff bit_mask16 bit_signed_iff min_def dest: bit_imp_le_length)

lemma bit_join_halves:
  "bit (join_halves hi lo) n \<longleftrightarrow> (if n < 16 then bit lo n else n < 32 \<and> bit hi (n - 16))"
  by (auto simp: join_halves_def bit_or_iff bit_push_bit_iff bit_widen)

lemma bit_hi_half: "bit (hi_half w) n \<longleftrightarrow> n < 16 \<and> bit w (n + 16)"
  by (auto simp: hi_half_def bit_unsigned_iff bit_signed_drop_bit_iff add.commute)

lemma bit_lo_half: "bit (lo_half w) n \<longleftrightarrow> n < 16 \<and> bit w n"
  by (auto simp: lo_half_def bit_unsigned_iff)

lemma join_split [simp]: "join_halves (hi_half w) (lo_half w) = w"
  by (rule bit_eqI) (auto simp: bit_join_halves bit_hi_half bit_lo_half)

lemma hi_join [simp]: "hi_half (join_halves hi lo) = hi"
  by (rule bit_eqI) (auto simp: bit_join_halves bit_hi_half)

lemma lo_join [simp]: "lo_half (join_halves hi lo) = lo"
  by (rule bit_eqI) (auto simp: bit_join_halves bit_lo_half)

text \<open>\<^verbatim>\<open>view(torch.int16)\<close> and \<^verbatim>\<open>view(torch.int32)\<close> of the same bytes.\<close>

fun words_of_halves :: "w16 list \<Rightarrow> w32 list" where
  "words_of_halves (l # h # hs) = join_halves h l # words_of_halves hs"
| "words_of_halves _ = []"

fun halves_of_words :: "w32 list \<Rightarrow> w16 list" where
  "halves_of_words [] = []"
| "halves_of_words (w # ws) = lo_half w # hi_half w # halves_of_words ws"

lemma length_halves [simp]: "length (halves_of_words ws) = 2 * length ws"
  by (induction ws) auto

lemma words_halves [simp]: "words_of_halves (halves_of_words ws) = ws"
  by (induction ws) auto

lemma halves_words [simp]: "even (length hs) \<Longrightarrow> halves_of_words (words_of_halves hs) = hs"
  by (induction hs rule: words_of_halves.induct) auto

lemma length_words_of_halves [simp]: "length (words_of_halves hs) = length hs div 2"
  by (induction hs rule: words_of_halves.induct) auto

section \<open>One page\<close>

text \<open>A logical page: its 16 rows.\<close>

definition page_halves :: "nat \<Rightarrow> row list \<Rightarrow> w16 list" where
  "page_halves d_v rows =
     (let values = concat (map (take d_v) rows); mass = map (\<lambda>r. r ! d_v) rows in
      map hi_half values @ map lo_half values @ map hi_half mass @ map lo_half mass)"

definition pack_page :: "nat \<Rightarrow> row list \<Rightarrow> page" where
  "pack_page d_v rows = words_of_halves (page_halves d_v rows)"

definition unpack_page :: "nat \<Rightarrow> page \<Rightarrow> row list" where
  "unpack_page d_v stored =
     (let halves = halves_of_words stored;
          rows = 16 * d_v;
          values = map2 join_halves (take rows halves) (take rows (drop rows halves));
          mass = map2 join_halves (take 16 (drop (2 * rows) halves)) (drop (2 * rows + 16) halves)
      in map (\<lambda>r. take d_v (drop (r * d_v) values) @ [mass ! r]) [0..<16])"

definition is_page :: "nat \<Rightarrow> row list \<Rightarrow> bool" where
  "is_page d_v rows \<longleftrightarrow> length rows = 16 \<and> (\<forall>r\<in>set rows. length r = d_v + 1)"

definition zero_page :: "nat \<Rightarrow> page" where
  "zero_page d_v = replicate (16 * (d_v + 1)) 0"

lemma length_concat_const: "(\<And>r. r \<in> set rs \<Longrightarrow> length r = d) \<Longrightarrow> length (concat rs) = length rs * d"
  by (induction rs) auto

lemma chunk_concat:
  "(\<And>r. r \<in> set rs \<Longrightarrow> length r = d) \<Longrightarrow> i < length rs \<Longrightarrow> take d (drop (i * d) (concat rs)) = rs ! i"
proof (induction rs arbitrary: i)
  case (Cons r rs)
  then have len: "length r = d" by simp
  show ?case
  proof (cases i)
    case 0
    with len show ?thesis by simp
  next
    case (Suc j)
    with Cons len show ?thesis by simp
  qed
qed simp

lemma chunk_end: "r < n \<Longrightarrow> r * d + d \<le> n * (d::nat)"
  using mult_le_mono1 [of "Suc r" n d] by (simp add: add.commute)

lemma length_chunk: "length xs = n * d \<Longrightarrow> r < n \<Longrightarrow> length (take d (drop (r * d) xs)) = d"
  using chunk_end [of r n d] by simp

lemma concat_chunks:
  "length xs = n * d \<Longrightarrow> concat (map (\<lambda>r. take d (drop (r * d) xs)) [0..<n]) = xs"
proof (induction n arbitrary: xs)
  case (Suc n)
  have "concat (map (\<lambda>r. take d (drop (r * d) xs)) [0..<n])
      = concat (map (\<lambda>r. take d (drop (r * d) (take (n * d) xs))) [0..<n])"
  proof (intro arg_cong [of _ _ concat] map_cong refl)
    fix r assume "r \<in> set [0..<n]"
    then have "r * d + d \<le> n * d" by (intro chunk_end) simp
    then show "take d (drop (r * d) xs) = take d (drop (r * d) (take (n * d) xs))"
      by (simp add: drop_take min_def)
  qed
  also have "\<dots> = take (n * d) xs" using Suc.prems by (intro Suc.IH) simp
  finally show ?case using Suc.prems by (simp add: take_add [symmetric])
qed simp

lemma take_concat_rows: "is_page d_v rows \<Longrightarrow> length (concat (map (take d_v) rows)) = 16 * d_v"
  by (subst length_concat_const [where d = d_v]) (auto simp: is_page_def)

lemma length_page_halves: "is_page d_v rows \<Longrightarrow> length (page_halves d_v rows) = 32 * (d_v + 1)"
  by (simp add: page_halves_def Let_def take_concat_rows) (simp add: is_page_def)

lemma length_pack_page: "is_page d_v rows \<Longrightarrow> length (pack_page d_v rows) = 16 * (d_v + 1)"
  by (simp add: pack_page_def length_page_halves)

lemma map2_join_split: "map2 join_halves (map hi_half xs) (map lo_half xs) = xs"
  by (induction xs) auto

lemma unpack_pack_page:
  assumes "is_page d_v rows"
  shows "unpack_page d_v (pack_page d_v rows) = rows"
proof -
  let ?vals = "concat (map (take d_v) rows)" and ?mass = "map (\<lambda>r. r ! d_v) rows"
  have lv: "length ?vals = 16 * d_v" by (rule take_concat_rows [OF assms])
  have lm: "length rows = 16" using assms by (simp add: is_page_def)
  have h: "halves_of_words (pack_page d_v rows)
      = map hi_half ?vals @ map lo_half ?vals @ map hi_half ?mass @ map lo_half ?mass"
    using length_page_halves [OF assms] by (simp add: pack_page_def) (simp add: page_halves_def Let_def)
  have "unpack_page d_v (pack_page d_v rows)
      = map (\<lambda>r. take d_v (drop (r * d_v) ?vals) @ [?mass ! r]) [0..<16]"
    by (simp add: unpack_page_def Let_def h lv lm map2_join_split del: map_map)
  also have "\<dots> = map (\<lambda>r. rows ! r) [0..<16]"
  proof (intro map_cong refl)
    fix r :: nat assume "r \<in> set [0..<16]"
    then have r: "r < length rows" by (simp add: lm)
    then have len: "length (rows ! r) = d_v + 1" using assms by (simp add: is_page_def)
    have "take d_v (drop (r * d_v) ?vals) = map (take d_v) rows ! r"
      using assms r by (intro chunk_concat) (auto simp: is_page_def)
    with r len show "take d_v (drop (r * d_v) ?vals) @ [?mass ! r] = rows ! r"
      by (simp flip: take_Suc_conv_app_nth)
  qed
  also have "\<dots> = rows" by (simp flip: lm add: map_nth)
  finally show ?thesis .
qed

lemma is_page_unpack:
  assumes "length stored = 16 * (d_v + 1)"
  shows "is_page d_v (unpack_page d_v stored)"
proof -
  let ?h = "halves_of_words stored"
  let ?vals = "map2 join_halves (take (16 * d_v) ?h) (take (16 * d_v) (drop (16 * d_v) ?h))"
  have "length ?vals = 16 * d_v" using assms by simp
  from length_chunk [OF this] show ?thesis
    by (auto simp: is_page_def unpack_page_def Let_def simp del: length_take)
qed

lemma pack_unpack_page:
  assumes "length stored = 16 * (d_v + 1)"
  shows "pack_page d_v (unpack_page d_v stored) = stored"
proof -
  let ?h = "halves_of_words stored" and ?n = "16 * d_v"
  let ?vh = "take ?n ?h" and ?vl = "take ?n (drop ?n ?h)"
  let ?mh = "take 16 (drop (2 * ?n) ?h)" and ?ml = "drop (2 * ?n + 16) ?h"
  have lens: "length ?vh = ?n" "length ?vl = ?n" "length ?mh = 16" "length ?ml = 16"
    using assms by simp_all
  let ?vals = "map2 join_halves ?vh ?vl" and ?mass = "map2 join_halves ?mh ?ml"
  have lv: "length ?vals = 16 * d_v" and lm: "length ?mass = 16" using lens by simp_all
  have chunk_len: "length (take d_v (drop (r * d_v) ?vals)) = d_v" if "r < 16" for r
    by (rule length_chunk [OF lv that])
  have vals: "concat (map (take d_v) (unpack_page d_v stored)) = ?vals"
  proof -
    have "map (take d_v) (unpack_page d_v stored) = map (\<lambda>r. take d_v (drop (r * d_v) ?vals)) [0..<16]"
      using chunk_len by (auto simp: unpack_page_def Let_def simp del: length_take)
    then show ?thesis using concat_chunks [of ?vals 16 d_v] lv by simp
  qed
  have mass: "map (\<lambda>r. r ! d_v) (unpack_page d_v stored) = ?mass"
  proof -
    have "map (\<lambda>r. r ! d_v) (unpack_page d_v stored) = map (\<lambda>r. ?mass ! r) [0..<16]"
      using chunk_len by (auto simp: unpack_page_def Let_def nth_append simp del: length_take)
    also have "\<dots> = ?mass" using map_nth [of ?mass] lm by simp
    finally show ?thesis .
  qed
  have hl: "map hi_half (map2 join_halves xs ys) = xs" "map lo_half (map2 join_halves xs ys) = ys"
    if "length xs = length ys" for xs ys
    using that by (induction xs ys rule: list_induct2) auto
  have "page_halves d_v (unpack_page d_v stored) = ?vh @ ?vl @ ?mh @ ?ml"
    unfolding page_halves_def Let_def vals mass by (simp only: hl lens)
  also have "\<dots> = ?h"
  proof -
    have split: "xs = take n xs @ take n (drop n xs) @ take 16 (drop (2 * n) xs) @ drop (2 * n + 16) xs"
      for xs :: "w16 list" and n
    proof -
      have "take 16 (drop (2 * n) xs) @ drop (2 * n + 16) xs = drop (2 * n) xs"
        using append_take_drop_id [of 16 "drop (2 * n) xs"] by (simp add: add.commute)
      moreover have "take n (drop n xs) @ drop (2 * n) xs = drop n xs"
        using append_take_drop_id [of n "drop n xs"] by (simp add: mult_2)
      ultimately show ?thesis by simp
    qed
    show ?thesis by (rule split [symmetric])
  qed
  finally show ?thesis by (simp add: pack_page_def)
qed

lemma halves_of_zero: "halves_of_words (replicate n 0) = replicate (2 * n) 0"
  by (induction n) (simp_all add: hi_half_def lo_half_def)

lemma join_zero [simp]: "join_halves 0 0 = 0"
  by (simp add: join_halves_def widen_def)

lemma concat_zeros: "concat (replicate a (replicate b x)) = replicate (a * b) x"
  by (induction a) (simp_all add: replicate_add)

lemma unpack_zero_page: "unpack_page d_v (zero_page d_v) = replicate 16 (replicate (d_v + 1) 0)"
proof -
  have "is_page d_v (unpack_page d_v (zero_page d_v))" by (rule is_page_unpack) (simp add: zero_page_def)
  moreover have "pack_page d_v (replicate 16 (replicate (d_v + 1) 0)) = zero_page d_v"
  proof -
    have "page_halves d_v (replicate 16 (replicate (d_v + 1) 0))
        = replicate (16 * d_v) 0 @ replicate (16 * d_v) 0 @ replicate 16 0 @ replicate 16 0"
      by (simp add: page_halves_def Let_def concat_zeros hi_half_def lo_half_def nth_append
          map_replicate_const del: replicate.simps)
    also have "\<dots> = halves_of_words (zero_page d_v)"
      by (simp add: zero_page_def halves_of_zero flip: replicate_add del: replicate.simps)
    finally show ?thesis by (simp only: pack_page_def words_halves)
  qed
  ultimately show ?thesis
    by (metis in_set_replicate is_page_def length_replicate unpack_pack_page)
qed

section \<open>A plane of pages\<close>

text \<open>
  A tensor is its dtype, its number of dimensions, the extent of its leaf axis, and its rows
  with the leading axes flattened (\<^verbatim>\<open>reshape(-1, 16, cols)\<close>).
\<close>

record plane =
  pl_dtype :: dtype
  pl_dim :: nat
  pl_leaves :: nat
  pl_rows :: "row list"

definition refuse_dtype :: "dtype \<Rightarrow> unit res" where
  "refuse_dtype dt = refuse (dt \<noteq> Float32) (ValueError ''a state page is fp32 words'')"

definition refuse_ragged :: "nat \<Rightarrow> nat \<Rightarrow> unit res" where
  "refuse_ragged dim leaves =
     refuse ((if 2 \<le> dim then leaves else 0) mod 16 \<noteq> 0)
       (ValueError ''the leaf axis is a whole number of pages'')"

definition pages_of_rows :: "row list \<Rightarrow> row list list" where
  "pages_of_rows rows = map (\<lambda>i. take 16 (drop (i * 16) rows)) [0..<length rows div 16]"

definition to_split_planes :: "nat \<Rightarrow> plane \<Rightarrow> page list res" where
  "to_split_planes d_v t =
     rbind (refuse_ragged (pl_dim t) (pl_leaves t)) (\<lambda>_.
     rbind (refuse_dtype (pl_dtype t)) (\<lambda>_.
       Inr (map (pack_page d_v) (pages_of_rows (pl_rows t)))))"

definition from_split_planes :: "nat \<Rightarrow> dtype \<Rightarrow> page list \<Rightarrow> row list res" where
  "from_split_planes d_v dt stored =
     rbind (refuse_dtype dt) (\<lambda>_. Inr (concat (map (unpack_page d_v) stored)))"

definition bytes_equal :: "page list \<Rightarrow> page list \<Rightarrow> bool" where
  "bytes_equal a b \<longleftrightarrow> length a = length b \<and> list_all2 (\<lambda>x y. length x = length y \<and> x = y) a b"

lemma bytes_equal_iff [simp]: "bytes_equal a b \<longleftrightarrow> a = b"
  by (auto simp: bytes_equal_def list_all2_conv_all_nth intro: nth_equalityI)

text \<open>The rows of a well-formed plane: a whole number of pages, every row of the same width.\<close>

definition wf_rows :: "nat \<Rightarrow> row list \<Rightarrow> bool" where
  "wf_rows d_v rows \<longleftrightarrow> length rows mod 16 = 0 \<and> (\<forall>r\<in>set rows. length r = d_v + 1)"

lemma concat_pages_of_rows: "length rows mod 16 = 0 \<Longrightarrow> concat (pages_of_rows rows) = rows"
  using concat_chunks [of rows "length rows div 16" 16]
  by (simp add: pages_of_rows_def mod_0_imp_dvd dvd_div_mult_self)

lemma is_page_pages_of_rows:
  assumes "wf_rows d_v rows" "p \<in> set (pages_of_rows rows)"
  shows "is_page d_v p"
proof -
  from assms(2) obtain i where i: "i < length rows div 16" "p = take 16 (drop (i * 16) rows)"
    by (auto simp: pages_of_rows_def)
  have "length rows = length rows div 16 * 16" using assms(1) by (auto simp: wf_rows_def)
  then have "length p = 16" using i length_chunk by blast
  moreover have "set p \<subseteq> set rows" using i(2) by (auto dest: in_set_takeD in_set_dropD)
  ultimately show ?thesis using assms(1) by (auto simp: is_page_def wf_rows_def)
qed

lemma pages_of_concat:
  "(\<And>p. p \<in> set ps \<Longrightarrow> length p = 16) \<Longrightarrow> pages_of_rows (concat ps) = ps"
  by (rule nth_equalityI)
     (auto simp: pages_of_rows_def length_concat_const [where d = 16] chunk_concat [where d = 16])

section \<open>Properties\<close>

text \<open>
  C35 (planes): The split-plane format loses nothing: the gather after the pack returns every fp32
  word of the plane, and the pack after the gather returns the stored pages byte for byte.
\<close>

theorem split_planes_roundtrip:
  assumes "wf_rows d_v (pl_rows t)" "to_split_planes d_v t = Inr stored"
  shows "from_split_planes d_v (pl_dtype t) stored = Inr (pl_rows t)
       \<and> (\<forall>p\<in>set stored. length p = 16 * (d_v + 1))
       \<and> bytes_equal (map (pack_page d_v) (pages_of_rows (concat (map (unpack_page d_v) stored)))) stored"
proof -
  let ?ps = "pages_of_rows (pl_rows t)"
  from assms(2) have st: "stored = map (pack_page d_v) ?ps" and dt: "pl_dtype t = Float32"
    by (auto simp: to_split_planes_def refuse_dtype_def res_simps)
  have pg: "is_page d_v p" if "p \<in> set ?ps" for p
    by (rule is_page_pages_of_rows [OF assms(1) that])
  have up: "map (unpack_page d_v) stored = ?ps"
    unfolding st by (simp add: comp_def) (rule map_idI, simp add: unpack_pack_page pg)
  then have "concat (map (unpack_page d_v) stored) = pl_rows t"
    using assms(1) by (simp add: concat_pages_of_rows wf_rows_def)
  moreover have "length p = 16 * (d_v + 1)" if "p \<in> set stored" for p
    using that pg by (auto simp: st length_pack_page)
  ultimately show ?thesis
    by (auto simp: from_split_planes_def refuse_dtype_def dt refuse_def st)
qed

theorem split_planes_roundtrip_witness:
  "from_split_planes 1 Float32 (map (pack_page 1) [replicate 16 [0x12345678, 0xFFFF0001]])
     = Inr (replicate 16 [0x12345678, 0xFFFF0001])
   \<and> length (pack_page 1 (replicate 16 [0x12345678, 0xFFFF0001])) = 16 * (1 + 1)
   \<and> bytes_equal (map (pack_page 1) (pages_of_rows (concat (map (unpack_page 1)
        (map (pack_page 1) [replicate 16 [0x12345678, 0xFFFF0001]])))))
       (map (pack_page 1) [replicate 16 [0x12345678, 0xFFFF0001]])"
proof -
  let ?rows = "replicate 16 [0x12345678, 0xFFFF0001] :: row list"
  let ?t = "\<lparr>pl_dtype = Float32, pl_dim = 2, pl_leaves = 16, pl_rows = ?rows\<rparr>"
  have "wf_rows 1 (pl_rows ?t)" by (simp add: wf_rows_def)
  moreover have "pages_of_rows ?rows = [?rows]" by (simp add: pages_of_rows_def)
  then have "to_split_planes 1 ?t = Inr (map (pack_page 1) [?rows])"
    by (simp add: to_split_planes_def refuse_ragged_def refuse_dtype_def refuse_def)
  ultimately show ?thesis using split_planes_roundtrip [of 1 ?t] by simp
qed

text \<open>
  Any stored page of the right size is the packed form of exactly one logical
  page: the stored format has no junk.
\<close>

theorem stored_page_unique:
  assumes "length stored = 16 * (d_v + 1)"
  shows "\<exists>!rows. is_page d_v rows \<and> pack_page d_v rows = stored"
  using is_page_unpack [OF assms] pack_unpack_page [OF assms] unpack_pack_page by metis

theorem stored_page_unique_witness:
  "\<exists>!rows. is_page 2 rows \<and> pack_page 2 rows = replicate 48 (0xDEADBEEF :: w32)"
  by (rule stored_page_unique) simp

end
