(* ===== verification/Rola_Slots.thy ===== *)
theory Rola_Slots
  imports Rola_Prelude
begin

text \<open>
  Who owns which slot: the atom keying (\<^verbatim>\<open>AtomKeying\<close>, \<^verbatim>\<open>rola/ops/paging.py\<close>), the
  admission rule that places a run (\<^verbatim>\<open>admission\<close>, \<^verbatim>\<open>rola/engine/rules/paging.py\<close>), the
  cursor over it (\<^verbatim>\<open>ExtentAllocator\<close>), and the page arithmetic of the driver owner that
  commits physical memory (\<^verbatim>\<open>csrc/rola/src/paging/vmm_owner.cu\<close>, driver failures left out).
  The locale \<^verbatim>\<open>slot_allocator\<close> is the contract the arena relies on: a run that was granted lies
  inside the capacity and above everything granted before.
\<close>

section \<open>Keying\<close>

record keying =
  k_N :: nat
  k_cols :: nat
  k_BH :: nat

definition make_keying :: "nat \<Rightarrow> nat \<Rightarrow> nat \<Rightarrow> keying res" where
  "make_keying n cols BH =
     (if n mod 16 \<noteq> 0 then Inl (ValueError ''N must be a whole number of 16-leaf atoms'')
      else Inr \<lparr>k_N = n, k_cols = cols, k_BH = BH\<rparr>)"

definition atoms_per_bh :: "keying \<Rightarrow> nat" where
  "atoms_per_bh k = k_N k div 16"

definition logical_atoms :: "keying \<Rightarrow> nat" where
  "logical_atoms k = k_BH k * atoms_per_bh k"

definition atom_of :: "keying \<Rightarrow> nat \<Rightarrow> nat \<Rightarrow> nat" where
  "atom_of k bh leaf = bh * atoms_per_bh k + drop_bit 4 leaf"

definition row_of :: "nat \<Rightarrow> nat" where
  "row_of leaf = and leaf 15"

definition address :: "keying \<Rightarrow> nat \<Rightarrow> nat \<Rightarrow> nat \<Rightarrow> nat" where
  "address k slot leaf v = (or (push_bit 4 slot) (row_of leaf)) * k_cols k + v"

definition atoms_per_owner :: "nat \<Rightarrow> nat res" where
  "atoms_per_owner BC =
     (if BC mod 16 \<noteq> 0 then Inl (ValueError ''BC must be a whole number of 16-leaf atoms'')
      else Inr (BC div 16))"

lemma row_of_mod: "row_of leaf = leaf mod 16"
  using take_bit_eq_mask [of 4 leaf] by (simp add: row_of_def mask_eq_exp_minus_1 take_bit_eq_mod)

lemma or_is_add:
  fixes a b :: nat
  assumes "b < 16"
  shows "or (push_bit 4 a) b = push_bit 4 a + b"
proof (rule disjunctive_add [symmetric])
  fix n
  have "bit b n \<Longrightarrow> n < 4"
  proof -
    assume "bit b n"
    moreover have "take_bit 4 b = b" using assms by (simp add: take_bit_eq_mod)
    ultimately show "n < 4" by (metis bit_take_bit_iff)
  qed
  then show "\<not> bit (push_bit 4 a) n \<or> \<not> bit b n" by (auto simp: bit_push_bit_iff)
qed

lemma address_add: "address k slot leaf v = (slot * 16 + leaf mod 16) * k_cols k + v"
proof -
  have "or (push_bit 4 slot) (leaf mod 16) = push_bit 4 slot + leaf mod 16"
    by (rule or_is_add) simp
  then show ?thesis by (simp add: address_def row_of_mod push_bit_eq_mult)
qed

lemma atom_of_div: "atom_of k bh leaf = bh * atoms_per_bh k + leaf div 16"
  by (simp add: atom_of_def drop_bit_eq_div)

lemma atom_of_less:
  "k_N k mod 16 = 0 \<Longrightarrow> leaf < k_N k \<Longrightarrow> bh < k_BH k \<Longrightarrow> atom_of k bh leaf < logical_atoms k"
proof -
  assume a: "k_N k mod 16 = 0" "leaf < k_N k" "bh < k_BH k"
  then have "leaf div 16 < atoms_per_bh k"
    unfolding atoms_per_bh_def by (intro less_mult_imp_div_less) auto
  with a(3) show ?thesis by (simp add: atom_of_div logical_atoms_def mult_add_less)
qed

section \<open>Admission\<close>

text \<open>
  \<^verbatim>\<open>admission(allocated, capacity, extent_atoms, count)\<close>; the remainder is Python's
  \<^verbatim>\<open>(-allocated) % extent_atoms\<close>, on integers.
\<close>

definition admission :: "nat \<Rightarrow> nat \<Rightarrow> nat \<Rightarrow> int \<Rightarrow> nat res" where
  "admission allocated capacity extent_atoms count =
     (if count \<le> 0 then Inr allocated
      else
        let remainder = (- int allocated) mod int extent_atoms;
            first = (if remainder \<noteq> 0 \<and> remainder < count then int allocated + remainder
                     else int allocated)
        in if int capacity < first + count
           then Inl (RuntimeError ''the page arena cannot serve this launch'')
           else Inr (nat first))"

record allocator =
  al_capacity :: nat
  al_extent :: nat
  al_next :: nat

definition make_allocator :: "nat \<Rightarrow> int \<Rightarrow> allocator res" where
  "make_allocator capacity extent_atoms =
     (if extent_atoms < 1 then Inl (ValueError ''extent_atoms must be >= 1'')
      else Inr \<lparr>al_capacity = capacity, al_extent = nat extent_atoms, al_next = 0\<rparr>)"

definition al_free :: "allocator \<Rightarrow> int" where
  "al_free a = int (al_capacity a) - int (al_next a)"

definition al_reset :: "allocator \<Rightarrow> allocator" where
  "al_reset a = a\<lparr>al_next := 0\<rparr>"

definition take_slots :: "nat \<Rightarrow> allocator \<Rightarrow> (nat \<times> allocator) res" where
  "take_slots count a =
     rbind (admission (al_next a) (al_capacity a) (al_extent a) (int count)) (\<lambda>first.
       Inr (first, if 0 < count then a\<lparr>al_next := first + count\<rparr> else a))"

lemma admission_placement:
  assumes "admission allocated capacity extent count = Inr first" "0 < count" "0 < extent"
  shows "allocated \<le> first" "int first + count \<le> int capacity"
    "first = allocated \<or> extent dvd first \<and> first < allocated + extent"
proof -
  let ?r = "(- int allocated) mod int extent"
  have r: "0 \<le> ?r" "?r < int extent" using assms(3) by simp_all
  have dvd: "int extent dvd int allocated + ?r"
    by (metis add.commute add.inverse_inverse diff_minus_eq_add dvd_minus_mod minus_diff_eq
        dvd_minus_iff)
  from assms have cases: "int first = int allocated \<or> int first = int allocated + ?r"
    and cap: "int first + count \<le> int capacity"
    using r by (auto simp: admission_def Let_def split: if_splits)
  from cap show "int first + count \<le> int capacity" .
  from cases r show "allocated \<le> first" by linarith
  from cases show "first = allocated \<or> extent dvd first \<and> first < allocated + extent"
  proof
    assume "int first = int allocated + ?r"
    moreover from this r have "first < allocated + extent" by linarith
    moreover have "extent dvd first"
      using dvd \<open>int first = int allocated + ?r\<close> by (metis int_dvd_int_iff)
    ultimately show ?thesis by blast
  qed simp
qed

text \<open>The first run of a reset allocator starts at slot 0, whatever the extent.\<close>

lemma admission_zero: "count \<le> int capacity \<Longrightarrow> admission 0 capacity extent count = Inr 0"
  by (simp add: admission_def Let_def)

locale slot_allocator =
  fixes grant :: "nat \<Rightarrow> 'a \<Rightarrow> (nat \<times> 'a) res"
    and used_below :: "'a \<Rightarrow> nat" and capacity_of :: "'a \<Rightarrow> nat" and wf :: "'a \<Rightarrow> bool"
  assumes grant_wf: "wf a \<Longrightarrow> grant n a = Inr (first, b) \<Longrightarrow> wf b \<and> capacity_of b = capacity_of a"
    and grant_fresh: "wf a \<Longrightarrow> grant n a = Inr (first, b) \<Longrightarrow>
      used_below a \<le> first \<and> used_below a \<le> used_below b \<and> first + n \<le> used_below b"
    and grant_fits: "wf a \<Longrightarrow> used_below a \<le> capacity_of a"
begin

lemma grant_range:
  "wf a \<Longrightarrow> grant n a = Inr (first, b) \<Longrightarrow> s \<in> set [first..<first + n]
   \<Longrightarrow> used_below a \<le> s \<and> s < used_below b \<and> s < capacity_of a"
  using grant_fresh [of a n first b] grant_wf [of a n first b] grant_fits [of b] by auto

text \<open>Slots granted before stay disjoint from the run.\<close>

lemma grant_disjoint:
  "wf a \<Longrightarrow> grant n a = Inr (first, b) \<Longrightarrow> \<forall>s\<in>S. s < used_below a
   \<Longrightarrow> S \<inter> set [first..<first + n] = {}"
  using grant_range [of a n first b] by force

end

definition allocator_ok :: "allocator \<Rightarrow> bool" where
  "allocator_ok a \<longleftrightarrow> 0 < al_extent a \<and> al_next a \<le> al_capacity a"

lemma take_slots_Inr:
  assumes "take_slots n a = Inr (first, b)" "allocator_ok a"
  shows "al_next a \<le> first" "al_capacity b = al_capacity a" "al_extent b = al_extent a"
    "al_next b = (if 0 < n then first + n else al_next a)" "first + n \<le> al_capacity a"
    "n = 0 \<Longrightarrow> first = al_next a"
  using assms admission_placement [of "al_next a" "al_capacity a" "al_extent a" "int n" first]
  by (auto simp: take_slots_def res_simps admission_def allocator_ok_def split: if_splits)

interpretation extent: slot_allocator take_slots al_next al_capacity allocator_ok
proof unfold_locales
  fix n a first b
  assume a: "allocator_ok a" "take_slots n a = Inr (first, b)"
  note t = take_slots_Inr [OF a(2,1)]
  show "allocator_ok b \<and> al_capacity b = al_capacity a"
    using a(1) t by (auto simp: allocator_ok_def)
  show "al_next a \<le> first \<and> al_next a \<le> al_next b \<and> first + n \<le> al_next b"
    using t by (cases "n = 0") auto
qed (simp add: allocator_ok_def)

section \<open>Physical commitment\<close>

text \<open>The page arithmetic of \<^verbatim>\<open>VmmOwner\<close>: bytes mapped so far, grown a chunk at a time.\<close>

record vmm_owner =
  vm_limit :: nat
  vm_page_bytes :: nat
  vm_chunk_pages :: nat
  vm_granularity :: nat
  vm_mapped_bytes :: nat

definition round_up :: "nat \<Rightarrow> nat \<Rightarrow> nat" where
  "round_up x g = ceil_div x g * g"

definition mapped_capacity_pages :: "vmm_owner \<Rightarrow> nat" where
  "mapped_capacity_pages o1 = min (vm_limit o1) (vm_mapped_bytes o1 div vm_page_bytes o1)"

definition vmm_grow :: "nat \<Rightarrow> vmm_owner \<Rightarrow> vmm_owner res" where
  "vmm_grow required o1 =
     (if vm_limit o1 < required
      then Inl (RuntimeError ''CUDA VMM required page count exceeds the reserved maximum'')
      else if required \<le> mapped_capacity_pages o1 then Inr o1
      else
        let max_chunks = ceil_div (vm_limit o1) (vm_chunk_pages o1);
            required_chunks = ceil_div required (vm_chunk_pages o1);
            target_chunks = (if mapped_capacity_pages o1 = 0 \<or> max_chunks \<le> required_chunks
                             then required_chunks else required_chunks + 1);
            target_pages = min (vm_limit o1) (target_chunks * vm_chunk_pages o1);
            target_bytes = round_up (target_pages * vm_page_bytes o1) (vm_granularity o1)
        in Inr (if target_bytes \<le> vm_mapped_bytes o1 then o1
                else o1\<lparr>vm_mapped_bytes := target_bytes\<rparr>))"

definition vmm_create :: "nat \<Rightarrow> nat \<Rightarrow> nat \<Rightarrow> nat \<Rightarrow> nat \<Rightarrow> vmm_owner res" where
  "vmm_create limit page_rows page_cols target_chunk_bytes granularity =
     (if limit = 0 \<or> page_rows = 0 \<or> page_cols = 0
      then Inl (RuntimeError ''CUDA VMM page geometry must be positive'')
      else if target_chunk_bytes = 0
      then Inl (RuntimeError ''CUDA VMM target_chunk_bytes must be positive'')
      else
        let page_bytes = page_rows * page_cols * 4;
            chunk_pages = min limit (max 1 (target_chunk_bytes div page_bytes))
        in vmm_grow (min limit chunk_pages)
             \<lparr>vm_limit = limit, vm_page_bytes = page_bytes, vm_chunk_pages = chunk_pages,
              vm_granularity = granularity, vm_mapped_bytes = 0\<rparr>)"

definition vmm_ok :: "vmm_owner \<Rightarrow> bool" where
  "vmm_ok o1 \<longleftrightarrow> 0 < vm_page_bytes o1 \<and> 0 < vm_chunk_pages o1 \<and> 0 < vm_granularity o1"

lemma round_up_ge: "0 < g \<Longrightarrow> x \<le> round_up x g"
  by (simp add: round_up_def ceil_div_cover)

lemma vmm_grow_Inr:
  assumes "vmm_grow required o1 = Inr o2" "vmm_ok o1"
  shows "vmm_ok o2" "vm_limit o2 = vm_limit o1" "required \<le> mapped_capacity_pages o2"
    "mapped_capacity_pages o1 \<le> mapped_capacity_pages o2"
proof -
  have ok: "vmm_ok o2 \<and> vm_limit o2 = vm_limit o1 \<and> vm_page_bytes o2 = vm_page_bytes o1
      \<and> vm_mapped_bytes o1 \<le> vm_mapped_bytes o2"
    using assms by (auto simp: vmm_grow_def vmm_ok_def Let_def split: if_splits)
  then show "vmm_ok o2" "vm_limit o2 = vm_limit o1" by simp_all
  from ok show "mapped_capacity_pages o1 \<le> mapped_capacity_pages o2"
    by (simp add: mapped_capacity_pages_def min.coboundedI2 div_le_mono)
  show "required \<le> mapped_capacity_pages o2"
  proof (cases "required \<le> mapped_capacity_pages o1")
    case True
    with \<open>mapped_capacity_pages o1 \<le> mapped_capacity_pages o2\<close> show ?thesis by simp
  next
    case False
    let ?c = "vm_chunk_pages o1"
    define target where "target = (if mapped_capacity_pages o1 = 0 \<or>
        ceil_div (vm_limit o1) ?c \<le> ceil_div required ?c
        then ceil_div required ?c else ceil_div required ?c + 1)"
    define pages where "pages = min (vm_limit o1) (target * ?c)"
    have lim: "required \<le> vm_limit o1" using assms(1) by (auto simp: vmm_grow_def split: if_splits)
    have "required \<le> ceil_div required ?c * ?c" using assms(2) by (intro ceil_div_cover) (simp add: vmm_ok_def)
    also have "\<dots> \<le> target * ?c" by (intro mult_le_mono1) (simp add: target_def)
    finally have req: "required \<le> pages" using lim by (simp add: pages_def)
    have "round_up (pages * vm_page_bytes o1) (vm_granularity o1) \<le> vm_mapped_bytes o2"
      using assms(1) False lim
      by (auto simp: vmm_grow_def Let_def target_def pages_def split: if_splits)
    then have "pages * vm_page_bytes o1 \<le> vm_mapped_bytes o2"
      using round_up_ge [of "vm_granularity o1" "pages * vm_page_bytes o1"] assms(2)
      by (simp add: vmm_ok_def)
    then have "pages \<le> vm_mapped_bytes o2 div vm_page_bytes o2"
      using ok assms(2) by (simp add: less_eq_div_iff_mult_less_eq vmm_ok_def)
    with req lim ok show ?thesis by (simp add: mapped_capacity_pages_def)
  qed
qed

lemma vmm_grow_total: "required \<le> vm_limit o1 \<Longrightarrow> \<exists>o2. vmm_grow required o1 = Inr o2"
  by (simp add: vmm_grow_def Let_def)

lemma vmm_create_Inr:
  assumes "vmm_create limit rows cols target g = Inr o1" "0 < g"
  shows "vmm_ok o1" "vm_limit o1 = limit"
proof -
  let ?pb = "rows * cols * 4" let ?cp = "min limit (max 1 (target div ?pb))"
  let ?o = "\<lparr>vm_limit = limit, vm_page_bytes = ?pb, vm_chunk_pages = ?cp, vm_granularity = g,
              vm_mapped_bytes = 0\<rparr>"
  from assms(1) have "vmm_grow (min limit ?cp) ?o = Inr o1" and pos: "0 < limit" "0 < rows" "0 < cols"
    by (auto simp: vmm_create_def Let_def split: if_splits)
  moreover have "vmm_ok ?o" using pos assms(2) by (simp add: vmm_ok_def)
  ultimately show "vmm_ok o1" "vm_limit o1 = limit" using vmm_grow_Inr by fastforce+
qed

section \<open>Properties\<close>

text \<open>
  The value address written with OR is the additive mixed-radix address: it stays
  inside the plane and no two (slot, row, column) triples share a word.
\<close>

theorem address_injective:
  assumes "v < k_cols k" "v' < k_cols k" "slot < slots"
  shows "address k slot leaf v < slots * 16 * k_cols k
       \<and> (address k slot leaf v = address k slot' leaf' v' \<longleftrightarrow>
            slot = slot' \<and> leaf mod 16 = leaf' mod 16 \<and> v = v')"
proof -
  have inj: "a * n + b = a' * n + b' \<longleftrightarrow> a = a' \<and> b = b'" if "b < n" "b' < n" for a b a' b' n :: nat
  proof
    assume e: "a * n + b = a' * n + b'"
    from that have "a = (a * n + b) div n" "b = (a * n + b) mod n"
      "a' = (a' * n + b') div n" "b' = (a' * n + b') mod n" by simp_all
    with e show "a = a' \<and> b = b'" by metis
  qed simp
  have "slot * 16 + leaf mod 16 < slots * 16" using assms(3) by (intro mult_add_less) simp_all
  with assms show ?thesis by (simp add: address_add mult_add_less inj)
qed

theorem address_injective_witness:
  "address \<lparr>k_N = 256, k_cols = 65, k_BH = 2\<rparr> 3 17 64 < 8 * 16 * 65
   \<and> (address \<lparr>k_N = 256, k_cols = 65, k_BH = 2\<rparr> 3 17 64 = address \<lparr>k_N = 256, k_cols = 65, k_BH = 2\<rparr> 3 1 64
      \<longleftrightarrow> (3::nat) = 3 \<and> (17::nat) mod 16 = 1 mod 16 \<and> (64::nat) = 64)"
  using address_injective [of 64 "\<lparr>k_N = 256, k_cols = 65, k_BH = 2\<rparr>" 64 3 8 17 3 1] by simp

text \<open>
  C33 (admission): Admission is all or nothing, and where it grants, the run lies above everything
  handed out and inside the capacity; it either continues at the cursor or opens the next extent,
  and it does not straddle an extent boundary when it fits inside one.
\<close>

theorem admission_correct:
  assumes "0 < extent"
  shows "(admission allocated capacity extent (int count) = Inr first \<and> 0 < count \<longrightarrow>
            allocated \<le> first \<and> first + count \<le> capacity
            \<and> (first = allocated \<or> extent dvd first \<and> first < allocated + extent)
            \<and> (count \<le> extent \<longrightarrow> first div extent = (first + count - 1) div extent))
       \<and> (admission allocated capacity extent (int count) = Inr first \<and> count = 0 \<longrightarrow> first = allocated)
       \<and> (extent = 1 \<longrightarrow> allocated + count \<le> capacity \<longrightarrow>
            admission allocated capacity extent (int count) = Inr allocated)"
proof (intro conjI impI; (elim conjE)?)
  assume adm: "admission allocated capacity extent (int count) = Inr first" and pos: "0 < count"
  note pl = admission_placement [OF adm _ assms]
  show "allocated \<le> first" "first + count \<le> capacity"
    "first = allocated \<or> extent dvd first \<and> first < allocated + extent"
    using pl pos by auto
  assume fits: "count \<le> extent"
  let ?r = "(- int allocated) mod int extent"
  have "first mod extent + count \<le> extent"
  proof (cases "extent dvd first")
    case True
    with fits show ?thesis by simp
  next
    case False
    have "?r \<noteq> 0"
    proof
      assume "?r = 0"
      then have "extent dvd allocated" by (metis dvd_minus_iff int_dvd_int_iff mod_0_imp_dvd)
      with False pl(3) pos show False by auto
    qed
    moreover have "0 \<le> ?r" using assms by simp
    ultimately have f: "first = allocated" and le: "int count \<le> ?r"
      using False adm pos pl(3) by (auto simp: admission_def Let_def split: if_splits)
    have "?r = int extent - int allocated mod int extent"
      using \<open>?r \<noteq> 0\<close> by (simp add: zmod_zminus1_eq_if split: if_splits)
    with le f show ?thesis by (simp flip: zmod_int)
  qed
  then have "first mod extent + (count - 1) < extent" using pos assms by linarith
  moreover have "first + count - 1 = first div extent * extent + (first mod extent + (count - 1))"
    using pos by (metis add.assoc Nat.add_diff_assoc Suc_leI One_nat_def div_mult_mod_eq)
  moreover have "(q * extent + r) div extent = q" if "r < extent" for q r
    using that by simp
  ultimately show "first div extent = (first + count - 1) div extent" by metis
qed (auto simp: admission_def)

theorem admission_correct_witness:
  "admission 5 16 4 (int 3) = Inr 5 \<and> (5::nat) \<le> 5 \<and> 5 + 3 \<le> (16::nat)
   \<and> ((5::nat) = 5 \<or> (4::nat) dvd 5 \<and> (5::nat) < 5 + 4) \<and> (5::nat) div 4 = (5 + 3 - 1) div 4"
proof -
  have "admission 5 16 4 (int 3) = Inr 5" by code_simp
  with admission_correct [of 4 5 16 3 5] show ?thesis by simp
qed

text \<open>
  Growing the driver commitment never shrinks it, keeps the dense limit, covers what was
  required, and is refused only beyond the dense limit.
\<close>

theorem vmm_grow_covers:
  assumes "vmm_ok o1"
  shows "case vmm_grow required o1 of
           Inl e \<Rightarrow> vm_limit o1 < required
         | Inr o2 \<Rightarrow> required \<le> mapped_capacity_pages o2 \<and> mapped_capacity_pages o1 \<le> mapped_capacity_pages o2
                     \<and> mapped_capacity_pages o2 \<le> vm_limit o1 \<and> vmm_ok o2"
proof (cases "vmm_grow required o1")
  case (Inl e)
  then show ?thesis by (auto simp: vmm_grow_def Let_def split: if_splits)
next
  case (Inr o2)
  from vmm_grow_Inr [OF Inr assms] Inr show ?thesis
    by (auto simp: mapped_capacity_pages_def)
qed

theorem vmm_grow_covers_witness:
  "case vmm_grow 5 \<lparr>vm_limit = 64, vm_page_bytes = 4160, vm_chunk_pages = 2, vm_granularity = 4096,
                    vm_mapped_bytes = 12288\<rparr> of
     Inl e \<Rightarrow> vm_limit \<lparr>vm_limit = 64, vm_page_bytes = 4160, vm_chunk_pages = 2, vm_granularity = 4096,
                    vm_mapped_bytes = 12288\<rparr> < 5
   | Inr o2 \<Rightarrow> 5 \<le> mapped_capacity_pages o2
       \<and> mapped_capacity_pages \<lparr>vm_limit = 64, vm_page_bytes = 4160, vm_chunk_pages = 2,
            vm_granularity = 4096, vm_mapped_bytes = 12288\<rparr> \<le> mapped_capacity_pages o2
       \<and> mapped_capacity_pages o2 \<le> vm_limit \<lparr>vm_limit = 64, vm_page_bytes = 4160, vm_chunk_pages = 2,
            vm_granularity = 4096, vm_mapped_bytes = 12288\<rparr> \<and> vmm_ok o2"
  by (rule vmm_grow_covers) (simp add: vmm_ok_def)

end
