(* ===== verification/Rola_Arena.thy ===== *)
theory Rola_Arena
  imports Rola_Planes Rola_Radix Rola_Slots Complex_Main
begin

text \<open>
  \<^verbatim>\<open>PageArena\<close> (\<^verbatim>\<open>rola/ops/paging.py\<close>): the pooled page arena, every method that changes it,
  and the two device actions on it (\<^verbatim>\<open>csrc/rola/src/decode/decode.cu\<close>): the claim of pool slots
  by a decode step and the write of a page. The tables are flat (\<^verbatim>\<open>view(-1)\<close>), entry
  \<^verbatim>\<open>bh * atoms_per_bh + atom\<close>. A method returns its result and the arena it leaves, because
  some raise after they have already reset it. Streams and events order the same operations on
  a device; here they are sequential.
\<close>

definition ABSENT :: int where "ABSENT = - 1"

record paging_result =
  pr_allocated_pages :: nat
  pr_peak_pages :: nat
  pr_realized_owners :: nat
  pr_owners_total :: nat
  pr_allocated_bytes :: nat
  pr_dense_bytes :: nat
  pr_committed_bytes :: nat

record arena =
  ar_BH :: nat
  ar_apb :: nat
  ar_cols :: nat
  ar_pool_capacity :: nat
  ar_alloc :: allocator
  ar_table :: "int list"
  ar_base :: "page list"
  ar_pool_slots :: "nat list list"
  ar_cursor :: "nat list"
  ar_pool_map :: "int list"
  ar_owner :: "vmm_owner option"
  ar_peak :: nat
  ar_last :: "paging_result option"

definition logical_pages :: "arena \<Rightarrow> nat" where
  "logical_pages a = ar_BH a * ar_apb a"

definition blank_page :: "nat \<Rightarrow> page" where
  "blank_page cols = replicate (16 * cols) 0"

section \<open>Storage\<close>

text \<open>\<^verbatim>\<open>_value_base[first:first + count].zero_()\<close>: a slice, clipped to the storage.\<close>

definition zero_run :: "page \<Rightarrow> nat \<Rightarrow> nat \<Rightarrow> page list \<Rightarrow> page list" where
  "zero_run z first count vb =
     map (\<lambda>i. if first \<le> i \<and> i < first + count then z else vb ! i) [0..<length vb]"

definition commit_pages :: "nat \<Rightarrow> arena \<Rightarrow> (unit, arena) step" where
  "commit_pages pages a =
     (case ar_owner a of
        None \<Rightarrow> (Inr (), a)
      | Some o1 \<Rightarrow> (case vmm_grow pages o1 of
          Inl e \<Rightarrow> (Inl e, a)
        | Inr o2 \<Rightarrow> (Inr (), a\<lparr>ar_owner := Some o2\<rparr>)))"

definition arena_take :: "nat \<Rightarrow> arena \<Rightarrow> (nat, arena) step" where
  "arena_take count a =
     (case take_slots count (ar_alloc a) of
        Inl e \<Rightarrow> (Inl e, a)
      | Inr (first, al) \<Rightarrow> (Inr first, a\<lparr>ar_alloc := al\<rparr>))"

text \<open>The two statements every user of the allocator opens with: take the run, then commit the cursor.\<close>

definition take_committed :: "nat \<Rightarrow> arena \<Rightarrow> (nat, arena) step" where
  "take_committed count a =
     sbind (arena_take count a) (\<lambda>first a.
     sbind (commit_pages (al_next (ar_alloc a)) a) (\<lambda>_ a. (Inr first, a)))"

definition bump_peak :: "arena \<Rightarrow> arena" where
  "bump_peak a = a\<lparr>ar_peak := max (ar_peak a) (al_next (ar_alloc a))\<rparr>"

definition reserve_pool :: "arena \<Rightarrow> (unit, arena) step" where
  "reserve_pool a =
     (if ar_pool_capacity a = 0 then (Inr (), a)
      else
        let cap = ar_pool_capacity a; total = ar_BH a * cap in
        sbind (take_committed total a) (\<lambda>first a.
          (Inr (), bump_peak (a\<lparr>ar_base := zero_run (blank_page (ar_cols a)) first total (ar_base a),
             ar_pool_slots := map (\<lambda>bh. [first + bh * cap ..< first + bh * cap + cap]) [0..<ar_BH a],
             ar_cursor := replicate (ar_BH a) 0\<rparr>))))"

definition arena_reset :: "arena \<Rightarrow> (unit, arena) step" where
  "arena_reset a =
     reserve_pool (a\<lparr>ar_table := replicate (length (ar_table a)) ABSENT,
                     ar_alloc := al_reset (ar_alloc a), ar_peak := 0\<rparr>)"

section \<open>Construction\<close>

datatype device = Cpu | Cuda
datatype backing = Auto | Vmm | Dense | OtherBacking string

definition resolve_backing :: "bool \<Rightarrow> backing \<Rightarrow> device \<Rightarrow> backing res" where
  "resolve_backing probe_supported b dev =
     (case b of
        OtherBacking _ \<Rightarrow> Inl (ValueError ''backing must be auto, vmm or dense'')
      | Dense \<Rightarrow> Inr Dense
      | _ \<Rightarrow>
          if dev \<noteq> Cuda
          then (if b = Vmm then Inl (ValueError ''the VMM backing is CUDA-driver memory'') else Inr Dense)
          else if \<not> probe_supported then Inl (RuntimeError ''the VMM backing is unavailable'')
          else Inr Vmm)"

record arena_args =
  aa_widths :: "nat list"
  aa_BC :: nat
  aa_cols :: nat
  aa_BH :: nat
  aa_device :: device
  aa_extent :: "int option"
  aa_backing :: backing
  aa_slack :: rat

text \<open>
  The device facts a constructor reads: the driver's probe, its allocation granularity, the
  float product \<^verbatim>\<open>pool_slack * atoms_per_bh\<close>, which is a rounded product on the machine, and what
  the memory the driver hands out holds: nothing zeroes it.
\<close>

record platform =
  pf_vmm_supported :: bool
  pf_granularity :: nat
  pf_fmul :: "rat \<Rightarrow> nat \<Rightarrow> rat"
  pf_memory :: "nat \<Rightarrow> nat \<Rightarrow> 32 word"

definition arena_allocate :: "platform \<Rightarrow> backing \<Rightarrow> arena \<Rightarrow> (unit, arena) step" where
  "arena_allocate pf b a =
     (let n = logical_pages a;
          a1 = a\<lparr>ar_table := replicate n ABSENT, ar_pool_map := replicate n ABSENT,
                 ar_base := (if b = Vmm then map (\<lambda>s. map (pf_memory pf s) [0..<16 * ar_cols a]) [0..<n]
                             else replicate n (blank_page (ar_cols a))),
                 ar_pool_slots := replicate (ar_BH a) (replicate (ar_pool_capacity a) 0),
                 ar_cursor := replicate (ar_BH a) 0\<rparr>
      in if b = Vmm
         then (case vmm_create n 16 (ar_cols a) (pf_granularity pf) (pf_granularity pf) of
                 Inl e \<Rightarrow> (Inl e, a)
               | Inr o1 \<Rightarrow> reserve_pool (a1\<lparr>ar_owner := Some o1\<rparr>))
         else reserve_pool a1)"

definition make_arena :: "platform \<Rightarrow> arena_args \<Rightarrow> arena res" where
  "make_arena pf g =
     rbind (make_keying (prod_list (aa_widths g)) (aa_cols g) (aa_BH g)) (\<lambda>k.
     rbind (atoms_per_owner (aa_BC g)) (\<lambda>qpo.
     if aa_BC g = 0 then Inl (ZeroDivisionError ''N // BC'') else
     rbind (make_allocator (logical_atoms k)
              (case aa_extent g of None \<Rightarrow> int qpo | Some e \<Rightarrow> e)) (\<lambda>al.
     if \<not> (0 \<le> aa_slack g \<and> aa_slack g \<le> 1)
     then Inl (ValueError ''pool_slack must lie in [0, 1]'') else
     rbind (resolve_backing (pf_vmm_supported pf) (aa_backing g) (aa_device g)) (\<lambda>b.
     let a = \<lparr>ar_BH = aa_BH g, ar_apb = atoms_per_bh k, ar_cols = aa_cols g,
              ar_pool_capacity = nat \<lceil>pf_fmul pf (aa_slack g) (atoms_per_bh k)\<rceil>,
              ar_alloc = al, ar_table = [], ar_base = [], ar_pool_slots = [], ar_cursor = [],
              ar_pool_map = [], ar_owner = None, ar_peak = 0, ar_last = None\<rparr>
     in rbind (fst (arena_allocate pf b a)) (\<lambda>_. Inr (snd (arena_allocate pf b a)))))))"

section \<open>Accounting\<close>

definition mapped_pages :: "arena \<Rightarrow> nat" where
  "mapped_pages a = (case ar_owner a of None \<Rightarrow> logical_pages a | Some o1 \<Rightarrow> mapped_capacity_pages o1)"

definition arena_plane :: "arena \<Rightarrow> page list" where
  "arena_plane a = take (mapped_pages a) (ar_base a)"

definition allocated_pages :: "arena \<Rightarrow> nat" where
  "allocated_pages a = al_next (ar_alloc a)"

definition resident_pages :: "arena \<Rightarrow> nat" where
  "resident_pages a = length (filter (\<lambda>t. 0 \<le> t) (ar_table a))"

definition dense_bytes :: "arena \<Rightarrow> nat" where
  "dense_bytes a = ar_BH a * (ar_apb a * 16) * ar_cols a * 4"

definition allocated_bytes :: "arena \<Rightarrow> nat" where
  "allocated_bytes a = allocated_pages a * 16 * ar_cols a * 4"

definition committed_bytes :: "arena \<Rightarrow> nat" where
  "committed_bytes a = (case ar_owner a of None \<Rightarrow> dense_bytes a | Some o1 \<Rightarrow> vm_mapped_bytes o1)"

section \<open>Admission of a plan\<close>

definition admit_pages :: "nat list \<Rightarrow> nat \<Rightarrow> arena \<Rightarrow> arena" where
  "admit_pages atom_ids first_slot a =
     (let count = length atom_ids in
      if count = 0 then a
      else a\<lparr>ar_table := index_copy (ar_table a) atom_ids (map int [first_slot..<first_slot + count]),
             ar_base := zero_run (blank_page (ar_cols a)) first_slot count (ar_base a)\<rparr>)"

definition wanted_atoms :: "bool list \<Rightarrow> int list \<Rightarrow> nat list" where
  "wanted_atoms bits table = filter (\<lambda>i. bits ! i \<and> table ! i < 0) [0..<length table]"

definition plan_result :: "nat \<Rightarrow> arena \<Rightarrow> paging_result" where
  "plan_result realized a =
     \<lparr>pr_allocated_pages = allocated_pages a, pr_peak_pages = ar_peak a,
      pr_realized_owners = realized, pr_owners_total = ar_apb a,
      pr_allocated_bytes = allocated_bytes a, pr_dense_bytes = dense_bytes a,
      pr_committed_bytes = committed_bytes a\<rparr>"

definition bitmap_shape_ok :: "bool list list \<Rightarrow> arena \<Rightarrow> bool" where
  "bitmap_shape_ok bitmap a \<longleftrightarrow> length bitmap = ar_BH a \<and> (\<forall>r\<in>set bitmap. length r = ar_apb a)"

definition plan_union :: "bool list list \<Rightarrow> arena \<Rightarrow> (paging_result, arena) step" where
  "plan_union bitmap a =
     (if \<not> bitmap_shape_ok bitmap a
      then (Inl (ValueError ''the atom condensation must be [BH, atoms_per_bh]''), a)
      else
        let atom_ids = wanted_atoms (concat bitmap) (ar_table a);
            realized = length (filter (\<lambda>b. b) (concat bitmap)) in
        sbind (take_committed (length atom_ids) a) (\<lambda>first a.
          let a = bump_peak (admit_pages atom_ids first a); r = plan_result realized a in
          (Inr r, a\<lparr>ar_last := Some r\<rparr>)))"

definition plan_exact :: "bool list list \<Rightarrow> bool \<Rightarrow> arena \<Rightarrow> (paging_result, arena) step" where
  "plan_exact bitmap fresh a =
     (if fresh then sbind (arena_reset a) (\<lambda>_ a. plan_union bitmap a) else plan_union bitmap a)"

section \<open>The slack pool\<close>

definition pool_headroom :: "arena \<Rightarrow> int" where
  "pool_headroom a =
     (if ar_pool_capacity a = 0 then 0
      else int (ar_pool_capacity a) - int (Max (set (ar_cursor a))))"

text \<open>The refill loop: \<^verbatim>\<open>_pool_slots[bh, :count] = fresh[at:at + count]\<close>.\<close>

fun refill_rows :: "nat list \<Rightarrow> nat list \<Rightarrow> nat list list \<Rightarrow> nat list list" where
  "refill_rows (count # spent) fresh (row # rows) =
     (take count fresh @ drop count row) # refill_rows spent (drop count fresh) rows"
| "refill_rows _ _ rows = rows"

definition refill_pool :: "arena \<Rightarrow> (nat, arena) step" where
  "refill_pool a =
     (if ar_pool_capacity a = 0 then (Inr 0, a)
      else let total = sum_list (ar_cursor a) in
        if total = 0 then (Inr 0, a)
        else
          sbind (take_committed total a) (\<lambda>first a.
            (Inr total, bump_peak (a\<lparr>ar_base := zero_run (blank_page (ar_cols a)) first total (ar_base a),
               ar_pool_slots := refill_rows (ar_cursor a) [first..<first + total] (ar_pool_slots a),
               ar_cursor := replicate (length (ar_cursor a)) 0\<rparr>))))"

section \<open>The device's two actions\<close>

text \<open>
  The claim of one batch-head of a decode step. \<^verbatim>\<open>cand\<close> is the batch-head's candidate atoms in
  the order the walk enumerates them. The device counts the unmapped ones, claims all or none of
  them from the batch-head's own pool, and then folds its shadow row into the table: the fold
  takes EVERY entry of the shadow row whose table entry is absent.
\<close>

definition demand_of :: "nat \<Rightarrow> nat list \<Rightarrow> arena \<Rightarrow> nat list" where
  "demand_of bh cand a = filter (\<lambda>i. ar_table a ! i < 0) (map (\<lambda>x. bh * ar_apb a + x) cand)"

definition fold_shadow :: "nat list \<Rightarrow> int list \<Rightarrow> int list \<Rightarrow> int list \<times> nat" where
  "fold_shadow row shadow table =
     fold (\<lambda>i (t, folded). if 0 \<le> shadow ! i \<and> t ! i < 0 then (t[i := shadow ! i], folded + 1)
                           else (t, folded)) row (table, 0)"

definition device_claim :: "nat \<Rightarrow> nat list \<Rightarrow> arena \<Rightarrow> bool \<times> arena" where
  "device_claim bh cand a =
     (let demand = demand_of bh cand a;
          cursor = (if 0 < ar_pool_capacity a then ar_cursor a ! bh else 0)
      in if demand = [] then (False, a)
         else if int (ar_pool_capacity a) - int cursor < int (length demand) then (True, a)
         else
           let shadow = index_copy (ar_pool_map a) demand
                 (map int (take (length demand) (drop cursor (ar_pool_slots a ! bh))));
               row = [bh * ar_apb a ..< bh * ar_apb a + ar_apb a];
               (table, folded) = fold_shadow row shadow (ar_table a)
           in (False, a\<lparr>ar_pool_map := shadow, ar_table := table,
                       ar_cursor := (ar_cursor a)[bh := ar_cursor a ! bh + folded]\<rparr>))"

text \<open>A kernel's write through the page table.\<close>

definition write_page :: "nat \<Rightarrow> page \<Rightarrow> arena \<Rightarrow> arena" where
  "write_page i pg a =
     (if i < length (ar_table a) \<and> 0 \<le> ar_table a ! i
      then a\<lparr>ar_base := (ar_base a)[nat (ar_table a ! i) := pg]\<rparr> else a)"

section \<open>What the arena holds\<close>

definition page_at :: "arena \<Rightarrow> nat \<Rightarrow> page" where
  "page_at a i = (if 0 \<le> ar_table a ! i then ar_base a ! nat (ar_table a ! i)
                  else blank_page (ar_cols a))"

definition materialize :: "arena \<Rightarrow> row list res" where
  "materialize a =
     (let index = map (\<lambda>t. nat (max t 0)) (ar_table a);
          gathered = index_select (ar_base a) index;
          dense = map (\<lambda>(t, pg). if 0 \<le> t then pg else blank_page (ar_cols a))
                    (zip (ar_table a) gathered)
      in from_split_planes (ar_cols a - 1) Float32 dense)"

lemma materialize_page_at:
  "materialize a = Inr (concat (map (unpack_page (ar_cols a - 1)) (map (page_at a) [0..<length (ar_table a)])))"
proof -
  have "map (\<lambda>(t, pg). if 0 \<le> t then pg else blank_page (ar_cols a))
          (zip (ar_table a) (index_select (ar_base a) (map (\<lambda>t. nat (max t 0)) (ar_table a))))
      = map (page_at a) [0..<length (ar_table a)]"
    by (rule nth_equalityI) (auto simp: page_at_def index_select_def)
  then show ?thesis
    by (simp add: materialize_def Let_def from_split_planes_def refuse_dtype_def refuse_def del: map_map)
qed

end
