(* ===== verification/Rola_Arena_Inv.thy ===== *)
theory Rola_Arena_Inv
  imports Rola_Arena "HOL-Library.Multiset"
begin

text \<open>
  The invariant of the page arena and its preservation by every operation: the slots the table
  maps and the slots the pool still offers are pairwise distinct and below the allocator's
  cursor, the pool's pages are zero, and everything below the cursor is physically mapped.
  \<^verbatim>\<open>no_stale\<close> is the separate clause the device's fold needs (its shadow row names no absent
  atom); every operation but \<^verbatim>\<open>reset\<close> keeps it.
\<close>

section \<open>The invariant\<close>

definition mapped_slots :: "int list \<Rightarrow> nat list" where
  "mapped_slots table = map nat (filter (\<lambda>t. 0 \<le> t) table)"

definition free_pool :: "arena \<Rightarrow> nat list" where
  "free_pool a = concat (map2 drop (ar_cursor a) (ar_pool_slots a))"

definition live_slots :: "arena \<Rightarrow> nat list" where
  "live_slots a = mapped_slots (ar_table a) @ free_pool a"

definition shapes_ok :: "arena \<Rightarrow> bool" where
  "shapes_ok a \<longleftrightarrow>
     length (ar_table a) = logical_pages a \<and> length (ar_pool_map a) = logical_pages a
     \<and> length (ar_base a) = logical_pages a \<and> (\<forall>pg\<in>set (ar_base a). length pg = 16 * ar_cols a)
     \<and> ar_pool_capacity a \<le> ar_apb a
     \<and> allocator_ok (ar_alloc a) \<and> al_capacity (ar_alloc a) = logical_pages a"

definition pool_shape_ok :: "arena \<Rightarrow> bool" where
  "pool_shape_ok a \<longleftrightarrow>
     length (ar_pool_slots a) = ar_BH a \<and> (\<forall>r\<in>set (ar_pool_slots a). length r = ar_pool_capacity a)
     \<and> length (ar_cursor a) = ar_BH a \<and> (\<forall>c\<in>set (ar_cursor a). c \<le> ar_pool_capacity a)"

definition committed_ok :: "arena \<Rightarrow> bool" where
  "committed_ok a \<longleftrightarrow>
     (case ar_owner a of None \<Rightarrow> True
      | Some o1 \<Rightarrow> vmm_ok o1 \<and> vm_limit o1 = logical_pages a
                   \<and> al_next (ar_alloc a) \<le> mapped_capacity_pages o1)"

definition arena_ok :: "arena \<Rightarrow> bool" where
  "arena_ok a \<longleftrightarrow> shapes_ok a \<and> pool_shape_ok a \<and> committed_ok a
     \<and> distinct (live_slots a) \<and> (\<forall>s\<in>set (live_slots a). s < al_next (ar_alloc a))
     \<and> (\<forall>s\<in>set (free_pool a). ar_base a ! s = blank_page (ar_cols a))"

definition no_stale :: "arena \<Rightarrow> bool" where
  "no_stale a \<longleftrightarrow> (\<forall>i<length (ar_table a). 0 \<le> ar_pool_map a ! i \<longrightarrow> 0 \<le> ar_table a ! i)"

section \<open>Storage lemmas\<close>

lemma length_zero_run [simp]: "length (zero_run z f c vb) = length vb"
  by (simp add: zero_run_def)

lemma nth_zero_run: "i < length vb \<Longrightarrow> zero_run z f c vb ! i = (if f \<le> i \<and> i < f + c then z else vb ! i)"
  by (simp add: zero_run_def)

lemma set_zero_run: "pg \<in> set (zero_run z f c vb) \<Longrightarrow> pg = z \<or> pg \<in> set vb"
  by (auto simp: zero_run_def split: if_splits)

lemma length_blank [simp]: "length (blank_page c) = 16 * c"
  by (simp add: blank_page_def)

lemma mapped_slots_mset_copy:
  "length src = length idx \<Longrightarrow> distinct idx \<Longrightarrow> \<forall>i\<in>set idx. i < length t \<and> t ! i < 0
   \<Longrightarrow> \<forall>s\<in>set src. 0 \<le> s
   \<Longrightarrow> mset (mapped_slots (index_copy t idx src)) = mset (mapped_slots t) + mset (map nat src)"
proof (induction idx arbitrary: t src)
  case (Cons i idx)
  then obtain s src' where src: "src = s # src'" by (cases src) auto
  have "mset (mapped_slots (t[i := s])) = add_mset (nat s) (mset (mapped_slots t))"
  proof -
    have "filter_mset (\<lambda>t. 0 \<le> t) (mset (t[i := s])) = add_mset s (filter_mset (\<lambda>t. 0 \<le> t) (mset t))"
      using Cons.prems src by (simp add: mset_update nth_mem)
    then show ?thesis by (simp add: mapped_slots_def)
  qed
  moreover have "\<forall>j\<in>set idx. j < length (t[i := s]) \<and> t[i := s] ! j < 0"
    using Cons.prems by (metis distinct.simps(2) length_list_update list.set_intros(2) nth_list_update_neq)
  ultimately show ?case using Cons.IH [of src' "t[i := s]"] Cons.prems src by simp
qed (simp add: mapped_slots_def)

lemma mapped_slots_absent [simp]: "mapped_slots (replicate n ABSENT) = []"
  by (simp add: mapped_slots_def ABSENT_def)

lemma mapped_slotsI: "i < length t \<Longrightarrow> 0 \<le> t ! i \<Longrightarrow> nat (t ! i) \<in> set (mapped_slots t)"
  by (auto simp: mapped_slots_def)

lemma mapped_slots_inject:
  "distinct (mapped_slots t) \<Longrightarrow> i < length t \<Longrightarrow> j < length t \<Longrightarrow> 0 \<le> t ! i \<Longrightarrow> t ! i = t ! j \<Longrightarrow> i = j"
proof (induction t arbitrary: i j)
  case (Cons x t)
  have in_t: "nat x \<in> set (mapped_slots t)" if "k < length t" "t ! k = x" "0 \<le> x" for k
    using mapped_slotsI [of k t] that by simp
  from Cons.prems(1) have x: "0 \<le> x \<Longrightarrow> nat x \<notin> set (mapped_slots t)" and d: "distinct (mapped_slots t)"
    by (auto simp: mapped_slots_def split: if_splits)
  show ?case
    using Cons.prems Cons.IH [OF d] x in_t by (cases i; cases j) auto
qed simp

lemma distinct_of_mset: "mset xs = mset ys \<Longrightarrow> distinct xs \<longleftrightarrow> distinct ys"
  by (simp add: distinct_count_atmost_1 set_mset_mset [symmetric] del: set_mset_mset)

lemma set_of_mset: "mset xs = mset ys \<Longrightarrow> set xs = set ys"
  by (metis set_mset_mset)

lemma distinct_mset_append_range:
  "mset live' = mset live + mset [f..<f + n] \<Longrightarrow> distinct live \<Longrightarrow> \<forall>s\<in>set live. s < f
   \<Longrightarrow> distinct live' \<and> set live' = set live \<union> {f..<f + n}"
proof -
  assume a: "mset live' = mset live + mset [f..<f + n]" "distinct live" "\<forall>s\<in>set live. s < f"
  then have "mset live' = mset (live @ [f..<f + n])" by simp
  moreover have "distinct (live @ [f..<f + n])" using a by auto
  ultimately show ?thesis using distinct_of_mset set_of_mset by (metis atLeastLessThan_upt set_append)
qed

lemma concat_ranges: "concat (map (\<lambda>b. [f + b * c..<f + b * c + c]) [0..<n]) = [f..<f + n * c]"
proof (induction n)
  case (Suc n)
  have "[f..<f + Suc n * c] = [f..<f + n * c] @ [f + n * c..<f + n * c + c]"
    using upt_add_eq_append [of f "f + n * c" c] by (simp add: add.assoc add.commute [of c])
  with Suc show ?case by simp
qed simp

lemma map2_drop_zero: "length rows = n \<Longrightarrow> map2 drop (replicate n 0) rows = rows"
  by (induction rows arbitrary: n) auto

section \<open>Taking and committing slots\<close>

lemma commit_cases:
  assumes "case ow of None \<Rightarrow> True | Some o1 \<Rightarrow> vmm_ok o1 \<and> vm_limit o1 = limit" "pages \<le> limit"
  obtains ow' where "\<And>a. ar_owner a = ow \<Longrightarrow> commit_pages pages a = (Inr (), a\<lparr>ar_owner := ow'\<rparr>)"
    "case ow' of None \<Rightarrow> True | Some o1 \<Rightarrow> vmm_ok o1 \<and> vm_limit o1 = limit \<and> pages \<le> mapped_capacity_pages o1"
proof (cases ow)
  case None
  then show thesis by (intro that [of None]) (auto simp: commit_pages_def)
next
  case (Some o1)
  with assms obtain o2 where g: "vmm_grow pages o1 = Inr o2" using vmm_grow_total by force
  with Some vmm_grow_Inr [OF g] assms(1) show thesis
    by (intro that [of "Some o2"]) (auto simp: commit_pages_def)
qed

text \<open>What a granted run leaves: only the cursor and the commitment have moved.\<close>

definition granted :: "arena \<Rightarrow> nat \<Rightarrow> nat \<Rightarrow> arena \<Rightarrow> bool" where
  "granted a n first b \<longleftrightarrow>
     (\<exists>al ow. b = a\<lparr>ar_alloc := al, ar_owner := ow\<rparr> \<and> take_slots n (ar_alloc a) = Inr (first, al))
     \<and> shapes_ok b \<and> committed_ok b \<and> al_next (ar_alloc a) \<le> first
     \<and> al_next (ar_alloc a) \<le> al_next (ar_alloc b)
     \<and> first + n \<le> al_next (ar_alloc b) \<and> first + n \<le> logical_pages a"

lemma take_committed_cases:
  assumes "shapes_ok a" "committed_ok a"
  obtains (refused) e where "take_committed n a = (Inl e, a)" "take_slots n (ar_alloc a) = Inl e"
  | (granted) first b where "take_committed n a = (Inr first, b)" "granted a n first b"
proof (cases "take_slots n (ar_alloc a)")
  case (Inl e)
  then show thesis by (intro refused [of e]) (simp_all add: take_committed_def arena_take_def)
next
  case (Inr r)
  obtain first al where r: "r = (first, al)" by (cases r)
  from assms(1) have ok: "allocator_ok (ar_alloc a)" and cap: "al_capacity (ar_alloc a) = logical_pages a"
    by (simp_all add: shapes_ok_def)
  note wf = extent.grant_wf [OF ok Inr [unfolded r]]
  note fr = extent.grant_fresh [OF ok Inr [unfolded r]]
  have le: "al_next al \<le> logical_pages a" using wf cap by (simp add: allocator_ok_def)
  have ow: "case ar_owner a of None \<Rightarrow> True | Some o1 \<Rightarrow> vmm_ok o1 \<and> vm_limit o1 = logical_pages a"
    using assms(2) by (simp add: committed_ok_def split: option.splits)
  from commit_cases [OF ow le] obtain ow' where
    c: "\<And>b. ar_owner b = ar_owner a \<Longrightarrow> commit_pages (al_next al) b = (Inr (), b\<lparr>ar_owner := ow'\<rparr>)"
    and ow': "case ow' of None \<Rightarrow> True
       | Some o1 \<Rightarrow> vmm_ok o1 \<and> vm_limit o1 = logical_pages a \<and> al_next al \<le> mapped_capacity_pages o1"
    by blast
  let ?b = "a\<lparr>ar_alloc := al, ar_owner := ow'\<rparr>"
  have "take_committed n a = (Inr first, ?b)"
    using Inr r c [of "a\<lparr>ar_alloc := al\<rparr>"] by (simp add: take_committed_def arena_take_def)
  moreover have "granted a n first ?b"
    unfolding granted_def
  proof (intro conjI exI)
    show "?b = a\<lparr>ar_alloc := al, ar_owner := ow'\<rparr>" ..
    show "take_slots n (ar_alloc a) = Inr (first, al)" using Inr r by simp
    show "shapes_ok ?b" using assms(1) wf cap by (simp add: shapes_ok_def logical_pages_def)
    show "committed_ok ?b" using ow' by (simp add: committed_ok_def logical_pages_def split: option.splits)
  qed (use fr le in simp_all)
  ultimately show thesis by (rule granted)
qed

lemma granted_simps:
  assumes "granted a n first b"
  shows "ar_BH b = ar_BH a" "ar_apb b = ar_apb a" "ar_cols b = ar_cols a" "ar_table b = ar_table a"
    "ar_base b = ar_base a" "ar_pool_slots b = ar_pool_slots a" "ar_cursor b = ar_cursor a"
    "ar_pool_map b = ar_pool_map a" "ar_pool_capacity b = ar_pool_capacity a"
    "logical_pages b = logical_pages a" "ar_peak b = ar_peak a"
  using assms by (auto simp: granted_def logical_pages_def)

section \<open>Every operation keeps the invariant\<close>

definition same_dims :: "arena \<Rightarrow> arena \<Rightarrow> bool" where
  "same_dims a b \<longleftrightarrow> ar_BH b = ar_BH a \<and> ar_apb b = ar_apb a \<and> ar_cols b = ar_cols a
     \<and> ar_pool_capacity b = ar_pool_capacity a"

lemma same_dims_refl [simp]: "same_dims a a"
  by (simp add: same_dims_def)

lemma same_dims_trans: "same_dims a b \<Longrightarrow> same_dims b c \<Longrightarrow> same_dims a c"
  by (simp add: same_dims_def)

lemma same_dims_logical: "same_dims a b \<Longrightarrow> logical_pages b = logical_pages a"
  by (simp add: same_dims_def logical_pages_def)

lemma granted_dims: "granted a n first b \<Longrightarrow> same_dims a b"
  by (simp add: granted_simps same_dims_def)

subsection \<open>The pool reservation and the reset\<close>

lemma free_pool_empty: "pool_shape_ok a \<Longrightarrow> ar_pool_capacity a = 0 \<Longrightarrow> free_pool a = []"
  by (auto simp: free_pool_def pool_shape_ok_def dest!: set_zip_rightD)

lemma reserve_pool_ok:
  assumes "shapes_ok a" "pool_shape_ok a" "committed_ok a" "al_next (ar_alloc a) = 0"
    "mapped_slots (ar_table a) = []"
  shows "\<exists>b. reserve_pool a = (Inr (), b) \<and> arena_ok b \<and> same_dims a b \<and> ar_table b = ar_table a
     \<and> ar_pool_map b = ar_pool_map a \<and> al_next (ar_alloc b) = ar_BH a * ar_pool_capacity a"
proof (cases "ar_pool_capacity a = 0")
  case True
  with assms show ?thesis
    by (auto simp: reserve_pool_def arena_ok_def live_slots_def free_pool_empty)
next
  case False
  let ?cap = "ar_pool_capacity a" let ?total = "ar_BH a * ?cap"
  have le: "?total \<le> logical_pages a"
    using assms(1) by (simp add: shapes_ok_def logical_pages_def)
  have ts: "take_slots ?total (ar_alloc a)
      = Inr (0, if 0 < ?total then ar_alloc a\<lparr>al_next := ?total\<rparr> else ar_alloc a)"
  proof -
    have "admission 0 (al_capacity (ar_alloc a)) (al_extent (ar_alloc a)) (int ?total) = Inr 0"
      using le assms(1) by (intro admission_zero) (simp add: shapes_ok_def del: of_nat_mult)
    then show ?thesis using assms(4) by (simp add: take_slots_def del: of_nat_mult)
  qed
  from take_committed_cases [OF assms(1,3), of ?total] ts obtain b where
    tc: "take_committed ?total a = (Inr 0, b)" and g: "granted a ?total 0 b"
    by (auto simp: granted_def)
  let ?c = "bump_peak (b\<lparr>ar_base := zero_run (blank_page (ar_cols a)) 0 ?total (ar_base a),
       ar_pool_slots := map (\<lambda>bh. [bh * ?cap ..< bh * ?cap + ?cap]) [0..<ar_BH a],
       ar_cursor := replicate (ar_BH a) 0\<rparr>)"
  have next_b: "al_next (ar_alloc b) = ?total"
    using g ts assms(4) by (auto simp: granted_def split: if_splits)
  have rp: "reserve_pool a = (Inr (), ?c)"
    using False tc by (simp add: reserve_pool_def Let_def granted_simps [OF g])
  have fp: "free_pool ?c = [0..<?total]"
    using concat_ranges [of 0 ?cap "ar_BH a"] by (simp add: free_pool_def bump_peak_def map2_drop_zero)
  have "shapes_ok ?c"
    using g set_zero_run assms(1)
    by (auto simp: granted_def shapes_ok_def bump_peak_def logical_pages_def dest!: set_zero_run)
  moreover have "pool_shape_ok ?c"
    by (auto simp: pool_shape_ok_def bump_peak_def granted_simps [OF g])
  moreover have "committed_ok ?c"
    using g by (auto simp: granted_def committed_ok_def bump_peak_def logical_pages_def split: option.splits)
  moreover have "live_slots ?c = [0..<?total]"
    using assms(5) fp by (simp add: live_slots_def bump_peak_def granted_simps [OF g])
  moreover have "ar_base ?c ! s = blank_page (ar_cols ?c)" if "s < ?total" for s
    using that le assms(1) by (simp add: bump_peak_def nth_zero_run granted_simps [OF g] shapes_ok_def)
  moreover have "al_next (ar_alloc ?c) = ?total" by (simp add: bump_peak_def next_b)
  ultimately have "arena_ok ?c" by (simp add: arena_ok_def fp)
  then show ?thesis using rp next_b
    by (auto simp: same_dims_def bump_peak_def granted_simps [OF g])
qed

lemma arena_reset_ok:
  assumes "arena_ok a"
  shows "\<exists>b. arena_reset a = (Inr (), b) \<and> arena_ok b \<and> same_dims a b
     \<and> ar_table b = replicate (length (ar_table a)) ABSENT \<and> ar_pool_map b = ar_pool_map a
     \<and> al_next (ar_alloc b) = ar_BH a * ar_pool_capacity a"
proof -
  let ?a = "a\<lparr>ar_table := replicate (length (ar_table a)) ABSENT, ar_alloc := al_reset (ar_alloc a),
              ar_peak := 0\<rparr>"
  have "shapes_ok ?a"
    using assms by (simp add: arena_ok_def shapes_ok_def logical_pages_def al_reset_def allocator_ok_def)
  moreover have "pool_shape_ok ?a" using assms by (simp add: arena_ok_def pool_shape_ok_def)
  moreover have "committed_ok ?a"
    using assms by (auto simp: arena_ok_def committed_ok_def logical_pages_def al_reset_def split: option.splits)
  ultimately obtain b where "reserve_pool ?a = (Inr (), b)" "arena_ok b" "same_dims ?a b"
    "ar_table b = ar_table ?a" "ar_pool_map b = ar_pool_map ?a"
    "al_next (ar_alloc b) = ar_BH ?a * ar_pool_capacity ?a"
    using reserve_pool_ok [of ?a] by (auto simp: al_reset_def)
  then show ?thesis by (auto simp: arena_reset_def same_dims_def)
qed

subsection \<open>The plan\<close>

lemma wanted_atoms_props:
  "distinct (wanted_atoms bits t)" "i \<in> set (wanted_atoms bits t) \<longleftrightarrow> i < length t \<and> bits ! i \<and> t ! i < 0"
  by (auto simp: wanted_atoms_def)

lemma live_slots_mset: "mset (live_slots a) = mset (mapped_slots (ar_table a)) + mset (free_pool a)"
  by (simp add: live_slots_def)

text \<open>Admission at a granted run: the one step both \<^verbatim>\<open>plan_exact\<close> modes end with.\<close>

lemma admit_ok:
  assumes ok: "arena_ok a" and g: "granted a (length ids) first b"
    and ids: "distinct ids" "\<forall>i\<in>set ids. i < length (ar_table a) \<and> ar_table a ! i < 0"
  defines "c \<equiv> bump_peak (admit_pages ids first b)"
  shows "arena_ok c" "same_dims a c"
    "\<And>i. i < length (ar_table a) \<Longrightarrow> 0 \<le> ar_table c ! i \<longleftrightarrow> 0 \<le> ar_table a ! i \<or> i \<in> set ids"
    "\<And>i. i < length (ar_table a) \<Longrightarrow> page_at c i = page_at a i"
    "length (ar_table c) = length (ar_table a)" "ar_pool_map c = ar_pool_map a"
proof -
  let ?n = "length ids"
  let ?src = "map int [first..<first + ?n]"
  have tab: "ar_table c = index_copy (ar_table a) ids ?src"
    and base: "ar_base c = (if ?n = 0 then ar_base a else zero_run (blank_page (ar_cols a)) first ?n (ar_base a))"
    by (auto simp: c_def bump_peak_def admit_pages_def Let_def granted_simps [OF g])
  have rest: "free_pool c = free_pool a" "ar_cols c = ar_cols a" "logical_pages c = logical_pages a"
    "ar_pool_capacity c = ar_pool_capacity a" "ar_alloc c = ar_alloc b" "ar_owner c = ar_owner b"
    "ar_pool_slots c = ar_pool_slots a" "ar_cursor c = ar_cursor a" "ar_BH c = ar_BH a" "ar_apb c = ar_apb a"
    by (simp_all add: c_def bump_peak_def admit_pages_def Let_def granted_simps [OF g] free_pool_def logical_pages_def)
  show "same_dims a c" by (simp add: same_dims_def rest)
  show "length (ar_table c) = length (ar_table a)" by (simp add: tab)
  show "ar_pool_map c = ar_pool_map a"
    by (simp add: c_def bump_peak_def admit_pages_def Let_def granted_simps [OF g])
  have lo: "al_next (ar_alloc a) \<le> first" "first + ?n \<le> al_next (ar_alloc b)" "first + ?n \<le> logical_pages a"
    "al_next (ar_alloc a) \<le> al_next (ar_alloc b)" using g by (simp_all add: granted_def)
  have live_lt: "s < first" if "s \<in> set (live_slots a)" for s
    using that ok lo(1) by (fastforce simp: arena_ok_def)
  have lenb: "length (ar_base a) = logical_pages a" using ok by (simp add: arena_ok_def shapes_ok_def)
  have base_old: "ar_base c ! s = ar_base a ! s" if "s < first" "s < logical_pages a" for s
    using that lenb by (simp add: base nth_zero_run)
  have live_lp: "s < logical_pages a" if "s \<in> set (live_slots a)" for s
    using that ok by (fastforce simp: arena_ok_def shapes_ok_def allocator_ok_def)
  have mapped: "mset (mapped_slots (ar_table c)) = mset (mapped_slots (ar_table a)) + mset [first..<first + ?n]"
    using mapped_slots_mset_copy [of ?src ids "ar_table a"] ids by (simp add: tab comp_def)
  have "mset (live_slots c) = mset (live_slots a) + mset [first..<first + ?n]"
    by (simp add: live_slots_mset mapped rest)
  then have dl: "distinct (live_slots c)" "set (live_slots c) = set (live_slots a) \<union> {first..<first + ?n}"
    using distinct_mset_append_range [of "live_slots c" "live_slots a" first ?n] live_lt ok
    by (auto simp: arena_ok_def)
  have "shapes_ok c"
    using g ok set_zero_run
    by (auto simp: shapes_ok_def granted_def arena_ok_def rest tab base logical_pages_def
        c_def bump_peak_def admit_pages_def Let_def split: if_splits dest!: set_zero_run)
  moreover have "pool_shape_ok c" using ok by (simp add: arena_ok_def pool_shape_ok_def rest)
  moreover have "committed_ok c"
    using g by (simp add: granted_def committed_ok_def rest granted_simps [OF g] split: option.splits)
  moreover have "\<forall>s\<in>set (live_slots c). s < al_next (ar_alloc c)"
    using dl(2) live_lt lo ok by (fastforce simp: rest arena_ok_def)
  moreover have "ar_base c ! s = blank_page (ar_cols c)" if "s \<in> set (free_pool c)" for s
  proof -
    from that have "s \<in> set (live_slots a)" by (simp add: rest live_slots_def)
    with that ok show ?thesis by (simp add: base_old live_lt live_lp rest arena_ok_def)
  qed
  ultimately show "arena_ok c" using dl(1) by (simp add: arena_ok_def)
  have new: "ar_table c ! (ids ! k) = int (first + k)" if "k < ?n" for k
    using index_copy_nth [of ids ?src k "ar_table a"] that ids by (auto simp: tab nth_append)
  have old: "ar_table c ! i = ar_table a ! i" if "i \<notin> set ids" for i
    using that by (simp add: tab index_copy_other)
  fix i assume i: "i < length (ar_table a)"
  show "0 \<le> ar_table c ! i \<longleftrightarrow> 0 \<le> ar_table a ! i \<or> i \<in> set ids"
    using new old ids by (cases "i \<in> set ids") (auto simp: in_set_conv_nth)
  show "page_at c i = page_at a i"
  proof (cases "i \<in> set ids")
    case True
    then obtain k where k: "k < ?n" "ids ! k = i" by (auto simp: in_set_conv_nth)
    have "page_at c i = ar_base c ! (first + k)" using new [OF k(1)] k(2)
      by (simp add: page_at_def del: of_nat_add)
    also have "\<dots> = blank_page (ar_cols a)" using k lo(3) lenb by (auto simp: base nth_zero_run)
    finally show ?thesis using ids True by (auto simp: page_at_def)
  next
    case False
    show ?thesis
    proof (cases "0 \<le> ar_table a ! i")
      case True
      then have "nat (ar_table a ! i) \<in> set (live_slots a)"
        using i mapped_slotsI by (simp add: live_slots_def)
      with True False show ?thesis by (simp add: page_at_def old base_old live_lt live_lp)
    qed (simp add: page_at_def old False rest)
  qed
qed

lemma length_concat_bitmap: "bitmap_shape_ok bitmap a \<Longrightarrow> length (concat bitmap) = logical_pages a"
  by (subst length_concat_const [where d = "ar_apb a"]) (auto simp: bitmap_shape_ok_def logical_pages_def)

lemma arena_ok_last: "arena_ok (x\<lparr>ar_last := l\<rparr>) = arena_ok x"
proof -
  have "shapes_ok (x\<lparr>ar_last := l\<rparr>) = shapes_ok x" "pool_shape_ok (x\<lparr>ar_last := l\<rparr>) = pool_shape_ok x"
    "free_pool (x\<lparr>ar_last := l\<rparr>) = free_pool x" "live_slots (x\<lparr>ar_last := l\<rparr>) = live_slots x"
    by (simp_all add: shapes_ok_def pool_shape_ok_def free_pool_def live_slots_def logical_pages_def)
  moreover have "committed_ok (x\<lparr>ar_last := l\<rparr>) = committed_ok x"
    by (cases "ar_owner x") (simp_all add: committed_ok_def logical_pages_def)
  ultimately show ?thesis by (simp add: arena_ok_def)
qed

lemma plan_result_last: "plan_result n (a\<lparr>ar_last := l\<rparr>) = plan_result n a"
  by (cases "ar_owner a") (simp_all add: plan_result_def allocated_pages_def allocated_bytes_def
      dense_bytes_def committed_bytes_def)

lemma plan_union_ok:
  assumes "arena_ok a" "bitmap_shape_ok bitmap a"
  obtains (refused) e where "plan_union bitmap a = (Inl e, a)"
      "take_slots (length (wanted_atoms (concat bitmap) (ar_table a))) (ar_alloc a) = Inl e"
  | (planned) r b where "plan_union bitmap a = (Inr r, b)" "arena_ok b" "same_dims a b"
      "\<And>i. i < length (ar_table a) \<Longrightarrow> 0 \<le> ar_table b ! i \<longleftrightarrow> 0 \<le> ar_table a ! i \<or> concat bitmap ! i"
      "\<And>i. i < length (ar_table a) \<Longrightarrow> page_at b i = page_at a i"
      "length (ar_table b) = length (ar_table a)" "ar_pool_map b = ar_pool_map a"
      "\<exists>first. take_slots (length (wanted_atoms (concat bitmap) (ar_table a))) (ar_alloc a)
         = Inr (first, ar_alloc b)"
      "r = plan_result (length (filter (\<lambda>b. b) (concat bitmap))) b"
proof -
  let ?ids = "wanted_atoms (concat bitmap) (ar_table a)"
  have sc: "shapes_ok a" "committed_ok a" using assms(1) by (simp_all add: arena_ok_def)
  show thesis
  proof (cases rule: take_committed_cases [OF sc, of "length ?ids"])
    case (1 e)
    then show thesis using assms(2) by (intro refused [of e]) (simp_all add: plan_union_def Let_def)
  next
    case (2 first b)
    let ?c = "bump_peak (admit_pages ?ids first b)"
    let ?r = "plan_result (length (filter (\<lambda>b. b) (concat bitmap))) ?c"
    have iff: "arena_ok (x\<lparr>ar_last := l\<rparr>) = arena_ok x" "same_dims a (x\<lparr>ar_last := l\<rparr>) = same_dims a x"
      "page_at (x\<lparr>ar_last := l\<rparr>) i = page_at x i" for x l i
      by (simp_all add: arena_ok_last same_dims_def page_at_def)
    have ids: "distinct ?ids" "\<forall>i\<in>set ?ids. i < length (ar_table a) \<and> ar_table a ! i < 0"
      by (simp_all add: wanted_atoms_props)
    note adm = admit_ok [OF assms(1) 2(2) ids]
    show thesis
    proof (rule planned [of ?r "?c\<lparr>ar_last := Some ?r\<rparr>"])
      show "plan_union bitmap a = (Inr ?r, ?c\<lparr>ar_last := Some ?r\<rparr>)"
        using assms(2) 2(1) by (simp add: plan_union_def Let_def)
      show "\<exists>f. take_slots (length ?ids) (ar_alloc a) = Inr (f, ar_alloc (?c\<lparr>ar_last := Some ?r\<rparr>))"
        using 2(2) by (auto simp: granted_def bump_peak_def admit_pages_def Let_def)
      show "?r = plan_result (length (filter (\<lambda>b. b) (concat bitmap))) (?c\<lparr>ar_last := Some ?r\<rparr>)"
        by (simp add: plan_result_last)
      fix i assume i: "i < length (ar_table a)"
      show "0 \<le> ar_table (?c\<lparr>ar_last := Some ?r\<rparr>) ! i \<longleftrightarrow> 0 \<le> ar_table a ! i \<or> concat bitmap ! i"
        using adm(3) [OF i] i by (auto simp: wanted_atoms_props)
    qed (use adm in \<open>simp_all add: iff\<close>)
  qed
qed

subsection \<open>The refill\<close>

lemma refill_rows_mset:
  "length spent = length rows \<Longrightarrow> list_all2 (\<lambda>c r. c \<le> length r) spent rows \<Longrightarrow> length fresh = sum_list spent
   \<Longrightarrow> mset (concat (refill_rows spent fresh rows)) = mset fresh + mset (concat (map2 drop spent rows))
     \<and> map length (refill_rows spent fresh rows) = map length rows"
proof (induction spent fresh rows rule: refill_rows.induct)
  case (1 c spent fresh row rows)
  then have IH: "mset (concat (refill_rows spent (drop c fresh) rows))
        = mset (drop c fresh) + mset (concat (map2 drop spent rows))"
    "map length (refill_rows spent (drop c fresh) rows) = map length rows" by auto
  have "mset fresh = mset (take c fresh) + mset (drop c fresh)"
    by (metis append_take_drop_id mset_append)
  with IH 1 show ?case by auto
qed auto

lemma refill_pool_ok:
  assumes "arena_ok a"
  obtains (refused) e where "refill_pool a = (Inl e, a)" "take_slots (sum_list (ar_cursor a)) (ar_alloc a) = Inl e"
  | (refilled) n b where "refill_pool a = (Inr n, b)" "arena_ok b" "same_dims a b" "ar_table b = ar_table a"
      "\<And>i. i < length (ar_table a) \<Longrightarrow> page_at b i = page_at a i" "ar_pool_map b = ar_pool_map a"
      "ar_pool_capacity a = 0 \<or> ar_cursor b = replicate (ar_BH a) 0"
proof (cases "ar_pool_capacity a = 0 \<or> sum_list (ar_cursor a) = 0")
  case True
  have len: "length (ar_cursor a) = ar_BH a" using assms by (simp add: arena_ok_def pool_shape_ok_def)
  have "sum_list (ar_cursor a) = 0 \<Longrightarrow> ar_cursor a = replicate (ar_BH a) 0"
    by (rule nth_equalityI) (simp_all add: len sum_list_eq_0_iff)
  with True show thesis by (intro refilled [of 0 a]) (auto simp: refill_pool_def assms Let_def)
next
  case False
  let ?n = "sum_list (ar_cursor a)"
  have sc: "shapes_ok a" "committed_ok a" and ps: "pool_shape_ok a"
    using assms by (simp_all add: arena_ok_def)
  show thesis
  proof (cases rule: take_committed_cases [OF sc, of ?n])
    case (1 e)
    then show thesis using False by (intro refused [of e]) (simp_all add: refill_pool_def Let_def)
  next
    case (2 first b)
    let ?rows = "refill_rows (ar_cursor a) [first..<first + ?n] (ar_pool_slots a)"
    let ?c = "bump_peak (b\<lparr>ar_base := zero_run (blank_page (ar_cols a)) first ?n (ar_base a),
                ar_pool_slots := ?rows, ar_cursor := replicate (ar_BH a) 0\<rparr>)"
    note gs = granted_simps [OF 2(2)]
    have lo: "al_next (ar_alloc a) \<le> first" "first + ?n \<le> al_next (ar_alloc b)" "first + ?n \<le> logical_pages a"
      "al_next (ar_alloc a) \<le> al_next (ar_alloc b)" using 2(2) by (simp_all add: granted_def)
    have cl: "length (ar_cursor a) = length (ar_pool_slots a)"
      "list_all2 (\<lambda>c r. c \<le> length r) (ar_cursor a) (ar_pool_slots a)"
      using ps by (auto simp: pool_shape_ok_def list_all2_conv_all_nth)
    have rm: "mset (concat ?rows) = mset [first..<first + ?n] + mset (free_pool a)"
      "map length ?rows = map length (ar_pool_slots a)"
      using refill_rows_mset [OF cl, of "[first..<first + ?n]"] by (simp_all add: free_pool_def)
    have lr: "length ?rows = ar_BH a" using rm(2) ps by (metis length_map pool_shape_ok_def)
    have fc: "free_pool ?c = concat ?rows" by (simp add: free_pool_def bump_peak_def map2_drop_zero lr)
    have "mset (live_slots ?c) = mset (live_slots a) + mset [first..<first + ?n]"
      using rm(1) fc by (simp add: live_slots_mset bump_peak_def gs)
    then have dl: "distinct (live_slots ?c)" "set (live_slots ?c) = set (live_slots a) \<union> {first..<first + ?n}"
      using distinct_mset_append_range [of "live_slots ?c" "live_slots a" first ?n] assms lo(1)
      by (fastforce simp: arena_ok_def)+
    have live_lt: "s < first \<and> s < logical_pages a" if "s \<in> set (live_slots a)" for s
      using that assms lo by (fastforce simp: arena_ok_def)
    have lenb: "length (ar_base a) = logical_pages a" using sc by (simp add: shapes_ok_def)
    have base_old: "ar_base ?c ! s = ar_base a ! s" if "s \<in> set (live_slots a)" for s
      using live_lt [OF that] lenb by (simp add: bump_peak_def nth_zero_run)
    have "shapes_ok ?c"
      using 2(2) sc by (auto simp: granted_def shapes_ok_def bump_peak_def logical_pages_def dest!: set_zero_run)
    moreover have "pool_shape_ok ?c"
    proof -
      have "length r = ar_pool_capacity a" if "r \<in> set ?rows" for r
      proof -
        from that have "length r \<in> set (map length ?rows)" by simp
        then show ?thesis using ps unfolding rm(2) by (auto simp: pool_shape_ok_def)
      qed
      with lr show ?thesis by (simp add: pool_shape_ok_def bump_peak_def gs)
    qed
    moreover have "committed_ok ?c"
      using 2(2) by (auto simp: granted_def committed_ok_def bump_peak_def logical_pages_def split: option.splits)
    moreover have "\<forall>s\<in>set (live_slots ?c). s < al_next (ar_alloc ?c)"
      using dl(2) lo live_lt by (fastforce simp: bump_peak_def)
    moreover have "ar_base ?c ! s = blank_page (ar_cols ?c)" if "s \<in> set (free_pool ?c)" for s
    proof -
      from that have "s \<in> set (free_pool a) \<or> first \<le> s \<and> s < first + ?n"
        using set_of_mset [OF rm(1) [folded mset_append]] by (auto simp: fc)
      then show ?thesis
      proof
        assume f: "s \<in> set (free_pool a)"
        then have "s \<in> set (live_slots a)" by (simp add: live_slots_def)
        from base_old [OF this] f assms show ?thesis by (simp add: arena_ok_def bump_peak_def gs)
      next
        assume "first \<le> s \<and> s < first + ?n"
        then show ?thesis using lo(3) lenb by (simp add: bump_peak_def nth_zero_run gs)
      qed
    qed
    ultimately have "arena_ok ?c" using dl(1) by (simp add: arena_ok_def)
    moreover have "page_at ?c i = page_at a i" if "i < length (ar_table a)" for i
      using that mapped_slotsI [of i "ar_table a"] base_old [of "nat (ar_table a ! i)"]
      by (auto simp: page_at_def live_slots_def bump_peak_def gs)
    moreover have "refill_pool a = (Inr ?n, ?c)"
      using False 2(1) ps
      by (simp add: refill_pool_def Let_def gs pool_shape_ok_def del: sum_list_eq_0_iff)
    ultimately show thesis
      by (intro refilled [of ?n ?c]) (auto simp: same_dims_def bump_peak_def gs)
  qed
qed

subsection \<open>The device's claim\<close>

lemma fold_shadow_correct:
  assumes "distinct row" "\<forall>i\<in>set row. i < length t" "fold_shadow row shadow t = (t', n)"
  shows "length t' = length t"
    "\<And>i. t' ! i = (if i \<in> set row \<and> 0 \<le> shadow ! i \<and> t ! i < 0 then shadow ! i else t ! i)"
    "n = length (filter (\<lambda>i. 0 \<le> shadow ! i \<and> t ! i < 0) row)"
proof -
  define f where "f = (\<lambda>i (t, k :: nat). if 0 \<le> shadow ! i \<and> t ! i < (0::int)
      then (t[i := shadow ! i], k + 1) else (t, k))"
  have gen: "length (fst (fold f row (t, k))) = length t
    \<and> (\<forall>i. fst (fold f row (t, k)) ! i
            = (if i \<in> set row \<and> 0 \<le> shadow ! i \<and> t ! i < 0 then shadow ! i else t ! i))
    \<and> snd (fold f row (t, k)) = k + length (filter (\<lambda>i. 0 \<le> shadow ! i \<and> t ! i < 0) row)"
    if "distinct row" "\<forall>i\<in>set row. i < length t" for row t k
    using that
  proof (induction row arbitrary: t k)
    case (Cons x row)
    show ?case
    proof (cases "0 \<le> shadow ! x \<and> t ! x < 0")
      case True
      have nth: "t[x := shadow ! x] ! i = (if i = x then shadow ! x else t ! i)" for i
        using Cons.prems by (auto simp: nth_list_update)
      have eq: "filter (\<lambda>i. 0 \<le> shadow ! i \<and> t[x := shadow ! x] ! i < 0) row
          = filter (\<lambda>i. 0 \<le> shadow ! i \<and> t ! i < 0) row"
        using Cons.prems by (intro filter_cong) (auto simp: nth)
      have step: "fold f (x # row) (t, k) = fold f row (t[x := shadow ! x], k + 1)"
        using True by (simp add: f_def)
      have "distinct row" "\<forall>i\<in>set row. i < length (t[x := shadow ! x])" using Cons.prems by auto
      note IH = Cons.IH [OF this, of "k + 1", unfolded eq]
      show ?thesis unfolding step using IH True Cons.prems by (auto simp: nth)
    next
      case False
      from False Cons.IH [of t k] Cons.prems show ?thesis by (auto simp: f_def)
    qed
  qed simp
  have "fold_shadow row shadow t = fold f row (t, 0)" by (simp add: fold_shadow_def f_def)
  with gen [OF assms(1,2), of 0] assms(3)
  show "length t' = length t"
    "\<And>i. t' ! i = (if i \<in> set row \<and> 0 \<le> shadow ! i \<and> t ! i < 0 then shadow ! i else t ! i)"
    "n = length (filter (\<lambda>i. 0 \<le> shadow ! i \<and> t ! i < 0) row)"
    by simp_all
qed

lemma mset_concat_update:
  "i < length xss \<Longrightarrow> mset (concat (xss[i := ys])) + mset (xss ! i) = mset (concat xss) + mset ys"
proof (induction xss arbitrary: i)
  case (Cons xs xss)
  then show ?case by (cases i) (auto simp: ac_simps)
qed simp

lemma map2_drop_update:
  "length cs = length rows \<Longrightarrow> i < length cs
   \<Longrightarrow> map2 drop (cs[i := c]) rows = (map2 drop cs rows)[i := drop c (rows ! i)]"
  by (rule nth_equalityI) (auto simp: nth_list_update)

lemma demand_of_props:
  assumes "distinct cand" "\<forall>x\<in>set cand. x < ar_apb a" "bh < ar_BH a"
  shows "distinct (demand_of bh cand a)"
    "i \<in> set (demand_of bh cand a) \<Longrightarrow> i < logical_pages a \<and> ar_table a ! i < 0
       \<and> i \<in> set [bh * ar_apb a ..< bh * ar_apb a + ar_apb a]"
  using assms by (auto simp: demand_of_def distinct_map inj_on_def logical_pages_def
      intro: distinct_filter mult_add_less)

lemma row_in_range: "bh < ar_BH a \<Longrightarrow> i \<in> set [bh * ar_apb a ..< bh * ar_apb a + ar_apb a] \<Longrightarrow> i < logical_pages a"
  using chunk_end [of bh "ar_BH a" "ar_apb a"] by (simp add: logical_pages_def)

lemma subset_concat: "x \<in> set xss \<Longrightarrow> set x \<subseteq> set (concat xss)"
  by auto

text \<open>The claimed case, with its names.\<close>

lemma device_claim_claimed:
  assumes ok: "arena_ok a" "no_stale a"
    and cand: "distinct cand" "\<forall>x\<in>set cand. x < ar_apb a" "bh < ar_BH a"
    and d: "demand_of bh cand a \<noteq> []" "length (demand_of bh cand a) + ar_cursor a ! bh \<le> ar_pool_capacity a"
  defines "demand \<equiv> demand_of bh cand a"
  defines "slots \<equiv> take (length demand) (drop (ar_cursor a ! bh) (ar_pool_slots a ! bh))"
  shows "device_claim bh cand a = (False, a\<lparr>ar_pool_map := index_copy (ar_pool_map a) demand (map int slots),
      ar_table := index_copy (ar_table a) demand (map int slots),
      ar_cursor := (ar_cursor a)[bh := ar_cursor a ! bh + length demand]\<rparr>)"
    and "length slots = length demand" "set slots \<subseteq> set (free_pool a)"
proof -
  note dp = demand_of_props [OF cand, folded demand_def]
  have capacity_pos: "0 < ar_pool_capacity a" using d by (cases "demand_of bh cand a") auto
  have ps: "length (ar_pool_slots a) = ar_BH a" "length (ar_cursor a) = ar_BH a"
    "length (ar_pool_slots a ! bh) = ar_pool_capacity a"
    using ok(1) cand(3) by (auto simp: arena_ok_def pool_shape_ok_def)
  have lens: "length (ar_table a) = logical_pages a" "length (ar_pool_map a) = logical_pages a"
    using ok(1) by (simp_all add: arena_ok_def shapes_ok_def)
  show len: "length slots = length demand" using d(2) ps by (simp add: slots_def demand_def)
  have "drop (ar_cursor a ! bh) (ar_pool_slots a ! bh) = map2 drop (ar_cursor a) (ar_pool_slots a) ! bh"
    using ps cand(3) by simp
  then have "drop (ar_cursor a ! bh) (ar_pool_slots a ! bh) \<in> set (map2 drop (ar_cursor a) (ar_pool_slots a))"
    using ps cand(3) by (metis length_map length_zip min_less_iff_conj nth_mem)
  then have "set (drop (ar_cursor a ! bh) (ar_pool_slots a ! bh)) \<subseteq> set (free_pool a)"
    unfolding free_pool_def by (rule subset_concat)
  then show "set slots \<subseteq> set (free_pool a)"
    unfolding slots_def by (rule subset_trans [OF set_take_subset])
  let ?shadow = "index_copy (ar_pool_map a) demand (map int slots)"
  let ?row = "[bh * ar_apb a ..< bh * ar_apb a + ar_apb a]"
  obtain t' n where fs: "fold_shadow ?row ?shadow (ar_table a) = (t', n)"
    by (rule prod.exhaust)
  have row: "\<forall>i\<in>set ?row. i < length (ar_table a)"
    unfolding lens(1) by (intro ballI row_in_range [OF cand(3)])
  note fc = fold_shadow_correct [OF distinct_upt row fs]
  have new: "?shadow ! (demand ! k) = int (slots ! k)" "index_copy (ar_table a) demand (map int slots) ! (demand ! k) = int (slots ! k)"
    if "k < length demand" for k
  proof -
    have lt: "demand ! k < logical_pages a" using dp(2) [OF nth_mem [OF that]] by blast
    have "index_copy out demand (map int slots) ! (demand ! k) = map int slots ! k"
      if "length out = logical_pages a" for out
      using dp(1) len lt that \<open>k < length demand\<close> by (intro index_copy_nth) simp_all
    from this [OF lens(1)] this [OF lens(2)] that len
    show "?shadow ! (demand ! k) = int (slots ! k)"
      "index_copy (ar_table a) demand (map int slots) ! (demand ! k) = int (slots ! k)" by simp_all
  qed
  have pos: "i \<in> set demand \<longleftrightarrow> i \<in> set ?row \<and> 0 \<le> ?shadow ! i \<and> ar_table a ! i < 0" for i
  proof
    assume i: "i \<in> set demand"
    then show "i \<in> set ?row \<and> 0 \<le> ?shadow ! i \<and> ar_table a ! i < 0"
      using dp(2) [OF i] new by (auto simp: in_set_conv_nth)
  next
    assume i: "i \<in> set ?row \<and> 0 \<le> ?shadow ! i \<and> ar_table a ! i < 0"
    show "i \<in> set demand"
    proof (rule ccontr)
      assume "i \<notin> set demand"
      then have "?shadow ! i = ar_pool_map a ! i" using len by (simp add: index_copy_other)
      with i ok(2) row show False by (fastforce simp: no_stale_def)
    qed
  qed
  have "t' = index_copy (ar_table a) demand (map int slots)"
  proof (rule nth_equalityI)
    fix i assume "i < length t'"
    show "t' ! i = index_copy (ar_table a) demand (map int slots) ! i"
    proof (cases "i \<in> set demand")
      case True
      then obtain k where k: "k < length demand" "demand ! k = i" by (auto simp: in_set_conv_nth)
      from True pos [of i] have "t' ! i = ?shadow ! i" unfolding fc(2) by simp
      with new [OF k(1)] k(2) show ?thesis by simp
    next
      case False
      then have "index_copy (ar_table a) demand (map int slots) ! i = ar_table a ! i"
        using len by (intro index_copy_other) simp_all
      moreover from False pos [of i] have "t' ! i = ar_table a ! i" unfolding fc(2) by simp
      ultimately show ?thesis by simp
    qed
  qed (simp add: fc(1))
  moreover have "n = length demand"
  proof -
    let ?hits = "filter (\<lambda>i. 0 \<le> ?shadow ! i \<and> ar_table a ! i < 0) ?row"
    have "set ?hits = {i. i \<in> set ?row \<and> 0 \<le> ?shadow ! i \<and> ar_table a ! i < 0}"
      by (simp only: set_filter)
    also have "\<dots> = set demand" unfolding pos [symmetric] by simp
    finally have "card (set ?hits) = card (set demand)" by simp
    moreover have "distinct ?hits" by (rule distinct_filter [OF distinct_upt])
    ultimately show ?thesis using dp(1) fc(3) by (simp only: distinct_card)
  qed
  ultimately show "device_claim bh cand a = (False, a\<lparr>ar_pool_map := ?shadow,
      ar_table := index_copy (ar_table a) demand (map int slots),
      ar_cursor := (ar_cursor a)[bh := ar_cursor a ! bh + length demand]\<rparr>)"
    using d fs capacity_pos by (auto simp: device_claim_def Let_def demand_def slots_def)
qed

lemma device_claim_cases:
  assumes "arena_ok a" "no_stale a" "distinct cand" "\<forall>x\<in>set cand. x < ar_apb a" "bh < ar_BH a"
  obtains (covered) "demand_of bh cand a = []" "device_claim bh cand a = (False, a)"
  | (exhausted) "demand_of bh cand a \<noteq> []" "device_claim bh cand a = (True, a)"
      "ar_pool_capacity a < length (demand_of bh cand a) + (if 0 < ar_pool_capacity a then ar_cursor a ! bh else 0)"
  | (claimed) "demand_of bh cand a \<noteq> []"
      "length (demand_of bh cand a) + ar_cursor a ! bh \<le> ar_pool_capacity a"
proof -
  let ?d = "demand_of bh cand a"
  let ?c = "if 0 < ar_pool_capacity a then ar_cursor a ! bh else 0"
  consider "?d = []" | "?d \<noteq> []" "ar_pool_capacity a < length ?d + ?c" | "?d \<noteq> []" "length ?d + ?c \<le> ar_pool_capacity a"
    by linarith
  then show thesis
  proof cases
    case 1
    then show thesis by (intro covered) (simp_all add: device_claim_def Let_def)
  next
    case 2
    then have "int (ar_pool_capacity a) - int ?c < int (length ?d)" by linarith
    with 2 show thesis by (intro exhausted) (simp_all add: device_claim_def Let_def)
  next
    case 3
    then have "0 < ar_pool_capacity a" by (cases ?d) auto
    with 3 show thesis by (intro claimed) simp_all
  qed
qed

text \<open>
  The claim moves slots from the pool into the table: the live slots stay the same multiset.
\<close>

lemma device_claim_ok:
  assumes ok: "arena_ok a" "no_stale a"
    and cand: "distinct cand" "\<forall>x\<in>set cand. x < ar_apb a" "bh < ar_BH a"
    and dc: "device_claim bh cand a = (needy, b)"
  shows "arena_ok b" "no_stale b" "same_dims a b" "length (ar_table b) = length (ar_table a)"
    "\<And>i. i < logical_pages a \<Longrightarrow> page_at b i = page_at a i"
    "\<And>i. i < logical_pages a \<Longrightarrow> 0 \<le> ar_table b ! i \<longleftrightarrow>
        0 \<le> ar_table a ! i \<or> \<not> needy \<and> i \<in> set (demand_of bh cand a)"
    "ar_alloc b = ar_alloc a" "needy \<Longrightarrow> b = a"
    "\<not> needy \<Longrightarrow> \<forall>x\<in>set cand. 0 \<le> ar_table b ! (bh * ar_apb a + x)"
proof -
  have lens: "length (ar_table a) = logical_pages a" "length (ar_pool_map a) = logical_pages a"
    "length (ar_base a) = logical_pages a"
    using ok(1) by (simp_all add: arena_ok_def shapes_ok_def)
  have covered: "i \<in> set (demand_of bh cand a) \<or> 0 \<le> ar_table a ! i"
    if "x \<in> set cand" "i = bh * ar_apb a + x" for i x
    using that by (auto simp: demand_of_def)
  have all: "arena_ok b \<and> no_stale b \<and> same_dims a b \<and> length (ar_table b) = length (ar_table a)
      \<and> (\<forall>i<logical_pages a. page_at b i = page_at a i)
      \<and> (\<forall>i<logical_pages a. 0 \<le> ar_table b ! i \<longleftrightarrow>
            0 \<le> ar_table a ! i \<or> \<not> needy \<and> i \<in> set (demand_of bh cand a))
      \<and> ar_alloc b = ar_alloc a \<and> (needy \<longrightarrow> b = a)"
  proof (cases rule: device_claim_cases [OF ok cand])
    case 1
    with ok dc show ?thesis by auto
  next
    case 2
    with ok dc show ?thesis by auto
  next
    case 3
    let ?d = "demand_of bh cand a"
    define slots where "slots = take (length ?d) (drop (ar_cursor a ! bh) (ar_pool_slots a ! bh))"
    note cl = device_claim_claimed [OF ok cand 3, folded slots_def]
    note dp = demand_of_props [OF cand]
    from cl(1) dc have needy: "\<not> needy" and b: "b = a\<lparr>ar_pool_map := index_copy (ar_pool_map a) ?d (map int slots),
      ar_table := index_copy (ar_table a) ?d (map int slots),
      ar_cursor := (ar_cursor a)[bh := ar_cursor a ! bh + length ?d]\<rparr>" by simp_all
    have ps: "length (ar_pool_slots a) = ar_BH a" "length (ar_cursor a) = ar_BH a"
      using ok(1) by (simp_all add: arena_ok_def pool_shape_ok_def)
    have absent: "\<forall>i\<in>set ?d. i < length (ar_table a) \<and> ar_table a ! i < 0"
      using dp(2) lens by auto
    have m1: "mset (mapped_slots (ar_table b)) = mset (mapped_slots (ar_table a)) + mset slots"
      using mapped_slots_mset_copy [of "map int slots" ?d "ar_table a"] cl(2) dp(1) absent
      by (simp add: b comp_def)
    let ?rows = "map2 drop (ar_cursor a) (ar_pool_slots a)"
    have fb: "free_pool b = concat (?rows[bh := drop (ar_cursor a ! bh + length ?d) (ar_pool_slots a ! bh)])"
      using ps cand(3) by (simp add: free_pool_def b map2_drop_update)
    have row: "?rows ! bh = drop (ar_cursor a ! bh) (ar_pool_slots a ! bh)" "bh < length ?rows"
      using ps cand(3) by simp_all
    have "?rows ! bh = slots @ drop (ar_cursor a ! bh + length ?d) (ar_pool_slots a ! bh)"
      unfolding row(1) slots_def
      using append_take_drop_id [of "length ?d" "drop (ar_cursor a ! bh) (ar_pool_slots a ! bh)"]
      by (simp add: add.commute)
    with mset_concat_update [OF row(2), of "drop (ar_cursor a ! bh + length ?d) (ar_pool_slots a ! bh)"]
    have m2: "mset (free_pool b) + mset slots = mset (free_pool a)"
      by (simp add: fb free_pool_def [of a])
    have live: "mset (live_slots b) = mset (live_slots a)"
      using m1 m2 by (simp add: live_slots_mset flip: m2)
    have sub: "set (free_pool b) \<subseteq> set (free_pool a)"
      using m2 by (metis set_mset_mset set_mset_union Un_upper1)
    have "shapes_ok b" using ok(1) by (simp add: arena_ok_def shapes_ok_def b logical_pages_def)
    moreover have "pool_shape_ok b"
      using ok(1) 3(2) by (auto simp: arena_ok_def pool_shape_ok_def b dest!: subsetD [OF set_update_subset_insert])
    moreover have "committed_ok b"
      using ok(1) by (simp add: arena_ok_def committed_ok_def b logical_pages_def split: option.splits)
    moreover have "distinct (live_slots b) \<and> (\<forall>s\<in>set (live_slots b). s < al_next (ar_alloc b))"
      using ok(1) distinct_of_mset [OF live] set_of_mset [OF live] by (simp add: arena_ok_def b)
    moreover have "\<forall>s\<in>set (free_pool b). ar_base b ! s = blank_page (ar_cols b)"
      using ok(1) sub by (auto simp: arena_ok_def b)
    ultimately have okb: "arena_ok b" by (simp add: arena_ok_def)
    have nth: "index_copy out ?d (map int slots) ! i
        = (if i \<in> set ?d then int (slots ! (THE k. k < length ?d \<and> ?d ! k = i)) else out ! i)"
      if "length out = logical_pages a" for out i
    proof (cases "i \<in> set ?d")
      case True
      then obtain k where k: "k < length ?d" "?d ! k = i" by (auto simp: in_set_conv_nth)
      then have the: "(THE k. k < length ?d \<and> ?d ! k = i) = k"
        using dp(1) by (intro the_equality) (auto simp: nth_eq_iff_index_eq)
      have "index_copy out ?d (map int slots) ! (?d ! k) = map int slots ! k"
        using k dp cl(2) that by (intro index_copy_nth) auto
      with k the True cl(2) show ?thesis by simp
    next
      case False
      with cl(2) show ?thesis by (simp add: index_copy_other)
    qed
    have tab: "0 \<le> ar_table b ! i \<longleftrightarrow> 0 \<le> ar_table a ! i \<or> i \<in> set ?d" for i
      using absent by (auto simp: b nth [OF lens(1)])
    have "no_stale b"
      using ok(2) by (auto simp: no_stale_def tab) (auto simp: b nth [OF lens(2)] split: if_splits)
    moreover have "page_at b i = page_at a i" for i
    proof (cases "i \<in> set ?d")
      case True
      define k where "k = (THE k. k < length ?d \<and> ?d ! k = i)"
      from True obtain j where j: "j < length ?d" "?d ! j = i" by (auto simp: in_set_conv_nth)
      then have "k = j" unfolding k_def
        using dp(1) by (intro the_equality) (auto simp: nth_eq_iff_index_eq)
      with j cl(2,3) have "slots ! k \<in> set (free_pool a)" by (metis nth_mem subsetD)
      then have "ar_base a ! (slots ! k) = blank_page (ar_cols a)" using ok(1) by (simp add: arena_ok_def)
      moreover have "ar_table b ! i = int (slots ! k)" using True by (simp add: b nth [OF lens(1)] k_def)
      moreover have "ar_table a ! i < 0" using True absent by blast
      ultimately show ?thesis by (simp add: page_at_def b)
    next
      case False
      then show ?thesis by (simp add: page_at_def b nth [OF lens(1)])
    qed
    ultimately show ?thesis using okb needy tab by (simp add: b same_dims_def)
  qed
  then show "arena_ok b" "no_stale b" "same_dims a b" "length (ar_table b) = length (ar_table a)"
    "\<And>i. i < logical_pages a \<Longrightarrow> page_at b i = page_at a i"
    "\<And>i. i < logical_pages a \<Longrightarrow> 0 \<le> ar_table b ! i \<longleftrightarrow>
        0 \<le> ar_table a ! i \<or> \<not> needy \<and> i \<in> set (demand_of bh cand a)"
    "ar_alloc b = ar_alloc a" "needy \<Longrightarrow> b = a" by blast+
  assume "\<not> needy"
  show "\<forall>x\<in>set cand. 0 \<le> ar_table b ! (bh * ar_apb a + x)"
  proof
    fix x assume x: "x \<in> set cand"
    then have "bh * ar_apb a + x < logical_pages a"
      using cand by (simp add: logical_pages_def mult_add_less)
    with all \<open>\<not> needy\<close> covered [OF x refl] show "0 \<le> ar_table b ! (bh * ar_apb a + x)" by blast
  qed
qed

subsection \<open>A kernel's write\<close>

lemma write_page_ok:
  assumes ok: "arena_ok a" and pg: "length pg = 16 * ar_cols a" and i: "i < logical_pages a"
  shows "arena_ok (write_page i pg a)" "same_dims a (write_page i pg a)"
    "ar_table (write_page i pg a) = ar_table a" "ar_pool_map (write_page i pg a) = ar_pool_map a"
    "\<And>j. j < logical_pages a \<Longrightarrow> page_at (write_page i pg a) j =
        (if j = i \<and> 0 \<le> ar_table a ! i then pg else page_at a j)"
proof -
  have lens: "length (ar_table a) = logical_pages a" "length (ar_base a) = logical_pages a"
    using ok by (simp_all add: arena_ok_def shapes_ok_def)
  show "same_dims a (write_page i pg a)" "ar_table (write_page i pg a) = ar_table a"
    "ar_pool_map (write_page i pg a) = ar_pool_map a"
    by (simp_all add: write_page_def same_dims_def)
  have slot: "nat (ar_table a ! i) \<in> set (mapped_slots (ar_table a))" if "0 \<le> ar_table a ! i"
    using that i lens by (intro mapped_slotsI) simp_all
  have dis: "distinct (mapped_slots (ar_table a))" "set (mapped_slots (ar_table a)) \<inter> set (free_pool a) = {}"
    using ok by (auto simp: arena_ok_def live_slots_def)
  show "arena_ok (write_page i pg a)"
  proof (cases "0 \<le> ar_table a ! i")
    case True
    let ?b = "a\<lparr>ar_base := (ar_base a)[nat (ar_table a ! i) := pg]\<rparr>"
    have "shapes_ok ?b"
      using ok pg by (auto simp: arena_ok_def shapes_ok_def logical_pages_def
          dest!: subsetD [OF set_update_subset_insert])
    moreover have "pool_shape_ok ?b" using ok by (simp add: arena_ok_def pool_shape_ok_def)
    moreover have "committed_ok ?b"
      using ok by (simp add: arena_ok_def committed_ok_def logical_pages_def split: option.splits)
    moreover have "live_slots ?b = live_slots a" "free_pool ?b = free_pool a"
      by (simp_all add: live_slots_def free_pool_def)
    moreover have "ar_base ?b ! s = blank_page (ar_cols a)" if "s \<in> set (free_pool a)" for s
    proof -
      have "nat (ar_table a ! i) \<noteq> s" using that dis(2) slot [OF True] by blast
      with that ok show ?thesis by (simp add: arena_ok_def)
    qed
    ultimately have "arena_ok ?b" using ok by (simp add: arena_ok_def)
    with True i lens show ?thesis by (simp add: write_page_def)
  next
    case False
    with ok show ?thesis by (simp add: write_page_def)
  qed
  fix j assume j: "j < logical_pages a"
  show "page_at (write_page i pg a) j = (if j = i \<and> 0 \<le> ar_table a ! i then pg else page_at a j)"
  proof (cases "0 \<le> ar_table a ! i")
    case True
    have "nat (ar_table a ! i) \<in> set (live_slots a)" using slot [OF True] by (simp add: live_slots_def)
    then have "nat (ar_table a ! i) < al_next (ar_alloc a)" using ok unfolding arena_ok_def by blast
    moreover have "al_next (ar_alloc a) \<le> logical_pages a"
      using ok by (simp add: arena_ok_def shapes_ok_def allocator_ok_def)
    ultimately have lt: "nat (ar_table a ! i) < length (ar_base a)" using lens by linarith
    have "nat (ar_table a ! j) \<noteq> nat (ar_table a ! i)" if "0 \<le> ar_table a ! j" "j \<noteq> i"
      using mapped_slots_inject [OF dis(1), of j i] that i j lens True by (auto simp: eq_nat_nat_iff)
    then have neq: "(ar_base a)[nat (ar_table a ! i) := pg] ! nat (ar_table a ! j)
        = ar_base a ! nat (ar_table a ! j)" if "0 \<le> ar_table a ! j" "j \<noteq> i"
      using that by (metis nth_list_update_neq)
    have wr: "write_page i pg a = a\<lparr>ar_base := (ar_base a)[nat (ar_table a ! i) := pg]\<rparr>"
      using True i lens by (simp add: write_page_def)
    show ?thesis
    proof (cases "j = i")
      case True
      with lt \<open>0 \<le> ar_table a ! i\<close> show ?thesis by (simp add: wr page_at_def)
    next
      case False
      with neq show ?thesis by (simp add: wr page_at_def)
    qed
  next
    case False
    then show ?thesis by (simp add: write_page_def)
  qed
qed

end
