(* ===== verification/Rola_Paging.thy ===== *)
theory Rola_Paging
  imports Rola_Arena_Inv
begin

text \<open>
  What the arena promises its clients. The locale \<^verbatim>\<open>page_store\<close> is the contract every state
  backing gives the kernels: admitting atoms changes nothing a reader can see and makes the
  admitted atoms writable, and a write changes one atom. It is interpreted three times: on the
  arena with host admission (\<^verbatim>\<open>plan_exact(fresh=False)\<close>), on the arena with device admission
  (the slack pool), and on the dense plane. The refinement properties follow: a sequence of
  calls gives the same state on every backing.
\<close>

section \<open>Device admission of a whole step\<close>

fun claim_all :: "nat \<Rightarrow> nat list list \<Rightarrow> arena \<Rightarrow> bool list \<times> arena" where
  "claim_all bh [] a = ([], a)"
| "claim_all bh (cand # cands) a =
     (let (needy, a') = device_claim bh cand a;
          (rest, a'') = claim_all (bh + 1) cands a'
      in (needy # rest, a''))"

definition touched :: "bool list \<Rightarrow> nat list" where
  "touched row = filter (\<lambda>x. row ! x) [0..<length row]"

definition device_admit :: "bool list list \<Rightarrow> arena \<Rightarrow> arena res" where
  "device_admit bits a =
     (if \<not> bitmap_shape_ok bits a then Inl (ValueError ''shape'')
      else case claim_all 0 (map touched bits) a of
        (needy, b) \<Rightarrow> if True \<in> set needy then Inl (RuntimeError ''growth'') else Inr b)"

lemma claim_all_ok:
  assumes "arena_ok a" "no_stale a" "\<forall>c\<in>set cands. distinct c \<and> (\<forall>x\<in>set c. x < ar_apb a)"
    "bh + length cands \<le> ar_BH a" "claim_all bh cands a = (needy, b)"
  shows "arena_ok b \<and> no_stale b \<and> same_dims a b \<and> length (ar_table b) = length (ar_table a)
    \<and> length needy = length cands
    \<and> (\<forall>i<logical_pages a. page_at b i = page_at a i \<and> (0 \<le> ar_table a ! i \<longrightarrow> 0 \<le> ar_table b ! i))
    \<and> (\<forall>k<length cands. \<not> needy ! k \<longrightarrow>
          (\<forall>x\<in>set (cands ! k). 0 \<le> ar_table b ! ((bh + k) * ar_apb a + x)))"
  using assms
proof (induction cands arbitrary: bh a needy)
  case (Cons c cands)
  obtain n a1 where dc: "device_claim bh c a = (n, a1)" by fastforce
  obtain ns a2 where ca: "claim_all (bh + 1) cands a1 = (ns, a2)" by fastforce
  from Cons.prems(5) dc ca have nb: "needy = n # ns" "b = a2" by auto
  have c: "distinct c" "\<forall>x\<in>set c. x < ar_apb a" "bh < ar_BH a" using Cons.prems(3,4) by auto
  note d = device_claim_ok [OF Cons.prems(1,2) c dc]
  have dims: "ar_apb a1 = ar_apb a" "ar_BH a1 = ar_BH a" "logical_pages a1 = logical_pages a"
    using d(3) by (auto simp: same_dims_def logical_pages_def)
  have IH: "arena_ok b \<and> no_stale b \<and> same_dims a1 b \<and> length (ar_table b) = length (ar_table a1)
    \<and> length ns = length cands
    \<and> (\<forall>i<logical_pages a1. page_at b i = page_at a1 i \<and> (0 \<le> ar_table a1 ! i \<longrightarrow> 0 \<le> ar_table b ! i))
    \<and> (\<forall>k<length cands. \<not> ns ! k \<longrightarrow>
          (\<forall>x\<in>set (cands ! k). 0 \<le> ar_table b ! ((bh + 1 + k) * ar_apb a1 + x)))"
    using Cons.prems(3,4) ca nb(2) by (intro Cons.IH [OF d(1,2)]) (auto simp: dims)
  have first: "0 \<le> ar_table b ! (bh * ar_apb a + x)" if "\<not> n" "x \<in> set c" for x
  proof -
    have "bh * ar_apb a + x < logical_pages a"
      using that c by (simp add: logical_pages_def mult_add_less)
    with IH d(9) that dims show ?thesis by auto
  qed
  show ?case
  proof (intro conjI allI impI ballI)
    fix k x assume k: "k < length (c # cands)" "\<not> needy ! k" "x \<in> set ((c # cands) ! k)"
    show "0 \<le> ar_table b ! ((bh + k) * ar_apb a + x)"
    proof (cases k)
      case 0
      with k first nb show ?thesis by simp
    next
      case (Suc k')
      with k IH nb dims show ?thesis by (simp add: add.assoc)
    qed
  qed (use IH d dims nb same_dims_trans in auto)
qed auto

section \<open>The contract of a state backing\<close>

text \<open>
  One call on a backing: it admits the atoms of its write side, then writes pages it read.
\<close>

fun run_updates :: "(nat \<Rightarrow> page \<Rightarrow> 's \<Rightarrow> 's) \<Rightarrow> ('s \<Rightarrow> nat \<Rightarrow> page)
    \<Rightarrow> (nat \<times> (page \<Rightarrow> page)) list \<Rightarrow> 's \<Rightarrow> 's" where
  "run_updates put look [] s = s"
| "run_updates put look ((i, f) # us) s = run_updates put look us (put i (f (look s i)) s)"

fun run_calls :: "(bool list list \<Rightarrow> 's \<Rightarrow> 's res) \<Rightarrow> (nat \<Rightarrow> page \<Rightarrow> 's \<Rightarrow> 's) \<Rightarrow> ('s \<Rightarrow> nat \<Rightarrow> page)
    \<Rightarrow> (bool list list \<times> (nat \<times> (page \<Rightarrow> page)) list) list \<Rightarrow> 's \<Rightarrow> 's res" where
  "run_calls admit put look [] s = Inr s"
| "run_calls admit put look ((bits, us) # cs) s =
     rbind (admit bits s) (\<lambda>t. run_calls admit put look cs (run_updates put look us t))"

locale page_store =
  fixes ok :: "'s \<Rightarrow> bool" and size_of :: "'s \<Rightarrow> nat" and width :: "'s \<Rightarrow> nat"
    and look :: "'s \<Rightarrow> nat \<Rightarrow> page" and has :: "'s \<Rightarrow> nat \<Rightarrow> bool"
    and admit :: "bool list list \<Rightarrow> 's \<Rightarrow> 's res" and put :: "nat \<Rightarrow> page \<Rightarrow> 's \<Rightarrow> 's"
  assumes admit_ok: "ok s \<Longrightarrow> admit bits s = Inr t \<Longrightarrow>
      ok t \<and> size_of t = size_of s \<and> width t = width s \<and>
      (\<forall>i < size_of s. look t i = look s i \<and> (has s i \<longrightarrow> has t i) \<and> (concat bits ! i \<longrightarrow> has t i))"
    and put_ok: "ok s \<Longrightarrow> i < size_of s \<Longrightarrow> length pg = width s \<Longrightarrow>
      ok (put i pg s) \<and> size_of (put i pg s) = size_of s \<and> width (put i pg s) = width s \<and>
      (\<forall>j < size_of s. has (put i pg s) j = has s j
          \<and> look (put i pg s) j = (if j = i \<and> has s i then pg else look s j))"
    and look_width: "ok s \<Longrightarrow> i < size_of s \<Longrightarrow> length (look s i) = width s"
text \<open>What a call does to the state itself, with no backing at all.\<close>

fun page_updates :: "(nat \<times> (page \<Rightarrow> page)) list \<Rightarrow> (nat \<Rightarrow> page) \<Rightarrow> nat \<Rightarrow> page" where
  "page_updates [] v = v"
| "page_updates ((i, f) # us) v = page_updates us (v(i := f (v i)))"

definition page_calls :: "(bool list list \<times> (nat \<times> (page \<Rightarrow> page)) list) list \<Rightarrow> (nat \<Rightarrow> page) \<Rightarrow> nat \<Rightarrow> page" where
  "page_calls cs v = fold (\<lambda>(bits, us) v. page_updates us v) cs v"

definition call_ok :: "nat \<Rightarrow> nat \<Rightarrow> bool list list \<times> (nat \<times> (page \<Rightarrow> page)) list \<Rightarrow> bool" where
  "call_ok n w c \<longleftrightarrow>
     (\<forall>(i, f)\<in>set (snd c). i < n \<and> concat (fst c) ! i \<and> (\<forall>p. length p = w \<longrightarrow> length (f p) = w))"

context page_store
begin

lemma updates_look:
  "ok s \<Longrightarrow> \<forall>(i, f)\<in>set us. i < size_of s \<and> has s i \<and> (\<forall>p. length p = width s \<longrightarrow> length (f p) = width s)
   \<Longrightarrow> (\<forall>i < size_of s. look s i = v i) \<Longrightarrow>
   ok (run_updates put look us s) \<and> size_of (run_updates put look us s) = size_of s \<and> width (run_updates put look us s) = width s
   \<and> (\<forall>j < size_of s. look (run_updates put look us s) j = page_updates us v j)"
proof (induction us arbitrary: s v)
  case (Cons u us)
  obtain i f where u: "u = (i, f)" by (cases u)
  let ?s = "put i (f (look s i)) s"
  have i: "i < size_of s" "has s i" and f: "\<forall>p. length p = width s \<longrightarrow> length (f p) = width s"
    using Cons.prems(2) u by auto
  have w: "length (f (look s i)) = width s" using f look_width [OF Cons.prems(1) i(1)] by blast
  note p = put_ok [OF Cons.prems(1) i(1) w]
  have "ok (run_updates put look us ?s) \<and> size_of (run_updates put look us ?s) = size_of ?s \<and> width (run_updates put look us ?s) = width ?s
     \<and> (\<forall>j < size_of ?s. look (run_updates put look us ?s) j = page_updates us (v(i := f (v i))) j)"
    using p Cons.prems i u by (intro Cons.IH) auto
  with p u show ?case by simp
qed simp

lemma calls_look:
  "ok s \<Longrightarrow> run_calls admit put look cs s = Inr t \<Longrightarrow> (\<forall>c\<in>set cs. call_ok (size_of s) (width s) c)
   \<Longrightarrow> (\<forall>i < size_of s. look s i = v i)
   \<Longrightarrow> ok t \<and> size_of t = size_of s \<and> (\<forall>i < size_of s. look t i = page_calls cs v i)"
proof (induction cs arbitrary: s v)
  case (Cons c cs)
  obtain bits us where c: "c = (bits, us)" by (cases c)
  from Cons.prems(2) c obtain s' where s': "admit bits s = Inr s'" "run_calls admit put look cs (run_updates put look us s') = Inr t"
    by (auto simp: res_simps)
  note a = admit_ok [OF Cons.prems(1) s'(1)]
  have u: "ok (run_updates put look us s') \<and> size_of (run_updates put look us s') = size_of s' \<and> width (run_updates put look us s') = width s'
      \<and> (\<forall>j < size_of s'. look (run_updates put look us s') j = page_updates us v j)"
  proof (rule updates_look)
    show "\<forall>(i, f)\<in>set us. i < size_of s' \<and> has s' i \<and> (\<forall>p. length p = width s' \<longrightarrow> length (f p) = width s')"
      using a Cons.prems(3) c by (auto simp: call_ok_def)
  qed (use a Cons.prems(4) in auto)
  have "ok t \<and> size_of t = size_of (run_updates put look us s')
     \<and> (\<forall>i < size_of (run_updates put look us s'). look t i = page_calls cs (page_updates us v) i)"
    using u a Cons.prems(3) s'(2) by (intro Cons.IH) auto
  with u a c show ?case by (simp add: page_calls_def)
qed (simp add: page_calls_def)

end

section \<open>The three backings\<close>

definition host_admit :: "bool list list \<Rightarrow> arena \<Rightarrow> arena res" where
  "host_admit bits a = (case plan_exact bits False a of (Inl e, _) \<Rightarrow> Inl e | (Inr _, b) \<Rightarrow> Inr b)"

definition arena_wf :: "arena \<Rightarrow> bool" where
  "arena_wf a \<longleftrightarrow> arena_ok a \<and> no_stale a"

lemma page_at_length: "arena_ok a \<Longrightarrow> i < logical_pages a \<Longrightarrow> length (page_at a i) = 16 * ar_cols a"
proof -
  assume ok: "arena_ok a" and i: "i < logical_pages a"
  have lens: "length (ar_table a) = logical_pages a" "length (ar_base a) = logical_pages a"
    using ok by (simp_all add: arena_ok_def shapes_ok_def)
  show ?thesis
  proof (cases "0 \<le> ar_table a ! i")
    case True
    then have "nat (ar_table a ! i) \<in> set (live_slots a)"
      using i lens mapped_slotsI by (simp add: live_slots_def)
    then have "nat (ar_table a ! i) < length (ar_base a)"
      using ok lens by (fastforce simp: arena_ok_def shapes_ok_def allocator_ok_def)
    with True ok show ?thesis by (simp add: page_at_def arena_ok_def shapes_ok_def)
  qed (simp add: page_at_def)
qed

lemma no_stale_keep:
  "no_stale a \<Longrightarrow> ar_pool_map b = ar_pool_map a \<Longrightarrow> length (ar_table b) = length (ar_table a)
   \<Longrightarrow> (\<And>i. i < length (ar_table a) \<Longrightarrow> 0 \<le> ar_table a ! i \<Longrightarrow> 0 \<le> ar_table b ! i) \<Longrightarrow> no_stale b"
  by (simp add: no_stale_def)

lemma arena_put_law:
  assumes "arena_wf a" "i < logical_pages a" "length pg = 16 * ar_cols a"
  shows "arena_wf (write_page i pg a) \<and> logical_pages (write_page i pg a) = logical_pages a
   \<and> 16 * ar_cols (write_page i pg a) = 16 * ar_cols a
   \<and> (\<forall>j<logical_pages a. (0 \<le> ar_table (write_page i pg a) ! j) = (0 \<le> ar_table a ! j)
        \<and> page_at (write_page i pg a) j = (if j = i \<and> 0 \<le> ar_table a ! i then pg else page_at a j))"
proof -
  from assms(1) have ok: "arena_ok a" "no_stale a" by (simp_all add: arena_wf_def)
  note w = write_page_ok [OF ok(1) assms(3,2)]
  have "no_stale (write_page i pg a)" using ok(2) by (simp add: no_stale_def w(3,4))
  with w(1) have "arena_wf (write_page i pg a)" by (simp add: arena_wf_def)
  moreover have "logical_pages (write_page i pg a) = logical_pages a" by (rule same_dims_logical [OF w(2)])
  moreover have "ar_cols (write_page i pg a) = ar_cols a" using w(2) by (simp add: same_dims_def)
  ultimately show ?thesis using w(3,5) by simp
qed

interpretation paged: page_store arena_wf logical_pages "\<lambda>a. 16 * ar_cols a" page_at
    "\<lambda>a i. 0 \<le> ar_table a ! i" host_admit write_page
proof unfold_locales
  fix s bits t
  assume wf: "arena_wf s" and adm: "host_admit bits s = Inr t"
  have ok: "arena_ok s" and ns: "no_stale s" and len: "length (ar_table s) = logical_pages s"
    using wf by (simp_all add: arena_wf_def arena_ok_def shapes_ok_def)
  from adm obtain r where pl: "plan_union bits s = (Inr r, t)"
    by (auto simp: host_admit_def plan_exact_def split: prod.splits sum.splits)
  then have sh: "bitmap_shape_ok bits s" by (auto simp: plan_union_def split: if_splits)
  show "arena_wf t \<and> logical_pages t = logical_pages s \<and> 16 * ar_cols t = 16 * ar_cols s \<and>
    (\<forall>i<logical_pages s. page_at t i = page_at s i \<and> (0 \<le> ar_table s ! i \<longrightarrow> 0 \<le> ar_table t ! i)
        \<and> (concat bits ! i \<longrightarrow> 0 \<le> ar_table t ! i))"
  proof (cases rule: plan_union_ok [OF ok sh])
    case (2 r' b)
    with pl have bt: "b = t" by simp
    note p = 2(2-7) [unfolded bt]
    have "no_stale t" using p(3,5,6) len by (intro no_stale_keep [OF ns]) auto
    with p(1) have "arena_wf t" by (simp add: arena_wf_def)
    moreover have "logical_pages t = logical_pages s" by (rule same_dims_logical [OF p(2)])
    moreover have "ar_cols t = ar_cols s" using p(2) by (simp add: same_dims_def)
    ultimately show ?thesis using p(3,4) len by simp
  qed (use pl in simp)
next
  fix s :: arena and i and pg :: page
  assume "arena_wf s" "i < logical_pages s" "length pg = 16 * ar_cols s"
  then show "arena_wf (write_page i pg s) \<and> logical_pages (write_page i pg s) = logical_pages s \<and>
    16 * ar_cols (write_page i pg s) = 16 * ar_cols s \<and>
    (\<forall>j<logical_pages s. (0 \<le> ar_table (write_page i pg s) ! j) = (0 \<le> ar_table s ! j) \<and>
       page_at (write_page i pg s) j = (if j = i \<and> 0 \<le> ar_table s ! i then pg else page_at s j))"
    by (rule arena_put_law)
qed (simp add: arena_wf_def page_at_length)

text \<open>Device admission: the atom lists the kernels walk, one per batch-head.\<close>

lemma nth_concat_const:
  assumes "\<forall>r\<in>set rs. length r = d" "i < length rs * d"
  shows "concat rs ! i = rs ! (i div d) ! (i mod d)" "i div d < length rs" "i mod d < d"
proof -
  have d: "0 < d" using assms(2) by (cases d) auto
  then show q: "i div d < length rs" and m: "i mod d < d"
    using assms(2) by (simp_all add: less_mult_imp_div_less)
  have len: "length (concat rs) = length rs * d"
    by (rule length_concat_const) (use assms(1) in blast)
  have "rs ! (i div d) = take d (drop (i div d * d) (concat rs))"
    using assms(1) q by (intro chunk_concat [symmetric]) auto
  moreover have "i div d * d \<le> length (concat rs)"
    using assms(2) len by (metis div_times_less_eq_dividend le_trans less_imp_le)
  ultimately show "concat rs ! i = rs ! (i div d) ! (i mod d)" using m by simp
qed

interpretation pooled: page_store arena_wf logical_pages "\<lambda>a. 16 * ar_cols a" page_at
    "\<lambda>a i. 0 \<le> ar_table a ! i" device_admit write_page
proof unfold_locales
  fix s bits t
  assume wf: "arena_wf s" and adm: "device_admit bits s = Inr t"
  from adm obtain needy where sh: "bitmap_shape_ok bits s"
    and ca: "claim_all 0 (map touched bits) s = (needy, t)" and nn: "True \<notin> set needy"
    by (auto simp: device_admit_def split: prod.splits if_splits)
  have sh': "length bits = ar_BH s" "\<forall>r\<in>set bits. length r = ar_apb s"
    using sh by (simp_all add: bitmap_shape_ok_def)
  have c: "arena_ok t \<and> no_stale t \<and> same_dims s t \<and> length (ar_table t) = length (ar_table s)
    \<and> length needy = length (map touched bits)
    \<and> (\<forall>i<logical_pages s. page_at t i = page_at s i \<and> (0 \<le> ar_table s ! i \<longrightarrow> 0 \<le> ar_table t ! i))
    \<and> (\<forall>k<length (map touched bits). \<not> needy ! k \<longrightarrow>
          (\<forall>x\<in>set (map touched bits ! k). 0 \<le> ar_table t ! ((0 + k) * ar_apb s + x)))"
    using wf sh' by (intro claim_all_ok [OF _ _ _ _ ca]) (auto simp: arena_wf_def touched_def)
  have has: "0 \<le> ar_table t ! i" if i: "i < logical_pages s" "concat bits ! i" for i
  proof -
    let ?k = "i div ar_apb s" and ?x = "i mod ar_apb s"
    have i': "i < length bits * ar_apb s" using i(1) sh' by (simp add: logical_pages_def)
    note n = nth_concat_const [OF sh'(2) i']
    have x: "?x \<in> set (touched (bits ! ?k))" using n i(2) sh' by (simp add: touched_def)
    have "\<not> needy ! ?k" using nn n(2) c by (metis length_map nth_mem)
    moreover from c have "\<forall>k<length bits. \<not> needy ! k \<longrightarrow>
        (\<forall>x\<in>set (touched (bits ! k)). 0 \<le> ar_table t ! (k * ar_apb s + x))" by simp
    ultimately have "0 \<le> ar_table t ! (?k * ar_apb s + ?x)" using n(2) x by blast
    then show ?thesis by (simp only: div_mult_mod_eq)
  qed
  have "arena_wf t" using c by (simp add: arena_wf_def)
  moreover have "logical_pages t = logical_pages s" using c same_dims_logical by blast
  moreover have "ar_cols t = ar_cols s" using c by (simp add: same_dims_def)
  ultimately show "arena_wf t \<and> logical_pages t = logical_pages s \<and> 16 * ar_cols t = 16 * ar_cols s \<and>
    (\<forall>i<logical_pages s. page_at t i = page_at s i \<and> (0 \<le> ar_table s ! i \<longrightarrow> 0 \<le> ar_table t ! i)
        \<and> (concat bits ! i \<longrightarrow> 0 \<le> ar_table t ! i))"
    using c has by simp
next
  fix s :: arena and i and pg :: page
  assume "arena_wf s" "i < logical_pages s" "length pg = 16 * ar_cols s"
  then show "arena_wf (write_page i pg s) \<and> logical_pages (write_page i pg s) = logical_pages s \<and>
    16 * ar_cols (write_page i pg s) = 16 * ar_cols s \<and>
    (\<forall>j<logical_pages s. (0 \<le> ar_table (write_page i pg s) ! j) = (0 \<le> ar_table s ! j) \<and>
       page_at (write_page i pg s) j = (if j = i \<and> 0 \<le> ar_table s ! i then pg else page_at s j))"
    by (rule arena_put_law)
qed (simp add: arena_wf_def page_at_length)

text \<open>The dense plane of an unpaged state: every atom has its page, nothing is admitted.\<close>

record dense_plane =
  dp_cols :: nat
  dp_pages :: "page list"

definition dense_ok :: "dense_plane \<Rightarrow> bool" where
  "dense_ok d \<longleftrightarrow> (\<forall>p\<in>set (dp_pages d). length p = 16 * dp_cols d)"

definition dense_put :: "nat \<Rightarrow> page \<Rightarrow> dense_plane \<Rightarrow> dense_plane" where
  "dense_put i pg d = d\<lparr>dp_pages := (dp_pages d)[i := pg]\<rparr>"

definition dense_zero :: "nat \<Rightarrow> nat \<Rightarrow> dense_plane" where
  "dense_zero n cols = \<lparr>dp_cols = cols, dp_pages = replicate n (blank_page cols)\<rparr>"

interpretation dense: page_store dense_ok "\<lambda>d. length (dp_pages d)" "\<lambda>d. 16 * dp_cols d"
    "\<lambda>d i. dp_pages d ! i" "\<lambda>d i. True" "\<lambda>bits d. Inr d" dense_put
  by unfold_locales
     (auto simp: dense_ok_def dense_put_def nth_list_update dest!: subsetD [OF set_update_subset_insert])

end
