(* ===== verification/Rola_Paging_Props.thy ===== *)
theory Rola_Paging_Props
  imports Rola_Paging
begin

text \<open>
  The properties of the page arena: construction establishes the invariant, a plan grants all or
  nothing, a fresh plan without a pool never fails, paging and pooling are invisible in the
  materialized state, and two behaviours of the pool and of the extent alignment that the
  documentation does not describe.
\<close>

section \<open>Construction\<close>

definition platform_ok :: "platform \<Rightarrow> bool" where
  "platform_ok pf \<longleftrightarrow> 0 < pf_granularity pf
     \<and> (\<forall>x n. 0 \<le> x \<and> x \<le> 1 \<longrightarrow> 0 \<le> pf_fmul pf x n \<and> pf_fmul pf x n \<le> of_nat n)"

definition exact_platform :: platform where
  "exact_platform = \<lparr>pf_vmm_supported = True, pf_granularity = 2097152, pf_fmul = (\<lambda>x n. x * of_nat n), pf_memory = (\<lambda>s i. 3735928559)\<rparr>"

lemma exact_platform_ok: "platform_ok exact_platform"
  by (auto simp: platform_ok_def exact_platform_def mult_left_le_one_le)

lemma ceiling_le_nat: "0 \<le> x \<Longrightarrow> x \<le> of_nat n \<Longrightarrow> nat \<lceil>x :: rat\<rceil> \<le> n"
  by (simp add: nat_le_iff ceiling_le_iff)

lemma arena_allocate_ok:
  assumes "arena_allocate pf b a = (Inr (), c)" "0 < pf_granularity pf"
    "ar_pool_capacity a \<le> ar_apb a" "allocator_ok (ar_alloc a)" "al_capacity (ar_alloc a) = logical_pages a"
    "al_next (ar_alloc a) = 0" "ar_owner a = None"
  shows "arena_wf c" "same_dims a c" "ar_table c = replicate (logical_pages a) ABSENT"
    "al_next (ar_alloc c) = ar_BH a * ar_pool_capacity a"
proof -
  define n where "n = logical_pages a"
  define a1 where "a1 = a\<lparr>ar_table := replicate n ABSENT, ar_pool_map := replicate n ABSENT,
                 ar_base := (if b = Vmm then map (\<lambda>s. map (pf_memory pf s) [0..<16 * ar_cols a]) [0..<n]
                             else replicate n (blank_page (ar_cols a))),
                 ar_pool_slots := replicate (ar_BH a) (replicate (ar_pool_capacity a) 0),
                 ar_cursor := replicate (ar_BH a) 0\<rparr>"
  obtain ow where rp: "reserve_pool (a1\<lparr>ar_owner := ow\<rparr>) = (Inr (), c)"
    and ow: "case ow of None \<Rightarrow> True | Some o1 \<Rightarrow> vmm_ok o1 \<and> vm_limit o1 = n"
  proof (cases "b = Vmm")
    case True
    with assms(1) obtain o1 where "vmm_create n 16 (ar_cols a) (pf_granularity pf) (pf_granularity pf) = Inr o1"
      "reserve_pool (a1\<lparr>ar_owner := Some o1\<rparr>) = (Inr (), c)"
      by (auto simp: arena_allocate_def Let_def a1_def n_def split: sum.splits)
    with vmm_create_Inr assms(2) that [of "Some o1"] show thesis by auto
  next
    case False
    have "a1\<lparr>ar_owner := None\<rparr> = a1" using assms(7) by (simp add: a1_def)
    with False assms(1) that [of None] show thesis
      by (auto simp: arena_allocate_def Let_def a1_def n_def)
  qed
  let ?a = "a1\<lparr>ar_owner := ow\<rparr>"
  have "shapes_ok ?a"
    using assms(3-6) by (auto simp: shapes_ok_def a1_def n_def logical_pages_def)
  moreover have "pool_shape_ok ?a" by (auto simp: pool_shape_ok_def a1_def)
  moreover have "committed_ok ?a"
    using ow assms(6) by (auto simp: committed_ok_def a1_def n_def logical_pages_def split: option.splits)
  ultimately have "\<exists>c. reserve_pool ?a = (Inr (), c) \<and> arena_ok c \<and> same_dims ?a c \<and> ar_table c = ar_table ?a
     \<and> ar_pool_map c = ar_pool_map ?a \<and> al_next (ar_alloc c) = ar_BH ?a * ar_pool_capacity ?a"
    using assms(6) by (intro reserve_pool_ok) (simp_all add: a1_def)
  with rp have c: "arena_ok c" "same_dims ?a c" "ar_table c = ar_table ?a" "ar_pool_map c = ar_pool_map ?a"
    "al_next (ar_alloc c) = ar_BH ?a * ar_pool_capacity ?a" by auto
  then show "arena_wf c"
    by (auto simp: arena_wf_def no_stale_def a1_def ABSENT_def)
  show "same_dims a c" using c(2) by (simp add: same_dims_def a1_def)
  show "ar_table c = replicate (logical_pages a) ABSENT" using c(3) by (simp add: a1_def n_def)
  show "al_next (ar_alloc c) = ar_BH a * ar_pool_capacity a" using c(5) by (simp add: a1_def)
qed

lemma make_arena_ok:
  assumes "make_arena pf g = Inr a" "platform_ok pf"
  shows "arena_wf a" "ar_table a = replicate (logical_pages a) ABSENT"
    "al_next (ar_alloc a) = ar_BH a * ar_pool_capacity a"
    "ar_cols a = aa_cols g" "ar_BH a = aa_BH g" "ar_apb a * 16 = prod_list (aa_widths g)"
    "ar_pool_capacity a = nat \<lceil>pf_fmul pf (aa_slack g) (ar_apb a)\<rceil>"
proof -
  from assms(1) obtain k qpo al b where k: "make_keying (prod_list (aa_widths g)) (aa_cols g) (aa_BH g) = Inr k"
    and al: "make_allocator (logical_atoms k) (case aa_extent g of None \<Rightarrow> int qpo | Some e \<Rightarrow> e) = Inr al"
    and sl: "0 \<le> aa_slack g" "aa_slack g \<le> 1"
    and ca: "arena_allocate pf b \<lparr>ar_BH = aa_BH g, ar_apb = atoms_per_bh k, ar_cols = aa_cols g,
              ar_pool_capacity = nat \<lceil>pf_fmul pf (aa_slack g) (atoms_per_bh k)\<rceil>,
              ar_alloc = al, ar_table = [], ar_base = [], ar_pool_slots = [], ar_cursor = [],
              ar_pool_map = [], ar_owner = None, ar_peak = 0, ar_last = None\<rparr> = (Inr (), a)"
    by (auto simp: make_arena_def Let_def res_simps prod_eq_iff split: if_splits)
  let ?a = "\<lparr>ar_BH = aa_BH g, ar_apb = atoms_per_bh k, ar_cols = aa_cols g,
              ar_pool_capacity = nat \<lceil>pf_fmul pf (aa_slack g) (atoms_per_bh k)\<rceil>,
              ar_alloc = al, ar_table = [], ar_base = [], ar_pool_slots = [], ar_cursor = [],
              ar_pool_map = [], ar_owner = None, ar_peak = 0, ar_last = None\<rparr>"
  from k have kk: "k_BH k = aa_BH g" "atoms_per_bh k * 16 = prod_list (aa_widths g)"
    by (auto simp: make_keying_def atoms_per_bh_def split: if_splits)
  have fm: "0 \<le> pf_fmul pf (aa_slack g) (atoms_per_bh k)" "pf_fmul pf (aa_slack g) (atoms_per_bh k) \<le> of_nat (atoms_per_bh k)"
    using assms(2) sl by (auto simp: platform_ok_def)
  from al have al': "allocator_ok al" "al_capacity al = logical_atoms k" "al_next al = 0"
    by (auto simp: make_allocator_def allocator_ok_def split: if_splits)
  have "arena_wf a" "same_dims ?a a" "ar_table a = replicate (logical_pages ?a) ABSENT"
    "al_next (ar_alloc a) = ar_BH ?a * ar_pool_capacity ?a"
    using assms(2) al' kk ceiling_le_nat [OF fm]
    by (intro arena_allocate_ok [OF ca]; simp add: platform_ok_def logical_pages_def logical_atoms_def)+
  then show "arena_wf a" "ar_table a = replicate (logical_pages a) ABSENT"
    "al_next (ar_alloc a) = ar_BH a * ar_pool_capacity a"
    "ar_cols a = aa_cols g" "ar_BH a = aa_BH g" "ar_apb a * 16 = prod_list (aa_widths g)"
    "ar_pool_capacity a = nat \<lceil>pf_fmul pf (aa_slack g) (ar_apb a)\<rceil>"
    using kk by (simp_all add: same_dims_def logical_pages_def)
qed

lemma fresh_page_at: "ar_table a = replicate (logical_pages a) ABSENT \<Longrightarrow> i < logical_pages a
  \<Longrightarrow> page_at a i = blank_page (ar_cols a)"
  by (simp add: page_at_def ABSENT_def)

section \<open>Counting\<close>

lemma resident_card: "resident_pages a = card {i. i < length (ar_table a) \<and> 0 \<le> ar_table a ! i}"
  by (simp add: resident_pages_def length_filter_conv_card)

lemma resident_mapped: "resident_pages a = length (mapped_slots (ar_table a))"
  by (simp add: resident_pages_def mapped_slots_def)

lemma resident_le_allocated: "arena_ok a \<Longrightarrow> resident_pages a \<le> allocated_pages a"
proof -
  assume ok: "arena_ok a"
  then have "distinct (mapped_slots (ar_table a))" "set (mapped_slots (ar_table a)) \<subseteq> {..<allocated_pages a}"
    by (auto simp: arena_ok_def live_slots_def allocated_pages_def)
  then show ?thesis
    by (metis card_lessThan card_mono distinct_card finite_lessThan resident_mapped)
qed

lemma allocated_le_mapped: "arena_ok a \<Longrightarrow> allocated_pages a \<le> mapped_pages a"
  by (auto simp: arena_ok_def committed_ok_def shapes_ok_def allocator_ok_def allocated_pages_def
      mapped_pages_def split: option.splits)

lemma materialize_cong:
  "length (ar_table a) = length (ar_table b) \<Longrightarrow> ar_cols a = ar_cols b
   \<Longrightarrow> (\<And>i. i < length (ar_table a) \<Longrightarrow> page_at a i = page_at b i) \<Longrightarrow> materialize a = materialize b"
  by (simp add: materialize_page_at cong: map_cong) (metis (no_types, lifting) atLeastLessThan_iff map_cong set_upt)

lemma table_length: "arena_wf a \<Longrightarrow> length (ar_table a) = logical_pages a"
  by (simp add: arena_wf_def arena_ok_def shapes_ok_def)

section \<open>Properties of the plan\<close>

text \<open>
  The arena the witnesses run: four atoms of one batch-head on the host, the 32-leaf box of the
  64-leaf topology (so an extent is two atoms), and a pool of \<^verbatim>\<open>cap\<close> quarters of residency.
\<close>

definition demo_args :: "nat \<Rightarrow> arena_args" where
  "demo_args cap = \<lparr>aa_widths = [64], aa_BC = 32, aa_cols = 1, aa_BH = 1, aa_device = Cpu,
     aa_extent = None, aa_backing = Auto, aa_slack = of_nat cap / 4\<rparr>"

definition demo_arena :: "nat \<Rightarrow> arena" where
  "demo_arena cap = \<lparr>ar_BH = 1, ar_apb = 4, ar_cols = 1, ar_pool_capacity = cap,
     ar_alloc = \<lparr>al_capacity = 4, al_extent = 2, al_next = cap\<rparr>,
     ar_table = replicate 4 ABSENT, ar_base = replicate 4 (blank_page 1),
     ar_pool_slots = [[0..<cap]], ar_cursor = [0], ar_pool_map = replicate 4 ABSENT,
     ar_owner = None, ar_peak = cap, ar_last = None\<rparr>"

lemmas make_arena_eval = make_arena_def exact_platform_def make_keying_def
  atoms_per_owner_def make_allocator_def logical_atoms_def atoms_per_bh_def resolve_backing_def
  arena_allocate_def reserve_pool_def logical_pages_def Let_def take_committed_def
  arena_take_def take_slots_def admission_def commit_pages_def bump_peak_def

lemma zero_run_blank: "zero_run z f c (replicate n z) = replicate n z"
  by (rule nth_equalityI) (simp_all add: zero_run_def)

lemma demo_make: "make_arena exact_platform (demo_args 0) = Inr (demo_arena 0)"
  "make_arena exact_platform (demo_args 2) = Inr (demo_arena 2)"
  "make_arena exact_platform (demo_args 4) = Inr (demo_arena 4)"
  by (simp_all add: make_arena_eval demo_args_def demo_arena_def zero_run_blank)
     (simp_all add: upt_rec)

lemma demo_wf: "arena_wf (demo_arena 0)" "arena_wf (demo_arena 2)"
  by (rule make_arena_ok(1) [OF demo_make(1) exact_platform_ok]
           make_arena_ok(1) [OF demo_make(2) exact_platform_ok])+

text \<open>
  A constructed arena satisfies the invariant on either backing; every atom is absent
  and reads as zero, and exactly the pool's slots are taken.
\<close>

theorem make_arena_correct:
  assumes "make_arena pf g = Inr a" "platform_ok pf"
  shows "arena_wf a \<and> resident_pages a = 0 \<and> allocated_pages a = ar_BH a * ar_pool_capacity a
       \<and> logical_pages a * 16 = aa_BH g * prod_list (aa_widths g)
       \<and> (\<forall>i<logical_pages a. page_at a i = blank_page (aa_cols g))
       \<and> allocated_pages a \<le> mapped_pages a"
proof -
  note m = make_arena_ok [OF assms]
  have "resident_pages a = 0" by (simp add: resident_mapped m(2))
  moreover have "logical_pages a * 16 = aa_BH g * prod_list (aa_widths g)"
    by (simp add: logical_pages_def m(5) flip: m(6))
  ultimately show ?thesis
    using m allocated_le_mapped [of a] fresh_page_at [OF m(2)]
    by (simp add: allocated_pages_def arena_wf_def)
qed

theorem make_arena_correct_witness:
  "arena_wf (demo_arena 2) \<and> resident_pages (demo_arena 2) = 0
   \<and> allocated_pages (demo_arena 2) = ar_BH (demo_arena 2) * ar_pool_capacity (demo_arena 2)
   \<and> logical_pages (demo_arena 2) * 16 = aa_BH (demo_args 2) * prod_list (aa_widths (demo_args 2))
   \<and> page_at (demo_arena 2) 3 = blank_page (aa_cols (demo_args 2))
   \<and> allocated_pages (demo_arena 2) \<le> mapped_pages (demo_arena 2)"
proof -
  have "3 < logical_pages (demo_arena 2)" by code_simp
  with make_arena_correct [OF demo_make(2) exact_platform_ok] show ?thesis by blast
qed

text \<open>
  C13 (plan): A continuing plan (\<^verbatim>\<open>fresh=False\<close>) grants all or nothing. Refused, it leaves the arena
  exactly as it was. Granted, every requested atom is mapped, nothing already mapped moves,
  the state that \<^verbatim>\<open>materialize\<close> reads is unchanged, and the reported counts are the arena's.
\<close>

theorem plan_exact_all_or_nothing:
  assumes "arena_wf a" "bitmap_shape_ok bits a"
  shows "case plan_exact bits False a of
     (Inl e, b) \<Rightarrow> b = a
   | (Inr r, b) \<Rightarrow> arena_wf b \<and> materialize b = materialize a
       \<and> (\<forall>i<logical_pages a. 0 \<le> ar_table b ! i \<longleftrightarrow> 0 \<le> ar_table a ! i \<or> concat bits ! i)
       \<and> pr_realized_owners r = length (filter (\<lambda>b. b) (concat bits))
       \<and> pr_allocated_pages r = allocated_pages b
       \<and> resident_pages b \<le> allocated_pages b \<and> allocated_pages b \<le> mapped_pages b"
proof -
  from assms(1) have ok: "arena_ok a" and ns: "no_stale a" by (simp_all add: arena_wf_def)
  note len = table_length [OF assms(1)]
  show ?thesis
  proof (cases rule: plan_union_ok [OF ok assms(2)])
    case (1 e)
    then show ?thesis by (simp add: plan_exact_def)
  next
    case (2 r b)
    have "no_stale b" using 2(4,6,7) len by (intro no_stale_keep [OF ns]) auto
    with 2(2) have "arena_wf b" by (simp add: arena_wf_def)
    moreover have "materialize b = materialize a"
      using 2(3,5,6) by (intro materialize_cong) (auto simp: same_dims_def)
    moreover have "pr_realized_owners r = length (filter (\<lambda>b. b) (concat bits))"
      "pr_allocated_pages r = allocated_pages b" using 2(9) by (simp_all add: plan_result_def)
    ultimately show ?thesis
      using 2(1,2,4) len resident_le_allocated [OF 2(2)] allocated_le_mapped [OF 2(2)]
      by (simp add: plan_exact_def)
  qed
qed

theorem plan_exact_all_or_nothing_witness:
  "case plan_exact [[True, False, False, True]] False (demo_arena 0) of
     (Inl e, b) \<Rightarrow> b = demo_arena 0
   | (Inr r, b) \<Rightarrow> arena_wf b \<and> materialize b = materialize (demo_arena 0)
       \<and> (\<forall>i<logical_pages (demo_arena 0). 0 \<le> ar_table b ! i \<longleftrightarrow>
            0 \<le> ar_table (demo_arena 0) ! i \<or> concat [[True, False, False, True]] ! i)
       \<and> pr_realized_owners r = length (filter (\<lambda>b. b) (concat [[True, False, False, True]]))
       \<and> pr_allocated_pages r = allocated_pages b
       \<and> resident_pages b \<le> allocated_pages b \<and> allocated_pages b \<le> mapped_pages b"
proof (rule plan_exact_all_or_nothing)
  show "arena_wf (demo_arena 0)" by (rule demo_wf)
qed code_simp

lemma wanted_all_absent:
  "wanted_atoms bits (replicate (length bits) ABSENT) = filter (\<lambda>i. bits ! i) [0..<length bits]"
  unfolding wanted_atoms_def by (rule filter_cong) (auto simp: ABSENT_def)

lemma length_filter_nth: "length (filter (\<lambda>i. xs ! i) [0..<length xs]) = length (filter (\<lambda>b. b) xs)"
  using length_filter_conv_card [of "\<lambda>b. b" xs]
  by (simp add: distinct_length_filter [of "[0..<length xs]" "\<lambda>i. xs ! i"] Int_def) (simp add: conj_commute)

text \<open>
  A fresh plan on an arena without a pool never fails, whatever the extent size: the
  result maps exactly the requested atoms, its cursor is exactly their number, and the state it
  leaves reads as zero everywhere.
\<close>

theorem fresh_plan_total:
  assumes "arena_ok a" "bitmap_shape_ok bits a" "ar_pool_capacity a = 0"
  shows "\<exists>r b. plan_exact bits True a = (Inr r, b) \<and> arena_ok b
     \<and> resident_pages b = length (filter (\<lambda>b. b) (concat bits))
     \<and> allocated_pages b = length (filter (\<lambda>b. b) (concat bits))
     \<and> (\<forall>i<logical_pages a. (0 \<le> ar_table b ! i \<longleftrightarrow> concat bits ! i)
          \<and> page_at b i = blank_page (ar_cols a))"
proof -
  let ?n = "length (filter (\<lambda>b. b) (concat bits))"
  obtain c where c: "arena_reset a = (Inr (), c)" "arena_ok c" "same_dims a c"
    "ar_table c = replicate (length (ar_table a)) ABSENT" "al_next (ar_alloc c) = 0"
    using arena_reset_ok [OF assms(1)] assms(3) by auto
  have len: "length (ar_table a) = logical_pages a" "length (concat bits) = logical_pages a"
    using assms length_concat_bitmap by (auto simp: arena_ok_def shapes_ok_def)
  have lp: "logical_pages c = logical_pages a" by (rule same_dims_logical [OF c(3)])
  have sh: "bitmap_shape_ok bits c" using assms(2) c(3) by (simp add: bitmap_shape_ok_def same_dims_def)
  have w: "length (wanted_atoms (concat bits) (ar_table c)) = ?n"
  proof -
    have "length (ar_table a) = length (concat bits)" by (simp only: len)
    then show ?thesis unfolding c(4) by (simp only: wanted_all_absent length_filter_nth)
  qed
  have le: "?n \<le> logical_pages a" using len(2) by (metis length_filter_le)
  have "take_slots ?n (ar_alloc c) = Inr (0, if 0 < ?n then ar_alloc c\<lparr>al_next := ?n\<rparr> else ar_alloc c)"
    using c(2,5) le lp by (simp add: take_slots_def admission_zero arena_ok_def shapes_ok_def)
  note ts = this [folded w]
  show ?thesis
  proof (cases rule: plan_union_ok [OF c(2) sh])
    case (1 e)
    with ts show ?thesis by simp
  next
    case (2 r b)
    have "ar_alloc b = (if 0 < ?n then ar_alloc c\<lparr>al_next := ?n\<rparr> else ar_alloc c)"
      using 2(8) ts w by auto
    then have al: "al_next (ar_alloc b) = ?n" using c(5) by simp
    have tab: "0 \<le> ar_table b ! i \<longleftrightarrow> concat bits ! i" if "i < logical_pages a" for i
      using 2(4) [of i] that len by (simp add: c(4) ABSENT_def)
    have "page_at b i = blank_page (ar_cols a)" if "i < logical_pages a" for i
      using 2(5) [of i] that len c(3) by (simp add: c(4) page_at_def ABSENT_def same_dims_def)
    moreover have "resident_pages b = ?n"
    proof -
      have "{i. i < length (ar_table b) \<and> 0 \<le> ar_table b ! i} = {i. i < length (concat bits) \<and> concat bits ! i}"
        using tab 2(6) c(4) len by auto
      then show ?thesis by (simp add: resident_card length_filter_conv_card)
    qed
    ultimately show ?thesis
      using 2(1,2) c(1) tab al by (auto simp: plan_exact_def allocated_pages_def)
  qed
qed

theorem fresh_plan_total_witness:
  "\<exists>r b. plan_exact [[True, False, True, True]] True (demo_arena 0) = (Inr r, b) \<and> arena_ok b
     \<and> resident_pages b = length (filter (\<lambda>b. b) (concat [[True, False, True, True]]))
     \<and> allocated_pages b = length (filter (\<lambda>b. b) (concat [[True, False, True, True]]))
     \<and> (\<forall>i<logical_pages (demo_arena 0). (0 \<le> ar_table b ! i \<longleftrightarrow> concat [[True, False, True, True]] ! i)
          \<and> page_at b i = blank_page (ar_cols (demo_arena 0)))"
proof (rule fresh_plan_total)
  have "arena_wf (demo_arena 0)" by (rule demo_wf)
  then show "arena_ok (demo_arena 0)" by (simp add: arena_wf_def)
qed code_simp+

section \<open>Paging is invisible\<close>

lemma dense_calls_total:
  "\<exists>d'. run_calls (\<lambda>bits d. Inr d) dense_put (\<lambda>d i. dp_pages d ! i) cs d = Inr d'"
  by (induction cs arbitrary: d) auto

lemma dense_updates_cols: "dp_cols (run_updates dense_put (\<lambda>d i. dp_pages d ! i) us d) = dp_cols d"
  by (induction us arbitrary: d) (auto simp: dense_put_def)

text \<open>
  Two backings that run the same calls from states that read the same end in states that read
  the same: shared by the host-admitted and the pool-admitted arena.
\<close>

lemma calls_vs_dense:
  assumes "page_store okf sizef widthf look hasf admitf put"
    "okf a" "run_calls admitf put look cs a = Inr b" "\<forall>c\<in>set cs. call_ok n w c"
    "sizef a = n" "widthf a = w" "w = 16 * cols" "\<And>i. i < n \<Longrightarrow> look a i = blank_page cols"
    "run_calls (\<lambda>bits d. Inr d) dense_put (\<lambda>d i. dp_pages d ! i) cs (dense_zero n cols) = Inr d"
  shows "okf b" "sizef b = n" "length (dp_pages d) = n" "\<And>i. i < n \<Longrightarrow> look b i = dp_pages d ! i"
proof -
  let ?v = "\<lambda>i. blank_page cols"
  have A: "okf b \<and> sizef b = n \<and> (\<forall>i<n. look b i = page_calls cs ?v i)"
    using page_store.calls_look [OF assms(1,2,3), of ?v] assms(4-8) by auto
  have D: "dense_ok d \<and> length (dp_pages d) = n \<and> (\<forall>i<n. dp_pages d ! i = page_calls cs ?v i)"
    using dense.calls_look [OF _ assms(9), of ?v] assms(4,7)
    by (auto simp: dense_zero_def dense_ok_def)
  from A D show "okf b" "sizef b = n" "length (dp_pages d) = n" "\<And>i. i < n \<Longrightarrow> look b i = dp_pages d ! i"
    by auto
qed

text \<open>
  C3 (paged): Paging is bitwise invisible: any sequence of calls, each admitting its write set and
  updating pages of it, leaves an arena whose materialized state is, word for word, the state
  the same calls leave on the dense plane.
\<close>

theorem paged_equals_dense:
  assumes "make_arena pf g = Inr a" "platform_ok pf"
    "\<forall>c\<in>set cs. call_ok (logical_pages a) (16 * aa_cols g) c"
    "run_calls host_admit write_page page_at cs a = Inr b"
  shows "\<exists>d. run_calls (\<lambda>bits d. Inr d) dense_put (\<lambda>d i. dp_pages d ! i) cs
              (dense_zero (logical_pages a) (aa_cols g)) = Inr d
       \<and> (\<forall>i<logical_pages a. page_at b i = dp_pages d ! i)
       \<and> arena_wf b"
proof -
  note m = make_arena_ok [OF assms(1,2)]
  obtain d where d: "run_calls (\<lambda>bits d. Inr d) dense_put (\<lambda>d i. dp_pages d ! i) cs
      (dense_zero (logical_pages a) (aa_cols g)) = Inr d" using dense_calls_total by blast
  have "page_at a i = blank_page (aa_cols g)" if "i < logical_pages a" for i
    using fresh_page_at [OF m(2) that] m(4) by simp
  note c = calls_vs_dense [OF paged.page_store_axioms m(1) assms(4,3) refl _ refl this d]
  show ?thesis using d c(1,4) m(4) by auto
qed

definition demo_calls :: "(bool list list \<times> (nat \<times> (page \<Rightarrow> page)) list) list" where
  "demo_calls = [([[True, False, False, True]], [(3, map (\<lambda>w. w + 7)), (0, map (\<lambda>w. w + 1))]),
                 ([[True, False, True, False]], [(0, map (\<lambda>w. w * 3))])]"

lemma demo_calls_ok: "\<forall>c\<in>set demo_calls. call_ok 4 16 c"
  by (simp add: demo_calls_def call_ok_def)

theorem paged_equals_dense_witness:
  "\<exists>b d. run_calls host_admit write_page page_at demo_calls (demo_arena 0) = Inr b
       \<and> run_calls (\<lambda>bits d. Inr d) dense_put (\<lambda>d i. dp_pages d ! i) demo_calls
              (dense_zero (logical_pages (demo_arena 0)) (aa_cols (demo_args 0))) = Inr d
       \<and> (\<forall>i<logical_pages (demo_arena 0). page_at b i = dp_pages d ! i) \<and> arena_wf b"
proof -
  have "is_ok (run_calls host_admit write_page page_at demo_calls (demo_arena 0))" by code_simp
  then obtain b where b: "run_calls host_admit write_page page_at demo_calls (demo_arena 0) = Inr b"
    by (auto simp: is_ok_iff)
  have "\<forall>c\<in>set demo_calls. call_ok (logical_pages (demo_arena 0)) (16 * aa_cols (demo_args 0)) c"
    using demo_calls_ok by (simp add: logical_pages_def demo_arena_def demo_args_def)
  from paged_equals_dense [OF demo_make(1) exact_platform_ok this b] b show ?thesis by blast
qed

text \<open>
  C5 (pooled): An atom the device admits from the slack pool is indistinguishable from one the
  host plan admits: with every call admitted by the device's claims, the state is again the
  dense plane's.
\<close>

theorem pooled_equals_dense:
  assumes "make_arena pf g = Inr a" "platform_ok pf"
    "\<forall>c\<in>set cs. call_ok (logical_pages a) (16 * aa_cols g) c"
    "run_calls device_admit write_page page_at cs a = Inr b"
  shows "\<exists>d. run_calls (\<lambda>bits d. Inr d) dense_put (\<lambda>d i. dp_pages d ! i) cs
              (dense_zero (logical_pages a) (aa_cols g)) = Inr d
       \<and> (\<forall>i<logical_pages a. page_at b i = dp_pages d ! i)
       \<and> arena_wf b"
proof -
  note m = make_arena_ok [OF assms(1,2)]
  obtain d where d: "run_calls (\<lambda>bits d. Inr d) dense_put (\<lambda>d i. dp_pages d ! i) cs
      (dense_zero (logical_pages a) (aa_cols g)) = Inr d" using dense_calls_total by blast
  have "page_at a i = blank_page (aa_cols g)" if "i < logical_pages a" for i
    using fresh_page_at [OF m(2) that] m(4) by simp
  note c = calls_vs_dense [OF pooled.page_store_axioms m(1) assms(4,3) refl _ refl this d]
  show ?thesis using d c(1,4) m(4) by auto
qed

theorem pooled_equals_dense_witness:
  "\<exists>b d. run_calls device_admit write_page page_at (take 1 demo_calls) (demo_arena 2) = Inr b
       \<and> run_calls (\<lambda>bits d. Inr d) dense_put (\<lambda>d i. dp_pages d ! i) (take 1 demo_calls)
              (dense_zero (logical_pages (demo_arena 2)) (aa_cols (demo_args 2))) = Inr d
       \<and> (\<forall>i<logical_pages (demo_arena 2). page_at b i = dp_pages d ! i) \<and> arena_wf b"
proof -
  have "is_ok (run_calls device_admit write_page page_at (take 1 demo_calls) (demo_arena 2))" by code_simp
  then obtain b where b: "run_calls device_admit write_page page_at (take 1 demo_calls) (demo_arena 2) = Inr b"
    by (auto simp: is_ok_iff)
  have "\<forall>c\<in>set (take 1 demo_calls). call_ok (logical_pages (demo_arena 2)) (16 * aa_cols (demo_args 2)) c"
    using demo_calls_ok by (auto simp: logical_pages_def demo_arena_def demo_args_def dest: in_set_takeD)
  from pooled_equals_dense [OF demo_make(2) exact_platform_ok this b] b show ?thesis by blast
qed

section \<open>The slack pool\<close>

text \<open>
  A decode step's claim on one batch-head is all or none: needy, it leaves the arena
  exactly as it was; otherwise every atom it walks is mapped, nothing that was mapped moves,
  what every atom reads is unchanged, and the allocator is not touched.
\<close>

theorem device_claim_all_or_none:
  assumes "arena_wf a" "distinct cand" "\<forall>x\<in>set cand. x < ar_apb a" "bh < ar_BH a"
  shows "case device_claim bh cand a of (needy, b) \<Rightarrow>
     (if needy
      then b = a \<and> int (ar_pool_capacity a) - (if 0 < ar_pool_capacity a then int (ar_cursor a ! bh) else 0)
                     < int (length (demand_of bh cand a))
      else arena_wf b \<and> (\<forall>x\<in>set cand. 0 \<le> ar_table b ! (bh * ar_apb a + x))
         \<and> materialize b = materialize a \<and> ar_alloc b = ar_alloc a)"
proof -
  from assms(1) have ok: "arena_ok a" "no_stale a" by (simp_all add: arena_wf_def)
  obtain needy b where dc: "device_claim bh cand a = (needy, b)" by fastforce
  note d = device_claim_ok [OF ok assms(2-4) dc]
  have lt: "int (ar_pool_capacity a) - (if 0 < ar_pool_capacity a then int (ar_cursor a ! bh) else 0)
                     < int (length (demand_of bh cand a))" if needy
    using that dc by (cases rule: device_claim_cases [OF ok assms(2-4)])
      (auto simp: device_claim_claimed(1) [OF ok assms(2-4)] split: if_splits)
  have "materialize b = materialize a"
    using d(3-5) table_length [OF assms(1)] by (intro materialize_cong) (auto simp: same_dims_def)
  with d lt show ?thesis by (auto simp: dc arena_wf_def)
qed

theorem device_claim_all_or_none_witness:
  "case device_claim 0 [3, 1] (demo_arena 2) of (needy, b) \<Rightarrow>
     (if needy
      then b = demo_arena 2 \<and> int (ar_pool_capacity (demo_arena 2))
             - (if 0 < ar_pool_capacity (demo_arena 2) then int (ar_cursor (demo_arena 2) ! 0) else 0)
               < int (length (demand_of 0 [3, 1] (demo_arena 2)))
      else arena_wf b \<and> (\<forall>x\<in>set [3, 1]. 0 \<le> ar_table b ! (0 * ar_apb (demo_arena 2) + x))
         \<and> materialize b = materialize (demo_arena 2) \<and> ar_alloc b = ar_alloc (demo_arena 2))"
  by (rule device_claim_all_or_none [OF demo_wf(2)]) code_simp+

text \<open>
  A refill replaces exactly the spent positions: afterwards every batch-head has its
  whole pool again, and nothing a reader can see has changed; refused, it changes nothing.
\<close>

theorem refill_restores_headroom:
  assumes "arena_wf a" "0 < ar_pool_capacity a" "0 < ar_BH a"
  shows "case refill_pool a of
     (Inl e, b) \<Rightarrow> b = a
   | (Inr n, b) \<Rightarrow> arena_wf b \<and> pool_headroom b = int (ar_pool_capacity a)
       \<and> ar_table b = ar_table a \<and> materialize b = materialize a"
proof -
  from assms(1) have ok: "arena_ok a" and ns: "no_stale a" by (simp_all add: arena_wf_def)
  show ?thesis
  proof (cases rule: refill_pool_ok [OF ok])
    case (1 e)
    then show ?thesis by simp
  next
    case (2 n b)
    have "arena_wf b" using 2(2,4,6) ns by (simp add: arena_wf_def no_stale_def)
    moreover have "materialize b = materialize a"
      using 2(3-5) by (intro materialize_cong) (auto simp: same_dims_def)
    moreover have "ar_pool_capacity b = ar_pool_capacity a" using 2(3) by (simp add: same_dims_def)
    ultimately show ?thesis using 2(1,4,7) assms(2,3) by (simp add: pool_headroom_def)
  qed
qed

theorem refill_restores_headroom_witness:
  "case refill_pool (snd (device_claim 0 [2] (demo_arena 2))) of
     (Inl e, b) \<Rightarrow> b = snd (device_claim 0 [2] (demo_arena 2))
   | (Inr n, b) \<Rightarrow> arena_wf b
       \<and> pool_headroom b = int (ar_pool_capacity (snd (device_claim 0 [2] (demo_arena 2))))
       \<and> ar_table b = ar_table (snd (device_claim 0 [2] (demo_arena 2)))
       \<and> materialize b = materialize (snd (device_claim 0 [2] (demo_arena 2)))"
proof (rule refill_restores_headroom)
  have "\<forall>x\<in>set [2::nat]. x < ar_apb (demo_arena 2)" "0 < ar_BH (demo_arena 2)" by code_simp+
  then show "arena_wf (snd (device_claim 0 [2] (demo_arena 2)))"
    using device_claim_ok(1,2) [OF conjunct1 conjunct2, OF demo_wf(2) [unfolded arena_wf_def]
        demo_wf(2) [unfolded arena_wf_def], of "[2]" 0]
    by (metis arena_wf_def distinct_singleton prod.collapse)
qed code_simp+

section \<open>Where the documentation and the code part\<close>

text \<open>
  With one-atom extents there is no alignment gap: on an arena without a pool whose
  cursor equals its residency, a continuing plan is never refused, and the equality persists.
\<close>

theorem unit_extent_never_refuses:
  assumes "arena_wf a" "bitmap_shape_ok bits a" "al_extent (ar_alloc a) = 1" "ar_pool_capacity a = 0"
    "allocated_pages a = resident_pages a"
  shows "\<exists>r b. plan_exact bits False a = (Inr r, b) \<and> allocated_pages b = resident_pages b
     \<and> al_extent (ar_alloc b) = 1"
proof -
  from assms(1) have ok: "arena_ok a" by (simp add: arena_wf_def)
  note len = table_length [OF assms(1)]
  let ?ids = "wanted_atoms (concat bits) (ar_table a)"
  let ?M = "{i. i < length (ar_table a) \<and> 0 \<le> ar_table a ! i}"
  have fin: "finite ?M" by simp
  have dis: "?M \<inter> set ?ids = {}" by (auto simp: wanted_atoms_props(2))
  have sub: "?M \<union> set ?ids \<subseteq> {..<logical_pages a}" by (auto simp: wanted_atoms_props(2) len)
  have card_un: "card (?M \<union> set ?ids) = allocated_pages a + length ?ids"
    using card_Un_disjoint [OF fin _ dis] assms(5)
    by (simp add: resident_card distinct_card wanted_atoms_props(1))
  have fits: "allocated_pages a + length ?ids \<le> logical_pages a"
    using card_mono [OF _ sub] card_un by simp
  have "admission (al_next (ar_alloc a)) (al_capacity (ar_alloc a)) 1 (int (length ?ids))
      = Inr (al_next (ar_alloc a))"
    using fits ok by (simp add: admission_def allocated_pages_def arena_ok_def shapes_ok_def)
  then have ts: "take_slots (length ?ids) (ar_alloc a) = Inr (al_next (ar_alloc a),
      if 0 < length ?ids then ar_alloc a\<lparr>al_next := al_next (ar_alloc a) + length ?ids\<rparr> else ar_alloc a)"
    using assms(3) by (simp add: take_slots_def)
  show ?thesis
  proof (cases rule: plan_union_ok [OF ok assms(2)])
    case (1 e)
    with ts show ?thesis by simp
  next
    case (2 r b)
    have al: "ar_alloc b = (if 0 < length ?ids
        then ar_alloc a\<lparr>al_next := al_next (ar_alloc a) + length ?ids\<rparr> else ar_alloc a)"
      using 2(8) ts by auto
    have "{i. i < length (ar_table b) \<and> 0 \<le> ar_table b ! i} = ?M \<union> set ?ids"
      using 2(4,6) by (auto simp: wanted_atoms_props(2))
    then have "resident_pages b = allocated_pages a + length ?ids" by (simp add: resident_card card_un)
    then show ?thesis using 2(1) al assms(3) by (auto simp: plan_exact_def allocated_pages_def)
  qed
qed

theorem unit_extent_never_refuses_witness:
  "\<exists>r b. plan_exact [[True, True, False, True]] False
        (demo_arena 0\<lparr>ar_alloc := \<lparr>al_capacity = 4, al_extent = 1, al_next = 0\<rparr>\<rparr>) = (Inr r, b)
     \<and> allocated_pages b = resident_pages b \<and> al_extent (ar_alloc b) = 1"
proof (rule unit_extent_never_refuses)
  let ?g = "demo_args 0\<lparr>aa_extent := Some 1\<rparr>"
  let ?a = "demo_arena 0\<lparr>ar_alloc := \<lparr>al_capacity = 4, al_extent = 1, al_next = 0\<rparr>\<rparr>"
  have "make_arena exact_platform ?g = Inr ?a"
    by (simp add: make_arena_eval demo_args_def demo_arena_def zero_run_blank)
  then show "arena_wf ?a" by (rule make_arena_ok(1) [OF _ exact_platform_ok])
qed code_simp+

text \<open>
  The extent alignment refuses a demand the dense limit covers: on four atoms with the
  default two-atom extent, plans of one, two and one more atoms -- all of them this arena's own
  keying -- end in the refusal, with three atoms resident.
\<close>

theorem extent_gap_refuses:
  "make_arena exact_platform (demo_args 0) = Inr (demo_arena 0) \<and>
   (let (_, a1) = plan_exact [[True, False, False, False]] True (demo_arena 0);
        (_, a2) = plan_exact [[True, True, True, False]] False a1;
        (r, a3) = plan_exact [[True, True, True, True]] False a2
    in r = Inl (RuntimeError ''the page arena cannot serve this launch'')
       \<and> resident_pages a2 = 3 \<and> logical_pages a2 = 4)"
  by (rule conjI [OF demo_make(1)]) code_simp

text \<open>
  \<^verbatim>\<open>pool_slack = 1.0\<close>, which the constructor accepts, leaves the allocator nothing:
  every fresh plan that touches an atom is refused, on every topology.
\<close>

theorem full_pool_refuses_every_plan:
  assumes "make_arena pf g = Inr a" "platform_ok pf" "ar_pool_capacity a = ar_apb a"
    "bitmap_shape_ok bits a" "True \<in> set (concat bits)"
  shows "fst (plan_exact bits True a) = Inl (RuntimeError ''the page arena cannot serve this launch'')"
proof -
  have ok: "arena_ok a" using make_arena_ok(1) [OF assms(1,2)] by (simp add: arena_wf_def)
  obtain c where c: "arena_reset a = (Inr (), c)" "arena_ok c" "same_dims a c"
    "ar_table c = replicate (length (ar_table a)) ABSENT" "al_next (ar_alloc c) = logical_pages a"
    using arena_reset_ok [OF ok] assms(3) by (auto simp: logical_pages_def)
  have lp: "logical_pages c = logical_pages a" by (rule same_dims_logical [OF c(3)])
  have sh: "bitmap_shape_ok bits c" using assms(4) c(3) by (simp add: bitmap_shape_ok_def same_dims_def)
  have len: "length (ar_table a) = length (concat bits)"
    using ok length_concat_bitmap [OF assms(4)] by (simp add: arena_ok_def shapes_ok_def)
  have "length (wanted_atoms (concat bits) (ar_table c)) = length (filter (\<lambda>b. b) (concat bits))"
    unfolding c(4) len by (simp only: wanted_all_absent length_filter_nth)
  moreover have "filter (\<lambda>b. b) (concat bits) \<noteq> []"
  proof
    assume "filter (\<lambda>b. b) (concat bits) = []"
    then have "\<forall>x\<in>set (concat bits). \<not> x" by (simp only: filter_empty_conv)
    from bspec [OF this assms(5)] show False by simp
  qed
  ultimately have pos: "0 < length (wanted_atoms (concat bits) (ar_table c))" by simp
  have "take_slots n (ar_alloc c) = Inl (RuntimeError ''the page arena cannot serve this launch'')" if "0 < n" for n
  proof -
    have "0 \<le> (- int (al_next (ar_alloc c))) mod int (al_extent (ar_alloc c))"
      using c(2) by (simp add: arena_ok_def shapes_ok_def allocator_ok_def)
    then show ?thesis using that c(2,5) lp
      by (simp add: take_slots_def admission_def Let_def arena_ok_def shapes_ok_def)
  qed
  note refused = this [OF pos]
  show ?thesis
  proof (cases rule: plan_union_ok [OF c(2) sh])
    case (1 e)
    with refused c(1) show ?thesis by (simp add: plan_exact_def)
  next
    case (2 r b)
    with refused show ?thesis by auto
  qed
qed

theorem full_pool_refuses_every_plan_witness:
  "fst (plan_exact [[False, True, False, False]] True (demo_arena 4))
     = Inl (RuntimeError ''the page arena cannot serve this launch'')"
  by (rule full_pool_refuses_every_plan [OF demo_make(3) exact_platform_ok]) code_simp+

end
