(* ===== verification/Rola_Paging_Stale.thy ===== *)
theory Rola_Paging_Stale
  imports Rola_Paging_Props
begin

text \<open>
  \<^verbatim>\<open>PageArena.reset\<close> (\<^verbatim>\<open>rola/ops/paging.py\<close>) takes the pool again and leaves the device's shadow map
  standing; the decode step's fold (\<^verbatim>\<open>decode.cu\<close>) then reads entries of the previous call. What the
  device claims on an arena without the clause \<^const>\<open>no_stale\<close>, and what that does to two calls in
  a row.
\<close>

section \<open>The pool of a fresh plan\<close>

text \<open>After a reset the slots of a batch-head's pool are its own fixed run, and none is spent.\<close>

definition own_pool :: "arena \<Rightarrow> bool" where
  "own_pool a \<longleftrightarrow> (\<forall>bh<ar_BH a. ar_pool_slots a ! bh
       = [bh * ar_pool_capacity a..<bh * ar_pool_capacity a + ar_pool_capacity a])
     \<and> (\<forall>bh<ar_BH a. ar_cursor a ! bh = 0)"

lemma reset_own_pool:
  assumes "arena_ok a" "arena_reset a = (Inr (), b)"
  shows "own_pool b"
proof (cases "ar_pool_capacity a = 0")
  case True
  then have "b = a\<lparr>ar_table := replicate (length (ar_table a)) ABSENT, ar_alloc := al_reset (ar_alloc a), ar_peak := 0\<rparr>"
    using assms(2) by (simp add: arena_reset_def reserve_pool_def)
  then show ?thesis using assms(1) True
    by (auto simp: own_pool_def arena_ok_def pool_shape_ok_def)
next
  case False
  let ?a = "a\<lparr>ar_table := replicate (length (ar_table a)) ABSENT, ar_alloc := al_reset (ar_alloc a), ar_peak := 0\<rparr>"
  let ?total = "ar_BH a * ar_pool_capacity a"
  have le: "?total \<le> logical_pages a"
    using assms(1) by (simp add: arena_ok_def shapes_ok_def logical_pages_def)
  have "admission 0 (al_capacity (ar_alloc a)) (al_extent (ar_alloc a)) (int ?total) = Inr 0"
    using le assms(1) by (intro admission_zero) (simp add: arena_ok_def shapes_ok_def del: of_nat_mult)
  then have "take_slots ?total (ar_alloc ?a) = Inr (0, if 0 < ?total then (ar_alloc ?a)\<lparr>al_next := ?total\<rparr> else ar_alloc ?a)"
    by (simp add: take_slots_def al_reset_def del: of_nat_mult)
  then show ?thesis using assms(2) False
    by (auto simp: arena_reset_def reserve_pool_def Let_def take_committed_def arena_take_def commit_pages_def
        bump_peak_def own_pool_def split: option.splits sum.splits prod.splits if_splits)
qed

lemma plan_union_keeps_pool:
  assumes "plan_union bits a = (Inr r, b)"
  shows "ar_pool_slots b = ar_pool_slots a \<and> ar_cursor b = ar_cursor a \<and> ar_pool_map b = ar_pool_map a
    \<and> same_dims a b"
  using assms
  by (auto simp: plan_union_def Let_def take_committed_def arena_take_def commit_pages_def bump_peak_def
      admit_pages_def same_dims_def split: option.splits sum.splits prod.splits if_splits)

lemma fresh_plan_pool:
  assumes "arena_ok a" "plan_exact bits True a = (Inr r, b)"
  shows "arena_ok b" "own_pool b" "ar_pool_map b = ar_pool_map a" "same_dims a b"
proof -
  obtain c where c: "arena_reset a = (Inr (), c)" "arena_ok c" "same_dims a c" "ar_pool_map c = ar_pool_map a"
    using arena_reset_ok [OF assms(1)] by auto
  with assms(2) have p: "plan_union bits c = (Inr r, b)" by (simp add: plan_exact_def)
  note k = plan_union_keeps_pool [OF p]
  have "bitmap_shape_ok bits c" using p by (auto simp: plan_union_def split: if_splits)
  from plan_union_ok [OF c(2) this] p show "arena_ok b" by auto
  show "own_pool b" using reset_own_pool [OF assms(1) c(1)] k by (simp add: own_pool_def same_dims_def)
  show "ar_pool_map b = ar_pool_map a" "same_dims a b" using k c same_dims_trans by auto
qed

section \<open>What a claim folds\<close>

lemma claim_folds:
  assumes ok: "arena_ok a" and cand: "distinct cand" "\<forall>x\<in>set cand. x < ar_apb a" "bh < ar_BH a"
    and dc: "device_claim bh cand a = (False, b)" and d: "demand_of bh cand a \<noteq> []"
  defines "demand \<equiv> demand_of bh cand a"
  shows "\<And>j. j < length demand \<Longrightarrow>
      ar_table b ! (demand ! j) = int (ar_pool_slots a ! bh ! (ar_cursor a ! bh + j))
      \<and> ar_pool_map b ! (demand ! j) = ar_table b ! (demand ! j)"
    and "\<And>i. i \<in> set [bh * ar_apb a ..< bh * ar_apb a + ar_apb a] \<Longrightarrow> i \<notin> set demand \<Longrightarrow> ar_table a ! i < 0
      \<Longrightarrow> 0 \<le> ar_pool_map a ! i \<Longrightarrow> ar_table b ! i = ar_pool_map a ! i
        \<and> ar_cursor a ! bh + length demand < ar_cursor b ! bh"
    and "ar_cursor a ! bh + length demand \<le> ar_pool_capacity a" "length (ar_table b) = logical_pages a"
proof -
  define slots where "slots = take (length demand) (drop (ar_cursor a ! bh) (ar_pool_slots a ! bh))"
  let ?shadow = "index_copy (ar_pool_map a) demand (map int slots)"
  let ?row = "[bh * ar_apb a ..< bh * ar_apb a + ar_apb a]"
  note dp = demand_of_props [OF cand, folded demand_def]
  obtain t n where fs: "fold_shadow ?row ?shadow (ar_table a) = (t, n)" by (rule prod.exhaust)
  have cap: "0 < ar_pool_capacity a"
    using dc d by (cases "demand_of bh cand a") (auto simp: device_claim_def Let_def split: if_splits)
  show room: "ar_cursor a ! bh + length demand \<le> ar_pool_capacity a"
    using dc d cap by (auto simp: device_claim_def Let_def demand_def split: if_splits)
  have b: "b = a\<lparr>ar_pool_map := ?shadow, ar_table := t, ar_cursor := (ar_cursor a)[bh := ar_cursor a ! bh + n]\<rparr>"
    using dc d cap room fs by (auto simp: device_claim_def Let_def demand_def slots_def split: if_splits)
  have ps: "length (ar_cursor a) = ar_BH a" "length (ar_pool_slots a ! bh) = ar_pool_capacity a"
    "length (ar_table a) = logical_pages a" "length (ar_pool_map a) = logical_pages a"
    using ok cand(3) by (auto simp: arena_ok_def pool_shape_ok_def shapes_ok_def)
  have row: "\<forall>i\<in>set ?row. i < length (ar_table a)"
    unfolding ps(3) by (intro ballI row_in_range [OF cand(3)])
  note fc = fold_shadow_correct [OF distinct_upt row fs]
  show "length (ar_table b) = logical_pages a" by (simp add: b fc(1) ps(3))
  have len: "length slots = length demand" using room ps(2) by (simp add: slots_def)
  have new: "?shadow ! (demand ! j) = int (slots ! j)" if "j < length demand" for j
    using index_copy_nth [OF dp(1), of "map int slots" j "ar_pool_map a"] dp(2) [OF nth_mem [OF that]] that len ps(4)
    by simp
  have hit: "demand ! j \<in> set ?row \<and> 0 \<le> ?shadow ! (demand ! j) \<and> ar_table a ! (demand ! j) < 0"
    if "j < length demand" for j
    using dp(2) [OF nth_mem [OF that]] new [OF that] by simp
  show "ar_table b ! (demand ! j) = int (ar_pool_slots a ! bh ! (ar_cursor a ! bh + j))
      \<and> ar_pool_map b ! (demand ! j) = ar_table b ! (demand ! j)" if "j < length demand" for j
  proof -
    have "slots ! j = ar_pool_slots a ! bh ! (ar_cursor a ! bh + j)"
      using that room ps(2) by (simp add: slots_def)
    moreover have "ar_table b ! (demand ! j) = ?shadow ! (demand ! j)"
      using hit [OF that] fc(2) [of "demand ! j"] by (simp add: b)
    ultimately show ?thesis using new [OF that] by (simp add: b)
  qed
  fix i assume i: "i \<in> set ?row" "i \<notin> set demand" "ar_table a ! i < 0" "0 \<le> ar_pool_map a ! i"
  have other: "?shadow ! i = ar_pool_map a ! i" using i(2) len by (simp add: index_copy_other)
  let ?hits = "filter (\<lambda>i. 0 \<le> ?shadow ! i \<and> ar_table a ! i < 0) ?row"
  have "set demand \<subseteq> set ?hits" using hit by (fastforce simp: in_set_conv_nth)
  then have "insert i (set demand) \<subseteq> set ?hits" using i other by simp
  then have "card (insert i (set demand)) \<le> card (set ?hits)" by (intro card_mono) simp_all
  moreover have "card (set ?hits) = length ?hits" by (intro distinct_card distinct_filter distinct_upt)
  moreover have "card (insert i (set demand)) = Suc (length demand)" using i(2) dp(1) by (simp add: distinct_card)
  ultimately have "length demand < n" unfolding fc(3) by linarith
  then show "ar_table b ! i = ar_pool_map a ! i \<and> ar_cursor a ! bh + length demand < ar_cursor b ! bh"
    using i other cand(3) ps(1) by (simp add: b fc(2))
qed

section \<open>Two calls in a row\<close>

text \<open>
  C38 (stale): Two fresh calls, each followed by a decode step that claims slots of the same
  batch-head. On every arena the second step goes wrong as soon as the first claimed an atom that
  the second call neither planned nor asked for: the atom the first step claimed at position \<^verbatim>\<open>j\<close>
  and the one the second step claims at position \<^verbatim>\<open>j\<close> end up mapped to ONE slot, the cursor is
  charged for more slots than were claimed, and the arena's invariant is broken. \<^verbatim>\<open>reset\<close> never
  clears the shadow map that the fold reads.
\<close>

theorem reset_keeps_stale_claims:
  assumes "arena_ok a0" "plan_exact bits0 True a0 = (Inr r0, a1)" "no_stale a1"
    "distinct cand1" "\<forall>x\<in>set cand1. x < ar_apb a0" "bh < ar_BH a0" "device_claim bh cand1 a1 = (False, a2)"
    "plan_exact bits True a2 = (Inr r, a3)"
    "distinct cand2" "\<forall>x\<in>set cand2. x < ar_apb a0" "device_claim bh cand2 a3 = (False, a4)"
    "demand1 = demand_of bh cand1 a1" "demand2 = demand_of bh cand2 a3"
    "j < length demand1" "j < length demand2" "demand1 ! j \<notin> set demand2" "ar_table a3 ! (demand1 ! j) < 0"
  shows "demand1 ! j \<noteq> demand2 ! j
     \<and> ar_table a4 ! (demand1 ! j) = int (bh * ar_pool_capacity a0 + j)
     \<and> ar_table a4 ! (demand2 ! j) = int (bh * ar_pool_capacity a0 + j)
     \<and> length demand2 < ar_cursor a4 ! bh \<and> \<not> arena_ok a4"
proof -
  note p1 = fresh_plan_pool [OF assms(1,2)]
  have d1: "ar_apb a1 = ar_apb a0" "ar_BH a1 = ar_BH a0" "ar_pool_capacity a1 = ar_pool_capacity a0"
    using p1(4) by (simp_all add: same_dims_def)
  note c1 = assms(4) assms(5,6) [folded d1]
  note dev = device_claim_ok [OF p1(1) assms(3) c1 assms(7)]
  note p3 = fresh_plan_pool [OF dev(1) assms(8)]
  have d3: "ar_apb a3 = ar_apb a0" "ar_BH a3 = ar_BH a0" "ar_pool_capacity a3 = ar_pool_capacity a0"
    using p3(4) dev(3) d1 by (simp_all add: same_dims_def)
  note c3 = assms(9) assms(10) [folded d3(1)] assms(6) [folded d3(2)]
  have ne: "demand_of bh cand1 a1 \<noteq> []" "demand_of bh cand2 a3 \<noteq> []" using assms(12-15) by auto
  note f1 = claim_folds [OF p1(1) c1 assms(7) ne(1), folded assms(12)]
  note f3 = claim_folds [OF p3(1) c3 assms(11) ne(2), folded assms(13)]
  have own: "ar_pool_slots x ! bh ! (ar_cursor x ! bh + j) = bh * ar_pool_capacity a0 + j"
    if "own_pool x" "ar_BH x = ar_BH a0" "ar_pool_capacity x = ar_pool_capacity a0" "j < ar_pool_capacity a0" for x
    using that assms(6) by (simp add: own_pool_def)
  have lt: "j < ar_pool_capacity a0" using f1(3) assms(14) d1(3) by simp
  have stale: "ar_pool_map a3 ! (demand1 ! j) = int (bh * ar_pool_capacity a0 + j)"
    using f1(1) [OF assms(14)] own [OF p1(2) d1(2,3) lt] p3(3) by simp
  have in_row: "demand1 ! j \<in> set [bh * ar_apb a3 ..< bh * ar_apb a3 + ar_apb a3]"
    using demand_of_props(2) [OF c1, folded assms(12), OF nth_mem [OF assms(14)]] d1(1) d3(1) by simp
  note hit = f3(2) [OF in_row assms(16,17)]
  have t1: "ar_table a4 ! (demand1 ! j) = int (bh * ar_pool_capacity a0 + j)"
    and cur: "ar_cursor a3 ! bh + length demand2 < ar_cursor a4 ! bh"
    using hit stale by simp_all
  have t2: "ar_table a4 ! (demand2 ! j) = int (bh * ar_pool_capacity a0 + j)"
    using f3(1) [OF assms(15)] own [OF p3(2) d3(2,3) lt] by simp
  have ne12: "demand1 ! j \<noteq> demand2 ! j" using assms(15,16) nth_mem by metis
  have "demand1 ! j < logical_pages a3" using in_row row_in_range [of bh a3] assms(6) d3(2) by simp
  moreover have "demand2 ! j < logical_pages a3"
    using demand_of_props(2) [OF c3, folded assms(13), OF nth_mem [OF assms(15)]] by simp
  ultimately have "\<not> distinct (mapped_slots (ar_table a4))"
    using mapped_slots_inject [of "ar_table a4" "demand1 ! j" "demand2 ! j"] f3(4) t1 t2 ne12 by auto
  then have "\<not> arena_ok a4" by (simp add: arena_ok_def live_slots_def)
  with ne12 t1 t2 cur show ?thesis by simp
qed

text \<open>The smallest run: the first step claims atom 0, the second call plans atom 3 and claims atom 1.\<close>

definition stale_first :: arena where
  "stale_first = snd (plan_exact [[False, False, True, False]] True (demo_arena 2))"
definition stale_second :: arena where
  "stale_second = snd (plan_exact [[False, False, False, True]] True (snd (device_claim 0 [0] stale_first)))"

lemma fst_ok: "is_ok (fst p) \<Longrightarrow> \<exists>r. p = (Inr r, snd p)"
  by (cases p) (auto simp: is_ok_iff)

lemma not_needy: "\<not> fst p \<Longrightarrow> p = (False, snd p)"
  by (cases p) auto

theorem reset_keeps_stale_claims_witness:
  "(0 :: nat) \<noteq> 1
   \<and> ar_table (snd (device_claim 0 [1] stale_second)) ! 0 = int (0 * ar_pool_capacity (demo_arena 2) + 0)
   \<and> ar_table (snd (device_claim 0 [1] stale_second)) ! 1 = int (0 * ar_pool_capacity (demo_arena 2) + 0)
   \<and> 1 < ar_cursor (snd (device_claim 0 [1] stale_second)) ! 0
   \<and> \<not> arena_ok (snd (device_claim 0 [1] stale_second))"
proof -
  have ok: "arena_ok (demo_arena 2)" using demo_wf(2) by (simp add: arena_wf_def)
  have "is_ok (fst (plan_exact [[False, False, True, False]] True (demo_arena 2)))" by code_simp
  then obtain r0 where p0: "plan_exact [[False, False, True, False]] True (demo_arena 2) = (Inr r0, stale_first)"
    unfolding stale_first_def by (blast dest: fst_ok)
  have "is_ok (fst (plan_exact [[False, False, False, True]] True (snd (device_claim 0 [0] stale_first))))" by code_simp
  then obtain r where p1: "plan_exact [[False, False, False, True]] True (snd (device_claim 0 [0] stale_first)) = (Inr r, stale_second)"
    unfolding stale_second_def by (blast dest: fst_ok)
  have ns: "no_stale stale_first" by code_simp
  have c1: "device_claim 0 [0] stale_first = (False, snd (device_claim 0 [0] stale_first))"
    by (rule not_needy) code_simp
  have c2: "device_claim 0 [1] stale_second = (False, snd (device_claim 0 [1] stale_second))"
    by (rule not_needy) code_simp
  have d1: "[0] = demand_of 0 [0] stale_first" by code_simp
  have d2: "[1] = demand_of 0 [1] stale_second" by code_simp
  have "ar_apb (demo_arena 2) = 4" "ar_BH (demo_arena 2) = 1" by (simp_all add: demo_arena_def)
  moreover have "ar_table stale_second ! 0 < 0" by code_simp
  ultimately show ?thesis
    using reset_keeps_stale_claims [OF ok p0 ns _ _ _ c1 p1 _ _ c2 d1 d2, of 0] by simp
qed

end
