(* ===== verification/Rola_State.thy ===== *)
theory Rola_State
  imports Rola_Paging_Props
begin

text \<open>
  The carried state (\<^verbatim>\<open>rola/_state.py\<close>): the format descriptor every kernel derives its
  addressing from, and \<^verbatim>\<open>RoLAState\<close>, which binds at the first call and is checked at every later
  one. The paged backing is the arena of the previous theories together with the arguments it
  was constructed from; the dense backing is the plane of pages.
\<close>

section \<open>The format descriptor\<close>

definition PAGE_RECTANGLE_BITS :: nat where "PAGE_RECTANGLE_BITS = bit_length 16 - 1"
definition CANONICAL_ORDER :: string where "CANONICAL_ORDER = ''mixed-radix-msb-first''"
definition SPLIT_PLANE_DTYPE :: string where "SPLIT_PLANE_DTYPE = ''fp32 as split bf16 planes''"
definition MIN_LEVEL_WIDTH :: nat where "MIN_LEVEL_WIDTH = 16"

record state_format =
  sf_D :: nat
  sf_B :: "nat list"
  sf_order :: string
  sf_page_bits :: nat
  sf_DV :: nat
  sf_dtype :: string
  sf_ids :: nat

definition format_N :: "state_format \<Rightarrow> nat" where
  "format_N f = foldl (*) 1 (sf_B f)"

definition format_cols :: "state_format \<Rightarrow> nat" where
  "format_cols f = sf_DV f + 1"

definition format_atoms_per_bh :: "state_format \<Rightarrow> nat" where
  "format_atoms_per_bh f = drop_bit (sf_page_bits f) (format_N f)"

definition format_page_bytes :: "state_format \<Rightarrow> nat" where
  "format_page_bytes f = push_bit (sf_page_bits f) 1 * format_cols f * 4"

definition unlawful_width :: "nat \<Rightarrow> bool" where
  "unlawful_width w \<longleftrightarrow> and w (w - 1) \<noteq> 0 \<or> w < MIN_LEVEL_WIDTH"

definition format_post_init :: "state_format \<Rightarrow> unit res" where
  "format_post_init f = checks
     [refuse (length (sf_B f) \<noteq> sf_D f) (ValueError ''levels and widths''),
      checks (map (\<lambda>w. refuse (unlawful_width w) (ValueError ''the axis law'')) (sf_B f)),
      refuse (sf_order f \<noteq> CANONICAL_ORDER) (ValueError ''the only leaf order''),
      refuse (sf_page_bits f \<noteq> PAGE_RECTANGLE_BITS) (ValueError ''the page rectangle''),
      refuse (sf_DV f mod 2 \<noteq> 0) (ValueError ''DV is even''),
      refuse (format_N f mod push_bit (sf_page_bits f) 1 \<noteq> 0) (ValueError ''there is no ragged state'')]"

definition make_format :: "state_format \<Rightarrow> state_format res" where
  "make_format f = rbind (format_post_init f) (\<lambda>_. Inr f)"

definition format_check :: "state_format \<Rightarrow> state_format \<Rightarrow> unit res" where
  "format_check mine theirs = checks
     [refuse (sf_D mine \<noteq> sf_D theirs) (ValueError ''D''),
      refuse (sf_B mine \<noteq> sf_B theirs) (ValueError ''B''),
      refuse (sf_order mine \<noteq> sf_order theirs) (ValueError ''order''),
      refuse (sf_page_bits mine \<noteq> sf_page_bits theirs) (ValueError ''page_bits''),
      refuse (sf_DV mine \<noteq> sf_DV theirs) (ValueError ''DV''),
      refuse (sf_dtype mine \<noteq> sf_dtype theirs) (ValueError ''dtype''),
      refuse (sf_ids mine \<noteq> sf_ids theirs) (ValueError ''ids'')]"

definition format_of :: "nat list \<Rightarrow> nat \<Rightarrow> nat \<Rightarrow> state_format res" where
  "format_of widths d_v BH =
     make_format \<lparr>sf_D = length widths, sf_B = widths, sf_order = CANONICAL_ORDER,
       sf_page_bits = PAGE_RECTANGLE_BITS, sf_DV = d_v, sf_dtype = SPLIT_PLANE_DTYPE,
       sf_ids = BH * drop_bit PAGE_RECTANGLE_BITS (foldl (*) 1 widths)\<rparr>"

section \<open>The state\<close>

record rola_state =
  rs_strategy :: string
  rs_slack :: rat
  rs_shape :: "(nat \<times> nat \<times> nat \<times> nat) option"
  rs_device :: "device option"
  rs_paging :: bool
  rs_arena :: "(arena_args \<times> arena) option"
  rs_plane :: "dense_plane option"
  rs_format :: "state_format option"

definition BUILT_STRATEGY :: string where "BUILT_STRATEGY = ''mutable''"
definition DESIGNED_STRATEGY :: string where "DESIGNED_STRATEGY = ''cow''"

definition make_state :: "string \<Rightarrow> rat \<Rightarrow> rola_state res" where
  "make_state strategy slack =
     (if strategy = DESIGNED_STRATEGY then Inl (NotImplementedError ''designed and not built'')
      else if strategy \<noteq> BUILT_STRATEGY then Inl (ValueError ''strategy'')
      else Inr \<lparr>rs_strategy = strategy, rs_slack = slack, rs_shape = None, rs_device = None,
                rs_paging = True, rs_arena = None, rs_plane = None, rs_format = None\<rparr>)"

definition bound :: "rola_state \<Rightarrow> bool" where "bound s \<longleftrightarrow> rs_shape s \<noteq> None"
definition state_paged :: "rola_state \<Rightarrow> bool" where "state_paged s \<longleftrightarrow> rs_arena s \<noteq> None"
definition carries :: "rola_state \<Rightarrow> bool" where
  "carries s \<longleftrightarrow> rs_arena s \<noteq> None \<or> rs_plane s \<noteq> None"

definition state_dtype :: "rola_state \<Rightarrow> dtype option" where
  "state_dtype s = (if carries s then Some Float32 else None)"

definition state_page_table :: "rola_state \<Rightarrow> int list option" where
  "state_page_table s = map_option (\<lambda>(g, a). ar_table a) (rs_arena s)"

definition wants_pages :: "bool \<Rightarrow> rola_state \<Rightarrow> bool" where
  "wants_pages paging s = (if bound s then rs_paging s else paging)"

text \<open>The routes of a call, as far as the state reads them.\<close>

record call_routes =
  rt_widths :: "nat list"
  rt_batch :: nat
  rt_heads :: nat
  rt_device :: device

definition state_BH :: "rola_state \<Rightarrow> nat" where
  "state_BH s = (case rs_shape s of Some (B, H, N, cols) \<Rightarrow> B * H | None \<Rightarrow> 0)"
definition state_cols :: "rola_state \<Rightarrow> nat" where
  "state_cols s = (case rs_shape s of Some (B, H, N, cols) \<Rightarrow> cols | None \<Rightarrow> 0)"
definition state_N :: "rola_state \<Rightarrow> nat" where
  "state_N s = (case rs_shape s of Some (B, H, N, cols) \<Rightarrow> N | None \<Rightarrow> 0)"

definition state_keying :: "rola_state \<Rightarrow> keying res" where
  "state_keying s =
     (case rs_shape s of None \<Rightarrow> Inl (TypeError ''cannot unpack'')
      | Some (B, H, N, cols) \<Rightarrow> make_keying N cols (B * H))"

definition new_arena_args :: "nat list \<Rightarrow> nat \<Rightarrow> rola_state \<Rightarrow> arena_args" where
  "new_arena_args widths BC s =
     \<lparr>aa_widths = widths, aa_BC = BC, aa_cols = state_cols s, aa_BH = state_BH s,
      aa_device = (case rs_device s of Some d \<Rightarrow> d | None \<Rightarrow> Cpu), aa_extent = None,
      aa_backing = Auto, aa_slack = rs_slack s\<rparr>"

definition new_arena :: "platform \<Rightarrow> nat list \<Rightarrow> nat \<Rightarrow> rola_state \<Rightarrow> (arena_args \<times> arena) res" where
  "new_arena pf widths BC s =
     rbind (state_keying s) (\<lambda>_.
     rbind (make_arena pf (new_arena_args widths BC s)) (\<lambda>a. Inr (new_arena_args widths BC s, a)))"

text \<open>\<^verbatim>\<open>x.reshape(rows, cols)\<close> of a flat tensor.\<close>

definition reshape2 :: "nat \<Rightarrow> nat \<Rightarrow> 'a list \<Rightarrow> 'a list list res" where
  "reshape2 rows cols xs =
     (if length xs \<noteq> rows * cols then Inl (RuntimeError ''shape is invalid for input'')
      else Inr (map (\<lambda>r. take cols (drop (r * cols) xs)) [0..<rows]))"

definition ATOM_WRITTEN :: "8 word" where "ATOM_WRITTEN = 1"
definition ATOM_READ :: "8 word" where "ATOM_READ = 2"

definition written_atoms :: "8 word list \<Rightarrow> bool list" where
  "written_atoms bits = map (\<lambda>b. and b ATOM_WRITTEN \<noteq> 0) bits"
definition read_atoms :: "8 word list \<Rightarrow> bool list" where
  "read_atoms bits = map (\<lambda>b. and b ATOM_READ \<noteq> 0) bits"

text \<open>A plan over a bitmap that may be \<^verbatim>\<open>None\<close>: the attribute access raises after the reset.\<close>

definition plan_bits :: "bool list list option \<Rightarrow> bool \<Rightarrow> arena \<Rightarrow> (paging_result, arena) step" where
  "plan_bits bits fresh a =
     (case bits of Some b \<Rightarrow> plan_exact b fresh a
      | None \<Rightarrow>
          let raise = (\<lambda>a. (Inl (AttributeError ''NoneType has no attribute shape''), a)) in
          if fresh then sbind (arena_reset a) (\<lambda>_ a. raise a) else raise a)"

definition bind_state :: "call_routes \<Rightarrow> nat \<Rightarrow> bool \<Rightarrow> state_format \<Rightarrow> rola_state \<Rightarrow> rola_state" where
  "bind_state rt d_v paging f s =
     s\<lparr>rs_shape := Some (rt_batch rt, rt_heads rt, prod_list (rt_widths rt), d_v + 1),
       rs_device := Some (rt_device rt), rs_paging := paging, rs_format := Some f\<rparr>"

definition bind_or_check :: "call_routes \<Rightarrow> nat \<Rightarrow> bool \<Rightarrow> rola_state \<Rightarrow> (unit, rola_state) step" where
  "bind_or_check rt d_v paging s =
     (case format_of (rt_widths rt) d_v (rt_batch rt * rt_heads rt) of
        Inl e \<Rightarrow> (Inl e, s)
      | Inr presented \<Rightarrow>
          if \<not> bound s then (Inr (), bind_state rt d_v paging presented s)
          else (case rs_format s of
              None \<Rightarrow> (Inl (AttributeError ''NoneType has no attribute check''), s)
            | Some mine \<Rightarrow> (format_check mine presented, s)))"

definition entry_bitmap :: "8 word list option \<Rightarrow> rola_state \<Rightarrow> bool list list option res" where
  "entry_bitmap atom_bits s =
     (case atom_bits of None \<Rightarrow> Inr None
      | Some bits \<Rightarrow>
          rbind (state_keying s) (\<lambda>k.
          rbind (reshape2 (state_BH s) (atoms_per_bh k) bits) (\<lambda>rows.
            Inr (Some (map written_atoms rows)))))"

definition kernel_entry ::
    "platform \<Rightarrow> call_routes \<Rightarrow> 8 word list option \<Rightarrow> nat \<Rightarrow> bool \<Rightarrow> nat \<Rightarrow> rola_state
     \<Rightarrow> (page list option \<times> arena option, rola_state) step" where
  "kernel_entry pf rt atom_bits d_v paging BC s =
     sbind (bind_or_check rt d_v paging s) (\<lambda>_ s.
       case entry_bitmap atom_bits s of Inl e \<Rightarrow> (Inl e, s)
       | Inr bitmap \<Rightarrow>
         (case rs_arena s of
            Some (g, a) \<Rightarrow>
              (case plan_bits bitmap False a of
                 (Inl e, b) \<Rightarrow> (Inl e, s\<lparr>rs_arena := Some (g, b)\<rparr>)
               | (Inr _, b) \<Rightarrow> (Inr (Some (arena_plane b), Some b), s\<lparr>rs_arena := Some (g, b)\<rparr>))
          | None \<Rightarrow>
              (case rs_plane s of
                 Some d \<Rightarrow> (Inr (Some (dp_pages d), None), s)
               | None \<Rightarrow>
                   if \<not> rs_paging s then (Inr (None, None), s)
                   else
                     (case new_arena pf (rt_widths rt) BC s of
                        Inl e \<Rightarrow> (Inl e, s)
                      | Inr (g, a) \<Rightarrow>
                          (case plan_bits bitmap True a of
                             (Inl e, _) \<Rightarrow> (Inl e, s)
                           | (Inr _, b) \<Rightarrow> (Inr (None, Some b), s\<lparr>rs_arena := Some (g, b)\<rparr>))))))"

definition kernel_commit :: "dense_plane \<Rightarrow> rola_state \<Rightarrow> rola_state" where
  "kernel_commit plane s =
     (if rs_arena s = None \<and> rs_plane s = None then s\<lparr>rs_plane := Some plane\<rparr> else s)"

definition require_carrying :: "rola_state \<Rightarrow> unit res" where
  "require_carrying s =
     refuse (\<not> carries s) (RuntimeError ''a decode step continues a carried state'')"

definition decode_entry :: "call_routes \<Rightarrow> rola_state \<Rightarrow> (page list \<times> int list option \<times> arena option) res" where
  "decode_entry rt s =
     rbind (require_carrying s) (\<lambda>_.
       case rs_format s of None \<Rightarrow> Inl (AttributeError ''NoneType has no attribute check'')
       | Some mine \<Rightarrow>
           rbind (format_of (rt_widths rt) (sf_DV mine) (state_BH s)) (\<lambda>presented.
           rbind (format_check mine presented) (\<lambda>_.
             case rs_arena s of
               Some (g, a) \<Rightarrow> Inr (arena_plane a, Some (ar_table a), Some a)
             | None \<Rightarrow> (case rs_plane s of
                  Some d \<Rightarrow> Inr (dp_pages d, None, None)
                | None \<Rightarrow> Inl (AttributeError ''NoneType has no attribute view'')))))"

definition decode_entry_arena :: "bool list \<Rightarrow> rola_state \<Rightarrow> (arena, rola_state) step" where
  "decode_entry_arena bitmap s =
     (case rs_arena s of
        None \<Rightarrow> (Inl (RuntimeError ''a growth admission wants a paged state; this one is dense''), s)
      | Some (g, a) \<Rightarrow>
          (case rbind (state_keying s) (\<lambda>k. reshape2 (state_BH s) (atoms_per_bh k) bitmap) of
             Inl e \<Rightarrow> (Inl e, s)
           | Inr rows \<Rightarrow>
               (case plan_exact rows False a of
                  (Inl e, b) \<Rightarrow> (Inl e, s\<lparr>rs_arena := Some (g, b)\<rparr>)
                | (Inr _, b) \<Rightarrow> (Inr b, s\<lparr>rs_arena := Some (g, b)\<rparr>))))"

section \<open>Reading and copying a state\<close>

definition raw_rows :: "nat \<Rightarrow> page \<Rightarrow> row list" where
  "raw_rows cols pg = map (\<lambda>r. take cols (drop (r * cols) pg)) [0..<16]"

definition state_materialize :: "rola_state \<Rightarrow> row list option res" where
  "state_materialize s =
     (if \<not> carries s then Inr None
      else (case rs_arena s of
          Some (g, a) \<Rightarrow> rbind (materialize a) (\<lambda>rows. Inr (Some rows))
        | None \<Rightarrow> Inr (map_option (\<lambda>d. concat (map (raw_rows (dp_cols d)) (dp_pages d))) (rs_plane s))))"

definition residency :: "arena \<Rightarrow> bool list list" where
  "residency a = map (\<lambda>bh. map (\<lambda>x. 0 \<le> ar_table a ! (bh * ar_apb a + x)) [0..<ar_apb a]) [0..<ar_BH a]"

definition copy_pages :: "arena \<Rightarrow> arena \<Rightarrow> arena" where
  "copy_pages src dst =
     (let present = filter (\<lambda>i. 0 \<le> ar_table src ! i) [0..<length (ar_table src)] in
      dst\<lparr>ar_base := index_copy (ar_base dst) (map (\<lambda>i. nat (ar_table dst ! i)) present)
             (index_select (ar_base src) (map (\<lambda>i. nat (ar_table src ! i)) present))\<rparr>)"

definition bind_copy :: "rola_state \<Rightarrow> rola_state \<Rightarrow> rola_state" where
  "bind_copy s out = out\<lparr>rs_shape := rs_shape s, rs_device := rs_device s, rs_paging := rs_paging s,
     rs_format := rs_format s\<rparr>"

definition state_clone :: "platform \<Rightarrow> string option \<Rightarrow> rola_state \<Rightarrow> rola_state res" where
  "state_clone pf strategy s =
     rbind (make_state (case strategy of None \<Rightarrow> rs_strategy s | Some t \<Rightarrow> t) (rs_slack s)) (\<lambda>out.
     if \<not> bound s then Inr out else
     case rs_arena s of
          None \<Rightarrow> Inr (case rs_plane s of None \<Rightarrow> bind_copy s out
                   | Some d \<Rightarrow> (bind_copy s out)\<lparr>rs_plane := Some d\<rparr>)
        | Some (g, a) \<Rightarrow>
            rbind (new_arena pf (aa_widths g) (aa_BC g) (bind_copy s out)) (\<lambda>(h, c).
            case plan_exact (residency a) True c of
              (Inl e, _) \<Rightarrow> Inl e
            | (Inr _, b) \<Rightarrow> Inr ((bind_copy s out)\<lparr>rs_arena := Some (h, copy_pages a b)\<rparr>)))"

end
