(* ===== verification/Rola_State_Props.thy ===== *)
theory Rola_State_Props
  imports Rola_State
begin

text \<open>
  The properties of the carried state: the format it owns is lawful and page aligned, binds once
  and refuses every later call that disagrees; the invariant holds after every sequence of
  operations; a clone reads like its source; and the dense backing's \<^verbatim>\<open>materialize\<close> is not the
  paged one's.
\<close>

section \<open>The format\<close>

lemma PAGE_RECTANGLE_BITS_eq [simp]: "PAGE_RECTANGLE_BITS = 4"
  by code_simp

lemma unlawful_width_iff: "unlawful_width w \<longleftrightarrow> \<not> (is_pow2 w \<and> 16 \<le> w)"
proof (cases "w = 0")
  case False
  then show ?thesis using and_minus_one_pow2_aux [of w] by (auto simp: unlawful_width_def MIN_LEVEL_WIDTH_def)
qed (simp add: unlawful_width_def MIN_LEVEL_WIDTH_def)

lemma foldl_times_prod: "foldl (*) x ws = x * prod_list (ws :: nat list)"
  by (induction ws arbitrary: x) (simp_all add: mult.assoc)

lemma format_N_prod: "format_N f = prod_list (sf_B f)"
  by (simp add: format_N_def foldl_times_prod)

lemma is_ok_checks [simp]: "is_ok (checks cs) \<longleftrightarrow> (\<forall>c\<in>set cs. is_ok c)"
  by (auto simp: is_ok_iff [of "checks cs"])

lemma page_aligned_prod:
  "ws \<noteq> [] \<Longrightarrow> \<forall>w\<in>set ws. is_pow2 w \<and> 16 \<le> w \<Longrightarrow> 16 dvd prod_list (ws :: nat list)"
proof (induction ws)
  case (Cons w ws)
  have "is_pow2 (16 :: nat)" using is_pow2_power [of 4] by simp
  then have "16 dvd w" using Cons.prems by (intro is_pow2_dvd) auto
  then show ?case by simp
qed simp

definition lawful_format :: "state_format \<Rightarrow> bool" where
  "lawful_format f \<longleftrightarrow> length (sf_B f) = sf_D f \<and> (\<forall>w\<in>set (sf_B f). is_pow2 w \<and> 16 \<le> w)
     \<and> sf_order f = CANONICAL_ORDER \<and> sf_page_bits f = 4 \<and> even (sf_DV f) \<and> format_N f mod 16 = 0"

lemma make_format_Inr: "make_format f = Inr g \<longleftrightarrow> lawful_format f \<and> g = f"
  by (auto simp: make_format_def res_simps format_post_init_def lawful_format_def unlawful_width_iff
      odd_iff_mod_2_eq_one)

lemma format_check_Inr: "format_check f g = Inr u \<longleftrightarrow> f = g"
  by (auto simp: format_check_def simp del: checks.simps intro: state_format.equality)

lemma checks_widths: "checks (map (\<lambda>w. refuse (P w) e) ws) = (if \<exists>w\<in>set ws. P w then Inl e else Inr ())"
  by (induction ws) (auto simp: refuse_def)

lemma format_of_Inr:
  "format_of ws d BH = Inr f \<longleftrightarrow> lawful_format f \<and>
     f = \<lparr>sf_D = length ws, sf_B = ws, sf_order = CANONICAL_ORDER, sf_page_bits = 4, sf_DV = d,
          sf_dtype = SPLIT_PLANE_DTYPE, sf_ids = BH * (prod_list ws div 16)\<rparr>"
  by (auto simp: format_of_def make_format_Inr foldl_times_prod drop_bit_eq_div)

text \<open>
  A descriptor is accepted exactly when it is lawful. The last clause, against a
  ragged leaf count, then refuses only the descriptor with no level at all: whenever there is a
  level, the clauses before it have already made the state page aligned.
\<close>

theorem format_accepts_lawful:
  assumes "sf_B f \<noteq> []"
  shows "(make_format f = Inr f \<longleftrightarrow>
      length (sf_B f) = sf_D f \<and> (\<forall>w\<in>set (sf_B f). is_pow2 w \<and> 16 \<le> w)
      \<and> sf_order f = CANONICAL_ORDER \<and> sf_page_bits f = 4 \<and> even (sf_DV f))
    \<and> make_format f \<noteq> Inl (ValueError ''there is no ragged state'')
    \<and> (is_ok (make_format f) \<longrightarrow> format_atoms_per_bh f * 16 = prod_list (sf_B f)
         \<and> format_atoms_per_bh f * format_page_bytes f = prod_list (sf_B f) * format_cols f * 4)"
proof -
  have al: "format_N f mod 16 = 0" if "\<forall>w\<in>set (sf_B f). is_pow2 w \<and> 16 \<le> w"
    using page_aligned_prod [OF assms that] by (simp add: format_N_prod)
  have "make_format f \<noteq> Inl (ValueError ''there is no ragged state'')"
  proof
    assume "make_format f = Inl (ValueError ''there is no ragged state'')"
    then show False using al
      by (auto simp: make_format_def rbind_Inl_iff format_post_init_def checks_widths unlawful_width_iff
          split: if_splits)
  qed
  moreover have "is_ok (make_format f) \<longrightarrow> format_atoms_per_bh f * 16 = prod_list (sf_B f)
      \<and> format_atoms_per_bh f * format_page_bytes f = prod_list (sf_B f) * format_cols f * 4"
    by (auto simp: is_ok_iff make_format_Inr lawful_format_def format_atoms_per_bh_def drop_bit_eq_div
        format_N_prod format_page_bytes_def)
  ultimately show ?thesis using al by (auto simp: make_format_Inr lawful_format_def)
qed

theorem format_accepts_lawful_witness:
  "(let f = \<lparr>sf_D = 2, sf_B = [16, 64], sf_order = CANONICAL_ORDER, sf_page_bits = 4, sf_DV = 8,
             sf_dtype = SPLIT_PLANE_DTYPE, sf_ids = 64\<rparr> in
    make_format f = Inr f \<and> format_atoms_per_bh f * format_page_bytes f = 1024 * 9 * 4)"
  using format_accepts_lawful [of "\<lparr>sf_D = 2, sf_B = [16, 64], sf_order = CANONICAL_ORDER, sf_page_bits = 4,
      sf_DV = 8, sf_dtype = SPLIT_PLANE_DTYPE, sf_ids = 64\<rparr>"] is_pow2_power [of 4] is_pow2_power [of 6]
  by (simp add: format_cols_def format_page_bytes_def)

section \<open>The invariant of the state\<close>

definition arena_fits :: "platform \<Rightarrow> rola_state \<Rightarrow> arena_args \<Rightarrow> arena \<Rightarrow> bool" where
  "arena_fits pf s g a \<longleftrightarrow> arena_wf a \<and> g = new_arena_args (aa_widths g) (aa_BC g) s
     \<and> (\<exists>a0. make_arena pf g = Inr a0 \<and> same_dims a0 a)"

definition bound_ok :: "platform \<Rightarrow> nat \<Rightarrow> nat \<Rightarrow> nat \<Rightarrow> nat \<Rightarrow> state_format \<Rightarrow> rola_state \<Rightarrow> bool" where
  "bound_ok pf B H N cols f s \<longleftrightarrow> format_of (sf_B f) (sf_DV f) (B * H) = Inr f
     \<and> N = prod_list (sf_B f) \<and> cols = sf_DV f + 1
     \<and> (case rs_arena s of None \<Rightarrow> True
        | Some ga \<Rightarrow> aa_widths (fst ga) = sf_B f \<and> arena_fits pf s (fst ga) (snd ga) \<and> rs_plane s = None)
     \<and> (case rs_plane s of None \<Rightarrow> True
        | Some d \<Rightarrow> dense_ok d \<and> dp_cols d = cols \<and> length (dp_pages d) = B * H * (N div 16))"

definition state_ok :: "platform \<Rightarrow> rola_state \<Rightarrow> bool" where
  "state_ok pf s \<longleftrightarrow> rs_strategy s = BUILT_STRATEGY
     \<and> (case (rs_shape s, rs_format s) of
          (None, None) \<Rightarrow> rs_arena s = None \<and> rs_plane s = None
        | (Some (B, H, N, cols), Some f) \<Rightarrow> bound_ok pf B H N cols f s
        | _ \<Rightarrow> False)"

lemma state_ok_make: "make_state st sl = Inr s \<Longrightarrow> state_ok pf s \<and> \<not> bound s"
  by (auto simp: make_state_def state_ok_def bound_def split: if_splits)

lemma format_of_aligned: "format_of ws d BH = Inr f \<Longrightarrow> prod_list ws mod 16 = 0"
  by (auto simp: format_of_Inr lawful_format_def format_N_prod)

lemma state_okE:
  assumes "state_ok pf s" "bound s"
  obtains B H f where "rs_shape s = Some (B, H, prod_list (sf_B f), sf_DV f + 1)" "rs_format s = Some f"
    "format_of (sf_B f) (sf_DV f) (B * H) = Inr f" "state_BH s = B * H" "state_cols s = sf_DV f + 1"
    "state_keying s = Inr \<lparr>k_N = prod_list (sf_B f), k_cols = sf_DV f + 1, k_BH = B * H\<rparr>"
    "bound_ok pf B H (prod_list (sf_B f)) (sf_DV f + 1) f s"
proof -
  obtain B H N cols where sh: "rs_shape s = Some (B, H, N, cols)"
    using assms(2) by (auto simp: bound_def)
  with assms(1) obtain f where f: "rs_format s = Some f" "bound_ok pf B H N cols f s"
    by (auto simp: state_ok_def split: option.splits)
  then have n: "N = prod_list (sf_B f)" "cols = sf_DV f + 1" "format_of (sf_B f) (sf_DV f) (B * H) = Inr f"
    by (simp_all add: bound_ok_def)
  have "state_keying s = Inr \<lparr>k_N = N, k_cols = cols, k_BH = B * H\<rparr>"
    using n format_of_aligned [OF n(3)] sh by (simp add: state_keying_def make_keying_def)
  with that sh f n show thesis by (simp add: state_BH_def state_cols_def)
qed

lemma state_ok_unbound: "state_ok pf s \<Longrightarrow> \<not> bound s \<Longrightarrow> rs_arena s = None \<and> rs_plane s = None"
  by (cases "rs_shape s"; cases "rs_format s") (auto simp: state_ok_def bound_def)

lemma state_okI:
  assumes "rs_strategy s = BUILT_STRATEGY" "rs_shape s = Some (B, H, N, cols)" "rs_format s = Some f"
    "bound_ok pf B H N cols f s"
  shows "state_ok pf s"
  using assms by (simp add: state_ok_def)

lemma state_ok_strategy: "state_ok pf s \<Longrightarrow> rs_strategy s = BUILT_STRATEGY"
  by (simp add: state_ok_def)

lemma arena_fits_dims:
  assumes "arena_fits pf s g a" "platform_ok pf"
  shows "ar_BH a = state_BH s" "ar_cols a = state_cols s" "ar_apb a * 16 = prod_list (aa_widths g)"
    "arena_ok a" "no_stale a" "arena_wf a"
proof -
  obtain a0 where a0: "make_arena pf g = Inr a0" "same_dims a0 a"
    and g: "g = new_arena_args (aa_widths g) (aa_BC g) s"
    using assms(1) by (auto simp: arena_fits_def)
  note m = make_arena_ok [OF a0(1) assms(2)]
  have "aa_BH g = state_BH s" "aa_cols g = state_cols s" by (subst g, simp add: new_arena_args_def)+
  then show "ar_BH a = state_BH s" "ar_cols a = state_cols s" "ar_apb a * 16 = prod_list (aa_widths g)"
    using m a0(2) by (simp_all add: same_dims_def)
  show "arena_ok a" "no_stale a" "arena_wf a" using assms(1) by (simp_all add: arena_fits_def arena_wf_def)
qed

lemma arena_fits_step: "arena_fits pf s g a \<Longrightarrow> arena_wf b \<Longrightarrow> same_dims a b \<Longrightarrow> arena_fits pf s g b"
  by (auto simp: arena_fits_def intro: same_dims_trans)

lemma arena_fits_cong:
  "rs_shape t = rs_shape s \<Longrightarrow> rs_device t = rs_device s \<Longrightarrow> rs_slack t = rs_slack s
   \<Longrightarrow> arena_fits pf t g a = arena_fits pf s g a"
  by (simp add: arena_fits_def new_arena_args_def state_BH_def state_cols_def)

lemma state_ok_arena:
  assumes "state_ok pf s" "bound s" "rs_plane s = None" "aa_widths g = sf_B (the (rs_format s))" "arena_fits pf s g b"
  shows "state_ok pf (s\<lparr>rs_arena := Some (g, b)\<rparr>)"
proof -
  obtain B H f where f: "rs_shape s = Some (B, H, prod_list (sf_B f), sf_DV f + 1)" "rs_format s = Some f"
    "bound_ok pf B H (prod_list (sf_B f)) (sf_DV f + 1) f s"
    by (rule state_okE [OF assms(1,2)])
  have "arena_fits pf (s\<lparr>rs_arena := Some (g, b)\<rparr>) g b"
    using assms(5) by (subst arena_fits_cong [of _ s]) simp_all
  then have "bound_ok pf B H (prod_list (sf_B f)) (sf_DV f + 1) f (s\<lparr>rs_arena := Some (g, b)\<rparr>)"
    using f(2,3) assms(3,4) by (simp add: bound_ok_def)
  moreover have "rs_strategy (s\<lparr>rs_arena := Some (g, b)\<rparr>) = BUILT_STRATEGY"
    using state_ok_strategy [OF assms(1)] by simp
  ultimately show ?thesis using f(1,2) by (simp add: state_ok_def)
qed

lemma state_ok_arenaD:
  assumes "state_ok pf s" "rs_arena s = Some (g, a)"
  shows "bound s" "rs_plane s = None" "aa_widths g = sf_B (the (rs_format s))" "arena_fits pf s g a"
proof -
  show b: "bound s" using assms state_ok_unbound by fastforce
  show "rs_plane s = None" "aa_widths g = sf_B (the (rs_format s))" "arena_fits pf s g a"
    by (rule state_okE [OF assms(1) b], use assms(2) in \<open>simp add: bound_ok_def\<close>)+
qed

text \<open>What a plan over a bitmap of the right shape does to the arena of a state.\<close>

lemma plan_wf:
  assumes "arena_wf a" "bitmap_shape_ok bits a" "plan_exact bits fresh a = (r, b)"
  shows "arena_ok b" "same_dims a b" "\<not> fresh \<Longrightarrow> arena_wf b \<and> materialize b = materialize a"
    "fresh \<Longrightarrow> ar_table a = replicate (logical_pages a) ABSENT \<Longrightarrow> arena_wf b"
    "r = Inr q \<Longrightarrow> i < logical_pages a \<Longrightarrow> concat bits ! i \<Longrightarrow> 0 \<le> ar_table b ! i"
    "fresh \<Longrightarrow> i < logical_pages a \<Longrightarrow> page_at b i = blank_page (ar_cols a)"
proof -
  have ok: "arena_ok a" "no_stale a" using assms(1) by (simp_all add: arena_wf_def)
  obtain c where c: "(if fresh then arena_reset a else (Inr (), a)) = (Inr (), c)" "arena_ok c" "same_dims a c"
    "length (ar_table c) = length (ar_table a)" "ar_pool_map c = ar_pool_map a"
    "fresh \<longrightarrow> ar_table c = replicate (length (ar_table a)) ABSENT"
    using arena_reset_ok [OF ok(1)] ok(1) by (cases fresh) auto
  have sh: "bitmap_shape_ok bits c" using assms(2) c(3) by (simp add: bitmap_shape_ok_def same_dims_def)
  have pl: "plan_union bits c = (r, b)" using assms(3) c(1) by (cases fresh) (simp_all add: plan_exact_def)
  have len: "length (ar_table a) = logical_pages a" using assms(1) by (rule table_length)
  have all: "arena_ok b \<and> same_dims a b \<and> (\<not> fresh \<longrightarrow> no_stale b \<and> materialize b = materialize a)
    \<and> length (ar_table b) = length (ar_table a) \<and> ar_pool_map b = ar_pool_map a
    \<and> (\<forall>q. r = Inr q \<longrightarrow> (\<forall>i<logical_pages a. concat bits ! i \<longrightarrow> 0 \<le> ar_table b ! i))
    \<and> (\<forall>i<logical_pages a. page_at b i = page_at c i)"
  proof (cases rule: plan_union_ok [OF c(2) sh])
    case (1 e)
    with pl c ok(2) show ?thesis by (cases fresh) auto
  next
    case (2 q d)
    with pl have bd: "d = b" by simp
    note p = 2(2-7) [unfolded bd]
    have "no_stale b \<and> materialize b = materialize a" if "\<not> fresh"
    proof -
      have ca: "c = a" using c(1) that by simp
      have "no_stale b" using p(3,5,6) len by (intro no_stale_keep [OF ok(2)]) (auto simp: ca)
      moreover have "materialize b = materialize a"
        using p(2,4,5) by (intro materialize_cong) (auto simp: same_dims_def ca)
      ultimately show ?thesis by simp
    qed
    with p c(3-5) same_dims_trans len show ?thesis by auto
  qed
  then show "arena_ok b" "same_dims a b" "\<not> fresh \<Longrightarrow> arena_wf b \<and> materialize b = materialize a"
    by (simp_all add: arena_wf_def)
  show "arena_wf b" if "ar_table a = replicate (logical_pages a) ABSENT"
  proof -
    have "\<not> 0 \<le> ar_pool_map a ! i" if "i < logical_pages a" for i
      using ok(2) that \<open>ar_table a = _\<close> by (auto simp: no_stale_def ABSENT_def)
    with all len show ?thesis by (simp add: arena_wf_def no_stale_def)
  qed
  show "r = Inr q \<Longrightarrow> i < logical_pages a \<Longrightarrow> concat bits ! i \<Longrightarrow> 0 \<le> ar_table b ! i"
    using all by blast
  show "page_at b i = blank_page (ar_cols a)" if "fresh" "i < logical_pages a"
    using all c(3,6) that len by (simp add: page_at_def ABSENT_def same_dims_def)
qed

definition same_binding :: "rola_state \<Rightarrow> rola_state \<Rightarrow> bool" where
  "same_binding s t \<longleftrightarrow> rs_shape t = rs_shape s \<and> rs_device t = rs_device s \<and> rs_paging t = rs_paging s
     \<and> rs_format t = rs_format s \<and> rs_strategy t = rs_strategy s \<and> rs_slack t = rs_slack s"

lemma same_binding_simps [simp]: "same_binding s s" "same_binding s (s\<lparr>rs_arena := x\<rparr>)"
  by (simp_all add: same_binding_def)

lemma bind_or_check_cases:
  assumes "state_ok pf s"
  obtains (refused) e where "bind_or_check rt d_v paging s = (Inl e, s)"
      "bound s \<Longrightarrow> format_of (rt_widths rt) d_v (rt_batch rt * rt_heads rt) \<noteq> Inr (the (rs_format s))"
  | (binds) t where "\<not> bound s" "bind_or_check rt d_v paging s = (Inr (), t)" "state_ok pf t" "bound t"
      "rs_arena t = None" "rs_plane t = None" "rt_widths rt = sf_B (the (rs_format t))"
  | (kept) "bound s" "bind_or_check rt d_v paging s = (Inr (), s)"
      "format_of (rt_widths rt) d_v (rt_batch rt * rt_heads rt) = Inr (the (rs_format s))"
      "rt_widths rt = sf_B (the (rs_format s))"
proof (cases "format_of (rt_widths rt) d_v (rt_batch rt * rt_heads rt)")
  case (Inl e)
  then show thesis by (intro refused [of e]) (simp_all add: bind_or_check_def)
next
  case (Inr p)
  then have p: "sf_B p = rt_widths rt" "sf_DV p = d_v" by (auto simp: format_of_Inr)
  show thesis
  proof (cases "bound s")
    case False
    let ?t = "bind_state rt d_v paging p s"
    note u = state_ok_unbound [OF assms False]
    show thesis
    proof (rule binds [of ?t])
      show "state_ok pf ?t"
        using Inr p u state_ok_strategy [OF assms]
        by (simp add: state_ok_def bind_state_def bound_ok_def)
    qed (use False Inr p u in \<open>simp_all add: bind_or_check_def bind_state_def bound_def\<close>)
  next
    case True
    then obtain f where f: "rs_format s = Some f" by (rule state_okE [OF assms]) simp
    show thesis
    proof (cases "f = p")
      case True
      with \<open>bound s\<close> f Inr p show thesis
        by (intro kept) (simp_all add: bind_or_check_def format_check_Inr)
    next
      case False
      then obtain e where "format_check f p = Inl e"
        using format_check_Inr [of f p] by (cases "format_check f p") auto
      with \<open>bound s\<close> f Inr False show thesis by (intro refused [of e]) (simp_all add: bind_or_check_def)
    qed
  qed
qed

lemma entry_bitmap_shape:
  assumes "state_ok pf s" "bound s" "entry_bitmap bits s = Inr (Some rows)"
  shows "length rows = state_BH s" "\<forall>r\<in>set rows. length r * 16 = prod_list (sf_B (the (rs_format s)))"
    "\<exists>bs. bits = Some bs \<and> concat rows = written_atoms bs"
proof -
  obtain B H f where f: "rs_format s = Some f" "format_of (sf_B f) (sf_DV f) (B * H) = Inr f"
    "state_keying s = Inr \<lparr>k_N = prod_list (sf_B f), k_cols = sf_DV f + 1, k_BH = B * H\<rparr>"
    by (rule state_okE [OF assms(1,2)])
  let ?n = "prod_list (sf_B f) div 16"
  from assms(3) f(3) obtain bs where bs: "bits = Some bs" "length bs = state_BH s * ?n"
    "rows = map written_atoms (map (\<lambda>r. take ?n (drop (r * ?n) bs)) [0..<state_BH s])"
    by (auto simp: entry_bitmap_def res_simps reshape2_def atoms_per_bh_def split: option.splits if_splits)
  have n: "?n * 16 = prod_list (sf_B f)" using format_of_aligned [OF f(2)] by auto
  show "length rows = state_BH s" by (simp add: bs(3))
  show "\<forall>r\<in>set rows. length r * 16 = prod_list (sf_B (the (rs_format s)))"
    using length_chunk [OF bs(2)] n f(1) by (auto simp: bs(3) written_atoms_def)
  have "concat rows = written_atoms (concat (map (\<lambda>r. take ?n (drop (r * ?n) bs)) [0..<state_BH s]))"
    by (simp add: bs(3) written_atoms_def [abs_def] map_concat del: map_map)
  then show "\<exists>bs. bits = Some bs \<and> concat rows = written_atoms bs"
    using bs(1) concat_chunks [OF bs(2)] by simp
qed

lemma entry_bitmap_ok:
  assumes "state_ok pf s" "bound s" "entry_bitmap bits s = Inr (Some rows)" "platform_ok pf"
    "arena_fits pf s g a" "aa_widths g = sf_B (the (rs_format s))"
  shows "bitmap_shape_ok rows a"
  using entry_bitmap_shape [OF assms(1-3)] arena_fits_dims [OF assms(5,4)] assms(6)
  by (auto simp: bitmap_shape_ok_def)

lemma new_arena_fits:
  assumes "new_arena pf ws BC s = Inr (g, a)" "platform_ok pf"
  shows "arena_fits pf s g a" "aa_widths g = ws" "aa_BC g = BC" "ar_table a = replicate (logical_pages a) ABSENT"
  using assms make_arena_ok [OF _ assms(2)]
  by (auto simp: new_arena_def res_simps arena_fits_def new_arena_args_def)

definition written_resident :: "8 word list option \<Rightarrow> rola_state \<Rightarrow> bool" where
  "written_resident bits s =
     (case (bits, rs_arena s) of
        (Some bs, Some ga) \<Rightarrow>
          \<forall>i<length bs. written_atoms bs ! i \<longrightarrow> i < logical_pages (snd ga) \<longrightarrow> 0 \<le> ar_table (snd ga) ! i
      | _ \<Rightarrow> True)"

text \<open>The continuation of a paged state: the plan of its own arena.\<close>

lemma entry_arena:
  assumes "state_ok pf s" "platform_ok pf" "rs_arena s = Some (g, a)" "entry_bitmap bits s = Inr bitmap"
    "plan_bits bitmap False a = (r, b)"
  shows "state_ok pf (s\<lparr>rs_arena := Some (g, b)\<rparr>)" "materialize b = materialize a"
    "is_ok r \<Longrightarrow> written_resident bits (s\<lparr>rs_arena := Some (g, b)\<rparr>)"
proof -
  note d = state_ok_arenaD [OF assms(1,3)]
  note fit = arena_fits_dims [OF d(4) assms(2)]
  have *: "arena_wf b \<and> same_dims a b \<and> materialize b = materialize a
     \<and> (is_ok r \<longrightarrow> written_resident bits (s\<lparr>rs_arena := Some (g, b)\<rparr>))"
  proof (cases bitmap)
    case None
    with assms(5) fit(6) show ?thesis by (auto simp: plan_bits_def)
  next
    case (Some rows)
    note eb = assms(4) [unfolded Some]
    have sh: "bitmap_shape_ok rows a" by (rule entry_bitmap_ok [OF assms(1) d(1) eb assms(2) d(4,3)])
    have pl: "plan_exact rows False a = (r, b)" using assms(5) Some by (simp add: plan_bits_def)
    note w = plan_wf [OF fit(6) sh pl]
    obtain bs where bs: "bits = Some bs" "concat rows = written_atoms bs"
      using entry_bitmap_shape(3) [OF assms(1) d(1) eb] by auto
    have lp: "logical_pages b = logical_pages a" by (rule same_dims_logical [OF w(2)])
    have "is_ok r \<longrightarrow> written_resident bits (s\<lparr>rs_arena := Some (g, b)\<rparr>)"
      using w(5) bs lp by (auto simp: written_resident_def is_ok_iff)
    with w(2,3) show ?thesis by simp
  qed
  then have fb: "arena_fits pf s g b" using arena_fits_step [OF d(4)] by blast
  show "state_ok pf (s\<lparr>rs_arena := Some (g, b)\<rparr>)" by (rule state_ok_arena [OF assms(1) d(1-3) fb])
  show "materialize b = materialize a" "is_ok r \<Longrightarrow> written_resident bits (s\<lparr>rs_arena := Some (g, b)\<rparr>)"
    using * by simp_all
qed

lemma fresh_arena:
  assumes "state_ok pf s" "platform_ok pf" "bound s" "rs_arena s = None" "rs_plane s = None"
    "new_arena pf (sf_B (the (rs_format s))) BC s = Inr (g, a)"
    "entry_bitmap bits s = Inr bitmap" "plan_bits bitmap True a = (Inr q, b)"
  shows "state_ok pf (s\<lparr>rs_arena := Some (g, b)\<rparr>)" "written_resident bits (s\<lparr>rs_arena := Some (g, b)\<rparr>)"
proof -
  note n = new_arena_fits [OF assms(6,2)]
  note fit = arena_fits_dims [OF n(1) assms(2)]
  from assms(8) obtain rows where rows: "bitmap = Some rows" "plan_exact rows True a = (Inr q, b)"
    using arena_reset_ok [OF fit(4)] by (cases bitmap) (auto simp: plan_bits_def Let_def)
  note eb = assms(7) [unfolded rows(1)]
  have sh: "bitmap_shape_ok rows a" by (rule entry_bitmap_ok [OF assms(1,3) eb assms(2) n(1,2)])
  note w = plan_wf [OF fit(6) sh rows(2)]
  obtain bs where bs: "bits = Some bs" "concat rows = written_atoms bs"
    using entry_bitmap_shape(3) [OF assms(1,3) eb] by auto
  have lp: "logical_pages b = logical_pages a" by (rule same_dims_logical [OF w(2)])
  have wf: "arena_wf b" by (rule w(4) [OF _ n(4)]) simp
  have "arena_fits pf s g b" by (rule arena_fits_step [OF n(1) wf w(2)])
  then show "state_ok pf (s\<lparr>rs_arena := Some (g, b)\<rparr>)" by (rule state_ok_arena [OF assms(1,3,5) n(2)])
  show "written_resident bits (s\<lparr>rs_arena := Some (g, b)\<rparr>)"
    using w(5) bs lp by (auto simp: written_resident_def)
qed

lemma written_resident_none: "rs_arena s = None \<Longrightarrow> written_resident bits s"
  by (simp add: written_resident_def split: option.splits)

definition carries_on :: "8 word list option \<Rightarrow> rola_state \<Rightarrow> 'a res \<Rightarrow> rola_state \<Rightarrow> bool" where
  "carries_on bits s r t \<longleftrightarrow> same_binding s t \<and> (carries s \<longrightarrow> state_materialize t = state_materialize s)
     \<and> (is_ok r \<longrightarrow> written_resident bits t)"

lemma kernel_entry_bound:
  assumes "state_ok pf s" "platform_ok pf" "bound s" "rt_widths rt = sf_B (the (rs_format s))"
    "bind_or_check rt d_v paging s0 = (Inr (), s)" "kernel_entry pf rt bits d_v paging BC s0 = (r, t)"
  shows "state_ok pf t \<and> carries_on bits s r t"
proof (cases "entry_bitmap bits s")
  case (Inl e)
  with assms show ?thesis by (auto simp: kernel_entry_def carries_on_def)
next
  case (Inr bitmap)
  show ?thesis
  proof (cases "rs_arena s")
    case (Some ga)
    obtain g a where ga: "ga = (g, a)" by (cases ga)
    obtain q b where pl: "plan_bits bitmap False a = (q, b)" by (cases "plan_bits bitmap False a")
    note e = entry_arena [OF assms(1,2) Some [unfolded ga] Inr pl]
    have "t = s\<lparr>rs_arena := Some (g, b)\<rparr>" "is_ok r = is_ok q"
      using assms(5,6) Inr Some ga pl by (cases q; auto simp: kernel_entry_def)+
    with e Some ga show ?thesis by (simp add: carries_on_def state_materialize_def carries_def)
  next
    case None
    show ?thesis
    proof (cases "rs_plane s")
      case (Some d)
      with assms Inr None show ?thesis
        by (auto simp: kernel_entry_def carries_on_def written_resident_none)
    next
      case np: None
      show ?thesis
      proof (cases "rs_paging s \<and> is_ok (new_arena pf (rt_widths rt) BC s)")
        case False
        with assms Inr None np show ?thesis
          by (auto simp: kernel_entry_def carries_on_def written_resident_none is_ok_iff split: sum.splits if_splits)
      next
        case True
        then obtain g a where na: "new_arena pf (rt_widths rt) BC s = Inr (g, a)" by (auto simp: is_ok_iff)
        obtain q b where pl: "plan_bits bitmap True a = (q, b)" by (cases "plan_bits bitmap True a")
        show ?thesis
        proof (cases q)
          case (Inl e)
          with assms \<open>entry_bitmap bits s = Inr bitmap\<close> None np True na pl show ?thesis
            by (auto simp: kernel_entry_def carries_on_def)
        next
          case (Inr x)
          note f = fresh_arena [OF assms(1-3) None np na [unfolded assms(4)] \<open>entry_bitmap bits s = Inr bitmap\<close>
              pl [unfolded Inr]]
          have "t = s\<lparr>rs_arena := Some (g, b)\<rparr>"
            using assms(5,6) \<open>entry_bitmap bits s = Inr bitmap\<close> None np True na pl Inr
            by (auto simp: kernel_entry_def)
          with f None np show ?thesis by (simp add: carries_on_def carries_def)
        qed
      qed
    qed
  qed
qed

lemma kernel_entry_cases:
  assumes "state_ok pf s" "platform_ok pf" "kernel_entry pf rt bits d_v paging BC s = (r, t)"
  obtains (refused) e where "r = Inl e" "t = s"
      "bound s \<Longrightarrow> format_of (rt_widths rt) d_v (rt_batch rt * rt_heads rt) \<noteq> Inr (the (rs_format s))"
  | (binds) u where "\<not> bound s" "bound u" "state_ok pf t" "carries_on bits u r t" "\<not> carries u"
  | (kept) "bound s" "format_of (rt_widths rt) d_v (rt_batch rt * rt_heads rt) = Inr (the (rs_format s))"
      "state_ok pf t" "carries_on bits s r t"
proof (cases rule: bind_or_check_cases [OF assms(1), of rt d_v paging])
  case (1 e)
  with assms(3) show thesis by (intro refused [of e]) (auto simp: kernel_entry_def)
next
  case (2 u)
  have "state_ok pf t \<and> carries_on bits u r t"
    by (rule kernel_entry_bound [OF 2(3) assms(2) 2(4,7,2) assms(3)])
  with 2 show thesis by (intro binds [of u]) (simp_all add: carries_def)
next
  case 3
  have "state_ok pf t \<and> carries_on bits s r t"
    by (rule kernel_entry_bound [OF assms(1,2) 3(1,4,2) assms(3)])
  with 3 show thesis by (intro kept) simp_all
qed

text \<open>
  C9 (entry): The kernel seam. A bound state refuses, unchanged, every call whose format is not
  its own; otherwise the call keeps the binding, reads like before, and, if it succeeds, every
  atom of its write set is resident. A call that binds and then fails leaves a bound state that
  carries nothing.
\<close>

theorem kernel_entry_binds_once:
  assumes "state_ok pf s" "platform_ok pf" "kernel_entry pf rt bits d_v paging BC s = (r, t)"
  shows "state_ok pf t
     \<and> (bound s \<longrightarrow> same_binding s t \<and> (carries s \<longrightarrow> state_materialize t = state_materialize s)
          \<and> (format_of (rt_widths rt) d_v (rt_batch rt * rt_heads rt) \<noteq> Inr (the (rs_format s)) \<longrightarrow>
               \<not> is_ok r \<and> t = s))
     \<and> (is_ok r \<longrightarrow> bound t \<and> written_resident bits t)"
proof (cases rule: kernel_entry_cases [OF assms])
  case (2 u)
  then show ?thesis by (auto simp: carries_on_def same_binding_def bound_def)
next
  case 3
  then show ?thesis by (auto simp: carries_on_def same_binding_def bound_def)
qed (use assms(1) in auto)

section \<open>Every reachable state\<close>

text \<open>
  A sequence's life: calls enter, kernels write pages of the backing they were handed, the call
  that bound a dense state commits its plane, a decode step's growth is admitted.
\<close>

inductive reaches :: "platform \<Rightarrow> rola_state \<Rightarrow> rola_state \<Rightarrow> bool" for pf s where
  start: "reaches pf s s"
| entered: "reaches pf s t \<Longrightarrow> kernel_entry pf rt bits d_v paging BC t = (r, u) \<Longrightarrow> reaches pf s u"
| wrote_arena: "reaches pf s t \<Longrightarrow> rs_arena t = Some (g, a) \<Longrightarrow> i < logical_pages a \<Longrightarrow> length pg = 16 * ar_cols a
    \<Longrightarrow> reaches pf s (t\<lparr>rs_arena := Some (g, write_page i pg a)\<rparr>)"
| wrote_plane: "reaches pf s t \<Longrightarrow> rs_plane t = Some d \<Longrightarrow> i < length (dp_pages d) \<Longrightarrow> length pg = 16 * dp_cols d
    \<Longrightarrow> reaches pf s (t\<lparr>rs_plane := Some (dense_put i pg d)\<rparr>)"
| committed: "reaches pf s t \<Longrightarrow> bound t \<Longrightarrow> dense_ok d \<Longrightarrow> dp_cols d = state_cols t
    \<Longrightarrow> length (dp_pages d) = state_BH t * (state_N t div 16) \<Longrightarrow> reaches pf s (kernel_commit d t)"
| grew: "reaches pf s t \<Longrightarrow> decode_entry_arena bits t = (r, u) \<Longrightarrow> reaches pf s u"

lemma state_ok_plane:
  assumes "state_ok pf s" "bound s" "rs_arena s = None" "dense_ok d" "dp_cols d = state_cols s"
    "length (dp_pages d) = state_BH s * (state_N s div 16)"
  shows "state_ok pf (s\<lparr>rs_plane := Some d\<rparr>)"
proof -
  obtain B H f where f: "rs_shape s = Some (B, H, prod_list (sf_B f), sf_DV f + 1)" "rs_format s = Some f"
    "bound_ok pf B H (prod_list (sf_B f)) (sf_DV f + 1) f s"
    by (rule state_okE [OF assms(1,2)])
  then have "bound_ok pf B H (prod_list (sf_B f)) (sf_DV f + 1) f (s\<lparr>rs_plane := Some d\<rparr>)"
    using assms(3-6) by (simp add: bound_ok_def state_cols_def state_BH_def state_N_def)
  with f state_ok_strategy [OF assms(1)] show ?thesis by (simp add: state_ok_def)
qed

lemma state_ok_planeD:
  assumes "state_ok pf s" "rs_plane s = Some d"
  shows "bound s" "rs_arena s = None" "dense_ok d" "dp_cols d = state_cols s"
    "length (dp_pages d) = state_BH s * (state_N s div 16)"
proof -
  show b: "bound s" using assms state_ok_unbound by fastforce
  obtain B H f where f: "rs_shape s = Some (B, H, prod_list (sf_B f), sf_DV f + 1)" "rs_format s = Some f"
    "bound_ok pf B H (prod_list (sf_B f)) (sf_DV f + 1) f s"
    by (rule state_okE [OF assms(1) b])
  with assms(2) show "rs_arena s = None" "dense_ok d" "dp_cols d = state_cols s"
    "length (dp_pages d) = state_BH s * (state_N s div 16)"
    by (simp_all add: bound_ok_def state_cols_def state_BH_def state_N_def split: option.splits)
qed

lemma dense_put_ok: "dense_ok d \<Longrightarrow> length pg = 16 * dp_cols d \<Longrightarrow> dense_ok (dense_put i pg d)
    \<and> dp_cols (dense_put i pg d) = dp_cols d \<and> length (dp_pages (dense_put i pg d)) = length (dp_pages d)"
  by (auto simp: dense_ok_def dense_put_def dest!: subsetD [OF set_update_subset_insert])

lemma grow_ok:
  assumes "state_ok pf s" "platform_ok pf" "decode_entry_arena bits s = (r, t)"
  shows "state_ok pf t \<and> same_binding s t \<and> state_materialize t = state_materialize s"
proof (cases "rs_arena s")
  case None
  with assms show ?thesis by (auto simp: decode_entry_arena_def)
next
  case (Some ga)
  obtain g a where ga: "ga = (g, a)" by (cases ga)
  note d = state_ok_arenaD [OF assms(1) Some [unfolded ga]]
  note fit = arena_fits_dims [OF d(4) assms(2)]
  obtain B H f where f: "rs_format s = Some f" "format_of (sf_B f) (sf_DV f) (B * H) = Inr f"
    "state_keying s = Inr \<lparr>k_N = prod_list (sf_B f), k_cols = sf_DV f + 1, k_BH = B * H\<rparr>"
    by (rule state_okE [OF assms(1) d(1)])
  let ?n = "prod_list (sf_B f) div 16"
  show ?thesis
  proof (cases "length bits = state_BH s * ?n")
    case False
    with assms Some ga f(3) show ?thesis by (auto simp: decode_entry_arena_def reshape2_def atoms_per_bh_def)
  next
    case True
    let ?rows = "map (\<lambda>r. take ?n (drop (r * ?n) bits)) [0..<state_BH s]"
    have "ar_apb a = ?n" using fit(3) d(3) f(1) by (simp flip: fit(3))
    with fit(1) length_chunk [OF True] have sh: "bitmap_shape_ok ?rows a" by (auto simp: bitmap_shape_ok_def)
    obtain q b where pl: "plan_exact ?rows False a = (q, b)" by (cases "plan_exact ?rows False a")
    note w = plan_wf [OF fit(6) sh pl]
    have t: "t = s\<lparr>rs_arena := Some (g, b)\<rparr>"
      using assms(3) Some ga f(3) True pl
      by (cases q) (auto simp: decode_entry_arena_def reshape2_def atoms_per_bh_def)
    have "arena_fits pf s g b" using w(3) arena_fits_step [OF d(4) _ w(2)] by simp
    then have "state_ok pf t" unfolding t by (rule state_ok_arena [OF assms(1) d(1-3)])
    then show ?thesis using w(3) t Some ga by (simp add: state_materialize_def carries_def)
  qed
qed

text \<open>
  C8 (reach): Whatever sequence of calls, page writes, commits and growths a state goes through,
  it stays well formed, and once bound it never changes its shape, device, format or strategy.
\<close>

theorem reachable_state_ok:
  assumes "reaches pf s t" "state_ok pf s" "platform_ok pf"
  shows "state_ok pf t \<and> (bound s \<longrightarrow> same_binding s t)"
  using assms(1)
proof induction
  case (entered t rt bits d_v paging BC r u)
  then have t: "state_ok pf t" by simp
  show ?case
  proof (cases rule: kernel_entry_cases [OF t assms(3) entered.hyps(2)])
    case (2 v)
    with entered.IH show ?thesis by (auto simp: same_binding_def bound_def)
  qed (use entered.IH in \<open>auto simp: carries_on_def same_binding_def\<close>)
next
  case (wrote_arena t g a i pg)
  then have t: "state_ok pf t" by simp
  note d = state_ok_arenaD [OF t wrote_arena.hyps(2)]
  have wf: "arena_wf a" using d(4) by (simp add: arena_fits_def)
  have "arena_wf (write_page i pg a)" "same_dims a (write_page i pg a)"
    using arena_put_law [OF wf wrote_arena.hyps(3,4)] by (simp_all add: same_dims_def write_page_def)
  then have "arena_fits pf t g (write_page i pg a)" by (rule arena_fits_step [OF d(4)])
  then have "state_ok pf (t\<lparr>rs_arena := Some (g, write_page i pg a)\<rparr>)" by (rule state_ok_arena [OF t d(1-3)])
  with wrote_arena.IH show ?case by (auto simp: same_binding_def)
next
  case (wrote_plane t d i pg)
  then have t: "state_ok pf t" by simp
  note p = state_ok_planeD [OF t wrote_plane.hyps(2)] and q = dense_put_ok [OF _ wrote_plane.hyps(4)]
  have "state_ok pf (t\<lparr>rs_plane := Some (dense_put i pg d)\<rparr>)"
    using p q by (intro state_ok_plane [OF t]) simp_all
  with wrote_plane.IH show ?case by (auto simp: same_binding_def)
next
  case (committed t d)
  then show ?case using state_ok_plane [of pf t d] by (auto simp: kernel_commit_def same_binding_def)
next
  case (grew t bits r u)
  then show ?case using grow_ok [OF _ assms(3) grew.hyps(2)] by (auto simp: same_binding_def)
qed (use assms(2) in simp)

section \<open>A clone\<close>

text \<open>The copy of the referenced slots is one write per resident atom.\<close>

lemma copy_as_updates:
  assumes "\<forall>i\<in>set is. i < length (ar_table b) \<and> 0 \<le> ar_table b ! i"
  shows "run_updates write_page page_at (map (\<lambda>i. (i, \<lambda>_. f i)) is) b
    = b\<lparr>ar_base := index_copy (ar_base b) (map (\<lambda>i. nat (ar_table b ! i)) is) (map f is)\<rparr>"
  using assms
proof (induction "is" arbitrary: b)
  case (Cons i "is")
  let ?b = "b\<lparr>ar_base := (ar_base b)[nat (ar_table b ! i) := f i]\<rparr>"
  have "write_page i (f i) b = ?b" using Cons.prems by (simp add: write_page_def)
  moreover have "run_updates write_page page_at (map (\<lambda>i. (i, \<lambda>_. f i)) is) ?b
    = ?b\<lparr>ar_base := index_copy (ar_base ?b) (map (\<lambda>i. nat (ar_table ?b ! i)) is) (map f is)\<rparr>"
    by (rule Cons.IH) (use Cons.prems in simp)
  ultimately show ?case by simp
qed simp

lemma page_updates_const:
  "distinct is \<Longrightarrow> page_updates (map (\<lambda>i. (i, \<lambda>_. f i)) is) v j = (if j \<in> set is then f j else v j)"
  by (induction "is" arbitrary: v) auto

lemma copy_pages_ok:
  assumes "arena_wf a" "arena_wf b" "logical_pages b = logical_pages a" "ar_cols b = ar_cols a"
    "\<And>i. i < logical_pages a \<Longrightarrow> 0 \<le> ar_table a ! i \<Longrightarrow> 0 \<le> ar_table b ! i"
    "\<And>i. i < logical_pages a \<Longrightarrow> page_at b i = blank_page (ar_cols a)"
  shows "arena_wf (copy_pages a b)" "same_dims b (copy_pages a b)" "materialize (copy_pages a b) = materialize a"
    "ar_table (copy_pages a b) = ar_table b"
proof -
  let ?is = "filter (\<lambda>i. 0 \<le> ar_table a ! i) [0..<length (ar_table a)]"
  let ?us = "map (\<lambda>i. (i, \<lambda>_. page_at a i)) ?is"
  have len: "length (ar_table a) = logical_pages a" "length (ar_table b) = logical_pages a"
    using assms(1-3) by (simp_all add: table_length)
  have eq: "index_select (ar_base a) (map (\<lambda>i. nat (ar_table a ! i)) ?is) = map (page_at a) ?is"
    by (auto simp: index_select_def page_at_def)
  have "copy_pages a b = b\<lparr>ar_base := index_copy (ar_base b) (map (\<lambda>i. nat (ar_table b ! i)) ?is) (map (page_at a) ?is)\<rparr>"
    unfolding eq [symmetric] by (simp add: copy_pages_def Let_def)
  also have "\<dots> = run_updates write_page page_at ?us b"
    by (rule copy_as_updates [symmetric]) (use assms(5) len in auto)
  finally have cp: "copy_pages a b = run_updates write_page page_at ?us b" .
  have w: "length (page_at a i) = 16 * ar_cols b" if "i < logical_pages a" for i
    using page_at_length [of a i] assms(1,4) that by (simp add: arena_wf_def)
  have "arena_wf (copy_pages a b) \<and> logical_pages (copy_pages a b) = logical_pages b
    \<and> 16 * ar_cols (copy_pages a b) = 16 * ar_cols b
    \<and> (\<forall>j<logical_pages b. page_at (copy_pages a b) j = page_updates ?us (page_at b) j)"
    unfolding cp
    by (rule paged.updates_look) (use assms(2,3,5) len w in auto)
  note r = this
  then show "arena_wf (copy_pages a b)" by simp
  show "same_dims b (copy_pages a b)" "ar_table (copy_pages a b) = ar_table b"
    by (simp_all add: same_dims_def copy_pages_def Let_def)
  show "materialize (copy_pages a b) = materialize a"
  proof (rule materialize_cong)
    show "length (ar_table (copy_pages a b)) = length (ar_table a)" using r len by (simp add: copy_pages_def Let_def)
    show "ar_cols (copy_pages a b) = ar_cols a" using r assms(4) by simp
    fix i assume "i < length (ar_table (copy_pages a b))"
    then have i: "i < logical_pages a" using len by (simp add: copy_pages_def Let_def)
    then have "page_at (copy_pages a b) i = page_updates ?us (page_at b) i" using r assms(3) by simp
    also have "\<dots> = page_at a i"
      using i len assms(6) [OF i] by (simp add: page_updates_const page_at_def)
    finally show "page_at (copy_pages a b) i = page_at a i" .
  qed
qed

lemma concat_residency:
  "length (ar_table a) = logical_pages a \<Longrightarrow> concat (residency a) = map (\<lambda>t. 0 \<le> t) (ar_table a)"
proof -
  assume len: "length (ar_table a) = logical_pages a"
  let ?p = "map (\<lambda>t. 0 \<le> t) (ar_table a)"
  have "residency a = map (\<lambda>r. take (ar_apb a) (drop (r * ar_apb a) ?p)) [0..<ar_BH a]"
  proof (unfold residency_def, rule map_cong [OF refl])
    fix bh assume "bh \<in> set [0..<ar_BH a]"
    then have "bh * ar_apb a + x < length (ar_table a)" if "x < ar_apb a" for x
      using that len mult_add_less [of bh "ar_BH a" x "ar_apb a"] by (simp add: logical_pages_def)
    moreover have "length (take (ar_apb a) (drop (bh * ar_apb a) ?p)) = ar_apb a"
      using \<open>bh \<in> _\<close> len by (intro length_chunk [where n = "ar_BH a"]) (simp_all add: logical_pages_def)
    ultimately show "map (\<lambda>x. 0 \<le> ar_table a ! (bh * ar_apb a + x)) [0..<ar_apb a]
        = take (ar_apb a) (drop (bh * ar_apb a) ?p)"
      by (intro nth_equalityI) simp_all
  qed
  then show ?thesis using len by (simp only: concat_chunks length_map logical_pages_def)
qed

lemma residency_shape: "ar_BH b = ar_BH a \<Longrightarrow> ar_apb b = ar_apb a \<Longrightarrow> bitmap_shape_ok (residency a) b"
  by (auto simp: bitmap_shape_ok_def residency_def)

lemma clone_plan:
  assumes "arena_wf a" "arena_wf c" "same_dims c a" "plan_exact (residency a) True c = (r, b)"
    "ar_table c = replicate (logical_pages c) ABSENT"
  shows "case r of Inl e \<Rightarrow> 0 < ar_pool_capacity a
    | Inr q \<Rightarrow> arena_wf (copy_pages a b) \<and> same_dims c (copy_pages a b) \<and> materialize (copy_pages a b) = materialize a"
proof -
  have dims: "ar_BH c = ar_BH a" "ar_apb c = ar_apb a" "ar_cols c = ar_cols a" "ar_pool_capacity c = ar_pool_capacity a"
    "logical_pages c = logical_pages a"
    using assms(3) same_dims_logical [OF assms(3)] by (simp_all add: same_dims_def)
  have sh: "bitmap_shape_ok (residency a) c" using dims by (intro residency_shape)
  note w = plan_wf [OF assms(2) sh assms(4)]
  have len: "length (ar_table a) = logical_pages a" using assms(1) by (rule table_length)
  note cr = concat_residency [OF len]
  show ?thesis
  proof (cases r)
    case (Inr q)
    have wf: "arena_wf b" by (rule w(4) [OF _ assms(5)]) simp
    have lb: "logical_pages b = logical_pages a" using same_dims_logical [OF w(2)] dims by simp
    have cb: "ar_cols b = ar_cols a" using w(2) dims by (simp add: same_dims_def)
    note cp = copy_pages_ok [OF assms(1) wf lb cb]
    have t: "0 \<le> ar_table b ! i" if "i < logical_pages a" "0 \<le> ar_table a ! i" for i
      using w(5) [OF Inr] that dims len by (simp add: cr)
    have z: "page_at b i = blank_page (ar_cols a)" if "i < logical_pages a" for i
      using w(6) that dims by simp
    from cp [OF t z] w(2) same_dims_trans Inr show ?thesis by auto
  next
    case (Inl e)
    have "0 < ar_pool_capacity a"
    proof (rule ccontr)
      assume "\<not> 0 < ar_pool_capacity a"
      with dims have z: "ar_pool_capacity c = 0" by simp
      have ok: "arena_ok c" using assms(2) by (simp add: arena_wf_def)
      obtain d where d: "arena_reset c = (Inr (), d)" "arena_ok d" "same_dims c d"
        "ar_table d = replicate (length (ar_table c)) ABSENT" "al_next (ar_alloc d) = 0"
        using arena_reset_ok [OF ok] z by auto
      let ?k = "length (wanted_atoms (concat (residency a)) (ar_table d))"
      have "length (ar_table d) = logical_pages d" using d(2) by (simp add: arena_ok_def shapes_ok_def)
      then have "?k \<le> logical_pages d"
        by (metis length_filter_le length_upt minus_nat.diff_0 wanted_atoms_def)
      then have "take_slots ?k (ar_alloc d) = Inr (0, if 0 < ?k then ar_alloc d\<lparr>al_next := ?k\<rparr> else ar_alloc d)"
        using d(2,5) by (simp add: take_slots_def admission_zero arena_ok_def shapes_ok_def)
      moreover have "bitmap_shape_ok (residency a) d" using d(3) dims by (intro residency_shape) (simp_all add: same_dims_def)
      ultimately show False
        using plan_union_ok [OF d(2)] assms(4) Inl d(1) by (fastforce simp: plan_exact_def)
    qed
    with Inl show ?thesis by simp
  qed
qed

lemma new_arena_again:
  assumes "state_ok pf s" "platform_ok pf" "rs_arena s = Some (g, a)"
    "rs_shape t = rs_shape s" "rs_device t = rs_device s" "rs_slack t = rs_slack s"
  obtains c where "new_arena pf (aa_widths g) (aa_BC g) t = Inr (g, c)" "same_dims c a" "arena_wf c"
    "ar_table c = replicate (logical_pages c) ABSENT" "arena_fits pf t g c"
proof -
  note d = state_ok_arenaD [OF assms(1,3)]
  have g: "new_arena_args (aa_widths g) (aa_BC g) t = g"
    using d(4) assms(4-6) by (simp add: arena_fits_def new_arena_args_def state_BH_def state_cols_def)
  obtain c where c: "make_arena pf g = Inr c" "same_dims c a" using d(4) by (auto simp: arena_fits_def)
  have k: "state_keying t = state_keying s" using assms(4) by (simp add: state_keying_def)
  have "new_arena pf (aa_widths g) (aa_BC g) t = Inr (g, c)"
    using c(1) k g by (rule_tac state_okE [OF assms(1) d(1)]) (simp add: new_arena_def)
  from this c(2) make_arena_ok(1,2) [OF c(1) assms(2)] new_arena_fits(1) [OF this assms(2)]
  show thesis by (rule that)
qed

lemma clone_unfold:
  assumes "rs_strategy s = BUILT_STRATEGY" "bound s"
  shows "state_clone pf None s =
    (case rs_arena s of
       None \<Rightarrow> Inr s
     | Some (g, a) \<Rightarrow>
         rbind (new_arena pf (aa_widths g) (aa_BC g) (s\<lparr>rs_arena := None, rs_plane := None\<rparr>)) (\<lambda>(h, c).
         case plan_exact (residency a) True c of
           (Inl e, _) \<Rightarrow> Inl e
         | (Inr _, b) \<Rightarrow> Inr (s\<lparr>rs_arena := Some (h, copy_pages a b), rs_plane := None\<rparr>)))"
proof -
  define new where "new = \<lparr>rs_strategy = rs_strategy s, rs_slack = rs_slack s, rs_shape = None, rs_device = None,
    rs_paging = True, rs_arena = None, rs_plane = None, rs_format = None\<rparr>"
  have mk: "make_state (rs_strategy s) (rs_slack s) = Inr new"
    using assms(1) by (simp add: make_state_def new_def BUILT_STRATEGY_def DESIGNED_STRATEGY_def)
  have o: "bind_copy s new = s\<lparr>rs_arena := None, rs_plane := None\<rparr>"
    by (cases s) (simp add: bind_copy_def new_def)
  have "rs_arena s = None \<Longrightarrow> s\<lparr>rs_arena := None, rs_plane := rs_plane s\<rparr> = s" by (cases s) simp
  moreover have o2: "s\<lparr>rs_arena := None, rs_plane := None, rs_arena := x\<rparr> = s\<lparr>rs_arena := x, rs_plane := None\<rparr>" for x
    by simp
  ultimately show ?thesis using assms(2)
    unfolding state_clone_def option.case mk rbind.simps o o2
    by (cases "rs_arena s"; cases "rs_plane s") simp_all
qed

lemma clone_paged:
  assumes "state_ok pf s" "platform_ok pf" "rs_arena s = Some (g, a)"
  shows "case state_clone pf None s of
       Inr t \<Rightarrow> state_ok pf t \<and> state_materialize t = state_materialize s \<and> state_paged t \<and> same_binding s t
     | Inl e \<Rightarrow> 0 < ar_pool_capacity a"
proof -
  note d = state_ok_arenaD [OF assms(1,3)]
  obtain c where c: "new_arena pf (aa_widths g) (aa_BC g) (s\<lparr>rs_arena := None, rs_plane := None\<rparr>) = Inr (g, c)"
    "same_dims c a" "arena_wf c" "ar_table c = replicate (logical_pages c) ABSENT"
    "arena_fits pf (s\<lparr>rs_arena := None, rs_plane := None\<rparr>) g c"
    by (rule new_arena_again [OF assms, of "s\<lparr>rs_arena := None, rs_plane := None\<rparr>"]) simp_all
  obtain r e where pl: "plan_exact (residency a) True c = (r, e)" by (cases "plan_exact (residency a) True c")
  have wf: "arena_wf a" using d(4) by (simp add: arena_fits_def)
  note q = clone_plan [OF wf c(3,2) pl c(4)]
  have cl: "state_clone pf None s = (case r of Inl x \<Rightarrow> Inl x
      | Inr _ \<Rightarrow> Inr (s\<lparr>rs_arena := Some (g, copy_pages a e), rs_plane := None\<rparr>))"
    using clone_unfold [OF state_ok_strategy [OF assms(1)] d(1)] assms(3) c(1) pl by simp
  show ?thesis
  proof (cases r)
    case (Inl x)
    with cl q show ?thesis by simp
  next
    case (Inr x)
    have np: "s\<lparr>rs_arena := Some (g, copy_pages a e), rs_plane := None\<rparr> = s\<lparr>rs_arena := Some (g, copy_pages a e)\<rparr>"
      using d(2) by (cases s) simp
    have "arena_fits pf s g c" using c(5) by (subst arena_fits_cong [symmetric]) simp_all
    then have "arena_fits pf s g (copy_pages a e)" using q Inr arena_fits_step by auto
    then have "state_ok pf (s\<lparr>rs_arena := Some (g, copy_pages a e)\<rparr>)"
      by (rule state_ok_arena [OF assms(1) d(1-3)])
    then show ?thesis using cl q Inr assms(3) np
      by (simp add: state_materialize_def carries_def state_paged_def)
  qed
qed

lemma clone_unbound:
  assumes "state_ok pf s" "\<not> bound s"
  shows "\<exists>t. state_clone pf None s = Inr t \<and> state_ok pf t \<and> rs_shape t = None \<and> rs_arena t = None \<and> rs_plane t = None"
  using state_ok_strategy [OF assms(1)] assms(2)
  by (simp add: state_clone_def make_state_def BUILT_STRATEGY_def DESIGNED_STRATEGY_def state_ok_def)

text \<open>
  C15 (clone): A clone has its source's binding, residency backing and contents; the only refusal
  is the paged state whose arena holds a slack pool.
\<close>

theorem clone_reads_like_source:
  assumes "state_ok pf s" "platform_ok pf"
  shows "case state_clone pf None s of
       Inr t \<Rightarrow> state_ok pf t \<and> state_materialize t = state_materialize s
         \<and> bound t = bound s \<and> state_paged t = state_paged s \<and> (bound s \<longrightarrow> same_binding s t)
     | Inl e \<Rightarrow> \<exists>g a. rs_arena s = Some (g, a) \<and> 0 < ar_pool_capacity a"
proof (cases "rs_arena s")
  case (Some ga)
  obtain g a where ga: "ga = (g, a)" by (cases ga)
  have b: "bound s" using state_ok_unbound [OF assms(1)] Some by fastforce
  from clone_paged [OF assms Some [unfolded ga]] show ?thesis
    using Some ga b by (auto simp: state_paged_def same_binding_def bound_def split: sum.splits)
next
  case None
  show ?thesis
  proof (cases "bound s")
    case True
    then show ?thesis using clone_unfold [OF state_ok_strategy [OF assms(1)] True, of pf] None assms(1) by simp
  next
    case False
    from clone_unbound [OF assms(1) False] state_ok_unbound [OF assms(1) False] show ?thesis
      using False by (auto simp: bound_def state_paged_def state_materialize_def carries_def)
  qed
qed

section \<open>Concrete states\<close>

definition demo_format :: state_format where
  "demo_format = \<lparr>sf_D = 1, sf_B = [64], sf_order = CANONICAL_ORDER, sf_page_bits = 4, sf_DV = 0,
     sf_dtype = SPLIT_PLANE_DTYPE, sf_ids = 4\<rparr>"

definition demo_state :: "nat \<Rightarrow> rola_state" where
  "demo_state cap = \<lparr>rs_strategy = BUILT_STRATEGY, rs_slack = of_nat cap / 4, rs_shape = Some (1, 1, 64, 1),
     rs_device = Some Cpu, rs_paging = True, rs_arena = Some (demo_args cap, demo_arena cap), rs_plane = None,
     rs_format = Some demo_format\<rparr>"

definition demo_routes :: call_routes where
  "demo_routes = \<lparr>rt_widths = [64], rt_batch = 1, rt_heads = 1, rt_device = Cpu\<rparr>"

lemma demo_format_of: "format_of [64] 0 1 = Inr demo_format"
proof -
  have "is_pow2 (64 :: nat)" using is_pow2_power [of 6] by simp
  then show ?thesis by (simp add: format_of_Inr demo_format_def lawful_format_def format_N_prod)
qed

lemma demo_new_args: "new_arena_args [64] 32 (demo_state cap) = demo_args cap"
  by (simp add: new_arena_args_def demo_state_def demo_args_def state_BH_def state_cols_def)

lemma demo_state_ok:
  assumes "make_arena exact_platform (demo_args cap) = Inr (demo_arena cap)" "arena_wf (demo_arena cap)"
  shows "state_ok exact_platform (demo_state cap)"
proof -
  have "arena_fits exact_platform (demo_state cap) (demo_args cap) (demo_arena cap)"
    using assms demo_new_args [of cap] by (simp add: arena_fits_def demo_args_def)
  then show ?thesis
    using demo_format_of
    by (simp add: state_ok_def bound_ok_def demo_state_def demo_format_def demo_args_def)
qed

lemmas demo_states_ok = demo_state_ok [OF demo_make(1) demo_wf(1)] demo_state_ok [OF demo_make(2) demo_wf(2)]

theorem kernel_entry_binds_once_witness:
  "case kernel_entry exact_platform demo_routes (Some [1, 0, 2, 3]) 0 False 32 (demo_state 0) of (r, t) \<Rightarrow>
     is_ok r \<and> state_ok exact_platform t \<and> same_binding (demo_state 0) t
     \<and> state_materialize t = state_materialize (demo_state 0) \<and> written_resident (Some [1, 0, 2, 3]) t"
proof -
  obtain r t where k: "kernel_entry exact_platform demo_routes (Some [1, 0, 2, 3]) 0 False 32 (demo_state 0) = (r, t)"
    by (cases "kernel_entry exact_platform demo_routes (Some [1, 0, 2, 3]) 0 False 32 (demo_state 0)")
  have "bind_or_check demo_routes 0 False (demo_state 0) = (Inr (), demo_state 0)"
    using demo_format_of format_check_Inr [of demo_format demo_format]
    by (simp add: bind_or_check_def demo_routes_def demo_state_def bound_def)
  moreover have "entry_bitmap (Some [1, 0, 2, 3]) (demo_state 0) = Inr (Some [[True, False, False, True]])"
    by code_simp
  moreover have "is_ok (fst (plan_exact [[True, False, False, True]] False (demo_arena 0)))" by code_simp
  ultimately have "is_ok r" using k
    by (auto simp: kernel_entry_def demo_state_def plan_bits_def is_ok_iff split: prod.splits sum.splits)
  moreover have "bound (demo_state 0)" "carries (demo_state 0)" by (simp_all add: bound_def carries_def demo_state_def)
  ultimately show ?thesis using kernel_entry_binds_once [OF demo_states_ok(1) exact_platform_ok k] k by simp
qed

theorem reachable_state_ok_witness:
  "state_ok exact_platform (snd (decode_entry_arena [False, True, True, False] (demo_state 0)))
   \<and> same_binding (demo_state 0) (snd (decode_entry_arena [False, True, True, False] (demo_state 0)))"
proof -
  have "reaches exact_platform (demo_state 0) (snd (decode_entry_arena [False, True, True, False] (demo_state 0)))"
    by (rule grew [OF start prod.collapse [symmetric]])
  moreover have "bound (demo_state 0)" by (simp add: bound_def demo_state_def)
  ultimately show ?thesis using reachable_state_ok [OF _ demo_states_ok(1) exact_platform_ok] by blast
qed

theorem clone_reads_like_source_witness:
  "case state_clone exact_platform None (demo_state 0) of
     Inr t \<Rightarrow> state_materialize t = state_materialize (demo_state 0) \<and> state_paged t \<and> same_binding (demo_state 0) t
   | Inl e \<Rightarrow> False"
  using clone_reads_like_source [OF demo_states_ok(1) exact_platform_ok]
  by (auto simp: demo_state_def demo_arena_def bound_def state_paged_def split: sum.splits)

definition demo_page :: page where "demo_page = replicate 8 0x00010002 @ replicate 8 0x00030004"

definition demo_paged :: rola_state where
  "demo_paged = (demo_state 0)\<lparr>rs_arena := Some (demo_args 0,
     write_page 2 demo_page (snd (plan_exact [[False, False, True, False]] False (demo_arena 0))))\<rparr>"

definition demo_dense :: rola_state where
  "demo_dense = (demo_state 0)\<lparr>rs_arena := None, rs_paging := False,
     rs_plane := Some \<lparr>dp_cols = 1, dp_pages = [blank_page 1, blank_page 1, demo_page, blank_page 1]\<rparr>\<rparr>"

text \<open>
  The two backings do not materialize alike: a paged and a dense state of the same
  format that hold the same pages, word for word, materialize to different tensors, because only
  the arena's \<^verbatim>\<open>materialize\<close> gathers the split planes.
\<close>

theorem dense_materialize_skips_gather:
  "rs_format demo_paged = rs_format demo_dense \<and> rs_shape demo_paged = rs_shape demo_dense
   \<and> (case (rs_arena demo_paged, rs_plane demo_dense) of
        (Some (g, a), Some d) \<Rightarrow> map (page_at a) [0..<logical_pages a] = dp_pages d
      | _ \<Rightarrow> False)
   \<and> state_materialize demo_paged \<noteq> state_materialize demo_dense"
  by code_simp

definition demo_claimed :: rola_state where
  "demo_claimed = (demo_state 2)\<lparr>rs_arena := Some (demo_args 2,
     snd (device_claim 0 [2, 3] (snd (plan_exact [[True, True, False, False]] False (demo_arena 2)))))\<rparr>"

text \<open>
  A state whose atoms were claimed from the slack pool cannot be cloned when the
  plan of its residency does not fit beside a whole new pool: four atoms, a pool of two, two
  planned and two claimed.
\<close>

theorem clone_of_claimed_refused:
  "carries demo_claimed \<and> (case state_clone exact_platform None demo_claimed of Inl e \<Rightarrow> True | Inr t \<Rightarrow> False)
   \<and> (case rs_arena demo_claimed of Some (g, a) \<Rightarrow> resident_pages a = 4 \<and> allocated_pages a = 4 | None \<Rightarrow> False)"
proof -
  let ?a = "snd (device_claim 0 [2, 3] (snd (plan_exact [[True, True, False, False]] False (demo_arena 2))))"
  have n: "new_arena exact_platform [64] 32 (demo_claimed\<lparr>rs_arena := None, rs_plane := None\<rparr>) = Inr (demo_args 2, demo_arena 2)"
    using demo_make(2) demo_new_args [of 2]
    by (simp add: new_arena_def new_arena_args_def state_keying_def demo_claimed_def demo_state_def make_keying_def
        state_BH_def state_cols_def)
  have "\<not> is_ok (fst (plan_exact (residency ?a) True (demo_arena 2)))" by code_simp
  moreover have "resident_pages ?a = 4 \<and> allocated_pages ?a = 4" by code_simp
  ultimately show ?thesis
    using n clone_unfold [of demo_claimed exact_platform]
    by (auto simp: demo_claimed_def demo_state_def bound_def carries_def demo_args_def is_ok_iff
        split: prod.splits sum.splits)
qed

text \<open>
  A decode step enters exactly the states that carry something and whose bound
  format is the one its routing derives; it is handed the state's own storage and changes nothing.
\<close>

theorem decode_entry_checks:
  assumes "state_ok pf s"
  shows "case decode_entry rt s of
      Inl e \<Rightarrow> \<not> carries s \<or> rt_widths rt \<noteq> sf_B (the (rs_format s))
    | Inr (plane, tab, arena) \<Rightarrow> carries s \<and> rt_widths rt = sf_B (the (rs_format s))
       \<and> (case rs_arena s of
            Some (g, a) \<Rightarrow> plane = arena_plane a \<and> tab = Some (ar_table a) \<and> arena = Some a
          | None \<Rightarrow> rs_plane s = Some \<lparr>dp_cols = state_cols s, dp_pages = plane\<rparr> \<and> tab = None \<and> arena = None)"
proof (cases "carries s")
  case False
  then show ?thesis by (simp add: decode_entry_def require_carrying_def refuse_def)
next
  case True
  have b: "bound s"
  proof (rule ccontr)
    assume "\<not> bound s"
    from state_ok_unbound [OF assms this] True show False by (simp add: carries_def)
  qed
  obtain B H f where f: "rs_format s = Some f" "format_of (sf_B f) (sf_DV f) (B * H) = Inr f" "state_BH s = B * H"
    by (rule state_okE [OF assms b])
  have rc: "require_carrying s = Inr ()" using True by (simp add: require_carrying_def)
  show ?thesis
  proof (cases "rt_widths rt = sf_B f")
    case False
    have "\<not> is_ok (decode_entry rt s)"
    proof (cases "format_of (rt_widths rt) (sf_DV f) (state_BH s)")
      case (Inr p)
      then have "sf_B p = rt_widths rt" by (auto simp: format_of_Inr)
      with False have "f \<noteq> p" by auto
      then have "\<not> is_ok (format_check f p)" by (simp add: is_ok_iff format_check_Inr)
      then obtain e where "format_check f p = Inl e" by (cases "format_check f p") auto
      with Inr f(1) rc show ?thesis by (simp add: decode_entry_def)
    qed (use f(1) rc in \<open>simp add: decode_entry_def\<close>)
    with False f(1) show ?thesis by (auto simp: is_ok_iff split: sum.splits)
  next
    case w: True
    have fc: "format_check f f = Inr ()" by (simp add: format_check_Inr)
    show ?thesis
    proof (cases "rs_arena s")
      case (Some ga)
      with w f rc fc True show ?thesis by (cases ga) (simp add: decode_entry_def)
    next
      case None
      with True obtain d where d: "rs_plane s = Some d" by (auto simp: carries_def)
      with state_ok_planeD(4) [OF assms d] w f rc fc True None show ?thesis by (cases d) (simp add: decode_entry_def)
    qed
  qed
qed

theorem decode_entry_checks_witness:
  "case decode_entry demo_routes (demo_state 0) of
     Inl e \<Rightarrow> False | Inr (plane, tab, arena) \<Rightarrow> tab = Some (replicate 4 ABSENT)"
  using decode_entry_checks [OF demo_states_ok(1), of demo_routes]
  by (auto simp: demo_state_def demo_arena_def demo_routes_def demo_format_def carries_def split: sum.splits)

end
