(* ===== verification/Rola_Rules.thy ===== *)
theory Rola_Rules
  imports Rola_Prelude Rola_Topology
begin

text \<open>
  The engine's value types (\<^verbatim>\<open>rola/engine/types.py\<close>), the rule layer
  (\<^verbatim>\<open>rola/engine/rules/\<close>) and the carry family's constants (\<^verbatim>\<open>rola/engine/constants.py\<close>).
  A rule is a pure fold from facts to a decision; it reads presence, shapes and devices only,
  so its model takes exactly those.
\<close>

section \<open>Value types\<close>

datatype mask = M1 | M2 | M3 | M4

fun mask_int :: "mask \<Rightarrow> int" where
  "mask_int M1 = 1" | "mask_int M2 = 2" | "mask_int M3 = 3" | "mask_int M4 = 4"

record arm =
  arm_c :: nat
  arm_bc :: nat

record call_class =
  cc_state_in :: bool
  cc_state_out :: bool
  cc_paged :: bool
  cc_grad :: bool

text \<open>The pins of an expert: \<^verbatim>\<open>paging\<close> as it is passed, before its type is looked at.\<close>

datatype plan_overrides = PlanOverrides (po_paging: pyval)

definition overrides_post_init :: "pyval \<Rightarrow> unit res" where
  "overrides_post_init paging =
     (case paging of
        PyNone \<Rightarrow> Inr ()
      | PyBool b \<Rightarrow> refuse b (ValueError ''paging is ON by default for every stateful call'')
      | _ \<Rightarrow> Inl (TypeError ''paging must be None or a bool''))"

definition make_overrides :: "pyval \<Rightarrow> plan_overrides res" where
  "make_overrides paging = rbind (overrides_post_init paging) (\<lambda>_. Inr (PlanOverrides paging))"

text \<open>The \<^verbatim>\<open>expert\<close> argument as a caller may pass it.\<close>

datatype expert = NoExpert | Expert plan_overrides | NotExpert pyval

definition overrides_of :: "expert \<Rightarrow> plan_overrides res" where
  "overrides_of e =
     (case e of Expert po \<Rightarrow> Inr po
      | _ \<Rightarrow> Inl (TypeError ''the expert argument takes a PlanOverrides''))"

definition SUPPLIABLE :: "string list" where
  "SUPPLIABLE = [''routes'', ''read_plane'', ''write_plane'', ''g_write'', ''read_mass'']"

section \<open>The rules\<close>

definition mask_rule :: "call_class \<Rightarrow> mask" where
  "mask_rule c = (if cc_state_in c \<or> cc_state_out c \<or> cc_paged c then M2 else M1)"

definition decode_mask :: "bool \<Rightarrow> mask" where
  "decode_mask paged = (if paged then M4 else M3)"

definition paging_preference :: "expert \<Rightarrow> bool res" where
  "paging_preference e =
     (if e = NoExpert then Inr True
      else rbind (overrides_of e) (\<lambda>po. Inr (po_paging po \<noteq> PyBool False)))"

definition CHUNK_TOKENS :: nat where "CHUNK_TOKENS = 32"
definition PIN_C :: nat where "PIN_C = CHUNK_TOKENS"
definition PIN_BC :: nat where "PIN_BC = 128"

type_synonym arm4 = "nat \<times> nat \<times> nat \<times> nat"

definition built_bcs :: "nat list \<Rightarrow> arm4 list \<Rightarrow> nat list" where
  "built_bcs widths manifest =
     map (\<lambda>(c, bc, d, b). bc) (filter (\<lambda>(c, bc, d, b). d = length widths \<and> b = hd widths \<and> c = PIN_C) manifest)"

definition arm_rule :: "nat list \<Rightarrow> arm4 list \<Rightarrow> arm option res" where
  "arm_rule widths manifest =
     (if widths = [] then Inl (IndexError ''tuple index out of range'')
      else let bcs = built_bcs widths manifest in
        if bcs = [] then Inr None
        else Inr (Some \<lparr>arm_c = PIN_C, arm_bc = (if PIN_BC \<in> set bcs then PIN_BC else Max (set bcs))\<rparr>))"

text \<open>A refusal is the sentence's leading words; no refusal is \<^verbatim>\<open>None\<close>.\<close>

definition arm_envelope :: "nat list \<Rightarrow> nat \<Rightarrow> bool \<Rightarrow> arm option \<Rightarrow> string option" where
  "arm_envelope widths d_v has_decay a =
     (if d_v \<noteq> 64 then Some ''d_v''
      else if has_decay then Some ''decay''
      else if card (set widths) \<noteq> 1 then Some ''widths''
      else if a = None then Some ''topology''
      else None)"

datatype device_type = CudaDevice | OtherDevice string

definition envelope :: "'a list \<Rightarrow> device_type \<Rightarrow> string option" where
  "envelope unratified dev =
     (if unratified \<noteq> [] then Some ''unratified activations''
      else if dev \<noteq> CudaDevice then Some ''the operands are on''
      else None)"

definition training_envelope :: "bool \<Rightarrow> bool \<Rightarrow> string option" where
  "training_envelope grad has_state =
     (if grad \<and> has_state then Some ''rola_op trains STATELESS ONLY'' else None)"

text \<open>
  The block-skip table: the loop over the eight liveness bytes. The three arguments are the
  presence of the entry plane, of the exit plane and of the page table.
\<close>

definition block_runs :: "bool \<Rightarrow> bool \<Rightarrow> bool \<Rightarrow> nat \<Rightarrow> bool" where
  "block_runs carries_in stores_out paged v =
     (let R = and v 1 \<noteq> 0; W = and v 2 \<noteq> 0; S = and v 4 \<noteq> 0;
          run = R \<and> (W \<or> (carries_in \<and> (if paged then S else True)))
      in if stores_out then run \<or> W else run)"

definition run_table :: "bool \<Rightarrow> bool \<Rightarrow> bool \<Rightarrow> 32 word" where
  "run_table carries_in stores_out paged =
     foldl (\<lambda>t v. if block_runs carries_in stores_out paged v then or t (push_bit v 1) else t) 0 [0..<8]"

section \<open>The carry family's constants\<close>

definition WINDOW :: nat where "WINDOW = 512"
definition SEGMENT_TOKENS :: nat where "SEGMENT_TOKENS = 16"
definition WARPS_PER_SM :: nat where "WARPS_PER_SM = 8"
definition WARPS_PER_CTA_SHIPPED :: nat where "WARPS_PER_CTA_SHIPPED = 8"
definition WARPS_PER_CTA_DIAGNOSTIC :: nat where "WARPS_PER_CTA_DIAGNOSTIC = 4"
definition WARPS_PER_CTA :: "nat list" where
  "WARPS_PER_CTA = [WARPS_PER_CTA_SHIPPED, WARPS_PER_CTA_DIAGNOSTIC]"

definition is_warps_per_cta :: "nat \<Rightarrow> bool" where
  "is_warps_per_cta w \<longleftrightarrow> w \<in> set WARPS_PER_CTA"

definition STATE_FILE_NUMERATOR :: nat where "STATE_FILE_NUMERATOR = 1"
definition STATE_FILE_DENOMINATOR :: nat where "STATE_FILE_DENOMINATOR = 4"
definition REGS_PER_SM :: nat where "REGS_PER_SM = 65536"
definition LEAVES_PER_SM_NUMERATOR :: nat where
  "LEAVES_PER_SM_NUMERATOR = REGS_PER_SM * STATE_FILE_NUMERATOR div STATE_FILE_DENOMINATOR"

definition leaves_per_warp :: "nat \<Rightarrow> nat res" where
  "leaves_per_warp dv =
     (if dv = 0 then Inl (ZeroDivisionError ''integer division'')
      else Inr (LEAVES_PER_SM_NUMERATOR div dv div WARPS_PER_SM))"

definition box_leaves :: "nat \<Rightarrow> nat \<Rightarrow> nat res" where
  "box_leaves dv warps = rbind (leaves_per_warp dv) (\<lambda>l. Inr (l * warps))"

record launch_row =
  lr_cc :: nat
  lr_ctas_per_sm :: nat
  lr_warps_per_cta :: nat

definition LAUNCH_TABLE :: "launch_row list" where
  "LAUNCH_TABLE = map (\<lambda>cc. \<lparr>lr_cc = cc, lr_ctas_per_sm = 1, lr_warps_per_cta = WARPS_PER_CTA_SHIPPED\<rparr>)
     [800, 860, 870, 890, 900]"

definition launch_row_of :: "nat \<Rightarrow> launch_row res" where
  "launch_row_of cc =
     (case map_of (map (\<lambda>r. (lr_cc r, r)) LAUNCH_TABLE) cc of
        Some r \<Rightarrow> Inr r | None \<Rightarrow> Inl (ValueError ''no launch-table row''))"

text \<open>The loop of \<^verbatim>\<open>derive_stream_count\<close>: halve until the segments fit, or give up below one.\<close>

function derive_stream_count :: "nat \<Rightarrow> nat \<Rightarrow> nat \<Rightarrow> nat" where
  "derive_stream_count per_stream smem s =
     (if s < 1 then 0
      else if s * per_stream \<le> smem then s
      else derive_stream_count per_stream smem (s div 2))"
  by pat_completeness auto
termination by (relation "measure (\<lambda>(p, m, s). s)") auto

declare derive_stream_count.simps [simp del]

section \<open>The rules are right\<close>

lemma block_bits: "and v 1 \<noteq> 0 \<longleftrightarrow> bit v 0" "and v 2 \<noteq> 0 \<longleftrightarrow> bit v 1" "and v 4 \<noteq> 0 \<longleftrightarrow> bit (v::nat) 2"
  using and_exp_eq_0_iff_not_bit [of v 0] and_exp_eq_0_iff_not_bit [of v 1] and_exp_eq_0_iff_not_bit [of v 2]
  by auto

lemma run_table_bit: "n < 32 \<Longrightarrow> bit (run_table c s p) n \<longleftrightarrow> n < 8 \<and> block_runs c s p n"
proof -
  assume n: "n < 32"
  have step: "bit (foldl (\<lambda>t v. if block_runs c s p v then or t (push_bit v 1) else t) t [0..<k] :: 32 word) n
      \<longleftrightarrow> bit t n \<or> n < k \<and> block_runs c s p n" for t k
    using n by (induction k arbitrary: t) (auto simp: bit_simps less_Suc_eq)
  show ?thesis unfolding run_table_def step by simp
qed

text \<open>
  A block's bit is set exactly when some state the caller may have handed in makes
  running it matter: it reads, and something is there to read (its own write, or carried state,
  which under paging only a resident block holds), or the call stores and the block is written.
\<close>

theorem run_table_exact:
  "bit (run_table carries_in stores_out paged) v \<longleftrightarrow>
     v < 8 \<and> (\<exists>holds. holds \<in> {False, carries_in \<and> (if paged then bit v 2 else True)}
       \<and> (bit v 0 \<and> (bit v 1 \<or> holds) \<or> stores_out \<and> bit v 1))"
proof (cases "v < 32")
  case True
  then show ?thesis
    by (simp only: run_table_bit block_runs_def Let_def block_bits) auto
next
  case False
  then have "\<not> bit (run_table carries_in stores_out paged) v" by (auto dest: bit_imp_le_length)
  with False show ?thesis by simp
qed

text \<open>
  C37 (streams): The halving loop ends on every input; on a power-of-two warp count it returns the
  largest power of two at or below it whose segments fit, and zero exactly when one does not fit.
\<close>

theorem derive_stream_count_largest:
  "derive_stream_count per_stream smem (2 ^ e) * per_stream \<le> smem
   \<and> (derive_stream_count per_stream smem (2 ^ e) = 0 \<longleftrightarrow> smem < per_stream)
   \<and> (derive_stream_count per_stream smem (2 ^ e) = 0 \<or> is_pow2 (derive_stream_count per_stream smem (2 ^ e)))
   \<and> (\<forall>i\<le>e. 2 ^ i * per_stream \<le> smem \<longrightarrow> 2 ^ i \<le> derive_stream_count per_stream smem (2 ^ e))"
proof (induction e)
  case 0
  show ?case
  proof (cases "per_stream \<le> smem")
    case True
    then have "derive_stream_count per_stream smem 1 = 1" by (subst derive_stream_count.simps) simp
    with True show ?thesis by simp
  next
    case False
    moreover have "derive_stream_count per_stream smem 0 = 0" by (subst derive_stream_count.simps) simp
    ultimately have "derive_stream_count per_stream smem 1 = 0" by (subst derive_stream_count.simps) simp
    with False show ?thesis by simp
  qed
next
  case (Suc e)
  show ?case
  proof (cases "2 ^ Suc e * per_stream \<le> smem")
    case True
    then have r: "derive_stream_count per_stream smem (2 ^ Suc e) = 2 ^ Suc e" by (subst derive_stream_count.simps) simp
    have "1 * per_stream \<le> 2 ^ Suc e * per_stream" by (rule mult_le_mono1) simp
    with True have "per_stream \<le> smem" by linarith
    moreover have "(2::nat) ^ i \<le> 2 ^ Suc e" if "i \<le> Suc e" for i using that by (intro power_increasing) simp_all
    ultimately show ?thesis using True is_pow2_power [of "Suc e"] unfolding r by (simp del: power_Suc)
  next
    case False
    then have "derive_stream_count per_stream smem (2 ^ Suc e) = derive_stream_count per_stream smem (2 ^ e)"
      by (subst derive_stream_count.simps) simp
    with Suc.IH False show ?thesis by (auto simp: le_Suc_eq)
  qed
qed

theorem derive_stream_count_largest_witness:
  "derive_stream_count 6144 20000 (2 ^ 3) * 6144 \<le> 20000 \<and> 2 ^ 1 \<le> derive_stream_count 6144 20000 (2 ^ 3)"
proof -
  note t = derive_stream_count_largest [of 6144 20000 3]
  then have "\<forall>i\<le>3. 2 ^ i * 6144 \<le> (20000::nat) \<longrightarrow> 2 ^ i \<le> derive_stream_count 6144 20000 (2 ^ 3)" by (elim conjE)
  from this [rule_format, of 1] t show ?thesis by simp
qed

lemma built_bcs_iff: "bc \<in> set (built_bcs (w # ws) manifest) \<longleftrightarrow> (32, bc, Suc (length ws), w) \<in> set manifest"
  by (force simp: built_bcs_def PIN_C_def CHUNK_TOKENS_def)

text \<open>
  The arm is one the binary was built for, at the pinned chunk length, with the pinned
  block count when it is built and the largest built one otherwise; there is no arm exactly when
  the manifest has no row for the topology.
\<close>

theorem arm_rule_correct:
  "case arm_rule (w # ws) manifest of
     Inl e \<Rightarrow> False
   | Inr None \<Rightarrow> \<not> (\<exists>bc. (32, bc, Suc (length ws), w) \<in> set manifest)
   | Inr (Some a) \<Rightarrow> (arm_c a, arm_bc a, Suc (length ws), w) \<in> set manifest \<and> arm_c a = 32
       \<and> (arm_bc a = 128 \<or> (32, 128, Suc (length ws), w) \<notin> set manifest
            \<and> \<not> (\<exists>bc. arm_bc a < bc \<and> (32, bc, Suc (length ws), w) \<in> set manifest))"
proof (cases "built_bcs (w # ws) manifest = []")
  case True
  then show ?thesis using built_bcs_iff [of _ w ws manifest] by (auto simp: arm_rule_def)
next
  case False
  let ?B = "set (built_bcs (w # ws) manifest)"
  have "finite ?B" "?B \<noteq> {}" using False by simp_all
  then have mx: "Max ?B \<in> ?B" "\<forall>bc\<in>?B. bc \<le> Max ?B" by simp_all
  show ?thesis
    using False mx by (auto simp: arm_rule_def Let_def built_bcs_iff [symmetric] PIN_C_def PIN_BC_def CHUNK_TOKENS_def
        dest: leD)
qed

text \<open>
  The warp's sub-box is 32 leaves at a value width of 64 and 16 at 128, but 64 at 32.
\<close>

theorem leaves_per_warp_values:
  "leaves_per_warp 64 = Inr 32 \<and> leaves_per_warp 128 = Inr 16 \<and> leaves_per_warp 32 = Inr 64
   \<and> box_leaves 64 WARPS_PER_CTA_SHIPPED = Inr 256"
  by (simp add: leaves_per_warp_def box_leaves_def LEAVES_PER_SM_NUMERATOR_def REGS_PER_SM_def STATE_FILE_NUMERATOR_def
      STATE_FILE_DENOMINATOR_def WARPS_PER_SM_def WARPS_PER_CTA_SHIPPED_def)

end
