(* ===== verification/Rola_Routing.thy ===== *)
theory Rola_Routing
  imports Rola_Topology Complex_Main
begin

text \<open>
  The activation registry (\<^verbatim>\<open>rola/routing/activations.py\<close>) and the routing levels
  (\<^verbatim>\<open>rola/routing/types.py\<close>): a level is its branch width and one or two activations, and every
  question asked of an activation is a lookup of its tag.
\<close>

section \<open>The registry\<close>

record activation_row =
  ar_normalized :: bool
  ar_simplex_output :: bool
  ar_exact_zeros :: bool
  ar_support_differentiable :: bool
  ar_kerneled :: bool

type_synonym activation_tag = "string \<times> rat option"

definition ACTIVATION_REGISTRY :: "(activation_tag \<times> activation_row) list" where
  "ACTIVATION_REGISTRY =
     [((''softmax'', None), \<lparr>ar_normalized = True, ar_simplex_output = True, ar_exact_zeros = False,
         ar_support_differentiable = True, ar_kerneled = True\<rparr>),
      ((''entmax'', Some (3/2)), \<lparr>ar_normalized = True, ar_simplex_output = True, ar_exact_zeros = True,
         ar_support_differentiable = False, ar_kerneled = True\<rparr>),
      ((''entmax'', Some 2), \<lparr>ar_normalized = True, ar_simplex_output = True, ar_exact_zeros = True,
         ar_support_differentiable = False, ar_kerneled = True\<rparr>),
      ((''opaque'', None), \<lparr>ar_normalized = True, ar_simplex_output = False, ar_exact_zeros = True,
         ar_support_differentiable = False, ar_kerneled = True\<rparr>)]"

definition properties_for :: "activation_tag \<Rightarrow> activation_row res" where
  "properties_for t =
     (case map_of ACTIVATION_REGISTRY t of
        Some row \<Rightarrow> Inr row | None \<Rightarrow> Inl (UnknownActivation ''no ratified activation''))"

definition ratified_entmax_alphas :: "rat list" where
  "ratified_entmax_alphas =
     sort (concat (map (\<lambda>((family, parameter), row).
       if family = ''entmax'' then (case parameter of Some p \<Rightarrow> [p] | None \<Rightarrow> []) else [])
       ACTIVATION_REGISTRY))"

text \<open>
  The \<^verbatim>\<open>alpha\<close> a caller passes: a real number is taken by the value \<^verbatim>\<open>float(alpha)\<close> has, a
  \<^verbatim>\<open>bool\<close> is refused before it is looked at as a number, NaN and the infinities are no row's key.
\<close>

datatype alpha_arg = RealAlpha rat | NonFiniteAlpha | BoolAlpha bool | OtherAlpha

definition validate_alpha :: "alpha_arg \<Rightarrow> rat res" where
  "validate_alpha a =
     (case a of
        RealAlpha r \<Rightarrow> rbind (properties_for (''entmax'', Some r)) (\<lambda>_. Inr r)
      | NonFiniteAlpha \<Rightarrow> Inl (UnknownActivation ''no ratified activation'')
      | _ \<Rightarrow> Inl (TypeError ''alpha must be a real scalar''))"

section \<open>Activations\<close>

text \<open>
  What stands in an activation's place: the three classes of the module, any other object that
  carries a \<^verbatim>\<open>tag\<close>, and an object without one.
\<close>

datatype activation = Softmax | Entmax rat | OpaqueActivation | Tagged activation_tag | Untagged

fun tag_of :: "activation \<Rightarrow> activation_tag option" where
  "tag_of Softmax = Some (''softmax'', None)"
| "tag_of (Entmax alpha) = Some (''entmax'', Some alpha)"
| "tag_of OpaqueActivation = Some (''opaque'', None)"
| "tag_of (Tagged t) = Some t"
| "tag_of Untagged = None"

definition make_entmax :: "alpha_arg \<Rightarrow> activation res" where
  "make_entmax a = rbind (validate_alpha a) (\<lambda>alpha. Inr (Entmax alpha))"

definition activation_properties :: "activation \<Rightarrow> activation_row res" where
  "activation_properties a =
     (case tag_of a of
        None \<Rightarrow> Inl (TypeError ''must be a routing activation carrying a registry tag'')
      | Some t \<Rightarrow> properties_for t)"

definition can_zero :: "activation \<Rightarrow> bool res" where
  "can_zero a = rbind (activation_properties a) (\<lambda>row. Inr (ar_exact_zeros row))"

section \<open>Levels\<close>

datatype level =
    IndependentLevel (lv_width: nat) (lv_read: activation) (lv_write: activation)
  | TiedLevel (lv_width: nat) (lv_op: activation)
  | UnionLevel (lv_width: nat) (lv_alpha: rat)
  | OpaqueLevel (lv_width: nat)

definition make_independent :: "pyval \<Rightarrow> activation \<Rightarrow> activation \<Rightarrow> level res" where
  "make_independent w read write =
     rbind (validate_level_width w) (\<lambda>n.
     rbind (activation_properties read) (\<lambda>r.
     rbind (activation_properties write) (\<lambda>v.
     if ar_exact_zeros r \<and> ar_exact_zeros v
     then Inl (ValueError ''two exact-zero sides need the same solve'')
     else Inr (IndependentLevel n read write))))"

definition make_union :: "pyval \<Rightarrow> alpha_arg \<Rightarrow> level res" where
  "make_union w a =
     rbind (validate_level_width w) (\<lambda>n.
     rbind (validate_alpha a) (\<lambda>alpha.
     rbind (properties_for (''entmax'', Some alpha)) (\<lambda>row.
     if \<not> ar_exact_zeros row then Inl (ValueError ''no support to intersect'')
     else Inr (UnionLevel n alpha))))"

definition make_tied :: "pyval \<Rightarrow> activation \<Rightarrow> level res" where
  "make_tied w a =
     rbind (validate_level_width w) (\<lambda>n. rbind (activation_properties a) (\<lambda>_. Inr (TiedLevel n a)))"

definition make_opaque :: "pyval \<Rightarrow> level res" where
  "make_opaque w = rbind (validate_level_width w) (\<lambda>n. Inr (OpaqueLevel n))"

definition is_duty :: "string \<Rightarrow> bool" where
  "is_duty duty \<longleftrightarrow> duty = ''read'' \<or> duty = ''write''"

definition bad_duty :: exc where "bad_duty = ValueError ''duty must be read or write''"

fun level_activation :: "level \<Rightarrow> string \<Rightarrow> activation res" where
  "level_activation (IndependentLevel w r v) duty =
     (if duty = ''read'' then Inr r else if duty = ''write'' then Inr v else Inl bad_duty)"
| "level_activation (TiedLevel w a) duty = (if \<not> is_duty duty then Inl bad_duty else Inr a)"
| "level_activation (UnionLevel w alpha) duty =
     (if \<not> is_duty duty then Inl bad_duty else make_entmax (RealAlpha alpha))"
| "level_activation (OpaqueLevel w) duty = (if \<not> is_duty duty then Inl bad_duty else Inr OpaqueActivation)"

fun level_at :: "level \<Rightarrow> pyval \<Rightarrow> level res" where
  "level_at (IndependentLevel w r v) n = make_independent n r v"
| "level_at (TiedLevel w a) n = make_tied n a"
| "level_at (UnionLevel w alpha) n = make_union n (RealAlpha alpha)"
| "level_at (OpaqueLevel w) n = make_opaque n"

fun duty_simplex_output :: "level \<Rightarrow> string \<Rightarrow> bool res" where
  "duty_simplex_output (IndependentLevel w r v) duty =
     rbind (level_activation (IndependentLevel w r v) duty) (\<lambda>a.
     rbind (activation_properties a) (\<lambda>row. Inr (ar_simplex_output row)))"
| "duty_simplex_output (UnionLevel w alpha) duty =
     (if \<not> is_duty duty then Inl bad_duty
      else if duty \<noteq> ''write'' then Inr False
      else rbind (properties_for (''entmax'', Some alpha)) (\<lambda>row. Inr (ar_simplex_output row)))"
| "duty_simplex_output (TiedLevel w a) duty =
     (if \<not> is_duty duty then Inl bad_duty
      else rbind (activation_properties a) (\<lambda>row. Inr (ar_simplex_output row)))"
| "duty_simplex_output (OpaqueLevel w) duty =
     rbind (level_activation (OpaqueLevel w) duty) (\<lambda>a.
     rbind (activation_properties a) (\<lambda>row. Inr (ar_simplex_output row)))"

section \<open>A constructed level\<close>

text \<open>The invariant every constructor establishes, the one \<^verbatim>\<open>at\<close> keeps.\<close>

definition known :: "activation \<Rightarrow> bool" where
  "known a \<longleftrightarrow> is_ok (activation_properties a)"

definition zeroes :: "activation \<Rightarrow> bool" where
  "zeroes a \<longleftrightarrow> (case activation_properties a of Inr row \<Rightarrow> ar_exact_zeros row | Inl _ \<Rightarrow> False)"

fun level_ok :: "level \<Rightarrow> bool" where
  "level_ok (IndependentLevel w r v) \<longleftrightarrow> 1 \<le> w \<and> w \<le> MAX_BRANCH_WIDTH \<and> known r \<and> known v \<and> \<not> (zeroes r \<and> zeroes v)"
| "level_ok (TiedLevel w a) \<longleftrightarrow> 1 \<le> w \<and> w \<le> MAX_BRANCH_WIDTH \<and> known a"
| "level_ok (UnionLevel w alpha) \<longleftrightarrow> 1 \<le> w \<and> w \<le> MAX_BRANCH_WIDTH \<and> known (Entmax alpha)"
| "level_ok (OpaqueLevel w) \<longleftrightarrow> 1 \<le> w \<and> w \<le> MAX_BRANCH_WIDTH"

lemma known_iff: "known a \<longleftrightarrow> (case tag_of a of None \<Rightarrow> False | Some t \<Rightarrow> t \<in> set (map fst ACTIVATION_REGISTRY))"
  by (auto simp: known_def activation_properties_def properties_for_def is_ok_iff ACTIVATION_REGISTRY_def
      split: option.splits)

lemma registry_normalized: "properties_for t = Inr row \<Longrightarrow> ar_normalized row \<and> ar_kerneled row"
  by (auto simp: properties_for_def ACTIVATION_REGISTRY_def split: option.splits if_splits)

lemma entmax_zeros: "properties_for (''entmax'', Some a) = Inr row \<Longrightarrow> ar_exact_zeros row"
  by (auto simp: properties_for_def ACTIVATION_REGISTRY_def split: option.splits if_splits)

lemma known_entmax: "known (Entmax a) \<longleftrightarrow> a = 3/2 \<or> a = 2"
  by (auto simp: known_iff ACTIVATION_REGISTRY_def)

lemma known_opaque: "known OpaqueActivation"
  by (simp add: known_iff ACTIVATION_REGISTRY_def)

lemma validate_alpha_Inr: "validate_alpha x = Inr a \<longleftrightarrow> x = RealAlpha a \<and> known (Entmax a)"
  by (cases x) (auto simp: validate_alpha_def res_simps known_def activation_properties_def is_ok_iff)

lemma make_entmax_Inr: "make_entmax x = Inr a \<longleftrightarrow> (\<exists>r. x = RealAlpha r \<and> a = Entmax r \<and> known (Entmax r))"
  by (auto simp: make_entmax_def res_simps validate_alpha_Inr)

lemma make_independent_Inr:
  "make_independent w r v = Inr l \<longleftrightarrow> (\<exists>n. w = PyInt (int n) \<and> l = IndependentLevel n r v \<and> level_ok l)"
  by (cases "activation_properties r"; cases "activation_properties v")
     (auto simp: make_independent_def res_simps validate_level_width_Inr known_def zeroes_def split: if_splits)

lemma make_tied_Inr:
  "make_tied w a = Inr l \<longleftrightarrow> (\<exists>n. w = PyInt (int n) \<and> l = TiedLevel n a \<and> level_ok l)"
  by (auto simp: make_tied_def res_simps validate_level_width_Inr known_def is_ok_iff)

lemma known_entmax_row: "known (Entmax b) \<longleftrightarrow> (\<exists>row. properties_for (''entmax'', Some b) = Inr row \<and> ar_exact_zeros row)"
  by (auto simp: known_def activation_properties_def is_ok_iff dest: entmax_zeros)

lemma make_union_Inr:
  "make_union w x = Inr l \<longleftrightarrow> (\<exists>n b. w = PyInt (int n) \<and> x = RealAlpha b \<and> l = UnionLevel n b \<and> level_ok l)"
  by (auto simp: make_union_def res_simps validate_level_width_Inr validate_alpha_Inr known_entmax_row
      dest: entmax_zeros split: if_splits)

lemma make_opaque_Inr:
  "make_opaque w = Inr l \<longleftrightarrow> (\<exists>n. w = PyInt (int n) \<and> l = OpaqueLevel n \<and> level_ok l)"
  by (auto simp: make_opaque_def res_simps validate_level_width_Inr)

lemmas make_level_Inr = make_independent_Inr make_tied_Inr make_union_Inr make_opaque_Inr

lemma level_at_ok:
  assumes "level_ok l"
  shows "level_at l (PyInt (int n)) = Inr m \<longleftrightarrow> 1 \<le> n \<and> n \<le> MAX_BRANCH_WIDTH \<and> lv_width m = n
     \<and> (\<exists>p. m = (case l of IndependentLevel w r v \<Rightarrow> IndependentLevel p r v | TiedLevel w a \<Rightarrow> TiedLevel p a
          | UnionLevel w b \<Rightarrow> UnionLevel p b | OpaqueLevel w \<Rightarrow> OpaqueLevel p))"
  using assms by (cases l) (auto simp: make_level_Inr)

lemma level_ok_width: "level_ok l \<Longrightarrow> 1 \<le> lv_width l \<and> lv_width l \<le> MAX_BRANCH_WIDTH"
  by (cases l) auto

lemma level_activation_known:
  "level_ok l \<Longrightarrow> is_duty duty \<Longrightarrow> \<exists>a. level_activation l duty = Inr a \<and> known a"
  by (cases l) (auto simp: is_duty_def make_entmax_Inr known_opaque)

lemma activation_properties_known: "known a \<Longrightarrow> \<exists>row. activation_properties a = Inr row \<and> ar_normalized row \<and> ar_kerneled row"
  by (auto simp: known_def activation_properties_def is_ok_iff dest: registry_normalized split: option.splits)

lemma known_simplex: "known a \<Longrightarrow> activation_properties a = Inr row
    \<Longrightarrow> ar_simplex_output row \<longleftrightarrow> tag_of a \<noteq> Some (''opaque'', None)"
  by (auto simp: activation_properties_def properties_for_def ACTIVATION_REGISTRY_def split: option.splits if_splits)

text \<open>
  Every level a constructor accepts answers both duties. A duty's factor is declared
  on the simplex exactly when its activation is not the foreign one and it is not the read half of
  a split solve; and two duties that both produce exact zeros share one solve.
\<close>

theorem accepted_level_answers:
  assumes "level_ok l"
  shows "\<exists>r v. level_activation l ''read'' = Inr r \<and> level_activation l ''write'' = Inr v \<and> known r \<and> known v
     \<and> duty_simplex_output l ''read'' = Inr (tag_of r \<noteq> Some (''opaque'', None) \<and> \<not> is_UnionLevel l)
     \<and> duty_simplex_output l ''write'' = Inr (tag_of v \<noteq> Some (''opaque'', None))
     \<and> (zeroes r \<and> zeroes v \<longrightarrow> r = v)"
proof -
  have row: "\<exists>row. activation_properties a = Inr row \<and> ar_simplex_output row = (tag_of a \<noteq> Some (''opaque'', None))"
    if "known a" for a
    using activation_properties_known [OF that] known_simplex [OF that] by blast
  show ?thesis
  proof (cases l)
    case (IndependentLevel w r v)
    with assms row [of r] row [of v] show ?thesis by auto
  next
    case (TiedLevel w a)
    with assms row [of a] show ?thesis by (auto simp: is_duty_def)
  next
    case (UnionLevel w b)
    with assms row [of "Entmax b"] show ?thesis
      by (auto simp: is_duty_def make_entmax_def validate_alpha_def activation_properties_def)
  next
    case (OpaqueLevel w)
    with row [OF known_opaque] show ?thesis by (auto simp: is_duty_def known_opaque)
  qed
qed

theorem accepted_level_answers_witness:
  "\<exists>r v. level_activation (IndependentLevel 31 Softmax (Entmax 2)) ''read'' = Inr r
     \<and> level_activation (IndependentLevel 31 Softmax (Entmax 2)) ''write'' = Inr v \<and> known r \<and> known v
     \<and> duty_simplex_output (IndependentLevel 31 Softmax (Entmax 2)) ''read'' =
         Inr (tag_of r \<noteq> Some (''opaque'', None) \<and> \<not> is_UnionLevel (IndependentLevel 31 Softmax (Entmax 2)))
     \<and> duty_simplex_output (IndependentLevel 31 Softmax (Entmax 2)) ''write'' = Inr (tag_of v \<noteq> Some (''opaque'', None))
     \<and> (zeroes r \<and> zeroes v \<longrightarrow> r = v)"
proof (rule accepted_level_answers)
  show "level_ok (IndependentLevel 31 Softmax (Entmax 2))"
    by (auto simp: MAX_BRANCH_WIDTH_def known_iff ACTIVATION_REGISTRY_def zeroes_def activation_properties_def
        properties_for_def)
qed

end
