(* ===== verification/Rola_Resolved.thy ===== *)
theory Rola_Resolved
  imports Rola_Routing Rola_Radix
begin

text \<open>
  \<^verbatim>\<open>ResolvedRouting\<close> and \<^verbatim>\<open>RouteDescriptor\<close> (\<^verbatim>\<open>rola/routing/types.py\<close>): the packed layout of
  the router's columns and of the support words, and the descriptor that checks it. A resolved
  routing is its list of levels; a slice is the pair of its bounds; a tensor is what the checks
  read of it.
\<close>

section \<open>Tensors as the checks see them\<close>

record tensor_meta =
  tm_shape :: "nat list"
  tm_dtype :: string
  tm_device :: string
  tm_contiguous :: bool
  tm_grad :: bool

datatype tensor_arg = Tensor tensor_meta | NotTensor

fun is_tensor :: "tensor_arg \<Rightarrow> bool" where
  "is_tensor (Tensor m) = True" | "is_tensor NotTensor = False"
fun meta_of :: "tensor_arg \<Rightarrow> tensor_meta" where
  "meta_of (Tensor m) = m"
| "meta_of NotTensor = \<lparr>tm_shape = [], tm_dtype = [], tm_device = [], tm_contiguous = False, tm_grad = False\<rparr>"

section \<open>The resolved routing\<close>

definition ROUTE_DESCRIPTOR_VERSION :: int where "ROUTE_DESCRIPTOR_VERSION = 2"
definition ROUTE_TILE_SIZE :: nat where "ROUTE_TILE_SIZE = 32"
definition READ_SUPPORT :: int where "READ_SUPPORT = 1"
definition WRITE_SUPPORT :: int where "WRITE_SUPPORT = 2"

definition level_logit_slice :: "nat list \<Rightarrow> nat \<Rightarrow> (nat \<times> nat) res" where
  "level_logit_slice branches index =
     (if length branches \<le> index then Inl (IndexError ''tuple index out of range'')
      else let start = sum_list (take index branches) in Inr (start, start + branches ! index))"

definition make_resolved :: "level list \<Rightarrow> level list res" where
  "make_resolved levels =
     (if levels = [] then Inl (ValueError ''levels must be nonempty'')
      else if \<exists>l\<in>set levels. is_OpaqueLevel l then Inl (TypeError ''invalid level'')
      else rbind (validate_routing_shape (map (\<lambda>l. PyInt (int (lv_width l))) levels)) (\<lambda>_.
        if \<exists>l\<in>set levels. lv_width l < 2 then Inl (ValueError ''branch widths must be >= 2'')
        else Inr levels))"

definition branches :: "level list \<Rightarrow> nat list" where "branches ls = map lv_width ls"
definition state_count :: "level list \<Rightarrow> nat" where "state_count ls = prod_list (branches ls)"

definition untied_levels :: "level list \<Rightarrow> nat list" where
  "untied_levels ls = filter (\<lambda>i. \<not> is_TiedLevel (ls ! i)) [0..<length ls]"

definition shared_solve_levels :: "level list \<Rightarrow> nat list" where
  "shared_solve_levels ls = filter (\<lambda>i. is_TiedLevel (ls ! i)) [0..<length ls]"

definition packed_slot_count :: "level list \<Rightarrow> nat" where
  "packed_slot_count ls = length ls + length (untied_levels ls)"

definition packed_read_slot_lookup :: "level list \<Rightarrow> nat list" where
  "packed_read_slot_lookup ls =
     (let read_slots = map_of (map (\<lambda>(slot, level). (level, length ls + slot))
            (zip [0..<length (untied_levels ls)] (untied_levels ls)))
      in map (\<lambda>level. case read_slots level of Some s \<Rightarrow> s | None \<Rightarrow> level) [0..<length ls])"

definition packed_slot_level :: "level list \<Rightarrow> nat list" where
  "packed_slot_level ls = [0..<length ls] @ untied_levels ls"

definition packed_slot_widths :: "level list \<Rightarrow> nat list" where
  "packed_slot_widths ls = map (\<lambda>l. branches ls ! l) (packed_slot_level ls)"

text \<open>The loop that appends \<^verbatim>\<open>offsets[-1] + width\<close>.\<close>

definition running_offsets :: "nat list \<Rightarrow> nat list" where
  "running_offsets ws = fold (\<lambda>w offs. offs @ [last offs + w]) ws [0]"

definition packed_slot_offsets :: "level list \<Rightarrow> nat list" where
  "packed_slot_offsets ls = running_offsets (packed_slot_widths ls)"

definition packed_router_width :: "level list \<Rightarrow> nat" where
  "packed_router_width ls = last (packed_slot_offsets ls)"

definition packed_slot_slice :: "level list \<Rightarrow> pyval \<Rightarrow> (nat \<times> nat) res" where
  "packed_slot_slice ls slot =
     (if \<not> is_exact_int slot \<or> \<not> (0 \<le> int_of slot \<and> int_of slot < int (packed_slot_count ls))
      then Inl (ValueError ''slot must be an exact int in range'')
      else let s = nat (int_of slot); offsets = packed_slot_offsets ls
           in Inr (offsets ! s, offsets ! (s + 1)))"

fun extend_runs :: "(nat \<times> nat) list \<Rightarrow> nat \<times> nat \<Rightarrow> (nat \<times> nat) list" where
  "extend_runs runs (start, stop) =
     (if runs \<noteq> [] \<and> snd (last runs) = start then butlast runs @ [(fst (last runs), stop)]
      else runs @ [(start, stop)])"

definition packed_column_runs :: "level list \<Rightarrow> pyval list \<Rightarrow> (nat \<times> nat) list res" where
  "packed_column_runs ls slots =
     rbind (rmap (packed_slot_slice ls) slots) (\<lambda>spans. Inr (foldl extend_runs [] spans))"

definition level_can_zero :: "string \<Rightarrow> level \<Rightarrow> bool res" where
  "level_can_zero duty l =
     (if is_UnionLevel l then Inr True
      else rbind (level_activation l duty) can_zero)"

definition read_level_can_zero :: "level list \<Rightarrow> bool list res" where
  "read_level_can_zero ls = rmap (level_can_zero ''read'') ls"
definition write_level_can_zero :: "level list \<Rightarrow> bool list res" where
  "write_level_can_zero ls = rmap (level_can_zero ''write'') ls"

definition level_offsets :: "level list \<Rightarrow> nat list" where
  "level_offsets ls = running_offsets (branches ls)"
definition packed_logit_width :: "level list \<Rightarrow> nat" where
  "packed_logit_width ls = last (level_offsets ls)"

definition resolved_radix_strides :: "level list \<Rightarrow> nat list" where
  "resolved_radix_strides ls = map (\<lambda>i. prod_list (drop (i + 1) (branches ls))) [0..<length ls]"

definition side_flag :: "bool \<Rightarrow> bool \<Rightarrow> int" where
  "side_flag r w = or (if r then READ_SUPPORT else 0) (if w then WRITE_SUPPORT else 0)"

definition support_side_flags :: "level list \<Rightarrow> int list res" where
  "support_side_flags ls =
     rbind (read_level_can_zero ls) (\<lambda>rs.
     rbind (write_level_can_zero ls) (\<lambda>ws.
       Inr (map2 side_flag rs ws)))"

fun offsets_from :: "int \<Rightarrow> (nat \<times> int) list \<Rightarrow> int list" where
  "offsets_from next_offset [] = []"
| "offsets_from next_offset ((w, flag) # rest) =
     (if flag = 0 then - 1 # offsets_from next_offset rest
      else next_offset # offsets_from (next_offset + int w) rest)"

definition support_offsets :: "level list \<Rightarrow> int list res" where
  "support_offsets ls =
     rbind (support_side_flags ls) (\<lambda>flags. Inr (offsets_from 0 (zip (branches ls) flags)))"

definition topology_stamp :: "level list \<Rightarrow> int list res" where
  "topology_stamp ls =
     rbind (support_side_flags ls) (\<lambda>flags.
       Inr ([ROUTE_DESCRIPTOR_VERSION, int (length ls)] @ map int (branches ls)
            @ map int (resolved_radix_strides ls) @ flags))"

definition read_can_zero :: "level list \<Rightarrow> bool res" where
  "read_can_zero ls = rbind (read_level_can_zero ls) (\<lambda>bs. Inr (True \<in> set bs))"
definition write_can_zero :: "level list \<Rightarrow> bool res" where
  "write_can_zero ls = rbind (write_level_can_zero ls) (\<lambda>bs. Inr (True \<in> set bs))"

definition validate_packed_router :: "level list \<Rightarrow> tensor_arg \<Rightarrow> tensor_arg option \<Rightarrow> nat res" where
  "validate_packed_router ls route_W route_bias =
     (if \<not> is_tensor route_W then Inl (TypeError ''route_W must be a torch.Tensor'')
      else let shape = tm_shape (meta_of route_W) in
        if length shape \<noteq> 3 then Inl (ValueError ''route_W must have rank 3'')
        else let heads = shape ! 0; width = shape ! 2 in
          if heads < 1 \<or> width \<noteq> packed_router_width ls then Inl (ValueError ''route_W shape'')
          else (case route_bias of None \<Rightarrow> Inr heads
            | Some bias \<Rightarrow>
                if \<not> is_tensor bias then Inl (TypeError ''route_bias must be a torch.Tensor or None'')
                else if tm_shape (meta_of bias) \<noteq> [heads, packed_router_width ls]
                then Inl (ValueError ''route_bias shape'')
                else Inr heads))"

section \<open>The descriptor\<close>

record route_descriptor =
  rd_read_values :: tensor_arg
  rd_write_values :: tensor_arg
  rd_support_words :: tensor_arg
  rd_level_offsets :: "pyval list"
  rd_support_offsets :: "pyval list"
  rd_level_widths :: "pyval list"
  rd_radix_strides :: "pyval list"
  rd_support_side_flags :: "pyval list"
  rd_token_origin :: pyval
  rd_token_count :: pyval
  rd_topology_stamp :: "pyval list"

text \<open>The loop over the support offsets; it returns the total width of the sparse levels.\<close>

fun check_support_offsets :: "int \<Rightarrow> (int \<times> int \<times> int) list \<Rightarrow> int res" where
  "check_support_offsets expected [] = Inr expected"
| "check_support_offsets expected ((offset, w, flag) # rest) =
     (if flag \<notin> {0, 1, 2, 3} then Inl (ValueError ''support_side_flags entries'')
      else if flag = 0 then
        if offset \<noteq> - 1 then Inl (ValueError ''dense routing levels must use support offset -1'')
        else check_support_offsets expected rest
      else if offset \<noteq> expected then Inl (ValueError ''support offsets must compactly represent each sparse level'')
      else check_support_offsets (expected + w) rest)"

definition int_strides :: "int list \<Rightarrow> int list" where
  "int_strides ws = map (\<lambda>i. prod_list (drop (i + 1) ws)) [0..<length ws]"

definition offsets_match :: "int list \<Rightarrow> int list \<Rightarrow> bool" where
  "offsets_match offsets ws \<longleftrightarrow> hd offsets = 0
     \<and> (\<forall>(start, stop, w)\<in>set (zip offsets (zip (tl offsets) ws)). stop - start = w \<and> 2 \<le> w)"

definition value_ok :: "tensor_meta \<Rightarrow> int list \<Rightarrow> bool" where
  "value_ok m shape \<longleftrightarrow> tm_dtype m = ''bfloat16'' \<and> map int (tm_shape m) = shape \<and> tm_contiguous m"

definition descriptor_tensors :: "route_descriptor \<Rightarrow> int list \<Rightarrow> int \<Rightarrow> int \<Rightarrow> unit res" where
  "descriptor_tensors r offsets sparse count =
     (let read = meta_of (rd_read_values r); write = meta_of (rd_write_values r);
          words = meta_of (rd_support_words r);
          tiles = (count + 31) div 32; bh = int (tm_shape read ! 0);
          shape = [bh, tiles, last offsets, 32] in
      checks
       [refuse (\<not> (value_ok read shape \<and> value_ok write shape)) (ValueError ''route values must be contiguous bf16'' ),
        refuse (tm_device read \<noteq> tm_device write) (ValueError ''read and write route arenas must share a device''),
        refuse (\<not> (tm_dtype words = ''int32'' \<and> map int (tm_shape words) = [bh, tiles, sparse]
                   \<and> tm_contiguous words \<and> tm_device words = tm_device read))
          (ValueError ''support_words must be contiguous int32'')])"

definition descriptor_post_init :: "route_descriptor \<Rightarrow> unit res" where
  "descriptor_post_init r =
     rbind (checks (map (\<lambda>t. refuse (\<not> is_tensor t) (TypeError ''must be a torch.Tensor''))
       [rd_read_values r, rd_write_values r, rd_support_words r])) (\<lambda>_.
     rbind (refuse (length (tm_shape (meta_of (rd_read_values r))) \<noteq> 4 \<or> length (tm_shape (meta_of (rd_write_values r))) \<noteq> 4)
       (ValueError ''route values must have rank 4'')) (\<lambda>_.
     rbind (refuse (length (tm_shape (meta_of (rd_support_words r))) \<noteq> 3) (ValueError ''support_words must have rank 3'')) (\<lambda>_.
     let d = length (rd_level_widths r); offsets = map int_of (rd_level_offsets r); ws = map int_of (rd_level_widths r);
         strides = map int_of (rd_radix_strides r); flags = map int_of (rd_support_side_flags r);
         stamp = map int_of (rd_topology_stamp r) in
     rbind (refuse (d = 0 \<or> length offsets \<noteq> d + 1) (ValueError ''level_offsets must contain D + 1 entries'')) (\<lambda>_.
     rbind (validate_routing_shape (rd_level_widths r)) (\<lambda>_.
     rbind (refuse (\<exists>v\<in>set (rd_level_offsets r @ rd_support_offsets r @ rd_level_widths r @ rd_radix_strides r
         @ rd_support_side_flags r @ rd_topology_stamp r). \<not> is_exact_int v) (TypeError ''metadata must contain exact ints'')) (\<lambda>_.
     rbind (refuse (length (rd_support_offsets r) \<noteq> d \<or> length strides \<noteq> d \<or> length flags \<noteq> d)
       (ValueError ''metadata must contain one entry per routing level'')) (\<lambda>_.
     rbind (refuse (\<not> offsets_match offsets ws) (ValueError ''level_offsets must be compact slices'')) (\<lambda>_.
     rbind (check_support_offsets 0 (zip (map int_of (rd_support_offsets r)) (zip ws flags))) (\<lambda>sparse.
     rbind (refuse (strides \<noteq> int_strides ws) (ValueError ''radix_strides must be canonical'')) (\<lambda>_.
     rbind (refuse (\<not> is_exact_int (rd_token_origin r) \<or> int_of (rd_token_origin r) < 0) (ValueError ''token_origin'')) (\<lambda>_.
     rbind (refuse (\<not> is_exact_int (rd_token_count r) \<or> int_of (rd_token_count r) < 0) (ValueError ''token_count'')) (\<lambda>_.
     rbind (descriptor_tensors r offsets sparse (int_of (rd_token_count r))) (\<lambda>_.
       refuse (stamp \<noteq> [ROUTE_DESCRIPTOR_VERSION, int d] @ ws @ strides @ flags)
         (ValueError ''topology_stamp does not match''))))))))))))))"

section \<open>The descriptor of a resolved routing\<close>

text \<open>
  \<^verbatim>\<open>production_routing_factors\<close> (\<^verbatim>\<open>rola/routing/entmax/production.py\<close>): the logits' checks, the solve,
  and the descriptor built from the routing's own properties. The solve
  (\<^verbatim>\<open>_ProductionRoutingArenaFn\<close>) is a parameter: it returns the two value arenas and the support
  words, or raises.
\<close>

definition resolved_descriptor ::
    "level list \<Rightarrow> tensor_arg \<times> tensor_arg \<times> tensor_arg \<Rightarrow> pyval \<Rightarrow> nat \<Rightarrow> route_descriptor res" where
  "resolved_descriptor ls outputs origin count =
     (case outputs of (read, write, words) \<Rightarrow>
      rbind (support_offsets ls) (\<lambda>offs.
      rbind (support_side_flags ls) (\<lambda>flags.
      rbind (topology_stamp ls) (\<lambda>stamp.
      let r = \<lparr>rd_read_values = read, rd_write_values = write, rd_support_words = words,
               rd_level_offsets = map (PyInt \<circ> int) (level_offsets ls), rd_support_offsets = map PyInt offs,
               rd_level_widths = map (PyInt \<circ> int) (branches ls),
               rd_radix_strides = map (PyInt \<circ> int) (resolved_radix_strides ls),
               rd_support_side_flags = map PyInt flags, rd_token_origin = origin,
               rd_token_count = PyInt (int count), rd_topology_stamp = map PyInt stamp\<rparr>
      in rbind (descriptor_post_init r) (\<lambda>_. Inr r)))))"

definition production_routing_factors ::
    "(tensor_meta \<Rightarrow> tensor_meta \<Rightarrow> level list \<Rightarrow> (tensor_arg \<times> tensor_arg \<times> tensor_arg) res)
     \<Rightarrow> tensor_meta \<Rightarrow> tensor_meta \<Rightarrow> level list \<Rightarrow> pyval \<Rightarrow> route_descriptor res" where
  "production_routing_factors solve read_logits write_logits ls origin =
     (if tm_shape read_logits \<noteq> tm_shape write_logits
      then Inl (ValueError ''read/write logits must have identical shapes'')
      else if \<not> is_exact_int origin \<or> int_of origin < 0
      then Inl (ValueError ''token_origin must be a nonnegative exact int'')
      else if length (tm_shape read_logits) \<noteq> 3 \<or> last (tm_shape read_logits) \<noteq> packed_logit_width ls
      then Inl (ValueError ''routing logits must be [BH, T, packed_logit_width]'')
      else rbind (solve read_logits write_logits ls) (\<lambda>outputs.
        resolved_descriptor ls outputs origin (tm_shape read_logits ! 1)))"

end
