(* ===== verification/Rola_Resolved_Props.thy ===== *)
theory Rola_Resolved_Props
  imports Rola_Resolved
begin

text \<open>
  The packed layout is a tiling, the merged column runs cover exactly the slots' columns, the
  descriptor's constructor accepts exactly the lawful descriptors, and the production entry returns
  one exactly when its solve fills the arenas the routing names.
\<close>

section \<open>Offsets\<close>

lemma running_offsets_snoc: "running_offsets (ws @ [w]) = running_offsets ws @ [last (running_offsets ws) + w]"
  by (simp add: running_offsets_def)

lemma running_offsets_props:
  "length (running_offsets ws) = Suc (length ws) \<and> (\<forall>i\<le>length ws. running_offsets ws ! i = sum_list (take i ws))"
proof (induction ws rule: rev_induct)
  case Nil
  then show ?case by (simp add: running_offsets_def)
next
  case (snoc w ws)
  then have "running_offsets ws \<noteq> []" by auto
  with snoc have "last (running_offsets ws) = sum_list ws" by (simp add: last_conv_nth)
  with snoc show ?case by (auto simp: running_offsets_snoc nth_append le_Suc_eq)
qed

lemma length_running_offsets [simp]: "length (running_offsets ws) = Suc (length ws)"
  and nth_running_offsets: "i \<le> length ws \<Longrightarrow> running_offsets ws ! i = sum_list (take i ws)"
  using running_offsets_props by auto

lemma last_running_offsets [simp]: "last (running_offsets ws) = sum_list ws"
proof -
  have "running_offsets ws \<noteq> []" using length_running_offsets [of ws] by (metis list.size(3) nat.distinct(1))
  then show ?thesis by (simp add: last_conv_nth nth_running_offsets)
qed

lemma make_resolved_Inr:
  "make_resolved ls = Inr ms \<longleftrightarrow> ms = ls \<and> ls \<noteq> [] \<and> length ls \<le> MAX_ROUTING_DEPTH
     \<and> (\<forall>l\<in>set ls. \<not> is_OpaqueLevel l \<and> 2 \<le> lv_width l \<and> lv_width l \<le> MAX_BRANCH_WIDTH)"
proof -
  have "validate_routing_shape (map (\<lambda>l. PyInt (int (lv_width l))) ls) = Inr ws \<longleftrightarrow>
      ls \<noteq> [] \<and> length ls \<le> MAX_ROUTING_DEPTH \<and> ws = map (\<lambda>l. int (lv_width l)) ls
      \<and> (\<forall>l\<in>set ls. lv_width l \<le> MAX_BRANCH_WIDTH)" for ws
  proof -
    have "map (\<lambda>l. PyInt (int (lv_width l))) ls = map PyInt ws \<longleftrightarrow> map (\<lambda>l. int (lv_width l)) ls = ws"
      using inj_map_eq_map [of PyInt "map (\<lambda>l. int (lv_width l)) ls" ws] by (simp add: inj_def comp_def)
    then show ?thesis unfolding validate_routing_shape_Inr by auto
  qed
  then show ?thesis
    by (cases "\<exists>l\<in>set ls. lv_width l < 2") (force simp: make_resolved_def res_simps split: if_splits)+
qed

lemma length_branches [simp]: "length (branches ls) = length ls"
  by (simp add: branches_def)

lemma untied_props [simp]: "distinct (untied_levels ls)" "i \<in> set (untied_levels ls) \<longleftrightarrow> i < length ls \<and> \<not> is_TiedLevel (ls ! i)"
  by (auto simp: untied_levels_def)

lemma length_packed_slot_level [simp]: "length (packed_slot_level ls) = packed_slot_count ls"
  by (simp add: packed_slot_level_def packed_slot_count_def)

lemma length_packed_slot_widths [simp]: "length (packed_slot_widths ls) = packed_slot_count ls"
  by (simp add: packed_slot_widths_def)

lemma write_slots_widths: "take (length ls) (packed_slot_widths ls) = branches ls"
  by (rule nth_equalityI) (simp_all add: packed_slot_widths_def packed_slot_level_def nth_append packed_slot_count_def)

lemma packed_slot_slice_Inr:
  "s < packed_slot_count ls \<Longrightarrow> packed_slot_slice ls (PyInt (int s)) =
     Inr (sum_list (take s (packed_slot_widths ls)), sum_list (take (Suc s) (packed_slot_widths ls)))"
  by (simp add: packed_slot_slice_def Let_def packed_slot_offsets_def nth_running_offsets)

lemma nth_map_default:
  "i < n \<Longrightarrow> map (\<lambda>l. case m l of None \<Rightarrow> l | Some s \<Rightarrow> s) [0..<n] ! i = (case m i of None \<Rightarrow> i | Some s \<Rightarrow> s)"
  by (cases "m i") simp_all

lemma read_lookup:
  assumes "l < length ls"
  shows "packed_read_slot_lookup ls ! l < packed_slot_count ls
    \<and> packed_slot_level ls ! (packed_read_slot_lookup ls ! l) = l
    \<and> (packed_read_slot_lookup ls ! l = l \<longleftrightarrow> is_TiedLevel (ls ! l))"
proof -
  let ?u = "untied_levels ls" and ?D = "length ls"
  have zip: "map (\<lambda>(slot, level). (level, ?D + slot)) (zip [0..<length ?u] ?u) = zip ?u (map (\<lambda>s. ?D + s) [0..<length ?u])"
    by (rule nth_equalityI) auto
  have lk: "packed_read_slot_lookup ls ! l =
      (case map_of (zip ?u (map (\<lambda>s. ?D + s) [0..<length ?u])) l of Some s \<Rightarrow> s | None \<Rightarrow> l)"
    using assms by (simp only: packed_read_slot_lookup_def Let_def zip nth_map_default)
  show ?thesis
  proof (cases "is_TiedLevel (ls ! l)")
    case True
    then have "map_of (zip ?u (map (\<lambda>s. ?D + s) [0..<length ?u])) l = None" by (simp add: map_of_zip_is_None)
    then have "packed_read_slot_lookup ls ! l = l" by (simp only: lk option.case)
    with True assms show ?thesis by (simp add: packed_slot_level_def nth_append packed_slot_count_def)
  next
    case False
    with assms have "l \<in> set ?u" by simp
    then obtain k where k: "k < length ?u" "?u ! k = l" by (auto simp: in_set_conv_nth)
    have "map_of (zip ?u (map (\<lambda>s. ?D + s) [0..<length ?u])) (?u ! k) = Some (map (\<lambda>s. ?D + s) [0..<length ?u] ! k)"
      by (rule map_of_zip_nth) (use k in simp_all)
    then have "map_of (zip ?u (map (\<lambda>s. ?D + s) [0..<length ?u])) l = Some (?D + k)" using k by simp
    then have "packed_read_slot_lookup ls ! l = ?D + k" by (simp only: lk option.case)
    with False assms k show ?thesis by (simp add: packed_slot_level_def nth_append packed_slot_count_def)
  qed
qed

text \<open>
  The packed router layout: the slots tile its columns in order with no padding, each
  as wide as the level it feeds; every level has a write slot at its own index and a read slot
  that feeds it, the same slot exactly when the level is tied; the write side is the leading
  block, on the offsets of one side's logits.
\<close>

theorem packed_layout_tiles:
  assumes "l < length ls" "s < packed_slot_count ls"
  shows "(\<exists>start. packed_slot_slice ls (PyInt (int s)) = Inr (start, start + branches ls ! (packed_slot_level ls ! s))
        \<and> start = sum_list (map (\<lambda>i. branches ls ! i) (take s (packed_slot_level ls))))
     \<and> packed_router_width ls = sum_list (map (\<lambda>i. branches ls ! i) (packed_slot_level ls))
     \<and> packed_slot_level ls ! l = l \<and> packed_slot_level ls ! (packed_read_slot_lookup ls ! l) = l
     \<and> (packed_read_slot_lookup ls ! l = l \<longleftrightarrow> is_TiedLevel (ls ! l))
     \<and> level_logit_slice (branches ls) l = packed_slot_slice ls (PyInt (int l))
     \<and> packed_logit_width ls = packed_slot_offsets ls ! length ls"
proof -
  have lc: "l < packed_slot_count ls" using assms(1) by (simp add: packed_slot_count_def)
  have w: "packed_slot_widths ls ! s = branches ls ! (packed_slot_level ls ! s)"
    using assms(2) by (simp add: packed_slot_widths_def)
  have "packed_slot_slice ls (PyInt (int s)) = Inr (sum_list (take s (packed_slot_widths ls)),
      sum_list (take s (packed_slot_widths ls)) + branches ls ! (packed_slot_level ls ! s))"
    using assms(2) w by (simp add: packed_slot_slice_Inr take_Suc_conv_app_nth)
  moreover have "take s (packed_slot_widths ls) = map (\<lambda>i. branches ls ! i) (take s (packed_slot_level ls))"
    by (simp add: packed_slot_widths_def take_map)
  moreover have "packed_router_width ls = sum_list (map (\<lambda>i. branches ls ! i) (packed_slot_level ls))"
    by (simp add: packed_router_width_def packed_slot_offsets_def packed_slot_widths_def)
  moreover have "packed_slot_level ls ! l = l" using assms(1) by (simp add: packed_slot_level_def nth_append)
  moreover have "level_logit_slice (branches ls) l = packed_slot_slice ls (PyInt (int l))"
  proof -
    have "take l (branches ls) = take l (packed_slot_widths ls)"
      unfolding write_slots_widths [symmetric] using assms(1) by (simp add: min_def)
    moreover have "packed_slot_widths ls ! l = branches ls ! l"
      using assms(1) lc by (simp add: packed_slot_widths_def packed_slot_level_def nth_append)
    ultimately show ?thesis
      using assms(1) lc by (simp add: level_logit_slice_def Let_def packed_slot_slice_Inr take_Suc_conv_app_nth)
  qed
  moreover have "packed_logit_width ls = packed_slot_offsets ls ! length ls"
    by (simp add: packed_logit_width_def level_offsets_def packed_slot_offsets_def nth_running_offsets
        packed_slot_count_def write_slots_widths)
  ultimately show ?thesis using read_lookup [OF assms(1)] by auto
qed

theorem packed_layout_tiles_witness:
  "(let ls = [IndependentLevel 64 Softmax (Entmax 2), TiedLevel 32 Softmax] in
     packed_slot_slice ls (PyInt 2) = Inr (96, 160) \<and> packed_read_slot_lookup ls ! 0 = 2
     \<and> packed_router_width ls = 160 \<and> packed_logit_width ls = 96)"
proof -
  let ?ls = "[IndependentLevel 64 Softmax (Entmax 2), TiedLevel 32 Softmax]"
  have sl: "packed_slot_level ?ls = [0, 1, 0]" "packed_slot_count ?ls = 3"
    by (simp_all add: packed_slot_level_def packed_slot_count_def untied_levels_def upt_rec)
  have "packed_slot_offsets ?ls ! 2 = 96"
    by (simp add: packed_slot_offsets_def nth_running_offsets packed_slot_widths_def sl branches_def)
  with packed_layout_tiles [of 0 ?ls 2] sl read_lookup [of 0 ?ls] show ?thesis
    by (auto simp: branches_def nth_append less_Suc_eq numeral_3_eq_3 numeral_2_eq_2)
qed

section \<open>Column runs\<close>

definition columns :: "(nat \<times> nat) list \<Rightarrow> nat list" where
  "columns spans = concat (map (\<lambda>(start, stop). [start..<stop]) spans)"

fun abut_free :: "(nat \<times> nat) list \<Rightarrow> bool" where
  "abut_free ((a, b) # (c, d) # rest) = (b \<noteq> c \<and> abut_free ((c, d) # rest))"
| "abut_free _ = True"

lemma abut_free_snoc:
  "abut_free (xs @ [x]) \<longleftrightarrow> abut_free xs \<and> (xs \<noteq> [] \<longrightarrow> snd (last xs) \<noteq> fst x)"
  by (induction xs rule: abut_free.induct) (cases x; auto)+

lemma abut_free_last: "abut_free (xs @ [(a, b)]) \<longleftrightarrow> abut_free (xs @ [(a, c)])"
  by (simp add: abut_free_snoc)

lemma extend_runs_step:
  assumes "\<forall>(a, b)\<in>set runs. a \<le> b" "start \<le> stop" "abut_free runs"
  shows "columns (extend_runs runs (start, stop)) = columns runs @ [start..<stop]
    \<and> abut_free (extend_runs runs (start, stop)) \<and> (\<forall>(a, b)\<in>set (extend_runs runs (start, stop)). a \<le> b)"
proof (cases "runs \<noteq> [] \<and> snd (last runs) = start")
  case True
  then obtain init a where runs: "runs = init @ [(a, start)]"
    by (metis append_butlast_last_id prod.collapse)
  with assms have "a \<le> start" by auto
  then have "[a..<start] @ [start..<stop] = [a..<stop]" using assms(2) upt_add_eq_append [of a start "stop - start"] by simp
  then show ?thesis using assms runs abut_free_last [of init a start stop] by (auto simp: columns_def)
next
  case False
  then show ?thesis using assms by (auto simp: columns_def abut_free_snoc)
qed

lemma extend_all_runs:
  assumes "\<forall>(a, b)\<in>set runs. a \<le> b" "\<forall>(a, b)\<in>set spans. a \<le> b" "abut_free runs"
  shows "columns (foldl extend_runs runs spans) = columns runs @ columns spans \<and> abut_free (foldl extend_runs runs spans)"
  using assms
proof (induction spans arbitrary: runs)
  case (Cons sp spans)
  obtain a b where sp: "sp = (a, b)" by (cases sp)
  have "a \<le> b" using Cons.prems sp by auto
  note st = extend_runs_step [OF Cons.prems(1) this Cons.prems(3)]
  have "columns (foldl extend_runs (extend_runs runs (a, b)) spans) = columns (extend_runs runs (a, b)) @ columns spans
      \<and> abut_free (foldl extend_runs (extend_runs runs (a, b)) spans)"
    by (rule Cons.IH) (use st Cons.prems in auto)
  with st sp show ?case by (simp add: columns_def)
qed (simp add: columns_def)

definition slot_columns :: "level list \<Rightarrow> nat \<Rightarrow> nat list" where
  "slot_columns ls s = [sum_list (take s (packed_slot_widths ls))..<sum_list (take (Suc s) (packed_slot_widths ls))]"

lemma slot_spans:
  "\<forall>s\<in>set slots. s < packed_slot_count ls \<Longrightarrow>
   \<exists>spans. rmap (packed_slot_slice ls) (map (\<lambda>s. PyInt (int s)) slots) = Inr spans
     \<and> columns spans = concat (map (slot_columns ls) slots) \<and> (\<forall>(a, b)\<in>set spans. a \<le> b)"
proof (induction slots)
  case (Cons s slots)
  then obtain spans where "rmap (packed_slot_slice ls) (map (\<lambda>s. PyInt (int s)) slots) = Inr spans"
    "columns spans = concat (map (slot_columns ls) slots)" "\<forall>(a, b)\<in>set spans. a \<le> b" by auto
  moreover have "sum_list (take s (packed_slot_widths ls)) \<le> sum_list (take (Suc s) (packed_slot_widths ls))"
    using Cons.prems by (simp add: take_Suc_conv_app_nth)
  moreover have "slot_columns ls s = [sum_list (take s (packed_slot_widths ls))..<sum_list (take (Suc s) (packed_slot_widths ls))]"
    by (simp add: slot_columns_def)
  ultimately show ?case using Cons.prems
    by (simp add: packed_slot_slice_Inr columns_def)
qed (simp add: columns_def)

text \<open>
  Merging the slots' spans loses and adds no column and keeps their order, and no two
  neighbouring runs could be merged further.
\<close>

theorem packed_column_runs_correct:
  assumes "\<forall>s\<in>set slots. s < packed_slot_count ls"
  shows "\<exists>runs. packed_column_runs ls (map (\<lambda>s. PyInt (int s)) slots) = Inr runs
     \<and> columns runs = concat (map (slot_columns ls) slots) \<and> abut_free runs"
proof -
  obtain spans where sp: "rmap (packed_slot_slice ls) (map (\<lambda>s. PyInt (int s)) slots) = Inr spans"
    "columns spans = concat (map (slot_columns ls) slots)" "\<forall>(a, b)\<in>set spans. a \<le> b"
    using slot_spans [OF assms] by blast
  with extend_all_runs [of "[]" spans] show ?thesis
    by (simp add: packed_column_runs_def columns_def)
qed

theorem packed_column_runs_correct_witness:
  "\<exists>runs. packed_column_runs [IndependentLevel 64 Softmax (Entmax 2), TiedLevel 32 Softmax]
       (map (\<lambda>s. PyInt (int s)) [0, 1]) = Inr runs
     \<and> columns runs = concat (map (slot_columns [IndependentLevel 64 Softmax (Entmax 2), TiedLevel 32 Softmax]) [0, 1])
     \<and> abut_free runs"
  by (rule packed_column_runs_correct) (simp add: packed_slot_count_def)

section \<open>The descriptor of a resolved routing\<close>

lemma level_can_zero_ok:
  "level_ok l \<Longrightarrow> is_duty duty \<Longrightarrow> \<exists>b. level_can_zero duty l = Inr b"
  using level_activation_known [of l duty]
  by (auto simp: level_can_zero_def can_zero_def dest!: activation_properties_known)

lemma rmap_total: "\<forall>x\<in>set xs. \<exists>y. f x = Inr y \<Longrightarrow> \<exists>ys. rmap f xs = Inr ys \<and> length ys = length xs"
proof (induction xs)
  case (Cons x xs)
  then obtain y ys where "f x = Inr y" "rmap f xs = Inr ys" "length ys = length xs" by auto
  then show ?case by simp
qed simp

lemma flag_value: "side_flag a b \<in> {0, 1, 2, 3}"
  by (cases a; cases b; simp add: side_flag_def READ_SUPPORT_def WRITE_SUPPORT_def)

lemma support_flags_ok:
  assumes "\<forall>l\<in>set ls. level_ok l"
  shows "\<exists>flags. support_side_flags ls = Inr flags \<and> length flags = length ls \<and> set flags \<subseteq> {0, 1, 2, 3}"
proof -
  obtain rs where rs: "read_level_can_zero ls = Inr rs" "length rs = length ls"
    using rmap_total [of ls "level_can_zero ''read''"] level_can_zero_ok [of _ "''read''"] assms
    by (auto simp: read_level_can_zero_def is_duty_def)
  obtain ws where ws: "write_level_can_zero ls = Inr ws" "length ws = length ls"
    using rmap_total [of ls "level_can_zero ''write''"] level_can_zero_ok [of _ "''write''"] assms
    by (auto simp: write_level_can_zero_def is_duty_def)
  show ?thesis using rs ws
    using flag_value by (fastforce simp: support_side_flags_def simp del: insert_iff)
qed

lemma support_offsets_compact:
  assumes "length ws = length flags" "set flags \<subseteq> {0, 1, 2, 3}"
  shows "\<exists>total. check_support_offsets base (zip (offsets_from base (zip ws flags)) (zip (map int ws) flags)) = Inr total
    \<and> total = base + int (sum_list (map fst (filter (\<lambda>(w, f). f \<noteq> 0) (zip ws flags))))"
  using assms
proof (induction ws flags arbitrary: base rule: list_induct2)
  case (Cons w ws f flags)
  from Cons.IH [of "base + int w"] Cons.IH [of base] Cons.prems show ?case by auto
qed simp

lemma int_strides_branches: "int_strides (map int ws) = map int (map (\<lambda>i. prod_list (drop (i + 1) ws)) [0..<length ws])"
proof -
  have "prod_list (map int xs) = int (prod_list xs)" for xs by (induction xs) auto
  then show ?thesis by (simp add: int_strides_def drop_map)
qed

lemma length_offsets_from [simp]: "length (offsets_from base xs) = length xs"
  by (induction base xs rule: offsets_from.induct) auto

subsection \<open>What the constructor accepts\<close>

text \<open>
  The lawful descriptors, one field at a time: \<open>ws\<close> the widths, \<open>flags\<close> the side flags, the level
  offsets their prefix sums, a support offset the width of the flagged levels before its own, the
  strides the products of the widths behind, the stamp the version and the three lists. The arenas
  hold one tile of 32 tokens per row and the support words one column per flagged digit.
\<close>

definition flagged_width :: "(nat \<times> int) list \<Rightarrow> nat" where
  "flagged_width wfs = sum_list (map fst (filter (\<lambda>(w, f). f \<noteq> 0) wfs))"

definition lawful_arenas :: "nat \<Rightarrow> nat \<Rightarrow> nat \<Rightarrow> tensor_arg \<Rightarrow> tensor_arg \<Rightarrow> tensor_arg \<Rightarrow> bool" where
  "lawful_arenas width sparse count read write words \<longleftrightarrow> (\<exists>bh dev g g' g''.
     read = Tensor \<lparr>tm_shape = [bh, (count + 31) div 32, width, 32], tm_dtype = ''bfloat16'', tm_device = dev,
        tm_contiguous = True, tm_grad = g\<rparr>
     \<and> write = Tensor \<lparr>tm_shape = [bh, (count + 31) div 32, width, 32], tm_dtype = ''bfloat16'', tm_device = dev,
        tm_contiguous = True, tm_grad = g'\<rparr>
     \<and> words = Tensor \<lparr>tm_shape = [bh, (count + 31) div 32, sparse], tm_dtype = ''int32'', tm_device = dev,
        tm_contiguous = True, tm_grad = g''\<rparr>)"

definition lawful_descriptor :: "route_descriptor \<Rightarrow> bool" where
  "lawful_descriptor r \<longleftrightarrow> (\<exists>ws flags origin count.
     ws \<noteq> [] \<and> length ws \<le> 4 \<and> (\<forall>w\<in>set ws. 2 \<le> w \<and> w \<le> 256)
     \<and> length flags = length ws \<and> set flags \<subseteq> {0, 1, 2, 3}
     \<and> rd_level_widths r = map (\<lambda>w. PyInt (int w)) ws
     \<and> rd_support_side_flags r = map PyInt flags
     \<and> rd_level_offsets r = map (\<lambda>i. PyInt (int (sum_list (take i ws)))) [0..<length ws + 1]
     \<and> rd_support_offsets r = map (\<lambda>i. PyInt (if flags ! i = 0 then - 1
          else int (flagged_width (take i (zip ws flags))))) [0..<length ws]
     \<and> rd_radix_strides r = map (\<lambda>i. PyInt (int (prod_list (drop (i + 1) ws)))) [0..<length ws]
     \<and> rd_topology_stamp r = map PyInt ([2, int (length ws)] @ map int ws
          @ map (\<lambda>i. int (prod_list (drop (i + 1) ws))) [0..<length ws] @ flags)
     \<and> rd_token_origin r = PyInt (int origin) \<and> rd_token_count r = PyInt (int count)
     \<and> lawful_arenas (sum_list ws) (flagged_width (zip ws flags)) count
          (rd_read_values r) (rd_write_values r) (rd_support_words r))"

lemma flagged_width_simps [simp]:
  "flagged_width [] = 0" "flagged_width ((w, f) # wfs) = (if f = 0 then 0 else w) + flagged_width wfs"
  by (simp_all add: flagged_width_def)

lemma prefix_sums_iff:
  "length os = Suc (length ws) \<Longrightarrow>
   os ! 0 = b \<and> (\<forall>(x, y, w)\<in>set (zip os (zip (tl os) ws)). y - x = w) \<longleftrightarrow>
   os = map (\<lambda>i. b + sum_list (take i ws)) [0..<Suc (length ws)]" for ws :: "int list"
proof (induction ws arbitrary: os b)
  case Nil
  then show ?case by (auto simp: length_Suc_conv)
next
  case (Cons w ws)
  then obtain x y zs where os: "os = x # y # zs" "length (y # zs) = Suc (length ws)" by (auto simp: length_Suc_conv)
  have "[0..<Suc (length (w # ws))] = 0 # map Suc [0..<Suc (length ws)]"
    by (simp add: upt_conv_Cons map_Suc_upt del: upt_Suc)
  then have m: "map (\<lambda>i. b + sum_list (take i (w # ws))) [0..<Suc (length (w # ws))]
      = b # map (\<lambda>i. (b + w) + sum_list (take i ws)) [0..<Suc (length ws)]"
    by (simp add: comp_def ac_simps del: upt_Suc)
  have "os ! 0 = b \<and> (\<forall>(x, y, w)\<in>set (zip os (zip (tl os) (w # ws))). y - x = w)
    \<longleftrightarrow> x = b \<and> (y # zs) ! 0 = b + w
       \<and> (\<forall>(x, y, w)\<in>set (zip (y # zs) (zip (tl (y # zs)) ws)). y - x = w)"
    unfolding os(1) by (auto simp del: upt_Suc)
  then show ?case unfolding Cons.IH [OF os(2)] m unfolding os(1) by simp
qed

lemma support_loop_iff:
  "length offs = length ws \<Longrightarrow> length flags = length ws \<Longrightarrow>
   check_support_offsets b (zip offs (zip (map int ws) flags)) = Inr sparse \<longleftrightarrow>
   set flags \<subseteq> {0, 1, 2, 3} \<and> sparse = b + int (flagged_width (zip ws flags))
   \<and> offs = map (\<lambda>i. if flags ! i = 0 then - 1 else b + int (flagged_width (take i (zip ws flags)))) [0..<length ws]"
proof (induction ws arbitrary: offs flags b)
  case Nil
  then show ?case by auto
next
  case (Cons w ws)
  then obtain x xs f fs where xs: "offs = x # xs" "flags = f # fs" "length xs = length ws" "length fs = length ws"
    by (auto simp: length_Suc_conv)
  have u: "[0..<length (w # ws)] = 0 # map Suc [0..<length ws]"
    by (simp add: upt_conv_Cons map_Suc_upt del: upt_Suc)
  have m: "map (\<lambda>i. if flags ! i = 0 then - 1 else b + int (flagged_width (take i (zip (w # ws) flags)))) [0..<length (w # ws)]
      = (if f = 0 then - 1 else b) # map (\<lambda>i. if fs ! i = 0 then - 1
          else (if f = 0 then b else b + int w) + int (flagged_width (take i (zip ws fs)))) [0..<length ws]"
    unfolding u xs by (simp add: comp_def ac_simps)
  show ?case
  proof (cases "f = 0")
    case True
    then show ?thesis using Cons.IH [OF xs(3,4), of b] unfolding m unfolding xs by simp
  next
    case False
    then show ?thesis using Cons.IH [OF xs(3,4), of "b + int w"] unfolding m unfolding xs by (simp add: ac_simps)
  qed
qed

text \<open>The constructor's checks, with the untyped lists read as lists of integers.\<close>

definition ints_accepted :: "route_descriptor \<Rightarrow> int list \<Rightarrow> int list \<Rightarrow> int list \<Rightarrow> int list \<Rightarrow> int list \<Rightarrow> int \<Rightarrow> int \<Rightarrow> bool" where
  "ints_accepted r offs soffs ws strides flags origin count \<longleftrightarrow>
     rd_level_offsets r = map PyInt offs \<and> rd_support_offsets r = map PyInt soffs
     \<and> rd_level_widths r = map PyInt ws \<and> rd_radix_strides r = map PyInt strides
     \<and> rd_support_side_flags r = map PyInt flags \<and> rd_token_origin r = PyInt origin \<and> rd_token_count r = PyInt count
     \<and> rd_topology_stamp r = map PyInt ([2, int (length ws)] @ ws @ strides @ flags)
     \<and> 0 \<le> origin \<and> 0 \<le> count \<and> ws \<noteq> [] \<and> length ws \<le> 4 \<and> (\<forall>w\<in>set ws. w \<le> 256)
     \<and> length offs = Suc (length ws) \<and> length soffs = length ws \<and> length flags = length ws
     \<and> offsets_match offs ws \<and> strides = int_strides ws
     \<and> (\<exists>sparse. check_support_offsets 0 (zip soffs (zip ws flags)) = Inr sparse
          \<and> is_tensor (rd_read_values r) \<and> is_tensor (rd_write_values r) \<and> is_tensor (rd_support_words r)
          \<and> length (tm_shape (meta_of (rd_read_values r))) = 4
          \<and> descriptor_tensors r offs sparse count = Inr ())"

lemma exact_ints: "\<forall>v\<in>set xs. is_exact_int v \<Longrightarrow> map PyInt (map int_of xs) = xs"
  by (simp add: comp_def) (rule map_idI, auto simp: is_exact_int_iff)

lemma int_of_PyInt [simp]: "map (int_of \<circ> PyInt) xs = xs"
  by (simp add: comp_def)

lemma tensors_iff:
  "descriptor_tensors r offs sparse count = Inr () \<longleftrightarrow>
   (let read = meta_of (rd_read_values r); write = meta_of (rd_write_values r); words = meta_of (rd_support_words r);
        bh = int (tm_shape read ! 0); tiles = (count + 31) div 32 in
    value_ok read [bh, tiles, last offs, 32] \<and> value_ok write [bh, tiles, last offs, 32]
    \<and> tm_device read = tm_device write \<and> tm_dtype words = ''int32'' \<and> map int (tm_shape words) = [bh, tiles, sparse]
    \<and> tm_contiguous words \<and> tm_device words = tm_device read)"
  unfolding descriptor_tensors_def Let_def checks_Inr by auto

lemma tensors_ranks:
  assumes "descriptor_tensors r offs sparse count = Inr ()"
  shows "length (tm_shape (meta_of (rd_write_values r))) = 4 \<and> length (tm_shape (meta_of (rd_support_words r))) = 3"
proof -
  have "length (map int (tm_shape (meta_of (rd_write_values r)))) = 4"
    "length (map int (tm_shape (meta_of (rd_support_words r)))) = 3"
    using assms unfolding tensors_iff Let_def value_ok_def by simp_all
  then show ?thesis by simp
qed

lemma post_init_ints:
  "descriptor_post_init r = Inr () \<longleftrightarrow>
   (\<exists>offs soffs ws strides flags origin count. ints_accepted r offs soffs ws strides flags origin count)"
proof
  assume a: "descriptor_post_init r = Inr ()"
  let ?i = "map int_of"
  have exact: "\<forall>v\<in>set (rd_level_offsets r @ rd_support_offsets r @ rd_level_widths r @ rd_radix_strides r
      @ rd_support_side_flags r @ rd_topology_stamp r). is_exact_int v"
    and tok: "is_exact_int (rd_token_origin r)" "is_exact_int (rd_token_count r)"
    using a by (auto simp: descriptor_post_init_def Let_def res_simps)
  have l: "map PyInt (?i (rd_level_offsets r)) = rd_level_offsets r" "map PyInt (?i (rd_support_offsets r)) = rd_support_offsets r"
    "map PyInt (?i (rd_level_widths r)) = rd_level_widths r" "map PyInt (?i (rd_radix_strides r)) = rd_radix_strides r"
    "map PyInt (?i (rd_support_side_flags r)) = rd_support_side_flags r"
    "map PyInt (?i (rd_topology_stamp r)) = rd_topology_stamp r"
    using exact by (intro exact_ints; simp)+
  have t: "PyInt (int_of (rd_token_origin r)) = rd_token_origin r" "PyInt (int_of (rd_token_count r)) = rd_token_count r"
    using tok by (auto simp: is_exact_int_iff)
  have stamp: "?i (rd_topology_stamp r) = [2, int (length (rd_level_widths r))] @ ?i (rd_level_widths r)
      @ ?i (rd_radix_strides r) @ ?i (rd_support_side_flags r)"
    using a by (auto simp: descriptor_post_init_def Let_def res_simps ROUTE_DESCRIPTOR_VERSION_def)
  have "ints_accepted r (?i (rd_level_offsets r)) (?i (rd_support_offsets r)) (?i (rd_level_widths r))
     (?i (rd_radix_strides r)) (?i (rd_support_side_flags r)) (int_of (rd_token_origin r)) (int_of (rd_token_count r))"
    unfolding ints_accepted_def l t length_map stamp [symmetric]
    using a by (auto simp: descriptor_post_init_def Let_def res_simps validate_routing_shape_Inr MAX_ROUTING_DEPTH_def
        MAX_BRANCH_WIDTH_def)
  then show "\<exists>offs soffs ws strides flags origin count. ints_accepted r offs soffs ws strides flags origin count" by blast
next
  assume "\<exists>offs soffs ws strides flags origin count. ints_accepted r offs soffs ws strides flags origin count"
  then obtain offs soffs ws strides flags origin count where a: "ints_accepted r offs soffs ws strides flags origin count" by blast
  then obtain sparse where s: "check_support_offsets 0 (zip soffs (zip ws flags)) = Inr sparse"
    "descriptor_tensors r offs sparse count = Inr ()" by (auto simp: ints_accepted_def)
  have "validate_routing_shape (map PyInt ws) = Inr ws"
    using a by (auto simp: ints_accepted_def validate_routing_shape_Inr MAX_ROUTING_DEPTH_def MAX_BRANCH_WIDTH_def)
  with a s tensors_ranks [OF s(2)] show "descriptor_post_init r = Inr ()"
    by (auto simp: descriptor_post_init_def ints_accepted_def Let_def res_simps ROUTE_DESCRIPTOR_VERSION_def int_strides_def)
qed

lemma offsets_match_iff:
  assumes "length os = Suc (length ws)"
  shows "offsets_match os ws \<longleftrightarrow>
     os = map (\<lambda>i. sum_list (take i ws)) [0..<Suc (length ws)] \<and> (\<forall>w\<in>set ws. 2 \<le> w)"
proof -
  have "os \<noteq> []" using assms by auto
  then have hd: "hd os = os ! 0" by (rule hd_conv_nth)
  have third: "map (\<lambda>x. snd (snd x)) (zip os (zip (tl os) ws)) = ws"
    using assms by (intro nth_equalityI) simp_all
  have "(\<forall>(x, y, w)\<in>set z. 2 \<le> w) \<longleftrightarrow> (\<forall>w\<in>set (map (\<lambda>x. snd (snd x)) z). 2 \<le> w)" for z :: "(int \<times> int \<times> int) list"
    by (simp add: case_prod_unfold)
  from this [of "zip os (zip (tl os) ws)"]
  have w: "(\<forall>(x, y, w)\<in>set (zip os (zip (tl os) ws)). 2 \<le> w) \<longleftrightarrow> (\<forall>w\<in>set ws. 2 \<le> w)"
    unfolding third .
  have "offsets_match os ws \<longleftrightarrow> (os ! 0 = 0 \<and> (\<forall>(x, y, w)\<in>set (zip os (zip (tl os) ws)). y - x = w))
      \<and> (\<forall>(x, y, w)\<in>set (zip os (zip (tl os) ws)). 2 \<le> w)"
    unfolding offsets_match_def hd by auto
  then show ?thesis unfolding w prefix_sums_iff [OF assms] by simp
qed

lemma int_shape: "map int xs = [int a, int b, int c] \<longleftrightarrow> xs = [a, b, c]"
  "map int xs = [int a, int b, int c, 32] \<longleftrightarrow> xs = [a, b, c, 32]"
proof -
  have *: "map int xs = map int ys \<longleftrightarrow> xs = ys" for ys by (simp add: inj_map_eq_map inj_def)
  from * [of "[a, b, c]"] * [of "[a, b, c, 32]"]
  show "map int xs = [int a, int b, int c] \<longleftrightarrow> xs = [a, b, c]" "map int xs = [int a, int b, int c, 32] \<longleftrightarrow> xs = [a, b, c, 32]"
    by simp_all
qed

lemma arenas_iff:
  assumes "last offs = int width" "sparse = int sp"
  shows "is_tensor (rd_read_values r) \<and> is_tensor (rd_write_values r) \<and> is_tensor (rd_support_words r)
      \<and> length (tm_shape (meta_of (rd_read_values r))) = 4 \<and> descriptor_tensors r offs sparse (int count) = Inr ()
    \<longleftrightarrow> lawful_arenas width sp count (rd_read_values r) (rd_write_values r) (rd_support_words r)"
proof -
  have tiles: "(int count + 31) div 32 = int ((count + 31) div 32)" by (simp add: zdiv_int)
  have rank: "length xs = 4 \<and> map int xs = [int (xs ! 0), int t, int w, 32] \<longleftrightarrow> (\<exists>bh. xs = [bh, t, w, 32])" for xs t w
    unfolding int_shape by auto
  show ?thesis
  proof (cases "is_tensor (rd_read_values r) \<and> is_tensor (rd_write_values r) \<and> is_tensor (rd_support_words r)")
    case True
    then obtain rt wt st
      where t: "rd_read_values r = Tensor rt" "rd_write_values r = Tensor wt" "rd_support_words r = Tensor st"
      by (cases "rd_read_values r"; cases "rd_write_values r"; cases "rd_support_words r") auto
    have "length (tm_shape rt) = 4 \<and> descriptor_tensors r offs sparse (int count) = Inr () \<longleftrightarrow>
      (\<exists>bh. tm_shape rt = [bh, (count + 31) div 32, width, 32] \<and> tm_shape wt = [bh, (count + 31) div 32, width, 32]
        \<and> tm_shape st = [bh, (count + 31) div 32, sp]) \<and> tm_dtype rt = ''bfloat16'' \<and> tm_dtype wt = ''bfloat16''
        \<and> tm_contiguous rt \<and> tm_contiguous wt \<and> tm_contiguous st \<and> tm_dtype st = ''int32''
        \<and> tm_device wt = tm_device rt \<and> tm_device st = tm_device rt"
      unfolding tensors_iff Let_def t meta_of.simps value_ok_def tiles assms int_shape by auto
    also have "\<dots> \<longleftrightarrow> lawful_arenas width sp count (Tensor rt) (Tensor wt) (Tensor st)"
      by (cases rt; cases wt; cases st) (auto simp: lawful_arenas_def)
    finally show ?thesis by (simp add: t)
  next
    case False
    then show ?thesis by (auto simp: lawful_arenas_def)
  qed
qed

lemma int_sum_list: "int (sum_list xs) = sum_list (map int xs)"
  by (induction xs) simp_all

lemma accepted_lawful:
  "(\<exists>offs soffs ws strides flags origin count. ints_accepted r offs soffs ws strides flags origin count) \<longleftrightarrow> lawful_descriptor r"
proof
  assume "\<exists>offs soffs ws strides flags origin count. ints_accepted r offs soffs ws strides flags origin count"
  then obtain offs soffs wi strides flags oi ci where a: "ints_accepted r offs soffs wi strides flags oi ci" by blast
  define ws where "ws = map nat wi"
  have ge: "\<forall>w\<in>set wi. 2 \<le> w" using a by (auto simp: ints_accepted_def offsets_match_iff)
  then have wi: "wi = map int ws" by (simp add: ws_def comp_def) (rule map_idI [symmetric], auto)
  obtain origin count where oc: "oi = int origin" "ci = int count"
    using a by (metis ints_accepted_def nonneg_int_cases)
  obtain sparse where sp: "check_support_offsets 0 (zip soffs (zip (map int ws) flags)) = Inr sparse"
    and ten: "is_tensor (rd_read_values r) \<and> is_tensor (rd_write_values r) \<and> is_tensor (rd_support_words r)
      \<and> length (tm_shape (meta_of (rd_read_values r))) = 4 \<and> descriptor_tensors r offs sparse (int count) = Inr ()"
    using a by (auto simp: ints_accepted_def wi oc)
  have len: "length soffs = length ws" "length flags = length ws" "length offs = Suc (length (map int ws))"
    using a by (simp_all add: ints_accepted_def wi)
  note loop = sp [unfolded support_loop_iff [OF len(1,2)]]
  have offs: "offs = map (\<lambda>i. int (sum_list (take i ws))) [0..<length ws + 1]"
    using a offsets_match_iff [OF len(3)] by (simp add: ints_accepted_def wi int_sum_list take_map del: upt_Suc)
  then have last: "last offs = int (sum_list ws)" by simp
  have "lawful_arenas (sum_list ws) (flagged_width (zip ws flags)) count (rd_read_values r) (rd_write_values r) (rd_support_words r)"
    using arenas_iff [OF last, of sparse "flagged_width (zip ws flags)" r count] loop ten by simp
  moreover have "strides = map (\<lambda>i. int (prod_list (drop (i + 1) ws))) [0..<length ws]"
    using a by (simp add: ints_accepted_def wi int_strides_branches comp_def)
  ultimately show "lawful_descriptor r"
    unfolding lawful_descriptor_def
    using a ge loop len offs
    by (intro exI [of _ ws] exI [of _ flags] exI [of _ origin] exI [of _ count])
      (auto simp: ints_accepted_def wi oc comp_def int_strides_branches)
next
  assume "lawful_descriptor r"
  then obtain ws flags origin count where l: "ws \<noteq> []" "length ws \<le> 4" "\<forall>w\<in>set ws. 2 \<le> w \<and> w \<le> 256"
     "length flags = length ws" "set flags \<subseteq> {0, 1, 2, 3}"
     "rd_level_widths r = map (\<lambda>w. PyInt (int w)) ws" "rd_support_side_flags r = map PyInt flags"
     "rd_level_offsets r = map (\<lambda>i. PyInt (int (sum_list (take i ws)))) [0..<length ws + 1]"
     "rd_support_offsets r = map (\<lambda>i. PyInt (if flags ! i = 0 then - 1
          else int (flagged_width (take i (zip ws flags))))) [0..<length ws]"
     "rd_radix_strides r = map (\<lambda>i. PyInt (int (prod_list (drop (i + 1) ws)))) [0..<length ws]"
     "rd_topology_stamp r = map PyInt ([2, int (length ws)] @ map int ws
          @ map (\<lambda>i. int (prod_list (drop (i + 1) ws))) [0..<length ws] @ flags)"
     "rd_token_origin r = PyInt (int origin)" "rd_token_count r = PyInt (int count)"
     and ar: "lawful_arenas (sum_list ws) (flagged_width (zip ws flags)) count
          (rd_read_values r) (rd_write_values r) (rd_support_words r)"
    unfolding lawful_descriptor_def by (elim exE conjE) blast
  define offs where "offs = map (\<lambda>i. int (sum_list (take i ws))) [0..<length ws + 1]"
  define soffs where "soffs = map (\<lambda>i. if flags ! i = 0 then - 1 else int (flagged_width (take i (zip ws flags)))) [0..<length ws]"
  have last: "last offs = int (sum_list ws)" by (simp add: offs_def)
  have loop: "check_support_offsets 0 (zip soffs (zip (map int ws) flags)) = Inr (int (flagged_width (zip ws flags)))"
    using support_loop_iff [of soffs ws flags 0] l(4,5) by (simp add: soffs_def)
  have "offsets_match offs (map int ws)"
    using offsets_match_iff [of offs "map int ws"] l(3) by (simp add: offs_def int_sum_list take_map)
  then have "ints_accepted r offs soffs (map int ws) (int_strides (map int ws)) flags (int origin) (int count)"
    using l loop arenas_iff [OF last refl, of r "flagged_width (zip ws flags)" count] ar
    by (auto simp: ints_accepted_def int_strides_branches offs_def soffs_def comp_def)
  then show "\<exists>offs soffs ws strides flags origin count. ints_accepted r offs soffs ws strides flags origin count" by blast
qed

subsection \<open>The descriptor of a routing\<close>

definition side_bits :: "level \<Rightarrow> int" where
  "side_bits l = (if level_can_zero ''read'' l = Inr True then 1 else 0) + (if level_can_zero ''write'' l = Inr True then 2 else 0)"

definition sparse_width :: "level list \<Rightarrow> nat" where
  "sparse_width ls = sum_list (map lv_width (filter (\<lambda>l. level_can_zero ''read'' l = Inr True
     \<or> level_can_zero ''write'' l = Inr True) ls))"

lemma rmap_list_all2: "rmap f xs = Inr ys \<Longrightarrow> ys = map (\<lambda>x. f x = Inr True) xs"
  by (auto simp: rmap_Inr list_all2_conv_all_nth intro!: nth_equalityI)

lemma flags_of_levels:
  assumes "\<forall>l\<in>set ls. level_ok l"
  shows "support_side_flags ls = Inr (map side_bits ls)"
proof -
  obtain flags where f: "support_side_flags ls = Inr flags" using support_flags_ok [OF assms] by blast
  then obtain rs ws where rw: "read_level_can_zero ls = Inr rs" "write_level_can_zero ls = Inr ws" "flags = map2 side_flag rs ws"
    by (auto simp: support_side_flags_def res_simps)
  then have "rs = map (\<lambda>l. level_can_zero ''read'' l = Inr True) ls" "ws = map (\<lambda>l. level_can_zero ''write'' l = Inr True) ls"
    by (simp_all add: read_level_can_zero_def write_level_can_zero_def rmap_list_all2)
  with rw(3) have "flags = map side_bits ls"
    by (auto simp: side_bits_def side_flag_def READ_SUPPORT_def WRITE_SUPPORT_def map2_map_map intro!: map_cong)
  with f show ?thesis by simp
qed

lemma sparse_flagged: "flagged_width (zip (branches ls) (map side_bits ls)) = sparse_width ls"
  by (induction ls) (auto simp: branches_def sparse_width_def side_bits_def)

lemma support_offsets_lawful:
  assumes "length flags = length ws" "set flags \<subseteq> {0, 1, 2, 3}"
  shows "offsets_from 0 (zip ws flags)
     = map (\<lambda>i. if flags ! i = 0 then - 1 else int (flagged_width (take i (zip ws flags)))) [0..<length ws]"
proof -
  obtain n where "check_support_offsets 0 (zip (offsets_from 0 (zip ws flags)) (zip (map int ws) flags)) = Inr n"
    using support_offsets_compact [of ws flags 0] assms by auto
  moreover have "length (offsets_from 0 (zip ws flags)) = length ws" using assms(1) by simp
  ultimately show ?thesis using support_loop_iff [of "offsets_from 0 (zip ws flags)" ws flags 0 n] assms(1) by simp
qed

lemma resolved_descriptor_iff:
  assumes "make_resolved ls = Inr ms" "\<forall>l\<in>set ls. level_ok l" "outputs = (rv, wv, sw)"
  shows "is_ok (resolved_descriptor ls outputs origin count) \<longleftrightarrow>
      (\<exists>n. origin = PyInt (int n)) \<and> lawful_arenas (sum_list (branches ls)) (sparse_width ls) count rv wv sw"
    and "resolved_descriptor ls outputs origin count = Inr r \<Longrightarrow> lawful_descriptor r
      \<and> rd_level_widths r = map (\<lambda>l. PyInt (int (lv_width l))) ls
      \<and> rd_support_side_flags r = map (\<lambda>l. PyInt (side_bits l)) ls"
proof -
  let ?flags = "map side_bits ls" let ?ws = "branches ls"
  note fl = flags_of_levels [OF assms(2)]
  have fset: "set ?flags \<subseteq> {0, 1, 2, 3}" by (auto simp: side_bits_def split: if_splits)
  have lv: "?ws \<noteq> []" "length ?ws \<le> 4" "\<forall>w\<in>set ?ws. 2 \<le> w \<and> w \<le> 256"
    using assms(1) by (auto simp: make_resolved_Inr branches_def MAX_ROUTING_DEPTH_def MAX_BRANCH_WIDTH_def)
  obtain r0 where r0: "resolved_descriptor ls outputs origin count = rbind (descriptor_post_init r0) (\<lambda>_. Inr r0)"
    and sel: "rd_read_values r0 = rv" "rd_write_values r0 = wv" "rd_support_words r0 = sw"
      "rd_level_widths r0 = map (\<lambda>w. PyInt (int w)) ?ws" "rd_support_side_flags r0 = map PyInt ?flags"
      "rd_level_offsets r0 = map (PyInt \<circ> int) (level_offsets ls)"
      "rd_support_offsets r0 = map PyInt (offsets_from 0 (zip ?ws ?flags))"
      "rd_radix_strides r0 = map (PyInt \<circ> int) (resolved_radix_strides ls)"
      "rd_token_origin r0 = origin" "rd_token_count r0 = PyInt (int count)"
      "topology_stamp ls = Inr st \<Longrightarrow> rd_topology_stamp r0 = map PyInt st" for st
    by (auto simp: resolved_descriptor_def support_offsets_def topology_stamp_def fl assms(3) Let_def comp_def)
  have st: "rd_topology_stamp r0 = map PyInt ([2, int (length ?ws)] @ map int ?ws
      @ map (\<lambda>i. int (prod_list (drop (i + 1) ?ws))) [0..<length ?ws] @ ?flags)"
    by (rule sel(11)) (simp add: topology_stamp_def fl ROUTE_DESCRIPTOR_VERSION_def resolved_radix_strides_def comp_def)
  have lo: "level_offsets ls = map (\<lambda>i. sum_list (take i ?ws)) [0..<length ?ws + 1]"
    by (rule nth_equalityI) (auto simp: level_offsets_def nth_running_offsets less_Suc_eq_le simp del: upt_Suc)
  have "lawful_descriptor r0 \<longleftrightarrow> (\<exists>n. origin = PyInt (int n))
      \<and> lawful_arenas (sum_list ?ws) (sparse_width ls) count rv wv sw"
  proof
    assume "lawful_descriptor r0"
    then obtain ws flags n c where w: "rd_level_widths r0 = map (\<lambda>w. PyInt (int w)) ws" "rd_support_side_flags r0 = map PyInt flags"
      "rd_token_origin r0 = PyInt (int n)" "rd_token_count r0 = PyInt (int c)"
      "lawful_arenas (sum_list ws) (flagged_width (zip ws flags)) c (rd_read_values r0) (rd_write_values r0) (rd_support_words r0)"
      unfolding lawful_descriptor_def by (elim exE conjE) blast
    have "ws = ?ws" using w(1) sel(4) inj_map_eq_map [of "\<lambda>w. PyInt (int w)" ws ?ws] by (simp add: inj_def)
    moreover have "flags = ?flags" using w(2) sel(5) inj_map_eq_map [of PyInt flags ?flags] by (simp add: inj_def)
    ultimately show "(\<exists>n. origin = PyInt (int n)) \<and> lawful_arenas (sum_list ?ws) (sparse_width ls) count rv wv sw"
      using w(3-5) sel by (auto simp: sparse_flagged)
  next
    assume a: "(\<exists>n. origin = PyInt (int n)) \<and> lawful_arenas (sum_list ?ws) (sparse_width ls) count rv wv sw"
    then obtain n where n: "origin = PyInt (int n)" by blast
    show "lawful_descriptor r0"
      unfolding lawful_descriptor_def
    proof (rule exI [of _ ?ws], rule exI [of _ ?flags], rule exI [of _ n], rule exI [of _ count], intro conjI)
      show "rd_level_offsets r0 = map (\<lambda>i. PyInt (int (sum_list (take i ?ws)))) [0..<length ?ws + 1]"
        by (simp add: sel(6) lo comp_def del: upt_Suc)
      show "rd_support_offsets r0 = map (\<lambda>i. PyInt (if ?flags ! i = 0 then - 1
          else int (flagged_width (take i (zip ?ws ?flags))))) [0..<length ?ws]"
        using support_offsets_lawful [of ?flags ?ws] fset by (simp add: sel(7) comp_def)
      show "rd_radix_strides r0 = map (\<lambda>i. PyInt (int (prod_list (drop (i + 1) ?ws)))) [0..<length ?ws]"
        by (simp add: sel(8) resolved_radix_strides_def comp_def)
    qed (use lv fset a n st sel sparse_flagged in simp_all)
  qed
  then show "is_ok (resolved_descriptor ls outputs origin count) \<longleftrightarrow>
      (\<exists>n. origin = PyInt (int n)) \<and> lawful_arenas (sum_list ?ws) (sparse_width ls) count rv wv sw"
    using post_init_ints [of r0] accepted_lawful [of r0] by (auto simp: r0 is_ok_iff res_simps)
  assume "resolved_descriptor ls outputs origin count = Inr r"
  then have "r = r0" "lawful_descriptor r0"
    using post_init_ints [of r0] accepted_lawful [of r0] by (auto simp: r0 res_simps)
  then show "lawful_descriptor r \<and> rd_level_widths r = map (\<lambda>l. PyInt (int (lv_width l))) ls
      \<and> rd_support_side_flags r = map (\<lambda>l. PyInt (side_bits l)) ls"
    using sel by (simp add: branches_def comp_def)
qed

text \<open>
  C36 (descr): The descriptor's constructor accepts exactly the lawful descriptors: version 2, one to
  four levels of 2 to 256 digits, compact level and support offsets, canonical strides, a stamp
  that repeats them, and arenas of exactly the shapes, types, layout and device they name. And the
  production entry, whatever its solve returns, yields a descriptor exactly when the logits are
  \<^verbatim>\<open>[BH, T, sum of the widths]\<close>, the origin is a nonnegative integer, and the solve's three tensors
  are such arenas for \<^verbatim>\<open>T\<close> tokens, with one support column per digit of the levels that can be zero on
  either side; the descriptor then carries the routing's own widths and side flags.
\<close>

theorem resolved_routing_described:
  assumes "make_resolved ls = Inr ms" "\<forall>l\<in>set ls. level_ok l"
  shows "(\<forall>r. descriptor_post_init r = Inr () \<longleftrightarrow> lawful_descriptor r)
    \<and> (is_ok (production_routing_factors solve q k ls origin) \<longleftrightarrow>
        (\<exists>n. origin = PyInt (int n)) \<and> (\<exists>BH T rv wv sw. tm_shape q = [BH, T, sum_list (map lv_width ls)]
          \<and> tm_shape k = tm_shape q \<and> solve q k ls = Inr (rv, wv, sw)
          \<and> lawful_arenas (sum_list (map lv_width ls)) (sparse_width ls) T rv wv sw))
    \<and> (\<forall>r. production_routing_factors solve q k ls origin = Inr r \<longrightarrow> lawful_descriptor r
          \<and> rd_level_widths r = map (\<lambda>l. PyInt (int (lv_width l))) ls
          \<and> rd_support_side_flags r = map (\<lambda>l. PyInt (side_bits l)) ls)"
proof -
  have iff: "descriptor_post_init r = Inr () \<longleftrightarrow> lawful_descriptor r" for r
    using post_init_ints [of r] accepted_lawful [of r] by blast
  have width: "packed_logit_width ls = sum_list (map lv_width ls)"
    by (simp add: packed_logit_width_def level_offsets_def branches_def)
  have org: "is_exact_int origin \<and> 0 \<le> int_of origin \<longleftrightarrow> (\<exists>n. origin = PyInt (int n))"
    by (cases origin) (auto dest: nonneg_int_cases)
  have shape: "length xs = 3 \<and> last xs = w \<longleftrightarrow> (\<exists>a b. xs = [a, b, w])" for xs :: "nat list" and w
    by (auto simp: length_Suc_conv numeral_3_eq_3)
  note rd = resolved_descriptor_iff [OF assms refl, unfolded branches_def]
  have "is_ok (production_routing_factors solve q k ls origin) \<longleftrightarrow>
        (\<exists>n. origin = PyInt (int n)) \<and> (\<exists>BH T rv wv sw. tm_shape q = [BH, T, sum_list (map lv_width ls)]
          \<and> tm_shape k = tm_shape q \<and> solve q k ls = Inr (rv, wv, sw)
          \<and> lawful_arenas (sum_list (map lv_width ls)) (sparse_width ls) T rv wv sw)"
  proof (cases "solve q k ls")
    case (Inl e)
    then show ?thesis by (simp add: production_routing_factors_def)
  next
    case (Inr outs)
    obtain rv wv sw where o: "outs = (rv, wv, sw)" by (cases outs)
    show ?thesis
      using org shape [of "tm_shape q" "sum_list (map lv_width ls)"]
      by (auto simp: production_routing_factors_def width Inr o rd(1))
  qed
  moreover have "lawful_descriptor r \<and> rd_level_widths r = map (\<lambda>l. PyInt (int (lv_width l))) ls
          \<and> rd_support_side_flags r = map (\<lambda>l. PyInt (side_bits l)) ls"
    if p: "production_routing_factors solve q k ls origin = Inr r" for r
  proof -
    obtain rv wv sw where "resolved_descriptor ls (rv, wv, sw) origin (tm_shape q ! 1) = Inr r"
      using p by (auto simp: production_routing_factors_def res_simps split: if_splits)
    from rd(2) [OF this] show ?thesis .
  qed
  ultimately show ?thesis using iff by blast
qed

definition demo_levels :: "level list" where
  "demo_levels = [IndependentLevel 64 Softmax (Entmax 2), TiedLevel 32 Softmax]"

definition demo_tensor :: "nat list \<Rightarrow> string \<Rightarrow> tensor_meta" where
  "demo_tensor shape dt = \<lparr>tm_shape = shape, tm_dtype = dt, tm_device = ''cpu'', tm_contiguous = True, tm_grad = False\<rparr>"

lemma demo_levels_ok: "\<forall>l\<in>set demo_levels. level_ok l"
  by (auto simp: demo_levels_def MAX_BRANCH_WIDTH_def known_iff ACTIVATION_REGISTRY_def zeroes_def
      activation_properties_def properties_for_def)

definition demo_solve :: "tensor_meta \<Rightarrow> tensor_meta \<Rightarrow> level list \<Rightarrow> (tensor_arg \<times> tensor_arg \<times> tensor_arg) res" where
  "demo_solve q k ls = Inr (Tensor (demo_tensor [1, 2, 96, 32] ''bfloat16''), Tensor (demo_tensor [1, 2, 96, 32] ''bfloat16''),
     Tensor (demo_tensor [1, 2, 64] ''int32''))"

theorem resolved_routing_described_witness:
  "(\<forall>r. descriptor_post_init r = Inr () \<longleftrightarrow> lawful_descriptor r)
   \<and> (\<exists>r. production_routing_factors demo_solve (demo_tensor [1, 40, 96] ''float32'') (demo_tensor [1, 40, 96] ''float32'')
          demo_levels (PyInt 7) = Inr r \<and> lawful_descriptor r
        \<and> rd_level_widths r = map (\<lambda>l. PyInt (int (lv_width l))) demo_levels
        \<and> rd_support_side_flags r = map (\<lambda>l. PyInt (side_bits l)) demo_levels)"
proof -
  have m: "make_resolved demo_levels = Inr demo_levels"
    by (simp add: make_resolved_Inr demo_levels_def MAX_ROUTING_DEPTH_def MAX_BRANCH_WIDTH_def)
  note d = resolved_routing_described [OF m demo_levels_ok, of demo_solve "demo_tensor [1, 40, 96] ''float32''"
      "demo_tensor [1, 40, 96] ''float32''" "PyInt 7"]
  have "is_ok (production_routing_factors demo_solve (demo_tensor [1, 40, 96] ''float32'') (demo_tensor [1, 40, 96] ''float32'')
          demo_levels (PyInt 7))" by code_simp
  with d show ?thesis unfolding is_ok_iff by blast
qed

end
