(* ===== verification/Rola_Bundle.thy ===== *)
theory Rola_Bundle
  imports Rola_Resolved_Props
begin

text \<open>
  The routing contract of the operator: \<^verbatim>\<open>Topology\<close> and \<^verbatim>\<open>LeafMassDecay\<close>
  (\<^verbatim>\<open>rola/routing/types.py\<close>) and the bundle \<^verbatim>\<open>RouteFactors\<close> (\<^verbatim>\<open>rola/routing/factors.py\<close>). A
  topology is its list of levels. Of a tensor the checks read shape, dtype, device and whether it
  requires a gradient; a dial is read entry by entry, so its entries are floating values.
\<close>

section \<open>Topology\<close>

text \<open>An entry of \<^verbatim>\<open>Topology.levels\<close> that is not one of the four classes is \<^const>\<open>None\<close>.\<close>

definition make_topology :: "level option list \<Rightarrow> level list res" where
  "make_topology levels =
     (if None \<in> set levels then Inl (TypeError ''levels must be an IndependentRouting, TiedRouting, UnionRouting or OpaqueRouting'')
      else rbind (validate_routing_shape (map (\<lambda>l. PyInt (int (lv_width (the l)))) levels)) (\<lambda>_. Inr (map the levels)))"

definition topology_D :: "level list \<Rightarrow> nat" where "topology_D ls = length ls"
definition topology_widths :: "level list \<Rightarrow> nat list" where "topology_widths ls = map lv_width ls"

definition padded_widths :: "level list \<Rightarrow> nat list res" where
  "padded_widths ls = rmap (\<lambda>w. padded_level_width PADDED_LEVEL_FLOOR (PyInt (int w))) (topology_widths ls)"

definition is_padded :: "level list \<Rightarrow> bool res" where
  "is_padded ls = rbind (padded_widths ls) (\<lambda>ps. Inr (topology_widths ls = ps))"

definition padded_topology :: "level list \<Rightarrow> level list res" where
  "padded_topology ls =
     rbind (rmap (\<lambda>l. rbind (padded_level_width PADDED_LEVEL_FLOOR (PyInt (int (lv_width l))))
                        (\<lambda>p. level_at l (PyInt (int p)))) ls)
       (\<lambda>ms. make_topology (map Some ms))"

definition topology_N :: "level list \<Rightarrow> nat" where "topology_N ls = prod_list (topology_widths ls)"

definition topology_activation :: "level list \<Rightarrow> nat \<Rightarrow> string \<Rightarrow> activation res" where
  "topology_activation ls level duty =
     (if length ls \<le> level then Inl (IndexError ''tuple index out of range'')
      else level_activation (ls ! level) duty)"

definition topology_activation_properties :: "level list \<Rightarrow> nat \<Rightarrow> string \<Rightarrow> activation_row res" where
  "topology_activation_properties ls level duty =
     rbind (topology_activation ls level duty) activation_properties"

definition topology_duty_simplex :: "level list \<Rightarrow> nat \<Rightarrow> string \<Rightarrow> bool res" where
  "topology_duty_simplex ls level duty =
     (if length ls \<le> level then Inl (IndexError ''tuple index out of range'')
      else duty_simplex_output (ls ! level) duty)"

definition duty_cells :: "level list \<Rightarrow> (nat \<times> string) list" where
  "duty_cells ls = concat (map (\<lambda>level. [(level, ''read''), (level, ''write'')]) [0..<topology_D ls])"

definition unratified_cell :: "level list \<Rightarrow> nat \<times> string \<Rightarrow> (nat \<times> string \<times> activation_tag option) list res" where
  "unratified_cell ls cell =
     rbind (topology_activation_properties ls (fst cell) (snd cell)) (\<lambda>row.
       if ar_kerneled row then Inr []
       else rbind (topology_activation ls (fst cell) (snd cell)) (\<lambda>a. Inr [(fst cell, snd cell, tag_of a)]))"

definition unratified_activations :: "level list \<Rightarrow> (nat \<times> string \<times> activation_tag option) list res" where
  "unratified_activations ls = rbind (rmap (unratified_cell ls) (duty_cells ls)) (\<lambda>cs. Inr (concat cs))"

definition topology_kerneled :: "level list \<Rightarrow> bool res" where
  "topology_kerneled ls = rbind (unratified_activations ls) (\<lambda>cs. Inr (cs = []))"

section \<open>Decay dials\<close>

datatype fval = Fin rat | Nan | PosInf | NegInf

fun below_zero :: "fval \<Rightarrow> bool" where
  "below_zero (Fin x) = (x < 0)" | "below_zero NegInf = True" | "below_zero _ = False"
fun at_least_one :: "fval \<Rightarrow> bool" where
  "at_least_one (Fin x) = (1 \<le> x)" | "at_least_one PosInf = True" | "at_least_one _ = False"

datatype dial = Dial (dial_shape: "nat list") (dial_entries: "fval list") (dial_grad: bool) | NotDial

fun check_dials :: "nat option \<Rightarrow> dial list \<Rightarrow> unit res" where
  "check_dials heads [] = Inr ()"
| "check_dials heads (NotDial # ds) = Inl (TypeError ''dials must be a torch.Tensor'')"
| "check_dials heads (Dial shape entries g # ds) =
     (if length shape \<noteq> 2 then Inl (ValueError ''dials must have shape [H, width_l]'')
      else if heads \<noteq> None \<and> heads \<noteq> Some (shape ! 0) then Inl (ValueError ''dials must share one head count'')
      else if (\<exists>x\<in>set entries. below_zero x) \<or> (\<exists>x\<in>set entries. at_least_one x)
      then Inl (ValueError ''entries must satisfy the strict invariant'')
      else check_dials (Some (shape ! 0)) ds)"

definition make_decay :: "dial list \<Rightarrow> dial list res" where
  "make_decay dials =
     (if dials = [] then Inl (ValueError ''dials must be nonempty'')
      else rbind (check_dials None dials) (\<lambda>_. Inr dials))"

definition unnormalized_level :: "level list \<Rightarrow> nat \<Rightarrow> nat list res" where
  "unnormalized_level ls level =
     rbind (topology_activation_properties ls level ''write'') (\<lambda>row.
       Inr (if ar_normalized row then [] else [level]))"

definition decay_validate_against :: "dial list \<Rightarrow> level list \<Rightarrow> unit res" where
  "decay_validate_against dials ls =
     rbind (rmap (unnormalized_level ls) [0..<topology_D ls]) (\<lambda>bad.
     if concat bad \<noteq> [] then Inl (ValueError ''LeafMassDecay requires a normalized write side'')
     else if length dials \<noteq> length (topology_widths ls) then Inl (ValueError ''one tensor per level'')
     else checks (map (\<lambda>(d, w). refuse (last (dial_shape d) \<noteq> w) (ValueError ''dial width'')) (zip dials (topology_widths ls))))"

section \<open>The bundle\<close>

record route_factors =
  rf_topology :: "level list"
  rf_read :: "tensor_arg list"
  rf_write :: "tensor_arg list"
  rf_g_write :: "tensor_arg option"
  rf_read_mass :: "tensor_arg option"

type_synonym prefix = "nat list option"

text \<open>One iteration of the level loop: it returns the shared prefix.\<close>

definition check_factor :: "tensor_meta \<Rightarrow> nat \<Rightarrow> prefix \<Rightarrow> tensor_arg \<Rightarrow> prefix res" where
  "check_factor first w prefix t =
     (if \<not> is_tensor t \<or> length (tm_shape (meta_of t)) \<noteq> 4 then Inl (TypeError ''must be a [B, T, H, width_l] tensor'')
      else if last (tm_shape (meta_of t)) \<noteq> w then Inl (ValueError ''level width'')
      else if prefix \<noteq> None \<and> prefix \<noteq> Some (take 3 (tm_shape (meta_of t)))
      then Inl (ValueError ''every routing level shares one [B, T, H] prefix'')
      else if tm_device (meta_of t) \<noteq> tm_device first then Inl (ValueError ''every routing level lives on one device'')
      else if tm_dtype (meta_of t) \<noteq> tm_dtype first then Inl (ValueError ''every routing level shares one dtype'')
      else Inr (Some (take 3 (tm_shape (meta_of t)))))"

fun check_factors :: "tensor_meta \<Rightarrow> prefix \<Rightarrow> (nat \<times> tensor_arg) list \<Rightarrow> prefix res" where
  "check_factors first prefix [] = Inr prefix"
| "check_factors first prefix ((w, t) # rest) =
     rbind (check_factor first w prefix t) (\<lambda>p. check_factors first p rest)"

definition check_column :: "prefix \<Rightarrow> tensor_arg option \<Rightarrow> unit res" where
  "check_column prefix column =
     (case column of None \<Rightarrow> Inr ()
      | Some t \<Rightarrow> refuse (\<not> is_tensor t \<or> Some (tm_shape (meta_of t)) \<noteq> prefix) (ValueError ''must be a [B, T, H] tensor''))"

definition make_route_factors ::
    "level list option \<Rightarrow> tensor_arg list \<Rightarrow> tensor_arg list \<Rightarrow> tensor_arg option \<Rightarrow> tensor_arg option \<Rightarrow> route_factors res" where
  "make_route_factors topology read write g_write read_mass =
     (case topology of None \<Rightarrow> Inl (TypeError ''topology must be a Topology'')
      | Some ls \<Rightarrow>
        if length read \<noteq> topology_D ls \<or> length write \<noteq> topology_D ls
        then Inl (ValueError ''must hold one tensor per routing level'')
        else
          let ws = topology_widths ls; first = meta_of (hd read) in
          rbind (check_factors first None (zip ws read @ zip ws write)) (\<lambda>prefix.
          rbind (check_column prefix g_write) (\<lambda>_.
          rbind (check_column prefix read_mass) (\<lambda>_.
            Inr \<lparr>rf_topology = ls, rf_read = read, rf_write = write, rf_g_write = g_write, rf_read_mass = read_mass\<rparr>))))"

definition rf_dim :: "nat \<Rightarrow> route_factors \<Rightarrow> nat" where
  "rf_dim i r = tm_shape (meta_of (hd (rf_read r))) ! i"
definition rf_batch :: "route_factors \<Rightarrow> nat" where "rf_batch r = rf_dim 0 r"
definition rf_tokens :: "route_factors \<Rightarrow> nat" where "rf_tokens r = rf_dim 1 r"
definition rf_heads :: "route_factors \<Rightarrow> nat" where "rf_heads r = rf_dim 2 r"
definition rf_device :: "route_factors \<Rightarrow> string" where "rf_device r = tm_device (meta_of (hd (rf_read r)))"

definition read_needs_normalization :: "route_factors \<Rightarrow> bool list res" where
  "read_needs_normalization r =
     (if rf_read_mass r = None then Inr (replicate (length (rf_read r)) False)
      else rmap (\<lambda>i. rbind (topology_duty_simplex (rf_topology r) i ''read'') (\<lambda>b. Inr (\<not> b))) [0..<length (rf_read r)])"

text \<open>\<^verbatim>\<open>read_simplex\<close> on the values of one token: \<^verbatim>\<open>level / level.sum(-1)\<close> where it is needed.\<close>

definition divided :: "rat list \<Rightarrow> rat list" where
  "divided row = map (\<lambda>x. x / sum_list row) row"

definition read_simplex :: "route_factors \<Rightarrow> rat list list \<Rightarrow> rat list list res" where
  "read_simplex r rows =
     (if rf_read_mass r = None then Inr rows
      else rbind (read_needs_normalization r) (\<lambda>needs.
        Inr (map2 (\<lambda>row n. if n then divided row else row) rows needs)))"

definition rf_tensors :: "route_factors \<Rightarrow> tensor_arg option list" where
  "rf_tensors r = map Some (rf_read r) @ map Some (rf_write r) @ [rf_g_write r]
     @ (case rf_read_mass r of None \<Rightarrow> [] | Some m \<Rightarrow> [Some m])"

end
