(* ===== verification/Rola_Bundle_Props.thy ===== *)
theory Rola_Bundle_Props
  imports Rola_Bundle
begin

text \<open>
  The properties of the routing contract: padding a topology yields a lawful one of the same
  operators, the closed registry makes two refusals unreachable, the bundle's checks accept exactly
  the agreeing shapes, and dividing the mass out puts a level on the simplex.
\<close>

section \<open>The padded topology\<close>

definition level_padded :: "level \<Rightarrow> level" where
  "level_padded l =
     (let p = pad_width (lv_width l) in
      case l of IndependentLevel w r v \<Rightarrow> IndependentLevel p r v | TiedLevel w a \<Rightarrow> TiedLevel p a
        | UnionLevel w b \<Rightarrow> UnionLevel p b | OpaqueLevel w \<Rightarrow> OpaqueLevel p)"

lemma lv_width_padded [simp]: "lv_width (level_padded l) = pad_width (lv_width l)"
  by (cases l) (simp_all add: level_padded_def)

lemma level_padded_activation: "level_activation (level_padded l) duty = level_activation l duty"
  by (cases l) (simp_all add: level_padded_def)

lemma padded_level_width_nat: "1 \<le> w \<Longrightarrow> padded_level_width PADDED_LEVEL_FLOOR (PyInt (int w)) = Inr (pad_width w)"
  by (simp add: padded_level_width_def)

lemma level_padded_ok: "level_ok l \<Longrightarrow> level_ok (level_padded l)"
  using pad_width_floor [of "lv_width l"] pad_width_max [of "lv_width l"]
  by (cases l) (auto simp: level_padded_def)

lemma pad_width_pos [simp]: "Suc 0 \<le> pad_width w" "0 < pad_width w"
  using pad_width_floor [of w] by simp_all

lemma level_at_padded: "level_ok l \<Longrightarrow> level_at l (PyInt (int (pad_width (lv_width l)))) = Inr (level_padded l)"
  using level_padded_ok [of l] level_ok_width [of l] pad_width_floor [of "lv_width l"] pad_width_max [of "lv_width l"]
  by (subst level_at_ok) (auto simp: level_padded_def Let_def split: level.splits)

lemma level_padded_idem: "level_padded (level_padded l) = level_padded l"
  by (cases l) (simp_all add: level_padded_def pad_width_idem)

lemma validate_widths:
  "validate_routing_shape (map (\<lambda>l. PyInt (int (lv_width (the l)))) (map Some ls)) = Inr (map (\<lambda>l. int (lv_width l)) ls)"
  if "ls \<noteq> []" "length ls \<le> MAX_ROUTING_DEPTH" "\<forall>l\<in>set ls. lv_width l \<le> MAX_BRANCH_WIDTH"
  using that by (auto simp: validate_routing_shape_Inr)

lemma make_topology_ok:
  assumes "ls \<noteq> []" "length ls \<le> MAX_ROUTING_DEPTH" "\<forall>l\<in>set ls. level_ok l"
  shows "make_topology (map Some ls) = Inr ls"
proof -
  have "\<forall>l\<in>set ls. lv_width l \<le> MAX_BRANCH_WIDTH" using assms(3) level_ok_width by blast
  with validate_widths [OF assms(1,2)] show ?thesis by (auto simp: make_topology_def comp_def)
qed

lemma padded_topology_ok:
  assumes "ls \<noteq> []" "length ls \<le> MAX_ROUTING_DEPTH" "\<forall>l\<in>set ls. level_ok l"
  shows "padded_topology ls = Inr (map level_padded ls)"
proof -
  have "rmap (\<lambda>l. rbind (padded_level_width PADDED_LEVEL_FLOOR (PyInt (int (lv_width l))))
                        (\<lambda>p. level_at l (PyInt (int p)))) ls = Inr (map level_padded ls)"
    using assms(3) level_ok_width by (intro rmap_all) (simp add: padded_level_width_nat level_at_padded)
  moreover have "make_topology (map Some (map level_padded ls)) = Inr (map level_padded ls)"
    using assms level_padded_ok by (intro make_topology_ok) auto
  ultimately show ?thesis by (simp add: padded_topology_def)
qed

text \<open>
  Padding a topology of accepted levels never fails; it keeps every level's operators
  and never narrows a level, the result is lawful for the kernels, is already padded, and padding
  it again changes nothing.
\<close>

theorem padded_topology_lawful:
  assumes "ls \<noteq> []" "length ls \<le> MAX_ROUTING_DEPTH" "\<forall>l\<in>set ls. level_ok l"
  shows "\<exists>ps. padded_topology ls = Inr ps \<and> length ps = length ls \<and> lawful_widths (topology_widths ps)
     \<and> topology_N ps mod 16 = 0 \<and> is_padded ps = Inr True \<and> padded_topology ps = Inr ps
     \<and> (\<forall>i<length ls. lv_width (ls ! i) \<le> lv_width (ps ! i)
          \<and> (\<forall>duty. topology_activation ps i duty = topology_activation ls i duty))"
proof (intro exI [of _ "map level_padded ls"] conjI)
  let ?ps = "map level_padded ls"
  show "padded_topology ls = Inr ?ps" by (rule padded_topology_ok [OF assms])
  have ok: "\<forall>l\<in>set ?ps. level_ok l" using assms(3) level_padded_ok by auto
  show lw: "lawful_widths (topology_widths ?ps)"
    using lawful_pad [of "topology_widths ls"] assms level_ok_width by (auto simp: topology_widths_def comp_def)
  have "16 dvd topology_N ?ps"
  proof -
    have "topology_widths ?ps \<noteq> []" using assms(1) by (simp add: topology_widths_def)
    then show ?thesis unfolding topology_N_def
      using lw lawful_width_dvd16 [OF lw] by (cases "topology_widths ?ps") auto
  qed
  then show "topology_N ?ps mod 16 = 0" by simp
  have "padded_widths ?ps = Inr (topology_widths ?ps)"
  proof -
    have "padded_widths ?ps = Inr (map pad_width (topology_widths ?ps))"
      unfolding padded_widths_def
      by (intro rmap_all) (auto simp: topology_widths_def padded_level_width_nat)
    then show ?thesis by (simp add: topology_widths_def comp_def pad_width_idem)
  qed
  then show "is_padded ?ps = Inr True" by (simp add: is_padded_def)
  show "padded_topology ?ps = Inr ?ps"
    using padded_topology_ok [of ?ps] assms(1,2) ok by (simp add: comp_def level_padded_idem)
  show "\<forall>i<length ls. lv_width (ls ! i) \<le> lv_width (?ps ! i)
      \<and> (\<forall>duty. topology_activation ?ps i duty = topology_activation ls i duty)"
    by (simp add: padded_width_ge topology_activation_def level_padded_activation)
qed simp

theorem padded_topology_lawful_witness:
  "\<exists>ps. padded_topology demo_levels = Inr ps \<and> length ps = length demo_levels \<and> lawful_widths (topology_widths ps)
     \<and> topology_N ps mod 16 = 0 \<and> is_padded ps = Inr True \<and> padded_topology ps = Inr ps
     \<and> (\<forall>i<length demo_levels. lv_width (demo_levels ! i) \<le> lv_width (ps ! i)
          \<and> (\<forall>duty. topology_activation ps i duty = topology_activation demo_levels i duty))"
  by (rule padded_topology_lawful [OF _ _ demo_levels_ok]) (simp_all add: demo_levels_def MAX_ROUTING_DEPTH_def)

section \<open>The closed registry\<close>

lemma cell_properties:
  assumes "\<forall>l\<in>set ls. level_ok l" "i < length ls" "is_duty duty"
  shows "\<exists>row. topology_activation_properties ls i duty = Inr row \<and> ar_normalized row \<and> ar_kerneled row"
proof -
  obtain a where "level_activation (ls ! i) duty = Inr a" "known a"
    using assms level_activation_known [of "ls ! i" duty] by auto
  then show ?thesis
    using activation_properties_known [of a] assms(2)
    by (auto simp: topology_activation_properties_def topology_activation_def)
qed

lemma duty_cells_in: "cell \<in> set (duty_cells ls) \<Longrightarrow> fst cell < length ls \<and> is_duty (snd cell)"
  by (auto simp: duty_cells_def topology_D_def is_duty_def)

text \<open>
  Over accepted levels no cell is unratified and no write side is un-normalized: the
  operator's refusal of an unratified activation and the decay's refusal of an un-normalized write
  side are unreachable with the registry as it stands, and the decay's verdict is about shapes alone.
\<close>

theorem registry_refusals_unreachable:
  assumes "\<forall>l\<in>set ls. level_ok l"
  shows "unratified_activations ls = Inr [] \<and> topology_kerneled ls = Inr True
     \<and> decay_validate_against dials ls =
        (if length dials \<noteq> length ls then Inl (ValueError ''one tensor per level'')
         else checks (map (\<lambda>(d, w). refuse (last (dial_shape d) \<noteq> w) (ValueError ''dial width'')) (zip dials (topology_widths ls))))"
proof -
  have "\<forall>cell\<in>set (duty_cells ls). unratified_cell ls cell = Inr []"
    using cell_properties [OF assms] duty_cells_in by (fastforce simp: unratified_cell_def)
  then have "rmap (unratified_cell ls) (duty_cells ls) = Inr (map (\<lambda>_. []) (duty_cells ls))" by (rule rmap_all)
  moreover have "concat (map (\<lambda>_. []) xs) = []" for xs :: "'b list" by (induction xs) auto
  ultimately have u: "unratified_activations ls = Inr []" by (simp add: unratified_activations_def)
  have "\<forall>i\<in>set [0..<topology_D ls]. unnormalized_level ls i = Inr []"
    using cell_properties [OF assms, of _ "''write''"] by (fastforce simp: unnormalized_level_def topology_D_def is_duty_def)
  then have "rmap (unnormalized_level ls) [0..<topology_D ls] = Inr (map (\<lambda>_. []) [0..<topology_D ls])" by (rule rmap_all)
  moreover have "concat (map (\<lambda>_. []) xs) = ([] :: nat list)" for xs :: "nat list" by (induction xs) auto
  ultimately show ?thesis using u
    by (simp add: topology_kerneled_def decay_validate_against_def topology_widths_def)
qed

theorem registry_refusals_unreachable_witness:
  "unratified_activations demo_levels = Inr [] \<and> topology_kerneled demo_levels = Inr True"
  using registry_refusals_unreachable [OF demo_levels_ok] by blast

text \<open>
  The dial check compares, and a comparison with NaN is false: a dial that holds NaN
  passes the check of \<^verbatim>\<open>0 <= delta < 1\<close>.
\<close>

theorem nan_dial_accepted:
  "make_decay [Dial [1, 2] [Fin 0, Nan] False] = Inr [Dial [1, 2] [Fin 0, Nan] False]
   \<and> make_decay [Dial [1, 2] [Fin 0, PosInf] False] = Inl (ValueError ''entries must satisfy the strict invariant'')
   \<and> make_decay [Dial [1, 2] [Fin 0, Fin 1] False] = Inl (ValueError ''entries must satisfy the strict invariant'')"
  by (simp add: make_decay_def)

end
