(* ===== verification/Rola_Runner.thy ===== *)
theory Rola_Runner
  imports Rola_Prelude Rola_Rules
begin

text \<open>
  The DAG framework of \<^verbatim>\<open>rola/engine/runner.py\<close>: a declared node, a declared rule, the two
  structural checks and the walk. A recipe is an ordered list of nodes; the walk threads the fact
  bag, the memo tables and the world the bodies act on.

  A fact is \<^verbatim>\<open>None\<close>, a mask, a tuple or a value of the family (\<^typ>\<open>'v\<close>). A memo table is
  the store at the node's memo address, and a per-state node has one table per state; the hash
  lookup of a \<^verbatim>\<open>dict\<close> is a lookup in the list of its cells. The collection of a dropped state's table is
  \<open>forget\<close>. The NVTX ranges have no effect on the walk and are left out.
\<close>

section \<open>Nodes\<close>

datatype 'v fact = FNone | FMask mask | FTuple "'v fact list" | FVal 'v

type_synonym 'v bag = "string \<rightharpoonup> 'v fact"

record ('v, 'w) node =
  n_name :: string
  n_gives :: "string list"
  n_needs :: "string list"
  n_stream :: string
  n_masks :: "mask list"
  n_waits :: "string list"
  n_host_sync :: bool
  n_pure_of :: "string list"
  n_per_state :: bool
  n_capturable :: bool
  n_reference_only :: bool
  n_memo :: nat
  n_pure :: bool
  n_fn :: "'v bag \<Rightarrow> 'w \<Rightarrow> ('v fact, 'w) step"

definition STREAMS :: "string list" where "STREAMS = [''host'', ''main'', ''side'']"

text \<open>The defaults of the decorator's keyword arguments, over a name, a memo address and a body.\<close>

definition plain_node :: "string \<Rightarrow> nat \<Rightarrow> ('v bag \<Rightarrow> 'w \<Rightarrow> ('v fact, 'w) step) \<Rightarrow> ('v, 'w) node" where
  "plain_node name addr fn =
     \<lparr>n_name = name, n_gives = [], n_needs = [], n_stream = ''host'', n_masks = [M1, M2], n_waits = [],
      n_host_sync = False, n_pure_of = [], n_per_state = False, n_capturable = False,
      n_reference_only = False, n_memo = addr, n_pure = False, n_fn = fn\<rparr>"

definition node_declare :: "('v, 'w) node \<Rightarrow> ('v, 'w) node res" where
  "node_declare n =
     (if n_stream n \<notin> set STREAMS then Inl (ValueError ''stream is not one of the streams'')
      else if n_per_state n \<and> ''state'' \<notin> set (n_needs n) then Inl (ValueError ''a per_state node must read state'')
      else if set (n_pure_of n) - set (n_needs n) \<noteq> {} then Inl (ValueError ''pure_of names what it does not read'')
      else if n_capturable n \<and> n_host_sync n then Inl (ValueError ''a host_sync node cannot be capturable'')
      else Inr n)"

fun facts_of :: "'v bag \<Rightarrow> string list \<Rightarrow> 'v fact list res" where
  "facts_of facts [] = Inr []"
| "facts_of facts (x # xs) =
     (case facts x of None \<Rightarrow> Inl (KeyError x)
      | Some v \<Rightarrow> rbind (facts_of facts xs) (\<lambda>vs. Inr (v # vs)))"

text \<open>The node a rule is walked as: its parameters are looked up by name and folded.\<close>

definition rule_declare ::
    "string \<Rightarrow> nat \<Rightarrow> string list \<Rightarrow> string list \<Rightarrow> mask list \<Rightarrow> string list
     \<Rightarrow> ('v fact list \<Rightarrow> 'v fact res) \<Rightarrow> ('v, 'w) node res" where
  "rule_declare name addr gives needs masks params body =
     (if params \<noteq> needs then Inl (ValueError ''parameter names are the FACT names'')
      else rbind (node_declare ((plain_node name addr (\<lambda>facts w. (rbind (facts_of facts needs) body, w)))
                    \<lparr>n_gives := gives, n_needs := needs, n_masks := masks, n_capturable := True\<rparr>))
             (\<lambda>n. Inr (n\<lparr>n_pure := True\<rparr>)))"

section \<open>The structural checks\<close>

fun walkable :: "string set \<Rightarrow> ('v, 'w) node list \<Rightarrow> bool" where
  "walkable available [] = True"
| "walkable available (s # dag) \<longleftrightarrow>
     set (n_needs s) \<subseteq> available \<and> walkable (available \<union> set (n_gives s)) dag"

definition validate_dag :: "('v, 'w) node list \<Rightarrow> string list \<Rightarrow> unit res" where
  "validate_dag dag seeds =
     (if \<not> walkable (set seeds) dag then Inl (ValueError ''no earlier node or seed produces them'')
      else if 1 < length (filter (\<lambda>s. n_waits s \<noteq> []) dag) then Inl (ValueError ''exactly one Join per DAG'')
      else if 1 < length (filter n_host_sync dag) then Inl (ValueError ''at most one device-to-host read per DAG'')
      else if filter n_reference_only dag \<noteq> [] then Inl (ValueError ''a reference_only node is a second derivation'')
      else Inr ())"

definition validate_capturable :: "('v, 'w) node list \<Rightarrow> unit res" where
  "validate_capturable dag =
     refuse (filter (\<lambda>s. \<not> n_capturable s) dag \<noteq> []) (ValueError ''is/are not declared capturable'')"

section \<open>The walk\<close>

text \<open>
  The memo cells, the newest first: the table's address, the state for a per-state table, the key
  and the value. A cell is only added when its key is absent.
\<close>

type_synonym 'v memo = "((nat \<times> 'v fact option \<times> 'v fact list) \<times> 'v fact) list"

text \<open>
  \<^verbatim>\<open>Node.table\<close>: none, the node's own table, or the table of the state; \<^verbatim>\<open>None\<close>, an enum
  member and a tuple cannot be weakly referenced.
\<close>

definition table_of :: "('v, 'w) node \<Rightarrow> 'v bag \<Rightarrow> 'v fact option option res" where
  "table_of s facts =
     (if n_per_state s then
        (case facts ''state'' of
           None \<Rightarrow> Inl (KeyError ''state'')
         | Some (FVal v) \<Rightarrow> Inr (Some (Some (FVal v)))
         | Some _ \<Rightarrow> Inl (TypeError ''cannot create weak reference''))
      else Inr (if n_pure_of s = [] then None else Some None))"

definition masked_out :: "('v, 'w) node \<Rightarrow> 'v bag \<Rightarrow> bool" where
  "masked_out s facts =
     (case facts ''mask'' of
        None \<Rightarrow> False
      | Some FNone \<Rightarrow> False
      | Some (FMask m) \<Rightarrow> m \<notin> set (n_masks s)
      | Some _ \<Rightarrow> True)"

definition give_none :: "string list \<Rightarrow> 'v bag \<Rightarrow> 'v bag" where
  "give_none gives facts = (\<lambda>x. if x \<in> set gives \<and> facts x = None then Some FNone else facts x)"

definition supplied :: "('v, 'w) node \<Rightarrow> 'v bag \<Rightarrow> bool" where
  "supplied s facts \<longleftrightarrow> n_gives s \<noteq> [] \<and> set (n_gives s) \<subseteq> dom facts"

lemma bound_names [code_unfold]: "set xs \<subseteq> dom (f :: 'v bag) \<longleftrightarrow> list_all (\<lambda>x. f x \<noteq> None) xs"
  by (auto simp: list_all_iff)

definition unpack :: "string list \<Rightarrow> 'v fact \<Rightarrow> 'v bag \<Rightarrow> 'v bag res" where
  "unpack gives produced facts =
     (case gives of
        [] \<Rightarrow> Inr facts
      | [x] \<Rightarrow> Inr (facts(x \<mapsto> produced))
      | _ \<Rightarrow> (case produced of
            FTuple vs \<Rightarrow>
              if length vs \<noteq> length gives then Inl (ValueError ''zip() argument lengths'')
              else Inr (facts(gives [\<mapsto>] vs))
          | _ \<Rightarrow> Inl (TypeError ''zip argument must support iteration'')))"

text \<open>The body, through the node's cache.\<close>

definition produce :: "('v, 'w) node \<Rightarrow> 'v bag \<Rightarrow> 'v memo \<Rightarrow> 'w \<Rightarrow> 'v fact res \<times> 'v memo \<times> 'w" where
  "produce s facts memo w =
     (case table_of s facts of
        Inl e \<Rightarrow> (Inl e, memo, w)
      | Inr table \<Rightarrow>
        (case facts_of facts (n_pure_of s) of
           Inl e \<Rightarrow> (Inl e, memo, w)
         | Inr key \<Rightarrow>
           (case table of
              None \<Rightarrow> (case n_fn s facts w of (r, w') \<Rightarrow> (r, memo, w'))
            | Some st \<Rightarrow>
              (case map_of memo (n_memo s, st, key) of
                 Some v \<Rightarrow> (Inr v, memo, w)
               | None \<Rightarrow>
                 (case n_fn s facts w of
                    (Inl e, w') \<Rightarrow> (Inl e, memo, w')
                  | (Inr v, w') \<Rightarrow> (Inr v, ((n_memo s, st, key), v) # memo, w'))))))"

definition walk_step :: "('v, 'w) node \<Rightarrow> 'v bag \<Rightarrow> 'v memo \<Rightarrow> 'w \<Rightarrow> 'v bag res \<times> 'v memo \<times> 'w" where
  "walk_step s facts memo w =
     (if masked_out s facts then (Inr (give_none (n_gives s) facts), memo, w)
      else if supplied s facts then (Inr facts, memo, w)
      else if \<not> set (n_needs s) \<subseteq> dom facts then (Inl (RuntimeError ''was reached without''), memo, w)
      else (case produce s facts memo w of
              (Inl e, memo', w') \<Rightarrow> (Inl e, memo', w')
            | (Inr v, memo', w') \<Rightarrow> (unpack (n_gives s) v facts, memo', w')))"

fun run :: "('v, 'w) node list \<Rightarrow> 'v bag \<Rightarrow> 'v memo \<Rightarrow> 'w \<Rightarrow> 'v bag res \<times> 'v memo \<times> 'w" where
  "run [] facts memo w = (Inr facts, memo, w)"
| "run (s # dag) facts memo w =
     (case walk_step s facts memo w of
        (Inl e, memo', w') \<Rightarrow> (Inl e, memo', w')
      | (Inr facts', memo', w') \<Rightarrow> run dag facts' memo' w')"

text \<open>A dropped state drops its tables.\<close>

definition forget :: "'v fact \<Rightarrow> 'v memo \<Rightarrow> 'v memo" where
  "forget st memo = filter (\<lambda>((a, t, key), v). t \<noteq> Some st) memo"

section \<open>Bodies\<close>

text \<open>A body's read of a fact: a value it cannot use raises where the source would use it.\<close>

definition need :: "'v bag \<Rightarrow> string \<Rightarrow> ('v \<Rightarrow> bool) \<Rightarrow> ('v \<Rightarrow> 'b) \<Rightarrow> 'b res" where
  "need f x is un = (case f x of Some (FVal v) \<Rightarrow> if is v then Inr (un v) else Inl (AttributeError x) | _ \<Rightarrow> Inl (AttributeError x))"

definition maybe :: "'v bag \<Rightarrow> string \<Rightarrow> ('v \<Rightarrow> bool) \<Rightarrow> ('v \<Rightarrow> 'b) \<Rightarrow> 'b option res" where
  "maybe f x is un = (case f x of Some FNone \<Rightarrow> Inr None
     | Some (FVal v) \<Rightarrow> if is v then Inr (Some (un v)) else Inl (AttributeError x) | _ \<Rightarrow> Inl (AttributeError x))"

definition need_mask :: "'v bag \<Rightarrow> mask res" where
  "need_mask f = (case f ''mask'' of Some (FMask m) \<Rightarrow> Inr m | _ \<Rightarrow> Inl (TypeError ''int() argument''))"

definition fopt :: "('b \<Rightarrow> 'v) \<Rightarrow> 'b option \<Rightarrow> 'v fact" where
  "fopt c x = (case x of None \<Rightarrow> FNone | Some v \<Rightarrow> FVal (c v))"

definition given :: "'v bag \<Rightarrow> string \<Rightarrow> bool" where "given f x \<longleftrightarrow> f x \<noteq> Some FNone"

text \<open>A host body reads the bag and leaves the world alone.\<close>

definition host :: "('v bag \<Rightarrow> 'v fact res) \<Rightarrow> 'v bag \<Rightarrow> 'w \<Rightarrow> ('v fact, 'w) step" where
  "host g f w = (g f, w)"

end
