(* ===== verification/Rola_Runner_Props.thy ===== *)
theory Rola_Runner_Props
  imports Rola_Runner
begin

text \<open>
  What the walk guarantees of a validated recipe: every fact is bound when the walk ends, every
  failure is a node's own, a supplied fact is kept when its whole node is supplied, and the memo
  tables cannot be seen in the result. The locales state the contract of a recipe; the theories
  of the DAG families interpret them.
\<close>

section \<open>One step\<close>

lemma facts_of_bound: "set xs \<subseteq> dom facts \<Longrightarrow> facts_of facts xs = Inr (map (the \<circ> facts) xs)"
  by (induction xs) (auto split: option.splits)

lemma facts_of_cong: "(\<And>x. x \<in> set xs \<Longrightarrow> facts x = facts' x) \<Longrightarrow> facts_of facts xs = facts_of facts' xs"
  by (induction xs) (auto split: option.splits)

lemma dom_give_none [simp]: "dom (give_none gives facts) = dom facts \<union> set gives"
  by (auto simp: give_none_def split: if_splits)

lemma give_none_id: "set gives \<subseteq> dom facts \<Longrightarrow> give_none gives facts = facts"
  by (fastforce simp: give_none_def)

lemma unpack_dom: "unpack gives v facts = Inr facts' \<Longrightarrow> dom facts' = dom facts \<union> set gives"
proof -
  assume "unpack gives v facts = Inr facts'"
  then consider "gives = []" "facts' = facts" | x where "gives = [x]" "facts' = facts(x \<mapsto> v)"
    | vs where "length vs = length gives" "facts' = facts(gives [\<mapsto>] vs)"
    unfolding unpack_def by (cases gives rule: remdups_adj.cases; cases v) (auto split: if_splits)
  then show ?thesis by cases auto
qed

lemma unpack_other: "unpack gives v facts = Inr facts' \<Longrightarrow> x \<notin> set gives \<Longrightarrow> facts' x = facts x"
  by (auto simp: unpack_def map_upds_apply_nontin split: list.splits fact.splits if_splits)

text \<open>The step either leaves the bag's bindings alone or runs the body.\<close>

lemma walk_step_cases:
  assumes "walk_step s facts memo w = (Inr facts', memo', w')"
  obtains (masked) "facts' = give_none (n_gives s) facts"
    | (supplied) "facts' = facts" "n_gives s \<noteq> []" "set (n_gives s) \<subseteq> dom facts"
    | (ran) v where "unpack (n_gives s) v facts = Inr facts'" "\<not> supplied s facts"
  using assms by (auto simp: walk_step_def supplied_def split: if_splits prod.splits sum.splits)

lemma walk_step_ok:
  assumes "walk_step s facts memo w = (Inr facts', memo', w')"
  shows "dom facts' = dom facts \<union> set (n_gives s)"
    and "x \<notin> set (n_gives s) \<Longrightarrow> facts' x = facts x"
    and "n_gives s \<noteq> [] \<Longrightarrow> set (n_gives s) \<subseteq> dom facts \<Longrightarrow> facts' = facts"
proof -
  show "dom facts' = dom facts \<union> set (n_gives s)"
    using assms by (cases rule: walk_step_cases) (simp_all add: unpack_dom Un_absorb2)
  show "x \<notin> set (n_gives s) \<Longrightarrow> facts' x = facts x"
    using assms by (cases rule: walk_step_cases) (auto simp: give_none_def dest: unpack_other)
  show "n_gives s \<noteq> [] \<Longrightarrow> set (n_gives s) \<subseteq> dom facts \<Longrightarrow> facts' = facts"
    using assms by (cases rule: walk_step_cases) (auto simp: supplied_def give_none_id)
qed

definition own_error :: "('v, 'w) node \<Rightarrow> 'v bag \<Rightarrow> exc \<Rightarrow> bool" where
  "own_error s facts e \<longleftrightarrow> (\<exists>w. fst (n_fn s facts w) = Inl e) \<or> table_of s facts = Inl e
     \<or> (\<exists>v. unpack (n_gives s) v facts = Inl e)"

lemma node_declare_ok:
  "node_declare n = Inr m \<longleftrightarrow> m = n \<and> n_stream n \<in> set STREAMS \<and> (n_per_state n \<longrightarrow> ''state'' \<in> set (n_needs n))
     \<and> set (n_pure_of n) \<subseteq> set (n_needs n) \<and> \<not> (n_capturable n \<and> n_host_sync n)"
  by (auto simp: node_declare_def)

lemma produce_error:
  assumes "node_declare s = Inr s" "set (n_needs s) \<subseteq> dom facts" "produce s facts memo w = (Inl e, memo', w')"
  shows "own_error s facts e"
proof -
  have k: "facts_of facts (n_pure_of s) = Inr (map (the \<circ> facts) (n_pure_of s))"
    using assms(1,2) by (intro facts_of_bound) (auto simp: node_declare_ok)
  show ?thesis
  proof (cases "\<exists>w. fst (n_fn s facts w) = Inl e")
    case False
    then have "fst (n_fn s facts w) \<noteq> Inl e" by blast
    then show ?thesis using assms(3) k
      by (auto simp: produce_def own_error_def split: sum.splits option.splits prod.splits)
  qed (simp add: own_error_def)
qed

lemma walk_step_error:
  assumes "node_declare s = Inr s" "set (n_needs s) \<subseteq> dom facts" "walk_step s facts memo w = (Inl e, memo', w')"
  shows "own_error s facts e"
  using assms produce_error [OF assms(1,2)]
  by (auto simp: walk_step_def own_error_def split: if_splits prod.splits sum.splits)

section \<open>The walk of a recipe\<close>

definition gives_of :: "('v, 'w) node list \<Rightarrow> string set" where
  "gives_of dag = (\<Union>s\<in>set dag. set (n_gives s))"

lemma gives_of_simps [simp]: "gives_of [] = {}" "gives_of (s # dag) = set (n_gives s) \<union> gives_of dag"
  by (auto simp: gives_of_def)

lemma run_dom: "run dag facts memo w = (Inr facts', memo', w') \<Longrightarrow> dom facts' = dom facts \<union> gives_of dag"
proof (induction dag arbitrary: facts memo w)
  case (Cons s dag)
  then obtain f1 m1 w1 where s: "walk_step s facts memo w = (Inr f1, m1, w1)" "run dag f1 m1 w1 = (Inr facts', memo', w')"
    by (auto split: prod.splits sum.splits)
  show ?case using Cons.IH [OF s(2)] walk_step_ok(1) [OF s(1)] by auto
qed simp

lemma run_other:
  "run dag facts memo w = (Inr facts', memo', w') \<Longrightarrow> x \<notin> gives_of dag \<Longrightarrow> facts' x = facts x"
proof (induction dag arbitrary: facts memo w)
  case (Cons s dag)
  then obtain f1 m1 w1 where s: "walk_step s facts memo w = (Inr f1, m1, w1)" "run dag f1 m1 w1 = (Inr facts', memo', w')"
    by (auto split: prod.splits sum.splits)
  then show ?case using Cons.IH [OF s(2)] walk_step_ok(2) [OF s(1)] Cons.prems by auto
qed simp

lemma run_error:
  "walkable available dag \<Longrightarrow> available \<subseteq> dom facts \<Longrightarrow> \<forall>s\<in>set dag. node_declare s = Inr s
   \<Longrightarrow> run dag facts memo w = (Inl e, memo', w')
   \<Longrightarrow> \<exists>s\<in>set dag. \<exists>bag. set (n_needs s) \<subseteq> dom bag \<and> own_error s bag e"
proof (induction dag arbitrary: available facts memo w)
  case (Cons s dag)
  have needs: "set (n_needs s) \<subseteq> dom facts" using Cons.prems by auto
  show ?case
  proof (cases "fst (walk_step s facts memo w)")
    case (Inl e')
    then have "own_error s facts e" using Cons.prems walk_step_error [OF _ needs, of memo w]
      by (auto split: prod.splits sum.splits)
    with needs show ?thesis by auto
  next
    case (Inr f1)
    then obtain m1 w1 where s: "walk_step s facts memo w = (Inr f1, m1, w1)" by (metis prod.collapse)
    have "available \<union> set (n_gives s) \<subseteq> dom f1" using walk_step_ok(1) [OF s] Cons.prems(2) by auto
    then show ?thesis using Cons.IH [of "available \<union> set (n_gives s)" f1 m1 w1] Cons.prems s by auto
  qed
qed simp

text \<open>A fact is kept when each node that gives it finds all its facts supplied.\<close>

lemma run_kept:
  "run dag facts memo w = (Inr facts', memo', w') \<Longrightarrow> x \<in> dom facts
   \<Longrightarrow> \<forall>s\<in>set dag. x \<in> set (n_gives s) \<longrightarrow> set (n_gives s) \<subseteq> dom facts \<Longrightarrow> facts' x = facts x"
proof (induction dag arbitrary: facts memo w)
  case (Cons s dag)
  then obtain f1 m1 w1 where s: "walk_step s facts memo w = (Inr f1, m1, w1)" "run dag f1 m1 w1 = (Inr facts', memo', w')"
    by (auto split: prod.splits sum.splits)
  have "f1 x = facts x"
  proof (cases "x \<in> set (n_gives s)")
    case True
    then have "n_gives s \<noteq> []" "set (n_gives s) \<subseteq> dom facts" using Cons.prems(3) by auto
    then show ?thesis using walk_step_ok(3) [OF s(1)] by simp
  qed (rule walk_step_ok(2) [OF s(1)])
  moreover have "facts' x = f1 x"
    using Cons.IH [OF s(2)] Cons.prems(2,3) walk_step_ok(1) [OF s(1)] by fastforce
  ultimately show ?case by simp
qed simp

lemma run_append:
  "run (xs @ ys) facts memo w =
     (case run xs facts memo w of (Inl e, memo', w') \<Rightarrow> (Inl e, memo', w') | (Inr f, memo', w') \<Rightarrow> run ys f memo' w')"
  by (induction xs arbitrary: facts memo w) (auto split: prod.splits sum.splits)

text \<open>What no body changes, the walk does not change.\<close>

definition frames :: "('w \<Rightarrow> 'b) \<Rightarrow> ('v, 'w) node \<Rightarrow> bool" where
  "frames g s \<longleftrightarrow> (\<forall>facts w. g (snd (n_fn s facts w)) = g w)"

lemma produce_frame: "frames g s \<Longrightarrow> g (snd (snd (produce s facts memo w))) = g w"
proof -
  assume f: "frames g s"
  have n: "g w' = g w" if "n_fn s facts w = (r, w')" for r w' using f that unfolding frames_def by (metis snd_conv)
  show ?thesis by (auto simp: produce_def dest: n split: sum.split option.split prod.split)
qed

lemma walk_step_frame: "frames g s \<Longrightarrow> g (snd (snd (walk_step s facts memo w))) = g w"
  using produce_frame [of g s facts memo w] by (auto simp: walk_step_def split: prod.split sum.split)

lemma run_frame: "\<forall>s\<in>set dag. frames g s \<Longrightarrow> g (snd (snd (run dag facts memo w))) = g w"
proof (induction dag arbitrary: facts memo w)
  case (Cons s dag)
  obtain r m1 w1 where s: "walk_step s facts memo w = (r, m1, w1)" by (metis prod.collapse)
  have "g w1 = g w" using walk_step_frame [of g s facts memo w] Cons.prems s by simp
  then show ?case using Cons.IH [of _ m1 w1] Cons.prems s by (cases r) auto
qed simp

text \<open>
  A recipe that gives every fact once, on a bag that supplies none of them: the final bag is a
  solution of every node, the equations of a node being read on a part of the final bag.
\<close>

lemma run_extends:
  "run dag facts memo w = (Inr facts', memo', w') \<Longrightarrow> dom facts \<inter> gives_of dag = {} \<Longrightarrow> facts \<subseteq>\<^sub>m facts'"
  using run_other by (fastforce simp: map_le_def)

definition solved :: "('v, 'w) node \<Rightarrow> 'v bag \<Rightarrow> bool" where
  "solved s final \<longleftrightarrow>
     (\<exists>bag. bag \<subseteq>\<^sub>m final \<and>
       (masked_out s bag \<and> (\<forall>x\<in>set (n_gives s). final x = Some FNone)
        \<or> \<not> masked_out s bag \<and> set (n_needs s) \<subseteq> dom bag
          \<and> (\<exists>memo w v memo' w' bag'. produce s bag memo w = (Inr v, memo', w') \<and> unpack (n_gives s) v bag = Inr bag'
               \<and> bag' \<subseteq>\<^sub>m final)))"

lemma run_solves:
  "run dag facts memo w = (Inr final, memo', w') \<Longrightarrow> distinct (concat (map n_gives dag))
   \<Longrightarrow> dom facts \<inter> gives_of dag = {} \<Longrightarrow> s \<in> set dag \<Longrightarrow> solved s final"
proof (induction dag arbitrary: facts memo w)
  case (Cons t dag)
  then obtain f1 m1 w1 where st: "walk_step t facts memo w = (Inr f1, m1, w1)" "run dag f1 m1 w1 = (Inr final, memo', w')"
    by (auto split: prod.splits sum.splits)
  have d: "dom f1 = dom facts \<union> set (n_gives t)" by (rule walk_step_ok(1) [OF st(1)])
  have dis: "dom f1 \<inter> gives_of dag = {}"
    using Cons.prems(2,3) by (auto simp: d gives_of_def)
  have f1: "f1 \<subseteq>\<^sub>m final" by (rule run_extends [OF st(2) dis])
  have facts: "facts \<subseteq>\<^sub>m final" by (rule run_extends [OF Cons.prems(1,3)])
  show ?case
  proof (cases "s = t")
    case True
    have sup: "\<not> supplied t facts" using Cons.prems(3) by (cases "n_gives t") (auto simp: supplied_def)
    show ?thesis
    proof (cases "masked_out t facts")
      case m: True
      then have "f1 = give_none (n_gives t) facts" using st(1) by (simp add: walk_step_def)
      then have "\<forall>x\<in>set (n_gives t). final x = Some FNone"
        using f1 Cons.prems(3) by (fastforce simp: map_le_def give_none_def dom_def)
      then show ?thesis using m facts True by (auto simp: solved_def)
    next
      case m: False
      then have n: "set (n_needs t) \<subseteq> dom facts" and
        p: "\<exists>v m2 w2. produce t facts memo w = (Inr v, m2, w2) \<and> unpack (n_gives t) v facts = Inr f1"
        using st(1) sup by (auto simp: walk_step_def split: if_splits prod.splits sum.splits)
      show ?thesis unfolding solved_def True using m n p f1 facts by blast
    qed
  next
    case False
    then show ?thesis using Cons.IH [OF st(2) _ dis] Cons.prems(2,4) by auto
  qed
qed simp

lemma need_Inr [simp]: "need f x is un = Inr y \<longleftrightarrow> (\<exists>v. f x = Some (FVal v) \<and> is v \<and> un v = y)"
  by (auto simp: need_def split: option.splits fact.splits)

lemma maybe_Inr: "maybe f x is un = Inr y \<longleftrightarrow>
   (case y of None \<Rightarrow> f x = Some FNone | Some z \<Rightarrow> \<exists>v. f x = Some (FVal v) \<and> is v \<and> un v = z)"
  by (auto simp: maybe_def split: option.splits fact.splits)

lemma maybe_Inr_opt: "maybe f x is un = Inr y \<Longrightarrow> (\<And>z. is z \<Longrightarrow> c (un z) = z) \<Longrightarrow> f x = Some (fopt c y)"
  by (auto simp: maybe_Inr fopt_def split: option.splits)

lemma need_mask_Inr [simp]: "need_mask f = Inr m \<longleftrightarrow> f ''mask'' = Some (FMask m)"
  by (auto simp: need_mask_def split: option.splits fact.splits)

lemma map_leD: "f \<subseteq>\<^sub>m g \<Longrightarrow> f x = Some y \<Longrightarrow> g x = Some y"
  by (force simp: map_le_def)

text \<open>A node without a cache that was not masked out: its body ran on a part of the final bag.\<close>

lemma solved_ran:
  assumes "solved s final" "final ''mask'' = Some (FMask m)" "m \<in> set (n_masks s)" "n_pure_of s = []" "\<not> n_per_state s"
  obtains bag w v w' bag' where "bag \<subseteq>\<^sub>m final" "set (n_needs s) \<subseteq> dom bag" "n_fn s bag w = (Inr v, w')"
    "unpack (n_gives s) v bag = Inr bag'" "bag' \<subseteq>\<^sub>m final"
proof -
  obtain bag where b: "bag \<subseteq>\<^sub>m final" "masked_out s bag \<and> (\<forall>x\<in>set (n_gives s). final x = Some FNone)
        \<or> \<not> masked_out s bag \<and> set (n_needs s) \<subseteq> dom bag
          \<and> (\<exists>memo w v memo' w' bag'. produce s bag memo w = (Inr v, memo', w') \<and> unpack (n_gives s) v bag = Inr bag'
               \<and> bag' \<subseteq>\<^sub>m final)" using assms(1) unfolding solved_def by blast
  have "\<not> masked_out s bag"
    using map_leD [OF b(1), of "''mask''"] assms(2,3) by (auto simp: masked_out_def split: option.splits fact.splits)
  then obtain memo w v memo' w' bag' where r: "set (n_needs s) \<subseteq> dom bag" "produce s bag memo w = (Inr v, memo', w')"
    "unpack (n_gives s) v bag = Inr bag'" "bag' \<subseteq>\<^sub>m final" using b(2) by blast
  then have "n_fn s bag w = (Inr v, w')"
    using assms(4,5) by (auto simp: produce_def table_of_def split: prod.splits)
  then show thesis using that b(1) r by blast
qed

lemma unpack1: "unpack [x] v bag = Inr bag' \<Longrightarrow> bag' \<subseteq>\<^sub>m final \<Longrightarrow> final x = Some v"
  by (auto simp: unpack_def dest: map_leD)

lemma unpack2: "unpack [x, y] v bag = Inr bag' \<Longrightarrow> bag' \<subseteq>\<^sub>m final \<Longrightarrow> x \<noteq> y
   \<Longrightarrow> \<exists>a b. v = FTuple [a, b] \<and> final x = Some a \<and> final y = Some b"
  by (auto simp: unpack_def length_Suc_conv map_le_def split: fact.splits if_splits)

lemma snd_host [simp]: "snd (host g f w) = w" by (simp add: host_def)

lemma in_streams [simp]: "''host'' \<in> set STREAMS" "''main'' \<in> set STREAMS" "''side'' \<in> set STREAMS"
  by (simp_all add: STREAMS_def)

lemma plain_node_simps [simp]:
  "n_name (plain_node n a g) = n" "n_gives (plain_node n a g) = []" "n_needs (plain_node n a g) = []"
  "n_stream (plain_node n a g) = ''host''" "n_masks (plain_node n a g) = [M1, M2]" "n_waits (plain_node n a g) = []"
  "\<not> n_host_sync (plain_node n a g)" "n_pure_of (plain_node n a g) = []" "\<not> n_per_state (plain_node n a g)"
  "\<not> n_capturable (plain_node n a g)" "\<not> n_reference_only (plain_node n a g)" "n_memo (plain_node n a g) = a"
  "n_fn (plain_node n a g) = g" "\<not> n_pure (plain_node n a g)"
  by (simp_all add: plain_node_def)

lemma node_declare_self: "node_declare n = Inr m \<Longrightarrow> m = n"
  by (simp add: node_declare_ok)

locale recipe =
  fixes dag :: "('v, 'w) node list" and seeds :: "string list"
  assumes valid: "validate_dag dag seeds = Inr ()"
    and declared: "\<forall>s\<in>set dag. node_declare s = Inr s"
begin

lemma walkable_seeds: "walkable (set seeds) dag"
  using valid by (auto simp: validate_dag_def split: if_splits)

lemma one_join: "length (filter (\<lambda>s. n_waits s \<noteq> []) dag) \<le> 1"
  and one_read: "length (filter n_host_sync dag) \<le> 1"
  and no_reference: "\<forall>s\<in>set dag. \<not> n_reference_only s"
  using valid by (auto simp: validate_dag_def filter_empty_conv split: if_splits)

lemma complete: "run dag facts memo w = (Inr facts', memo', w') \<Longrightarrow> dom facts' = dom facts \<union> gives_of dag"
  by (rule run_dom)

lemma errors_are_the_nodes:
  assumes "set seeds \<subseteq> dom facts" "run dag facts memo w = (Inl e, memo', w')"
  shows "\<exists>s\<in>set dag. \<exists>bag. set (n_needs s) \<subseteq> dom bag \<and> own_error s bag e"
  by (rule run_error [OF walkable_seeds assms(1) declared assms(2)])

end

section \<open>The memo tables\<close>

text \<open>
  The reference recipe: the caches of pure derivations removed. A per-state table stays: it is the
  lifetime of an allocation, not a shortcut.
\<close>

definition uncache :: "('v, 'w) node \<Rightarrow> ('v, 'w) node" where
  "uncache s = (if n_per_state s then s else s\<lparr>n_pure_of := []\<rparr>)"

definition cached :: "('v, 'w) node \<Rightarrow> bool" where
  "cached s \<longleftrightarrow> \<not> n_per_state s \<and> n_pure_of s \<noteq> []"

lemma uncache_simps [simp]:
  "n_gives (uncache s) = n_gives s" "n_needs (uncache s) = n_needs s" "n_masks (uncache s) = n_masks s"
  "n_fn (uncache s) = n_fn s" "n_memo (uncache s) = n_memo s" "n_per_state (uncache s) = n_per_state s"
  "masked_out (uncache s) facts = masked_out s facts" "supplied (uncache s) facts = supplied s facts"
  by (auto simp: uncache_def masked_out_def supplied_def split: option.splits fact.splits)

text \<open>The key of a bag, and what a table may hold.\<close>

definition right_cell :: "('v bag \<Rightarrow> bool) \<Rightarrow> ('v, 'w) node \<Rightarrow> 'v fact list \<Rightarrow> 'v fact \<Rightarrow> bool" where
  "right_cell good s key v \<longleftrightarrow>
     (\<forall>facts w. good facts \<longrightarrow> set (n_needs s) \<subseteq> dom facts \<longrightarrow> facts_of facts (n_pure_of s) = Inr key
        \<longrightarrow> n_fn s facts w = (Inr v, w))"

definition memo_ok :: "('v bag \<Rightarrow> bool) \<Rightarrow> ('v, 'w) node list \<Rightarrow> 'v memo \<Rightarrow> bool" where
  "memo_ok good dag memo \<longleftrightarrow>
     (\<forall>s\<in>set dag. cached s \<longrightarrow> (\<forall>key v. map_of memo (n_memo s, None, key) = Some v \<longrightarrow> right_cell good s key v))"

definition same_tables :: "'v memo \<Rightarrow> 'v memo \<Rightarrow> bool" where
  "same_tables m m' \<longleftrightarrow> (\<forall>a st key. map_of m (a, Some st, key) = map_of m' (a, Some st, key))"

lemma memo_ok_empty: "memo_ok good dag []" by (simp add: memo_ok_def)

lemma forget_keeps: "map_of (forget st memo) (a, None, key) = map_of memo (a, None, key)"
  by (induction memo) (auto simp: forget_def)

lemma memo_ok_forget: "memo_ok good dag memo \<Longrightarrow> memo_ok good dag (forget st memo)"
  unfolding memo_ok_def forget_keeps by simp

lemma produce_cached:
  "cached s \<Longrightarrow> facts_of facts (n_pure_of s) = Inr key \<Longrightarrow> produce s facts memo w =
     (case map_of memo (n_memo s, None, key) of Some v \<Rightarrow> (Inr v, memo, w)
      | None \<Rightarrow> (case n_fn s facts w of (Inl e, w') \<Rightarrow> (Inl e, memo, w')
          | (Inr v, w') \<Rightarrow> (Inr v, ((n_memo s, None, key), v) # memo, w')))"
  by (simp add: produce_def table_of_def cached_def split: option.splits)

text \<open>
  A recipe whose pure derivations are what \<^verbatim>\<open>pure_of\<close> says: on the bags that can occur (\<open>good\<close>),
  the body's value is a function of the key and the body does not touch the world; distinct nodes
  have distinct tables, and the steps keep the bag in what can occur.
\<close>

locale cached_recipe = recipe dag seeds for dag :: "('v, 'w) node list" and seeds :: "string list" +
  fixes good :: "'v bag \<Rightarrow> bool"
  assumes pure: "s \<in> set dag \<Longrightarrow> cached s \<Longrightarrow> good facts \<Longrightarrow> set (n_needs s) \<subseteq> dom facts
      \<Longrightarrow> facts_of facts (n_pure_of s) = Inr key \<Longrightarrow> n_fn s facts w = (Inr v, w') \<Longrightarrow> w' = w \<and> right_cell good s key v"
    and tables: "s \<in> set dag \<Longrightarrow> t \<in> set dag \<Longrightarrow> n_memo s = n_memo t \<Longrightarrow> s = t"
    and keeps: "s \<in> set dag \<Longrightarrow> good facts \<Longrightarrow> walk_step s facts memo w = (Inr facts', memo', w')
      \<Longrightarrow> memo_ok good dag memo \<Longrightarrow> good facts'"
begin

lemma produce_transparent:
  assumes s: "s \<in> set dag" and g: "good facts" and n: "set (n_needs s) \<subseteq> dom facts"
    and m: "memo_ok good dag memo" and t: "same_tables memo m0"
    and p: "produce s facts memo w = (r, memo', w')"
  shows "\<exists>m0'. produce (uncache s) facts m0 w = (r, m0', w') \<and> memo_ok good dag memo' \<and> same_tables memo' m0'"
proof (cases "cached s")
  case False
  have table: "map_of memo (n_memo s, Some st, key) = map_of m0 (n_memo s, Some st, key)" for st key
    using t by (simp add: same_tables_def)
  have "uncache s = s" if "\<not> n_per_state s" using False that by (simp add: uncache_def cached_def)
  then have u: "uncache s = s" by (cases "n_per_state s") (simp_all add: uncache_def)
  show ?thesis
  proof (cases "n_per_state s")
    case True
    then have "\<forall>x. table_of s facts \<noteq> Inr None \<and> table_of s facts \<noteq> Inr (Some None)"
      by (simp add: table_of_def split: option.splits fact.splits)
    then show ?thesis using p m t table
      by (auto simp: produce_def u memo_ok_def same_tables_def cached_def True split: sum.splits option.splits prod.splits)
  next
    case False
    then have "table_of s facts = Inr None" using \<open>\<not> cached s\<close> by (simp add: table_of_def cached_def)
    then show ?thesis using p m t by (auto simp: produce_def u split: sum.splits prod.splits)
  qed
next
  case True
  then have ps: "\<not> n_per_state s" by (simp add: cached_def)
  have k: "facts_of facts (n_pure_of s) = Inr (map (the \<circ> facts) (n_pure_of s))" (is "_ = Inr ?key")
    using declared s n by (intro facts_of_bound) (auto simp: node_declare_ok)
  have ref: "produce (uncache s) facts m0 w = (fst (n_fn s facts w), m0, snd (n_fn s facts w))"
    using ps by (simp add: produce_def uncache_def table_of_def split: prod.splits)
  show ?thesis
  proof (cases "map_of memo (n_memo s, None, ?key)")
    case (Some v)
    then have "right_cell good s ?key v" using m s True by (auto simp: memo_ok_def)
    then have "n_fn s facts w = (Inr v, w)" using g n k by (auto simp: right_cell_def)
    then show ?thesis using p m t Some unfolding ref produce_cached [OF True k] by auto
  next
    case None
    show ?thesis
    proof (cases "fst (n_fn s facts w)")
      case (Inl e)
      then have "n_fn s facts w = (Inl e, snd (n_fn s facts w))" by (metis prod.collapse)
      then show ?thesis using p m t None unfolding ref produce_cached [OF True k] by (cases "n_fn s facts w") auto
    next
      case (Inr v)
      then have f: "n_fn s facts w = (Inr v, snd (n_fn s facts w))" by (metis prod.collapse)
      then have "right_cell good s ?key v" using pure [OF s True g n k] by blast
      then have "memo_ok good dag (((n_memo s, None, ?key), v) # memo)"
        using m tables [OF s] by (auto simp: memo_ok_def dest: sym)
      then show ?thesis using p f t None unfolding ref produce_cached [OF True k]
        by (cases "n_fn s facts w") (auto simp: same_tables_def)
    qed
  qed
qed

lemma step_transparent:
  assumes "s \<in> set dag" "good facts" "memo_ok good dag memo" "same_tables memo m0"
    and "walk_step s facts memo w = (r, memo', w')"
  shows "\<exists>m0'. walk_step (uncache s) facts m0 w = (r, m0', w') \<and> memo_ok good dag memo' \<and> same_tables memo' m0'"
proof (cases "masked_out s facts \<or> supplied s facts \<or> \<not> set (n_needs s) \<subseteq> dom facts")
  case True
  then show ?thesis using assms(3-5) by (intro exI [of _ m0]) (auto simp: walk_step_def simp del: subset_eq split: if_splits)
next
  case False
  obtain q m1 w1 where q: "produce s facts memo w = (q, m1, w1)" by (metis prod.collapse)
  obtain m2 where "produce (uncache s) facts m0 w = (q, m2, w1)" "memo_ok good dag m1" "same_tables m1 m2"
    using produce_transparent [OF assms(1,2) _ assms(3,4) q] False by auto
  then show ?thesis using assms(5) False q by (cases q) (auto simp: walk_step_def)
qed

lemma run_transparent:
  "set steps \<subseteq> set dag \<Longrightarrow> good facts \<Longrightarrow> memo_ok good dag memo \<Longrightarrow> same_tables memo m0
   \<Longrightarrow> run steps facts memo w = (r, memo', w')
   \<Longrightarrow> \<exists>m0'. run (map uncache steps) facts m0 w = (r, m0', w') \<and> memo_ok good dag memo' \<and> same_tables memo' m0'"
proof (induction steps arbitrary: facts memo m0 w)
  case (Cons s steps)
  obtain q m1 w1 where q: "walk_step s facts memo w = (q, m1, w1)" by (metis prod.collapse)
  obtain m2 where m2: "walk_step (uncache s) facts m0 w = (q, m2, w1)" "memo_ok good dag m1" "same_tables m1 m2"
    using step_transparent [OF _ Cons.prems(2-4) q] Cons.prems(1) by auto
  show ?case
  proof (cases q)
    case (Inl e)
    then show ?thesis using q m2 Cons.prems(5) by auto
  next
    case (Inr f1)
    then have "good f1" using keeps [of s facts memo w f1 m1 w1] Cons.prems q by auto
    then show ?thesis using Cons.IH [of f1 m1 m2 w1] Cons.prems(1,5) m2 q Inr by auto
  qed
qed auto

lemma memo_transparent:
  assumes "good facts" "memo_ok good dag memo" "run dag facts memo w = (r, memo', w')"
  shows "\<exists>m0'. run (map uncache dag) facts memo w = (r, m0', w') \<and> memo_ok good dag memo' \<and> same_tables memo' m0'"
  using run_transparent [OF _ assms(1,2) _ assms(3), of memo] by (simp add: same_tables_def)

end

end
