(* ===== verification/Rola_Pack.thy ===== *)
theory Rola_Pack
  imports Rola_Prelude Rola_Radix Rola_Lattice Rola_Resolved
begin

text \<open>
  The operand planes of \<^verbatim>\<open>rola/engine/facts/planes.py\<close>: a side's levels packed as one
  \<^verbatim>\<open>[B, H, T, sumW]\<close> plane, either by recognising that the levels already are the plane or by
  copying. A tensor is a strided view of a storage; the heap is the list of storages and an
  allocation appends one. Rounding to another dtype is a parameter (\<open>narrow\<close>), and so is what an
  uninitialised allocation holds (\<open>junk\<close>).
\<close>

section \<open>Strided tensors\<close>

record tensor =
  tn_ptr :: nat
  tn_off :: nat
  tn_shape :: "nat list"
  tn_stride :: "nat list"
  tn_dtype :: string
  tn_device :: string
  tn_grad :: bool

type_synonym 'a heap = "'a list list"
type_synonym 'a narrowing = "string \<Rightarrow> string \<Rightarrow> 'a \<Rightarrow> 'a"

definition BF16 :: string where "BF16 = ''bfloat16''"
definition F32 :: string where "F32 = ''float32''"

definition address_of :: "tensor \<Rightarrow> nat list \<Rightarrow> nat" where
  "address_of t idx = tn_off t + sum_list (map2 (*) idx (tn_stride t))"

definition value_at :: "'a heap \<Rightarrow> tensor \<Rightarrow> nat list \<Rightarrow> 'a" where
  "value_at h t idx = h ! tn_ptr t ! address_of t idx"

definition is_contiguous :: "tensor \<Rightarrow> bool" where
  "is_contiguous t \<longleftrightarrow> tn_stride t = radix_strides (tn_shape t)"

definition tensor_meta_of :: "tensor \<Rightarrow> tensor_meta" where
  "tensor_meta_of t = \<lparr>tm_shape = tn_shape t, tm_dtype = tn_dtype t, tm_device = tn_device t,
     tm_contiguous = is_contiguous t, tm_grad = tn_grad t\<rparr>"

definition permute :: "nat list \<Rightarrow> tensor \<Rightarrow> tensor" where
  "permute perm t = t\<lparr>tn_shape := map (\<lambda>p. tn_shape t ! p) perm, tn_stride := map (\<lambda>p. tn_stride t ! p) perm\<rparr>"

text \<open>\<^verbatim>\<open>torch.empty\<close>: a fresh contiguous tensor over a given content.\<close>

definition fresh_tensor :: "nat list \<Rightarrow> string \<Rightarrow> string \<Rightarrow> 'a list \<Rightarrow> 'a heap \<Rightarrow> tensor \<times> 'a heap" where
  "fresh_tensor shape dtype dev content h =
     (\<lparr>tn_ptr = length h, tn_off = 0, tn_shape = shape, tn_stride = radix_strides shape,
       tn_dtype = dtype, tn_device = dev, tn_grad = False\<rparr>, h @ [content])"

definition tabulate :: "nat list \<Rightarrow> (nat list \<Rightarrow> 'a) \<Rightarrow> 'a list" where
  "tabulate shape f = map (\<lambda>i. f (digits shape i)) [0..<prod_list shape]"

section \<open>The packing\<close>

definition packed_copy :: "'a narrowing \<Rightarrow> tensor \<Rightarrow> string \<Rightarrow> 'a heap \<Rightarrow> tensor \<times> 'a heap" where
  "packed_copy narrow view dtype h =
     fresh_tensor (tn_shape view) dtype (tn_device view)
       (tabulate (tn_shape view) (\<lambda>idx. narrow (tn_dtype view) dtype (value_at h view idx))) h"

definition element_size :: "string \<Rightarrow> nat" where
  "element_size dtype = (if dtype = BF16 then 2 else 4)"

definition storage_nbytes :: "'a heap \<Rightarrow> tensor \<Rightarrow> nat" where
  "storage_nbytes h t = length (h ! tn_ptr t) * element_size (tn_dtype t)"

definition level_width :: "tensor \<Rightarrow> nat" where "level_width t = last (tn_shape t)"

definition total_width :: "tensor list \<Rightarrow> nat" where "total_width levels = sum_list (map level_width levels)"

fun windows_of :: "tensor \<Rightarrow> nat list \<Rightarrow> nat \<Rightarrow> tensor list \<Rightarrow> bool" where
  "windows_of base want offset [] = True"
| "windows_of base want offset (l # ls) =
     (if tn_dtype l \<noteq> BF16 \<or> tn_ptr l \<noteq> tn_ptr base \<or> tn_stride l \<noteq> want \<or> tn_off l \<noteq> tn_off base + offset
      then False else windows_of base want (offset + level_width l) ls)"

definition side_plane :: "'a heap \<Rightarrow> tensor list \<Rightarrow> tensor option res" where
  "side_plane h levels =
     (case levels of [] \<Rightarrow> Inl (IndexError ''tuple index out of range'')
      | base # _ \<Rightarrow>
        (case tn_shape base of
           [batch, tokens, heads, _] \<Rightarrow>
             let total = total_width levels;
                 want = [heads * tokens * total, total, tokens * total, 1];
                 span = tn_off base + batch * heads * tokens * total
             in if \<not> windows_of base want 0 levels then Inr None
                else if span * element_size (tn_dtype base) > storage_nbytes h base then Inr None
                else Inr (Some (base\<lparr>tn_shape := [batch, heads, tokens, total],
                       tn_stride := [heads * tokens * total, tokens * total, total, 1]\<rparr>))
         | _ \<Rightarrow> Inl (ValueError ''not enough values to unpack'')))"

text \<open>
  \<^verbatim>\<open>packed[:, :, :, offset:offset + width].copy_(level.permute(0, 2, 1, 3))\<close> on the packed
  storage. The bundle's checks make the two shapes equal, so no broadcast occurs.
\<close>

definition copy_level :: "'a narrowing \<Rightarrow> 'a heap \<Rightarrow> nat list \<Rightarrow> nat \<Rightarrow> tensor \<Rightarrow> 'a list \<Rightarrow> 'a list" where
  "copy_level narrow h shape offset level store =
     map (\<lambda>i. let idx = digits shape i; c = idx ! 3 in
            if offset \<le> c \<and> c < offset + level_width level
            then narrow (tn_dtype level) BF16
                   (value_at h (permute [0, 2, 1, 3] level) (take 3 idx @ [c - offset]))
            else store ! i) [0..<length store]"

fun copy_levels :: "'a narrowing \<Rightarrow> 'a heap \<Rightarrow> nat list \<Rightarrow> nat \<Rightarrow> tensor list \<Rightarrow> 'a list \<Rightarrow> 'a list" where
  "copy_levels narrow h shape offset [] store = store"
| "copy_levels narrow h shape offset (l # ls) store =
     copy_levels narrow h shape (offset + level_width l) ls (copy_level narrow h shape offset l store)"

definition pack_side :: "'a narrowing \<Rightarrow> 'a list \<Rightarrow> tensor list \<Rightarrow> 'a heap \<Rightarrow> (tensor \<times> 'a heap) res" where
  "pack_side narrow junk levels h =
     rbind (side_plane h levels) (\<lambda>plane.
       case plane of Some p \<Rightarrow> Inr (p, h)
       | None \<Rightarrow>
         (case tn_shape (hd levels) of
            [batch, tokens, heads, _] \<Rightarrow>
              let shape = [batch, heads, tokens, total_width levels] in
              Inr (fresh_tensor shape BF16 (tn_device (hd levels)) (copy_levels narrow h shape 0 levels junk) h)
          | _ \<Rightarrow> Inl (ValueError ''not enough values to unpack'')))"

text \<open>\<^verbatim>\<open>state_plane\<close>: the fresh dense plane of a routing.\<close>

definition state_plane_shape :: "nat list \<Rightarrow> nat \<Rightarrow> nat \<Rightarrow> nat \<Rightarrow> nat list" where
  "state_plane_shape widths batch heads d_v =
     (let n = foldl (*) 1 widths in [batch * heads, n div MMA_K_QUANTUM, MMA_K_QUANTUM, d_v + 1])"

section \<open>The view is the copy\<close>

lemma sum_mult_radix: "in_digits shape idx \<Longrightarrow> sum_list (map2 (*) idx (radix_strides shape)) = undigits shape idx"
  unfolding radix_strides_suffix by (induction shape arbitrary: idx) auto

lemma tabulate_at: "in_digits shape idx \<Longrightarrow> tabulate shape f ! undigits shape idx = f idx"
  using undigits_less [of shape idx] by (simp add: tabulate_def digits_undigits)

lemma value_at_fresh:
  assumes "fresh_tensor shape dtype dev content h = (t, h')" "in_digits shape idx"
  shows "value_at h' t idx = content ! undigits shape idx"
  using assms by (auto simp: fresh_tensor_def value_at_def address_of_def sum_mult_radix)

lemma value_at_old: "tn_ptr t < length h \<Longrightarrow> value_at (h @ hs) t idx = value_at h t idx"
  by (simp add: value_at_def nth_append)

lemma copy_levels_length [simp]: "length (copy_levels narrow h shape off ls store) = length store"
  by (induction ls arbitrary: off store) (auto simp: copy_level_def)

lemma copy_level_at:
  assumes "in_digits shape idx" "length store = prod_list shape"
  shows "copy_level narrow h shape off l store ! undigits shape idx =
     (if off \<le> idx ! 3 \<and> idx ! 3 < off + level_width l
      then narrow (tn_dtype l) BF16 (value_at h (permute [0, 2, 1, 3] l) (take 3 idx @ [idx ! 3 - off]))
      else store ! undigits shape idx)"
  using undigits_less [OF assms(1)] assms by (simp add: copy_level_def Let_def digits_undigits)

lemma copy_levels_before:
  assumes "in_digits shape idx" "length store = prod_list shape" "idx ! 3 < off"
  shows "copy_levels narrow h shape off ls store ! undigits shape idx = store ! undigits shape idx"
  using assms(2,3)
proof (induction ls arbitrary: off store)
  case (Cons l ls)
  have "length (copy_level narrow h shape off l store) = prod_list shape" using Cons.prems by (simp add: copy_level_def)
  then show ?case using Cons.IH [of _ "off + level_width l"] Cons.prems copy_level_at [OF assms(1) Cons.prems(1)] by simp
qed simp

lemma copy_levels_at:
  assumes "in_digits shape idx" "length store = prod_list shape" "i < length ls" "d < level_width (ls ! i)"
    "idx ! 3 = off + total_width (take i ls) + d"
  shows "copy_levels narrow h shape off ls store ! undigits shape idx =
     narrow (tn_dtype (ls ! i)) BF16 (value_at h (permute [0, 2, 1, 3] (ls ! i)) (take 3 idx @ [d]))"
  using assms(2-5)
proof (induction ls arbitrary: off store i)
  case (Cons l ls)
  let ?s = "copy_level narrow h shape off l store"
  have len: "length ?s = prod_list shape" using Cons.prems by (simp add: copy_level_def)
  show ?case
  proof (cases i)
    case 0
    then show ?thesis using Cons.prems copy_levels_before [OF assms(1) len, of "off + level_width l"]
        copy_level_at [OF assms(1) Cons.prems(1)] by (simp add: total_width_def)
  next
    case (Suc j)
    then show ?thesis using Cons.prems Cons.IH [OF len, of j "off + level_width l"] by (simp add: total_width_def)
  qed
qed simp

definition side_of :: "nat \<Rightarrow> nat \<Rightarrow> nat \<Rightarrow> 'a heap \<Rightarrow> tensor list \<Rightarrow> bool" where
  "side_of B T H h levels \<longleftrightarrow>
     levels \<noteq> [] \<and> (\<forall>l\<in>set levels. tn_shape l = [B, T, H, level_width l] \<and> length (tn_stride l) = 4
        \<and> tn_ptr l < length h)"

lemma windows_of_at:
  "windows_of base want off ls \<Longrightarrow> i < length ls \<Longrightarrow>
   tn_dtype (ls ! i) = BF16 \<and> tn_ptr (ls ! i) = tn_ptr base \<and> tn_stride (ls ! i) = want
   \<and> tn_off (ls ! i) = tn_off base + off + total_width (take i ls)"
proof (induction ls arbitrary: off i)
  case (Cons l ls)
  then show ?case
  proof (cases i)
    case (Suc j)
    then show ?thesis using Cons.IH [of "off + level_width l" j] Cons.prems by (auto simp: total_width_def split: if_splits)
  qed (auto simp: total_width_def split: if_splits)
qed simp

lemma total_width_at: "i < length ls \<Longrightarrow> d < level_width (ls ! i) \<Longrightarrow> total_width (take i ls) + d < total_width ls"
proof (induction ls arbitrary: i)
  case (Cons l ls)
  then show ?case by (cases i) (auto simp: total_width_def)
qed simp

text \<open>The plane and the copied plane, each against its side.\<close>

definition plane_of_side ::
    "'a narrowing \<Rightarrow> 'a heap \<Rightarrow> tensor list \<Rightarrow> nat \<Rightarrow> nat \<Rightarrow> nat \<Rightarrow> tensor \<Rightarrow> 'a heap \<Rightarrow> bool" where
  "plane_of_side narrow h levels B T H p h' \<longleftrightarrow>
     tn_shape p = [B, H, T, total_width levels] \<and> is_contiguous p \<and> tn_dtype p = BF16
   \<and> (\<forall>k<length h. h' ! k = h ! k)
   \<and> (\<forall>idx. in_digits (tn_shape p) idx \<longrightarrow> address_of p idx < length (h' ! tn_ptr p))
   \<and> (\<forall>i<length levels. \<forall>b<B. \<forall>t<T. \<forall>g<H. \<forall>d<level_width (levels ! i).
        value_at h' p [b, g, t, total_width (take i levels) + d]
        = narrow (tn_dtype (levels ! i)) BF16 (value_at h (levels ! i) [b, t, g, d]))"

lemma side_plane_is_plane:
  assumes side: "side_of B T H h levels" and bf: "\<forall>x. narrow BF16 BF16 x = x"
    and plane: "side_plane h levels = Inr (Some p)"
  shows "plane_of_side narrow h levels B T H p h"
proof -
  obtain base ls where levels: "levels = base # ls" using side by (cases levels) (auto simp: side_of_def)
  let ?n = "total_width levels"
  let ?want = "[H * T * ?n, ?n, T * ?n, 1]"
  have shape: "tn_shape base = [B, T, H, level_width base]" using side levels by (auto simp: side_of_def)
  have w: "windows_of base ?want 0 levels"
    and span: "(tn_off base + B * H * T * ?n) * element_size (tn_dtype base) \<le> storage_nbytes h base"
    and p: "p = base\<lparr>tn_shape := [B, H, T, ?n], tn_stride := [H * T * ?n, T * ?n, ?n, 1]\<rparr>"
    using plane by (simp_all add: side_plane_def levels shape Let_def split: if_splits)
  note at = windows_of_at [OF w]
  have base: "tn_dtype base = BF16" "tn_ptr p = tn_ptr base" "tn_off p = tn_off base"
    using at [of 0] levels p by simp_all
  have room: "tn_off base + B * H * T * ?n \<le> length (h ! tn_ptr base)"
    using span by (simp add: storage_nbytes_def base element_size_def split: if_splits)
  have c: "is_contiguous p" by (simp add: is_contiguous_def p radix_strides_suffix)
  have "address_of p idx < length (h ! tn_ptr p)" if "in_digits (tn_shape p) idx" for idx
    using undigits_less [OF that] sum_mult_radix [OF that] c room base
    by (simp add: address_of_def is_contiguous_def p mult.assoc)
  moreover have "value_at h p [b, g, t, total_width (take i levels) + d] = value_at h (levels ! i) [b, t, g, d]"
    if "i < length levels" for i b t g d
    using at [OF that] base by (simp add: value_at_def address_of_def p algebra_simps)
  ultimately show ?thesis using c bf at by (simp add: plane_of_side_def p base)
qed

lemma packed_is_plane:
  assumes side: "side_of B T H h levels" and junk: "length junk = B * H * T * total_width levels"
  shows "plane_of_side narrow h levels B T H (fst (fresh_tensor [B, H, T, total_width levels] BF16 dev
      (copy_levels narrow h [B, H, T, total_width levels] 0 levels junk) h)) (snd (fresh_tensor
      [B, H, T, total_width levels] BF16 dev (copy_levels narrow h [B, H, T, total_width levels] 0 levels junk) h))"
    (is "plane_of_side narrow h levels B T H (fst (fresh_tensor ?shape BF16 dev ?content h)) _")
proof -
  obtain p h' where f: "fresh_tensor ?shape BF16 dev ?content h = (p, h')" by (metis prod.collapse)
  have prod: "length junk = prod_list ?shape" using junk by (simp add: mult.assoc)
  have p: "tn_shape p = ?shape" "is_contiguous p" "tn_dtype p = BF16" "h' = h @ [?content]" "tn_ptr p = length h" "tn_off p = 0"
    using f by (auto simp: fresh_tensor_def is_contiguous_def)
  have "value_at h' p [b, g, t, total_width (take i levels) + d]
      = narrow (tn_dtype (levels ! i)) BF16 (value_at h (levels ! i) [b, t, g, d])"
    if i: "i < length levels" "b < B" "t < T" "g < H" "d < level_width (levels ! i)" for i b t g d
  proof -
    let ?idx = "[b, g, t, total_width (take i levels) + d]"
    have idx: "in_digits ?shape ?idx" using i total_width_at [OF i(1,5)] by simp
    have shape: "tn_shape (levels ! i) = [B, T, H, level_width (levels ! i)]" using side i by (auto simp: side_of_def)
    have "length (tn_stride (levels ! i)) = 4" using side i by (auto simp: side_of_def)
    then have "value_at h (permute [0, 2, 1, 3] (levels ! i)) [b, g, t, d] = value_at h (levels ! i) [b, t, g, d]"
      by (auto simp: value_at_def address_of_def permute_def numeral_eq_Suc length_Suc_conv add.left_commute)
    then show ?thesis
      using value_at_fresh [OF f idx] copy_levels_at [OF idx prod i(1,5), of 0] by (simp add: numeral_3_eq_3)
  qed
  moreover have "address_of p idx < length (h' ! tn_ptr p)" if "in_digits ?shape idx" for idx
    using undigits_less [OF that] sum_mult_radix [OF that] p prod
    by (simp add: address_of_def is_contiguous_def)
  ultimately show ?thesis using f p by (simp add: plane_of_side_def nth_append)
qed

text \<open>
  Packing a side never fails on a checked bundle; whether the levels were recognised as
  the plane or copied into a fresh one, the result is the same contiguous bf16 plane: every column
  holds its level's rounded value, every address is inside its storage, and no storage changes.
\<close>

theorem pack_side_correct:
  assumes "side_of B T H h levels" "length junk = B * H * T * total_width levels" "\<forall>x. narrow BF16 BF16 x = x"
  shows "\<exists>p h'. pack_side narrow junk levels h = Inr (p, h') \<and> plane_of_side narrow h levels B T H p h'"
proof -
  obtain base ls where levels: "levels = base # ls" using assms(1) by (cases levels) (auto simp: side_of_def)
  then have shape: "tn_shape base = [B, T, H, level_width base]" using assms(1) by (auto simp: side_of_def)
  have "\<exists>plane. side_plane h levels = Inr plane"
    by (simp add: side_plane_def levels shape Let_def)
  then obtain plane where plane: "side_plane h levels = Inr plane" by blast
  show ?thesis
  proof (cases plane)
    case (Some p)
    then show ?thesis using plane side_plane_is_plane [where narrow = narrow, OF assms(1,3)] by (auto simp: pack_side_def)
  next
    case None
    then have "pack_side narrow junk levels h = Inr (fresh_tensor [B, H, T, total_width levels] BF16 (tn_device base)
        (copy_levels narrow h [B, H, T, total_width levels] 0 levels junk) h)"
      using plane by (simp add: pack_side_def levels shape Let_def)
    then show ?thesis using packed_is_plane [OF assms(1,2), of narrow "tn_device base"] by (metis prod.collapse)
  qed
qed

text \<open>Two views of one plane are recognised; one of them shifted is copied.\<close>

definition demo_view :: "nat \<Rightarrow> tensor" where
  "demo_view off = \<lparr>tn_ptr = 0, tn_off = off, tn_shape = [1, 2, 1, 1], tn_stride = [4, 2, 4, 1], tn_dtype = BF16,
     tn_device = ''cuda'', tn_grad = False\<rparr>"

lemma demo_side: "side_of 1 2 1 [[5, 6, 7, 8 :: nat]] [demo_view 0, demo_view 1]"
  "side_of 1 2 1 [[5, 6, 7, 8 :: nat]] [demo_view 0, demo_view 0]"
  by (simp_all add: side_of_def demo_view_def level_width_def)

theorem pack_side_correct_witness:
  "(\<exists>p h'. pack_side (\<lambda>_ _ x. x) [0, 0, 0, 0] [demo_view 0, demo_view 1] [[5, 6, 7, 8 :: nat]] = Inr (p, h')
      \<and> plane_of_side (\<lambda>_ _ x. x) [[5, 6, 7, 8]] [demo_view 0, demo_view 1] 1 2 1 p h')
   \<and> side_plane [[5, 6, 7, 8 :: nat]] [demo_view 0, demo_view 1] \<noteq> Inr None
   \<and> side_plane [[5, 6, 7, 8 :: nat]] [demo_view 0, demo_view 0] = Inr None"
proof (intro conjI)
  show "\<exists>p h'. pack_side (\<lambda>_ _ x. x) [0, 0, 0, 0] [demo_view 0, demo_view 1] [[5, 6, 7, 8 :: nat]] = Inr (p, h')
      \<and> plane_of_side (\<lambda>_ _ x. x) [[5, 6, 7, 8]] [demo_view 0, demo_view 1] 1 2 1 p h'"
    by (rule pack_side_correct [OF demo_side(1)]) (simp_all add: total_width_def level_width_def demo_view_def)
qed (simp_all add: side_plane_def demo_view_def total_width_def level_width_def storage_nbytes_def element_size_def BF16_def)

end
