(* ===== verification/Rola_Call.thy ===== *)
theory Rola_Call
  imports Rola_Rules Rola_Bundle_Props
begin

text \<open>
  One call's facts and the envelope they fold into: \<^verbatim>\<open>rola/engine/facts/operands.py\<close>,
  \<^verbatim>\<open>rola/engine/facts/manifest.py\<close> and \<^verbatim>\<open>rola/engine/facts/call.py\<close>. The arm census is what the
  extension reports, a parameter; \<^verbatim>\<open>torch.is_grad_enabled()\<close> is the flag \<open>grad_enabled\<close>.
\<close>

section \<open>The operands\<close>

text \<open>A python object as the gradient predicate walks it.\<close>

datatype operand = OTensor bool | OSeq "operand list" | OOther

fun any_requires_grad :: "operand \<Rightarrow> bool" where
  "any_requires_grad (OTensor g) = g"
| "any_requires_grad (OSeq xs) = list_ex any_requires_grad xs"
| "any_requires_grad OOther = False"

definition requires_backward :: "bool \<Rightarrow> operand list \<Rightarrow> bool" where
  "requires_backward grad_enabled tensors =
     (if \<not> grad_enabled then False else list_ex any_requires_grad tensors)"

definition tensor_operand :: "tensor_arg option \<Rightarrow> operand" where
  "tensor_operand t = (case t of Some (Tensor m) \<Rightarrow> OTensor (tm_grad m) | _ \<Rightarrow> OOther)"

definition operands_of :: "route_factors \<Rightarrow> tensor_meta \<Rightarrow> dial list option \<Rightarrow> operand list" where
  "operands_of routes v decay =
     OTensor (tm_grad v) # map tensor_operand (rf_tensors routes)
     @ (case decay of None \<Rightarrow> [] | Some dials \<Rightarrow> map (\<lambda>d. OTensor (dial_grad d)) dials)"

section \<open>The envelope of a call\<close>

text \<open>The census rows carry the launch geometry after the arm: \<^verbatim>\<open>row[:4]\<close>.\<close>

type_synonym census_row = "arm4 \<times> nat list"

definition chunk_arms :: "census_row list \<Rightarrow> arm4 list" where
  "chunk_arms census = map fst census"

definition widths_of :: "route_factors \<Rightarrow> nat list" where
  "widths_of routes = map lv_width (rf_topology routes)"

definition envelope_clauses ::
    "arm4 list \<Rightarrow> route_factors \<Rightarrow> dial list option \<Rightarrow> nat \<Rightarrow> (nat list \<times> nat \<times> bool \<times> arm option) res" where
  "envelope_clauses arms routes decay d_v =
     rbind (arm_rule (widths_of routes) arms) (\<lambda>a. Inr (widths_of routes, d_v, decay \<noteq> None, a))"

definition arm_refusal :: "arm4 list \<Rightarrow> route_factors \<Rightarrow> dial list option \<Rightarrow> nat \<Rightarrow> string option res" where
  "arm_refusal arms routes decay d_v =
     rbind (envelope_clauses arms routes decay d_v) (\<lambda>(ws, dv, dec, a). Inr (arm_envelope ws dv dec a))"

text \<open>\<^verbatim>\<open>torch.device.type\<close>: the part of the device's name before the index.\<close>

definition device_type_of :: "string \<Rightarrow> device_type" where
  "device_type_of dev =
     (let t = takeWhile (\<lambda>c. c \<noteq> CHR '':'') dev in if t = ''cuda'' then CudaDevice else OtherDevice t)"

definition envelope_refusal :: "arm4 list \<Rightarrow> route_factors \<Rightarrow> tensor_meta \<Rightarrow> dial list option \<Rightarrow> string option res" where
  "envelope_refusal arms routes v decay =
     rbind (unratified_activations (rf_topology routes)) (\<lambda>bad.
       case envelope bad (device_type_of (rf_device routes)) of
         Some reason \<Rightarrow> Inr (Some reason)
       | None \<Rightarrow> arm_refusal arms routes decay (last (tm_shape v)))"

definition require_envelope ::
    "arm4 list \<Rightarrow> bool \<Rightarrow> route_factors \<Rightarrow> tensor_meta \<Rightarrow> dial list option \<Rightarrow> bool \<Rightarrow> unit res" where
  "require_envelope arms grad_enabled routes v decay has_state =
     (case training_envelope (requires_backward grad_enabled (operands_of routes v decay)) has_state of
        Some reason \<Rightarrow> Inl (BackwardNotImplemented reason)
      | None \<Rightarrow>
        rbind (envelope_refusal arms routes v decay) (\<lambda>r.
          case r of Some reason \<Rightarrow> Inl (NotImplementedError reason) | None \<Rightarrow> Inr ()))"

section \<open>What the envelope admits\<close>

lemma tensor_operand_grad [simp]: "any_requires_grad (tensor_operand t) \<longleftrightarrow> (\<exists>m. t = Some (Tensor m) \<and> tm_grad m)"
  by (simp add: tensor_operand_def split: option.split tensor_arg.split)

definition carries_grad :: "bool \<Rightarrow> route_factors \<Rightarrow> tensor_meta \<Rightarrow> dial list option \<Rightarrow> bool" where
  "carries_grad g routes v decay \<longleftrightarrow>
     g \<and> (tm_grad v \<or> (\<exists>t\<in>set (rf_tensors routes). \<exists>m. t = Some (Tensor m) \<and> tm_grad m)
          \<or> (case decay of None \<Rightarrow> False | Some dials \<Rightarrow> list_ex dial_grad dials))"

lemma requires_backward_iff: "requires_backward g (operands_of routes v decay) = carries_grad g routes v decay"
  by (cases decay) (simp_all add: requires_backward_def operands_of_def carries_grad_def list_ex_iff bex_Un)

lemma arm_rule_None:
  "ws \<noteq> [] \<Longrightarrow> \<exists>a. arm_rule ws arms = Inr a \<and> (a = None \<longleftrightarrow> \<not> (\<exists>bc. (32, bc, length ws, hd ws) \<in> set arms))"
proof -
  assume "ws \<noteq> []"
  then obtain w ws' where ws: "ws = w # ws'" by (cases ws) auto
  have "built_bcs ws arms = [] \<longleftrightarrow> \<not> (\<exists>bc. bc \<in> set (built_bcs ws arms))" by (cases "built_bcs ws arms") auto
  also have "\<dots> \<longleftrightarrow> \<not> (\<exists>bc. (32, bc, length ws, hd ws) \<in> set arms)" by (simp add: ws built_bcs_iff)
  finally show ?thesis by (simp add: arm_rule_def ws Let_def)
qed

lemma unratified_none: "\<forall>l\<in>set ls. level_ok l \<Longrightarrow> unratified_activations ls = Inr []"
proof -
  assume ok: "\<forall>l\<in>set ls. level_ok l"
  have "\<forall>cell\<in>set (duty_cells ls). unratified_cell ls cell = Inr []"
    using cell_properties [OF ok] duty_cells_in by (fastforce simp: unratified_cell_def)
  then have "rmap (unratified_cell ls) (duty_cells ls) = Inr (map (\<lambda>_. []) (duty_cells ls))" by (rule rmap_all)
  moreover have "concat (map (\<lambda>_. []) xs) = []" for xs :: "'b list" by (induction xs) auto
  ultimately show ?thesis by (simp add: unratified_activations_def)
qed

lemma uniform_widths: "ws \<noteq> [] \<Longrightarrow> card (set ws) = 1 \<longleftrightarrow> (\<forall>w\<in>set ws. w = hd ws)"
  by (cases ws) (auto simp: card_1_singleton_iff)

text \<open>
  Over accepted levels a call is admitted exactly when it does not both carry a
  gradient and hold a state, its operands are on a CUDA device, its value width is 64, it has no
  decay, its widths are uniform and the binary has an arm for them; a call with a gradient and a
  state is refused as a missing backward whatever else is wrong with it.
\<close>

theorem require_envelope_exact:
  assumes "rf_topology routes \<noteq> []" "\<forall>l\<in>set (rf_topology routes). level_ok l"
  shows "require_envelope arms g routes v decay has_state =
     (if carries_grad g routes v decay \<and> has_state
      then Inl (BackwardNotImplemented ''rola_op trains STATELESS ONLY'')
      else if device_type_of (rf_device routes) \<noteq> CudaDevice then Inl (NotImplementedError ''the operands are on'')
      else if last (tm_shape v) \<noteq> 64 then Inl (NotImplementedError ''d_v'')
      else if decay \<noteq> None then Inl (NotImplementedError ''decay'')
      else if \<exists>w\<in>set (widths_of routes). w \<noteq> hd (widths_of routes) then Inl (NotImplementedError ''widths'')
      else if \<exists>bc. (32, bc, length (widths_of routes), hd (widths_of routes)) \<in> set arms then Inr ()
      else Inl (NotImplementedError ''topology''))"
proof -
  have ws: "widths_of routes \<noteq> []" using assms(1) by (simp add: widths_of_def)
  obtain a where a: "arm_rule (widths_of routes) arms = Inr a"
    "a = None \<longleftrightarrow> \<not> (\<exists>bc. (32, bc, length (widths_of routes), hd (widths_of routes)) \<in> set arms)"
    using arm_rule_None [OF ws] by blast
  have "arm_refusal arms routes decay (last (tm_shape v)) =
      Inr (arm_envelope (widths_of routes) (last (tm_shape v)) (decay \<noteq> None) a)"
    by (simp add: arm_refusal_def envelope_clauses_def a(1))
  then have "envelope_refusal arms routes v decay =
      Inr (if device_type_of (rf_device routes) \<noteq> CudaDevice then Some ''the operands are on''
           else arm_envelope (widths_of routes) (last (tm_shape v)) (decay \<noteq> None) a)"
    by (simp add: envelope_refusal_def unratified_none [OF assms(2)] envelope_def)
  note er = this
  show ?thesis
    unfolding require_envelope_def training_envelope_def arm_envelope_def er requires_backward_iff
    using a(2) uniform_widths [OF ws]
    by (cases "carries_grad g routes v decay \<and> has_state"; cases "device_type_of (rf_device routes) = CudaDevice";
        cases "last (tm_shape v) = 64"; cases "decay = None"; cases "a = None"; simp; blast?)
qed

definition demo_routes_meta :: "bool \<Rightarrow> route_factors" where
  "demo_routes_meta g =
     (let t = (\<lambda>shape. Tensor \<lparr>tm_shape = shape, tm_dtype = ''bfloat16'', tm_device = ''cuda:0'', tm_contiguous = True,
          tm_grad = g\<rparr>);
          l = TiedLevel 64 Softmax in
      \<lparr>rf_topology = [l, l], rf_read = [t [1, 8, 2, 64], t [1, 8, 2, 64]], rf_write = [t [1, 8, 2, 64], t [1, 8, 2, 64]],
       rf_g_write = Some (t [1, 8, 2]), rf_read_mass = None\<rparr>)"

definition demo_v :: tensor_meta where
  "demo_v = \<lparr>tm_shape = [1, 8, 2, 64], tm_dtype = ''bfloat16'', tm_device = ''cuda:0'', tm_contiguous = True, tm_grad = False\<rparr>"

lemma demo_routes_ok: "rf_topology (demo_routes_meta g) \<noteq> []" "\<forall>l\<in>set (rf_topology (demo_routes_meta g)). level_ok l"
  by (simp_all add: demo_routes_meta_def Let_def MAX_BRANCH_WIDTH_def known_iff ACTIVATION_REGISTRY_def zeroes_def
      activation_properties_def properties_for_def)

theorem require_envelope_exact_witness:
  "require_envelope [(32, 128, 2, 64)] True (demo_routes_meta False) demo_v None True = Inr ()
   \<and> require_envelope [(32, 128, 2, 64)] True (demo_routes_meta True) demo_v None True
     = Inl (BackwardNotImplemented ''rola_op trains STATELESS ONLY'')
   \<and> require_envelope [(32, 128, 3, 64)] False (demo_routes_meta True) demo_v None True = Inl (NotImplementedError ''topology'')"
  unfolding require_envelope_exact [OF demo_routes_ok]
  by (simp add: carries_grad_def demo_routes_meta_def demo_v_def rf_tensors_def rf_device_def device_type_of_def widths_of_def
      Let_def) force?

end
