(* ===== verification/Rola_Chunk.thy ===== *)
theory Rola_Chunk
  imports Rola_Call Rola_Pack Rola_Runner_Props Rola_State
begin

text \<open>
  The chunk family: the node bodies of \<^verbatim>\<open>rola/engine/facts/nodes.py\<close>, the plan they end in
  (\<^verbatim>\<open>rola/engine/plan.py\<close>), the recipe \<^verbatim>\<open>CHUNK_DAG\<close> and its context
  (\<^verbatim>\<open>rola/engine/dags/chunk_dag.py\<close>). The world the bodies act on is the heap of storages, the
  state object of the call and whether the arena's side stream was joined. The extension's
  kernels, the rounding of a copy, the content of an uninitialised allocation, the driver's
  platform and the gradient flag are the environment, a parameter.
\<close>

section \<open>The call's objects\<close>

record chunk_routes =
  cr_topology :: "level list"
  cr_read :: "tensor list"
  cr_write :: "tensor list"
  cr_g_write :: "tensor option"
  cr_read_mass :: "tensor option"

definition as_tensor_arg :: "tensor \<Rightarrow> tensor_arg" where "as_tensor_arg t = Tensor (tensor_meta_of t)"

definition factors_of :: "chunk_routes \<Rightarrow> route_factors" where
  "factors_of r = \<lparr>rf_topology = cr_topology r, rf_read = map as_tensor_arg (cr_read r),
     rf_write = map as_tensor_arg (cr_write r), rf_g_write = map_option as_tensor_arg (cr_g_write r),
     rf_read_mass = map_option as_tensor_arg (cr_read_mass r)\<rparr>"

definition device_of :: "string \<Rightarrow> device" where
  "device_of dev = (if device_type_of dev = CudaDevice then Cuda else Cpu)"

definition call_routes_of :: "chunk_routes \<Rightarrow> call_routes" where
  "call_routes_of r = \<lparr>rt_widths = topology_widths (cr_topology r), rt_batch = rf_batch (factors_of r),
     rt_heads = rf_heads (factors_of r), rt_device = device_of (rf_device (factors_of r))\<rparr>"

text \<open>\<^verbatim>\<open>ChunkPlan\<close>: what one launch reads.\<close>

record chunk_plan =
  cp_call_class :: call_class
  cp_arm :: arm
  cp_widths :: "nat list"
  cp_d_v :: nat
  cp_v_row_bytes :: nat
  cp_eps :: rat
  cp_run_table :: "32 word"
  cp_y_dtype :: string
  cp_routes :: chunk_routes
  cp_read_plane :: tensor
  cp_write_plane :: tensor
  cp_g_write :: tensor
  cp_read_mass :: "tensor option"
  cp_v :: tensor
  cp_union_table :: tensor
  cp_block_bits :: tensor
  cp_page_table :: "int list option"
  cp_atom_bits :: "8 word list option"
  cp_state_in :: "page list option"
  cp_state_out :: "page list option"

definition READOUT_EPS :: rat where "READOUT_EPS = 1 / 100000"

datatype chunk_value =
    CRoutes (un_routes: chunk_routes) | CTensor (un_tensor: tensor) | CDecay (un_decay: "dial list") | CState
  | CExpert (un_expert: expert) | CBool (un_bool: bool) | CNat (un_nat: nat) | CWidths (un_widths: "nat list")
  | CClass (un_class: call_class) | CManifest (un_manifest: "arm4 list") | CArm (un_arm: arm) | CWord (un_word: "32 word")
  | CBits (un_bits: "8 word list") | CTable (un_table: "int list") | CPages (un_pages: "page list")
  | CArena (un_arena: arena) | CPlan (un_plan: chunk_plan)

type_synonym chunk_bag = "chunk_value bag"

definition is_state :: "chunk_bag \<Rightarrow> bool" where "is_state f \<longleftrightarrow> f ''state'' = Some (FVal CState)"

section \<open>The environment and the world\<close>

record 'a chunk_env =
  ce_census :: "census_row list"
  ce_grad_enabled :: bool
  ce_platform :: platform
  ce_narrow :: "'a narrowing"
  ce_junk :: "nat \<Rightarrow> 'a list"
  ce_facts :: "tensor \<Rightarrow> tensor \<Rightarrow> arm \<Rightarrow> nat list \<Rightarrow> int \<Rightarrow> bool \<Rightarrow> 'a heap \<Rightarrow> ((tensor \<times> 8 word list option) res \<times> 'a heap)"
  ce_block_bits :: "tensor \<Rightarrow> nat \<Rightarrow> nat list \<Rightarrow> nat \<Rightarrow> int list option \<Rightarrow> 'a heap \<Rightarrow> (tensor res \<times> 'a heap)"

record 'a chunk_world =
  cw_heap :: "'a heap"
  cw_state :: rola_state
  cw_joined :: bool

type_synonym 'a chunk_body = "chunk_bag \<Rightarrow> 'a chunk_world \<Rightarrow> (chunk_value fact, 'a chunk_world) step"

definition on_heap :: "('b res \<times> 'a heap) \<Rightarrow> ('b \<Rightarrow> chunk_value fact) \<Rightarrow> 'a chunk_world \<Rightarrow> (chunk_value fact, 'a chunk_world) step" where
  "on_heap r mk w = (rbind (fst r) (\<lambda>x. Inr (mk x)), w\<lparr>cw_heap := snd r\<rparr>)"

section \<open>The bodies\<close>

definition manifest_body :: "'a chunk_env \<Rightarrow> 'a chunk_body" where
  "manifest_body env = host (\<lambda>f. Inr (FVal (CManifest (chunk_arms (ce_census env)))))"

definition topology_body :: "'a chunk_body" where
  "topology_body = host (\<lambda>f.
     rbind (need f ''routes'' is_CRoutes un_routes) (\<lambda>r.
     rbind (need f ''v'' is_CTensor un_tensor) (\<lambda>v.
       if tn_shape v = [] then Inl (IndexError ''tuple index out of range'')
       else Inr (FTuple [FVal (CWidths (map lv_width (cr_topology r))), FVal (CNat (last (tn_shape v)))]))))"

definition classify_body :: "'a chunk_env \<Rightarrow> 'a chunk_body" where
  "classify_body env f w =
     (rbind (need f ''routes'' is_CRoutes un_routes) (\<lambda>r.
      rbind (need f ''v'' is_CTensor un_tensor) (\<lambda>v.
      rbind (maybe f ''decay'' is_CDecay un_decay) (\<lambda>decay.
      rbind (need f ''want_state'' is_CBool un_bool) (\<lambda>want.
      rbind (need f ''paging'' is_CBool un_bool) (\<lambda>paging.
        Inr (FVal (CClass \<lparr>cc_state_in = given f ''given_state_in'' \<or> given f ''state'',
          cc_state_out = want,
          cc_paged = given f ''given_arena'' \<or> given f ''state'' \<and> wants_pages paging (cw_state w),
          cc_grad = requires_backward (ce_grad_enabled env)
                      (operands_of (factors_of r) (tensor_meta_of v) decay)\<rparr>))))))), w)"

definition pack_planes_body :: "'a chunk_env \<Rightarrow> 'a chunk_body" where
  "pack_planes_body env f w =
     (case need f ''routes'' is_CRoutes un_routes of Inl e \<Rightarrow> (Inl e, w)
      | Inr r \<Rightarrow>
        (case pack_side (ce_narrow env) (ce_junk env (length (cw_heap w))) (cr_read r) (cw_heap w) of
           Inl e \<Rightarrow> (Inl e, w)
         | Inr (rp, h1) \<Rightarrow>
           (case pack_side (ce_narrow env) (ce_junk env (length h1)) (cr_write r) h1 of
              Inl e \<Rightarrow> (Inl e, w\<lparr>cw_heap := h1\<rparr>)
            | Inr (wp, h2) \<Rightarrow>
              (case cr_g_write r of
                 None \<Rightarrow> (Inl (AttributeError ''NoneType has no attribute permute''), w\<lparr>cw_heap := h2\<rparr>)
               | Some g \<Rightarrow>
                 (case packed_copy (ce_narrow env) (permute [0, 2, 1] g) BF16 h2 of
                    (gp, h3) \<Rightarrow>
                    (case cr_read_mass r of
                       None \<Rightarrow> (Inr (FTuple [FVal (CTensor rp), FVal (CTensor wp), FVal (CTensor gp), FNone]), w\<lparr>cw_heap := h3\<rparr>)
                     | Some m \<Rightarrow>
                       (case packed_copy (ce_narrow env) (permute [0, 2, 1] m) F32 h3 of
                          (mp, h4) \<Rightarrow>
                          (Inr (FTuple [FVal (CTensor rp), FVal (CTensor wp), FVal (CTensor gp), FVal (CTensor mp)]),
                           w\<lparr>cw_heap := h4\<rparr>))))))))"

definition facts_tables_body :: "'a chunk_env \<Rightarrow> 'a chunk_body" where
  "facts_tables_body env f w =
     (case rbind (need_mask f) (\<lambda>m.
           rbind (need f ''read_plane'' is_CTensor un_tensor) (\<lambda>rp.
           rbind (need f ''write_plane'' is_CTensor un_tensor) (\<lambda>wp.
           rbind (need f ''arm'' is_CArm un_arm) (\<lambda>a.
           rbind (need f ''widths'' is_CWidths un_widths) (\<lambda>ws. Inr (m, rp, wp, a, ws)))))) of
        Inl e \<Rightarrow> (Inl e, w)
      | Inr (m, rp, wp, a, ws) \<Rightarrow>
          on_heap (ce_facts env rp wp a ws (mask_int m) (mask_int m = mask_int M2) (cw_heap w))
            (\<lambda>(u, bits). FTuple [FVal (CTensor u), fopt CBits bits]) w)"

definition residency_body :: "'a chunk_env \<Rightarrow> 'a chunk_body" where
  "residency_body env f w =
     (if f ''state'' = Some FNone then
        (case (f ''given_state_in'', f ''given_arena'') of
           (Some s, Some a) \<Rightarrow> (Inr (FTuple [s, a]), w)
         | _ \<Rightarrow> (Inl (KeyError ''given_state_in''), w))
      else
        (case rbind (need f ''routes'' is_CRoutes un_routes) (\<lambda>r.
              rbind (maybe f ''atom_bits'' is_CBits un_bits) (\<lambda>bits.
              rbind (need f ''d_v'' is_CNat un_nat) (\<lambda>d_v.
              rbind (need f ''paging'' is_CBool un_bool) (\<lambda>paging.
              rbind (need f ''arm'' is_CArm un_arm) (\<lambda>a. Inr (r, bits, d_v, paging, a)))))) of
           Inl e \<Rightarrow> (Inl e, w)
         | Inr (r, bits, d_v, paging, a) \<Rightarrow>
           (case kernel_entry (ce_platform env) (call_routes_of r) bits d_v paging (arm_bc a) (cw_state w) of
              (Inl e, s) \<Rightarrow> (Inl e, w\<lparr>cw_state := s\<rparr>)
            | (Inr (plane, arena), s) \<Rightarrow> (Inr (FTuple [fopt CPages plane, fopt CArena arena]), w\<lparr>cw_state := s\<rparr>))))"

definition pack_v_body :: "'a chunk_env \<Rightarrow> 'a chunk_body" where
  "pack_v_body env f w =
     (case need f ''v'' is_CTensor un_tensor of Inl e \<Rightarrow> (Inl e, w)
      | Inr v \<Rightarrow>
        if tn_dtype v = BF16 \<and> is_contiguous v then (Inr (FVal (CTensor v)), w)
        else (case packed_copy (ce_narrow env) v BF16 (cw_heap w) of
                (p, h) \<Rightarrow> (Inr (FVal (CTensor p)), w\<lparr>cw_heap := h\<rparr>)))"

definition join_body :: "'a chunk_body" where
  "join_body f w = (Inr FNone, if given f ''arena'' then w\<lparr>cw_joined := True\<rparr> else w)"

text \<open>A fresh dense plane, zeroed: one blank page per atom of each batch-head.\<close>

definition zero_plane :: "chunk_routes \<Rightarrow> nat \<Rightarrow> page list" where
  "zero_plane r d_v =
     (let rt = call_routes_of r in
      case state_plane_shape (rt_widths rt) (rt_batch rt) (rt_heads rt) d_v of
        bh # atoms # _ \<Rightarrow> replicate (bh * atoms) (blank_page (d_v + 1)) | _ \<Rightarrow> [])"

definition backing_body :: "'a chunk_body" where
  "backing_body = host (\<lambda>f.
     rbind (maybe f ''arena'' is_CArena un_arena) (\<lambda>arena.
     rbind (need f ''want_state'' is_CBool un_bool) (\<lambda>want.
       case arena of
         Some a \<Rightarrow> Inr (FTuple [FVal (CTable (ar_table a)), if want then FVal (CPages (arena_plane a)) else FNone])
       | None \<Rightarrow>
           if \<not> want then Inr (FTuple [FNone, FNone])
           else rbind (maybe f ''state_in'' is_CPages un_pages) (\<lambda>state_in.
             case state_in of
               Some p \<Rightarrow> Inr (FTuple [FNone, FVal (CPages p)])
             | None \<Rightarrow>
                 rbind (need f ''routes'' is_CRoutes un_routes) (\<lambda>r.
                 rbind (need f ''d_v'' is_CNat un_nat) (\<lambda>d_v.
                   Inr (FTuple [FNone, FVal (CPages (zero_plane r d_v))])))))))"

definition block_bits_body :: "'a chunk_env \<Rightarrow> 'a chunk_body" where
  "block_bits_body env f w =
     (case rbind (need f ''union_table'' is_CTensor un_tensor) (\<lambda>u.
           rbind (need f ''arm'' is_CArm un_arm) (\<lambda>a.
           rbind (need f ''widths'' is_CWidths un_widths) (\<lambda>ws.
           rbind (need f ''routes'' is_CRoutes un_routes) (\<lambda>r.
           rbind (maybe f ''page_table'' is_CTable un_table) (\<lambda>pt. Inr (u, a, ws, r, pt)))))) of
        Inl e \<Rightarrow> (Inl e, w)
      | Inr (u, a, ws, r, pt) \<Rightarrow>
          on_heap (ce_block_bits env u (arm_bc a) ws (rf_tokens (factors_of r)) pt (cw_heap w)) (\<lambda>t. FVal (CTensor t)) w)"

definition build_plan_body :: "'a chunk_body" where
  "build_plan_body = host (\<lambda>f.
     rbind (need f ''call_class'' is_CClass un_class) (\<lambda>cc.
     rbind (need f ''arm'' is_CArm un_arm) (\<lambda>a.
     rbind (need f ''widths'' is_CWidths un_widths) (\<lambda>ws.
     rbind (need f ''d_v'' is_CNat un_nat) (\<lambda>d_v.
     rbind (need f ''v'' is_CTensor un_tensor) (\<lambda>v.
     rbind (need f ''v_packed'' is_CTensor un_tensor) (\<lambda>vp.
     rbind (need f ''routes'' is_CRoutes un_routes) (\<lambda>r.
     rbind (need f ''read_plane'' is_CTensor un_tensor) (\<lambda>rp.
     rbind (need f ''write_plane'' is_CTensor un_tensor) (\<lambda>wp.
     rbind (need f ''g_write'' is_CTensor un_tensor) (\<lambda>gp.
     rbind (maybe f ''read_mass'' is_CTensor un_tensor) (\<lambda>mp.
     rbind (need f ''union_table'' is_CTensor un_tensor) (\<lambda>u.
     rbind (need f ''block_bits'' is_CTensor un_tensor) (\<lambda>bb.
     rbind (maybe f ''page_table'' is_CTable un_table) (\<lambda>pt.
     rbind (maybe f ''atom_bits'' is_CBits un_bits) (\<lambda>bits.
     rbind (maybe f ''state_in'' is_CPages un_pages) (\<lambda>si.
     rbind (maybe f ''state_out'' is_CPages un_pages) (\<lambda>so.
     rbind (need f ''run_table'' is_CWord un_word) (\<lambda>rt.
       if length (tn_shape vp) \<le> 3 then Inl (IndexError ''tuple index out of range'')
       else Inr (FVal (CPlan \<lparr>cp_call_class = cc, cp_arm = a, cp_widths = ws, cp_d_v = d_v,
         cp_v_row_bytes = tn_shape vp ! 2 * tn_shape vp ! 3 * element_size (tn_dtype vp), cp_eps = READOUT_EPS,
         cp_run_table = rt, cp_y_dtype = tn_dtype v, cp_routes = r, cp_read_plane = rp, cp_write_plane = wp,
         cp_g_write = gp, cp_read_mass = mp, cp_v = vp, cp_union_table = u, cp_block_bits = bb,
         cp_page_table = pt, cp_atom_bits = bits, cp_state_in = si, cp_state_out = so\<rparr>)))))))))))))))))))))"

section \<open>The nodes\<close>

text \<open>The rules' folds over facts: a fact the rule cannot use raises.\<close>

definition paging_fold :: "chunk_value fact list \<Rightarrow> chunk_value fact res" where
  "paging_fold vs = (case vs of
       [FNone] \<Rightarrow> rbind (paging_preference NoExpert) (\<lambda>b. Inr (FVal (CBool b)))
     | [FVal (CExpert e)] \<Rightarrow> rbind (paging_preference e) (\<lambda>b. Inr (FVal (CBool b)))
     | _ \<Rightarrow> Inl (TypeError ''the expert argument takes a PlanOverrides''))"

definition mask_fold :: "chunk_value fact list \<Rightarrow> chunk_value fact res" where
  "mask_fold vs = (case vs of [FVal (CClass c)] \<Rightarrow> Inr (FMask (mask_rule c)) | _ \<Rightarrow> Inl (AttributeError ''state_in''))"

definition arm_fold :: "chunk_value fact list \<Rightarrow> chunk_value fact res" where
  "arm_fold vs = (case vs of
       [FVal (CWidths ws), FVal (CManifest m)] \<Rightarrow> rbind (arm_rule ws m) (\<lambda>a. Inr (fopt CArm a))
     | _ \<Rightarrow> Inl (TypeError ''object is not iterable''))"

definition run_table_fold :: "chunk_value fact list \<Rightarrow> chunk_value fact res" where
  "run_table_fold vs = (case vs of
       [state_in, state_out, page_table] \<Rightarrow>
         Inr (FVal (CWord (run_table (state_in \<noteq> FNone) (state_out \<noteq> FNone) (page_table \<noteq> FNone))))
     | _ \<Rightarrow> Inl (TypeError ''missing required argument''))"

type_synonym 'a chunk_node = "(chunk_value, 'a chunk_world) node"

definition paging_node :: "'a chunk_node res" where
  "paging_node = rule_declare ''paging_preference'' 0 [''paging''] [''expert''] [M1, M2] [''expert''] paging_fold"
definition mask_node :: "'a chunk_node res" where
  "mask_node = rule_declare ''mask'' 1 [''mask''] [''call_class''] [M1, M2] [''call_class''] mask_fold"
definition arm_node :: "'a chunk_node res" where
  "arm_node = rule_declare ''arm'' 2 [''arm''] [''widths'', ''manifest''] [M1, M2] [''widths'', ''manifest''] arm_fold"
definition run_table_node :: "'a chunk_node res" where
  "run_table_node = rule_declare ''run_table'' 3 [''run_table''] [''state_in'', ''state_out'', ''page_table''] [M1, M2]
     [''state_in'', ''state_out'', ''page_table''] run_table_fold"

definition manifest_node :: "'a chunk_env \<Rightarrow> 'a chunk_node res" where
  "manifest_node env = node_declare ((plain_node ''manifest'' 4 (manifest_body env))\<lparr>n_gives := [''manifest'']\<rparr>)"
definition topology_node :: "'a chunk_node res" where
  "topology_node = node_declare ((plain_node ''topology'' 5 topology_body)
     \<lparr>n_gives := [''widths'', ''d_v''], n_needs := [''routes'', ''v'']\<rparr>)"
definition classify_node :: "'a chunk_env \<Rightarrow> 'a chunk_node res" where
  "classify_node env = node_declare ((plain_node ''classify_call'' 6 (classify_body env))
     \<lparr>n_gives := [''call_class''], n_needs := [''routes'', ''v'', ''decay'', ''state'', ''given_state_in'', ''given_arena'',
       ''want_state'', ''paging'']\<rparr>)"
definition pack_planes_node :: "'a chunk_env \<Rightarrow> 'a chunk_node res" where
  "pack_planes_node env = node_declare ((plain_node ''pack_planes'' 7 (pack_planes_body env))
     \<lparr>n_gives := [''read_plane'', ''write_plane'', ''g_write'', ''read_mass''], n_needs := [''routes''], n_stream := ''main''\<rparr>)"
definition facts_tables_node :: "'a chunk_env \<Rightarrow> 'a chunk_node res" where
  "facts_tables_node env = node_declare ((plain_node ''facts_tables'' 8 (facts_tables_body env))
     \<lparr>n_gives := [''union_table'', ''atom_bits''],
      n_needs := [''read_plane'', ''write_plane'', ''arm'', ''widths'', ''mask''], n_stream := ''main''\<rparr>)"
definition residency_node :: "'a chunk_env \<Rightarrow> 'a chunk_node res" where
  "residency_node env = node_declare ((plain_node ''residency'' 9 (residency_body env))
     \<lparr>n_gives := [''state_in'', ''arena''],
      n_needs := [''state'', ''given_state_in'', ''given_arena'', ''routes'', ''d_v'', ''atom_bits'', ''paging'', ''arm''],
      n_stream := ''side'', n_masks := [M2], n_host_sync := True\<rparr>)"
definition pack_v_node :: "'a chunk_env \<Rightarrow> 'a chunk_node res" where
  "pack_v_node env = node_declare ((plain_node ''pack_v'' 10 (pack_v_body env))
     \<lparr>n_gives := [''v_packed''], n_needs := [''v''], n_stream := ''main''\<rparr>)"
definition join_node :: "'a chunk_node res" where
  "join_node = node_declare ((plain_node ''join'' 11 join_body)
     \<lparr>n_needs := [''arena''], n_stream := ''main'', n_masks := [M2], n_waits := [''residency'']\<rparr>)"
definition backing_node :: "'a chunk_node res" where
  "backing_node = node_declare ((plain_node ''backing'' 12 backing_body)
     \<lparr>n_gives := [''page_table'', ''state_out''], n_needs := [''arena'', ''state_in'', ''want_state'', ''routes'', ''d_v'']\<rparr>)"
definition block_bits_node :: "'a chunk_env \<Rightarrow> 'a chunk_node res" where
  "block_bits_node env = node_declare ((plain_node ''block_bits'' 13 (block_bits_body env))
     \<lparr>n_gives := [''block_bits''], n_needs := [''union_table'', ''arm'', ''widths'', ''routes'', ''page_table''],
      n_stream := ''main''\<rparr>)"
definition build_plan_node :: "'a chunk_node res" where
  "build_plan_node = node_declare ((plain_node ''build_plan'' 14 build_plan_body)
     \<lparr>n_gives := [''plan''],
      n_needs := [''call_class'', ''arm'', ''widths'', ''d_v'', ''v'', ''v_packed'', ''routes'', ''read_plane'', ''write_plane'',
        ''g_write'', ''read_mass'', ''union_table'', ''block_bits'', ''page_table'', ''atom_bits'', ''state_in'', ''state_out'',
        ''run_table'']\<rparr>)"

definition CHUNK_SEEDS :: "string list" where
  "CHUNK_SEEDS = [''routes'', ''v'', ''decay'', ''state'', ''expert'', ''want_state'', ''given_state_in'', ''given_arena'']"

text \<open>The module's declarations and import-time checks.\<close>

definition CHUNK_DAG :: "'a chunk_env \<Rightarrow> 'a chunk_node list res" where
  "CHUNK_DAG env =
     rbind (rmap (\<lambda>n. n) [paging_node, topology_node, classify_node env, mask_node, manifest_node env, arm_node,
        pack_planes_node env, pack_v_node env, facts_tables_node env, residency_node env, join_node, backing_node,
        block_bits_node env, run_table_node, build_plan_node]) (\<lambda>dag.
     rbind (validate_dag dag CHUNK_SEEDS) (\<lambda>_.
     rbind (facts_tables_node env) (\<lambda>n.
       if set (n_gives n) \<noteq> {''union_table'', ''atom_bits''}
       then Inl (ValueError ''the union table and the atom bitmap came apart'') else Inr dag)))"

section \<open>The context and the plan\<close>

text \<open>The raw arguments: a bundle, a tensor or a state may be something else altogether.\<close>

datatype state_arg = NoState | IsState | NotState

record chunk_context =
  cx_routes :: "chunk_routes option"
  cx_v :: "tensor option"
  cx_decay :: "dial list option"
  cx_state :: state_arg
  cx_expert :: expert
  cx_state_in :: "page list option"
  cx_arena :: "arena option"
  cx_want_state :: bool
  cx_supplied :: "(string \<times> chunk_value fact) list"

definition validate_chunk_context :: "'a chunk_env \<Rightarrow> chunk_context \<Rightarrow> unit res" where
  "validate_chunk_context env cx =
     (if set (map fst (cx_supplied cx)) - set SUPPLIABLE \<noteq> {} then Inl (ValueError ''the suppliable set is closed'')
      else case cx_routes cx of None \<Rightarrow> Inl (TypeError ''first argument must be a RouteFactors bundle'')
      | Some r \<Rightarrow>
        (case cx_v cx of None \<Rightarrow> Inl (ValueError ''v must be [B, T, H, d_v]'')
         | Some v \<Rightarrow>
           if length (tn_shape v) \<noteq> 4 then Inl (ValueError ''v must be [B, T, H, d_v]'')
           else if take 3 (tn_shape v) \<noteq> [rf_batch (factors_of r), rf_tokens (factors_of r), rf_heads (factors_of r)]
           then Inl (ValueError ''to match the routing bundle'')
           else if tn_device v \<noteq> rf_device (factors_of r) then Inl (ValueError ''v is on another device'')
           else rbind (case cx_decay cx of None \<Rightarrow> Inr () | Some d \<Rightarrow> decay_validate_against d (cr_topology r)) (\<lambda>_.
             if cx_state cx = NotState then Inl (TypeError ''state argument is a RoLAState'')
             else require_envelope (chunk_arms (ce_census env)) (ce_grad_enabled env) (factors_of r) (tensor_meta_of v)
                    (cx_decay cx) (cx_state cx \<noteq> NoState))))"

definition chunk_seeds :: "chunk_context \<Rightarrow> chunk_bag" where
  "chunk_seeds cx =
     [''routes'' \<mapsto> fopt CRoutes (cx_routes cx), ''v'' \<mapsto> fopt CTensor (cx_v cx), ''decay'' \<mapsto> fopt CDecay (cx_decay cx),
      ''state'' \<mapsto> (if cx_state cx = NoState then FNone else FVal CState),
      ''expert'' \<mapsto> (if cx_expert cx = NoExpert then FNone else FVal (CExpert (cx_expert cx))),
      ''want_state'' \<mapsto> FVal (CBool (cx_want_state cx)), ''given_state_in'' \<mapsto> fopt CPages (cx_state_in cx),
      ''given_arena'' \<mapsto> fopt CArena (cx_arena cx)]"

definition plan_of :: "chunk_bag \<Rightarrow> chunk_plan res" where
  "plan_of f = (case f ''plan'' of Some (FVal (CPlan p)) \<Rightarrow> Inr p | _ \<Rightarrow> Inl (KeyError ''plan''))"

definition build_chunk_plan ::
    "'a chunk_env \<Rightarrow> chunk_context \<Rightarrow> chunk_value memo \<Rightarrow> 'a chunk_world \<Rightarrow> chunk_plan res \<times> chunk_value memo \<times> 'a chunk_world" where
  "build_chunk_plan env cx memo w =
     (case rbind (validate_chunk_context env cx) (\<lambda>_. CHUNK_DAG env) of
        Inl e \<Rightarrow> (Inl e, memo, w)
      | Inr dag \<Rightarrow>
        (case run dag (chunk_seeds cx ++ map_of (cx_supplied cx)) memo w of
           (Inl e, memo', w') \<Rightarrow> (Inl e, memo', w')
         | (Inr f, memo', w') \<Rightarrow> (plan_of f, memo', w')))"

end
