(* ===== verification/Rola_Chunk_Props.thy ===== *)
theory Rola_Chunk_Props
  imports Rola_Chunk
begin

text \<open>
  The chunk recipe: its declarations are accepted at import, its walk binds every fact, and the
  plan it ends in is the solution of the nodes' equations over the call's arguments. The locale
  \<open>recipe\<close> is interpreted on the model's own recipe.
\<close>

lemmas chunk_node_defs = paging_node_def mask_node_def arm_node_def run_table_node_def manifest_node_def
  topology_node_def classify_node_def pack_planes_node_def facts_tables_node_def residency_node_def
  pack_v_node_def join_node_def backing_node_def block_bits_node_def build_plan_node_def

definition chunk_pre :: "'a chunk_env \<Rightarrow> 'a chunk_node list" where
  "chunk_pre env = map projr [paging_node, topology_node, classify_node env, mask_node, manifest_node env, arm_node,
     pack_planes_node env, pack_v_node env, facts_tables_node env]"

definition chunk_post :: "'a chunk_env \<Rightarrow> 'a chunk_node list" where
  "chunk_post env = map projr [join_node, backing_node, block_bits_node env, run_table_node, build_plan_node]"

definition chunk_nodes :: "'a chunk_env \<Rightarrow> 'a chunk_node list" where
  "chunk_nodes env = chunk_pre env @ projr (residency_node env) # chunk_post env"

lemmas chunk_nodes_defs = chunk_nodes_def chunk_pre_def chunk_post_def

lemma chunk_nodes_declared: "\<forall>s\<in>set (chunk_nodes env). node_declare s = Inr s"
  by (simp add: chunk_nodes_defs chunk_node_defs node_declare_def rule_declare_def)

lemma chunk_nodes_valid: "validate_dag (chunk_nodes env) CHUNK_SEEDS = Inr ()"
  by (simp add: validate_dag_def chunk_nodes_defs chunk_node_defs node_declare_def rule_declare_def CHUNK_SEEDS_def)

lemma CHUNK_DAG_nodes: "CHUNK_DAG env = Inr (chunk_nodes env)"
proof -
  have "rmap (\<lambda>n. n) [paging_node, topology_node, classify_node env, mask_node, manifest_node env, arm_node,
        pack_planes_node env, pack_v_node env, facts_tables_node env, residency_node env, join_node, backing_node,
        block_bits_node env, run_table_node, build_plan_node] = Inr (chunk_nodes env)"
    by (simp add: chunk_nodes_defs chunk_node_defs node_declare_def rule_declare_def)
  then show ?thesis using chunk_nodes_valid [of env]
    by (simp add: CHUNK_DAG_def del: rmap.simps) (simp add: facts_tables_node_def node_declare_def)
qed

interpretation chunk: recipe "chunk_nodes env" CHUNK_SEEDS for env
  by unfold_locales (rule chunk_nodes_valid, rule chunk_nodes_declared)

lemma chunk_gives: "gives_of (chunk_nodes env) =
   {''paging'', ''widths'', ''d_v'', ''call_class'', ''mask'', ''manifest'', ''arm'', ''read_plane'', ''write_plane'', ''g_write'',
    ''read_mass'', ''v_packed'', ''union_table'', ''atom_bits'', ''state_in'', ''arena'', ''page_table'', ''state_out'', ''block_bits'',
    ''run_table'', ''plan''}"
  by (auto simp: gives_of_def chunk_nodes_defs chunk_node_defs node_declare_def rule_declare_def)

lemma chunk_distinct: "distinct (concat (map n_gives (chunk_nodes env)))"
  by (simp add: chunk_nodes_defs chunk_node_defs node_declare_def rule_declare_def)

lemma chunk_seeds_dom: "dom (chunk_seeds cx) = set CHUNK_SEEDS"
  by (auto simp: chunk_seeds_def CHUNK_SEEDS_def)

lemma chunk_seeds_fresh: "dom (chunk_seeds cx) \<inter> gives_of (chunk_nodes env) = {}"
  unfolding chunk_gives chunk_seeds_dom CHUNK_SEEDS_def by simp

text \<open>
  C19 (chunkdag): The chunk recipe passes its import-time checks. A walk over bound seeds either ends
  with every fact of the recipe bound, or raises an error that is some node's own: no node is
  reached without its facts.
\<close>

theorem chunk_walk_complete:
  assumes "set CHUNK_SEEDS \<subseteq> dom facts"
  shows "\<exists>dag. CHUNK_DAG env = Inr dag \<and> length dag = 15 \<and>
     (case run dag facts memo w of
        (Inr f, memo', w') \<Rightarrow> dom f = dom facts \<union> gives_of dag
      | (Inl e, memo', w') \<Rightarrow> \<exists>s\<in>set dag. \<exists>bag. set (n_needs s) \<subseteq> dom bag \<and> own_error s bag e)"
proof (intro exI conjI)
  show "CHUNK_DAG env = Inr (chunk_nodes env)" by (rule CHUNK_DAG_nodes)
  show "length (chunk_nodes env) = 15" by (simp add: chunk_nodes_defs)
  obtain r memo' w' where r: "run (chunk_nodes env) facts memo w = (r, memo', w')" by (metis prod.collapse)
  show "case run (chunk_nodes env) facts memo w of
        (Inr f, memo', w') \<Rightarrow> dom f = dom facts \<union> gives_of (chunk_nodes env)
      | (Inl e, memo', w') \<Rightarrow> \<exists>s\<in>set (chunk_nodes env). \<exists>bag. set (n_needs s) \<subseteq> dom bag \<and> own_error s bag e"
  proof (cases r)
    case (Inl e)
    then show ?thesis using chunk.errors_are_the_nodes [OF assms] r by simp
  next
    case (Inr f)
    then show ?thesis using chunk.complete r by simp
  qed
qed

section \<open>The equations of the plan\<close>

lemma solved_mask:
  assumes "solved s final" "n_gives s = [''mask'']" "n_masks s = [M1, M2]" "n_pure_of s = []" "\<not> n_per_state s"
    "n_fn s = (\<lambda>f w. (rbind (facts_of f [''call_class'']) mask_fold, w))"
  shows "\<exists>c. final ''call_class'' = Some (FVal (CClass c)) \<and> final ''mask'' = Some (FMask (mask_rule c))"
proof -
  obtain bag where b: "bag \<subseteq>\<^sub>m final" "masked_out s bag \<and> (\<forall>x\<in>set (n_gives s). final x = Some FNone)
        \<or> \<not> masked_out s bag \<and> set (n_needs s) \<subseteq> dom bag
          \<and> (\<exists>memo w v memo' w' bag'. produce s bag memo w = (Inr v, memo', w') \<and> unpack (n_gives s) v bag = Inr bag'
               \<and> bag' \<subseteq>\<^sub>m final)" using assms(1) unfolding solved_def by blast
  have "\<not> (masked_out s bag \<and> (\<forall>x\<in>set (n_gives s). final x = Some FNone))"
    using map_leD [OF b(1), of "''mask''"] assms(2) by (auto simp: masked_out_def split: option.splits fact.splits)
  then obtain memo w v memo' w' bag' where r: "produce s bag memo w = (Inr v, memo', w')"
    "unpack (n_gives s) v bag = Inr bag'" "bag' \<subseteq>\<^sub>m final" using b(2) by blast
  then have "rbind (facts_of bag [''call_class'']) mask_fold = Inr v"
    using assms(4-6) by (auto simp: produce_def table_of_def split: prod.splits)
  then obtain c where "bag ''call_class'' = Some (FVal (CClass c))" "v = FMask (mask_rule c)"
    by (auto simp: res_simps mask_fold_def split: option.splits fact.splits chunk_value.splits)
  then show ?thesis using map_leD [OF b(1)] unpack1 [of "''mask''" v bag bag' final] r(2,3) assms(2) by auto
qed

section \<open>What a node leaves alone\<close>

lemmas body_defs = manifest_body_def topology_body_def classify_body_def pack_planes_body_def facts_tables_body_def
  residency_body_def pack_v_body_def join_body_def backing_body_def block_bits_body_def build_plan_body_def host_def on_heap_def

lemma node_fns [simp]:
  "n_fn (projr paging_node) = (\<lambda>f w. (rbind (facts_of f [''expert'']) paging_fold, w))"
  "n_fn (projr mask_node) = (\<lambda>f w. (rbind (facts_of f [''call_class'']) mask_fold, w))"
  "n_fn (projr arm_node) = (\<lambda>f w. (rbind (facts_of f [''widths'', ''manifest'']) arm_fold, w))"
  "n_fn (projr run_table_node) = (\<lambda>f w. (rbind (facts_of f [''state_in'', ''state_out'', ''page_table'']) run_table_fold, w))"
  "n_fn (projr (manifest_node env)) = manifest_body env" "n_fn (projr topology_node) = topology_body"
  "n_fn (projr (classify_node env)) = classify_body env" "n_fn (projr (pack_planes_node env)) = pack_planes_body env"
  "n_fn (projr (facts_tables_node env)) = facts_tables_body env" "n_fn (projr (residency_node env)) = residency_body env"
  "n_fn (projr (pack_v_node env)) = pack_v_body env" "n_fn (projr join_node) = join_body" "n_fn (projr backing_node) = backing_body"
  "n_fn (projr (block_bits_node env)) = block_bits_body env" "n_fn (projr build_plan_node) = build_plan_body"
  by (simp_all add: chunk_node_defs node_declare_def rule_declare_def del: facts_of.simps)

lemma on_heap_state [simp]: "cw_state (snd (on_heap r mk w)) = cw_state w" by (simp add: on_heap_def)

lemma bodies_keep_state:
  "snd (classify_body env f w) = w"
  "cw_state (snd (pack_planes_body env f w)) = cw_state w"
  "cw_state (snd (facts_tables_body env f w)) = cw_state w"
  "cw_state (snd (pack_v_body env f w)) = cw_state w"
  "cw_state (snd (join_body f w)) = cw_state w"
  "cw_state (snd (block_bits_body env f w)) = cw_state w"
       apply (simp add: classify_body_def)
      apply (auto simp: pack_planes_body_def split: sum.split option.split prod.split)[1]
     apply (auto simp: facts_tables_body_def split: sum.split prod.split)[1]
    apply (auto simp: pack_v_body_def split: sum.split prod.split)[1]
   apply (simp add: join_body_def)
  apply (auto simp: block_bits_body_def split: sum.split prod.split)[1]
  done

lemma pre_keeps_state: "\<forall>s\<in>set (chunk_pre env). frames cw_state s"
  by (simp add: chunk_pre_def frames_def bodies_keep_state manifest_body_def topology_body_def del: facts_of.simps)

lemma post_keeps_state: "\<forall>s\<in>set (chunk_post env). frames cw_state s"
  by (simp add: chunk_post_def frames_def bodies_keep_state backing_body_def build_plan_body_def del: facts_of.simps)

lemma chunk_nodes_gives:
  "gives_of (chunk_nodes env) = gives_of (chunk_pre env) \<union> gives_of (projr (residency_node env) # chunk_post env)"
  "gives_of (chunk_pre env) \<inter> gives_of (projr (residency_node env) # chunk_post env) = {}"
  "set (n_gives (projr (residency_node env))) \<inter> gives_of (chunk_post env) = {}"
proof -
  show "gives_of (chunk_nodes env) = gives_of (chunk_pre env) \<union> gives_of (projr (residency_node env) # chunk_post env)"
    unfolding chunk_nodes_def gives_of_def by auto
  have d: "distinct (concat (map n_gives (chunk_pre env)) @ concat (map n_gives (projr (residency_node env) # chunk_post env)))"
    using chunk_distinct [of env] by (simp add: chunk_nodes_def)
  then show "gives_of (chunk_pre env) \<inter> gives_of (projr (residency_node env) # chunk_post env) = {}"
    unfolding gives_of_def by simp
  from d show "set (n_gives (projr (residency_node env))) \<inter> gives_of (chunk_post env) = {}"
    unfolding gives_of_def by simp
qed

text \<open>The state a plan leaves is the state its residency step left.\<close>

lemma chunk_run_state:
  assumes "run (chunk_nodes env) facts memo w = (Inr f, memo', w')" "dom facts \<inter> gives_of (chunk_nodes env) = {}"
  shows "\<exists>f1 m1 w1 f2 m2 w2. f1 \<subseteq>\<^sub>m f \<and> dom f1 = dom facts \<union> gives_of (chunk_pre env) \<and> cw_state w1 = cw_state w
     \<and> walk_step (projr (residency_node env)) f1 m1 w1 = (Inr f2, m2, w2) \<and> f2 \<subseteq>\<^sub>m f \<and> cw_state w' = cw_state w2"
proof -
  let ?pre = "chunk_pre env" and ?res = "projr (residency_node env)" and ?post = "chunk_post env"
  obtain r1 m1 w1 where 1: "run ?pre facts memo w = (r1, m1, w1)" by (metis prod.collapse)
  with assms(1) obtain f1 where f1: "r1 = Inr f1" and rest: "run (?res # ?post) f1 m1 w1 = (Inr f, memo', w')"
    by (cases r1) (simp_all add: chunk_nodes_def run_append)
  obtain f2 m2 w2 where 2: "walk_step ?res f1 m1 w1 = (Inr f2, m2, w2)" "run ?post f2 m2 w2 = (Inr f, memo', w')"
    using rest by (auto split: prod.splits sum.splits)
  have dom1: "dom f1 = dom facts \<union> gives_of ?pre" using run_dom [of ?pre facts memo w f1 m1 w1] 1 f1 by simp
  have "dom f1 \<inter> gives_of (?res # ?post) = {}"
    using assms(2) chunk_nodes_gives(2) [of env] unfolding chunk_nodes_gives(1) dom1 by blast
  note free = this
  have "f1 \<subseteq>\<^sub>m f" by (rule run_extends [OF rest free])
  moreover have "dom f2 \<inter> gives_of ?post = {}"
    using free chunk_nodes_gives(3) [of env] unfolding walk_step_ok(1) [OF 2(1)] gives_of_simps by blast
  moreover have "cw_state w1 = cw_state w" using run_frame [OF pre_keeps_state [of env], of facts memo w] 1 by simp
  moreover have "cw_state w' = cw_state w2" using run_frame [OF post_keeps_state [of env], of f2 m2 w2] 2(2) by simp
  ultimately show ?thesis using 2(1) dom1 run_extends [OF 2(2)]
    by (intro exI [of _ f1] exI [of _ m1] exI [of _ w1] exI [of _ f2] exI [of _ m2] exI [of _ w2]) simp
qed

section \<open>The equations of the final bag\<close>

definition chunk_solution :: "'a chunk_env \<Rightarrow> chunk_context \<Rightarrow> chunk_bag \<Rightarrow> bool" where
  "chunk_solution env cx f \<longleftrightarrow>
     (\<forall>s\<in>set (chunk_nodes env). solved s f) \<and> (\<forall>x\<in>set CHUNK_SEEDS. f x = chunk_seeds cx x)"

lemma chunk_run_solution:
  assumes "run (chunk_nodes env) (chunk_seeds cx) memo w = (Inr f, memo', w')"
  shows "chunk_solution env cx f"
  using run_solves [OF assms chunk_distinct chunk_seeds_fresh] run_other [OF assms] chunk_seeds_fresh [of cx env]
  unfolding chunk_solution_def chunk_seeds_dom by blast

lemma sol_seed:
  assumes "chunk_solution env cx f"
  shows "f ''routes'' = Some (fopt CRoutes (cx_routes cx))" "f ''v'' = Some (fopt CTensor (cx_v cx))"
    "f ''state'' = Some (if cx_state cx = NoState then FNone else FVal CState)"
    "f ''expert'' = Some (if cx_expert cx = NoExpert then FNone else FVal (CExpert (cx_expert cx)))"
    "f ''want_state'' = Some (FVal (CBool (cx_want_state cx)))" "f ''given_state_in'' = Some (fopt CPages (cx_state_in cx))"
    "f ''given_arena'' = Some (fopt CArena (cx_arena cx))"
  using assms by (simp_all add: chunk_solution_def CHUNK_SEEDS_def chunk_seeds_def)

definition plain :: "('v, 'w) node \<Rightarrow> bool" where
  "plain s \<longleftrightarrow> n_masks s = [M1, M2] \<and> n_pure_of s = [] \<and> \<not> n_per_state s"

lemma plain_nodes:
  "plain (projr paging_node)" "plain (projr arm_node)" "plain (projr run_table_node)" "plain (projr (manifest_node env))"
  "plain (projr topology_node)" "plain (projr (classify_node env))" "plain (projr backing_node)" "plain (projr build_plan_node)"
  "plain (projr mask_node)"
  by (simp_all add: plain_def chunk_node_defs node_declare_def rule_declare_def del: facts_of.simps)

lemma gives_nodes:
  "n_gives (projr paging_node) = [''paging'']" "n_gives (projr arm_node) = [''arm'']" "n_gives (projr run_table_node) = [''run_table'']"
  "n_gives (projr (manifest_node env)) = [''manifest'']" "n_gives (projr topology_node) = [''widths'', ''d_v'']"
  "n_gives (projr (classify_node env)) = [''call_class'']" "n_gives (projr backing_node) = [''page_table'', ''state_out'']"
  "n_gives (projr build_plan_node) = [''plan'']" "n_gives (projr mask_node) = [''mask'']"
  by (simp_all add: chunk_node_defs node_declare_def rule_declare_def del: facts_of.simps)

lemma in_chunk_nodes:
  "projr paging_node \<in> set (chunk_nodes env)" "projr arm_node \<in> set (chunk_nodes env)" "projr run_table_node \<in> set (chunk_nodes env)"
  "projr (manifest_node env) \<in> set (chunk_nodes env)" "projr topology_node \<in> set (chunk_nodes env)"
  "projr (classify_node env) \<in> set (chunk_nodes env)" "projr backing_node \<in> set (chunk_nodes env)"
  "projr build_plan_node \<in> set (chunk_nodes env)" "projr mask_node \<in> set (chunk_nodes env)"
  by (simp_all add: chunk_nodes_defs)

lemma sol_mask:
  assumes "chunk_solution env cx f"
  shows "\<exists>c. f ''call_class'' = Some (FVal (CClass c)) \<and> f ''mask'' = Some (FMask (mask_rule c))"
  using assms in_chunk_nodes(9) [of env] plain_nodes(9) gives_nodes(9)
  by (intro solved_mask [of "projr mask_node :: 'a chunk_node"]) (auto simp: chunk_solution_def plain_def)

lemma sol_ran:
  assumes "chunk_solution env cx f" "s \<in> set (chunk_nodes env)" "plain s"
  obtains bag w v w' bag' where "bag \<subseteq>\<^sub>m f" "n_fn s bag w = (Inr v, w')"
    "unpack (n_gives s) v bag = Inr bag'" "bag' \<subseteq>\<^sub>m f"
proof -
  obtain c where "f ''mask'' = Some (FMask (mask_rule c))" using sol_mask [OF assms(1)] by blast
  moreover have "mask_rule c \<in> set (n_masks s)" using assms(3) by (simp add: plain_def mask_rule_def)
  moreover have "solved s f" using assms(1,2) by (simp add: chunk_solution_def)
  ultimately show thesis using solved_ran [of s f] assms(3) that unfolding plain_def by metis
qed

lemma sol_paging:
  assumes "chunk_solution env cx f"
  shows "\<exists>b. f ''paging'' = Some (FVal (CBool b)) \<and> paging_preference (cx_expert cx) = Inr b"
proof -
  obtain bag w v w' bag' where b: "bag \<subseteq>\<^sub>m f" "n_fn (projr paging_node :: 'a chunk_node) bag w = (Inr v, w')"
    "unpack [''paging''] v bag = Inr bag'" "bag' \<subseteq>\<^sub>m f"
    using sol_ran [OF assms in_chunk_nodes(1) plain_nodes(1)] gives_nodes(1) by metis
  then obtain e where "bag ''expert'' = Some e" "paging_fold [e] = Inr v" by (auto simp: res_simps split: option.splits)
  then show ?thesis
    using map_leD [OF b(1), of "''expert''"] sol_seed(4) [OF assms] unpack1 [OF b(3,4)]
    by (cases "cx_expert cx = NoExpert") (auto simp: paging_fold_def res_simps)
qed

lemma sol_manifest:
  assumes "chunk_solution env cx f"
  shows "f ''manifest'' = Some (FVal (CManifest (chunk_arms (ce_census env))))"
proof -
  obtain bag w v w' bag' where b: "bag \<subseteq>\<^sub>m f" "n_fn (projr (manifest_node env)) bag w = (Inr v, w')"
    "unpack [''manifest''] v bag = Inr bag'" "bag' \<subseteq>\<^sub>m f"
    using sol_ran [OF assms in_chunk_nodes(4) plain_nodes(4)] gives_nodes(4) by metis
  then show ?thesis using unpack1 [OF b(3,4)] by (simp add: manifest_body_def host_def)
qed

lemma sol_topology:
  assumes "chunk_solution env cx f" "cx_routes cx = Some r" "cx_v cx = Some v"
  shows "f ''widths'' = Some (FVal (CWidths (map lv_width (cr_topology r))))" "f ''d_v'' = Some (FVal (CNat (last (tn_shape v))))"
proof -
  obtain bag w x w' bag' where b: "bag \<subseteq>\<^sub>m f" "n_fn (projr topology_node :: 'a chunk_node) bag w = (Inr x, w')"
    "unpack [''widths'', ''d_v''] x bag = Inr bag'" "bag' \<subseteq>\<^sub>m f"
    using sol_ran [OF assms(1) in_chunk_nodes(5) plain_nodes(5)] gives_nodes(5) by metis
  have r: "y = FVal (CRoutes r)" if "bag ''routes'' = Some y" for y
    using map_leD [OF b(1), of "''routes''" y] that sol_seed(1) [OF assms(1)] assms(2) by (simp add: fopt_def)
  have v: "y = FVal (CTensor v)" if "bag ''v'' = Some y" for y
    using map_leD [OF b(1), of "''v''" y] that sol_seed(2) [OF assms(1)] assms(3) by (simp add: fopt_def)
  have "x = FTuple [FVal (CWidths (map lv_width (cr_topology r))), FVal (CNat (last (tn_shape v)))]"
    using b(2) r v by (fastforce simp: topology_body_def host_def res_simps split: if_splits)
  then show "f ''widths'' = Some (FVal (CWidths (map lv_width (cr_topology r))))" "f ''d_v'' = Some (FVal (CNat (last (tn_shape v))))"
    using unpack2 [OF b(3,4)] by auto
qed

lemma sol_arm:
  assumes "chunk_solution env cx f" "cx_routes cx = Some r" "cx_v cx = Some v"
  shows "\<exists>a. f ''arm'' = Some (fopt CArm a) \<and> arm_rule (map lv_width (cr_topology r)) (chunk_arms (ce_census env)) = Inr a"
proof -
  obtain bag w x w' bag' where b: "bag \<subseteq>\<^sub>m f" "n_fn (projr arm_node :: 'a chunk_node) bag w = (Inr x, w')"
    "unpack [''arm''] x bag = Inr bag'" "bag' \<subseteq>\<^sub>m f"
    using sol_ran [OF assms(1) in_chunk_nodes(2) plain_nodes(2)] gives_nodes(2) by metis
  then obtain ws m where i: "bag ''widths'' = Some ws" "bag ''manifest'' = Some m" and arm: "arm_fold [ws, m] = Inr x"
    by (auto simp: res_simps split: option.splits)
  have "ws = FVal (CWidths (map lv_width (cr_topology r)))" "m = FVal (CManifest (chunk_arms (ce_census env)))"
    using map_leD [OF b(1), of "''widths''" ws] map_leD [OF b(1), of "''manifest''" m] i sol_topology(1) [OF assms]
      sol_manifest [OF assms(1)] by simp_all
  then have "rbind (arm_rule (map lv_width (cr_topology r)) (chunk_arms (ce_census env))) (\<lambda>a. Inr (fopt CArm a)) = Inr x"
    using arm by (simp add: arm_fold_def)
  then show ?thesis using unpack1 [OF b(3,4)] by (auto simp: res_simps)
qed

lemma sol_run_table:
  assumes "chunk_solution env cx f"
  shows "\<exists>si so pt. f ''state_in'' = Some si \<and> f ''state_out'' = Some so \<and> f ''page_table'' = Some pt
     \<and> f ''run_table'' = Some (FVal (CWord (run_table (si \<noteq> FNone) (so \<noteq> FNone) (pt \<noteq> FNone))))"
proof -
  obtain bag w x w' bag' where b: "bag \<subseteq>\<^sub>m f" "n_fn (projr run_table_node :: 'a chunk_node) bag w = (Inr x, w')"
    "unpack [''run_table''] x bag = Inr bag'" "bag' \<subseteq>\<^sub>m f"
    using sol_ran [OF assms in_chunk_nodes(3) plain_nodes(3)] gives_nodes(3) by metis
  then obtain si so pt where "bag ''state_in'' = Some si" "bag ''state_out'' = Some so" "bag ''page_table'' = Some pt"
    "run_table_fold [si, so, pt] = Inr x"
    by (auto simp: res_simps split: option.splits)
  then show ?thesis using map_leD [OF b(1)] unpack1 [OF b(3,4)] by (auto simp: run_table_fold_def)
qed

lemma maybe_mono:
  assumes "maybe bag x is un = Inr y" "bag \<subseteq>\<^sub>m f" "\<And>z. is z \<Longrightarrow> c (un z) = z"
  shows "f x = Some (fopt c y)"
  using maybe_Inr_opt [of bag x "is" un y c] map_leD [OF assms(2), of x "fopt c y"] assms(1,3) by simp

lemma need_mono:
  assumes "need bag x is un = Inr y" "bag \<subseteq>\<^sub>m f" "\<And>z. is z \<Longrightarrow> c (un z) = z"
  shows "f x = Some (FVal (c y))"
proof -
  obtain v where v: "bag x = Some (FVal v)" "is v" "un v = y" using assms(1) by auto
  then show ?thesis using map_leD [OF assms(2), of x "FVal v"] assms(3) [of v] by simp
qed

lemma build_plan_reads:
  assumes "build_plan_body bag w = (Inr (FVal (CPlan p)), w')"
  shows "need bag ''call_class'' is_CClass un_class = Inr (cp_call_class p)
    \<and> need bag ''arm'' is_CArm un_arm = Inr (cp_arm p) \<and> need bag ''widths'' is_CWidths un_widths = Inr (cp_widths p)
    \<and> need bag ''d_v'' is_CNat un_nat = Inr (cp_d_v p) \<and> need bag ''routes'' is_CRoutes un_routes = Inr (cp_routes p)
    \<and> need bag ''read_plane'' is_CTensor un_tensor = Inr (cp_read_plane p)
    \<and> need bag ''write_plane'' is_CTensor un_tensor = Inr (cp_write_plane p)
    \<and> maybe bag ''page_table'' is_CTable un_table = Inr (cp_page_table p)
    \<and> maybe bag ''atom_bits'' is_CBits un_bits = Inr (cp_atom_bits p)
    \<and> maybe bag ''state_in'' is_CPages un_pages = Inr (cp_state_in p)
    \<and> maybe bag ''state_out'' is_CPages un_pages = Inr (cp_state_out p)
    \<and> need bag ''run_table'' is_CWord un_word = Inr (cp_run_table p)"
  using assms by (auto simp: build_plan_body_def host_def rbind_Inr_iff simp del: need_Inr split: if_splits)

lemma sol_plan:
  assumes "chunk_solution env cx f" "f ''plan'' = Some (FVal (CPlan p))"
  shows "f ''arm'' = Some (FVal (CArm (cp_arm p)))" "f ''widths'' = Some (FVal (CWidths (cp_widths p)))"
    "f ''d_v'' = Some (FVal (CNat (cp_d_v p)))" "f ''routes'' = Some (FVal (CRoutes (cp_routes p)))"
    "f ''call_class'' = Some (FVal (CClass (cp_call_class p)))" "f ''run_table'' = Some (FVal (CWord (cp_run_table p)))"
    "f ''page_table'' = Some (fopt CTable (cp_page_table p))" "f ''atom_bits'' = Some (fopt CBits (cp_atom_bits p))"
    "f ''state_in'' = Some (fopt CPages (cp_state_in p))" "f ''state_out'' = Some (fopt CPages (cp_state_out p))"
    "f ''read_plane'' = Some (FVal (CTensor (cp_read_plane p)))" "f ''write_plane'' = Some (FVal (CTensor (cp_write_plane p)))"
proof -
  obtain bag w x w' bag' where b: "bag \<subseteq>\<^sub>m f" "n_fn (projr build_plan_node :: 'a chunk_node) bag w = (Inr x, w')"
    "unpack [''plan''] x bag = Inr bag'" "bag' \<subseteq>\<^sub>m f"
    using sol_ran [OF assms(1) in_chunk_nodes(8) plain_nodes(8)] gives_nodes(8) by metis
  have x: "x = FVal (CPlan p)" using unpack1 [OF b(3,4)] assms(2) by simp
  note reads = build_plan_reads [OF b(2) [unfolded node_fns x]]
  show "f ''arm'' = Some (FVal (CArm (cp_arm p)))" by (rule need_mono [OF _ b(1), of _ is_CArm un_arm _ CArm]) (use reads in \<open>simp_all del: need_Inr\<close>)
  show "f ''widths'' = Some (FVal (CWidths (cp_widths p)))" by (rule need_mono [OF _ b(1), of _ is_CWidths un_widths _ CWidths]) (use reads in \<open>simp_all del: need_Inr\<close>)
  show "f ''d_v'' = Some (FVal (CNat (cp_d_v p)))" by (rule need_mono [OF _ b(1), of _ is_CNat un_nat _ CNat]) (use reads in \<open>simp_all del: need_Inr\<close>)
  show "f ''routes'' = Some (FVal (CRoutes (cp_routes p)))" by (rule need_mono [OF _ b(1), of _ is_CRoutes un_routes _ CRoutes]) (use reads in \<open>simp_all del: need_Inr\<close>)
  show "f ''call_class'' = Some (FVal (CClass (cp_call_class p)))" by (rule need_mono [OF _ b(1), of _ is_CClass un_class _ CClass]) (use reads in \<open>simp_all del: need_Inr\<close>)
  show "f ''run_table'' = Some (FVal (CWord (cp_run_table p)))" by (rule need_mono [OF _ b(1), of _ is_CWord un_word _ CWord]) (use reads in \<open>simp_all del: need_Inr\<close>)
  show "f ''page_table'' = Some (fopt CTable (cp_page_table p))" by (rule maybe_mono [OF _ b(1), of _ is_CTable un_table _ CTable]) (use reads in \<open>simp_all del: need_Inr\<close>)
  show "f ''atom_bits'' = Some (fopt CBits (cp_atom_bits p))" by (rule maybe_mono [OF _ b(1), of _ is_CBits un_bits _ CBits]) (use reads in \<open>simp_all del: need_Inr\<close>)
  show "f ''state_in'' = Some (fopt CPages (cp_state_in p))" by (rule maybe_mono [OF _ b(1), of _ is_CPages un_pages _ CPages]) (use reads in \<open>simp_all del: need_Inr\<close>)
  show "f ''state_out'' = Some (fopt CPages (cp_state_out p))" by (rule maybe_mono [OF _ b(1), of _ is_CPages un_pages _ CPages]) (use reads in \<open>simp_all del: need_Inr\<close>)
  show "f ''read_plane'' = Some (FVal (CTensor (cp_read_plane p)))" by (rule need_mono [OF _ b(1), of _ is_CTensor un_tensor _ CTensor]) (use reads in \<open>simp_all del: need_Inr\<close>)
  show "f ''write_plane'' = Some (FVal (CTensor (cp_write_plane p)))" by (rule need_mono [OF _ b(1), of _ is_CTensor un_tensor _ CTensor]) (use reads in \<open>simp_all del: need_Inr\<close>)
qed

lemma classify_reads:
  assumes "classify_body env bag w = (Inr (FVal (CClass c)), w')"
  shows "(cc_state_in c \<longleftrightarrow> given bag ''given_state_in'' \<or> given bag ''state'')
    \<and> need bag ''want_state'' is_CBool un_bool = Inr (cc_state_out c)
    \<and> (given bag ''given_arena'' \<longrightarrow> cc_paged c) \<and> (cc_paged c \<longrightarrow> given bag ''given_arena'' \<or> given bag ''state'')"
  using assms unfolding classify_body_def prod.inject rbind_Inr_iff
  by (elim conjE exE) (auto simp del: need_Inr)

lemma sol_classify:
  assumes "chunk_solution env cx f" "f ''call_class'' = Some (FVal (CClass c))"
  shows "cc_state_in c \<longleftrightarrow> cx_state_in cx \<noteq> None \<or> cx_state cx \<noteq> NoState" "cc_state_out c = cx_want_state cx"
    "cx_arena cx \<noteq> None \<Longrightarrow> cc_paged c" "cc_paged c \<Longrightarrow> cx_arena cx \<noteq> None \<or> cx_state cx \<noteq> NoState"
proof -
  let ?s = "projr (classify_node env)"
  obtain k where "f ''mask'' = Some (FMask (mask_rule k))" using sol_mask [OF assms(1)] by blast
  moreover have "mask_rule k \<in> set (n_masks ?s)" "n_pure_of ?s = []" "\<not> n_per_state ?s"
    using plain_nodes(6) [of env] by (simp_all add: plain_def mask_rule_def)
  moreover have "solved ?s f" using assms(1) in_chunk_nodes(6) by (auto simp: chunk_solution_def)
  ultimately obtain bag w x w' bag' where b: "bag \<subseteq>\<^sub>m f" "set (n_needs ?s) \<subseteq> dom bag" "classify_body env bag w = (Inr x, w')"
    "unpack (n_gives ?s) x bag = Inr bag'" "bag' \<subseteq>\<^sub>m f" by (elim solved_ran) auto
  have x: "x = FVal (CClass c)" using unpack1 [OF _ b(5)] b(4) assms(2) gives_nodes(6) [of env] by fastforce
  have dom: "bag ''given_state_in'' = f ''given_state_in''" "bag ''given_arena'' = f ''given_arena''" "bag ''state'' = f ''state''"
    "bag ''want_state'' = f ''want_state''"
    using b(1,2) by (auto simp: map_le_def classify_node_def node_declare_def)
  note seeds = sol_seed(3,5,6,7) [OF assms(1)]
  have g: "given bag ''given_state_in'' \<longleftrightarrow> cx_state_in cx \<noteq> None" "given bag ''given_arena'' \<longleftrightarrow> cx_arena cx \<noteq> None"
    "given bag ''state'' \<longleftrightarrow> cx_state cx \<noteq> NoState"
    using dom seeds by (auto simp: given_def fopt_def split: option.splits)
  show "cc_state_in c \<longleftrightarrow> cx_state_in cx \<noteq> None \<or> cx_state cx \<noteq> NoState" "cc_state_out c = cx_want_state cx"
    "cx_arena cx \<noteq> None \<Longrightarrow> cc_paged c" "cc_paged c \<Longrightarrow> cx_arena cx \<noteq> None \<or> cx_state cx \<noteq> NoState"
    using classify_reads [OF b(3) [unfolded x]] need_mono [OF _ b(1), of _ is_CBool un_bool _ CBool] seeds(2)
    unfolding g by auto
qed

definition stateless :: "chunk_context \<Rightarrow> bool" where
  "stateless cx \<longleftrightarrow> cx_state cx = NoState \<and> cx_state_in cx = None \<and> cx_arena cx = None \<and> \<not> cx_want_state cx"

lemma sol_band:
  assumes "chunk_solution env cx f"
  shows "f ''mask'' = Some (FMask (if stateless cx then M1 else M2))"
proof -
  obtain c where c: "f ''call_class'' = Some (FVal (CClass c))" "f ''mask'' = Some (FMask (mask_rule c))"
    using sol_mask [OF assms] by blast
  then show ?thesis using sol_classify [OF assms c(1)] by (auto simp: mask_rule_def stateless_def)
qed

lemma sol_backing:
  assumes "chunk_solution env cx f" "cx_routes cx = Some r" "cx_v cx = Some v"
  shows "\<exists>arena. f ''arena'' = Some (fopt CArena arena) \<and> f ''page_table'' = Some (fopt CTable (map_option ar_table arena))
     \<and> f ''state_out'' = Some (if \<not> cx_want_state cx then FNone else case arena of Some a \<Rightarrow> FVal (CPages (arena_plane a))
          | None \<Rightarrow> (case f ''state_in'' of Some (FVal (CPages q)) \<Rightarrow> FVal (CPages q)
              | _ \<Rightarrow> FVal (CPages (zero_plane r (last (tn_shape v))))))"
proof -
  obtain bag w x w' bag' where b: "bag \<subseteq>\<^sub>m f" "n_fn (projr backing_node :: 'a chunk_node) bag w = (Inr x, w')"
    "unpack [''page_table'', ''state_out''] x bag = Inr bag'" "bag' \<subseteq>\<^sub>m f"
    using sol_ran [OF assms(1) in_chunk_nodes(7) plain_nodes(7)] gives_nodes(7) by metis
  obtain arena want where i: "maybe bag ''arena'' is_CArena un_arena = Inr arena" "need bag ''want_state'' is_CBool un_bool = Inr want"
    using b(2) by (auto simp: backing_body_def host_def rbind_Inr_iff simp del: need_Inr)
  have a: "f ''arena'' = Some (fopt CArena arena)" by (rule maybe_mono [OF i(1) b(1)]) simp
  have w: "want = cx_want_state cx" using need_mono [OF i(2) b(1), of CBool] sol_seed(5) [OF assms(1)] by simp
  obtain y z where x: "x = FTuple [y, z]" "f ''page_table'' = Some y" "f ''state_out'' = Some z" using unpack2 [OF b(3,4)] by auto
  show ?thesis
  proof (cases "arena = None \<and> want")
    case False
    then show ?thesis using b(2) i a w x
      by (intro exI [of _ arena], cases arena) (auto simp: backing_body_def host_def fopt_def simp del: need_Inr)
  next
    case True
    obtain si where si: "maybe bag ''state_in'' is_CPages un_pages = Inr si"
      using b(2) i True by (auto simp: backing_body_def host_def rbind_Inr_iff simp del: need_Inr)
    have fsi: "f ''state_in'' = Some (fopt CPages si)" by (rule maybe_mono [OF si b(1)]) simp
    show ?thesis
    proof (cases si)
      case (Some q)
      then show ?thesis using b(2) i a w x si fsi True by (intro exI [of _ arena]) (auto simp: backing_body_def host_def fopt_def simp del: need_Inr)
    next
      case None
      obtain r' d where rd: "need bag ''routes'' is_CRoutes un_routes = Inr r'" "need bag ''d_v'' is_CNat un_nat = Inr d"
        and z: "x = FTuple [FNone, FVal (CPages (zero_plane r' d))]"
        using b(2) i si True None by (auto simp: backing_body_def host_def rbind_Inr_iff simp del: need_Inr)
      have "r' = r" "d = last (tn_shape v)"
        using need_mono [OF rd(1) b(1), of CRoutes] need_mono [OF rd(2) b(1), of CNat] sol_seed(1) [OF assms(1)]
          sol_topology(2) [OF assms] assms(2) by (simp_all add: fopt_def)
      then show ?thesis using a w x z fsi True None by (intro exI [of _ arena]) (simp add: fopt_def)
    qed
  qed
qed

lemma sol_residency:
  assumes run: "run (chunk_nodes env) (chunk_seeds cx) memo w = (Inr f, memo', w')"
    and r: "cx_routes cx = Some r" and v: "cx_v cx = Some v"
  shows "if stateless cx then f ''state_in'' = Some FNone \<and> f ''arena'' = Some FNone \<and> cw_state w' = cw_state w
    else if cx_state cx = NoState
    then f ''state_in'' = Some (fopt CPages (cx_state_in cx)) \<and> f ''arena'' = Some (fopt CArena (cx_arena cx)) \<and> cw_state w' = cw_state w
    else \<exists>bits paging a plane arena. f ''atom_bits'' = Some (fopt CBits bits) \<and> paging_preference (cx_expert cx) = Inr paging
      \<and> f ''arm'' = Some (FVal (CArm a)) \<and> f ''state_in'' = Some (fopt CPages plane) \<and> f ''arena'' = Some (fopt CArena arena)
      \<and> kernel_entry (ce_platform env) (call_routes_of r) bits (last (tn_shape v)) paging (arm_bc a) (cw_state w)
        = (Inr (plane, arena), cw_state w')"
proof -
  let ?s = "projr (residency_node env)"
  note sol = chunk_run_solution [OF run]
  obtain f1 m1 w1 f2 m2 w2 where 1: "f1 \<subseteq>\<^sub>m f" "dom f1 = dom (chunk_seeds cx) \<union> gives_of (chunk_pre env)"
    "cw_state w1 = cw_state w" "walk_step ?s f1 m1 w1 = (Inr f2, m2, w2)" "f2 \<subseteq>\<^sub>m f" "cw_state w' = cw_state w2"
    using chunk_run_state [OF run chunk_seeds_fresh] by blast
  have pre: "gives_of (chunk_pre env) = {''paging'', ''widths'', ''d_v'', ''call_class'', ''mask'', ''manifest'', ''arm'',
      ''read_plane'', ''write_plane'', ''g_write'', ''read_mass'', ''v_packed'', ''union_table'', ''atom_bits''}"
    by (auto simp: gives_of_def chunk_pre_def chunk_node_defs node_declare_def rule_declare_def)
  have eq: "f1 x = f x" if "x \<in> dom f1" for x using 1(1) that by (auto simp: map_le_def)
  have bound: "''mask'' \<in> dom f1" "''state'' \<in> dom f1" "''given_state_in'' \<in> dom f1" "''given_arena'' \<in> dom f1" "''routes'' \<in> dom f1"
    "''atom_bits'' \<in> dom f1" "''d_v'' \<in> dom f1" "''paging'' \<in> dom f1" "''arm'' \<in> dom f1" and free: "''state_in'' \<notin> dom f1"
    unfolding 1(2) pre chunk_seeds_dom CHUNK_SEEDS_def by simp_all
  have s: "n_masks ?s = [M2]" "n_gives ?s = [''state_in'', ''arena'']" "n_pure_of ?s = []" "\<not> n_per_state ?s"
    by (simp_all add: residency_node_def node_declare_def)
  have mask: "f1 ''mask'' = Some (FMask (if stateless cx then M1 else M2))" using sol_band [OF sol] eq [OF bound(1)] by simp
  show ?thesis
  proof (cases "stateless cx")
    case True
    then have "masked_out ?s f1" using mask s by (simp add: masked_out_def)
    then have "f2 = give_none [''state_in'', ''arena''] f1" "w2 = w1" using 1(4) s by (simp_all add: walk_step_def)
    moreover have "''arena'' \<notin> dom f1" unfolding 1(2) pre chunk_seeds_dom CHUNK_SEEDS_def by simp
    ultimately have "f2 ''state_in'' = Some FNone" "f2 ''arena'' = Some FNone" "w2 = w1"
      using free by (simp_all add: give_none_def domIff)
    then show ?thesis using True 1(3,6) map_leD [OF 1(5), of "''state_in''" FNone] map_leD [OF 1(5), of "''arena''" FNone] by simp
  next
    case False
    have nm: "\<not> masked_out ?s f1" using mask s False by (simp add: masked_out_def)
    have ns: "\<not> supplied ?s f1" using free s by (simp add: supplied_def)
    obtain x where x: "residency_body env f1 w1 = (Inr x, w2)" "unpack [''state_in'', ''arena''] x f1 = Inr f2"
      using 1(4) nm ns s
      by (auto simp: walk_step_def produce_def table_of_def split: if_splits prod.splits sum.splits)
    obtain y z where yz: "x = FTuple [y, z]" "f ''state_in'' = Some y" "f ''arena'' = Some z" using unpack2 [OF x(2) 1(5)] by auto
    have seeds: "f1 ''state'' = Some (if cx_state cx = NoState then FNone else FVal CState)"
      "f1 ''given_state_in'' = Some (fopt CPages (cx_state_in cx))" "f1 ''given_arena'' = Some (fopt CArena (cx_arena cx))"
      using sol_seed [OF sol] eq bound by simp_all
    show ?thesis
    proof (cases "cx_state cx = NoState")
      case True
      then show ?thesis using x(1) seeds yz False 1(3,6) by (simp add: residency_body_def)
    next
      case state: False
      obtain r' bits d paging a where i: "need f1 ''routes'' is_CRoutes un_routes = Inr r'"
        "maybe f1 ''atom_bits'' is_CBits un_bits = Inr bits" "need f1 ''d_v'' is_CNat un_nat = Inr d"
        "need f1 ''paging'' is_CBool un_bool = Inr paging" "need f1 ''arm'' is_CArm un_arm = Inr a"
        and k: "(case kernel_entry (ce_platform env) (call_routes_of r') bits d paging (arm_bc a) (cw_state w1) of
              (Inl e, s) \<Rightarrow> (Inl e, w1\<lparr>cw_state := s\<rparr>)
            | (Inr (plane, arena), s) \<Rightarrow> (Inr (FTuple [fopt CPages plane, fopt CArena arena]), w1\<lparr>cw_state := s\<rparr>)) = (Inr x, w2)"
        using x(1) seeds(1) state
        by (auto simp: residency_body_def rbind_Inr_iff simp del: need_Inr split: sum.splits)
      have "r' = r" using need_mono [OF i(1) 1(1), of CRoutes] sol_seed(1) [OF sol] r by (simp add: fopt_def)
      moreover have "d = last (tn_shape v)" using need_mono [OF i(3) 1(1), of CNat] sol_topology(2) [OF sol r v] by simp
      moreover have "paging_preference (cx_expert cx) = Inr paging"
        using need_mono [OF i(4) 1(1), of CBool] sol_paging [OF sol] by auto
      moreover have "f ''arm'' = Some (FVal (CArm a))" using need_mono [OF i(5) 1(1), of CArm] by simp
      moreover have "f ''atom_bits'' = Some (fopt CBits bits)" using maybe_mono [OF i(2) 1(1), of CBits] by simp
      ultimately show ?thesis using k yz state False 1(3,6) by (auto split: prod.splits sum.splits)
    qed
  qed
qed

lemma fopt_inject [simp]: "fopt CPages a = fopt CPages b \<longleftrightarrow> a = b" "fopt CTable c = fopt CTable d \<longleftrightarrow> c = d"
  "fopt CBits x = fopt CBits y \<longleftrightarrow> x = y" "fopt mk z = FNone \<longleftrightarrow> z = None"
  by (auto simp: fopt_def split: option.splits)

lemma build_plan_run:
  assumes "build_chunk_plan env cx memo w = (Inr p, memo', w')" "cx_supplied cx = []"
  obtains f where "run (chunk_nodes env) (chunk_seeds cx) memo w = (Inr f, memo', w')" "f ''plan'' = Some (FVal (CPlan p))"
    "validate_chunk_context env cx = Inr ()"
proof -
  have v: "validate_chunk_context env cx = Inr ()"
    using assms(1) by (cases "validate_chunk_context env cx") (auto simp: build_chunk_plan_def)
  obtain q m1 w1 where q: "run (chunk_nodes env) (chunk_seeds cx) memo w = (q, m1, w1)" by (metis prod.collapse)
  show thesis
  proof (cases q)
    case (Inl e)
    then show ?thesis using assms v q by (simp add: build_chunk_plan_def CHUNK_DAG_nodes)
  next
    case (Inr f)
    then have "plan_of f = Inr p" "m1 = memo'" "w1 = w'"
      using assms v q by (simp_all add: build_chunk_plan_def CHUNK_DAG_nodes)
    then show ?thesis using that [of f] q Inr v by (auto simp: plan_of_def split: option.splits fact.splits chunk_value.splits)
  qed
qed

text \<open>What the plan's state facts must be for a call that was handed a state object.\<close>

definition plan_of_state :: "'a chunk_env \<Rightarrow> chunk_context \<Rightarrow> chunk_routes \<Rightarrow> tensor \<Rightarrow> rola_state \<Rightarrow> chunk_plan \<Rightarrow> rola_state \<Rightarrow> bool" where
  "plan_of_state env cx r v s p s' \<longleftrightarrow>
     (\<exists>paging arena. paging_preference (cx_expert cx) = Inr paging
        \<and> kernel_entry (ce_platform env) (call_routes_of r) (cp_atom_bits p) (cp_d_v p) paging (arm_bc (cp_arm p)) s
          = (Inr (cp_state_in p, arena), s')
        \<and> cp_page_table p = map_option ar_table arena
        \<and> cp_state_out p = (if \<not> cx_want_state cx then None else case arena of Some a \<Rightarrow> Some (arena_plane a)
             | None \<Rightarrow> Some (case cp_state_in p of Some q \<Rightarrow> q | None \<Rightarrow> zero_plane r (cp_d_v p))))"

text \<open>
  C10 (chunkplan): A plan, when the chunk recipe returns one, is what its arguments determine: the
  routing's widths, the value's width, the arm the rule picks from the census, and the run table of
  exactly the state planes and page table the launch is given. A stateless call plans no state and
  leaves the state object alone; a call with a state ran its kernel entry once, on the written atoms
  of this call, and launches on the plane and table that entry returned.
\<close>

theorem chunk_plan_correct:
  assumes "build_chunk_plan env cx memo w = (Inr p, memo', w')" "cx_supplied cx = []"
    "cx_routes cx = Some r" "cx_v cx = Some v"
  shows "cp_routes p = r \<and> cp_widths p = topology_widths (cr_topology r) \<and> cp_d_v p = last (tn_shape v)
     \<and> arm_rule (cp_widths p) (chunk_arms (ce_census env)) = Inr (Some (cp_arm p))
     \<and> cp_run_table p = run_table (cp_state_in p \<noteq> None) (cp_state_out p \<noteq> None) (cp_page_table p \<noteq> None)
     \<and> (if stateless cx then cp_state_in p = None \<and> cp_state_out p = None \<and> cp_page_table p = None \<and> cw_state w' = cw_state w
        else if cx_state cx = NoState then cp_state_in p = cx_state_in cx \<and> cw_state w' = cw_state w
        else plan_of_state env cx r v (cw_state w) p (cw_state w'))"
proof -
  obtain f where run: "run (chunk_nodes env) (chunk_seeds cx) memo w = (Inr f, memo', w')" and plan: "f ''plan'' = Some (FVal (CPlan p))"
    using build_plan_run [OF assms(1,2)] by blast
  note sol = chunk_run_solution [OF run]
  note fields = sol_plan [OF sol plan]
  have routes: "cp_routes p = r" using fields(4) sol_seed(1) [OF sol] assms(3) by (simp add: fopt_def)
  have widths: "cp_widths p = topology_widths (cr_topology r)"
    using fields(2) sol_topology(1) [OF sol assms(3,4)] by (simp add: topology_widths_def)
  have d_v: "cp_d_v p = last (tn_shape v)" using fields(3) sol_topology(2) [OF sol assms(3,4)] by simp
  have arm: "arm_rule (cp_widths p) (chunk_arms (ce_census env)) = Inr (Some (cp_arm p))"
    using sol_arm [OF sol assms(3,4)] fields(1) widths
    by (auto simp: topology_widths_def fopt_def split: option.splits)
  have rt: "cp_run_table p = run_table (cp_state_in p \<noteq> None) (cp_state_out p \<noteq> None) (cp_page_table p \<noteq> None)"
    using sol_run_table [OF sol] fields(6,7,9,10) by auto
  obtain arena where b0: "f ''arena'' = Some (fopt CArena arena)" "f ''page_table'' = Some (fopt CTable (map_option ar_table arena))"
    "f ''state_out'' = Some (if \<not> cx_want_state cx then FNone else case arena of Some a \<Rightarrow> FVal (CPages (arena_plane a))
          | None \<Rightarrow> (case f ''state_in'' of Some (FVal (CPages q)) \<Rightarrow> FVal (CPages q)
              | _ \<Rightarrow> FVal (CPages (zero_plane r (last (tn_shape v))))))"
    using sol_backing [OF sol assms(3,4)] by blast
  have b: "f ''arena'' = Some (fopt CArena arena)" "cp_page_table p = map_option ar_table arena"
    using b0(1,2) fields(7) by simp_all
  have si: "(case f ''state_in'' of Some (FVal (CPages q)) \<Rightarrow> FVal (CPages q)
      | _ \<Rightarrow> FVal (CPages (zero_plane r (last (tn_shape v)))))
    = FVal (CPages (case cp_state_in p of Some q \<Rightarrow> q | None \<Rightarrow> zero_plane r (cp_d_v p)))"
    unfolding fields(9) by (simp add: fopt_def d_v split: option.split)
  have so: "fopt CPages (cp_state_out p) = (if \<not> cx_want_state cx then FNone else case arena of Some a \<Rightarrow> FVal (CPages (arena_plane a))
          | None \<Rightarrow> FVal (CPages (case cp_state_in p of Some q \<Rightarrow> q | None \<Rightarrow> zero_plane r (cp_d_v p))))"
    using b0(3) fields(10) unfolding si by simp
  have so': "cp_state_out p = (if \<not> cx_want_state cx then None else case arena of Some a \<Rightarrow> Some (arena_plane a)
          | None \<Rightarrow> Some (case cp_state_in p of Some q \<Rightarrow> q | None \<Rightarrow> zero_plane r (cp_d_v p)))"
    using so by (auto simp: fopt_def split: option.splits if_splits)
  note res = sol_residency [OF run assms(3,4)]
  have "if stateless cx then cp_state_in p = None \<and> cp_state_out p = None \<and> cp_page_table p = None \<and> cw_state w' = cw_state w
        else if cx_state cx = NoState then cp_state_in p = cx_state_in cx \<and> cw_state w' = cw_state w
        else plan_of_state env cx r v (cw_state w) p (cw_state w')"
  proof (cases "stateless cx")
    case True
    then show ?thesis using res fields(9) b so' by (auto simp: stateless_def fopt_def split: option.splits)
  next
    case False
    show ?thesis
    proof (cases "cx_state cx = NoState")
      case True
      then show ?thesis using res fields(9) False by simp
    next
      case state: False
      then obtain bits paging a plane arena' where k: "f ''atom_bits'' = Some (fopt CBits bits)"
        "paging_preference (cx_expert cx) = Inr paging" "f ''arm'' = Some (FVal (CArm a))" "f ''state_in'' = Some (fopt CPages plane)"
        "f ''arena'' = Some (fopt CArena arena')"
        "kernel_entry (ce_platform env) (call_routes_of r) bits (last (tn_shape v)) paging (arm_bc a) (cw_state w)
         = (Inr (plane, arena'), cw_state w')" using res False by auto
      have "bits = cp_atom_bits p" "a = cp_arm p" "plane = cp_state_in p" "arena' = arena"
        using k(1,3,4,5) fields(1,8,9) b(1) by (auto simp: fopt_def split: option.splits)
      then show ?thesis using k(2,6) d_v b(2) so' False state by (auto simp: plan_of_state_def)
    qed
  qed
  then show ?thesis using routes widths d_v arm rt by blast
qed

text \<open>A one-token bundle of views of one plane, its value, and a fresh state with the dense backing.\<close>

definition chunk_tensor :: "nat \<Rightarrow> nat \<Rightarrow> nat list \<Rightarrow> nat list \<Rightarrow> tensor" where
  "chunk_tensor ptr off shape strides = \<lparr>tn_ptr = ptr, tn_off = off, tn_shape = shape, tn_stride = strides, tn_dtype = BF16,
     tn_device = ''cuda:0'', tn_grad = False\<rparr>"

definition demo_side_levels :: "tensor list" where
  "demo_side_levels = [chunk_tensor 0 0 [1, 1, 1, 16] [32, 32, 32, 1], chunk_tensor 0 16 [1, 1, 1, 16] [32, 32, 32, 1]]"

definition demo_bundle :: chunk_routes where
  "demo_bundle = \<lparr>cr_topology = [TiedLevel 16 Softmax, TiedLevel 16 Softmax], cr_read = demo_side_levels, cr_write = demo_side_levels,
     cr_g_write = Some (chunk_tensor 1 0 [1, 1, 1] [1, 1, 1]), cr_read_mass = None\<rparr>"

definition demo_env :: "nat chunk_env" where
  "demo_env = \<lparr>ce_census = [((32, 128, 2, 16), [])], ce_grad_enabled = True,
     ce_platform = \<lparr>pf_vmm_supported = False, pf_granularity = 1, pf_fmul = (\<lambda>r n. r * of_nat n), pf_memory = (\<lambda>s i. 7)\<rparr>,
     ce_narrow = (\<lambda>_ _ x. x), ce_junk = (\<lambda>_. []),
     ce_facts = (\<lambda>rp wp a ws m atoms h. (Inr (rp, if atoms then Some (replicate 16 3) else None), h)),
     ce_block_bits = (\<lambda>u bc ws t pt h. (Inr u, h))\<rparr>"

definition demo_cx :: "state_arg \<Rightarrow> chunk_context" where
  "demo_cx st = \<lparr>cx_routes = Some demo_bundle, cx_v = Some (chunk_tensor 2 0 [1, 1, 1, 64] [64, 64, 64, 1]), cx_decay = None,
     cx_state = st, cx_expert = Expert (PlanOverrides (PyBool False)), cx_state_in = None, cx_arena = None,
     cx_want_state = False, cx_supplied = []\<rparr>"

definition demo_world :: "nat chunk_world" where
  "demo_world = \<lparr>cw_heap = [replicate 32 0, [1], replicate 64 5],      cw_state = \<lparr>rs_strategy = BUILT_STRATEGY, rs_slack = 0, rs_shape = None, rs_device = None,
                rs_paging = True, rs_arena = None, rs_plane = None, rs_format = None\<rparr>, cw_joined = False\<rparr>"

theorem chunk_plan_correct_witness:
  "(\<exists>p memo' w'. build_chunk_plan demo_env (demo_cx IsState) [] demo_world = (Inr p, memo', w') \<and> cp_d_v p = 64
      \<and> plan_of_state demo_env (demo_cx IsState) demo_bundle (chunk_tensor 2 0 [1, 1, 1, 64] [64, 64, 64, 1])
          (cw_state demo_world) p (cw_state w'))
   \<and> (\<exists>p memo' w'. build_chunk_plan demo_env (demo_cx NoState) [] demo_world = (Inr p, memo', w')
      \<and> cp_state_in p = None \<and> cw_state w' = cw_state demo_world)"
proof -
  have ok: "is_ok (fst (build_chunk_plan demo_env (demo_cx IsState) [] demo_world))"
    "is_ok (fst (build_chunk_plan demo_env (demo_cx NoState) [] demo_world))" by code_simp+
  have eq: "cx_supplied (demo_cx st) = []" "cx_routes (demo_cx st) = Some demo_bundle"
    "cx_v (demo_cx st) = Some (chunk_tensor 2 0 [1, 1, 1, 64] [64, 64, 64, 1])" "cx_state (demo_cx st) = st"
    "stateless (demo_cx st) \<longleftrightarrow> st = NoState" for st
    by (auto simp: demo_cx_def stateless_def)
  obtain p m w p' m' w' where r: "build_chunk_plan demo_env (demo_cx IsState) [] demo_world = (Inr p, m, w)"
    "build_chunk_plan demo_env (demo_cx NoState) [] demo_world = (Inr p', m', w')"
    using ok unfolding is_ok_iff by (metis prod.collapse)
  note c = chunk_plan_correct [OF r(1) eq(1-3)] chunk_plan_correct [OF r(2) eq(1-3)]
  show ?thesis using c r by (simp add: eq) (simp add: chunk_tensor_def)
qed

theorem chunk_walk_complete_witness:
  "\<exists>dag. CHUNK_DAG demo_env = Inr dag \<and> length dag = 15 \<and>
     (case run dag (chunk_seeds (demo_cx IsState)) [] demo_world of
        (Inr f, memo', w') \<Rightarrow> dom f = dom (chunk_seeds (demo_cx IsState)) \<union> gives_of dag
      | (Inl e, memo', w') \<Rightarrow> \<exists>s\<in>set dag. \<exists>bag. set (n_needs s) \<subseteq> dom bag \<and> own_error s bag e)"
  by (rule chunk_walk_complete) (simp add: chunk_seeds_dom)

section \<open>Supplied facts\<close>

definition PLANES :: "string list" where "PLANES = [''read_plane'', ''write_plane'', ''g_write'', ''read_mass'']"

text \<open>
  A caller that supplies all four packed planes gets a walk that launches on exactly
  those: no node overwrites them.
\<close>

theorem supplied_planes_kept:
  assumes "CHUNK_DAG env = Inr dag" "run dag facts memo w = (Inr f, memo', w')" "set PLANES \<subseteq> dom facts" "x \<in> set PLANES"
  shows "f x = facts x"
proof -
  have dag: "dag = chunk_nodes env" using assms(1) by (simp add: CHUNK_DAG_nodes)
  have "\<forall>s\<in>set (chunk_nodes env). x \<in> set (n_gives s) \<longrightarrow> set (n_gives s) \<subseteq> set PLANES"
    using assms(4) unfolding PLANES_def
    by (simp add: chunk_nodes_defs chunk_node_defs node_declare_def rule_declare_def) auto
  then show ?thesis using run_kept [OF assms(2)] assms(3,4) unfolding dag by blast
qed

definition supplied_cx :: "(string \<times> chunk_value fact) list \<Rightarrow> chunk_context" where
  "supplied_cx s = (demo_cx NoState)\<lparr>cx_supplied := s\<rparr>"

definition other_plane :: tensor where "other_plane = chunk_tensor 7 0 [1, 1, 1, 32] [32, 32, 32, 1]"

definition all_planes :: "(string \<times> chunk_value fact) list" where
  "all_planes = [(''read_plane'', FVal (CTensor other_plane)), (''write_plane'', FVal (CTensor other_plane)),
     (''g_write'', FVal (CTensor other_plane)), (''read_mass'', FNone)]"

theorem supplied_planes_kept_witness:
  "\<exists>dag f m w'. CHUNK_DAG demo_env = Inr dag
     \<and> run dag (chunk_seeds (supplied_cx all_planes) ++ map_of all_planes) [] demo_world = (Inr f, m, w')
     \<and> f ''read_plane'' = Some (FVal (CTensor other_plane))"
proof -
  obtain dag where dag: "CHUNK_DAG demo_env = Inr dag" using CHUNK_DAG_nodes by blast
  have "is_ok (fst (case CHUNK_DAG demo_env of Inr dag \<Rightarrow>
      run dag (chunk_seeds (supplied_cx all_planes) ++ map_of all_planes) [] demo_world | Inl e \<Rightarrow> (Inl e, [], demo_world)))"
    by code_simp
  then obtain f m w' where run: "run dag (chunk_seeds (supplied_cx all_planes) ++ map_of all_planes) [] demo_world = (Inr f, m, w')"
    unfolding dag is_ok_iff by (metis old.sum.simps(6) prod.collapse)
  have b: "(chunk_seeds (supplied_cx all_planes) ++ map_of all_planes) ''read_plane'' = Some (FVal (CTensor other_plane))"
    by (simp add: all_planes_def)
  have "set PLANES \<subseteq> dom (chunk_seeds (supplied_cx all_planes) ++ map_of all_planes)"
    by (auto simp: PLANES_def all_planes_def)
  then have "f ''read_plane'' = Some (FVal (CTensor other_plane))"
    using supplied_planes_kept [OF dag run, of "''read_plane''"] b by (simp add: PLANES_def)
  then show ?thesis using dag run by blast
qed

definition cpu_bundle :: chunk_routes where
  "cpu_bundle = demo_bundle\<lparr>cr_read := map (\<lambda>t. t\<lparr>tn_device := ''cpu''\<rparr>) demo_side_levels\<rparr>"

definition planned :: "(chunk_plan \<Rightarrow> bool) \<Rightarrow> chunk_context \<Rightarrow> bool" where
  "planned P cx = (case fst (build_chunk_plan demo_env cx [] demo_world) of Inr p \<Rightarrow> P p | Inl _ \<Rightarrow> False)"

text \<open>
  A context may supply one plane alone: it is accepted, and the supplied plane is
  then packed over, because the node is skipped only when all its facts are there. A supplied
  bundle is not looked at either: the checks read the context's own, and the plan launches a
  bundle on another device that the same checks refuse.
\<close>

theorem partial_supply_overwritten:
  "planned (\<lambda>p. cp_read_plane p \<noteq> other_plane) (supplied_cx [(''read_plane'', FVal (CTensor other_plane))])
   \<and> planned (\<lambda>p. rf_device (factors_of (cp_routes p)) = ''cpu'') (supplied_cx [(''routes'', FVal (CRoutes cpu_bundle))])
   \<and> validate_chunk_context demo_env ((demo_cx NoState)\<lparr>cx_routes := Some cpu_bundle\<rparr>) = Inl (ValueError ''v is on another device'')"
  by (intro conjI; code_simp)

end
