(* ===== verification/Rola_Padding.thy ===== *)
theory Rola_Padding
  imports Rola_Topology Rola_Radix
begin

text \<open>
  The host-side padding of \<^verbatim>\<open>rola/ops/padding.py\<close>: the padded shape of a call, the value width an
  op serves it with, and the zero columns a level and a value are widened by. A tensor
  \<^verbatim>\<open>[..., w]\<close> is its last extent and its rows.
\<close>

record 'a block =
  bl_width :: nat
  bl_rows :: "'a list list"

record padded_shape =
  ps_widths :: "nat list"
  ps_padded_widths :: "nat list"
  ps_d_v :: nat
  ps_DV :: nat

fun padded_value_width :: "nat list \<Rightarrow> nat \<Rightarrow> nat res" where
  "padded_value_width [] d_v = Inl (ValueError ''exceeds every shipped value width'')"
| "padded_value_width (w # shipped) d_v = (if d_v \<le> w then Inr w else padded_value_width shipped d_v)"

definition padded_shape_of :: "nat list \<Rightarrow> nat \<Rightarrow> nat list \<Rightarrow> padded_shape res" where
  "padded_shape_of widths d_v shipped_dv =
     rbind (rmap (\<lambda>w. padded_level_width PADDED_LEVEL_FLOOR (PyInt (int w))) widths) (\<lambda>padded.
     rbind (padded_value_width shipped_dv d_v) (\<lambda>DV.
       Inr \<lparr>ps_widths = widths, ps_padded_widths = padded, ps_d_v = d_v, ps_DV = DV\<rparr>))"

definition shape_is_padded :: "padded_shape \<Rightarrow> bool" where
  "shape_is_padded s \<longleftrightarrow> ps_widths s = ps_padded_widths s \<and> ps_d_v s = ps_DV s"

definition pad_last_dim :: "'a :: zero block \<Rightarrow> nat \<Rightarrow> 'a block res" where
  "pad_last_dim t width =
     (if bl_width t = width then Inr t
      else if bl_width t > width then Inl (ValueError ''padding only ever widens'')
      else Inr \<lparr>bl_width = width, bl_rows = map (\<lambda>r. r @ replicate (width - bl_width t) 0) (bl_rows t)\<rparr>)"

definition pad_routes :: "'a :: zero block list \<Rightarrow> nat list \<Rightarrow> 'a block list res" where
  "pad_routes levels padded_widths =
     (if length levels \<noteq> length padded_widths then Inl (ValueError ''one padded width per level is required'')
      else rmap (\<lambda>(l, w). pad_last_dim l w) (zip levels padded_widths))"

definition pad_v :: "'a :: zero block \<Rightarrow> nat \<Rightarrow> 'a block res" where
  "pad_v v DV = pad_last_dim v DV"

definition slice_y :: "'a block \<Rightarrow> nat \<Rightarrow> 'a block" where
  "slice_y y d_v = \<lparr>bl_width = min d_v (bl_width y), bl_rows = map (take d_v) (bl_rows y)\<rparr>"

section \<open>What padding does\<close>

definition wf_block :: "'a block \<Rightarrow> bool" where
  "wf_block b \<longleftrightarrow> (\<forall>r\<in>set (bl_rows b). length r = bl_width b)"

definition widened :: "'a :: zero block \<Rightarrow> nat \<Rightarrow> 'a block" where
  "widened b w = \<lparr>bl_width = w, bl_rows = map (\<lambda>r. r @ replicate (w - bl_width b) 0) (bl_rows b)\<rparr>"

lemma pad_last_dim_widened:
  "wf_block b \<Longrightarrow> bl_width b \<le> w \<Longrightarrow> pad_last_dim b w = Inr (widened b w)"
  by (cases b) (auto simp: pad_last_dim_def widened_def wf_block_def)

lemma pad_routes_widened:
  assumes "list_all2 (\<lambda>b w. wf_block b \<and> bl_width b \<le> w) levels ws"
  shows "pad_routes levels ws = Inr (map2 widened levels ws)"
proof -
  have "rmap (\<lambda>(l, w). pad_last_dim l w) (zip levels ws) = Inr (map (\<lambda>(l, w). widened l w) (zip levels ws))"
    using assms by (intro rmap_all) (auto simp: list_all2_iff pad_last_dim_widened)
  then show ?thesis using list_all2_lengthD [OF assms] by (simp add: pad_routes_def)
qed

text \<open>The amplitude of a leaf: the product of the digits' entries, one row per level.\<close>

definition leaf_amplitude :: "'a :: comm_semiring_1 list list \<Rightarrow> nat list \<Rightarrow> 'a" where
  "leaf_amplitude rows ds = prod_list (map2 (!) rows ds)"

lemma leaf_amplitude_padded:
  assumes "list_all2 (\<lambda>r w. length r \<le> w) rows ws" "in_digits ws ds"
  shows "leaf_amplitude (map2 (\<lambda>r w. r @ replicate (w - length r) 0) rows ws) ds
    = (if in_digits (map length rows) ds then leaf_amplitude rows ds else 0)"
  using assms
proof (induction rows arbitrary: ws ds)
  case (Cons r rows)
  then obtain w ws' where ws: "ws = w # ws'" "length r \<le> w" "list_all2 (\<lambda>r w. length r \<le> w) rows ws'"
    by (auto simp: list_all2_Cons1)
  then obtain d ds' where ds: "ds = d # ds'" "d < w" "in_digits ws' ds'" using Cons.prems(2) by auto
  have "(r @ replicate (w - length r) 0) ! d = (if d < length r then r ! d else 0)"
    using ds(2) by (simp add: nth_append)
  then show ?case using Cons.IH [OF ws(3) ds(3)] by (simp add: leaf_amplitude_def ws ds)
qed (simp add: leaf_amplitude_def)

lemma digits_bij: "bij_betw (digits ws) {..<prod_list ws} {ds. in_digits ws ds}"
proof (rule bij_betw_byWitness [of _ "undigits ws"])
  have "\<forall>w\<in>set ws. 0 < w" if "s < prod_list ws" for s
  proof -
    have "0 \<notin> set ws" using that prod_list_zero_iff [of ws] by auto
    then show ?thesis by (metis gr0I)
  qed
  then show "digits ws ` {..<prod_list ws} \<subseteq> {ds. in_digits ws ds}" using in_digits_digits by blast
qed (auto simp: undigits_less digits_undigits)

lemma sum_leaves: "(\<Sum>s<prod_list ws. f (digits ws s)) = sum f {ds. in_digits ws ds}"
  by (rule sum.reindex_bij_betw [OF digits_bij])

lemma finite_digits: "finite {ds. in_digits ws ds}"
  using bij_betw_finite [OF digits_bij [of ws]] by simp

lemma in_digits_mono: "list_all2 (\<le>) vs ws \<Longrightarrow> in_digits vs ds \<Longrightarrow> in_digits ws ds"
  by (auto simp: in_digits_def list_all2_conv_all_nth) (metis less_le_trans)

text \<open>
  Padding the levels of a token never changes what is read. A padded leaf that is not
  a logical one has amplitude zero and a logical one keeps its amplitude, so every weighted sum over
  the padded leaf space is the sum over the logical one, at the digits' own addresses.
\<close>

theorem padding_preserves_sums:
  fixes rows :: "'a :: comm_semiring_1 list list" and weight :: "nat list \<Rightarrow> 'a"
  assumes "list_all2 (\<lambda>r w. length r \<le> w) rows ws"
  shows "\<exists>padded. pad_routes (map (\<lambda>r. \<lparr>bl_width = length r, bl_rows = [r]\<rparr>) rows) ws = Inr padded
     \<and> (\<Sum>s<prod_list ws. leaf_amplitude (map (\<lambda>b. hd (bl_rows b)) padded) (digits ws s) * weight (digits ws s))
       = (\<Sum>s<prod_list (map length rows). leaf_amplitude rows (digits (map length rows) s) * weight (digits (map length rows) s))"
proof -
  let ?b = "\<lambda>r. \<lparr>bl_width = length r, bl_rows = [r :: 'a list]\<rparr>"
  let ?p = "map2 (\<lambda>r w. r @ replicate (w - length r) 0) rows ws"
  have len: "length rows = length ws" using assms by (rule list_all2_lengthD)
  have "pad_routes (map ?b rows) ws = Inr (map2 widened (map ?b rows) ws)"
    using assms by (intro pad_routes_widened) (auto simp: list_all2_conv_all_nth wf_block_def)
  moreover have "map (\<lambda>b. hd (bl_rows b)) (map2 widened (map ?b rows) ws) = ?p"
    using len by (intro nth_equalityI) (simp_all add: widened_def)
  moreover have "(\<Sum>s<prod_list ws. leaf_amplitude ?p (digits ws s) * weight (digits ws s))
      = (\<Sum>s<prod_list (map length rows). leaf_amplitude rows (digits (map length rows) s) * weight (digits (map length rows) s))"
  proof -
    have sub: "{ds. in_digits (map length rows) ds} \<subseteq> {ds. in_digits ws ds}"
      using assms in_digits_mono [of "map length rows" ws] by (auto simp: list_all2_map1)
    have "(\<Sum>s<prod_list ws. leaf_amplitude ?p (digits ws s) * weight (digits ws s))
        = (\<Sum>ds | in_digits ws ds. leaf_amplitude ?p ds * weight ds)"
      by (rule sum_leaves [of "\<lambda>ds. leaf_amplitude ?p ds * weight ds"])
    also have "\<dots> = (\<Sum>ds | in_digits ws ds. if in_digits (map length rows) ds then leaf_amplitude rows ds * weight ds else 0)"
      using leaf_amplitude_padded [OF assms] by (intro sum.cong) auto
    also have "\<dots> = (\<Sum>ds | in_digits (map length rows) ds. leaf_amplitude rows ds * weight ds)"
      using sub finite_digits by (subst sum.inter_filter [symmetric]) (auto intro!: sum.cong)
    also have "\<dots> = (\<Sum>s<prod_list (map length rows). leaf_amplitude rows (digits (map length rows) s) * weight (digits (map length rows) s))"
      by (rule sum_leaves [symmetric])
    finally show ?thesis .
  qed
  ultimately show ?thesis by (intro exI [of _ "map2 widened (map ?b rows) ws"] conjI) (simp_all only:)
qed

theorem padding_preserves_sums_witness:
  "\<exists>padded. pad_routes (map (\<lambda>r. \<lparr>bl_width = length r, bl_rows = [r]\<rparr>) [[1, 2, 3], [4, 5 :: int]]) [4, 4] = Inr padded
     \<and> (\<Sum>s<prod_list [4, 4]. leaf_amplitude (map (\<lambda>b. hd (bl_rows b)) padded) (digits [4, 4] s) * 7)
       = (\<Sum>s<prod_list (map length [[1, 2, 3], [4, 5 :: int]]).
            leaf_amplitude [[1, 2, 3], [4, 5]] (digits (map length [[1, 2, 3], [4, 5 :: int]]) s) * 7)"
  by (rule padding_preserves_sums) simp

lemma padded_value_width_iff:
  assumes "sorted shipped"
  shows "padded_value_width shipped d_v = Inr w \<longleftrightarrow> w \<in> set shipped \<and> d_v \<le> w \<and> (\<forall>u\<in>set shipped. d_v \<le> u \<longrightarrow> w \<le> u)"
  using assms by (induction shipped) (auto simp: dest: order_antisym)

lemma padded_value_width_refuses: "padded_value_width shipped d_v = Inl e \<Longrightarrow> \<forall>u\<in>set shipped. u < d_v"
  by (induction shipped) (auto split: if_splits)

text \<open>
  A value width within the shipped ones is served by the least shipped width at or
  above it, on the sorted shipped list; the value padded to it and the result sliced back are the
  caller's, and a width past the largest shipped one is refused.
\<close>

theorem value_padding_roundtrip:
  assumes "sorted shipped" "wf_block v"
  shows "case padded_value_width shipped (bl_width v) of
      Inl e \<Rightarrow> \<forall>u\<in>set shipped. u < bl_width v
    | Inr DV \<Rightarrow> DV \<in> set shipped \<and> bl_width v \<le> DV \<and> (\<forall>u\<in>set shipped. bl_width v \<le> u \<longrightarrow> DV \<le> u)
        \<and> (\<exists>p. pad_v v DV = Inr p \<and> wf_block p \<and> bl_width p = DV \<and> slice_y p (bl_width v) = v)"
proof (cases "padded_value_width shipped (bl_width v)")
  case (Inl e)
  then show ?thesis using padded_value_width_refuses by fastforce
next
  case (Inr DV)
  then have DV: "DV \<in> set shipped" "bl_width v \<le> DV" "\<forall>u\<in>set shipped. bl_width v \<le> u \<longrightarrow> DV \<le> u"
    using padded_value_width_iff [OF assms(1)] by blast+
  have "pad_v v DV = Inr (widened v DV)" unfolding pad_v_def by (rule pad_last_dim_widened [OF assms(2) DV(2)])
  moreover have "wf_block (widened v DV)" using assms(2) DV(2) by (auto simp: wf_block_def widened_def)
  moreover have "slice_y (widened v DV) (bl_width v) = v"
    using assms(2) DV(2) by (cases v) (auto simp: slice_y_def widened_def wf_block_def intro!: map_idI)
  ultimately show ?thesis using Inr DV by (simp add: widened_def)
qed

theorem value_padding_roundtrip_witness:
  "padded_value_width [32, 64, 128] 48 = Inr 64
   \<and> (\<exists>p. pad_v \<lparr>bl_width = 3, bl_rows = [[1, 2, 3 :: int]]\<rparr> 4 = Inr p \<and> slice_y p 3 = \<lparr>bl_width = 3, bl_rows = [[1, 2, 3]]\<rparr>)"
  using value_padding_roundtrip [of "[2, 4, 8]" "\<lparr>bl_width = 3, bl_rows = [[1, 2, 3 :: int]]\<rparr>"]
  by (simp add: wf_block_def) blast

end
