(* ===== verification/Rola_Decode.thy ===== *)
theory Rola_Decode
  imports Rola_Chunk Rola_Padding
begin

text \<open>
  The one-token decode family's bodies (\<^verbatim>\<open>rola/ops/decode.py\<close>): the frozen geometry, the split
  over CTAs, the scratch of a sequence, the agreement checks of a step, the decay dials the step
  reads, the independent write-atom derivation of the gates, and the raw-tensor step. The binary's
  arm census and residency, the device's SM count, the rounding to fp32 and the step kernel itself
  are the environment.
\<close>

section \<open>Geometry\<close>

record decode_geometry =
  dg_D :: nat
  dg_widths :: "nat list"
  dg_row_offset :: "nat list"
  dg_k :: nat
  dg_m :: nat
  dg_d_v :: nat
  dg_has_decay :: bool
  dg_eps :: rat
  dg_n_split :: nat

definition geometry_N :: "decode_geometry \<Rightarrow> nat" where "geometry_N g = prod_list (dg_widths g)"
definition geometry_cols :: "decode_geometry \<Rightarrow> nat" where "geometry_cols g = dg_d_v g + 1"

type_synonym decode_arm = "nat \<times> nat \<times> bool"

definition C_DECODE_UNITS_PER_CTA :: nat where "C_DECODE_UNITS_PER_CTA = 16"

definition shipped_decode_dv :: "decode_arm list \<Rightarrow> nat \<Rightarrow> bool \<Rightarrow> nat list res" where
  "shipped_decode_dv arms D decay =
     (let dvs = sorted_list_of_set (set (map fst (filter (\<lambda>(dv, d, dec). d = D \<and> dec = decay) arms)))
      in if dvs = [] then Inl (ValueError ''no shipped decode arm'') else Inr dvs)"

definition decode_admit :: "nat list \<Rightarrow> unit res" where
  "decode_admit widths =
     rbind (make_format \<lparr>sf_D = length widths, sf_B = widths, sf_order = CANONICAL_ORDER,
       sf_page_bits = PAGE_RECTANGLE_BITS, sf_DV = 2, sf_dtype = SPLIT_PLANE_DTYPE, sf_ids = 1\<rparr>) (\<lambda>_. Inr ())"

text \<open>
  CTAs per batch-head. \<open>resid\<close> is what the extension reports for the arm; the float ceiling of
  the source is exact on its operands.
\<close>

definition derive_n_split :: "nat \<Rightarrow> (bool \<Rightarrow> nat \<Rightarrow> nat) \<Rightarrow> nat list \<Rightarrow> nat \<Rightarrow> nat \<Rightarrow> bool \<Rightarrow> nat \<Rightarrow> string \<Rightarrow> nat res" where
  "derive_n_split sms resid widths k m decay BH dev =
     rbind (box_shape widths k m) (\<lambda>(_, spans, _, _, _).
       let unit_ceiling = prod_list widths div last spans in
       if device_type_of dev \<noteq> CudaDevice then Inr 1
       else
         let wave = max 1 (sms * resid decay (length widths) div max 1 BH);
             supply = max 1 (ceil_div unit_ceiling C_DECODE_UNITS_PER_CTA)
         in Inr (min supply wave))"

record decode_binary =
  db_arms :: "decode_arm list"
  db_sms :: nat
  db_residency :: "bool \<Rightarrow> nat \<Rightarrow> nat"

definition derive_decode_geometry ::
    "decode_binary \<Rightarrow> nat list \<Rightarrow> nat \<Rightarrow> bool \<Rightarrow> nat \<Rightarrow> string \<Rightarrow> rat \<Rightarrow> nat option \<Rightarrow> decode_geometry res" where
  "derive_decode_geometry bin widths d_v decay BH dev eps n_split =
     rbind (decode_admit widths) (\<lambda>_.
     rbind (shipped_decode_dv (db_arms bin) (length widths) decay) (\<lambda>shipped.
     rbind (padded_value_width shipped d_v) (\<lambda>DV.
     rbind (derive_lattice widths) (\<lambda>(k, m).
       rbind (case n_split of Some n \<Rightarrow> Inr n
              | None \<Rightarrow> derive_n_split (db_sms bin) (db_residency bin) widths k m decay BH dev) (\<lambda>n.
         Inr \<lparr>dg_D = length widths, dg_widths = widths, dg_row_offset = butlast (running_offsets widths),
              dg_k = k, dg_m = m, dg_d_v = DV, dg_has_decay = decay, dg_eps = eps, dg_n_split = n\<rparr>)))))"

section \<open>Scratch\<close>

text \<open>The buffers of a sequence: \<open>junk\<close> is what the uninitialised ones hold.\<close>

record decode_scratch =
  sc_ws :: "nat list"
  sc_ctr :: "int list"
  sc_growth :: "int list"
  sc_growth_any :: int
  sc_growth_ctr :: int
  sc_growth_host :: int
  sc_done :: "int list"
  sc_atom_bits :: "bool list"

definition build_scratch :: "int \<Rightarrow> (nat \<Rightarrow> bool list) \<Rightarrow> decode_geometry \<Rightarrow> nat \<Rightarrow> decode_scratch" where
  "build_scratch junk junk_bits config BH =
     \<lparr>sc_ws = [BH, dg_n_split config, geometry_cols config], sc_ctr = replicate BH 0, sc_growth = replicate BH 0,
      sc_growth_any = 0, sc_growth_ctr = 0, sc_growth_host = junk, sc_done = replicate BH 0,
      sc_atom_bits = junk_bits (BH * (geometry_N config div MMA_K_QUANTUM))\<rparr>"

section \<open>Folding and guarding\<close>

text \<open>\<^verbatim>\<open>[B, 1, H, W] -> [B*H, W]\<close>, batch-major: the order of the rows is \<^verbatim>\<open>b * H + h\<close>.\<close>

definition decode_fold :: "'a heap \<Rightarrow> tensor \<Rightarrow> 'a list list res" where
  "decode_fold h t =
     (case tn_shape t of
        [B, T, H, W] \<Rightarrow>
          if T \<noteq> 1 then Inl (ValueError ''the decode op consumes exactly one token'')
          else Inr (map (\<lambda>bh. map (\<lambda>d. value_at h t [bh div H, 0, bh mod H, d]) [0..<W]) [0..<B * H])
      | _ \<Rightarrow> Inl (ValueError ''not enough values to unpack''))"

definition fold_levels :: "'a narrowing \<Rightarrow> 'a heap \<Rightarrow> tensor list \<Rightarrow> 'a list list list res" where
  "fold_levels narrow h levels =
     rmap (\<lambda>t. rbind (decode_fold h t) (\<lambda>rows. Inr (map (map (narrow (tn_dtype t) F32)) rows))) levels"

text \<open>Of an operand the guard asks whether it is a tensor that requires a gradient.\<close>

definition guard_no_grad :: "bool \<Rightarrow> operand list \<Rightarrow> unit res" where
  "guard_no_grad grad_enabled operands =
     (if \<not> grad_enabled then Inr ()
      else refuse (OTensor True \<in> set operands) (BackwardNotImplemented ''rola decode is forward-only''))"

section \<open>The plane of a step\<close>

text \<open>A state plane: its shape and the state object whose storage it is.\<close>

record state_view =
  sv_shape :: "nat list"
  sv_owner :: nat

text \<open>The page table by its shape, when there is one.\<close>

definition step_plane ::
    "nat list \<Rightarrow> decode_geometry \<Rightarrow> bool \<Rightarrow> state_view \<Rightarrow> nat list option \<Rightarrow> state_view res" where
  "step_plane v_shape config has_decay state table_shape =
     (case v_shape of
        [B, T, H, d_v] \<Rightarrow>
          if d_v \<noteq> dg_d_v config then Inl (ValueError ''disagrees with the frozen config'')
          else if has_decay \<noteq> dg_has_decay config then Inl (ValueError ''the config is frozen for the sequence'')
          else (case table_shape of
              None \<Rightarrow>
                if sv_shape state \<noteq> [B, H, geometry_N config, geometry_cols config]
                then Inl (ValueError ''a dense state is [B, H, N, d_v + 1]'')
                else Inr (state\<lparr>sv_shape := [B * H, geometry_N config, geometry_cols config]\<rparr>)
            | Some ts \<Rightarrow>
                if length (sv_shape state) \<noteq> 3 \<or> tl (sv_shape state) \<noteq> [MMA_K_QUANTUM, geometry_cols config]
                then Inl (ValueError ''under a page table the state is the arena plane'')
                else if ts \<noteq> [B * H, geometry_N config div MMA_K_QUANTUM]
                then Inl (ValueError ''page_table must be [BH, N / 16]'')
                else Inr state)
      | _ \<Rightarrow> Inl (ValueError ''v must be [B, 1, H, d_v]''))"

section \<open>Decay dials\<close>

text \<open>\<^verbatim>\<open>torch.cat\<close> of the rounded dials along the width: one row per head.\<close>

definition dial_row :: "dial \<Rightarrow> nat \<Rightarrow> fval list" where
  "dial_row d h = take (last (dial_shape d)) (drop (h * last (dial_shape d)) (dial_entries d))"

fun check_rounded :: "(fval \<Rightarrow> fval) \<Rightarrow> dial list \<Rightarrow> unit res" where
  "check_rounded cast [] = Inr ()"
| "check_rounded cast (d # ds) =
     (if \<exists>x\<in>set (dial_entries d). at_least_one (cast x)
      then Inl (ValueError ''round to exactly 1.0f under the fp32 cast'') else check_rounded cast ds)"

definition leaf_rate_dials :: "(fval \<Rightarrow> fval) \<Rightarrow> dial list \<Rightarrow> nat \<Rightarrow> fval list list res" where
  "leaf_rate_dials cast dials D =
     (if length dials \<noteq> D then Inl (ValueError ''decay.dials must contain one tensor per level'')
      else rbind (check_rounded cast dials) (\<lambda>_.
        Inr (map (\<lambda>h. concat (map (\<lambda>d. map cast (dial_row d h)) dials)) [0..<hd (dial_shape (hd dials))])))"

definition leaf_rate_dials_for :: "(fval \<Rightarrow> fval) \<Rightarrow> dial list option \<Rightarrow> decode_geometry \<Rightarrow> fval list list option res" where
  "leaf_rate_dials_for cast decay config =
     (case decay of None \<Rightarrow> Inr None
      | Some dials \<Rightarrow> rbind (leaf_rate_dials cast dials (dg_D config)) (\<lambda>rows. Inr (Some rows)))"

section \<open>The write atoms, derived a second time\<close>

text \<open>
  One batch-head: leaf by leaf in canonical order, then crossed into lattice order by \<^verbatim>\<open>pi\<close>;
  \<open>out\<close> is the uninitialised destination.
\<close>

definition live_leaves :: "'a :: zero list list \<Rightarrow> nat list \<Rightarrow> bool list" where
  "live_leaves rows widths =
     map (\<lambda>index. list_all (\<lambda>level. rows ! level ! (index div prod_list (drop (level + 1) widths) mod widths ! level) \<noteq> 0)
            [0..<length widths]) [0..<prod_list widths]"

definition atoms_of_live :: "bool list \<Rightarrow> bool list" where
  "atoms_of_live live =
     map (\<lambda>a. list_ex (\<lambda>b. b) (take MMA_K_QUANTUM (drop (a * MMA_K_QUANTUM) live))) [0..<length live div MMA_K_QUANTUM]"

definition write_atom_bitmap ::
    "bool list \<Rightarrow> 'a :: zero heap \<Rightarrow> tensor list \<Rightarrow> decode_geometry \<Rightarrow> bool list list res" where
  "write_atom_bitmap out h write_levels config =
     rbind (rmap (decode_fold h) write_levels) (\<lambda>folded.
     rbind (permutation (dg_widths config) (dg_k config) (dg_m config)) (\<lambda>pi.
       Inr (map (\<lambda>bh. atoms_of_live (index_copy out pi (live_leaves (map (\<lambda>level. level ! bh) folded) (dg_widths config))))
              [0..<length (hd folded)])))"

end
