(* ===== verification/Rola_Step.thy ===== *)
theory Rola_Step
  imports Rola_Paging_Props Rola_Decode
begin

text \<open>
  The protocol of the one-launch decode step (\<^verbatim>\<open>csrc/rola/src/decode/decode.cu\<close>): the
  verdict of every batch-head, the claim, the deposit under the done flags, the condensation and
  the flags' self-reset. The arithmetic of the walk is a parameter: which atoms a token writes, what
  it makes of a page it deposits into and what it reads off the pages of its batch-head. The
  batch-heads touch disjoint rows of every buffer, so the model runs them in order.
\<close>

section \<open>The token and the arithmetic\<close>

record 'a token =
  tk_read :: "'a list list"
  tk_write :: "'a list list"
  tk_normalize :: "bool list"
  tk_dials :: "fval list option"
  tk_gain :: 'a
  tk_value :: "'a list"

record 'a numerics =
  sn_atoms :: "decode_geometry \<Rightarrow> 'a token \<Rightarrow> nat list"
  sn_deposit :: "decode_geometry \<Rightarrow> 'a token \<Rightarrow> nat \<Rightarrow> page \<Rightarrow> page"
  sn_read :: "decode_geometry \<Rightarrow> 'a token \<Rightarrow> page list \<Rightarrow> 'a list"

section \<open>One batch-head\<close>

definition row_pages :: "nat \<Rightarrow> arena \<Rightarrow> page list" where
  "row_pages bh a = map (\<lambda>x. page_at a (bh * ar_apb a + x)) [0..<ar_apb a]"

definition deposits :: "'a numerics \<Rightarrow> decode_geometry \<Rightarrow> 'a token \<Rightarrow> nat \<Rightarrow> (nat \<times> (page \<Rightarrow> page)) list" where
  "deposits num g tk base = map (\<lambda>x. (base + x, sn_deposit num g tk x)) (sn_atoms num g tk)"

text \<open>
  A done batch-head claims nothing and deposits nothing; a needy one runs nothing. The result is
  the batch-head's verdict and its row of \<^verbatim>\<open>y\<close>, \<^const>\<open>None\<close> where the row is not written.
\<close>

definition step_row ::
    "'a numerics \<Rightarrow> decode_geometry \<Rightarrow> nat \<Rightarrow> 'a token \<Rightarrow> bool \<Rightarrow> arena \<Rightarrow> (bool \<times> 'a list option) \<times> arena" where
  "step_row num g bh tk done a =
     (let (needy, b) = (if done then (False, a) else device_claim bh (sn_atoms num g tk) a) in
      if needy then ((True, None), b)
      else
        let c = (if done then b else run_updates write_page page_at (deposits num g tk (bh * ar_apb b)) b)
        in ((False, Some (sn_read num g tk (row_pages bh c))), c))"

fun walk_rows ::
    "'a numerics \<Rightarrow> decode_geometry \<Rightarrow> nat \<Rightarrow> ('a token \<times> bool) list \<Rightarrow> arena \<Rightarrow> (bool \<times> 'a list option) list \<times> arena" where
  "walk_rows num g bh [] a = ([], a)"
| "walk_rows num g bh ((tk, done) # rest) a =
     (let (o1, b) = step_row num g bh tk done a; (os, c) = walk_rows num g (bh + 1) rest b in (o1 # os, c))"

section \<open>The launch\<close>

text \<open>The verdicts, their reduction and the done flags' self-reset.\<close>

definition publish :: "bool list \<Rightarrow> decode_scratch \<Rightarrow> decode_scratch" where
  "publish needy sc =
     (let any = (True \<in> set needy) in
      sc\<lparr>sc_growth := map (\<lambda>n. if n then 1 else 0) needy, sc_growth_any := (if any then 1 else 0),
         sc_done := (if any then map2 (\<lambda>n d. if n then d else 1) needy (sc_done sc) else map (\<lambda>_. 0) needy)\<rparr>)"

definition atom_row :: "'a numerics \<Rightarrow> decode_geometry \<Rightarrow> nat \<Rightarrow> 'a token \<Rightarrow> bool list" where
  "atom_row num g apb tk = map (\<lambda>x. x \<in> set (sn_atoms num g tk)) [0..<apb]"

definition paged_step ::
    "'a numerics \<Rightarrow> decode_geometry \<Rightarrow> 'a token list \<Rightarrow> arena \<Rightarrow> decode_scratch \<Rightarrow> 'a list option list \<times> arena \<times> decode_scratch" where
  "paged_step num g tks a sc =
     (let (os, b) = walk_rows num g 0 (zip tks (map (\<lambda>d. d \<noteq> 0) (sc_done sc))) a in
      (map snd os, b, (publish (map fst os) sc)\<lparr>sc_atom_bits := concat (map (atom_row num g (ar_apb a)) tks)\<rparr>))"

text \<open>Under a dense backing there is no verdict: every batch-head deposits.\<close>

definition dense_row_pages :: "nat \<Rightarrow> nat \<Rightarrow> dense_plane \<Rightarrow> page list" where
  "dense_row_pages apb bh d = map (\<lambda>x. dp_pages d ! (bh * apb + x)) [0..<apb]"

fun dense_rows :: "'a numerics \<Rightarrow> decode_geometry \<Rightarrow> nat \<Rightarrow> nat \<Rightarrow> 'a token list \<Rightarrow> dense_plane \<Rightarrow> 'a list option list \<times> dense_plane" where
  "dense_rows num g apb bh [] d = ([], d)"
| "dense_rows num g apb bh (tk # rest) d =
     (let b = run_updates dense_put (\<lambda>d i. dp_pages d ! i) (deposits num g tk (bh * apb)) d;
          (os, c) = dense_rows num g apb (bh + 1) rest b
      in (Some (sn_read num g tk (dense_row_pages apb bh b)) # os, c))"

section \<open>What a step is\<close>

text \<open>
  With no backing, no verdict and no replay: every atom a token writes is deposited into once, and
  every row of \<^verbatim>\<open>y\<close> is read off the updated pages. \<open>apb\<close> atoms per batch-head.
\<close>

definition stepped :: "'a numerics \<Rightarrow> decode_geometry \<Rightarrow> nat \<Rightarrow> 'a token list \<Rightarrow> (nat \<Rightarrow> page) \<Rightarrow> nat \<Rightarrow> page" where
  "stepped num g apb tks v i =
     (let tk = tks ! (i div apb); x = i mod apb in
      if x \<in> set (sn_atoms num g tk) then sn_deposit num g tk x (v i) else v i)"

definition y_row :: "'a numerics \<Rightarrow> decode_geometry \<Rightarrow> nat \<Rightarrow> 'a token list \<Rightarrow> (nat \<Rightarrow> page) \<Rightarrow> nat \<Rightarrow> 'a list" where
  "y_row num g apb tks v bh = sn_read num g (tks ! bh) (map (\<lambda>x. stepped num g apb tks v (bh * apb + x)) [0..<apb])"

text \<open>What the walk's arithmetic must keep: ascending atoms of the batch-head, pages of one size.\<close>

definition token_ok :: "'a numerics \<Rightarrow> decode_geometry \<Rightarrow> nat \<Rightarrow> nat \<Rightarrow> 'a token \<Rightarrow> bool" where
  "token_ok num g apb size_of tk \<longleftrightarrow>
     distinct (sn_atoms num g tk) \<and> (\<forall>x\<in>set (sn_atoms num g tk). x < apb)
     \<and> (\<forall>x p. length p = size_of \<longrightarrow> length (sn_deposit num g tk x p) = size_of)"

section \<open>One batch-head, proved\<close>

lemma page_updates_distinct:
  "distinct (map fst us) \<Longrightarrow> page_updates us v i = (case map_of us i of Some f \<Rightarrow> f (v i) | None \<Rightarrow> v i)"
proof (induction us arbitrary: v)
  case (Cons u us)
  obtain j f where u: "u = (j, f)" by (cases u)
  have "map_of us j = None" using Cons.prems u by (simp add: map_of_eq_None_iff)
  then show ?case using Cons u by (auto split: option.splits)
qed simp

lemma map_of_deposits:
  "map_of (deposits num g tk base) i =
     (if base \<le> i \<and> i - base \<in> set (sn_atoms num g tk) then Some (sn_deposit num g tk (i - base)) else None)"
proof -
  have "map_of (map (\<lambda>x. (base + x, f x)) xs) i = (if base \<le> i \<and> i - base \<in> set xs then Some (f (i - base)) else None)"
    for f :: "nat \<Rightarrow> page \<Rightarrow> page" and xs by (induction xs) auto
  then show ?thesis by (simp add: deposits_def)
qed

lemma deposits_distinct: "distinct (sn_atoms num g tk) \<Longrightarrow> distinct (map fst (deposits num g tk base))"
  by (simp add: deposits_def comp_def distinct_map inj_on_def)

lemma row_index: "bh < ar_BH a \<Longrightarrow> x < ar_apb a \<Longrightarrow> bh * ar_apb a + x < logical_pages a"
  by (simp add: logical_pages_def mult_add_less)

text \<open>What a row's step leaves of the arena: the same dimensions, nothing evicted, the other rows' pages.\<close>

definition row_frame :: "nat \<Rightarrow> arena \<Rightarrow> arena \<Rightarrow> bool" where
  "row_frame bh a b \<longleftrightarrow> arena_wf b \<and> ar_apb b = ar_apb a \<and> ar_BH b = ar_BH a \<and> ar_cols b = ar_cols a
     \<and> (\<forall>i<logical_pages a. (0 \<le> ar_table a ! i \<longrightarrow> 0 \<le> ar_table b ! i)
          \<and> (i div ar_apb a \<noteq> bh \<longrightarrow> page_at b i = page_at a i))"

lemma row_frame_refl: "arena_wf a \<Longrightarrow> row_frame bh a a" by (simp add: row_frame_def)

lemma claim_frame:
  assumes "arena_wf a" "bh < ar_BH a" "token_ok num g (ar_apb a) n tk"
    and dc: "device_claim bh (sn_atoms num g tk) a = (needy, b)"
  shows "row_frame bh a b" "\<And>i. i < logical_pages a \<Longrightarrow> page_at b i = page_at a i"
    "\<not> needy \<Longrightarrow> x \<in> set (sn_atoms num g tk) \<Longrightarrow> 0 \<le> ar_table b ! (bh * ar_apb a + x)"
    "\<forall>x\<in>set (sn_atoms num g tk). 0 \<le> ar_table a ! (bh * ar_apb a + x) \<Longrightarrow> \<not> needy"
proof -
  have ok: "arena_ok a" "no_stale a" "distinct (sn_atoms num g tk)" "\<forall>x\<in>set (sn_atoms num g tk). x < ar_apb a"
    using assms(1,3) by (simp_all add: arena_wf_def token_ok_def)
  note d = device_claim_ok [OF ok assms(2) dc]
  show "row_frame bh a b" using d(1-6) by (simp add: row_frame_def arena_wf_def same_dims_def)
  show "page_at b i = page_at a i" if "i < logical_pages a" for i using d(5) that by simp
  show "0 \<le> ar_table b ! (bh * ar_apb a + x)" if "\<not> needy" "x \<in> set (sn_atoms num g tk)" using d(9) that by blast
  assume "\<forall>x\<in>set (sn_atoms num g tk). 0 \<le> ar_table a ! (bh * ar_apb a + x)"
  then have "demand_of bh (sn_atoms num g tk) a = []" by (auto simp: demand_of_def filter_empty_conv)
  then show "\<not> needy" using dc by (simp add: device_claim_def)
qed

lemma deposit_frame:
  assumes wf: "arena_wf a" and bh: "bh < ar_BH a" and tk: "token_ok num g (ar_apb a) (16 * ar_cols a) tk"
    and has: "\<forall>x\<in>set (sn_atoms num g tk). 0 \<le> ar_table a ! (bh * ar_apb a + x)"
  defines "b \<equiv> run_updates write_page page_at (deposits num g tk (bh * ar_apb a)) a"
  shows "row_frame bh a b"
    "x < ar_apb a \<Longrightarrow> page_at b (bh * ar_apb a + x) =
       (if x \<in> set (sn_atoms num g tk) then sn_deposit num g tk x (page_at a (bh * ar_apb a + x))
        else page_at a (bh * ar_apb a + x))"
proof -
  let ?us = "deposits num g tk (bh * ar_apb a)"
  have in_row: "bh * ar_apb a + x < logical_pages a" if "x \<in> set (sn_atoms num g tk)" for x
    using row_index [OF bh] tk that by (simp add: token_ok_def)
  have us: "\<forall>(i, f)\<in>set ?us. i < logical_pages a \<and> 0 \<le> ar_table a ! i \<and> (\<forall>p. length p = 16 * ar_cols a \<longrightarrow> length (f p) = 16 * ar_cols a)"
    using in_row has tk by (auto simp: deposits_def token_ok_def)
  have keep: "ar_table (run_updates write_page page_at us s) = ar_table s \<and> ar_apb (run_updates write_page page_at us s) = ar_apb s
      \<and> ar_BH (run_updates write_page page_at us s) = ar_BH s" for us s
    by (induction us arbitrary: s) (auto simp: write_page_def)
  have u: "arena_wf b \<and> logical_pages b = logical_pages a \<and> 16 * ar_cols b = 16 * ar_cols a
     \<and> (\<forall>j<logical_pages a. page_at b j = page_updates ?us (page_at a) j)"
    unfolding b_def by (rule paged.updates_look [OF wf us]) simp
  have look: "page_at b j = (if bh * ar_apb a \<le> j \<and> j - bh * ar_apb a \<in> set (sn_atoms num g tk)
       then sn_deposit num g tk (j - bh * ar_apb a) (page_at a j) else page_at a j)" if "j < logical_pages a" for j
  proof -
    have "distinct (map fst ?us)" using tk by (intro deposits_distinct) (simp add: token_ok_def)
    then show ?thesis using u that by (simp add: page_updates_distinct map_of_deposits)
  qed
  have "page_at b j = page_at a j" if j: "j < logical_pages a" "j div ar_apb a \<noteq> bh" for j
  proof -
    have "\<not> (bh * ar_apb a \<le> j \<and> j - bh * ar_apb a \<in> set (sn_atoms num g tk))"
    proof
      assume *: "bh * ar_apb a \<le> j \<and> j - bh * ar_apb a \<in> set (sn_atoms num g tk)"
      define x where "x = j - bh * ar_apb a"
      have "x < ar_apb a" using * tk by (auto simp: token_ok_def x_def)
      moreover have "j = x + bh * ar_apb a" using * by (simp add: x_def)
      ultimately have "j div ar_apb a = bh" by simp
      with j(2) show False by simp
    qed
    then show ?thesis by (simp only: look [OF j(1)] if_False)
  qed
  then show "row_frame bh a b" using u keep by (simp add: row_frame_def b_def)
  show "page_at b (bh * ar_apb a + x) =
       (if x \<in> set (sn_atoms num g tk) then sn_deposit num g tk x (page_at a (bh * ar_apb a + x))
        else page_at a (bh * ar_apb a + x))" if "x < ar_apb a"
    using look [OF row_index [OF bh that]] by simp
qed

lemma row_frame_trans: "row_frame bh a b \<Longrightarrow> row_frame bh b c \<Longrightarrow> row_frame bh a c"
  by (auto simp: row_frame_def logical_pages_def)

lemma step_row_ok:
  assumes wf: "arena_wf a" and bh: "bh < ar_BH a" and tk: "token_ok num g (ar_apb a) (16 * ar_cols a) tk"
    and st: "step_row num g bh tk done a = ((needy, y), b)"
  shows "row_frame bh a b"
    and "needy \<Longrightarrow> \<not> done \<and> (\<forall>i<logical_pages a. page_at b i = page_at a i)"
    and "\<not> needy \<Longrightarrow> y = Some (sn_read num g tk (row_pages bh b))"
    and "\<not> needy \<Longrightarrow> x < ar_apb a \<Longrightarrow> page_at b (bh * ar_apb a + x) =
       (if \<not> done \<and> x \<in> set (sn_atoms num g tk) then sn_deposit num g tk x (page_at a (bh * ar_apb a + x))
        else page_at a (bh * ar_apb a + x))"
    and "done \<or> (\<forall>x\<in>set (sn_atoms num g tk). 0 \<le> ar_table a ! (bh * ar_apb a + x)) \<Longrightarrow> \<not> needy"
proof -
  have "row_frame bh a b \<and> (needy \<longrightarrow> \<not> done \<and> (\<forall>i<logical_pages a. page_at b i = page_at a i))
    \<and> (\<not> needy \<longrightarrow> y = Some (sn_read num g tk (row_pages bh b)) \<and> (\<forall>x<ar_apb a. page_at b (bh * ar_apb a + x) =
       (if \<not> done \<and> x \<in> set (sn_atoms num g tk) then sn_deposit num g tk x (page_at a (bh * ar_apb a + x))
        else page_at a (bh * ar_apb a + x))))
    \<and> (done \<or> (\<forall>x\<in>set (sn_atoms num g tk). 0 \<le> ar_table a ! (bh * ar_apb a + x)) \<longrightarrow> \<not> needy)"
  proof (cases "done")
    case True
    then show ?thesis using st row_frame_refl [OF wf] by (auto simp: step_row_def)
  next
    case False
    obtain n a1 where dc: "device_claim bh (sn_atoms num g tk) a = (n, a1)" by fastforce
    note c = claim_frame [OF wf bh tk dc]
    show ?thesis
    proof (cases n)
      case True
      then show ?thesis using st False dc c by (auto simp: step_row_def)
    next
      case n: False
      have a1: "arena_wf a1" "bh < ar_BH a1" "ar_apb a1 = ar_apb a" "ar_cols a1 = ar_cols a"
        using c(1) bh by (simp_all add: row_frame_def)
      have has: "\<forall>x\<in>set (sn_atoms num g tk). 0 \<le> ar_table a1 ! (bh * ar_apb a1 + x)" using c(3) n a1(3) by simp
      note d = deposit_frame [OF a1(1,2) tk [folded a1(3,4)] has]
      have b: "b = run_updates write_page page_at (deposits num g tk (bh * ar_apb a1)) a1" "\<not> needy"
        "y = Some (sn_read num g tk (row_pages bh b))"
        using st False dc n by (auto simp: step_row_def Let_def)
      then show ?thesis using False row_frame_trans [OF c(1) d(1)] d(2) c(2) [OF row_index [OF bh]] a1(3) by simp
    qed
  qed
  then show "row_frame bh a b"
    and "needy \<Longrightarrow> \<not> done \<and> (\<forall>i<logical_pages a. page_at b i = page_at a i)"
    and "\<not> needy \<Longrightarrow> y = Some (sn_read num g tk (row_pages bh b))"
    and "\<not> needy \<Longrightarrow> x < ar_apb a \<Longrightarrow> page_at b (bh * ar_apb a + x) =
       (if \<not> done \<and> x \<in> set (sn_atoms num g tk) then sn_deposit num g tk x (page_at a (bh * ar_apb a + x))
        else page_at a (bh * ar_apb a + x))"
    and "done \<or> (\<forall>x\<in>set (sn_atoms num g tk). 0 \<le> ar_table a ! (bh * ar_apb a + x)) \<Longrightarrow> \<not> needy" by blast+
qed

end
