(* ===== verification/Rola_Step_Props.thy ===== *)
theory Rola_Step_Props
  imports Rola_Step
begin

text \<open>
  The step of a whole batch: what one launch leaves behind, and the replay. A launch the pool could
  not cover, an admission of the published condensation and a second launch together deposit every
  token exactly once, whatever the pool granted in the first.
\<close>

section \<open>The walk over the batch-heads\<close>

definition walk_row_ok :: "'a numerics \<Rightarrow> decode_geometry \<Rightarrow> nat \<Rightarrow> 'a token \<Rightarrow> bool \<Rightarrow> bool \<times> 'a list option \<Rightarrow> arena \<Rightarrow> arena \<Rightarrow> bool" where
  "walk_row_ok num g bh tk done out a b \<longleftrightarrow>
     (fst out \<longrightarrow> \<not> done) \<and> (\<not> fst out \<longrightarrow> snd out = Some (sn_read num g tk (row_pages bh b)))
     \<and> (\<forall>x<ar_apb a. page_at b (bh * ar_apb a + x) =
          (if \<not> fst out \<and> \<not> done \<and> x \<in> set (sn_atoms num g tk)
           then sn_deposit num g tk x (page_at a (bh * ar_apb a + x)) else page_at a (bh * ar_apb a + x)))
     \<and> (done \<or> (\<forall>x\<in>set (sn_atoms num g tk). 0 \<le> ar_table a ! (bh * ar_apb a + x)) \<longrightarrow> \<not> fst out)"

definition walk_frame :: "nat set \<Rightarrow> arena \<Rightarrow> arena \<Rightarrow> bool" where
  "walk_frame rows a b \<longleftrightarrow> arena_wf b \<and> ar_apb b = ar_apb a \<and> ar_BH b = ar_BH a \<and> ar_cols b = ar_cols a
     \<and> (\<forall>i<logical_pages a. (0 \<le> ar_table a ! i \<longrightarrow> 0 \<le> ar_table b ! i)
          \<and> (i div ar_apb a \<notin> rows \<longrightarrow> page_at b i = page_at a i))"

lemma row_div [simp]: "x < n \<Longrightarrow> (bh * n + x) div n = (bh :: nat)"
  using div_mult_self3 [of n bh x] by (cases "n = 0") simp_all

lemma row_pages_frame: "walk_frame rows a b \<Longrightarrow> bh \<notin> rows \<Longrightarrow> bh < ar_BH a \<Longrightarrow> row_pages bh b = row_pages bh a"
  by (simp add: row_pages_def walk_frame_def row_index)

lemma walk_rows_ok:
  assumes "arena_wf a" "bh + length tds \<le> ar_BH a"
    "\<forall>(tk, done)\<in>set tds. token_ok num g (ar_apb a) (16 * ar_cols a) tk" "walk_rows num g bh tds a = (os, b)"
  shows "walk_frame {bh..<bh + length tds} a b \<and> length os = length tds
    \<and> (\<forall>k<length tds. walk_row_ok num g (bh + k) (fst (tds ! k)) (snd (tds ! k)) (os ! k) a b)"
  using assms
proof (induction tds arbitrary: bh a os)
  case (Cons td tds)
  obtain tk d where td: "td = (tk, d)" by (cases td)
  obtain n y a1 where st: "step_row num g bh tk d a = ((n, y), a1)" by (metis prod.collapse)
  obtain os' where w: "walk_rows num g (bh + 1) tds a1 = (os', b)" "os = (n, y) # os'"
    using Cons.prems(4) st td by (auto split: prod.splits)
  have tk: "token_ok num g (ar_apb a) (16 * ar_cols a) tk" and bh: "bh < ar_BH a" using Cons.prems(2,3) td by auto
  note s = step_row_ok [OF Cons.prems(1) bh tk st]
  have a1: "arena_wf a1" "ar_apb a1 = ar_apb a" "ar_BH a1 = ar_BH a" "ar_cols a1 = ar_cols a" "logical_pages a1 = logical_pages a"
    using s(1) by (simp_all add: row_frame_def logical_pages_def)
  have IH: "walk_frame {bh + 1..<bh + 1 + length tds} a1 b \<and> length os' = length tds
    \<and> (\<forall>k<length tds. walk_row_ok num g (bh + 1 + k) (fst (tds ! k)) (snd (tds ! k)) (os' ! k) a1 b)"
    using Cons.prems(2,3) a1 w(1) by (intro Cons.IH) auto
  have frame: "walk_frame {bh..<bh + length (td # tds)} a b"
    using s(1) IH a1 by (auto simp: walk_frame_def row_frame_def)
  have first: "page_at b (bh * ar_apb a + x) = page_at a1 (bh * ar_apb a + x)" if "x < ar_apb a" for x
    using IH that row_index [OF bh that] a1 by (simp add: walk_frame_def)
  have "row_pages bh b = row_pages bh a1" using IH bh a1 by (intro row_pages_frame) auto
  then have head: "walk_row_ok num g bh tk d (n, y) a b"
    using s(2-5) first row_index [OF bh] by (cases n) (auto simp: walk_row_ok_def)
  have tail: "walk_row_ok num g (bh + 1 + k) (fst (tds ! k)) (snd (tds ! k)) (os' ! k) a b" if k: "k < length tds" for k
  proof -
    have lt: "bh + 1 + k < ar_BH a" using k Cons.prems(2) by simp
    have same: "page_at a1 ((bh + 1 + k) * ar_apb a + x) = page_at a ((bh + 1 + k) * ar_apb a + x)" if "x < ar_apb a" for x
      using s(1) row_index [OF lt that] row_div [OF that, of "bh + 1 + k"] by (simp add: row_frame_def)
    have res: "\<forall>x\<in>set (sn_atoms num g (fst (tds ! k))). 0 \<le> ar_table a ! ((bh + 1 + k) * ar_apb a + x) \<longrightarrow> 0 \<le> ar_table a1 ! ((bh + 1 + k) * ar_apb a + x)"
    proof -
      have "tds ! k \<in> set tds" using k by simp
      then have "tds ! k \<in> set (td # tds)" by simp
      from bspec [OF Cons.prems(3) this] have "token_ok num g (ar_apb a) (16 * ar_cols a) (fst (tds ! k))"
        by (simp add: case_prod_beta)
      then show ?thesis using s(1) row_index [OF lt] by (auto simp: row_frame_def token_ok_def)
    qed
    have "walk_row_ok num g (bh + 1 + k) (fst (tds ! k)) (snd (tds ! k)) (os' ! k) a1 b" using IH k by blast
    then show ?thesis unfolding walk_row_ok_def a1(2) using same res by simp
  qed
  have "walk_row_ok num g (bh + k) (fst ((td # tds) ! k)) (snd ((td # tds) ! k)) (os ! k) a b" if "k < length (td # tds)" for k
    using head tail [of "k - 1"] that td w(2) by (cases k) simp_all
  then show ?case using frame IH w(2) by simp
qed (auto simp: walk_frame_def)

section \<open>One launch\<close>

definition tokens_ok :: "'a numerics \<Rightarrow> decode_geometry \<Rightarrow> arena \<Rightarrow> 'a token list \<Rightarrow> bool" where
  "tokens_ok num g a tks \<longleftrightarrow> length tks = ar_BH a \<and> (\<forall>tk\<in>set tks. token_ok num g (ar_apb a) (16 * ar_cols a) tk)"

definition atom_rows :: "'a numerics \<Rightarrow> decode_geometry \<Rightarrow> arena \<Rightarrow> 'a token list \<Rightarrow> bool list list" where
  "atom_rows num g a tks = map (atom_row num g (ar_apb a)) tks"

lemma page_of_row:
  assumes "i < logical_pages a"
  shows "i div ar_apb a < ar_BH a" "i mod ar_apb a < ar_apb a"
proof -
  have i: "i < ar_BH a * ar_apb a" using assms by (simp add: logical_pages_def)
  then have "0 < ar_apb a" by (cases "ar_apb a") simp_all
  then show "i div ar_apb a < ar_BH a" "i mod ar_apb a < ar_apb a" using i by (simp_all add: less_mult_imp_div_less)
qed

text \<open>Every row of a launch, with the done flags it started from.\<close>

lemma paged_step_ok:
  assumes "arena_wf a" "tokens_ok num g a tks" "length (sc_done sc) = ar_BH a" "paged_step num g tks a sc = (ys, b, sc')"
  obtains needy where "length needy = ar_BH a" "length ys = ar_BH a" "walk_frame {0..<ar_BH a} a b"
    "sc' = (publish needy sc)\<lparr>sc_atom_bits := concat (atom_rows num g a tks)\<rparr>"
    "\<And>bh. bh < ar_BH a \<Longrightarrow> walk_row_ok num g bh (tks ! bh) (sc_done sc ! bh \<noteq> 0) (needy ! bh, ys ! bh) a b"
proof -
  let ?tds = "zip tks (map (\<lambda>d. d \<noteq> 0) (sc_done sc))"
  obtain os where w: "walk_rows num g 0 ?tds a = (os, b)" "ys = map snd os"
      "sc' = (publish (map fst os) sc)\<lparr>sc_atom_bits := concat (atom_rows num g a tks)\<rparr>"
    using assms(4) by (auto simp: paged_step_def atom_rows_def split: prod.splits)
  have len: "length ?tds = ar_BH a" using assms(2,3) by (simp add: tokens_ok_def)
  have ok: "walk_frame {0..<0 + length ?tds} a b \<and> length os = length ?tds
    \<and> (\<forall>k<length ?tds. walk_row_ok num g (0 + k) (fst (?tds ! k)) (snd (?tds ! k)) (os ! k) a b)"
    using assms(1,2) len w(1) by (intro walk_rows_ok) (auto simp: tokens_ok_def dest: set_zip_leftD)
  then show thesis
    using that [of "map fst os"] w(2,3) len assms(2,3) by (simp add: tokens_ok_def)
qed

lemma publish_simps [simp]:
  "sc_growth_any (publish needy sc) = (if True \<in> set needy then 1 else 0)"
  "sc_done (publish needy sc) = (if True \<in> set needy then map2 (\<lambda>n d. if n then d else 1) needy (sc_done sc) else map (\<lambda>_. 0) needy)"
  by (simp_all add: publish_def)

lemma concat_atom_rows:
  assumes "tokens_ok num g a tks" "bh < ar_BH a" "x < ar_apb a"
  shows "concat (atom_rows num g a tks) ! (bh * ar_apb a + x) \<longleftrightarrow> x \<in> set (sn_atoms num g (tks ! bh))"
proof -
  have len: "\<forall>r\<in>set (atom_rows num g a tks). length r = ar_apb a" "length (atom_rows num g a tks) = ar_BH a"
    using assms(1) by (auto simp: atom_rows_def atom_row_def tokens_ok_def)
  have "bh * ar_apb a + x < length (atom_rows num g a tks) * ar_apb a"
    using row_index [OF assms(2,3)] len(2) by (simp add: logical_pages_def)
  from nth_concat_const(1) [OF len(1) this] assms show ?thesis
    by (simp add: atom_rows_def atom_row_def tokens_ok_def)
qed

lemma host_admit_ok:
  assumes wf: "arena_wf a" and adm: "host_admit bits a = Inr b"
  shows "arena_wf b" "same_dims a b" "\<And>i. i < logical_pages a \<Longrightarrow> page_at b i = page_at a i"
    "\<And>i. i < logical_pages a \<Longrightarrow> concat bits ! i \<Longrightarrow> 0 \<le> ar_table b ! i"
proof -
  note p = paged.admit_ok [OF wf adm]
  show "arena_wf b" "\<And>i. i < logical_pages a \<Longrightarrow> page_at b i = page_at a i"
    "\<And>i. i < logical_pages a \<Longrightarrow> concat bits ! i \<Longrightarrow> 0 \<le> ar_table b ! i" using p by blast+
  from adm obtain r where pl: "plan_union bits a = (Inr r, b)"
    by (auto simp: host_admit_def plan_exact_def split: prod.splits sum.splits)
  then have sh: "bitmap_shape_ok bits a" by (auto simp: plan_union_def split: if_splits)
  show "same_dims a b"
    using wf pl by (cases rule: plan_union_ok [OF _ sh]) (auto simp: arena_wf_def)
qed

section \<open>The replay\<close>

text \<open>A launch whose verdict is zero, from cleared flags, is the whole step.\<close>

definition step_done :: "'a numerics \<Rightarrow> decode_geometry \<Rightarrow> 'a token list \<Rightarrow> arena \<Rightarrow> 'a list option list \<Rightarrow> arena \<Rightarrow> decode_scratch \<Rightarrow> bool" where
  "step_done num g tks a ys b sc \<longleftrightarrow>
     arena_wf b \<and> sc_growth_any sc = 0 \<and> sc_done sc = replicate (ar_BH a) 0
     \<and> (\<forall>i<logical_pages a. page_at b i = stepped num g (ar_apb a) tks (page_at a) i)
     \<and> ys = map (\<lambda>bh. Some (y_row num g (ar_apb a) tks (page_at a) bh)) [0..<ar_BH a]"

lemma step_done_host [simp]: "step_done num g tks a ys b (sc\<lparr>sc_growth_host := x\<rparr>) = step_done num g tks a ys b sc"
  by (simp add: step_done_def)

lemma paged_step_bits: "paged_step num g tks a sc = (ys, b, sc') \<Longrightarrow> sc_atom_bits sc' = concat (atom_rows num g a tks)"
  by (auto simp: paged_step_def atom_rows_def split: prod.splits)

lemma step_doneI:
  assumes wf: "arena_wf b" "ar_apb b = ar_apb a" "ar_BH b = ar_BH a" and "sc_growth_any sc = 0" "sc_done sc = replicate (ar_BH a) 0"
    and pages: "\<And>bh x. bh < ar_BH a \<Longrightarrow> x < ar_apb a \<Longrightarrow> page_at b (bh * ar_apb a + x) =
         (if x \<in> set (sn_atoms num g (tks ! bh)) then sn_deposit num g (tks ! bh) x (page_at a (bh * ar_apb a + x))
          else page_at a (bh * ar_apb a + x))"
    and ys: "length ys = ar_BH a" "\<And>bh. bh < ar_BH a \<Longrightarrow> ys ! bh = Some (sn_read num g (tks ! bh) (row_pages bh b))"
  shows "step_done num g tks a ys b sc"
proof -
  have row: "page_at b (bh * ar_apb a + x) = stepped num g (ar_apb a) tks (page_at a) (bh * ar_apb a + x)"
    if "bh < ar_BH a" "x < ar_apb a" for bh x
    using pages [OF that] that by (simp add: stepped_def)
  have "page_at b i = stepped num g (ar_apb a) tks (page_at a) i" if "i < logical_pages a" for i
    using row [OF page_of_row [OF that]] by (simp only: div_mult_mod_eq)
  moreover have "ys = map (\<lambda>bh. Some (y_row num g (ar_apb a) tks (page_at a) bh)) [0..<ar_BH a]"
    by (rule nth_equalityI) (auto simp: ys y_row_def row_pages_def row wf(2) intro!: arg_cong [where f = "sn_read num g _"])
  ultimately show ?thesis using assms(1,4,5) by (simp add: step_done_def)
qed

lemma step_covered:
  assumes "arena_wf a" "tokens_ok num g a tks" "sc_done sc = replicate (ar_BH a) 0"
    and st: "paged_step num g tks a sc = (ys, b, sc')" and zero: "sc_growth_any sc' = 0"
  shows "step_done num g tks a ys b sc'"
proof -
  have len: "length (sc_done sc) = ar_BH a" using assms(3) by simp
  obtain needy where n: "length needy = ar_BH a" "length ys = ar_BH a" "walk_frame {0..<ar_BH a} a b"
    "sc' = (publish needy sc)\<lparr>sc_atom_bits := concat (atom_rows num g a tks)\<rparr>"
    "\<And>bh. bh < ar_BH a \<Longrightarrow> walk_row_ok num g bh (tks ! bh) (sc_done sc ! bh \<noteq> 0) (needy ! bh, ys ! bh) a b"
    using paged_step_ok [OF assms(1,2) len st] by metis
  have none: "True \<notin> set needy" using zero n(4) by (simp split: if_splits)
  then have nb: "\<not> needy ! bh" if "bh < ar_BH a" for bh using n(1) that by (metis nth_mem)
  show ?thesis
  proof (rule step_doneI)
    show "sc_done sc' = replicate (ar_BH a) 0" using n(1,4) none by (simp add: map_replicate_const)
  qed (use n nb assms(3) zero in \<open>auto simp: walk_frame_def walk_row_ok_def\<close>)
qed

lemma replay_done:
  assumes wf: "arena_wf a" and tks: "tokens_ok num g a tks" and cleared: "sc_done sc = replicate (ar_BH a) 0"
    and first: "paged_step num g tks a sc = (ys1, a1, sc1)" and grow: "sc_growth_any sc1 \<noteq> 0"
    and admit: "host_admit (atom_rows num g a tks) a1 = Inr a2"
    and second: "sc_done sc1' = sc_done sc1" "paged_step num g tks a2 sc1' = (ys, b, sc2)"
  shows "step_done num g tks a ys b sc2"
proof -
  have len: "length (sc_done sc) = ar_BH a" using cleared by simp
  obtain needy where n: "length needy = ar_BH a" "walk_frame {0..<ar_BH a} a a1"
    "sc1 = (publish needy sc)\<lparr>sc_atom_bits := concat (atom_rows num g a tks)\<rparr>"
    "\<And>bh. bh < ar_BH a \<Longrightarrow> walk_row_ok num g bh (tks ! bh) (sc_done sc ! bh \<noteq> 0) (needy ! bh, ys1 ! bh) a a1"
    using paged_step_ok [OF wf tks len first] by metis
  have any: "True \<in> set needy" using grow n(3) by (simp split: if_splits)
  have d1: "sc_done sc1 = map (\<lambda>n. if n then 0 else 1) needy"
    using n(1,3) any cleared by (auto simp: list_eq_iff_nth_eq)
  have a1: "arena_wf a1" "ar_apb a1 = ar_apb a" "ar_BH a1 = ar_BH a" "ar_cols a1 = ar_cols a" "logical_pages a1 = logical_pages a"
    using n(2) by (simp_all add: walk_frame_def logical_pages_def)
  note h = host_admit_ok [OF a1(1) admit]
  have a2: "arena_wf a2" "ar_apb a2 = ar_apb a" "ar_BH a2 = ar_BH a" "ar_cols a2 = ar_cols a" "logical_pages a2 = logical_pages a"
    using h(1,2) a1 by (simp_all add: same_dims_def logical_pages_def)
  have page2: "page_at a2 i = page_at a1 i" if "i < logical_pages a" for i using h(3) that a1(5) by simp
  have tk: "token_ok num g (ar_apb a) (16 * ar_cols a) (tks ! bh)" if "bh < ar_BH a" for bh
    using tks that by (simp add: tokens_ok_def)
  have has2: "0 \<le> ar_table a2 ! (bh * ar_apb a2 + x)" if "bh < ar_BH a" "x \<in> set (sn_atoms num g (tks ! bh))" for bh x
  proof -
    have x: "x < ar_apb a" using tk [OF that(1)] that(2) by (simp add: token_ok_def)
    have "concat (atom_rows num g a tks) ! (bh * ar_apb a + x)"
      using concat_atom_rows [OF tks that(1) x] that(2) by simp
    then show ?thesis using h(4) row_index [OF that(1) x] a1(5) a2(2) by simp
  qed
  have tks2: "tokens_ok num g a2 tks" using tks a2 by (simp add: tokens_ok_def)
  have len2: "length (sc_done sc1') = ar_BH a2" using d1 n(1) a2(3) second(1) by simp
  obtain needy2 where m: "length needy2 = ar_BH a2" "length ys = ar_BH a2" "walk_frame {0..<ar_BH a2} a2 b"
    "sc2 = (publish needy2 sc1')\<lparr>sc_atom_bits := concat (atom_rows num g a2 tks)\<rparr>"
    "\<And>bh. bh < ar_BH a2 \<Longrightarrow> walk_row_ok num g bh (tks ! bh) (sc_done sc1' ! bh \<noteq> 0) (needy2 ! bh, ys ! bh) a2 b"
    using paged_step_ok [OF a2(1) tks2 len2 second(2)] by metis
  have nb: "\<not> needy2 ! bh" if "bh < ar_BH a" for bh
    using m(5) [of bh] has2 [OF that] that a2(3) by (auto simp: walk_row_ok_def)
  then have none: "True \<notin> set needy2" using m(1) a2(3) by (auto simp: in_set_conv_nth)
  show ?thesis
  proof (rule step_doneI)
    show "arena_wf b" "ar_apb b = ar_apb a" "ar_BH b = ar_BH a" using m(3) a2 by (simp_all add: walk_frame_def)
    show "sc_growth_any sc2 = 0" "sc_done sc2 = replicate (ar_BH a) 0"
      using m(1,4) none a2(3) by (simp_all add: map_replicate_const)
    show "length ys = ar_BH a" using m(2) a2(3) by simp
    show "ys ! bh = Some (sn_read num g (tks ! bh) (row_pages bh b))" if "bh < ar_BH a" for bh
      using m(5) [of bh] nb that a2(3) by (simp add: walk_row_ok_def)
    show "page_at b (bh * ar_apb a + x) =
         (if x \<in> set (sn_atoms num g (tks ! bh)) then sn_deposit num g (tks ! bh) x (page_at a (bh * ar_apb a + x))
          else page_at a (bh * ar_apb a + x))" if lt: "bh < ar_BH a" "x < ar_apb a" for bh x
    proof -
      let ?i = "bh * ar_apb a + x"
      have flag: "sc_done sc1' ! bh \<noteq> 0 \<longleftrightarrow> \<not> needy ! bh" using d1 n(1) lt second(1) by simp
      have one: "page_at a1 ?i = (if \<not> needy ! bh \<and> x \<in> set (sn_atoms num g (tks ! bh))
          then sn_deposit num g (tks ! bh) x (page_at a ?i) else page_at a ?i)"
        using n(4) [OF lt(1)] lt cleared by (simp add: walk_row_ok_def)
      have two: "page_at b ?i = (if needy ! bh \<and> x \<in> set (sn_atoms num g (tks ! bh))
          then sn_deposit num g (tks ! bh) x (page_at a2 ?i) else page_at a2 ?i)"
        using m(5) [of bh] nb lt a2 by (simp add: walk_row_ok_def flag)
      show ?thesis unfolding two page2 [OF row_index [OF lt]] one by simp
    qed
  qed
qed

section \<open>The dense backing\<close>

lemma dense_deposit:
  assumes ok: "dense_ok d" and len: "bh * apb + apb \<le> length (dp_pages d)" and tk: "token_ok num g apb (16 * dp_cols d) tk"
  defines "e \<equiv> run_updates dense_put (\<lambda>d i. dp_pages d ! i) (deposits num g tk (bh * apb)) d"
  shows "dense_ok e" "dp_cols e = dp_cols d" "length (dp_pages e) = length (dp_pages d)"
    "i < length (dp_pages d) \<Longrightarrow> dp_pages e ! i = (if i div apb = bh \<and> i mod apb \<in> set (sn_atoms num g tk) \<and> 0 < apb
        then sn_deposit num g tk (i mod apb) (dp_pages d ! i) else dp_pages d ! i)"
proof -
  let ?us = "deposits num g tk (bh * apb)"
  have atoms: "x < apb" if "x \<in> set (sn_atoms num g tk)" for x using tk that by (simp add: token_ok_def)
  have us: "\<forall>(i, f)\<in>set ?us. i < length (dp_pages d) \<and> True \<and> (\<forall>p. length p = 16 * dp_cols d \<longrightarrow> length (f p) = 16 * dp_cols d)"
    using atoms len tk by (fastforce simp: deposits_def token_ok_def)
  have u: "dense_ok e \<and> length (dp_pages e) = length (dp_pages d) \<and> 16 * dp_cols e = 16 * dp_cols d
     \<and> (\<forall>j<length (dp_pages d). dp_pages e ! j = page_updates ?us (\<lambda>i. dp_pages d ! i) j)"
    unfolding e_def by (rule dense.updates_look [OF ok us]) simp
  then show "dense_ok e" "dp_cols e = dp_cols d" "length (dp_pages e) = length (dp_pages d)" by simp_all
  show "dp_pages e ! i = (if i div apb = bh \<and> i mod apb \<in> set (sn_atoms num g tk) \<and> 0 < apb
        then sn_deposit num g tk (i mod apb) (dp_pages d ! i) else dp_pages d ! i)" if i: "i < length (dp_pages d)"
  proof -
    have "distinct (map fst ?us)" using tk by (intro deposits_distinct) (simp add: token_ok_def)
    then have look: "dp_pages e ! i = (if bh * apb \<le> i \<and> i - bh * apb \<in> set (sn_atoms num g tk)
        then sn_deposit num g tk (i - bh * apb) (dp_pages d ! i) else dp_pages d ! i)"
      using u i by (simp add: page_updates_distinct map_of_deposits)
    show ?thesis
    proof (cases "bh * apb \<le> i \<and> i - bh * apb \<in> set (sn_atoms num g tk)")
      case True
      define x where "x = i - bh * apb"
      have x: "x < apb" "i = bh * apb + x" using True atoms by (auto simp: x_def)
      then have "i div apb = bh" "i mod apb = x" by simp_all
      then show ?thesis using look True x(1) by (simp add: x_def [symmetric])
    next
      case False
      have "\<not> (i div apb = bh \<and> i mod apb \<in> set (sn_atoms num g tk) \<and> 0 < apb)"
      proof
        assume h: "i div apb = bh \<and> i mod apb \<in> set (sn_atoms num g tk) \<and> 0 < apb"
        then have "i = bh * apb + i mod apb" by (metis div_mult_mod_eq)
        then show False using False h by (metis add_diff_cancel_left' le_add1)
      qed
      then show ?thesis using look False by (simp only: if_False)
    qed
  qed
qed

lemma dense_rows_ok:
  assumes "dense_ok d" "(bh + length tks) * apb \<le> length (dp_pages d)" "0 < apb"
    "\<forall>tk\<in>set tks. token_ok num g apb (16 * dp_cols d) tk" "dense_rows num g apb bh tks d = (ys, e)"
  shows "dense_ok e \<and> dp_cols e = dp_cols d \<and> length (dp_pages e) = length (dp_pages d) \<and> length ys = length tks
    \<and> (\<forall>i<length (dp_pages d). dp_pages e ! i =
         (if bh \<le> i div apb \<and> i div apb < bh + length tks \<and> i mod apb \<in> set (sn_atoms num g (tks ! (i div apb - bh)))
          then sn_deposit num g (tks ! (i div apb - bh)) (i mod apb) (dp_pages d ! i) else dp_pages d ! i))
    \<and> (\<forall>k<length tks. ys ! k = Some (sn_read num g (tks ! k) (dense_row_pages apb (bh + k) e)))"
  using assms
proof (induction tks arbitrary: bh d ys)
  case (Cons tk tks)
  let ?d1 = "run_updates dense_put (\<lambda>d i. dp_pages d ! i) (deposits num g tk (bh * apb)) d"
  obtain ys' where w: "dense_rows num g apb (bh + 1) tks ?d1 = (ys', e)" "ys = Some (sn_read num g tk (dense_row_pages apb bh ?d1)) # ys'"
    using Cons.prems(5) by (auto simp: Let_def split: prod.splits)
  have len: "bh * apb + apb \<le> length (dp_pages d)" using Cons.prems(2) by (simp add: algebra_simps)
  have tk: "token_ok num g apb (16 * dp_cols d) tk" using Cons.prems(4) by simp
  note d1 = dense_deposit [OF Cons.prems(1) len tk]
  have IH: "dense_ok e \<and> dp_cols e = dp_cols ?d1 \<and> length (dp_pages e) = length (dp_pages ?d1) \<and> length ys' = length tks
    \<and> (\<forall>i<length (dp_pages ?d1). dp_pages e ! i =
         (if bh + 1 \<le> i div apb \<and> i div apb < bh + 1 + length tks \<and> i mod apb \<in> set (sn_atoms num g (tks ! (i div apb - (bh + 1))))
          then sn_deposit num g (tks ! (i div apb - (bh + 1))) (i mod apb) (dp_pages ?d1 ! i) else dp_pages ?d1 ! i))
    \<and> (\<forall>k<length tks. ys' ! k = Some (sn_read num g (tks ! k) (dense_row_pages apb (bh + 1 + k) e)))"
  proof (rule Cons.IH [OF d1(1) _ Cons.prems(3) _ w(1)])
    show "(bh + 1 + length tks) * apb \<le> length (dp_pages ?d1)" using Cons.prems(2) d1(3) by simp
    show "\<forall>t\<in>set tks. token_ok num g apb (16 * dp_cols ?d1) t" using Cons.prems(4) d1(2) by simp
  qed
  have pages: "dp_pages e ! i =
         (if bh \<le> i div apb \<and> i div apb < bh + length (tk # tks) \<and> i mod apb \<in> set (sn_atoms num g ((tk # tks) ! (i div apb - bh)))
          then sn_deposit num g ((tk # tks) ! (i div apb - bh)) (i mod apb) (dp_pages d ! i) else dp_pages d ! i)"
    if i: "i < length (dp_pages d)" for i
  proof -
    have rest: "dp_pages e ! i =
         (if bh + 1 \<le> i div apb \<and> i div apb < bh + 1 + length tks \<and> i mod apb \<in> set (sn_atoms num g (tks ! (i div apb - (bh + 1))))
          then sn_deposit num g (tks ! (i div apb - (bh + 1))) (i mod apb) (dp_pages ?d1 ! i) else dp_pages ?d1 ! i)"
      using IH i d1(3) by simp
    note own = d1(4) [OF i]
    show ?thesis
    proof (cases "i div apb \<le> bh")
      case True
      then have "dp_pages e ! i = dp_pages ?d1 ! i" by (simp add: rest)
      then show ?thesis using True Cons.prems(3) by (cases "i div apb = bh") (simp_all add: own)
    next
      case False
      then have "dp_pages ?d1 ! i = dp_pages d ! i" by (simp add: own)
      moreover have "i div apb - bh = Suc (i div apb - (bh + 1))" "bh + 1 \<le> i div apb" using False by simp_all
      ultimately show ?thesis by (simp add: rest)
    qed
  qed
  have own: "dense_row_pages apb bh e = dense_row_pages apb bh ?d1"
    unfolding dense_row_pages_def
  proof (rule map_cong [OF refl])
    fix x assume "x \<in> set [0..<apb]"
    then have x: "x < apb" by simp
    have i: "bh * apb + x < length (dp_pages ?d1)" using x len d1(3) by simp
    have "(bh * apb + x) div apb = bh" using x by simp
    then show "dp_pages e ! (bh * apb + x) = dp_pages ?d1 ! (bh * apb + x)" using IH i by simp
  qed
  have ys: "ys ! k = Some (sn_read num g ((tk # tks) ! k) (dense_row_pages apb (bh + k) e))" if "k < length (tk # tks)" for k
    using IH w(2) own that by (cases k) simp_all
  show ?case using IH d1(2,3) pages ys w(2) by simp
qed auto

lemma dense_step_done:
  assumes "dense_ok d" "length tks * apb = length (dp_pages d)" "0 < apb"
    "\<forall>tk\<in>set tks. token_ok num g apb (16 * dp_cols d) tk" "dense_rows num g apb 0 tks d = (ys, e)"
  shows "dense_ok e" "\<forall>i<length (dp_pages d). dp_pages e ! i = stepped num g apb tks (\<lambda>i. dp_pages d ! i) i"
    "ys = map (\<lambda>bh. Some (y_row num g apb tks (\<lambda>i. dp_pages d ! i) bh)) [0..<length tks]"
proof -
  note r = dense_rows_ok [OF assms(1) _ assms(3-5)]
  have row: "i div apb < length tks" if "i < length (dp_pages d)" for i
    using that assms(2,3) by (simp add: less_mult_imp_div_less)
  show "dense_ok e" using r assms(2) by simp
  show pages: "\<forall>i<length (dp_pages d). dp_pages e ! i = stepped num g apb tks (\<lambda>i. dp_pages d ! i) i"
    using r assms(2) row by (simp add: stepped_def Let_def)
  show "ys = map (\<lambda>bh. Some (y_row num g apb tks (\<lambda>i. dp_pages d ! i) bh)) [0..<length tks]"
  proof (rule nth_equalityI)
    show "length ys = length (map (\<lambda>bh. Some (y_row num g apb tks (\<lambda>i. dp_pages d ! i) bh)) [0..<length tks])" using r assms(2) by simp
    fix k assume "k < length ys"
    then have k: "k < length tks" using r assms(2) by simp
    have "k * apb + x < length (dp_pages d)" if "x < apb" for x
      using mult_add_less [OF k that] assms(2) by simp
    then have "dense_row_pages apb k e = map (\<lambda>x. stepped num g apb tks (\<lambda>i. dp_pages d ! i) (k * apb + x)) [0..<apb]"
      using pages by (simp add: dense_row_pages_def)
    then show "ys ! k = map (\<lambda>bh. Some (y_row num g apb tks (\<lambda>i. dp_pages d ! i) bh)) [0..<length tks] ! k"
      using r assms(2) k by (simp add: y_row_def)
  qed
qed

end
