(* ===== verification/Rola_Decode_Dag.thy ===== *)
theory Rola_Decode_Dag
  imports Rola_Step
begin

text \<open>
  The decode family: its plan (\<^verbatim>\<open>rola/engine/plan.py\<close>), the nodes, the two recipes and the
  entries of \<^verbatim>\<open>rola/engine/dags/decode_dag.py\<close>, and the raw-tensor entry of
  \<^verbatim>\<open>rola/ops/decode.py\<close>. The world holds the heap of storages, the state objects and the
  scratches by identity, so that a fact is a reference and a launch updates in place.
\<close>

section \<open>The plan and the facts\<close>

record decode_plan =
  dl_config :: decode_geometry
  dl_heads :: nat
  dl_read :: "tensor list"
  dl_write :: "tensor list"
  dl_normalize :: "bool list"
  dl_dials :: "fval list list option"
  dl_g_write :: "tensor option"
  dl_v :: tensor
  dl_state_plane :: state_view
  dl_page_table :: "nat list option"
  dl_scratch :: nat
  dl_pool :: "nat option"

datatype decode_value =
    DRoutes (un_droutes: chunk_routes) | DTensor (un_dtensor: tensor) | DDecay (un_ddecay: "dial list")
  | DState (un_dstate: nat) | DExpert (un_dexpert: expert) | DBool (un_dbool: bool) | DNat (un_dnat: nat)
  | DWidths (un_dwidths: "nat list") | DDevice (un_ddevice: string) | DGeometry (un_dgeometry: decode_geometry)
  | DScratch (un_dscratch: nat) | DPlane (un_dplane: state_view) | DTable (un_dtable: "nat list")
  | DPool (un_dpool: nat) | DPlan (un_dplan: decode_plan) | DBits (un_dbits: "bool list list")

type_synonym decode_bag = "decode_value bag"

record 'a decode_env =
  de_binary :: decode_binary
  de_cast :: "fval \<Rightarrow> fval"
  de_grad_enabled :: bool
  de_numerics :: "'a numerics"
  de_junk :: int
  de_junk_bits :: "nat \<Rightarrow> bool list"
  de_unwritten :: "nat \<Rightarrow> 'a list"

record 'a decode_world =
  dw_heap :: "'a heap"
  dw_states :: "rola_state list"
  dw_scratch :: "decode_scratch list"

type_synonym 'a decode_body = "decode_bag \<Rightarrow> 'a decode_world \<Rightarrow> (decode_value fact, 'a decode_world) step"
type_synonym 'a decode_node = "(decode_value, 'a decode_world) node"

section \<open>The launch\<close>

text \<open>The operands of a batch-head, gathered from the producer's own views.\<close>

definition level_row :: "'a heap \<Rightarrow> nat \<Rightarrow> nat \<Rightarrow> tensor \<Rightarrow> 'a list" where
  "level_row h b hh t = map (\<lambda>d. value_at h t [b, 0, hh, d]) [0..<level_width t]"

definition token_at ::
    "'a heap \<Rightarrow> tensor \<Rightarrow> tensor list \<Rightarrow> tensor list \<Rightarrow> bool list \<Rightarrow> fval list list option \<Rightarrow> tensor \<Rightarrow> nat \<Rightarrow> 'a token" where
  "token_at h v read write nz dials g bh =
     (let b = bh div (tn_shape v ! 2); hh = bh mod (tn_shape v ! 2) in
      \<lparr>tk_read = map (level_row h b hh) read, tk_write = map (level_row h b hh) write,
       tk_normalize = nz, tk_dials = map_option (\<lambda>rows. rows ! hh) dials,
       tk_gain = value_at h g [b, 0, hh], tk_value = level_row h b hh v\<rparr>)"

definition token_of :: "'a heap \<Rightarrow> decode_plan \<Rightarrow> tensor \<Rightarrow> nat \<Rightarrow> 'a token" where
  "token_of h p = token_at h (dl_v p) (dl_read p) (dl_write p) (dl_normalize p) (dl_dials p)"

definition plan_BH :: "decode_plan \<Rightarrow> nat" where
  "plan_BH p = tn_shape (dl_v p) ! 0 * tn_shape (dl_v p) ! 2"

text \<open>What the kernel does to the state and the scratch of its plan.\<close>

definition launch_state ::
    "'a numerics \<Rightarrow> decode_plan \<Rightarrow> 'a token list \<Rightarrow> rola_state \<Rightarrow> decode_scratch \<Rightarrow> 'a list option list \<times> rola_state \<times> decode_scratch" where
  "launch_state num p tks st sc =
     (case (dl_page_table p, rs_arena st, rs_plane st) of
        (Some _, Some (args, a), _) \<Rightarrow>
          (case paged_step num (dl_config p) tks a sc of (ys, b, sc') \<Rightarrow> (ys, st\<lparr>rs_arena := Some (args, b)\<rparr>, sc'))
      | (None, _, Some d) \<Rightarrow>
          (case dense_rows num (dl_config p) (geometry_N (dl_config p) div MMA_K_QUANTUM) 0 tks d of
             (ys, e) \<Rightarrow> (ys, st\<lparr>rs_plane := Some e\<rparr>, sc))
      | _ \<Rightarrow> ([], st, sc))"

text \<open>
  \<^verbatim>\<open>step\<close>: the launch and its \<^verbatim>\<open>y\<close>. With one token the permuted view of \<^verbatim>\<open>[BH, d_v]\<close> is
  \<^verbatim>\<open>[B, 1, H, d_v]\<close> over the same storage.
\<close>

definition decode_launch :: "'a decode_env \<Rightarrow> decode_plan \<Rightarrow> 'a decode_world \<Rightarrow> (tensor, 'a decode_world) step" where
  "decode_launch env p w =
     (case dl_g_write p of
        None \<Rightarrow> (Inl (TypeError ''incompatible function arguments''), w)
      | Some g \<Rightarrow>
          let tks = map (token_of (dw_heap w) p g) [0..<plan_BH p];
              n = sv_owner (dl_state_plane p);
              (ys, st, sc) = launch_state (de_numerics env) p tks (dw_states w ! n) (dw_scratch w ! dl_scratch p);
              rows = map (\<lambda>bh. case ys ! bh of Some row \<Rightarrow> row | None \<Rightarrow> de_unwritten env bh) [0..<length ys];
              (y, h) = fresh_tensor [tn_shape (dl_v p) ! 0, 1, tn_shape (dl_v p) ! 2, dg_d_v (dl_config p)] F32
                         (tn_device (dl_v p)) (concat rows) (dw_heap w)
          in (Inr y, w\<lparr>dw_heap := h, dw_states := (dw_states w)[n := st], dw_scratch := (dw_scratch w)[dl_scratch p := sc]\<rparr>))"

section \<open>The bodies\<close>

definition decode_call_body :: "'a decode_body" where
  "decode_call_body f w =
     (rbind (need f ''routes'' is_DRoutes un_droutes) (\<lambda>r.
      rbind (need f ''v'' is_DTensor un_dtensor) (\<lambda>v.
      rbind (need f ''state'' is_DState un_dstate) (\<lambda>n.
        if tn_shape v = [] then Inl (IndexError ''tuple index out of range'')
        else Inr (FTuple [FVal (DWidths (topology_widths (cr_topology r))), FVal (DNat (last (tn_shape v))),
          FVal (DBool (given f ''decay'')), FVal (DNat (rf_batch (factors_of r) * rf_heads (factors_of r))),
          FVal (DDevice (rf_device (factors_of r))), FVal (DBool (state_paged (dw_states w ! n)))])))), w)"

definition decode_mask_fold :: "decode_value fact list \<Rightarrow> decode_value fact res" where
  "decode_mask_fold vs = (case vs of
       [FVal (DBool b)] \<Rightarrow> Inr (FMask (decode_mask b)) | [FNone] \<Rightarrow> Inr (FMask (decode_mask False))
     | _ \<Rightarrow> Inr (FMask (decode_mask True)))"

definition geometry_body :: "'a decode_env \<Rightarrow> 'a decode_body" where
  "geometry_body env = host (\<lambda>f.
     rbind (need f ''routes'' is_DRoutes un_droutes) (\<lambda>r.
     rbind (need f ''d_v'' is_DNat un_dnat) (\<lambda>d_v.
     rbind (need f ''has_decay'' is_DBool un_dbool) (\<lambda>decay.
     rbind (need f ''BH'' is_DNat un_dnat) (\<lambda>BH.
     rbind (need f ''device'' is_DDevice un_ddevice) (\<lambda>dev.
     rbind (derive_decode_geometry (de_binary env) (topology_widths (cr_topology r)) d_v decay BH dev READOUT_EPS None) (\<lambda>g.
       Inr (FVal (DGeometry g)))))))))"

definition scratch_body :: "'a decode_env \<Rightarrow> 'a decode_body" where
  "scratch_body env f w =
     (case rbind (need f ''geometry'' is_DGeometry un_dgeometry) (\<lambda>g.
           rbind (need f ''BH'' is_DNat un_dnat) (\<lambda>BH. Inr (g, BH))) of
        Inl e \<Rightarrow> (Inl e, w)
      | Inr (g, BH) \<Rightarrow>
          (Inr (FVal (DScratch (length (dw_scratch w)))),
           w\<lparr>dw_scratch := dw_scratch w @ [build_scratch (de_junk env) (de_junk_bits env) g BH]\<rparr>))"

text \<open>The carried plane, by its shape and owner.\<close>

definition carried_view :: "nat \<Rightarrow> rola_state \<Rightarrow> page list \<Rightarrow> state_view" where
  "carried_view n s plane =
     \<lparr>sv_shape = (case rs_arena s of
          Some (args, a) \<Rightarrow> [length plane, MMA_K_QUANTUM, ar_cols a]
        | None \<Rightarrow> (case rs_shape s of Some (B, H, N, cols) \<Rightarrow> [B, H, N, cols] | None \<Rightarrow> [])),
      sv_owner = n\<rparr>"

definition decode_backing_body :: "'a decode_body" where
  "decode_backing_body f w =
     (rbind (need f ''state'' is_DState un_dstate) (\<lambda>n.
      rbind (need f ''routes'' is_DRoutes un_droutes) (\<lambda>r.
      rbind (decode_entry (call_routes_of r) (dw_states w ! n)) (\<lambda>(plane, table, arena).
        Inr (FTuple [FVal (DPlane (carried_view n (dw_states w ! n) plane)),
          fopt DTable (map_option (\<lambda>a. [ar_BH a, ar_apb a]) arena), fopt DPool (map_option (\<lambda>_. n) arena)])))), w)"

definition state_plane_body :: "'a decode_body" where
  "state_plane_body = host (\<lambda>f.
     rbind (need f ''v'' is_DTensor un_dtensor) (\<lambda>v.
     rbind (need f ''geometry'' is_DGeometry un_dgeometry) (\<lambda>g.
     rbind (need f ''carried_plane'' is_DPlane un_dplane) (\<lambda>p.
     rbind (maybe f ''page_table'' is_DTable un_dtable) (\<lambda>table.
     rbind (step_plane (tn_shape v) g (given f ''decay'') p table) (\<lambda>q. Inr (FVal (DPlane q))))))))"

definition decode_plan_body :: "'a decode_env \<Rightarrow> 'a decode_body" where
  "decode_plan_body env = host (\<lambda>f.
     rbind (need f ''routes'' is_DRoutes un_droutes) (\<lambda>r.
     rbind (need f ''geometry'' is_DGeometry un_dgeometry) (\<lambda>g.
     rbind (read_needs_normalization (factors_of r)) (\<lambda>norm.
     rbind (maybe f ''decay'' is_DDecay un_ddecay) (\<lambda>decay.
     rbind (need f ''v'' is_DTensor un_dtensor) (\<lambda>v.
     rbind (leaf_rate_dials_for (de_cast env) decay g) (\<lambda>dials.
     rbind (need f ''state_plane'' is_DPlane un_dplane) (\<lambda>p.
     rbind (maybe f ''page_table'' is_DTable un_dtable) (\<lambda>table.
     rbind (need f ''scratch'' is_DScratch un_dscratch) (\<lambda>sc.
     rbind (maybe f ''pool'' is_DPool un_dpool) (\<lambda>pool.
       Inr (FVal (DPlan \<lparr>dl_config = g, dl_heads = rf_heads (factors_of r), dl_read = cr_read r, dl_write = cr_write r,
         dl_normalize = norm, dl_dials = dials, dl_g_write = cr_g_write r, dl_v = v, dl_state_plane = p,
         dl_page_table = table, dl_scratch = sc, dl_pool = pool\<rparr>)))))))))))))"

definition step_body :: "'a decode_env \<Rightarrow> 'a decode_body" where
  "step_body env f w =
     (case need f ''plan'' is_DPlan un_dplan of Inl e \<Rightarrow> (Inl e, w)
      | Inr p \<Rightarrow> (case decode_launch env p w of (Inl e, w') \<Rightarrow> (Inl e, w') | (Inr y, w') \<Rightarrow> (Inr (FVal (DTensor y)), w')))"

text \<open>The one device-to-host read, through the pinned mirror.\<close>

definition read_growth :: "nat \<Rightarrow> 'a decode_world \<Rightarrow> bool \<times> 'a decode_world" where
  "read_growth i w =
     (let sc = dw_scratch w ! i in
      (sc_growth_any sc \<noteq> 0, w\<lparr>dw_scratch := (dw_scratch w)[i := sc\<lparr>sc_growth_host := sc_growth_any sc\<rparr>]\<rparr>))"

definition read_verdict_body :: "'a decode_body" where
  "read_verdict_body f w =
     (case need f ''scratch'' is_DScratch un_dscratch of Inl e \<Rightarrow> (Inl e, w)
      | Inr i \<Rightarrow> (case read_growth i w of (b, w') \<Rightarrow> (Inr (FVal (DBool b)), w')))"

definition write_atom_body :: "'a :: zero decode_env \<Rightarrow> 'a decode_body" where
  "write_atom_body env f w =
     (rbind (need f ''routes'' is_DRoutes un_droutes) (\<lambda>r.
      rbind (need f ''geometry'' is_DGeometry un_dgeometry) (\<lambda>g.
      rbind (write_atom_bitmap (de_junk_bits env (geometry_N g)) (dw_heap w) (cr_write r) g) (\<lambda>rows.
        Inr (FVal (DBits rows))))), w)"

section \<open>The nodes and the recipes\<close>

definition DECODE :: "mask list" where "DECODE = [M3, M4]"
definition DECODE_SEEDS :: "string list" where "DECODE_SEEDS = [''routes'', ''v'', ''decay'', ''state'', ''expert'']"

definition decode_call_node :: "'a decode_node res" where
  "decode_call_node = node_declare ((plain_node ''decode_call'' 0 decode_call_body)
     \<lparr>n_gives := [''widths'', ''d_v'', ''has_decay'', ''BH'', ''device'', ''paged''],
      n_needs := [''routes'', ''v'', ''decay'', ''state''], n_masks := DECODE, n_capturable := True\<rparr>)"
definition decode_mask_node :: "'a decode_node res" where
  "decode_mask_node = rule_declare ''decode_mask'' 1 [''mask''] [''paged''] DECODE [''paged''] decode_mask_fold"
definition geometry_node :: "'a decode_env \<Rightarrow> 'a decode_node res" where
  "geometry_node env = node_declare ((plain_node ''geometry'' 2 (geometry_body env))
     \<lparr>n_gives := [''geometry''], n_needs := [''routes'', ''widths'', ''d_v'', ''has_decay'', ''BH'', ''device''],
      n_pure_of := [''widths'', ''d_v'', ''has_decay'', ''BH'', ''device''], n_masks := DECODE, n_capturable := True\<rparr>)"
definition SCRATCH_TABLE :: nat where "SCRATCH_TABLE = 3"
definition scratch_node :: "'a decode_env \<Rightarrow> 'a decode_node res" where
  "scratch_node env = node_declare ((plain_node ''scratch'' SCRATCH_TABLE (scratch_body env))
     \<lparr>n_gives := [''scratch''], n_needs := [''state'', ''geometry'', ''BH'', ''device''], n_per_state := True,
      n_pure_of := [''geometry'', ''BH'', ''device''], n_masks := DECODE, n_capturable := True\<rparr>)"
definition decode_backing_node :: "'a decode_node res" where
  "decode_backing_node = node_declare ((plain_node ''backing'' 4 decode_backing_body)
     \<lparr>n_gives := [''carried_plane'', ''page_table'', ''pool''], n_needs := [''state'', ''routes''],
      n_stream := ''main'', n_masks := DECODE, n_capturable := True\<rparr>)"
definition state_plane_node :: "'a decode_node res" where
  "state_plane_node = node_declare ((plain_node ''state_plane'' 5 state_plane_body)
     \<lparr>n_gives := [''state_plane''], n_needs := [''v'', ''geometry'', ''decay'', ''carried_plane'', ''page_table''],
      n_masks := DECODE, n_capturable := True\<rparr>)"
definition decode_plan_node :: "'a decode_env \<Rightarrow> 'a decode_node res" where
  "decode_plan_node env = node_declare ((plain_node ''build_plan'' 6 (decode_plan_body env))
     \<lparr>n_gives := [''plan''],
      n_needs := [''geometry'', ''routes'', ''v'', ''decay'', ''state_plane'', ''page_table'', ''scratch'', ''pool''],
      n_stream := ''main'', n_masks := DECODE, n_capturable := True\<rparr>)"
definition step_node :: "'a decode_env \<Rightarrow> 'a decode_node res" where
  "step_node env = node_declare ((plain_node ''step'' 7 (step_body env))
     \<lparr>n_gives := [''y''], n_needs := [''plan''], n_stream := ''main'', n_masks := DECODE, n_capturable := True\<rparr>)"
definition read_verdict_node :: "'a decode_node res" where
  "read_verdict_node = node_declare ((plain_node ''read_verdict'' 8 read_verdict_body)
     \<lparr>n_gives := [''grow''], n_needs := [''scratch'', ''y''], n_masks := [M4], n_host_sync := True\<rparr>)"
definition write_atom_node :: "'a :: zero decode_env \<Rightarrow> 'a decode_node res" where
  "write_atom_node env = node_declare ((plain_node ''write_atom_bitmap'' 9 (write_atom_body env))
     \<lparr>n_gives := [''atom_bits''], n_needs := [''routes'', ''geometry''], n_masks := DECODE, n_reference_only := True\<rparr>)"

text \<open>The recipes with their import-time checks.\<close>

definition DECODE_STEP :: "'a decode_env \<Rightarrow> 'a decode_node list res" where
  "DECODE_STEP env =
     rbind (rmap (\<lambda>n. n) [decode_call_node, decode_mask_node, geometry_node env, scratch_node env, decode_backing_node,
        state_plane_node, decode_plan_node env, step_node env]) (\<lambda>dag.
     rbind (validate_dag dag DECODE_SEEDS) (\<lambda>_.
     rbind (validate_capturable dag) (\<lambda>_. Inr dag)))"

definition DECODE_VERDICT :: "'a decode_env \<Rightarrow> 'a decode_node list res" where
  "DECODE_VERDICT env =
     rbind (DECODE_STEP env) (\<lambda>dag.
     rbind read_verdict_node (\<lambda>n.
     rbind (validate_dag (dag @ [n]) DECODE_SEEDS) (\<lambda>_. Inr (dag @ [n]))))"

section \<open>The entries\<close>

record decode_context =
  dc_routes :: chunk_routes
  dc_v :: tensor
  dc_state :: nat
  dc_decay :: "dial list option"
  dc_expert :: expert

definition decode_operands :: "tensor \<Rightarrow> chunk_routes \<Rightarrow> dial list option \<Rightarrow> operand list" where
  "decode_operands v r decay =
     OTensor (tn_grad v) # (case cr_g_write r of Some g \<Rightarrow> OTensor (tn_grad g) | None \<Rightarrow> OOther)
     # map (\<lambda>t. OTensor (tn_grad t)) (cr_read r @ cr_write r)
     @ (case decay of None \<Rightarrow> [] | Some dials \<Rightarrow> map (\<lambda>d. OTensor (dial_grad d)) dials)"

definition validate_decode_context :: "'a decode_env \<Rightarrow> decode_context \<Rightarrow> 'a decode_world \<Rightarrow> unit res" where
  "validate_decode_context env cx w =
     rbind (require_carrying (dw_states w ! dc_state cx)) (\<lambda>_.
     rbind (refuse (rf_tokens (factors_of (dc_routes cx)) \<noteq> 1) (ValueError ''the decode op consumes exactly one token'')) (\<lambda>_.
       guard_no_grad (de_grad_enabled env) (decode_operands (dc_v cx) (dc_routes cx) (dc_decay cx))))"

definition decode_facts :: "decode_context \<Rightarrow> decode_bag" where
  "decode_facts cx =
     [''routes'' \<mapsto> FVal (DRoutes (dc_routes cx)), ''v'' \<mapsto> FVal (DTensor (dc_v cx)), ''decay'' \<mapsto> fopt DDecay (dc_decay cx),
      ''state'' \<mapsto> FVal (DState (dc_state cx)),
      ''expert'' \<mapsto> (if dc_expert cx = NoExpert then FNone else FVal (DExpert (dc_expert cx)))]"

text \<open>The scratch of a state: the cells of the node's table for it.\<close>

definition scratch_table :: "nat \<Rightarrow> decode_value memo \<Rightarrow> decode_value fact list" where
  "scratch_table n memo = map snd (filter (\<lambda>((a, st, key), v). a = SCRATCH_TABLE \<and> st = Some (FVal (DState n))) memo)"

definition scratch_of :: "nat \<Rightarrow> decode_value memo \<Rightarrow> nat option res" where
  "scratch_of n memo =
     (case scratch_table n memo of
        [] \<Rightarrow> Inr None
      | [FVal (DScratch i)] \<Rightarrow> Inr (Some i)
      | [_] \<Rightarrow> Inl (AttributeError ''growth_any'')
      | _ \<Rightarrow> Inl (RuntimeError ''decode scratches are alive for one state''))"

type_synonym ('r, 'a) decode_entry_step = "'r res \<times> decode_value memo \<times> 'a decode_world"

definition y_of :: "decode_bag \<Rightarrow> tensor res" where
  "y_of f = (case f ''y'' of Some (FVal (DTensor y)) \<Rightarrow> Inr y | _ \<Rightarrow> Inl (KeyError ''y''))"

definition walk_step_dag :: "'a decode_env \<Rightarrow> decode_context \<Rightarrow> decode_value memo \<Rightarrow> 'a decode_world \<Rightarrow> (tensor, 'a) decode_entry_step" where
  "walk_step_dag env cx memo w =
     (case DECODE_STEP env of Inl e \<Rightarrow> (Inl e, memo, w)
      | Inr dag \<Rightarrow> (case run dag (decode_facts cx) memo w of
            (Inl e, memo', w') \<Rightarrow> (Inl e, memo', w')
          | (Inr f, memo', w') \<Rightarrow> (y_of f, memo', w')))"

definition decode_step_gated ::
    "'a decode_env \<Rightarrow> decode_context \<Rightarrow> decode_value memo \<Rightarrow> 'a decode_world \<Rightarrow> (tensor, 'a) decode_entry_step" where
  "decode_step_gated env cx memo w =
     (case validate_decode_context env cx w of Inl e \<Rightarrow> (Inl e, memo, w) | Inr _ \<Rightarrow> walk_step_dag env cx memo w)"

definition growth_pending :: "nat \<Rightarrow> decode_value memo \<Rightarrow> 'a decode_world \<Rightarrow> (bool, 'a decode_world) step" where
  "growth_pending n memo w =
     (case scratch_of n memo of
        Inl e \<Rightarrow> (Inl e, w)
      | Inr None \<Rightarrow> (Inr False, w)
      | Inr (Some i) \<Rightarrow>
          if \<not> state_paged (dw_states w ! n) then (Inr False, w)
          else (case read_growth i w of (b, w') \<Rightarrow> (Inr b, w')))"

definition admit_growth :: "nat \<Rightarrow> decode_value memo \<Rightarrow> 'a decode_world \<Rightarrow> (unit, 'a decode_world) step" where
  "admit_growth n memo w =
     (case scratch_of n memo of
        Inl e \<Rightarrow> (Inl e, w)
      | Inr None \<Rightarrow> (Inl (RuntimeError ''admit_growth wants the workspace a gated step leaves behind''), w)
      | Inr (Some i) \<Rightarrow>
          (case decode_entry_arena (sc_atom_bits (dw_scratch w ! i)) (dw_states w ! n) of
             (r, s) \<Rightarrow> (rbind r (\<lambda>_. Inr ()), w\<lparr>dw_states := (dw_states w)[n := s]\<rparr>)))"

definition state_pool_headroom :: "rola_state \<Rightarrow> int" where
  "state_pool_headroom s = (case rs_arena s of None \<Rightarrow> 0 | Some (args, a) \<Rightarrow> pool_headroom a)"

definition state_refill_pool :: "rola_state \<Rightarrow> (nat, rola_state) step" where
  "state_refill_pool s =
     (case rs_arena s of
        None \<Rightarrow> (Inl (RuntimeError ''a pool refill wants a paged state; this one is dense''), s)
      | Some (args, a) \<Rightarrow> (case refill_pool a of (r, b) \<Rightarrow> (r, s\<lparr>rs_arena := Some (args, b)\<rparr>)))"

definition truthy :: "decode_value fact option \<Rightarrow> bool" where
  "truthy x = (case x of Some (FVal (DBool b)) \<Rightarrow> b | Some FNone \<Rightarrow> False | None \<Rightarrow> False | _ \<Rightarrow> True)"

definition decode_forward ::
    "'a decode_env \<Rightarrow> decode_context \<Rightarrow> decode_value memo \<Rightarrow> 'a decode_world \<Rightarrow> (tensor, 'a) decode_entry_step" where
  "decode_forward env cx memo w =
     (case rbind (validate_decode_context env cx w) (\<lambda>_. DECODE_VERDICT env) of
        Inl e \<Rightarrow> (Inl e, memo, w)
      | Inr dag \<Rightarrow>
        (case run dag (decode_facts cx) memo w of
           (Inl e, memo1, w1) \<Rightarrow> (Inl e, memo1, w1)
         | (Inr f, memo1, w1) \<Rightarrow>
           if \<not> truthy (f ''grow'') then (y_of f, memo1, w1)
           else (case admit_growth (dc_state cx) memo1 w1 of
               (Inl e, w2) \<Rightarrow> (Inl e, memo1, w2)
             | (Inr _, w2) \<Rightarrow> walk_step_dag env cx memo1 w2)))"

section \<open>The raw-tensor entry\<close>

text \<open>\<^verbatim>\<open>pad_v\<close> and \<^verbatim>\<open>slice_y\<close> on a strided tensor.\<close>

definition pad_tensor :: "'a :: zero heap \<Rightarrow> tensor \<Rightarrow> nat \<Rightarrow> (tensor \<times> 'a heap) res" where
  "pad_tensor h t width =
     (let current = last (tn_shape t) in
      if current = width then Inr (t, h)
      else if current > width then Inl (ValueError ''padding only ever widens'')
      else let shape = butlast (tn_shape t) @ [width] in
        Inr (fresh_tensor shape (tn_dtype t) (tn_device t)
          (tabulate shape (\<lambda>idx. if last idx < current then value_at h t idx else 0)) h))"

definition slice_tensor :: "tensor \<Rightarrow> nat \<Rightarrow> tensor" where
  "slice_tensor t d_v = t\<lparr>tn_shape := butlast (tn_shape t) @ [min d_v (last (tn_shape t))]\<rparr>"

definition decode_step_raw ::
    "'a :: zero decode_env \<Rightarrow> tensor \<Rightarrow> tensor list \<Rightarrow> tensor list \<Rightarrow> tensor \<Rightarrow> decode_geometry \<Rightarrow> state_view
     \<Rightarrow> dial list option \<Rightarrow> bool list option \<Rightarrow> nat option \<Rightarrow> nat list option \<Rightarrow> nat option
     \<Rightarrow> 'a decode_world \<Rightarrow> (tensor \<times> nat, 'a decode_world) step" where
  "decode_step_raw env v read write g config state decay norms workspace table pool w =
     (case rbind (guard_no_grad (de_grad_enabled env)
             (map (\<lambda>t. OTensor (tn_grad t)) (v # g # read @ write)
              @ (case decay of None \<Rightarrow> [] | Some dials \<Rightarrow> map (\<lambda>d. OTensor (dial_grad d)) dials))) (\<lambda>_.
           if tn_shape v = [] then Inl (IndexError ''tuple index out of range'')
           else rbind (pad_tensor (dw_heap w) v (dg_d_v config)) (\<lambda>(u, h).
           rbind (step_plane (tn_shape u) config (decay \<noteq> None) state table) (\<lambda>plane.
           rbind (leaf_rate_dials_for (de_cast env) decay config) (\<lambda>dials. Inr (u, h, plane, dials))))) of
        Inl e \<Rightarrow> (Inl e, w)
      | Inr (u, h, plane, dials) \<Rightarrow>
          let BH = tn_shape u ! 0 * tn_shape u ! 2;
              (i, scratches) = (case workspace of Some i \<Rightarrow> (i, dw_scratch w)
                 | None \<Rightarrow> (length (dw_scratch w), dw_scratch w @ [build_scratch (de_junk env) (de_junk_bits env) config BH]));
              p = \<lparr>dl_config = config, dl_heads = tn_shape u ! 2, dl_read = read, dl_write = write,
                   dl_normalize = (case norms of None \<Rightarrow> replicate (dg_D config) False | Some n \<Rightarrow> n), dl_dials = dials,
                   dl_g_write = Some g, dl_v = u, dl_state_plane = plane, dl_page_table = table, dl_scratch = i, dl_pool = pool\<rparr>
          in (case decode_launch env p (w\<lparr>dw_heap := h, dw_scratch := scratches\<rparr>) of
               (Inl e, w') \<Rightarrow> (Inl e, w')
             | (Inr y, w') \<Rightarrow> (Inr (slice_tensor y (last (tn_shape v)), i), w')))"

end
