(* ===== verification/Rola_Decode_Walk.thy ===== *)
theory Rola_Decode_Walk
  imports Rola_Decode_Dag Rola_Runner_Props
begin

text \<open>
  The walk of the decode recipes: the declarations are accepted at import, and the walk is the
  straight-line program its nodes spell out. The locales \<open>recipe\<close> and \<open>cached_recipe\<close> are interpreted
  on the model's own recipes.
\<close>

section \<open>The recipes\<close>

lemmas decode_node_defs = decode_call_node_def decode_mask_node_def geometry_node_def scratch_node_def
  decode_backing_node_def state_plane_node_def decode_plan_node_def step_node_def read_verdict_node_def DECODE_def

definition decode_nodes :: "'a decode_env \<Rightarrow> 'a decode_node list" where
  "decode_nodes env = map projr [decode_call_node, decode_mask_node, geometry_node env, scratch_node env, decode_backing_node,
        state_plane_node, decode_plan_node env, step_node env]"

definition verdict_nodes :: "'a decode_env \<Rightarrow> 'a decode_node list" where
  "verdict_nodes env = decode_nodes env @ [projr read_verdict_node]"

lemma decode_nodes_declared: "\<forall>s\<in>set (decode_nodes env). node_declare s = Inr s"
  "\<forall>s\<in>set (verdict_nodes env). node_declare s = Inr s"
  by (simp_all add: decode_nodes_def verdict_nodes_def decode_node_defs node_declare_def rule_declare_def)

lemma decode_nodes_valid: "validate_dag (decode_nodes env) DECODE_SEEDS = Inr ()"
  "validate_dag (verdict_nodes env) DECODE_SEEDS = Inr ()"
  by (simp_all add: validate_dag_def decode_nodes_def verdict_nodes_def decode_node_defs node_declare_def rule_declare_def DECODE_SEEDS_def)

lemma decode_nodes_capturable: "validate_capturable (decode_nodes env) = Inr ()"
  by (simp add: validate_capturable_def refuse_def decode_nodes_def decode_node_defs node_declare_def rule_declare_def)

lemma DECODE_STEP_nodes: "DECODE_STEP env = Inr (decode_nodes env)"
proof -
  have "rmap (\<lambda>n. n) [decode_call_node, decode_mask_node, geometry_node env, scratch_node env, decode_backing_node,
        state_plane_node, decode_plan_node env, step_node env] = Inr (decode_nodes env)"
    by (simp add: decode_nodes_def decode_node_defs node_declare_def rule_declare_def)
  then show ?thesis using decode_nodes_valid(1) [of env] decode_nodes_capturable [of env]
    by (simp add: DECODE_STEP_def del: rmap.simps)
qed

lemma read_verdict_declared: "read_verdict_node = Inr (projr read_verdict_node)"
  by (simp add: decode_node_defs node_declare_def)

lemma DECODE_VERDICT_nodes: "DECODE_VERDICT env = Inr (verdict_nodes env)"
  using decode_nodes_valid(2) [of env] read_verdict_declared
  by (simp add: DECODE_VERDICT_def DECODE_STEP_nodes verdict_nodes_def res_simps)

interpretation decode: recipe "decode_nodes env" DECODE_SEEDS for env
  by unfold_locales (rule decode_nodes_valid, rule decode_nodes_declared)

interpretation verdict: recipe "verdict_nodes env" DECODE_SEEDS for env
  by unfold_locales (rule decode_nodes_valid, rule decode_nodes_declared)

lemma decode_node_simps [simp]:
  "n_fn (projr decode_call_node) = decode_call_body"
  "n_fn (projr decode_mask_node) = (\<lambda>f w. (rbind (facts_of f [''paged'']) decode_mask_fold, w))"
  "n_fn (projr (geometry_node env)) = geometry_body env" "n_fn (projr (scratch_node env)) = scratch_body env"
  "n_fn (projr decode_backing_node) = decode_backing_body" "n_fn (projr state_plane_node) = state_plane_body"
  "n_fn (projr (decode_plan_node env)) = decode_plan_body env" "n_fn (projr (step_node env)) = step_body env"
  "n_fn (projr read_verdict_node) = read_verdict_body"
  "n_gives (projr decode_call_node) = [''widths'', ''d_v'', ''has_decay'', ''BH'', ''device'', ''paged'']"
  "n_gives (projr decode_mask_node) = [''mask'']" "n_gives (projr (geometry_node env)) = [''geometry'']"
  "n_gives (projr (scratch_node env)) = [''scratch'']"
  "n_gives (projr decode_backing_node) = [''carried_plane'', ''page_table'', ''pool'']"
  "n_gives (projr state_plane_node) = [''state_plane'']" "n_gives (projr (decode_plan_node env)) = [''plan'']"
  "n_gives (projr (step_node env)) = [''y'']" "n_gives (projr read_verdict_node) = [''grow'']"
  "n_needs (projr decode_call_node) = [''routes'', ''v'', ''decay'', ''state'']" "n_needs (projr decode_mask_node) = [''paged'']"
  "n_needs (projr (geometry_node env)) = [''routes'', ''widths'', ''d_v'', ''has_decay'', ''BH'', ''device'']"
  "n_needs (projr (scratch_node env)) = [''state'', ''geometry'', ''BH'', ''device'']"
  "n_needs (projr decode_backing_node) = [''state'', ''routes'']"
  "n_needs (projr state_plane_node) = [''v'', ''geometry'', ''decay'', ''carried_plane'', ''page_table'']"
  "n_needs (projr (decode_plan_node env)) = [''geometry'', ''routes'', ''v'', ''decay'', ''state_plane'', ''page_table'', ''scratch'', ''pool'']"
  "n_needs (projr (step_node env)) = [''plan'']" "n_needs (projr read_verdict_node) = [''scratch'', ''y'']"
  "n_masks (projr decode_call_node) = [M3, M4]" "n_masks (projr decode_mask_node) = [M3, M4]"
  "n_masks (projr (geometry_node env)) = [M3, M4]" "n_masks (projr (scratch_node env)) = [M3, M4]"
  "n_masks (projr decode_backing_node) = [M3, M4]" "n_masks (projr state_plane_node) = [M3, M4]"
  "n_masks (projr (decode_plan_node env)) = [M3, M4]" "n_masks (projr (step_node env)) = [M3, M4]"
  "n_masks (projr read_verdict_node) = [M4]"
  by (simp_all add: decode_node_defs node_declare_def rule_declare_def del: facts_of.simps)

lemma decode_cache_simps [simp]:
  "n_pure_of (projr decode_call_node) = []" "n_pure_of (projr decode_mask_node) = []"
  "n_pure_of (projr (geometry_node env)) = [''widths'', ''d_v'', ''has_decay'', ''BH'', ''device'']"
  "n_pure_of (projr (scratch_node env)) = [''geometry'', ''BH'', ''device'']"
  "n_pure_of (projr decode_backing_node) = []" "n_pure_of (projr state_plane_node) = []"
  "n_pure_of (projr (decode_plan_node env)) = []" "n_pure_of (projr (step_node env)) = []" "n_pure_of (projr read_verdict_node) = []"
  "\<not> n_per_state (projr decode_call_node)" "\<not> n_per_state (projr decode_mask_node)" "\<not> n_per_state (projr (geometry_node env))"
  "n_per_state (projr (scratch_node env))" "\<not> n_per_state (projr decode_backing_node)" "\<not> n_per_state (projr state_plane_node)"
  "\<not> n_per_state (projr (decode_plan_node env))" "\<not> n_per_state (projr (step_node env))" "\<not> n_per_state (projr read_verdict_node)"
  "n_memo (projr (geometry_node env)) = 2" "n_memo (projr (scratch_node env)) = SCRATCH_TABLE"
  by (simp_all add: decode_node_defs node_declare_def rule_declare_def del: facts_of.simps)

section \<open>The straight-line program\<close>

text \<open>
  What the step of a call is, with no recipe: the geometry of the call, the scratch of its state,
  the residency check, the plane, the plan and the launch.
\<close>

definition call_geometry :: "'a decode_env \<Rightarrow> decode_context \<Rightarrow> decode_geometry res" where
  "call_geometry env cx =
     derive_decode_geometry (de_binary env) (topology_widths (cr_topology (dc_routes cx))) (last (tn_shape (dc_v cx)))
       (dc_decay cx \<noteq> None) (rf_batch (factors_of (dc_routes cx)) * rf_heads (factors_of (dc_routes cx)))
       (rf_device (factors_of (dc_routes cx))) READOUT_EPS None"

definition call_BH :: "decode_context \<Rightarrow> nat" where
  "call_BH cx = rf_batch (factors_of (dc_routes cx)) * rf_heads (factors_of (dc_routes cx))"

definition scratch_key :: "decode_context \<Rightarrow> decode_geometry \<Rightarrow> nat \<times> decode_value fact option \<times> decode_value fact list" where
  "scratch_key cx g = (SCRATCH_TABLE, Some (FVal (DState (dc_state cx))),
     [FVal (DGeometry g), FVal (DNat (call_BH cx)), FVal (DDevice (rf_device (factors_of (dc_routes cx))))])"

definition call_scratch ::
    "'a decode_env \<Rightarrow> decode_context \<Rightarrow> decode_geometry \<Rightarrow> decode_value memo \<Rightarrow> 'a decode_world
     \<Rightarrow> decode_value fact \<times> decode_value memo \<times> 'a decode_world" where
  "call_scratch env cx g memo w =
     (case map_of memo (scratch_key cx g) of
        Some sc \<Rightarrow> (sc, memo, w)
      | None \<Rightarrow>
          let sc = FVal (DScratch (length (dw_scratch w))) in
          (sc, (scratch_key cx g, sc) # memo,
           w\<lparr>dw_scratch := dw_scratch w @ [build_scratch (de_junk env) (de_junk_bits env) g (call_BH cx)]\<rparr>))"

definition finish_plan ::
    "'a decode_env \<Rightarrow> decode_context \<Rightarrow> decode_geometry \<Rightarrow> decode_value fact \<Rightarrow> rola_state \<Rightarrow> page list \<Rightarrow> arena option \<Rightarrow> decode_plan res" where
  "finish_plan env cx g sc st plane arena =
     rbind (step_plane (tn_shape (dc_v cx)) g (dc_decay cx \<noteq> None) (carried_view (dc_state cx) st plane)
              (map_option (\<lambda>a. [ar_BH a, ar_apb a]) arena)) (\<lambda>q.
     rbind (read_needs_normalization (factors_of (dc_routes cx))) (\<lambda>norm.
     rbind (leaf_rate_dials_for (de_cast env) (dc_decay cx) g) (\<lambda>dials.
       (case sc of
          FVal (DScratch i) \<Rightarrow> Inr \<lparr>dl_config = g, dl_heads = rf_heads (factors_of (dc_routes cx)),
            dl_read = cr_read (dc_routes cx), dl_write = cr_write (dc_routes cx), dl_normalize = norm, dl_dials = dials,
            dl_g_write = cr_g_write (dc_routes cx), dl_v = dc_v cx, dl_state_plane = q,
            dl_page_table = map_option (\<lambda>a. [ar_BH a, ar_apb a]) arena, dl_scratch = i, dl_pool = map_option (\<lambda>_. dc_state cx) arena\<rparr>
        | _ \<Rightarrow> Inl (AttributeError ''scratch'')))))"

definition call_plan :: "'a decode_env \<Rightarrow> decode_context \<Rightarrow> decode_geometry \<Rightarrow> decode_value fact \<Rightarrow> rola_state \<Rightarrow> decode_plan res" where
  "call_plan env cx g sc st =
     rbind (decode_entry (call_routes_of (dc_routes cx)) st) (\<lambda>(plane, table, arena). finish_plan env cx g sc st plane arena)"

definition decode_straight ::
    "'a decode_env \<Rightarrow> decode_context \<Rightarrow> decode_value memo \<Rightarrow> 'a decode_world \<Rightarrow> (tensor, 'a) decode_entry_step" where
  "decode_straight env cx memo w =
     (if tn_shape (dc_v cx) = [] then (Inl (IndexError ''tuple index out of range''), memo, w)
      else case call_geometry env cx of Inl e \<Rightarrow> (Inl e, memo, w)
      | Inr g \<Rightarrow>
        (case call_scratch env cx g memo w of (sc, memo1, w1) \<Rightarrow>
          (case call_plan env cx g sc (dw_states w1 ! dc_state cx) of Inl e \<Rightarrow> (Inl e, memo1, w1)
           | Inr p \<Rightarrow> (case decode_launch env p w1 of (r, w2) \<Rightarrow> (r, memo1, w2)))))"

section \<open>The walk, node by node\<close>

text \<open>The bag as it grows.\<close>

definition bag_call :: "decode_context \<Rightarrow> rola_state \<Rightarrow> decode_bag" where
  "bag_call cx st = (decode_facts cx)(''widths'' \<mapsto> FVal (DWidths (topology_widths (cr_topology (dc_routes cx)))),
     ''d_v'' \<mapsto> FVal (DNat (last (tn_shape (dc_v cx)))), ''has_decay'' \<mapsto> FVal (DBool (dc_decay cx \<noteq> None)),
     ''BH'' \<mapsto> FVal (DNat (call_BH cx)), ''device'' \<mapsto> FVal (DDevice (rf_device (factors_of (dc_routes cx)))),
     ''paged'' \<mapsto> FVal (DBool (state_paged st)), ''mask'' \<mapsto> FMask (decode_mask (state_paged st)))"

definition bag_scratch :: "decode_context \<Rightarrow> rola_state \<Rightarrow> decode_geometry \<Rightarrow> decode_value fact \<Rightarrow> decode_bag" where
  "bag_scratch cx st g sc = (bag_call cx st)(''geometry'' \<mapsto> FVal (DGeometry g), ''scratch'' \<mapsto> sc)"

definition bag_entry :: "decode_context \<Rightarrow> rola_state \<Rightarrow> decode_geometry \<Rightarrow> decode_value fact \<Rightarrow> page list \<Rightarrow> arena option \<Rightarrow> decode_bag" where
  "bag_entry cx st g sc plane arena = (bag_scratch cx st g sc)(''carried_plane'' \<mapsto> FVal (DPlane (carried_view (dc_state cx) st plane)),
     ''page_table'' \<mapsto> fopt DTable (map_option (\<lambda>a. [ar_BH a, ar_apb a]) arena),
     ''pool'' \<mapsto> fopt DPool (map_option (\<lambda>_. dc_state cx) arena))"

lemma fopt_simps [simp]: "(fopt c x = FNone) = (x = None)" "fopt c None = FNone" "fopt c (Some y) = FVal (c y)"
  by (simp_all add: fopt_def split: option.split)

lemma maybe_fopt: "f x = Some (fopt c y) \<Longrightarrow> (\<And>z. is (c z)) \<Longrightarrow> (\<And>z. un (c z) = z) \<Longrightarrow> maybe f x is un = Inr y"
  by (cases y) (simp_all add: maybe_def)

lemma needI: "f x = Some (FVal v) \<Longrightarrow> is v \<Longrightarrow> need f x is un = Inr (un v)"
  by (simp add: need_def)

lemma in_decode_masks [simp]: "decode_mask b = M3 \<or> decode_mask b = M4" by (simp add: decode_mask_def)

text \<open>An uncached node on a bag that holds its needs, is not masked and gives nothing yet.\<close>

lemma walk_plain:
  assumes "n_pure_of s = []" "\<not> n_per_state s" "\<not> masked_out s facts" "\<not> supplied s facts" "set (n_needs s) \<subseteq> dom facts"
  shows "walk_step s facts memo w =
    (case n_fn s facts w of (Inl e, w') \<Rightarrow> (Inl e, memo, w') | (Inr v, w') \<Rightarrow> (unpack (n_gives s) v facts, memo, w'))"
  using assms by (simp add: walk_step_def produce_def table_of_def split: sum.split prod.split)

lemmas walk_gates = masked_out_def supplied_def

lemma walk_call:
  "run [projr decode_call_node, projr decode_mask_node] (decode_facts cx) memo (w :: 'a decode_world) =
     (if tn_shape (dc_v cx) = [] then (Inl (IndexError ''tuple index out of range''), memo, w)
      else (Inr (bag_call cx (dw_states w ! dc_state cx)), memo, w))"
proof -
  let ?b0 = "decode_facts cx"
  let ?b1 = "?b0(''widths'' \<mapsto> FVal (DWidths (topology_widths (cr_topology (dc_routes cx)))),
     ''d_v'' \<mapsto> FVal (DNat (last (tn_shape (dc_v cx)))), ''has_decay'' \<mapsto> FVal (DBool (dc_decay cx \<noteq> None)),
     ''BH'' \<mapsto> FVal (DNat (call_BH cx)), ''device'' \<mapsto> FVal (DDevice (rf_device (factors_of (dc_routes cx)))),
     ''paged'' \<mapsto> FVal (DBool (state_paged (dw_states w ! dc_state cx))))"
  have 1: "walk_step (projr decode_call_node) ?b0 memo w =
      (if tn_shape (dc_v cx) = [] then (Inl (IndexError ''tuple index out of range''), memo, w) else (Inr ?b1, memo, w))"
    by (subst walk_plain) (simp_all add: walk_gates decode_facts_def decode_call_body_def need_def given_def call_BH_def
        unpack_def map_upds_def)
  have 2: "walk_step (projr decode_mask_node) ?b1 memo w = (Inr (bag_call cx (dw_states w ! dc_state cx)), memo, w)"
    by (subst walk_plain) (simp_all add: walk_gates decode_facts_def decode_mask_fold_def unpack_def bag_call_def)
  show ?thesis
    by (cases "tn_shape (dc_v cx) = []") (simp_all only: run.simps 1 2 if_True if_False prod.case sum.case HOL.simp_thms)
qed

lemma walk_geometry:
  "walk_step (uncache (projr (geometry_node env))) (bag_call cx st) memo w =
     (case call_geometry env cx of Inl e \<Rightarrow> (Inl e, memo, w) | Inr g \<Rightarrow> (Inr ((bag_call cx st)(''geometry'' \<mapsto> FVal (DGeometry g))), memo, w))"
  by (subst walk_plain)
     (simp_all add: walk_gates bag_call_def decode_facts_def geometry_body_def host_def need_def call_geometry_def call_BH_def
        uncache_def unpack_def res_simps del: not_None_eq split: sum.split)

lemma walk_scratch:
  "walk_step (projr (scratch_node env)) ((bag_call cx st)(''geometry'' \<mapsto> FVal (DGeometry g))) memo w =
     (case call_scratch env cx g memo w of (sc, memo', w') \<Rightarrow> (Inr (bag_scratch cx st g sc), memo', w'))"
  by (simp add: walk_step_def walk_gates bag_scratch_def bag_call_def decode_facts_def produce_def table_of_def scratch_body_def
        need_def res_simps call_scratch_def scratch_key_def unpack_def Let_def del: not_None_eq split: option.split)

lemma walk_entry:
  assumes "dw_states w ! dc_state cx = st"
  shows "walk_step (projr decode_backing_node) (bag_scratch cx st g sc) memo w =
     (case decode_entry (call_routes_of (dc_routes cx)) st of Inl e \<Rightarrow> (Inl e, memo, w)
      | Inr (plane, table, arena) \<Rightarrow> (Inr (bag_entry cx st g sc plane arena), memo, w))"
  by (subst walk_plain)
     (simp_all add: walk_gates bag_entry_def bag_scratch_def bag_call_def decode_facts_def decode_backing_body_def need_def
        unpack_def map_upds_def assms res_simps del: not_None_eq split: sum.split prod.split)

lemma bag_entry_facts:
  "bag_entry cx st g sc plane arena ''routes'' = Some (FVal (DRoutes (dc_routes cx)))"
  "bag_entry cx st g sc plane arena ''v'' = Some (FVal (DTensor (dc_v cx)))"
  "bag_entry cx st g sc plane arena ''decay'' = Some (fopt DDecay (dc_decay cx))"
  "bag_entry cx st g sc plane arena ''geometry'' = Some (FVal (DGeometry g))"
  "bag_entry cx st g sc plane arena ''scratch'' = Some sc"
  "bag_entry cx st g sc plane arena ''carried_plane'' = Some (FVal (DPlane (carried_view (dc_state cx) st plane)))"
  "bag_entry cx st g sc plane arena ''page_table'' = Some (fopt DTable (map_option (\<lambda>a. [ar_BH a, ar_apb a]) arena))"
  "bag_entry cx st g sc plane arena ''pool'' = Some (fopt DPool (map_option (\<lambda>_. dc_state cx) arena))"
  "bag_entry cx st g sc plane arena ''mask'' = Some (FMask (decode_mask (state_paged st)))"
  "bag_entry cx st g sc plane arena ''state_plane'' = None" "bag_entry cx st g sc plane arena ''plan'' = None"
  "bag_entry cx st g sc plane arena ''y'' = None" "bag_entry cx st g sc plane arena ''grow'' = None"
  by (simp_all add: bag_entry_def bag_scratch_def bag_call_def decode_facts_def)

text \<open>The last three nodes, from a bag that has the entry's facts.\<close>

lemma walk_view:
  "walk_step (projr state_plane_node) (bag_entry cx st g sc plane arena) memo w =
     (case step_plane (tn_shape (dc_v cx)) g (dc_decay cx \<noteq> None) (carried_view (dc_state cx) st plane)
              (map_option (\<lambda>a. [ar_BH a, ar_apb a]) arena) of
        Inl e \<Rightarrow> (Inl e, memo, w)
      | Inr q \<Rightarrow> (Inr ((bag_entry cx st g sc plane arena)(''state_plane'' \<mapsto> FVal (DPlane q))), memo, w))"
proof -
  have "maybe (bag_entry cx st g sc plane arena) ''page_table'' is_DTable un_dtable = Inr (map_option (\<lambda>a. [ar_BH a, ar_apb a]) arena)"
    by (rule maybe_fopt [where c = DTable]) (simp_all add: bag_entry_facts)
  then show ?thesis
    by (subst walk_plain)
       (simp_all add: walk_gates bag_entry_facts state_plane_body_def host_def need_def given_def unpack_def dom_def res_simps
          del: not_None_eq split: sum.split)
qed

lemma walk_plan:
  assumes q: "step_plane (tn_shape (dc_v cx)) g (dc_decay cx \<noteq> None) (carried_view (dc_state cx) st plane)
              (map_option (\<lambda>a. [ar_BH a, ar_apb a]) arena) = Inr q"
  shows "walk_step (projr (decode_plan_node env)) ((bag_entry cx st g sc plane arena)(''state_plane'' \<mapsto> FVal (DPlane q))) memo w =
     (case finish_plan env cx g sc st plane arena of
        Inl e \<Rightarrow> (Inl e, memo, w)
      | Inr p \<Rightarrow> (Inr ((bag_entry cx st g sc plane arena)(''state_plane'' \<mapsto> FVal (DPlane q), ''plan'' \<mapsto> FVal (DPlan p))), memo, w))"
proof -
  let ?b = "(bag_entry cx st g sc plane arena)(''state_plane'' \<mapsto> FVal (DPlane q))"
  have m: "maybe ?b ''page_table'' is_DTable un_dtable = Inr (map_option (\<lambda>a. [ar_BH a, ar_apb a]) arena)"
    "maybe ?b ''pool'' is_DPool un_dpool = Inr (map_option (\<lambda>_. dc_state cx) arena)"
    "maybe ?b ''decay'' is_DDecay un_ddecay = Inr (dc_decay cx)"
    by (rule maybe_fopt [where c = DTable] maybe_fopt [where c = DPool] maybe_fopt [where c = DDecay]; simp add: bag_entry_facts)+
  have "decode_plan_body env ?b w = (case finish_plan env cx g sc st plane arena of Inl e \<Rightarrow> (Inl e, w) | Inr p \<Rightarrow> (Inr (FVal (DPlan p)), w))"
    by (cases "read_needs_normalization (factors_of (dc_routes cx))"; cases "leaf_rate_dials_for (de_cast env) (dc_decay cx) g")
       (auto simp: decode_plan_body_def host_def finish_plan_def q m need_def bag_entry_facts is_DScratch_def
          simp del: not_None_eq split: fact.split decode_value.split)
  then show ?thesis
    by (subst walk_plain) (auto simp: walk_gates bag_entry_facts unpack_def split: sum.split)
qed

lemma walk_launch:
  assumes "b ''plan'' = Some (FVal (DPlan p))" "b ''y'' = None" "b ''mask'' = Some (FMask (decode_mask m))"
  shows "walk_step (projr (step_node env)) b memo w =
     (case decode_launch env p w of (Inl e, w') \<Rightarrow> (Inl e, memo, w') | (Inr y, w') \<Rightarrow> (Inr (b(''y'' \<mapsto> FVal (DTensor y))), memo, w'))"
  using assms
  by (subst walk_plain) (auto simp: walk_gates step_body_def need_def unpack_def split: sum.split prod.split)

definition bag_done ::
    "decode_context \<Rightarrow> rola_state \<Rightarrow> decode_geometry \<Rightarrow> decode_value fact \<Rightarrow> page list \<Rightarrow> arena option \<Rightarrow> state_view \<Rightarrow> decode_plan \<Rightarrow> tensor \<Rightarrow> decode_bag" where
  "bag_done cx st g sc plane arena q p y = (bag_entry cx st g sc plane arena)(''state_plane'' \<mapsto> FVal (DPlane q),
     ''plan'' \<mapsto> FVal (DPlan p), ''y'' \<mapsto> FVal (DTensor y))"

lemma bag_done_facts:
  "bag_done cx st g sc plane arena q p y ''y'' = Some (FVal (DTensor y))" "bag_done cx st g sc plane arena q p y ''scratch'' = Some sc"
  "bag_done cx st g sc plane arena q p y ''mask'' = Some (FMask (decode_mask (state_paged st)))"
  "bag_done cx st g sc plane arena q p y ''grow'' = None"
  by (simp_all add: bag_done_def bag_entry_facts)

lemma finish_plan_Inr:
  assumes "finish_plan env cx g sc st plane arena = Inr p"
  shows "step_plane (tn_shape (dc_v cx)) g (dc_decay cx \<noteq> None) (carried_view (dc_state cx) st plane)
              (map_option (\<lambda>a. [ar_BH a, ar_apb a]) arena) = Inr (dl_state_plane p)"
    and "sc = FVal (DScratch (dl_scratch p))" "dl_config p = g" "dl_v p = dc_v cx" "dl_g_write p = cr_g_write (dc_routes cx)"
    "dl_page_table p = map_option (\<lambda>a. [ar_BH a, ar_apb a]) arena" "dl_read p = cr_read (dc_routes cx)"
    "dl_write p = cr_write (dc_routes cx)" "leaf_rate_dials_for (de_cast env) (dc_decay cx) g = Inr (dl_dials p)"
    "read_needs_normalization (factors_of (dc_routes cx)) = Inr (dl_normalize p)"
proof -
  obtain q norm dials where r: "step_plane (tn_shape (dc_v cx)) g (dc_decay cx \<noteq> None) (carried_view (dc_state cx) st plane)
              (map_option (\<lambda>a. [ar_BH a, ar_apb a]) arena) = Inr q"
    "read_needs_normalization (factors_of (dc_routes cx)) = Inr norm" "leaf_rate_dials_for (de_cast env) (dc_decay cx) g = Inr dials"
    using assms unfolding finish_plan_def res_simps by blast
  obtain i where i: "sc = FVal (DScratch i)"
    using assms unfolding finish_plan_def r rbind.simps by (cases sc rule: fact.exhaust; simp split: decode_value.splits)
  note p = assms [unfolded finish_plan_def r rbind.simps i fact.case decode_value.case sum.inject, symmetric]
  show "step_plane (tn_shape (dc_v cx)) g (dc_decay cx \<noteq> None) (carried_view (dc_state cx) st plane)
              (map_option (\<lambda>a. [ar_BH a, ar_apb a]) arena) = Inr (dl_state_plane p)"
    "sc = FVal (DScratch (dl_scratch p))" "dl_config p = g" "dl_v p = dc_v cx" "dl_g_write p = cr_g_write (dc_routes cx)"
    "dl_page_table p = map_option (\<lambda>a. [ar_BH a, ar_apb a]) arena" "dl_read p = cr_read (dc_routes cx)"
    "dl_write p = cr_write (dc_routes cx)" "leaf_rate_dials_for (de_cast env) (dc_decay cx) g = Inr (dl_dials p)"
    "read_needs_normalization (factors_of (dc_routes cx)) = Inr (dl_normalize p)"
    unfolding r i by (simp_all add: p)
qed

text \<open>The walk with the geometry's cache removed, from the seeds to \<^verbatim>\<open>y\<close>.\<close>

lemma walk_tail:
  "run [projr state_plane_node, projr (decode_plan_node env), projr (step_node env)] (bag_entry cx st g sc plane arena) memo w =
     (case finish_plan env cx g sc st plane arena of
        Inl e \<Rightarrow> (Inl e, memo, w)
      | Inr p \<Rightarrow> (case decode_launch env p w of
            (Inl e, w') \<Rightarrow> (Inl e, memo, w')
          | (Inr y, w') \<Rightarrow> (Inr (bag_done cx st g sc plane arena (dl_state_plane p) p y), memo, w')))"
proof (cases "step_plane (tn_shape (dc_v cx)) g (dc_decay cx \<noteq> None) (carried_view (dc_state cx) st plane)
              (map_option (\<lambda>a. [ar_BH a, ar_apb a]) arena)")
  case (Inl e)
  then have "finish_plan env cx g sc st plane arena = Inl e" by (simp only: finish_plan_def rbind.simps)
  then show ?thesis by (simp only: run.simps walk_view Inl sum.case prod.case)
next
  case q: (Inr q)
  note go = run.simps walk_view q walk_plan [OF q] sum.case prod.case
  show ?thesis
  proof (cases "finish_plan env cx g sc st plane arena")
    case (Inl e)
    then show ?thesis by (simp only: go)
  next
    case (Inr p)
    let ?b = "(bag_entry cx st g sc plane arena)(''state_plane'' \<mapsto> FVal (DPlane q), ''plan'' \<mapsto> FVal (DPlan p))"
    have p: "dl_state_plane p = q" using finish_plan_Inr(1) [OF Inr] unfolding q by simp
    have l: "walk_step (projr (step_node env)) ?b memo w =
      (case decode_launch env p w of (Inl e, w') \<Rightarrow> (Inl e, memo, w') | (Inr y, w') \<Rightarrow> (Inr (?b(''y'' \<mapsto> FVal (DTensor y))), memo, w'))"
      by (rule walk_launch [of _ _ "state_paged st"]) (simp_all add: bag_entry_facts)
    obtain r w' where r: "decode_launch env p w = (r, w')" by fastforce
    show ?thesis by (cases r) (simp_all only: go Inr l r bag_done_def p)
  qed
qed

definition straight_bag ::
    "'a decode_env \<Rightarrow> decode_context \<Rightarrow> decode_value memo \<Rightarrow> 'a decode_world \<Rightarrow> (decode_bag, 'a) decode_entry_step" where
  "straight_bag env cx memo w =
     (if tn_shape (dc_v cx) = [] then (Inl (IndexError ''tuple index out of range''), memo, w)
      else case call_geometry env cx of Inl e \<Rightarrow> (Inl e, memo, w)
      | Inr g \<Rightarrow>
        (case call_scratch env cx g memo w of (sc, memo1, w1) \<Rightarrow>
          (case decode_entry (call_routes_of (dc_routes cx)) (dw_states w ! dc_state cx) of Inl e \<Rightarrow> (Inl e, memo1, w1)
           | Inr (plane, table, arena) \<Rightarrow>
             (case finish_plan env cx g sc (dw_states w ! dc_state cx) plane arena of Inl e \<Rightarrow> (Inl e, memo1, w1)
              | Inr p \<Rightarrow> (case decode_launch env p w1 of (Inl e, w2) \<Rightarrow> (Inl e, memo1, w2)
                  | (Inr y, w2) \<Rightarrow> (Inr (bag_done cx (dw_states w ! dc_state cx) g sc plane arena (dl_state_plane p) p y), memo1, w2))))))"

lemma call_scratch_states: "call_scratch env cx g memo w = (sc, memo1, w1) \<Longrightarrow> dw_states w1 = dw_states w \<and> dw_heap w1 = dw_heap w"
  by (auto simp: call_scratch_def Let_def split: option.splits)

lemma walk_middle:
  "run [uncache (projr (geometry_node env)), projr (scratch_node env), projr decode_backing_node]
     (bag_call cx (dw_states w ! dc_state cx)) memo w =
     (case call_geometry env cx of Inl e \<Rightarrow> (Inl e, memo, w)
      | Inr g \<Rightarrow>
        (case call_scratch env cx g memo w of (sc, memo1, w1) \<Rightarrow>
          (case decode_entry (call_routes_of (dc_routes cx)) (dw_states w ! dc_state cx) of Inl e \<Rightarrow> (Inl e, memo1, w1)
           | Inr (plane, table, arena) \<Rightarrow> (Inr (bag_entry cx (dw_states w ! dc_state cx) g sc plane arena), memo1, w1))))"
proof (cases "call_geometry env cx")
  case (Inl e)
  then show ?thesis by (simp only: run.simps walk_geometry sum.case prod.case)
next
  case g: (Inr g)
  obtain sc memo1 w1 where sc: "call_scratch env cx g memo w = (sc, memo1, w1)" by (metis prod.collapse)
  have st: "dw_states w1 ! dc_state cx = dw_states w ! dc_state cx" using call_scratch_states [OF sc] by simp
  note go = run.simps walk_geometry g walk_scratch sc walk_entry [OF st] sum.case prod.case
  show ?thesis
  proof (cases "decode_entry (call_routes_of (dc_routes cx)) (dw_states w ! dc_state cx)")
    case (Inl e)
    then show ?thesis by (simp only: go)
  next
    case (Inr pta)
    obtain plane table arena where "pta = (plane, table, arena)" by (metis prod.collapse)
    then show ?thesis using Inr by (simp only: go)
  qed
qed

lemma uncached_walk: "run (map uncache (decode_nodes env)) (decode_facts cx) memo w = straight_bag env cx memo w"
proof -
  have u: "map uncache (decode_nodes env) = [projr decode_call_node, projr decode_mask_node]
      @ ([uncache (projr (geometry_node env)), projr (scratch_node env), projr decode_backing_node]
         @ [projr state_plane_node, projr (decode_plan_node env), projr (step_node env)])"
    by (simp add: decode_nodes_def uncache_def)
  note go = u run_append walk_call walk_middle straight_bag_def if_True if_False sum.case prod.case HOL.simp_thms
  show ?thesis
  proof (cases "tn_shape (dc_v cx) = [] \<or> (\<exists>e. call_geometry env cx = Inl e)")
    case True
    then show ?thesis by (elim disjE exE; cases "tn_shape (dc_v cx) = []") (simp_all only: go)
  next
    case False
    then obtain g where g: "tn_shape (dc_v cx) \<noteq> []" "call_geometry env cx = Inr g" by (cases "call_geometry env cx") auto
    obtain sc memo1 w1 where sc: "call_scratch env cx g memo w = (sc, memo1, w1)" by (metis prod.collapse)
    show ?thesis
    proof (cases "decode_entry (call_routes_of (dc_routes cx)) (dw_states w ! dc_state cx)")
      case (Inl e)
      then show ?thesis using g by (simp only: go sc)
    next
      case (Inr pta)
      obtain plane table arena where "pta = (plane, table, arena)" by (metis prod.collapse)
      then show ?thesis using Inr g by (simp only: go sc walk_tail)
    qed
  qed
qed

end
