(* ===== verification/Rola_Decode_Cache.thy ===== *)
theory Rola_Decode_Cache
  imports Rola_Decode_Walk
begin

text \<open>
  The memo tables of the decode recipes: the geometry's table cannot be seen, the scratch's table
  gives every state its own buffers. \<open>cached_recipe\<close> is interpreted on both recipes, and a walk is
  shown equal to the straight-line program.
\<close>

section \<open>The geometry's table\<close>

text \<open>The bags that occur: the widths are the bundle's own, the mask a decode mask.\<close>

definition decode_good :: "decode_bag \<Rightarrow> bool" where
  "decode_good f \<longleftrightarrow>
     (case f ''routes'' of
        Some (FVal (DRoutes r)) \<Rightarrow> (case f ''widths'' of None \<Rightarrow> True
          | Some x \<Rightarrow> x = FVal (DWidths (topology_widths (cr_topology r))))
      | _ \<Rightarrow> False)
     \<and> (case f ''mask'' of Some (FMask m) \<Rightarrow> m = M3 \<or> m = M4 | Some (FTuple _) \<Rightarrow> False | Some (FVal _) \<Rightarrow> False | _ \<Rightarrow> True)"

lemma decode_goodE:
  assumes "decode_good f"
  obtains r where "f ''routes'' = Some (FVal (DRoutes r))"
    "\<And>x. f ''widths'' = Some x \<Longrightarrow> x = FVal (DWidths (topology_widths (cr_topology r)))"
    "f ''mask'' = None \<or> f ''mask'' = Some FNone \<or> f ''mask'' = Some (FMask M3) \<or> f ''mask'' = Some (FMask M4)"
proof -
  from assms obtain r where "f ''routes'' = Some (FVal (DRoutes r))"
    by (auto simp: decode_good_def split: option.splits fact.splits decode_value.splits)
  with that [of r] assms show thesis
    by (auto simp: decode_good_def split: option.splits fact.splits)
qed

lemma decode_goodI:
  assumes "f ''routes'' = Some (FVal (DRoutes r))" "\<And>x. f ''widths'' = Some x \<Longrightarrow> x = FVal (DWidths (topology_widths (cr_topology r)))"
    "f ''mask'' = None \<or> f ''mask'' = Some FNone \<or> f ''mask'' = Some (FMask M3) \<or> f ''mask'' = Some (FMask M4)"
  shows "decode_good f"
  using assms by (auto simp: decode_good_def split: option.splits)

lemma decode_facts_good: "decode_good (decode_facts cx)"
  by (simp add: decode_good_def decode_facts_def)

lemma set_verdict_nodes:
  "set (verdict_nodes env) = {projr decode_call_node, projr decode_mask_node, projr (geometry_node env), projr (scratch_node env),
     projr decode_backing_node, projr state_plane_node, projr (decode_plan_node env), projr (step_node env), projr read_verdict_node}"
  by (auto simp: verdict_nodes_def decode_nodes_def)

lemma decode_memos:
  "map n_memo (verdict_nodes env) = [0, 1, 2, 3, 4, 5, 6, 7, 8]"
  by (simp add: verdict_nodes_def decode_nodes_def decode_node_defs node_declare_def rule_declare_def SCRATCH_TABLE_def)

lemma decode_tables: "s \<in> set (verdict_nodes env) \<Longrightarrow> t \<in> set (verdict_nodes env) \<Longrightarrow> n_memo s = n_memo t \<Longrightarrow> s = t"
proof -
  have "distinct (map n_memo (verdict_nodes env))" unfolding decode_memos by simp
  then have "inj_on n_memo (set (verdict_nodes env))" by (simp add: distinct_map)
  then show "s \<in> set (verdict_nodes env) \<Longrightarrow> t \<in> set (verdict_nodes env) \<Longrightarrow> n_memo s = n_memo t \<Longrightarrow> s = t"
    by (simp add: inj_on_def)
qed

lemma decode_cached: "s \<in> set (verdict_nodes env) \<Longrightarrow> cached s \<Longrightarrow> s = projr (geometry_node env)"
  unfolding set_verdict_nodes cached_def by auto

lemma geometry_pure:
  assumes g: "decode_good facts" and n: "set (n_needs (projr (geometry_node env))) \<subseteq> dom facts"
    and k: "facts_of facts (n_pure_of (projr (geometry_node env))) = Inr key" and b: "geometry_body env facts w = (Inr v, w')"
  shows "w' = w \<and> right_cell decode_good (projr (geometry_node env)) key v"
proof -
  obtain r where r: "facts ''routes'' = Some (FVal (DRoutes r))" "facts ''widths'' = Some (FVal (DWidths (topology_widths (cr_topology r))))"
    using g n by (elim decode_goodE) fastforce
  have "geometry_body env facts' u = (Inr v, u)"
    if g': "decode_good facts'" and n': "set (n_needs (projr (geometry_node env))) \<subseteq> dom facts'"
      and k': "facts_of facts' (n_pure_of (projr (geometry_node env))) = Inr key" for facts' u
  proof -
    obtain r' where r': "facts' ''routes'' = Some (FVal (DRoutes r'))" "facts' ''widths'' = Some (FVal (DWidths (topology_widths (cr_topology r'))))"
      using g' n' by (elim decode_goodE) fastforce
    have same: "facts' x = facts x" if "x \<in> {''widths'', ''d_v'', ''has_decay'', ''BH'', ''device''}" for x
      using k k' that by (auto simp: res_simps split: option.splits)
    have "topology_widths (cr_topology r') = topology_widths (cr_topology r)" using same [of "''widths''"] r r' by simp
    then show ?thesis using b same by (simp add: geometry_body_def host_def need_def r(1) r'(1))
  qed
  then show ?thesis using b by (auto simp: right_cell_def geometry_body_def host_def)
qed

lemma mask_folded: "decode_mask_fold vs = Inr v \<Longrightarrow> \<exists>b. v = FMask (decode_mask b)"
proof -
  have "\<exists>b. decode_mask_fold vs = Inr (FMask (decode_mask b))"
    unfolding decode_mask_fold_def by (auto split: list.split fact.split decode_value.split)
  then show "decode_mask_fold vs = Inr v \<Longrightarrow> \<exists>b. v = FMask (decode_mask b)" by auto
qed

lemma decode_keeps:
  assumes s: "s \<in> set (verdict_nodes env)" and g: "decode_good facts" and st: "walk_step s facts memo w = (Inr facts', memo', w')"
  shows "decode_good facts'"
proof -
  obtain r where r: "facts ''routes'' = Some (FVal (DRoutes r))"
    "\<And>x. facts ''widths'' = Some x \<Longrightarrow> x = FVal (DWidths (topology_widths (cr_topology r)))"
    "facts ''mask'' = None \<or> facts ''mask'' = Some FNone \<or> facts ''mask'' = Some (FMask M3) \<or> facts ''mask'' = Some (FMask M4)"
    using g by (rule decode_goodE) blast
  have other: "facts' x = facts x" if "x \<notin> set (n_gives s)" for x using walk_step_ok(2) [OF st that] .
  have routes: "facts' ''routes'' = Some (FVal (DRoutes r))" using other [of "''routes''"] s r(1) by (auto simp: set_verdict_nodes)
  consider "s = projr decode_call_node" | "s = projr decode_mask_node" | "''widths'' \<notin> set (n_gives s)" "''mask'' \<notin> set (n_gives s)"
    using s unfolding set_verdict_nodes by auto
  then show ?thesis
  proof cases
    case 1
    have "\<not> masked_out s facts" using 1 r(3) by (auto simp: masked_out_def)
    then consider "facts' = facts" | v w1 where "decode_call_body facts w = (Inr v, w1)" "unpack (n_gives s) v facts = Inr facts'"
      using st 1 by (auto simp: walk_step_def produce_def table_of_def split: if_splits sum.splits prod.splits)
    then show ?thesis
    proof cases
      case 2
      then have "facts' ''widths'' = Some (FVal (DWidths (topology_widths (cr_topology r))))"
        using 1 r(1) by (auto simp: decode_call_body_def need_def unpack_def map_upds_def res_simps split: if_splits option.splits fact.splits)
      then show ?thesis using routes r(3) other [of "''mask''"] 1 by (intro decode_goodI [of _ r]) auto
    qed (use g in simp)
  next
    case 2
    have "\<not> masked_out s facts" using 2 r(3) by (auto simp: masked_out_def)
    then consider "facts' = facts" | v where "rbind (facts_of facts [''paged'']) decode_mask_fold = Inr v" "unpack [''mask''] v facts = Inr facts'"
      using st 2 by (auto simp: walk_step_def produce_def table_of_def split: if_splits sum.splits prod.splits simp del: facts_of.simps)
    then show ?thesis
    proof cases
      case b: 2
      from b(1) obtain vs where "decode_mask_fold vs = Inr v" unfolding res_simps by blast
      from mask_folded [OF this] obtain b where "v = FMask (decode_mask b)" ..
      then have "facts' ''mask'' = Some (FMask (decode_mask b))" using b(2) by (auto simp: unpack_def)
      then show ?thesis using routes r(2) other [of "''widths''"] 2 by (intro decode_goodI [of _ r]) (auto simp: decode_mask_def)
    qed (use g in simp)
  next
    case 3
    then show ?thesis using routes r other by (intro decode_goodI [of _ r]) auto
  qed
qed

lemma decode_in_verdict: "set (decode_nodes env) \<subseteq> set (verdict_nodes env)" by (auto simp: verdict_nodes_def)

interpretation verdict_memo: cached_recipe "verdict_nodes env" DECODE_SEEDS decode_good for env
proof unfold_locales
  fix s facts key w v w'
  assume a: "s \<in> set (verdict_nodes env)" "cached s" "decode_good facts" "set (n_needs s) \<subseteq> dom facts"
    "facts_of facts (n_pure_of s) = Inr key" "n_fn s facts w = (Inr v, w')"
  have s: "s = projr (geometry_node env)" by (rule decode_cached [OF a(1,2)])
  show "w' = w \<and> right_cell decode_good s key v"
    using geometry_pure [OF a(3) a(4,5) [unfolded s]] a(6) unfolding s decode_node_simps by blast
qed (blast intro: decode_tables decode_keeps)+

interpretation decode_memo: cached_recipe "decode_nodes env" DECODE_SEEDS decode_good for env
proof unfold_locales
  fix s facts key w v w'
  assume "s \<in> set (decode_nodes env)" "cached s" "decode_good facts" "set (n_needs s) \<subseteq> dom facts"
    "facts_of facts (n_pure_of s) = Inr key" "n_fn s facts w = (Inr v, w')"
  then show "w' = w \<and> right_cell decode_good s key v"
    using verdict_memo.pure [of s] decode_in_verdict by blast
next
  show "s \<in> set (decode_nodes env) \<Longrightarrow> t \<in> set (decode_nodes env) \<Longrightarrow> n_memo s = n_memo t \<Longrightarrow> s = t" for s t
    using decode_tables decode_in_verdict by blast
next
  show "s \<in> set (decode_nodes env) \<Longrightarrow> decode_good facts \<Longrightarrow> walk_step s facts memo w = (Inr facts', memo', w')
      \<Longrightarrow> memo_ok decode_good (decode_nodes env) memo \<Longrightarrow> decode_good facts'" for s facts memo w facts' memo' w'
    using decode_keeps decode_in_verdict by blast
qed

lemma memo_ok_both: "memo_ok decode_good (verdict_nodes env) memo = memo_ok decode_good (decode_nodes env) memo"
proof -
  have "s \<in> set (decode_nodes env)" if "s \<in> set (verdict_nodes env)" "cached s" for s
    using decode_cached [OF that] by (simp add: decode_nodes_def)
  then show ?thesis unfolding memo_ok_def using decode_in_verdict by blast
qed

end
