(* ===== verification/Rola_Decode_Replay.thy ===== *)
theory Rola_Decode_Replay
  imports Rola_Decode_Cache Rola_Step_Props Rola_State_Props
begin

text \<open>
  The entries of the decode family as straight-line programs, and the replay of \<^verbatim>\<open>decode_forward\<close>:
  on a paged state the call deposits its token exactly once into every batch-head, whatever the
  slack pool covered.
\<close>

section \<open>The actual walk\<close>

definition scratch_cells :: "decode_value memo \<Rightarrow> decode_value memo" where
  "scratch_cells memo = filter (\<lambda>((a, st, key), v). a = SCRATCH_TABLE) memo"

lemma scratch_table_cells: "scratch_table n (scratch_cells memo) = scratch_table n memo"
  unfolding scratch_table_def scratch_cells_def by (simp, intro arg_cong [where f = "map snd"] filter_cong) auto

lemma scratch_table_cong: "scratch_cells m = scratch_cells m' \<Longrightarrow> scratch_table n m = scratch_table n m'"
  by (metis scratch_table_cells)

text \<open>The tables that may differ: the geometry's.\<close>

definition memo_like :: "decode_value memo \<Rightarrow> decode_value memo \<Rightarrow> bool" where
  "memo_like m m' \<longleftrightarrow> same_tables m m' \<and> scratch_cells m = scratch_cells m'"

lemma memo_like_refl [simp]: "memo_like m m" by (simp add: memo_like_def same_tables_def)

lemma memo_like_key: "memo_like m m' \<Longrightarrow> map_of m (scratch_key cx g) = map_of m' (scratch_key cx g)"
  by (simp add: memo_like_def same_tables_def scratch_key_def)

lemma geometry_step:
  assumes m: "memo_ok decode_good (decode_nodes env) memo"
  obtains memo' where "walk_step (projr (geometry_node env)) (bag_call cx st) memo w =
      (case call_geometry env cx of Inl e \<Rightarrow> (Inl e, memo', w)
       | Inr g \<Rightarrow> (Inr ((bag_call cx st)(''geometry'' \<mapsto> FVal (DGeometry g))), memo', w))"
    "memo_ok decode_good (decode_nodes env) memo'" "memo_like memo' memo"
proof -
  obtain r m1 w1 where r: "walk_step (projr (geometry_node env)) (bag_call cx st) memo w = (r, m1, w1)" by (metis prod.collapse)
  have in_dag: "projr (geometry_node env) \<in> set (decode_nodes env)" by (simp add: decode_nodes_def)
  have good: "decode_good (bag_call cx st)"
    by (rule decode_goodI [of _ "dc_routes cx"]) (auto simp: bag_call_def decode_facts_def decode_mask_def)
  obtain m2 where u: "walk_step (uncache (projr (geometry_node env))) (bag_call cx st) memo w = (r, m2, w1)"
    "memo_ok decode_good (decode_nodes env) m1" "same_tables m1 m2"
    using decode_memo.step_transparent [OF in_dag good m _ r, of memo] by (auto simp: same_tables_def)
  have eq: "(r, m2, w1) = (case call_geometry env cx of Inl e \<Rightarrow> (Inl e, memo, w)
      | Inr g \<Rightarrow> (Inr ((bag_call cx st)(''geometry'' \<mapsto> FVal (DGeometry g))), memo, w))"
    unfolding u(1) [symmetric] walk_geometry ..
  have "scratch_cells m1 = scratch_cells memo"
    using r by (auto simp: walk_step_def produce_def table_of_def scratch_cells_def SCRATCH_TABLE_def
        split: if_splits sum.splits option.splits prod.splits)
  then show thesis using that [of m1] r eq u(2,3)
    by (cases "call_geometry env cx") (auto simp: memo_like_def)
qed

lemma run_two: "run (xs @ s # ys) f m w =
   (case run xs f m w of (Inl e, m', w') \<Rightarrow> (Inl e, m', w')
    | (Inr f', m', w') \<Rightarrow> (case walk_step s f' m' w' of (Inl e, m2, w2) \<Rightarrow> (Inl e, m2, w2) | (Inr f2, m2, w2) \<Rightarrow> run ys f2 m2 w2))"
  by (simp only: run_append run.simps)

lemma actual_walk:
  assumes m: "memo_ok decode_good (decode_nodes env) memo"
  obtains memo' where "run (decode_nodes env) (decode_facts cx) memo w = straight_bag env cx memo' w"
    "memo_ok decode_good (decode_nodes env) memo'" "memo_like memo' memo"
proof -
  have d: "decode_nodes env = [projr decode_call_node, projr decode_mask_node] @ projr (geometry_node env)
      # [projr (scratch_node env), projr decode_backing_node, projr state_plane_node, projr (decode_plan_node env), projr (step_node env)]"
    by (simp add: decode_nodes_def)
  have ud: "map uncache (decode_nodes env) = [projr decode_call_node, projr decode_mask_node] @ uncache (projr (geometry_node env))
      # [projr (scratch_node env), projr decode_backing_node, projr state_plane_node, projr (decode_plan_node env), projr (step_node env)]"
    by (simp add: decode_nodes_def uncache_def)
  show thesis
  proof (cases "tn_shape (dc_v cx) = []")
    case True
    then have "run (decode_nodes env) (decode_facts cx) memo w = straight_bag env cx memo w"
      by (simp only: d run_append walk_call straight_bag_def if_True sum.case prod.case HOL.simp_thms)
    with that m show thesis by simp
  next
    case False
    obtain memo' where g: "walk_step (projr (geometry_node env)) (bag_call cx (dw_states w ! dc_state cx)) memo w =
      (case call_geometry env cx of Inl e \<Rightarrow> (Inl e, memo', w)
       | Inr g \<Rightarrow> (Inr ((bag_call cx (dw_states w ! dc_state cx))(''geometry'' \<mapsto> FVal (DGeometry g))), memo', w))"
      "memo_ok decode_good (decode_nodes env) memo'" "memo_like memo' memo"
      using geometry_step [OF m] by metis
    have "run (decode_nodes env) (decode_facts cx) memo w = run (map uncache (decode_nodes env)) (decode_facts cx) memo' w"
      unfolding ud unfolding d run_two walk_call by (cases "call_geometry env cx") (simp_all only: False g(1) walk_geometry if_False sum.case prod.case)
    then show thesis using that g(2,3) unfolding uncached_walk by blast
  qed
qed

lemma straight_y: "(case straight_bag env cx memo w of (Inl e, m, w') \<Rightarrow> (Inl e, m, w') | (Inr f, m, w') \<Rightarrow> (y_of f, m, w'))
    = decode_straight env cx memo w"
proof (cases "tn_shape (dc_v cx) = [] \<or> (\<exists>e. call_geometry env cx = Inl e)")
  case True
  then show ?thesis by (elim disjE exE; cases "tn_shape (dc_v cx) = []")
      (simp_all only: straight_bag_def decode_straight_def if_True if_False sum.case prod.case HOL.simp_thms)
next
  case False
  then obtain g where g: "tn_shape (dc_v cx) \<noteq> []" "call_geometry env cx = Inr g" by (cases "call_geometry env cx") auto
  obtain sc memo1 w1 where sc: "call_scratch env cx g memo w = (sc, memo1, w1)" by (metis prod.collapse)
  have st: "dw_states w1 = dw_states w" using call_scratch_states [OF sc] by simp
  note go = straight_bag_def decode_straight_def call_plan_def g sc st if_False sum.case prod.case HOL.simp_thms rbind.simps
  show ?thesis
  proof (cases "decode_entry (call_routes_of (dc_routes cx)) (dw_states w ! dc_state cx)")
    case (Inl e)
    then show ?thesis by (simp only: go)
  next
    case (Inr pta)
    obtain plane table arena where pta: "pta = (plane, table, arena)" by (metis prod.collapse)
    show ?thesis
    proof (cases "finish_plan env cx g sc (dw_states w ! dc_state cx) plane arena")
      case (Inl e)
      then show ?thesis using Inr pta by (simp only: go)
    next
      case fp: (Inr p)
      obtain r w2 where "decode_launch env p w1 = (r, w2)" by fastforce
      then show ?thesis using Inr pta fp
        by (cases r) (simp_all only: go y_of_def bag_done_facts option.case fact.case decode_value.case)
    qed
  qed
qed

lemma walk_is_straight:
  assumes "memo_ok decode_good (decode_nodes env) memo"
  obtains memo' where "walk_step_dag env cx memo w = decode_straight env cx memo' w" "memo_like memo' memo"
    "memo_ok decode_good (decode_nodes env) memo'"
proof -
  obtain memo' where m: "run (decode_nodes env) (decode_facts cx) memo w = straight_bag env cx memo' w"
    "memo_ok decode_good (decode_nodes env) memo'" "memo_like memo' memo"
    using actual_walk [OF assms] by metis
  have "walk_step_dag env cx memo w = decode_straight env cx memo' w"
    unfolding straight_y [symmetric] by (simp only: walk_step_dag_def DECODE_STEP_nodes m(1) sum.case)
  with m(2,3) that show thesis by blast
qed

section \<open>One walk on a paged state\<close>

text \<open>The tokens of a call, and what its walk needs of the world.\<close>

definition call_tokens :: "'a decode_env \<Rightarrow> decode_context \<Rightarrow> decode_geometry \<Rightarrow> 'a heap \<Rightarrow> 'a token list res" where
  "call_tokens env cx g h =
     rbind (read_needs_normalization (factors_of (dc_routes cx))) (\<lambda>nz.
     rbind (leaf_rate_dials_for (de_cast env) (dc_decay cx) g) (\<lambda>dials.
       (case cr_g_write (dc_routes cx) of
          None \<Rightarrow> Inl (TypeError ''incompatible function arguments'')
        | Some gw \<Rightarrow> Inr (map (token_at h (dc_v cx) (cr_read (dc_routes cx)) (cr_write (dc_routes cx)) nz dials gw)
             [0..<tn_shape (dc_v cx) ! 0 * tn_shape (dc_v cx) ! 2]))))"

definition scratch_at :: "'a decode_env \<Rightarrow> decode_context \<Rightarrow> decode_geometry \<Rightarrow> decode_value memo \<Rightarrow> 'a decode_world \<Rightarrow> decode_scratch" where
  "scratch_at env cx g memo w =
     (case map_of memo (scratch_key cx g) of
        Some (FVal (DScratch i)) \<Rightarrow> dw_scratch w ! i
      | _ \<Rightarrow> build_scratch (de_junk env) (de_junk_bits env) g (call_BH cx))"

definition scratch_known :: "decode_context \<Rightarrow> decode_geometry \<Rightarrow> decode_value memo \<Rightarrow> 'a decode_world \<Rightarrow> bool" where
  "scratch_known cx g memo w \<longleftrightarrow>
     (case map_of memo (scratch_key cx g) of None \<Rightarrow> True
      | Some v \<Rightarrow> \<exists>i<length (dw_scratch w). v = FVal (DScratch i))"

definition y_rows :: "'a decode_env \<Rightarrow> 'a list option list \<Rightarrow> 'a list" where
  "y_rows env ys = concat (map (\<lambda>bh. case ys ! bh of Some row \<Rightarrow> row | None \<Rightarrow> de_unwritten env bh) [0..<length ys])"

lemma step_plane_Inr:
  assumes "step_plane vs g dec sv table = Inr q"
  shows "sv_owner q = sv_owner sv" "\<exists>B T H. vs = [B, T, H, dg_d_v g] \<and> (\<forall>ts. table = Some ts \<longrightarrow> ts = [B * H, geometry_N g div MMA_K_QUANTUM])"
    "dec = dg_has_decay g"
  using assms by (auto simp: step_plane_def split: list.splits if_splits option.splits)

lemma launch_paged:
  assumes l: "decode_launch env p w = (Inr y, w')" and n: "sv_owner (dl_state_plane p) = n" "n < length (dw_states w)"
    and a: "rs_arena (dw_states w ! n) = Some (args, a)" "dl_page_table p \<noteq> None" "dl_scratch p < length (dw_scratch w)"
  obtains gw ys b sc where "dl_g_write p = Some gw"
    "paged_step (de_numerics env) (dl_config p) (map (token_of (dw_heap w) p gw) [0..<plan_BH p]) a (dw_scratch w ! dl_scratch p) = (ys, b, sc)"
    "dw_heap w' = dw_heap w @ [y_rows env ys]" "dw_states w' = (dw_states w)[n := (dw_states w ! n)\<lparr>rs_arena := Some (args, b)\<rparr>]"
    "dw_scratch w' = (dw_scratch w)[dl_scratch p := sc]" "tn_ptr y = length (dw_heap w)"
    "tn_shape y = [tn_shape (dl_v p) ! 0, 1, tn_shape (dl_v p) ! 2, dg_d_v (dl_config p)]" "is_contiguous y" "tn_off y = 0"
proof -
  obtain gw where gw: "dl_g_write p = Some gw" using l by (auto simp: decode_launch_def split: option.splits)
  obtain ts where ts: "dl_page_table p = Some ts" using a(2) by auto
  obtain ys b sc where st: "paged_step (de_numerics env) (dl_config p) (map (token_of (dw_heap w) p gw) [0..<plan_BH p]) a (dw_scratch w ! dl_scratch p) = (ys, b, sc)"
    by (metis prod.collapse)
  show thesis using that [OF gw st] l
    by (simp add: decode_launch_def gw n(1) launch_state_def ts a(1) st Let_def fresh_tensor_def y_rows_def is_contiguous_def)
      (auto simp: is_contiguous_def)
qed

lemma straight_walk:
  assumes s: "decode_straight env cx memo w = (Inr y, memo', w')"
  obtains g sc w1 plane table arena p where "call_geometry env cx = Inr g" "call_scratch env cx g memo w = (sc, memo', w1)"
    "decode_entry (call_routes_of (dc_routes cx)) (dw_states w ! dc_state cx) = Inr (plane, table, arena)"
    "finish_plan env cx g sc (dw_states w ! dc_state cx) plane arena = Inr p" "decode_launch env p w1 = (Inr y, w')"
proof -
  obtain g where g: "call_geometry env cx = Inr g" using s by (auto simp: decode_straight_def split: if_splits sum.splits)
  obtain sc memo1 w1 where sc: "call_scratch env cx g memo w = (sc, memo1, w1)" by (metis prod.collapse)
  have st: "dw_states w1 = dw_states w" using call_scratch_states [OF sc] by simp
  have r: "(case call_plan env cx g sc (dw_states w ! dc_state cx) of Inl e \<Rightarrow> (Inl e, memo1, w1)
      | Inr p \<Rightarrow> (case decode_launch env p w1 of (r, w2) \<Rightarrow> (r, memo1, w2))) = (Inr y, memo', w')"
    using s unfolding decode_straight_def g sum.case sc prod.case st by (simp split: if_splits)
  then obtain p where p: "call_plan env cx g sc (dw_states w ! dc_state cx) = Inr p" by (cases "call_plan env cx g sc (dw_states w ! dc_state cx)") auto
  from r p have l: "decode_launch env p w1 = (Inr y, w')" "memo1 = memo'" by (auto split: prod.splits)
  from p obtain plane table arena where "decode_entry (call_routes_of (dc_routes cx)) (dw_states w ! dc_state cx) = Inr (plane, table, arena)"
    "finish_plan env cx g sc (dw_states w ! dc_state cx) plane arena = Inr p" by (auto simp: call_plan_def res_simps)
  with that g sc l show thesis by blast
qed

lemma paged_walk:
  assumes s: "decode_straight env cx memo w = (Inr y, memo', w')"
    and st: "rs_arena (dw_states w ! dc_state cx) = Some (args, a)" "dc_state cx < length (dw_states w)"
    and known: "\<And>g. call_geometry env cx = Inr g \<Longrightarrow> scratch_known cx g memo w"
  obtains g tks i ys b sc where "call_geometry env cx = Inr g" "call_tokens env cx g (dw_heap w) = Inr tks" "length tks = ar_BH a"
    "ar_apb a = geometry_N g div MMA_K_QUANTUM"
    "map_of memo' (scratch_key cx g) = Some (FVal (DScratch i))" "i < length (dw_scratch w')"
    "memo' = (if map_of memo (scratch_key cx g) = None then (scratch_key cx g, FVal (DScratch i)) # memo else memo)"
    "paged_step (de_numerics env) g tks a (scratch_at env cx g memo w) = (ys, b, sc)"
    "dw_states w' = (dw_states w)[dc_state cx := (dw_states w ! dc_state cx)\<lparr>rs_arena := Some (args, b)\<rparr>]"
    "dw_scratch w' ! i = sc" "dw_heap w' = dw_heap w @ [y_rows env ys]" "tn_ptr y = length (dw_heap w)"
proof -
  let ?st = "dw_states w ! dc_state cx"
  obtain g f w1 plane table arena p where h: "call_geometry env cx = Inr g" "call_scratch env cx g memo w = (f, memo', w1)"
    "decode_entry (call_routes_of (dc_routes cx)) ?st = Inr (plane, table, arena)"
    "finish_plan env cx g f ?st plane arena = Inr p" "decode_launch env p w1 = (Inr y, w')"
    by (rule straight_walk [OF s])
  have ar: "arena = Some a" using h(3) st(1) by (auto simp: decode_entry_def res_simps split: option.splits)
  note p = finish_plan_Inr [OF h(4)]
  note q = step_plane_Inr [OF p(1)]
  have w1: "dw_states w1 = dw_states w" "dw_heap w1 = dw_heap w" using call_scratch_states [OF h(2)] by simp_all
  have i: "dl_scratch p < length (dw_scratch w1)" "dw_scratch w1 ! dl_scratch p = scratch_at env cx g memo w"
    "map_of memo' (scratch_key cx g) = Some (FVal (DScratch (dl_scratch p)))"
    "memo' = (if map_of memo (scratch_key cx g) = None then (scratch_key cx g, FVal (DScratch (dl_scratch p))) # memo else memo)"
    using h(2) p(2) known [OF h(1)]
    by (auto simp: call_scratch_def scratch_known_def scratch_at_def Let_def nth_append split: option.splits)
  have owner: "sv_owner (dl_state_plane p) = dc_state cx" using q(1) by (simp add: carried_view_def)
  have a1: "rs_arena (dw_states w1 ! dc_state cx) = Some (args, a)" "dl_page_table p \<noteq> None" "dc_state cx < length (dw_states w1)"
    using st w1 p(6) ar by simp_all
  obtain gw ys b sc where l: "dl_g_write p = Some gw"
    "paged_step (de_numerics env) (dl_config p) (map (token_of (dw_heap w1) p gw) [0..<plan_BH p]) a (dw_scratch w1 ! dl_scratch p) = (ys, b, sc)"
    "dw_heap w' = dw_heap w1 @ [y_rows env ys]" "dw_states w' = (dw_states w1)[dc_state cx := (dw_states w1 ! dc_state cx)\<lparr>rs_arena := Some (args, b)\<rparr>]"
    "dw_scratch w' = (dw_scratch w1)[dl_scratch p := sc]" "tn_ptr y = length (dw_heap w1)"
    using launch_paged [OF h(5) owner a1(3,1,2) i(1)] by metis
  have BH: "tn_shape (dc_v cx) ! 0 * tn_shape (dc_v cx) ! 2 = ar_BH a" "ar_apb a = geometry_N g div MMA_K_QUANTUM"
    using q(2) ar by auto
  have tks: "call_tokens env cx g (dw_heap w) = Inr (map (token_of (dw_heap w1) p gw) [0..<plan_BH p])"
    using l(1) p(5) unfolding call_tokens_def p(9,10)
    by (simp add: token_of_def [abs_def] p(4,7,8) plan_BH_def w1)
  show thesis
    by (rule that [OF h(1) tks _ BH(2) i(3) _ i(4)])
       (use l i(1,2) p(3,4) BH(1) w1 in \<open>simp_all add: plan_BH_def\<close>)
qed

section \<open>The entries\<close>

lemma memo_ok_scratch [simp]: "memo_ok good dag (((t, Some st, key), v) # memo) = memo_ok good dag memo"
  by (simp add: memo_ok_def)

lemma straight_memo:
  assumes "decode_straight env cx memo w = (r, memo', w')" "memo_ok decode_good (decode_nodes env) memo"
  shows "memo_ok decode_good (decode_nodes env) memo'"
  using assms by (auto simp: decode_straight_def call_scratch_def scratch_key_def Let_def split: if_splits sum.splits option.splits prod.splits)

lemma straight_bag_Inr:
  assumes b: "straight_bag env cx memo w = (Inr f, memo', w')"
  obtains y sc where "decode_straight env cx memo w = (Inr y, memo', w')" "f ''y'' = Some (FVal (DTensor y))"
    "f ''scratch'' = Some sc" "f ''mask'' = Some (FMask (decode_mask (state_paged (dw_states w ! dc_state cx))))" "f ''grow'' = None"
    "\<And>g. call_geometry env cx = Inr g \<Longrightarrow> map_of memo' (scratch_key cx g) = Some sc"
proof -
  obtain g sc memo1 w1 plane table arena p y where h: "call_geometry env cx = Inr g" "call_scratch env cx g memo w = (sc, memo', w1)"
    "f = bag_done cx (dw_states w ! dc_state cx) g sc plane arena (dl_state_plane p) p y"
    using b unfolding straight_bag_def by (auto split: if_splits sum.splits prod.splits)
  have "y_of f = Inr y" by (simp add: y_of_def h(3) bag_done_facts)
  then have "decode_straight env cx memo w = (Inr y, memo', w')" unfolding straight_y [symmetric] b by simp
  moreover have "map_of memo' (scratch_key cx g) = Some sc" using h(2) by (auto simp: call_scratch_def Let_def split: option.splits)
  ultimately show thesis using that h(1,3) by (simp add: bag_done_facts)
qed

lemma verdict_step:
  assumes "f ''mask'' = Some (FMask (decode_mask paged))" "f ''scratch'' = Some (FVal (DScratch i))" "f ''y'' = Some y" "f ''grow'' = None"
  shows "walk_step (projr read_verdict_node) f m w =
    (if paged then (case read_growth i w of (b, w') \<Rightarrow> (Inr (f(''grow'' \<mapsto> FVal (DBool b))), m, w'))
     else (Inr (f(''grow'' \<mapsto> FNone)), m, w))"
proof (cases paged)
  case True
  then show ?thesis using assms
    by (subst walk_plain) (auto simp: walk_gates decode_mask_def read_verdict_body_def need_def unpack_def split: prod.split)
next
  case False
  then show ?thesis using assms
    by (auto simp: walk_step_def walk_gates decode_mask_def give_none_def fun_eq_iff)
qed

text \<open>\<^verbatim>\<open>decode_forward\<close> as a program over the straight line.\<close>

definition forward_straight ::
    "'a decode_env \<Rightarrow> decode_context \<Rightarrow> decode_value memo \<Rightarrow> 'a decode_world \<Rightarrow> (tensor, 'a) decode_entry_step" where
  "forward_straight env cx memo w =
     (case decode_straight env cx memo w of (Inl e, m, w1) \<Rightarrow> (Inl e, m, w1)
      | (Inr y, m, w1) \<Rightarrow>
        if \<not> state_paged (dw_states w ! dc_state cx) then (Inr y, m, w1)
        else (case (case call_geometry env cx of Inr g \<Rightarrow> map_of m (scratch_key cx g) | _ \<Rightarrow> None) of
            Some (FVal (DScratch i)) \<Rightarrow>
              (case read_growth i w1 of (grow, w2) \<Rightarrow>
                 if \<not> grow then (Inr y, m, w2)
                 else (case admit_growth (dc_state cx) m w2 of
                     (Inl e, w3) \<Rightarrow> (Inl e, m, w3) | (Inr _, w3) \<Rightarrow> walk_step_dag env cx m w3))
          | _ \<Rightarrow> (Inl (AttributeError ''scratch''), m, w1)))"

lemma forward_is_straight:
  assumes m: "memo_ok decode_good (decode_nodes env) memo" and v: "validate_decode_context env cx w = Inr ()"
  obtains memo' where "decode_forward env cx memo w = forward_straight env cx memo' w" "memo_like memo' memo"
    "memo_ok decode_good (decode_nodes env) memo'" "walk_step_dag env cx memo w = decode_straight env cx memo' w"
proof -
  obtain memo' where r: "run (decode_nodes env) (decode_facts cx) memo w = straight_bag env cx memo' w"
    "memo_ok decode_good (decode_nodes env) memo'" "memo_like memo' memo"
    using actual_walk [OF m] by metis
  have run: "run (verdict_nodes env) (decode_facts cx) memo w = (case straight_bag env cx memo' w of
      (Inl e, m, w1) \<Rightarrow> (Inl e, m, w1) | (Inr f, m, w1) \<Rightarrow> run [projr read_verdict_node] f m w1)"
    by (simp only: verdict_nodes_def run_append r(1))
  have f: "decode_forward env cx memo w = (case run (verdict_nodes env) (decode_facts cx) memo w of
           (Inl e, memo1, w1) \<Rightarrow> (Inl e, memo1, w1)
         | (Inr f, memo1, w1) \<Rightarrow>
           if \<not> truthy (f ''grow'') then (y_of f, memo1, w1)
           else (case admit_growth (dc_state cx) memo1 w1 of
               (Inl e, w2) \<Rightarrow> (Inl e, memo1, w2)
             | (Inr _, w2) \<Rightarrow> walk_step_dag env cx memo1 w2))"
    by (simp only: decode_forward_def v rbind.simps DECODE_VERDICT_nodes sum.case)
  obtain q m1 w1 where q: "straight_bag env cx memo' w = (q, m1, w1)" by (metis prod.collapse)
  have "decode_forward env cx memo w = forward_straight env cx memo' w"
  proof (cases q)
    case (Inl e)
    have "decode_straight env cx memo' w = (Inl e, m1, w1)" unfolding straight_y [symmetric] q Inl by simp
    then show ?thesis unfolding f run q forward_straight_def Inl by simp
  next
    case (Inr b)
    obtain y sc where b: "decode_straight env cx memo' w = (Inr y, m1, w1)" "b ''y'' = Some (FVal (DTensor y))"
      "b ''scratch'' = Some sc" "b ''mask'' = Some (FMask (decode_mask (state_paged (dw_states w ! dc_state cx))))" "b ''grow'' = None"
      "\<And>g. call_geometry env cx = Inr g \<Longrightarrow> map_of m1 (scratch_key cx g) = Some sc"
      using straight_bag_Inr [OF q [unfolded Inr]] by metis
    obtain g p plane arena where g: "call_geometry env cx = Inr g" and fp: "finish_plan env cx g sc (dw_states w ! dc_state cx) plane arena = Inr p"
    proof -
      obtain g sc' wx plane table arena p where h: "call_geometry env cx = Inr g" "call_scratch env cx g memo' w = (sc', m1, wx)"
        "finish_plan env cx g sc' (dw_states w ! dc_state cx) plane arena = Inr p"
        by (rule straight_walk [OF b(1)])
      have "map_of m1 (scratch_key cx g) = Some sc'" using h(2) by (auto simp: call_scratch_def Let_def split: option.splits)
      then have "sc' = sc" using b(6) [OF h(1)] by simp
      with that h show thesis by blast
    qed
    have sc: "sc = FVal (DScratch (dl_scratch p))" using finish_plan_Inr(2) [OF fp] .
    note vs = verdict_step [OF b(4) b(3) [unfolded sc] b(2,5)]
    show ?thesis
    proof (cases "state_paged (dw_states w ! dc_state cx)")
      case True
      obtain grow w2 where rg: "read_growth (dl_scratch p) w1 = (grow, w2)" by fastforce
      show ?thesis unfolding f run q forward_straight_def Inr
        by (simp add: vs True rg b(1,2) b(6) [OF g] g sc truthy_def y_of_def)
    next
      case False
      then show ?thesis unfolding f run q forward_straight_def Inr
        by (simp add: vs b(1,2) truthy_def y_of_def)
    qed
  qed
  moreover have "walk_step_dag env cx memo w = decode_straight env cx memo' w"
    unfolding straight_y [symmetric] by (simp only: walk_step_dag_def DECODE_STEP_nodes r(1) sum.case)
  ultimately show ?thesis using that r(2,3) by blast
qed

lemma forward_validates: "decode_forward env cx memo w = (Inr y, memo', w') \<Longrightarrow> validate_decode_context env cx w = Inr ()"
  by (cases "validate_decode_context env cx w") (simp_all add: decode_forward_def)

section \<open>The replay\<close>

text \<open>The operands of the call live on the heap it is made on.\<close>

definition operands_on :: "decode_context \<Rightarrow> 'a heap \<Rightarrow> bool" where
  "operands_on cx h \<longleftrightarrow> tn_ptr (dc_v cx) < length h \<and> (\<forall>t\<in>set (cr_read (dc_routes cx) @ cr_write (dc_routes cx)). tn_ptr t < length h)
     \<and> (case cr_g_write (dc_routes cx) of None \<Rightarrow> True | Some g \<Rightarrow> tn_ptr g < length h)"

lemma call_tokens_append: "operands_on cx h \<Longrightarrow> call_tokens env cx g (h @ hs) = call_tokens env cx g h"
proof -
  assume o: "operands_on cx h"
  have rows: "level_row (h @ hs) b hh t = level_row h b hh t" if "tn_ptr t < length h" for t b hh
    using that by (simp add: level_row_def value_at_old)
  have lists: "map (level_row (h @ hs) b hh) (cr_read (dc_routes cx)) = map (level_row h b hh) (cr_read (dc_routes cx))"
    "map (level_row (h @ hs) b hh) (cr_write (dc_routes cx)) = map (level_row h b hh) (cr_write (dc_routes cx))" for b hh
    using o rows by (auto simp: operands_on_def)
  have "token_at (h @ hs) (dc_v cx) (cr_read (dc_routes cx)) (cr_write (dc_routes cx)) nz dials gw
      = token_at h (dc_v cx) (cr_read (dc_routes cx)) (cr_write (dc_routes cx)) nz dials gw"
    if "cr_g_write (dc_routes cx) = Some gw" for nz dials gw
    using o that rows [of "dc_v cx"] by (simp add: token_at_def fun_eq_iff lists operands_on_def value_at_old)
  then show ?thesis by (cases "cr_g_write (dc_routes cx)") (simp_all add: call_tokens_def)
qed

lemma reshape_rows: "length rows = m \<Longrightarrow> \<forall>r\<in>set rows. length r = d \<Longrightarrow> reshape2 m d (concat rows) = Inr rows"
proof -
  assume m: "length rows = m" and d: "\<forall>r\<in>set rows. length r = d"
  have len: "length (concat rows) = m * d" using length_concat_const [of rows d] m d by simp
  have "map (\<lambda>r. take d (drop (r * d) (concat rows))) [0..<m] = rows"
    using m d by (intro nth_equalityI) (auto simp: chunk_concat)
  then show ?thesis using len by (simp add: reshape2_def)
qed

text \<open>The admission of a paged state, from the step's own condensation.\<close>

lemma admit_paged:
  assumes ok: "state_ok pf s" "platform_ok pf" and s: "rs_arena s = Some (args, a)"
    and st1: "st1 = s\<lparr>rs_arena := Some (args, b)\<rparr>" and rows: "length rows = ar_BH a" "\<forall>r\<in>set rows. length r = ar_apb a"
  shows "decode_entry_arena (concat rows) st1 =
    (case plan_exact rows False b of (Inl e, c) \<Rightarrow> (Inl e, s\<lparr>rs_arena := Some (args, c)\<rparr>) | (Inr _, c) \<Rightarrow> (Inr c, s\<lparr>rs_arena := Some (args, c)\<rparr>))"
proof -
  note d = state_ok_arenaD [OF ok(1) s]
  note fit = arena_fits_dims [OF d(4) ok(2)]
  obtain B H f where f: "rs_format s = Some f" "state_BH s = B * H"
    "state_keying s = Inr \<lparr>k_N = prod_list (sf_B f), k_cols = sf_DV f + 1, k_BH = B * H\<rparr>"
    by (rule state_okE [OF ok(1) d(1)])
  have apb: "prod_list (sf_B f) div 16 = ar_apb a" using fit(3) d(3) f(1) by (simp flip: fit(3))
  have key: "state_keying st1 = state_keying s" "state_BH st1 = state_BH s" by (simp_all add: st1 state_keying_def state_BH_def)
  have "reshape2 (state_BH s) (ar_apb a) (concat rows) = Inr rows" using rows fit(1) by (intro reshape_rows) simp_all
  then have r: "rbind (state_keying st1) (\<lambda>k. reshape2 (state_BH st1) (atoms_per_bh k) (concat rows)) = Inr rows"
    using f(3) apb by (simp add: key atoms_per_bh_def)
  have sel: "rs_arena st1 = Some (args, b)" "\<And>x. st1\<lparr>rs_arena := x\<rparr> = s\<lparr>rs_arena := x\<rparr>" by (simp_all add: st1)
  show ?thesis unfolding decode_entry_arena_def sel option.case prod.case r sum.case
    by (cases "plan_exact rows False b" rule: prod.exhaust; simp split: sum.split)
qed

lemma scratch_only:
  assumes "scratch_of n m = Inr (Some j)" "map_of m (SCRATCH_TABLE, Some (FVal (DState n)), key) = Some (FVal (DScratch i))"
  shows "j = i"
proof -
  have "((SCRATCH_TABLE, Some (FVal (DState n)), key), FVal (DScratch i)) \<in> set m" using assms(2) by (rule map_of_SomeD)
  then have "FVal (DScratch i) \<in> set (scratch_table n m)" by (force simp: scratch_table_def)
  with assms(1) show ?thesis by (auto simp: scratch_of_def split: list.splits fact.splits decode_value.splits)
qed

lemma y_rows_done: "y_rows env (map (\<lambda>bh. Some (f bh)) [0..<n]) = concat (map f [0..<n])"
proof -
  have "map (\<lambda>bh. case map (\<lambda>bh. Some (f bh)) [0..<n] ! bh of Some row \<Rightarrow> row | None \<Rightarrow> de_unwritten env bh) [0..<n] = map f [0..<n]"
    by (rule map_cong) auto
  then show ?thesis by (simp only: y_rows_def length_map length_upt diff_zero)
qed

lemma scratch_at_like: "memo_like m m' \<Longrightarrow> scratch_at env cx g m w = scratch_at env cx g m' w"
  "memo_like m m' \<Longrightarrow> scratch_known cx g m w = scratch_known cx g m' w"
  by (simp_all add: scratch_at_def scratch_known_def memo_like_key)

definition numerics_ok :: "'a numerics \<Rightarrow> arena \<Rightarrow> bool" where
  "numerics_ok num a \<longleftrightarrow> (\<forall>g tk. token_ok num g (ar_apb a) (16 * ar_cols a) tk)"

definition ready :: "'a decode_env \<Rightarrow> decode_context \<Rightarrow> decode_value memo \<Rightarrow> 'a decode_world \<Rightarrow> arena \<Rightarrow> bool" where
  "ready env cx memo w a \<longleftrightarrow> dc_state cx < length (dw_states w) \<and> operands_on cx (dw_heap w)
     \<and> (\<forall>g. call_geometry env cx = Inr g \<longrightarrow> scratch_known cx g memo w \<and> sc_done (scratch_at env cx g memo w) = replicate (ar_BH a) 0)"

text \<open>The two walks of a call, and what they leave.\<close>

definition call_done ::
    "'a decode_env \<Rightarrow> decode_context \<Rightarrow> decode_value memo \<Rightarrow> 'a decode_world \<Rightarrow> arena_args \<times> arena
     \<Rightarrow> tensor \<Rightarrow> decode_value memo \<Rightarrow> 'a decode_world \<Rightarrow> bool" where
  "call_done env cx memo w ga y memo' w' \<longleftrightarrow>
     (\<exists>g tks i ys b. call_geometry env cx = Inr g \<and> call_tokens env cx g (dw_heap w) = Inr tks
        \<and> length tks = ar_BH (snd ga) \<and> ar_apb (snd ga) = geometry_N g div MMA_K_QUANTUM
        \<and> rs_arena (dw_states w' ! dc_state cx) = Some (fst ga, b)
        \<and> map_of memo' (scratch_key cx g) = Some (FVal (DScratch i)) \<and> i < length (dw_scratch w')
        \<and> step_done (de_numerics env) g tks (snd ga) ys b (dw_scratch w' ! i)
        \<and> dw_heap w' ! tn_ptr y = concat (map (y_row (de_numerics env) g (ar_apb (snd ga)) tks (page_at (snd ga))) [0..<ar_BH (snd ga)]))"

lemma call_doneI:
  assumes "call_geometry env cx = Inr g" "call_tokens env cx g (dw_heap w) = Inr tks" "length tks = ar_BH a"
    "ar_apb a = geometry_N g div MMA_K_QUANTUM"
    "rs_arena (dw_states w' ! dc_state cx) = Some (args, b)" "map_of memo' (scratch_key cx g) = Some (FVal (DScratch i))"
    "i < length (dw_scratch w')" "step_done (de_numerics env) g tks a ys b (dw_scratch w' ! i)"
    "dw_heap w' = h @ [y_rows env ys]" "tn_ptr y = length h"
  shows "call_done env cx memo w (args, a) y memo' w'"
proof -
  have "ys = map (\<lambda>bh. Some (y_row (de_numerics env) g (ar_apb a) tks (page_at a) bh)) [0..<ar_BH a]"
    using assms(8) by (simp add: step_done_def)
  then have "dw_heap w' ! tn_ptr y = concat (map (y_row (de_numerics env) g (ar_apb a) tks (page_at a)) [0..<ar_BH a])"
    using assms(9,10) y_rows_done [of env "y_row (de_numerics env) g (ar_apb a) tks (page_at a)" "ar_BH a"] by simp
  then show ?thesis unfolding call_done_def fst_conv snd_conv using assms(1-8) by blast
qed

lemma forward_once:
  assumes m: "memo_ok decode_good (decode_nodes env) memo" and ok: "state_ok pf (dw_states w ! dc_state cx)" "platform_ok pf"
    and st: "rs_arena (dw_states w ! dc_state cx) = Some (args, a)" and num: "numerics_ok (de_numerics env) a"
    and r: "ready env cx memo w a" and f: "decode_forward env cx memo w = (Inr y, memo', w')"
  shows "call_done env cx memo w (args, a) y memo' w'"
proof -
  let ?n = "dc_state cx" and ?s = "dw_states w ! dc_state cx"
  obtain mf where mf: "decode_forward env cx memo w = forward_straight env cx mf w" "memo_like mf memo"
    "memo_ok decode_good (decode_nodes env) mf"
    by (rule forward_is_straight [OF m forward_validates [OF f]])
  have n: "?n < length (dw_states w)" and ops: "operands_on cx (dw_heap w)" using r by (simp_all add: ready_def)
  have known: "scratch_known cx g mf w" if "call_geometry env cx = Inr g" for g
    using r that by (simp add: scratch_at_like(2) [OF mf(2)] ready_def)
  have wf: "arena_wf a" using state_ok_arenaD(4) [OF ok(1) st] by (simp add: arena_fits_def)
  have paged: "state_paged ?s" using st by (simp add: state_paged_def)
  obtain q m1 w1 where q: "decode_straight env cx mf w = (q, m1, w1)" by (metis prod.collapse)
  have fs: "forward_straight env cx mf w = (Inr y, memo', w')" using f mf(1) by simp
  then obtain y1 where y1: "q = Inr y1" using q by (cases q) (simp_all add: forward_straight_def)
  obtain g tks i ys1 b1 sc1 where 1: "call_geometry env cx = Inr g" "call_tokens env cx g (dw_heap w) = Inr tks" "length tks = ar_BH a"
    "map_of m1 (scratch_key cx g) = Some (FVal (DScratch i))" "i < length (dw_scratch w1)"
    "paged_step (de_numerics env) g tks a (scratch_at env cx g mf w) = (ys1, b1, sc1)"
    "dw_states w1 = (dw_states w)[?n := ?s\<lparr>rs_arena := Some (args, b1)\<rparr>]"
    "dw_scratch w1 ! i = sc1" "dw_heap w1 = dw_heap w @ [y_rows env ys1]" "tn_ptr y1 = length (dw_heap w)"
    "ar_apb a = geometry_N g div MMA_K_QUANTUM"
    using paged_walk [OF q [unfolded y1] st n known] by metis
  have tks: "tokens_ok (de_numerics env) g a tks" using num 1(3) by (simp add: tokens_ok_def numerics_ok_def)
  have cleared: "sc_done (scratch_at env cx g mf w) = replicate (ar_BH a) 0"
    using r 1(1) by (simp add: scratch_at_like(1) [OF mf(2)] ready_def)
  obtain grow w2 where rg: "read_growth i w1 = (grow, w2)" by fastforce
  have w2: "grow = (sc_growth_any sc1 \<noteq> 0)" "dw_states w2 = dw_states w1" "dw_heap w2 = dw_heap w1"
    "dw_scratch w2 ! i = sc1\<lparr>sc_growth_host := sc_growth_any sc1\<rparr>" "i < length (dw_scratch w2)"
    using rg 1(5,8) by (auto simp: read_growth_def Let_def)
  have st2: "rs_arena (dw_states w2 ! ?n) = Some (args, b1)" using 1(7) n w2(2) by simp
  show ?thesis
  proof (cases grow)
    case False
    then have "y1 = y" "m1 = memo'" "w2 = w'"
      using fs by (simp_all add: forward_straight_def q y1 paged 1(1,4) rg)
    then show ?thesis
      using step_covered [OF wf tks cleared 1(6)] False w2 st2 1 by (intro call_doneI) auto
  next
    case True
    obtain ra w3 where adm: "admit_growth ?n m1 w2 = (ra, w3)" by fastforce
    have fs2: "(case (ra, w3) of (Inl e, w3) \<Rightarrow> (Inl e, m1, w3) | (Inr _, w3) \<Rightarrow> walk_step_dag env cx m1 w3) = (Inr y, memo', w')"
      using fs True by (simp add: forward_straight_def q y1 paged 1(1,4) rg adm)
    then obtain u where ra: "ra = Inr u" by (cases ra) auto
    obtain j where j: "scratch_of ?n m1 = Inr (Some j)" using adm ra by (auto simp: admit_growth_def split: sum.splits option.splits)
    have "j = i" using scratch_only [OF j] 1(4) by (simp add: scratch_key_def)
    let ?rows = "atom_rows (de_numerics env) g a tks"
    have rows: "length ?rows = ar_BH a" "\<forall>r\<in>set ?rows. length r = ar_apb a" using 1(3) by (auto simp: atom_rows_def atom_row_def)
    have bits: "sc_atom_bits (dw_scratch w2 ! i) = concat ?rows" using paged_step_bits [OF 1(6)] w2(4) by simp
    have s2: "dw_states w2 ! ?n = ?s\<lparr>rs_arena := Some (args, b1)\<rparr>" using 1(7) n w2(2) by simp
    note ad = admit_paged [OF ok st s2 rows]
    obtain p a2 where pl: "plan_exact ?rows False b1 = (p, a2)" by fastforce
    then obtain p' where p: "p = Inr p'"
      using adm ra ad j \<open>j = i\<close> bits by (cases p) (simp_all add: admit_growth_def)
    have w3: "w3 = w2\<lparr>dw_states := (dw_states w2)[?n := ?s\<lparr>rs_arena := Some (args, a2)\<rparr>]\<rparr>"
      using adm ad j \<open>j = i\<close> bits pl p by (simp add: admit_growth_def)
    have admit: "host_admit ?rows b1 = Inr a2" by (simp add: host_admit_def pl p)
    have m1: "memo_ok decode_good (decode_nodes env) m1" by (rule straight_memo [OF q mf(3)])
    obtain mg where mg: "walk_step_dag env cx m1 w3 = decode_straight env cx mg w3" "memo_like mg m1"
      "memo_ok decode_good (decode_nodes env) mg"
      by (rule walk_is_straight [OF m1])
    have walk2: "decode_straight env cx mg w3 = (Inr y, memo', w')" using fs2 ra mg(1) by simp
    have key: "map_of mg (scratch_key cx g) = Some (FVal (DScratch i))" using memo_like_key [OF mg(2)] 1(4) by simp
    have st3: "rs_arena (dw_states w3 ! ?n) = Some (args, a2)" "?n < length (dw_states w3)" "i < length (dw_scratch w3)"
      using w3 n 1(7) w2(2,5) by simp_all
    have known3: "scratch_known cx g' mg w3" if "call_geometry env cx = Inr g'" for g'
      using that 1(1) key st3(3) by (simp add: scratch_known_def)
    obtain g' tks' i' ys b sc where 2: "call_geometry env cx = Inr g'" "call_tokens env cx g' (dw_heap w3) = Inr tks'"
      "map_of memo' (scratch_key cx g') = Some (FVal (DScratch i'))" "i' < length (dw_scratch w')"
      "memo' = (if map_of mg (scratch_key cx g') = None then (scratch_key cx g', FVal (DScratch i')) # mg else mg)"
      "paged_step (de_numerics env) g' tks' a2 (scratch_at env cx g' mg w3) = (ys, b, sc)"
      "dw_states w' = (dw_states w3)[?n := (dw_states w3 ! ?n)\<lparr>rs_arena := Some (args, b)\<rparr>]"
      "dw_scratch w' ! i' = sc" "dw_heap w' = dw_heap w3 @ [y_rows env ys]" "tn_ptr y = length (dw_heap w3)"
      using paged_walk [OF walk2 st3(1,2) known3] by metis
    have same: "g' = g" "tks' = tks" "i' = i"
    proof -
      show g: "g' = g" using 1(1) 2(1) by simp
      have "call_tokens env cx g (dw_heap w3) = Inr tks" using 1(2,9) w3 w2(3) call_tokens_append [OF ops] by simp
      then show "tks' = tks" using 2(2) g by simp
      show "i' = i" using 2(3,5) key g by simp
    qed
    have sc3: "scratch_at env cx g mg w3 = sc1\<lparr>sc_growth_host := sc_growth_any sc1\<rparr>"
      using key w3 w2(4) by (simp add: scratch_at_def)
    have "step_done (de_numerics env) g tks a ys b sc"
      using replay_done [OF wf tks cleared 1(6) _ admit, of "scratch_at env cx g mg w3" ys b sc] True w2(1) 2(6) same sc3 by simp
    moreover have "rs_arena (dw_states w' ! ?n) = Some (args, b)" using 2(7) st3(2) by simp
    ultimately show ?thesis using 1(1,2,3,11) 2 same by (intro call_doneI) auto
  qed
qed

end
