(* ===== verification/Rola_Decode_Live.thy ===== *)
theory Rola_Decode_Live
  imports Rola_Decode_Replay
begin

text \<open>
  The protocol returns: a second walk after an admission succeeds where the first did, and leaves no
  verdict pending.
\<close>

section \<open>A second walk\<close>

lemma launch_returns: "(\<exists>y w'. decode_launch env p w = (Inr y, w')) = (dl_g_write p \<noteq> None)"
  by (auto simp: decode_launch_def Let_def split_beta split: option.splits)

text \<open>On the same call, over a state that differs in its arena alone, nothing is refused.\<close>

lemma straight_again:
  assumes s: "decode_straight env cx memo w = (Inr y, memo1, w1)"
    and st: "rs_arena (dw_states w ! dc_state cx) = Some (args, a)"
    and v: "dw_states v ! dc_state cx = (dw_states w ! dc_state cx)\<lparr>rs_arena := Some (args, b)\<rparr>"
    and dims: "ar_BH b = ar_BH a" "ar_apb b = ar_apb a" "ar_cols b = ar_cols a"
    and known: "\<And>g. call_geometry env cx = Inr g \<Longrightarrow> \<exists>i. map_of m (scratch_key cx g) = Some (FVal (DScratch i))"
  shows "\<exists>y' v'. decode_straight env cx m v = (Inr y', m, v')"
proof -
  let ?st = "dw_states w ! dc_state cx" and ?sv = "dw_states v ! dc_state cx"
  obtain g sc w0 plane table arena p where h: "call_geometry env cx = Inr g" "call_scratch env cx g memo w = (sc, memo1, w0)"
    "decode_entry (call_routes_of (dc_routes cx)) ?st = Inr (plane, table, arena)"
    "finish_plan env cx g sc ?st plane arena = Inr p" "decode_launch env p w0 = (Inr y, w1)"
    by (rule straight_walk [OF s])
  have shape: "tn_shape (dc_v cx) \<noteq> []" using s by (auto simp: decode_straight_def)
  obtain i where i: "map_of m (scratch_key cx g) = Some (FVal (DScratch i))" using known [OF h(1)] by blast
  then have sc: "call_scratch env cx g m v = (FVal (DScratch i), m, v)" by (simp add: call_scratch_def)
  have ar: "arena = Some a" using h(3) st by (auto simp: decode_entry_def res_simps split: option.splits)
  have entry: "decode_entry (call_routes_of (dc_routes cx)) ?sv = Inr (arena_plane b, Some (ar_table b), Some b)"
    using h(3) st by (auto simp: v decode_entry_def res_simps require_carrying_def carries_def refuse_def state_BH_def split: option.splits if_splits)
  note p = finish_plan_Inr [OF h(4)]
  have "step_plane (tn_shape (dc_v cx)) g (dc_decay cx \<noteq> None) (carried_view (dc_state cx) ?sv (arena_plane b)) (Some [ar_BH b, ar_apb b])
      = Inr (carried_view (dc_state cx) ?sv (arena_plane b))"
    using p(1) st dims by (auto simp: ar v step_plane_def carried_view_def split: list.splits if_splits)
  then obtain q where q: "finish_plan env cx g (FVal (DScratch i)) ?sv (arena_plane b) (Some b) = Inr q"
    using p(9,10) by (simp add: finish_plan_def)
  have "call_plan env cx g (FVal (DScratch i)) ?sv = Inr q" by (simp add: call_plan_def entry q)
  moreover obtain y' v' where "decode_launch env q v = (Inr y', v')"
    using h(5) p(5) finish_plan_Inr(5) [OF q] launch_returns [of env p w0] launch_returns [of env q v] by auto
  ultimately have "decode_straight env cx m v = (Inr y', m, v')"
    using shape by (simp add: decode_straight_def h(1) sc)
  then show ?thesis by blast
qed

section \<open>The call returns\<close>

lemma scratch_of_key:
  assumes "scratch_of n m = Inr r" "map_of m (SCRATCH_TABLE, Some (FVal (DState n)), key) = Some (FVal (DScratch i))"
  shows "r = Some i"
proof -
  have "((SCRATCH_TABLE, Some (FVal (DState n)), key), FVal (DScratch i)) \<in> set m" using assms(2) by (rule map_of_SomeD)
  then have "FVal (DScratch i) \<in> set (scratch_table n m)" by (force simp: scratch_table_def)
  then obtain j where "r = Some j" using assms(1) by (auto simp: scratch_of_def split: list.splits fact.splits decode_value.splits)
  then show ?thesis using scratch_only assms by blast
qed

lemma scratch_of_like: "memo_like m m' \<Longrightarrow> scratch_of n m = scratch_of n m'"
  using scratch_table_cong [of m m' n] by (simp only: memo_like_def scratch_of_def)

lemma forward_live:
  assumes m: "memo_ok decode_good (decode_nodes env) memo" and ok: "state_ok pf (dw_states w ! dc_state cx)" "platform_ok pf"
    and st: "rs_arena (dw_states w ! dc_state cx) = Some (args, a)" and num: "numerics_ok (de_numerics env) a"
    and r: "ready env cx memo w a" and gated: "decode_step_gated env cx memo w = (Inr y1, m1, w1)"
    and pend: "growth_pending (dc_state cx) m1 w1 = (Inr grow, w2)"
    and adm: "grow \<Longrightarrow> fst (admit_growth (dc_state cx) m1 w2) = Inr ()"
  shows "\<exists>y memo' w'. decode_forward env cx memo w = (Inr y, memo', w')
     \<and> fst (growth_pending (dc_state cx) memo' w') = Inr False"
proof -
  let ?n = "dc_state cx" and ?s = "dw_states w ! dc_state cx"
  have v: "validate_decode_context env cx w = Inr ()" and walk: "walk_step_dag env cx memo w = (Inr y1, m1, w1)"
    using gated by (auto simp: decode_step_gated_def split: sum.splits)
  obtain mf where mf: "decode_forward env cx memo w = forward_straight env cx mf w" "memo_like mf memo"
    "memo_ok decode_good (decode_nodes env) mf" "walk_step_dag env cx memo w = decode_straight env cx mf w"
    by (rule forward_is_straight [OF m v])
  have s1: "decode_straight env cx mf w = (Inr y1, m1, w1)" using mf(4) walk by simp
  have n: "?n < length (dw_states w)" using r by (simp add: ready_def)
  have paged: "state_paged ?s" using st by (simp add: state_paged_def)
  have known: "scratch_known cx g mf w" if "call_geometry env cx = Inr g" for g
    using r that by (simp add: scratch_at_like(2) [OF mf(2)] ready_def)
  obtain g tks i ys1 b1 sc1 where 1: "call_geometry env cx = Inr g" "call_tokens env cx g (dw_heap w) = Inr tks" "length tks = ar_BH a"
    "map_of m1 (scratch_key cx g) = Some (FVal (DScratch i))" "i < length (dw_scratch w1)"
    "paged_step (de_numerics env) g tks a (scratch_at env cx g mf w) = (ys1, b1, sc1)"
    "dw_states w1 = (dw_states w)[?n := ?s\<lparr>rs_arena := Some (args, b1)\<rparr>]" "dw_scratch w1 ! i = sc1"
    using paged_walk [OF s1 st n known] by metis
  have tks: "tokens_ok (de_numerics env) g a tks" using num 1(3) by (simp add: tokens_ok_def numerics_ok_def)
  have wf: "arena_wf a" using state_ok_arenaD(4) [OF ok(1) st] by (simp add: arena_fits_def)
  have cleared: "sc_done (scratch_at env cx g mf w) = replicate (ar_BH a) 0"
    using r 1(1) by (simp add: scratch_at_like(1) [OF mf(2)] ready_def)
  have paged1: "state_paged (dw_states w1 ! ?n)" using 1(7) n by (simp add: state_paged_def)
  have so: "scratch_of ?n m1 = Inr (Some i)"
  proof -
    obtain x where x: "scratch_of ?n m1 = Inr x" using pend by (auto simp: growth_pending_def split: sum.splits)
    then show ?thesis using scratch_of_key 1(4) unfolding scratch_key_def by blast
  qed
  have rg: "read_growth i w1 = (grow, w2)" using pend so paged1 by (auto simp: growth_pending_def split: prod.splits)
  have returns: "\<exists>y memo' w'. decode_forward env cx memo w = (Inr y, memo', w') \<and> scratch_of ?n memo' = Inr (Some i)"
  proof (cases grow)
    case False
    then show ?thesis using so by (simp add: mf(1) forward_straight_def s1 paged 1(1,4) rg)
  next
    case True
    obtain w3 where ad: "admit_growth ?n m1 w2 = (Inr (), w3)" using adm [OF True] by (cases "admit_growth ?n m1 w2") simp
    have w2: "dw_states w2 = dw_states w1" "dw_scratch w2 ! i = sc1\<lparr>sc_growth_host := sc_growth_any sc1\<rparr>"
      using rg 1(5,8) by (auto simp: read_growth_def Let_def)
    let ?rows = "atom_rows (de_numerics env) g a tks"
    have rows: "length ?rows = ar_BH a" "\<forall>r\<in>set ?rows. length r = ar_apb a" using 1(3) by (auto simp: atom_rows_def atom_row_def)
    have bits: "sc_atom_bits (dw_scratch w2 ! i) = concat ?rows" using paged_step_bits [OF 1(6)] w2(2) by simp
    have s2: "dw_states w2 ! ?n = ?s\<lparr>rs_arena := Some (args, b1)\<rparr>" using 1(7) n w2(1) by simp
    note ap = admit_paged [OF ok st s2 rows]
    obtain p a2 where pl: "plan_exact ?rows False b1 = (p, a2)" by fastforce
    have w3: "w3 = w2\<lparr>dw_states := (dw_states w2)[?n := ?s\<lparr>rs_arena := Some (args, a2)\<rparr>]\<rparr>" "is_ok p"
      using ad ap so bits pl by (auto simp: admit_growth_def split: sum.splits)
    then obtain p' where p': "p = Inr p'" by (cases p) simp_all
    have m1: "memo_ok decode_good (decode_nodes env) m1" by (rule straight_memo [OF s1 mf(3)])
    obtain mg where mg: "walk_step_dag env cx m1 w3 = decode_straight env cx mg w3" "memo_like mg m1"
      by (rule walk_is_straight [OF m1])
    have len: "length (sc_done (scratch_at env cx g mf w)) = ar_BH a" using cleared by simp
    obtain needy where "walk_frame {0..<ar_BH a} a b1" using paged_step_ok [OF wf tks len 1(6)] by metis
    then have b1: "arena_wf b1" "ar_BH b1 = ar_BH a" "ar_apb b1 = ar_apb a" "ar_cols b1 = ar_cols a" by (simp_all add: walk_frame_def)
    have admit: "host_admit ?rows b1 = Inr a2" by (simp add: host_admit_def pl p')
    have a2: "ar_BH a2 = ar_BH a" "ar_apb a2 = ar_apb a" "ar_cols a2 = ar_cols a"
      using host_admit_ok(2) [OF b1(1) admit] b1 by (simp_all add: same_dims_def)
    have st3: "dw_states w3 ! ?n = ?s\<lparr>rs_arena := Some (args, a2)\<rparr>" using w3(1) w2(1) 1(7) n by simp
    have key: "map_of mg (scratch_key cx g) = Some (FVal (DScratch i))" using memo_like_key [OF mg(2)] 1(4) by simp
    obtain y' w' where "decode_straight env cx mg w3 = (Inr y', mg, w')"
      using straight_again [OF s1 st st3 a2, of mg] key 1(1) by auto
    then have "decode_forward env cx memo w = (Inr y', mg, w')"
      using True by (simp add: mf(1) forward_straight_def s1 paged 1(1,4) rg ad mg(1))
    then show ?thesis using so scratch_of_like [OF mg(2)] by simp
  qed
  then obtain y memo' w' where f: "decode_forward env cx memo w = (Inr y, memo', w')" "scratch_of ?n memo' = Inr (Some i)" by blast
  have "call_done env cx memo w (args, a) y memo' w'" by (rule forward_once [OF m ok st num r f(1)])
  then obtain i' ys b where d: "map_of memo' (scratch_key cx g) = Some (FVal (DScratch i'))"
    "step_done (de_numerics env) g tks a ys b (dw_scratch w' ! i')"
    using 1(1,2) by (auto simp: call_done_def)
  have "i' = i" using scratch_only [OF f(2)] d(1) by (simp add: scratch_key_def)
  then have "sc_growth_any (dw_scratch w' ! i) = 0" using d(2) by (simp add: step_done_def)
  then show ?thesis using f by (auto simp: growth_pending_def read_growth_def)
qed

end
