(* ===== verification/Rola_Decode_Dense.thy ===== *)
theory Rola_Decode_Dense
  imports Rola_Decode_Live
begin

text \<open>
  The decode step of a dense state, and the two backings side by side: on equal contents a paged and
  a dense state answer a call with the same output and move to equal contents.
\<close>

section \<open>One walk on a dense state\<close>

lemma launch_dense:
  assumes l: "decode_launch env p w = (Inr y, w')" and n: "sv_owner (dl_state_plane p) = n" "n < length (dw_states w)"
    and d: "rs_plane (dw_states w ! n) = Some d" "dl_page_table p = None" "dl_scratch p < length (dw_scratch w)"
  obtains gw ys e where "dl_g_write p = Some gw"
    "dense_rows (de_numerics env) (dl_config p) (geometry_N (dl_config p) div MMA_K_QUANTUM) 0
       (map (token_of (dw_heap w) p gw) [0..<plan_BH p]) d = (ys, e)"
    "dw_heap w' = dw_heap w @ [y_rows env ys]" "dw_states w' = (dw_states w)[n := (dw_states w ! n)\<lparr>rs_plane := Some e\<rparr>]"
    "tn_ptr y = length (dw_heap w)"
proof -
  obtain gw where gw: "dl_g_write p = Some gw" using l by (auto simp: decode_launch_def split: option.splits)
  obtain ys e where st: "dense_rows (de_numerics env) (dl_config p) (geometry_N (dl_config p) div MMA_K_QUANTUM) 0
       (map (token_of (dw_heap w) p gw) [0..<plan_BH p]) d = (ys, e)" by (metis prod.collapse)
  show thesis using that [OF gw st] l
    by (simp add: decode_launch_def gw n(1) launch_state_def d st Let_def fresh_tensor_def y_rows_def split: option.splits)
      (auto simp: is_contiguous_def)
qed

text \<open>What a dense call leaves: the whole step, once.\<close>

definition dense_done ::
    "'a decode_env \<Rightarrow> decode_context \<Rightarrow> 'a decode_world \<Rightarrow> dense_plane \<Rightarrow> tensor \<Rightarrow> 'a decode_world \<Rightarrow> bool" where
  "dense_done env cx w d y w' \<longleftrightarrow>
     (\<exists>g tks e. call_geometry env cx = Inr g \<and> call_tokens env cx g (dw_heap w) = Inr tks
        \<and> rs_plane (dw_states w' ! dc_state cx) = Some e \<and> dense_ok e
        \<and> (\<forall>i<length (dp_pages d). dp_pages e ! i = stepped (de_numerics env) g (geometry_N g div 16) tks (\<lambda>i. dp_pages d ! i) i)
        \<and> dw_heap w' ! tn_ptr y = concat (map (y_row (de_numerics env) g (geometry_N g div 16) tks (\<lambda>i. dp_pages d ! i))
             [0..<length tks]))"

definition dense_numerics_ok :: "'a numerics \<Rightarrow> nat \<Rightarrow> dense_plane \<Rightarrow> bool" where
  "dense_numerics_ok num apb d \<longleftrightarrow> (\<forall>g tk. token_ok num g apb (16 * dp_cols d) tk)"

lemma dense_walk:
  assumes s: "decode_straight env cx memo w = (Inr y, memo', w')" and ok: "state_ok pf (dw_states w ! dc_state cx)"
    and d: "rs_plane (dw_states w ! dc_state cx) = Some d" "dc_state cx < length (dw_states w)"
    and num: "dense_numerics_ok (de_numerics env) (state_N (dw_states w ! dc_state cx) div 16) d"
    and known: "\<And>g. call_geometry env cx = Inr g \<Longrightarrow> scratch_known cx g memo w"
  shows "dense_done env cx w d y w'"
proof -
  let ?st = "dw_states w ! dc_state cx"
  obtain g f w1 plane table arena p where h: "call_geometry env cx = Inr g" "call_scratch env cx g memo w = (f, memo', w1)"
    "decode_entry (call_routes_of (dc_routes cx)) ?st = Inr (plane, table, arena)"
    "finish_plan env cx g f ?st plane arena = Inr p" "decode_launch env p w1 = (Inr y, w')"
    by (rule straight_walk [OF s])
  note pd = state_ok_planeD [OF ok d(1)]
  obtain B H fm where fm: "rs_shape ?st = Some (B, H, prod_list (sf_B fm), sf_DV fm + 1)" "rs_format ?st = Some fm"
    "format_of (sf_B fm) (sf_DV fm) (B * H) = Inr fm" "state_BH ?st = B * H"
    by (rule state_okE [OF ok pd(1)])
  have ar: "arena = None" using h(3) pd(2) d(1) by (auto simp: decode_entry_def res_simps split: option.splits)
  note p = finish_plan_Inr [OF h(4)]
  have own: "sv_owner (dl_state_plane p) = dc_state cx" using step_plane_Inr(1) [OF p(1)] by (simp add: carried_view_def)
  obtain q where q: "tn_shape (dc_v cx) = [B, q, H, dg_d_v g]"
    "geometry_N g = prod_list (sf_B fm)"
    using p(1) fm(1) pd(2) by (auto simp: ar step_plane_def carried_view_def split: list.splits if_splits)
  have w1: "dw_states w1 = dw_states w" "dw_heap w1 = dw_heap w" using call_scratch_states [OF h(2)] by simp_all
  have i: "dl_scratch p < length (dw_scratch w1)"
    using h(2) p(2) known [OF h(1)]
    by (auto simp: call_scratch_def scratch_known_def Let_def split: option.splits)
  have d1: "rs_plane (dw_states w1 ! dc_state cx) = Some d" "dl_page_table p = None" "dc_state cx < length (dw_states w1)"
    using d w1 p(6) ar by simp_all
  obtain gw ys e where l: "dl_g_write p = Some gw"
    "dense_rows (de_numerics env) (dl_config p) (geometry_N (dl_config p) div MMA_K_QUANTUM) 0
       (map (token_of (dw_heap w1) p gw) [0..<plan_BH p]) d = (ys, e)"
    "dw_heap w' = dw_heap w1 @ [y_rows env ys]" "dw_states w' = (dw_states w1)[dc_state cx := (dw_states w1 ! dc_state cx)\<lparr>rs_plane := Some e\<rparr>]"
    "tn_ptr y = length (dw_heap w1)"
    using launch_dense [OF h(5) own d1(3,1,2) i] by metis
  define tks where "tks = map (token_of (dw_heap w1) p gw) [0..<plan_BH p]"
  define apb where "apb = geometry_N g div 16"
  have tks: "call_tokens env cx g (dw_heap w) = Inr tks"
    using l(1) p(5) unfolding call_tokens_def p(9,10) tks_def
    by (simp add: token_of_def [abs_def] p(4,7,8) plan_BH_def w1)
  have BH: "length tks = B * H" by (simp add: tks_def plan_BH_def p(4) q(1))
  have N: "state_N ?st = geometry_N g" by (simp add: state_N_def fm(1) q(2))
  have "0 < prod_list (sf_B fm)" "prod_list (sf_B fm) mod 16 = 0"
    using fm(3) by (auto simp: format_of_Inr lawful_format_def format_N_prod intro!: prod_list_pos dest: is_pow2_pos)
  then have apb: "0 < apb" using q(2) by (auto simp: apb_def elim: dvdE simp flip: mod_eq_0_iff_dvd)
  have run: "dense_rows (de_numerics env) g apb 0 tks d = (ys, e)"
    using l(2) by (simp add: p(3) tks_def apb_def MMA_K_QUANTUM_def)
  have len: "length tks * apb = length (dp_pages d)" using pd(5) by (simp add: BH fm(4) N apb_def)
  have tok: "\<forall>tk\<in>set tks. token_ok (de_numerics env) g apb (16 * dp_cols d) tk"
    using num by (simp add: dense_numerics_ok_def N apb_def)
  note dn = dense_step_done [OF pd(3) len apb tok run]
  have "dw_heap w' ! tn_ptr y = concat (map (y_row (de_numerics env) g apb tks (\<lambda>i. dp_pages d ! i)) [0..<length tks])"
    using l(3,5) dn(3) y_rows_done [of env "y_row (de_numerics env) g apb tks (\<lambda>i. dp_pages d ! i)" "length tks"] by simp
  moreover have "rs_plane (dw_states w' ! dc_state cx) = Some e" using l(4) d1(3) by simp
  ultimately show ?thesis using h(1) tks dn(1,2) unfolding dense_done_def apb_def by blast
qed

lemma forward_dense:
  assumes m: "memo_ok decode_good (decode_nodes env) memo" and ok: "state_ok pf (dw_states w ! dc_state cx)"
    and d: "rs_plane (dw_states w ! dc_state cx) = Some d" "dc_state cx < length (dw_states w)"
    and num: "dense_numerics_ok (de_numerics env) (state_N (dw_states w ! dc_state cx) div 16) d"
    and known: "\<And>g. call_geometry env cx = Inr g \<Longrightarrow> scratch_known cx g memo w"
    and f: "decode_forward env cx memo w = (Inr y, memo', w')"
  shows "dense_done env cx w d y w'"
proof -
  obtain mf where mf: "decode_forward env cx memo w = forward_straight env cx mf w" "memo_like mf memo"
    by (rule forward_is_straight [OF m forward_validates [OF f]])
  have np: "\<not> state_paged (dw_states w ! dc_state cx)"
    using state_ok_planeD(2) [OF ok d(1)] state_ok_planeD(1) [OF ok d(1)] by (simp add: state_paged_def)
  have "decode_straight env cx mf w = (Inr y, memo', w')"
    using f mf(1) np by (auto simp: forward_straight_def split: prod.splits sum.splits)
  moreover have "scratch_known cx g mf w" if "call_geometry env cx = Inr g" for g
    using known [OF that] by (simp add: scratch_at_like(2) [OF mf(2)])
  ultimately show ?thesis by (intro dense_walk [OF _ ok d num]) auto
qed

section \<open>The two backings\<close>

lemma stepped_cong: "v i = v' i \<Longrightarrow> stepped num g apb tks v i = stepped num g apb tks v' i"
  by (simp add: stepped_def Let_def)

lemma y_row_cong: "(\<And>x. x < apb \<Longrightarrow> v (bh * apb + x) = v' (bh * apb + x)) \<Longrightarrow> y_row num g apb tks v bh = y_row num g apb tks v' bh"
  unfolding y_row_def by (intro arg_cong [where f = "sn_read num g (tks ! bh)"] map_cong refl stepped_cong) simp

lemma backings_agree:
  assumes p: "call_done env cx memo w (args, a) y memo' w'" and d: "dense_done env (cx\<lparr>dc_state := k\<rparr>) v d z v'"
    and heap: "dw_heap v = dw_heap w" and len: "length (dp_pages d) = logical_pages a"
    and eq: "\<forall>i<logical_pages a. dp_pages d ! i = page_at a i"
  shows "dw_heap v' ! tn_ptr z = dw_heap w' ! tn_ptr y" "\<exists>b e. rs_arena (dw_states w' ! dc_state cx) = Some (args, b)
     \<and> rs_plane (dw_states v' ! k) = Some e \<and> (\<forall>i<logical_pages a. dp_pages e ! i = page_at b i)"
proof -
  obtain g tks ys b sc where 1: "call_geometry env cx = Inr g" "call_tokens env cx g (dw_heap w) = Inr tks" "length tks = ar_BH a"
    "ar_apb a = geometry_N g div 16" "rs_arena (dw_states w' ! dc_state cx) = Some (args, b)"
    "step_done (de_numerics env) g tks a ys b sc"
    "dw_heap w' ! tn_ptr y = concat (map (y_row (de_numerics env) g (ar_apb a) tks (page_at a)) [0..<ar_BH a])"
    using p unfolding call_done_def fst_conv snd_conv MMA_K_QUANTUM_def by blast
  have "call_geometry env (cx\<lparr>dc_state := k\<rparr>) = Inr g" "call_tokens env (cx\<lparr>dc_state := k\<rparr>) g (dw_heap v) = Inr tks"
    using 1(1,2) heap by (simp_all add: call_geometry_def call_tokens_def cong: option.case_cong)
  then obtain e where 2: "rs_plane (dw_states v' ! k) = Some e"
    "\<forall>i<length (dp_pages d). dp_pages e ! i = stepped (de_numerics env) g (ar_apb a) tks (\<lambda>i. dp_pages d ! i) i"
    "dw_heap v' ! tn_ptr z = concat (map (y_row (de_numerics env) g (ar_apb a) tks (\<lambda>i. dp_pages d ! i)) [0..<ar_BH a])"
    using d 1(3,4) by (auto simp: dense_done_def)
  have rows: "y_row (de_numerics env) g (ar_apb a) tks (\<lambda>i. dp_pages d ! i) bh = y_row (de_numerics env) g (ar_apb a) tks (page_at a) bh"
    if "bh < ar_BH a" for bh by (rule y_row_cong) (use eq row_index [OF that] in blast)
  then show "dw_heap v' ! tn_ptr z = dw_heap w' ! tn_ptr y"
    unfolding 1(7) 2(3) by (intro arg_cong [where f = concat] map_cong) auto
  have "dp_pages e ! i = page_at b i" if i: "i < logical_pages a" for i
  proof -
    have "dp_pages e ! i = stepped (de_numerics env) g (ar_apb a) tks (\<lambda>i. dp_pages d ! i) i" using 2(2) i len by simp
    also have "\<dots> = stepped (de_numerics env) g (ar_apb a) tks (page_at a) i" using eq i by (intro stepped_cong) blast
    also have "\<dots> = page_at b i" using 1(6) i by (simp add: step_done_def)
    finally show ?thesis .
  qed
  then show "\<exists>b e. rs_arena (dw_states w' ! dc_state cx) = Some (args, b)
     \<and> rs_plane (dw_states v' ! k) = Some e \<and> (\<forall>i<logical_pages a. dp_pages e ! i = page_at b i)" using 1(5) 2(1) by blast
qed

end
