(* ===== verification/Rola_Decode_Apart.thy ===== *)
theory Rola_Decode_Apart
  imports Rola_Decode_Live
begin

text \<open>
  The scratches of concurrent sequences, over any order of entries: no two states ever share one,
  and the memo tables keep the right cells.
\<close>

section \<open>The entries, in any order\<close>

text \<open>
  What a process does to the tables and the scratches: the entries on any state, and in between
  anything that leaves the scratches alone (a prefill, a new state, a new tensor).
\<close>

inductive decode_reach :: "'a decode_env \<Rightarrow> decode_value memo \<Rightarrow> 'a decode_world \<Rightarrow> bool" for env where
  start: "dw_scratch w = [] \<Longrightarrow> decode_reach env [] w"
| forwarded: "decode_reach env m w \<Longrightarrow> decode_forward env cx m w = (r, m', w') \<Longrightarrow> decode_reach env m' w'"
| gated: "decode_reach env m w \<Longrightarrow> decode_step_gated env cx m w = (r, m', w') \<Longrightarrow> decode_reach env m' w'"
| polled: "decode_reach env m w \<Longrightarrow> growth_pending n m w = (b, w') \<Longrightarrow> decode_reach env m w'"
| admitted: "decode_reach env m w \<Longrightarrow> admit_growth n m w = (u, w') \<Longrightarrow> decode_reach env m w'"
| elsewhere: "decode_reach env m w \<Longrightarrow> dw_scratch w' = dw_scratch w \<Longrightarrow> decode_reach env m w'"

definition scratch_cell_ok :: "nat \<Rightarrow> (nat \<times> decode_value fact option \<times> decode_value fact list) \<times> decode_value fact \<Rightarrow> bool" where
  "scratch_cell_ok k c \<longleftrightarrow> (\<exists>n key i. c = ((SCRATCH_TABLE, Some (FVal (DState n)), key), FVal (DScratch i)) \<and> i < k)"

definition scratches_apart :: "decode_value memo \<Rightarrow> 'a decode_world \<Rightarrow> bool" where
  "scratches_apart m w \<longleftrightarrow> distinct (map snd (scratch_cells m)) \<and> (\<forall>c\<in>set (scratch_cells m). scratch_cell_ok (length (dw_scratch w)) c)"

lemma apart_cong: "scratch_cells m' = scratch_cells m \<Longrightarrow> length (dw_scratch w') = length (dw_scratch w) \<Longrightarrow>
  scratches_apart m' w' = scratches_apart m w"
  by (simp add: scratches_apart_def)

lemma launch_scratches: "decode_launch env p w = (r, w') \<Longrightarrow> length (dw_scratch w') = length (dw_scratch w)"
  by (auto simp: decode_launch_def Let_def split_beta split: option.splits)

lemma growth_scratches: "read_growth i w = (b, w') \<Longrightarrow> length (dw_scratch w') = length (dw_scratch w)"
  by (auto simp: read_growth_def Let_def)

lemma admit_scratches: "admit_growth n m w = (u, w') \<Longrightarrow> dw_scratch w' = dw_scratch w"
  by (auto simp: admit_growth_def split: sum.splits option.splits prod.splits)

lemma scratch_cells_Cons [simp]: "scratch_cells (((t, st, key), v) # m) = (if t = SCRATCH_TABLE then ((t, st, key), v) # scratch_cells m else scratch_cells m)"
  by (simp add: scratch_cells_def)

lemma call_scratch_apart:
  assumes "scratches_apart m w" "call_scratch env cx g m w = (sc, m', w')"
  shows "scratches_apart m' w'"
proof (cases "map_of m (scratch_key cx g)")
  case None
  let ?n = "length (dw_scratch w)"
  have "FVal (DScratch ?n) \<notin> set (map snd (scratch_cells m))"
    using assms(1) by (force simp: scratches_apart_def scratch_cell_ok_def)
  moreover have "scratch_cell_ok (Suc ?n) c" if "c \<in> set (scratch_cells m)" for c
    using assms(1) that by (fastforce simp: scratches_apart_def scratch_cell_ok_def)
  ultimately show ?thesis using assms None
    by (auto simp: call_scratch_def Let_def scratches_apart_def scratch_key_def scratch_cell_ok_def)
qed (use assms in \<open>simp add: call_scratch_def\<close>)

lemma straight_apart:
  assumes "scratches_apart m w" "decode_straight env cx m w = (r, m', w')"
  shows "scratches_apart m' w'"
proof (cases "tn_shape (dc_v cx) = [] \<or> (\<exists>e. call_geometry env cx = Inl e)")
  case True
  then show ?thesis using assms by (auto simp: decode_straight_def split: if_splits)
next
  case False
  then obtain g where g: "tn_shape (dc_v cx) \<noteq> []" "call_geometry env cx = Inr g" by (cases "call_geometry env cx") auto
  obtain sc m1 w1 where sc: "call_scratch env cx g m w = (sc, m1, w1)" by (metis prod.collapse)
  have a1: "scratches_apart m1 w1" by (rule call_scratch_apart [OF assms(1) sc])
  show ?thesis
  proof (cases "call_plan env cx g sc (dw_states w1 ! dc_state cx)")
    case (Inl e)
    then show ?thesis using assms(2) a1 g by (simp add: decode_straight_def sc)
  next
    case (Inr p)
    obtain r2 w2 where l: "decode_launch env p w1 = (r2, w2)" by fastforce
    then show ?thesis using assms(2) a1 g Inr apart_cong [OF refl launch_scratches [OF l], of m1] by (simp add: decode_straight_def sc)
  qed
qed

lemma walk_apart:
  assumes "memo_ok decode_good (decode_nodes env) m" "scratches_apart m w" "walk_step_dag env cx m w = (r, m', w')"
  shows "scratches_apart m' w' \<and> memo_ok decode_good (decode_nodes env) m'"
proof -
  obtain ms where ms: "walk_step_dag env cx m w = decode_straight env cx ms w" "memo_like ms m"
    "memo_ok decode_good (decode_nodes env) ms" by (rule walk_is_straight [OF assms(1)])
  have "scratches_apart ms w" using assms(2) ms(2) apart_cong [of ms m w w] by (simp add: memo_like_def)
  moreover have "decode_straight env cx ms w = (r, m', w')" using ms(1) assms(3) by simp
  ultimately show ?thesis using straight_apart straight_memo ms(3) by blast
qed

lemma forward_apart:
  assumes m: "memo_ok decode_good (decode_nodes env) m" and a: "scratches_apart m w" and f: "decode_forward env cx m w = (r, m', w')"
  shows "scratches_apart m' w' \<and> memo_ok decode_good (decode_nodes env) m'"
proof (cases "validate_decode_context env cx w")
  case (Inl e)
  then show ?thesis using assms by (simp add: decode_forward_def)
next
  case (Inr u)
  then have v: "validate_decode_context env cx w = Inr ()" by simp
  obtain ms where ms: "decode_forward env cx m w = forward_straight env cx ms w" "memo_like ms m"
    "memo_ok decode_good (decode_nodes env) ms" by (rule forward_is_straight [OF m v])
  have a0: "scratches_apart ms w" using a ms(2) apart_cong [of ms m w w] by (simp add: memo_like_def)
  obtain q m1 w1 where s: "decode_straight env cx ms w = (q, m1, w1)" by (metis prod.collapse)
  have 1: "scratches_apart m1 w1" "memo_ok decode_good (decode_nodes env) m1"
    using straight_apart [OF a0 s] straight_memo [OF s ms(3)] by simp_all
  have fs: "forward_straight env cx ms w = (r, m', w')" using f ms(1) by simp
  consider "m' = m1" "w' = w1" | i b where "m' = m1" "read_growth i w1 = (b, w')"
    | i b w2 e where "m' = m1" "read_growth i w1 = (b, w2)" "admit_growth (dc_state cx) m1 w2 = (Inl e, w')"
    | i b w2 w3 where "read_growth i w1 = (b, w2)" "admit_growth (dc_state cx) m1 w2 = (Inr (), w3)" "walk_step_dag env cx m1 w3 = (r, m', w')"
    using fs s by (auto simp: forward_straight_def split: sum.splits if_splits option.splits fact.splits decode_value.splits prod.splits)
  then show ?thesis
  proof cases
    case (2 i b)
    then show ?thesis using 1 apart_cong [OF refl growth_scratches] by blast
  next
    case (3 i b w2 e)
    have "scratches_apart m1 w'" using 1(1) apart_cong [OF refl growth_scratches [OF 3(2)]] apart_cong [of m1 m1 w' w2] admit_scratches [OF 3(3)] by simp
    then show ?thesis using 1(2) 3(1) by simp
  next
    case (4 i b w2 w3)
    have "scratches_apart m1 w3" using 1(1) apart_cong [OF refl growth_scratches [OF 4(1)]] apart_cong [of m1 m1 w3 w2] admit_scratches [OF 4(2)] by simp
    then show ?thesis using walk_apart 1(2) 4(3) by blast
  qed (use 1 in simp)
qed

lemma reach_apart: "decode_reach env m w \<Longrightarrow> scratches_apart m w \<and> memo_ok decode_good (decode_nodes env) m"
proof (induction rule: decode_reach.induct)
  case (start w)
  then show ?case by (simp add: scratches_apart_def scratch_cells_def memo_ok_empty)
next
  case (forwarded m w cx r m' w')
  then show ?case using forward_apart by blast
next
  case (gated m w cx r m' w')
  then show ?case by (cases "validate_decode_context env cx w") (auto simp: decode_step_gated_def dest: walk_apart)
next
  case (polled m w n b w')
  then show ?case using apart_cong [of m m w' w]
    by (auto simp: growth_pending_def split: sum.splits option.splits if_splits prod.splits dest: growth_scratches)
next
  case (admitted m w n u w')
  then show ?case using apart_cong [of m m w' w] admit_scratches [OF admitted.hyps(2)] by simp
next
  case (elsewhere m w w')
  then show ?case using apart_cong [of m m w' w] by simp
qed

lemma scratch_table_mem: "f \<in> set (scratch_table n m) \<longleftrightarrow> (\<exists>key. ((SCRATCH_TABLE, Some (FVal (DState n)), key), f) \<in> set (scratch_cells m))"
  by (force simp: scratch_table_def scratch_cells_def)

text \<open>Two states never share a scratch, and a state's cells are scratches that exist.\<close>

lemma reach_disjoint:
  assumes "decode_reach env m w" "f \<in> set (scratch_table n m)" "f \<in> set (scratch_table k m)"
  shows "n = k" "\<exists>i<length (dw_scratch w). f = FVal (DScratch i)"
proof -
  have a: "scratches_apart m w" using reach_apart [OF assms(1)] by simp
  obtain key key' where k: "((SCRATCH_TABLE, Some (FVal (DState n)), key), f) \<in> set (scratch_cells m)"
    "((SCRATCH_TABLE, Some (FVal (DState k)), key'), f) \<in> set (scratch_cells m)"
    using assms(2,3) by (auto simp: scratch_table_mem)
  have "inj_on snd (set (scratch_cells m))" using a by (simp add: scratches_apart_def distinct_map)
  from inj_onD [OF this _ k] show "n = k" by simp
  show "\<exists>i<length (dw_scratch w). f = FVal (DScratch i)" using a k(1) by (auto simp: scratches_apart_def scratch_cell_ok_def)
qed

end
