(* ===== verification/Rola_Decode_Frame.thy ===== *)
theory Rola_Decode_Frame
  imports Rola_Decode_Apart
begin

text \<open>
  What a decode call leaves alone and what it returns: the frame of a walk, the type of its output,
  the widths it can serve and the done flags a refused admission leaves standing.
\<close>

section \<open>The frame\<close>

text \<open>The storages a caller holds, and every state but the call's own.\<close>

definition framed :: "nat \<Rightarrow> 'a decode_world \<Rightarrow> 'a decode_world \<Rightarrow> bool" where
  "framed n w w' \<longleftrightarrow> take (length (dw_heap w)) (dw_heap w') = dw_heap w \<and> length (dw_heap w) \<le> length (dw_heap w')
     \<and> length (dw_states w') = length (dw_states w) \<and> (\<forall>k. k \<noteq> n \<longrightarrow> dw_states w' ! k = dw_states w ! k)"

lemma framed_refl [simp]: "framed n w w" by (simp add: framed_def)

lemma framed_trans: "framed n u v \<Longrightarrow> framed n v w \<Longrightarrow> framed n u w"
proof -
  assume a: "framed n u v" "framed n v w"
  have "length (dw_heap u) \<le> length (dw_heap v)" using a by (simp add: framed_def)
  then have "take (length (dw_heap u)) (dw_heap w) = take (length (dw_heap u)) (take (length (dw_heap v)) (dw_heap w))"
    by (simp only: take_take min_absorb1)
  also have "\<dots> = dw_heap u" using a by (simp add: framed_def)
  finally show "framed n u w" using a by (simp add: framed_def)
qed

lemma scratch_framed: "call_scratch env cx g memo w = (sc, memo', w') \<Longrightarrow> framed n w w'"
  by (auto simp: call_scratch_def framed_def Let_def split: option.splits)

lemma growth_framed: "read_growth i w = (b, w') \<Longrightarrow> framed n w w'"
  by (auto simp: read_growth_def framed_def Let_def)

lemma admit_framed: "admit_growth n m w = (u, w') \<Longrightarrow> framed n w w'"
  by (auto simp: admit_growth_def framed_def split: sum.splits option.splits prod.splits)

lemma launch_framed: "decode_launch env p w = (r, w') \<Longrightarrow> framed (sv_owner (dl_state_plane p)) w w'"
  by (auto simp: decode_launch_def Let_def split_beta framed_def fresh_tensor_def split: option.splits)

text \<open>What one walk returns.\<close>

definition output_of :: "decode_context \<Rightarrow> 'a decode_world \<Rightarrow> tensor \<Rightarrow> 'a decode_world \<Rightarrow> bool" where
  "output_of cx w y w' \<longleftrightarrow> (\<exists>B T H d. tn_shape (dc_v cx) = [B, T, H, d] \<and> tn_shape y = [B, 1, H, d])
     \<and> tn_dtype y = F32 \<and> tn_device y = tn_device (dc_v cx) \<and> is_contiguous y
     \<and> length (dw_heap w) \<le> tn_ptr y \<and> tn_ptr y < length (dw_heap w')"

lemma launch_output:
  assumes "decode_launch env p w = (Inr y, w')"
  shows "tn_shape y = [tn_shape (dl_v p) ! 0, 1, tn_shape (dl_v p) ! 2, dg_d_v (dl_config p)]" "tn_dtype y = F32"
    "tn_device y = tn_device (dl_v p)" "is_contiguous y" "tn_ptr y = length (dw_heap w)" "length (dw_heap w') = Suc (length (dw_heap w))"
  using assms by (auto simp: decode_launch_def Let_def split_beta fresh_tensor_def is_contiguous_def split: option.splits)

lemma straight_framed:
  assumes s: "decode_straight env cx memo w = (r, memo', w')"
  shows "framed (dc_state cx) w w'" "r = Inr y \<Longrightarrow> output_of cx w y w'"
proof -
  have "framed (dc_state cx) w w' \<and> (\<forall>y. r = Inr y \<longrightarrow> output_of cx w y w')"
  proof (cases "tn_shape (dc_v cx) = [] \<or> (\<exists>e. call_geometry env cx = Inl e)")
    case True
    then show ?thesis using s by (auto simp: decode_straight_def split: if_splits)
  next
    case False
    then obtain g where g: "tn_shape (dc_v cx) \<noteq> []" "call_geometry env cx = Inr g" by (cases "call_geometry env cx") auto
    obtain sc m1 w1 where sc: "call_scratch env cx g memo w = (sc, m1, w1)" by (metis prod.collapse)
    have f1: "framed (dc_state cx) w w1" "dw_heap w1 = dw_heap w" using scratch_framed [OF sc] call_scratch_states [OF sc] by simp_all
    show ?thesis
    proof (cases "call_plan env cx g sc (dw_states w1 ! dc_state cx)")
      case (Inl e)
      then show ?thesis using s g f1 by (auto simp: decode_straight_def sc)
    next
      case (Inr p)
      then obtain plane table arena where fp: "finish_plan env cx g sc (dw_states w1 ! dc_state cx) plane arena = Inr p"
        by (auto simp: call_plan_def res_simps)
      note p = finish_plan_Inr [OF fp]
      note q = step_plane_Inr [OF p(1)]
      obtain r2 w2 where l: "decode_launch env p w1 = (r2, w2)" by fastforce
      have rw: "r = r2" "w' = w2" using s g Inr by (simp_all add: decode_straight_def sc l)
      have own: "sv_owner (dl_state_plane p) = dc_state cx" using q(1) by (simp add: carried_view_def)
      have "framed (dc_state cx) w w'" using framed_trans [OF f1(1)] launch_framed [OF l] own rw by simp
      moreover have "output_of cx w y w'" if "r = Inr y" for y
      proof -
        note o = launch_output [OF l [folded rw, unfolded that]]
        obtain B T H where "tn_shape (dc_v cx) = [B, T, H, dg_d_v g]" using q(2) by blast
        then show ?thesis using o p(3,4) f1(2) by (auto simp: output_of_def)
      qed
      ultimately show ?thesis by blast
    qed
  qed
  then show "framed (dc_state cx) w w'" "r = Inr y \<Longrightarrow> output_of cx w y w'" by blast+
qed

lemma forward_framed:
  assumes m: "memo_ok decode_good (decode_nodes env) memo" and f: "decode_forward env cx memo w = (r, memo', w')"
  shows "framed (dc_state cx) w w'" "r = Inr y \<Longrightarrow> output_of cx w y w'"
proof -
  have "framed (dc_state cx) w w' \<and> (r = Inr y \<longrightarrow> output_of cx w y w')"
  proof (cases "validate_decode_context env cx w")
    case (Inl e)
    then show ?thesis using f by (auto simp: decode_forward_def)
  next
    case (Inr u)
    then have v: "validate_decode_context env cx w = Inr ()" by simp
    obtain ms where ms: "decode_forward env cx memo w = forward_straight env cx ms w" "memo_ok decode_good (decode_nodes env) ms"
      by (rule forward_is_straight [OF m v])
    obtain q m1 w1 where s: "decode_straight env cx ms w = (q, m1, w1)" by (metis prod.collapse)
    have m1: "memo_ok decode_good (decode_nodes env) m1" by (rule straight_memo [OF s ms(2)])
    note s1 = straight_framed [OF s]
    have fs: "forward_straight env cx ms w = (r, memo', w')" using f ms(1) by simp
    consider e where "r = Inl e" "w' = w1" | y1 where "r = Inr y1" "q = Inr y1" "w' = w1"
      | i b y1 where "r = Inr y1" "q = Inr y1" "read_growth i w1 = (b, w')"
      | i b w2 e where "read_growth i w1 = (b, w2)" "admit_growth (dc_state cx) m1 w2 = (Inl e, w')" "r = Inl e"
      | i b w2 w3 where "read_growth i w1 = (b, w2)" "admit_growth (dc_state cx) m1 w2 = (Inr (), w3)" "walk_step_dag env cx m1 w3 = (r, memo', w')"
      using fs s by (auto simp: forward_straight_def split: sum.splits if_splits option.splits fact.splits decode_value.splits prod.splits)
    then show ?thesis
    proof cases
      case 1
      then show ?thesis using s1(1) by simp
    next
      case (2 y1)
      then show ?thesis using s1 by auto
    next
      case (3 i b y1)
      have "dw_heap w' = dw_heap w1" using 3(3) by (auto simp: read_growth_def Let_def)
      then show ?thesis using framed_trans [OF s1(1) growth_framed [OF 3(3)]] s1(2) 3 by (auto simp: output_of_def)
    next
      case (4 i b w2 e)
      then show ?thesis using framed_trans [OF framed_trans [OF s1(1) growth_framed [OF 4(1)]] admit_framed [OF 4(2)]] by simp
    next
      case (5 i b w2 w3)
      have f3: "framed (dc_state cx) w w3" using framed_trans [OF framed_trans [OF s1(1) growth_framed [OF 5(1)]] admit_framed [OF 5(2)]] .
      obtain mg where mg: "walk_step_dag env cx m1 w3 = decode_straight env cx mg w3" by (rule walk_is_straight [OF m1])
      have s3: "decode_straight env cx mg w3 = (r, memo', w')" using mg 5(3) by simp
      note t = straight_framed [OF s3]
      show ?thesis using framed_trans [OF f3 t(1)] t(2) f3 by (auto simp: output_of_def framed_def)
    qed
  qed
  then show "framed (dc_state cx) w w'" "r = Inr y \<Longrightarrow> output_of cx w y w'" by blast+
qed

section \<open>The widths a call can serve\<close>

lemma geometry_width:
  assumes "derive_decode_geometry bin widths d_v decay BH dev eps n = Inr g"
  shows "(dg_d_v g, length widths, decay) \<in> set (db_arms bin)" "d_v \<le> dg_d_v g"
proof -
  obtain shipped where s: "shipped_decode_dv (db_arms bin) (length widths) decay = Inr shipped" "padded_value_width shipped d_v = Inr (dg_d_v g)"
    using assms by (auto simp: derive_decode_geometry_def res_simps Let_def)
  then have "set shipped = fst ` {a \<in> set (db_arms bin). fst (snd a) = length widths \<and> snd (snd a) = decay}"
    by (auto simp: shipped_decode_dv_def Let_def image_iff split: if_splits)
  moreover have "dg_d_v g \<in> set shipped" "d_v \<le> dg_d_v g" using s(2) by (induction shipped) (auto split: if_splits)
  ultimately show "(dg_d_v g, length widths, decay) \<in> set (db_arms bin)" "d_v \<le> dg_d_v g" by force+
qed

lemma forward_width:
  assumes m: "memo_ok decode_good (decode_nodes env) memo" and f: "decode_forward env cx memo w = (Inr y, memo', w')"
  shows "(last (tn_shape (dc_v cx)), length (topology_widths (cr_topology (dc_routes cx))), dc_decay cx \<noteq> None) \<in> set (db_arms (de_binary env))"
proof -
  obtain ms where ms: "decode_forward env cx memo w = forward_straight env cx ms w"
    by (rule forward_is_straight [OF m forward_validates [OF f]])
  obtain q m1 w1 where s: "decode_straight env cx ms w = (q, m1, w1)" by (metis prod.collapse)
  then obtain y1 where y1: "q = Inr y1" using f ms by (cases q) (simp_all add: forward_straight_def)
  obtain g sc and w0 :: "'a decode_world" and plane and table :: "int list option" and arena p where h: "call_geometry env cx = Inr g"
    "finish_plan env cx g sc (dw_states w ! dc_state cx) plane arena = Inr p"
    by (rule straight_walk [OF s [unfolded y1]])
  have "\<exists>B T H. tn_shape (dc_v cx) = [B, T, H, dg_d_v g]" using step_plane_Inr(2) [OF finish_plan_Inr(1) [OF h(2)]] by blast
  then have "dg_d_v g = last (tn_shape (dc_v cx))" by auto
  then show ?thesis using geometry_width(1) [OF h(1) [unfolded call_geometry_def]] by simp
qed

section \<open>The done flags\<close>

text \<open>
  The flags do not name the token they were set for: in a launch of other tokens they still stop the
  flagged batch-heads' deposits.
\<close>

lemma stale_flags:
  assumes wf: "arena_wf a" and tks: "tokens_ok num g a tks" and cleared: "sc_done sc = replicate (ar_BH a) 0"
    and first: "paged_step num g tks a sc = (ys1, a1, sc1)" and grow: "sc_growth_any sc1 \<noteq> 0"
    and tks': "tokens_ok num g a tks'" and sc1': "sc_done sc1' = sc_done sc1" and second: "paged_step num g tks' a1 sc1' = (ys2, b, sc2)"
    and lt: "bh < ar_BH a" "x < ar_apb a"
  shows "if sc_done sc1 ! bh = 0 then page_at a1 (bh * ar_apb a + x) = page_at a (bh * ar_apb a + x)
    else page_at a1 (bh * ar_apb a + x) = stepped num g (ar_apb a) tks (page_at a) (bh * ar_apb a + x)
       \<and> page_at b (bh * ar_apb a + x) = page_at a1 (bh * ar_apb a + x)"
proof -
  have len: "length (sc_done sc) = ar_BH a" using cleared by simp
  obtain needy where n: "length needy = ar_BH a" "walk_frame {0..<ar_BH a} a a1"
    "sc1 = (publish needy sc)\<lparr>sc_atom_bits := concat (atom_rows num g a tks)\<rparr>"
    "\<And>bh. bh < ar_BH a \<Longrightarrow> walk_row_ok num g bh (tks ! bh) (sc_done sc ! bh \<noteq> 0) (needy ! bh, ys1 ! bh) a a1"
    using paged_step_ok [OF wf tks len first] by metis
  have any: "True \<in> set needy" using grow n(3) by (simp split: if_splits)
  have d1: "sc_done sc1 = map (\<lambda>n. if n then 0 else 1) needy"
    using n(1,3) any cleared by (auto simp: list_eq_iff_nth_eq)
  have a1: "arena_wf a1" "ar_apb a1 = ar_apb a" "ar_BH a1 = ar_BH a" "ar_cols a1 = ar_cols a" using n(2) by (simp_all add: walk_frame_def)
  have t1: "tokens_ok num g a1 tks'" using tks' a1 by (simp add: tokens_ok_def)
  have l1: "length (sc_done sc1') = ar_BH a1" using d1 sc1' n(1) a1(3) by simp
  obtain needy2 where m: "\<And>bh. bh < ar_BH a1 \<Longrightarrow> walk_row_ok num g bh (tks' ! bh) (sc_done sc1' ! bh \<noteq> 0) (needy2 ! bh, ys2 ! bh) a1 b"
    using paged_step_ok [OF a1(1) t1 l1 second] by metis
  note one = n(4) [OF lt(1)] and two = m [unfolded a1(3), OF lt(1)]
  show ?thesis
  proof (cases "needy ! bh")
    case True
    then show ?thesis using one lt n(1) by (simp add: d1 walk_row_ok_def)
  next
    case False
    then have f: "sc_done sc1 ! bh = 1" using n(1) lt(1) by (simp add: d1)
    show ?thesis using one two lt f False cleared row_div [OF lt(2), of bh]
      by (simp add: walk_row_ok_def a1(2) sc1' stepped_def Let_def)
  qed
qed

end
