(* ===== verification/Rola_Decode_Props.thy ===== *)
theory Rola_Decode_Props
  imports Rola_Decode_Frame Rola_Decode_Dense
begin

text \<open>
  The properties of the decode family, with the concrete calls their witnesses run.
\<close>

section \<open>A concrete sequence\<close>

text \<open>
  One level of 64 leaves, four atoms to a batch-head. A token writes the one atom its gain names
  (none at gain zero) and adds one to every word of its page. The paged state has no page resident,
  so that a first step asks for growth.
\<close>

definition decode_tensor :: "nat \<Rightarrow> nat list \<Rightarrow> tensor" where
  "decode_tensor ptr shape = \<lparr>tn_ptr = ptr, tn_off = 0, tn_shape = shape, tn_stride = radix_strides shape, tn_dtype = F32,
     tn_device = ''cpu'', tn_grad = False\<rparr>"

definition demo_call :: decode_context where
  "demo_call = \<lparr>dc_routes = \<lparr>cr_topology = [TiedLevel 64 Softmax], cr_read = [decode_tensor 0 [1, 1, 1, 64]],
       cr_write = [decode_tensor 0 [1, 1, 1, 64]], cr_g_write = Some (decode_tensor 1 [1, 1, 1]), cr_read_mass = None\<rparr>,
     dc_v = decode_tensor 0 [1, 1, 1, 0], dc_state = 0, dc_decay = None, dc_expert = NoExpert\<rparr>"

definition demo_numerics :: "nat numerics" where
  "demo_numerics = \<lparr>sn_atoms = (\<lambda>g tk. if tk_gain tk \<in> {1..4} then [tk_gain tk - 1] else []), sn_deposit = (\<lambda>g tk x. map (\<lambda>u. u + 1)),
     sn_read = (\<lambda>g tk pages. map (unat \<circ> hd) pages)\<rparr>"

definition demo_decode :: "nat decode_env" where
  "demo_decode = \<lparr>de_binary = \<lparr>db_arms = [(0, 1, False), (64, 1, False)], db_sms = 4, db_residency = (\<lambda>_ _. 1)\<rparr>, de_cast = (\<lambda>x. x),
     de_grad_enabled = True, de_numerics = demo_numerics,
     de_junk = 7, de_junk_bits = (\<lambda>n. replicate n True), de_unwritten = (\<lambda>_. [])\<rparr>"

definition demo_decode_world :: "rola_state \<Rightarrow> nat decode_world" where
  "demo_decode_world s = \<lparr>dw_heap = [replicate 64 1, [2]], dw_states = [s], dw_scratch = []\<rparr>"

definition dense_sequence :: rola_state where
  "dense_sequence = (demo_state 0)\<lparr>rs_arena := None, rs_paging := False, rs_plane := Some \<lparr>dp_cols = 1, dp_pages = replicate 4 (blank_page 1)\<rparr>\<rparr>"

lemma demo_geometry: "call_geometry demo_decode demo_call =
   Inr \<lparr>dg_D = 1, dg_widths = [64], dg_row_offset = [0], dg_k = 4, dg_m = 8, dg_d_v = 0,
     dg_has_decay = False, dg_eps = READOUT_EPS, dg_n_split = 1\<rparr>"
  by code_simp

lemma demo_paged_runs: "is_ok (fst (decode_forward demo_decode demo_call [] (demo_decode_world (demo_state 0))))"
  by code_simp

lemma demo_dense_runs: "is_ok (fst (decode_forward demo_decode demo_call [] (demo_decode_world dense_sequence)))"
  by code_simp

lemma demo_gated_runs: "case decode_step_gated demo_decode demo_call [] (demo_decode_world (demo_state 0)) of
   (r, m, w) \<Rightarrow> is_ok r \<and> (case growth_pending 0 m w of (g, v) \<Rightarrow> g = Inr True \<and> is_ok (fst (admit_growth 0 m v)))"
  by code_simp

lemma demo_numerics_ok: "numerics_ok (de_numerics demo_decode) (demo_arena 0)"
  by (auto simp: numerics_ok_def token_ok_def demo_decode_def demo_numerics_def demo_arena_def)

lemma demo_ready: "ready demo_decode demo_call [] (demo_decode_world (demo_state 0)) (demo_arena 0)"
proof -
  have "call_BH demo_call = 1" by code_simp
  then show ?thesis
    by (simp add: ready_def demo_decode_world_def demo_call_def operands_on_def decode_tensor_def scratch_known_def scratch_at_def
        build_scratch_def demo_arena_def)
qed

lemma demo_paged: "rs_arena (dw_states (demo_decode_world (demo_state 0)) ! dc_state demo_call) = Some (demo_args 0, demo_arena 0)"
  by (simp add: demo_decode_world_def demo_state_def demo_call_def)

lemma demo_paged_ok: "state_ok exact_platform (dw_states (demo_decode_world (demo_state 0)) ! dc_state demo_call)"
  using demo_states_ok(1) by (simp add: demo_decode_world_def demo_call_def)

lemmas demo_ok = memo_ok_empty demo_paged_ok exact_platform_ok demo_paged demo_numerics_ok demo_ready

section \<open>The replay\<close>

text \<open>
  C2 (replay): A call of \<^verbatim>\<open>decode_forward\<close> that returns on a paged state has advanced every batch-head
  exactly once, whatever the slack pool covered and whether or not an admission and a second walk
  were needed: every page is the abstract step of the page before the call, every row of \<^verbatim>\<open>y\<close> is
  read off those pages, no verdict is left pending and the done flags are clear again.
\<close>

theorem decode_forward_once:
  assumes "memo_ok decode_good (decode_nodes env) memo" "state_ok pf (dw_states w ! dc_state cx)" "platform_ok pf"
    and "rs_arena (dw_states w ! dc_state cx) = Some (args, a)" "numerics_ok (de_numerics env) a"
    and "ready env cx memo w a" "decode_forward env cx memo w = (Inr y, memo', w')"
  shows "\<exists>g tks i b. call_geometry env cx = Inr g \<and> call_tokens env cx g (dw_heap w) = Inr tks
     \<and> rs_arena (dw_states w' ! dc_state cx) = Some (args, b) \<and> arena_wf b
     \<and> map_of memo' (scratch_key cx g) = Some (FVal (DScratch i))
     \<and> sc_growth_any (dw_scratch w' ! i) = 0 \<and> sc_done (dw_scratch w' ! i) = replicate (ar_BH a) 0
     \<and> (\<forall>j<logical_pages a. page_at b j = stepped (de_numerics env) g (ar_apb a) tks (page_at a) j)
     \<and> dw_heap w' ! tn_ptr y = concat (map (y_row (de_numerics env) g (ar_apb a) tks (page_at a)) [0..<ar_BH a])"
  using forward_once [OF assms] by (auto simp: call_done_def step_done_def)

theorem decode_forward_once_witness:
  "case decode_forward demo_decode demo_call [] (demo_decode_world (demo_state 0)) of
     (Inr y, memo', w') \<Rightarrow> \<exists>g tks i b. call_geometry demo_decode demo_call = Inr g
       \<and> call_tokens demo_decode demo_call g [replicate 64 1, [2]] = Inr tks
       \<and> rs_arena (dw_states w' ! 0) = Some (demo_args 0, b) \<and> arena_wf b
       \<and> map_of memo' (scratch_key demo_call g) = Some (FVal (DScratch i))
       \<and> sc_growth_any (dw_scratch w' ! i) = 0 \<and> sc_done (dw_scratch w' ! i) = replicate (ar_BH (demo_arena 0)) 0
       \<and> (\<forall>j<logical_pages (demo_arena 0). page_at b j =
            stepped demo_numerics g (ar_apb (demo_arena 0)) tks (page_at (demo_arena 0)) j)
       \<and> dw_heap w' ! tn_ptr y = concat (map (y_row demo_numerics g (ar_apb (demo_arena 0)) tks (page_at (demo_arena 0)))
            [0..<ar_BH (demo_arena 0)])
   | _ \<Rightarrow> False"
proof -
  have sel: "dw_heap (demo_decode_world s) = [replicate 64 1, [2]]" "dc_state demo_call = 0" "de_numerics demo_decode = demo_numerics" for s
    by (simp_all add: demo_decode_world_def demo_call_def demo_decode_def)
  obtain r memo' w' where f: "decode_forward demo_decode demo_call [] (demo_decode_world (demo_state 0)) = (r, memo', w')" by (metis prod.collapse)
  then obtain y where y: "r = Inr y" using demo_paged_runs by (cases r) auto
  show ?thesis using decode_forward_once [OF demo_ok f [unfolded y], unfolded sel] by (simp only: f y prod.case sum.case)
qed

text \<open>
  C12 (returns): The protocol needs no third walk. If the gated step returns, and the admission its
  verdict calls for (when it calls for one) is not refused, then \<^verbatim>\<open>decode_forward\<close> returns, and
  polling the state afterwards reports nothing pending.
\<close>

theorem decode_forward_returns:
  assumes "memo_ok decode_good (decode_nodes env) memo" "state_ok pf (dw_states w ! dc_state cx)" "platform_ok pf"
    and "rs_arena (dw_states w ! dc_state cx) = Some (args, a)" "numerics_ok (de_numerics env) a"
    and "ready env cx memo w a" "decode_step_gated env cx memo w = (Inr y1, m1, w1)"
    and "growth_pending (dc_state cx) m1 w1 = (Inr grow, w2)"
    and "grow \<Longrightarrow> fst (admit_growth (dc_state cx) m1 w2) = Inr ()"
  shows "\<exists>y memo' w'. decode_forward env cx memo w = (Inr y, memo', w')
     \<and> fst (growth_pending (dc_state cx) memo' w') = Inr False"
  using forward_live [OF assms] .

theorem decode_forward_returns_witness:
  "\<exists>y memo' w'. decode_forward demo_decode demo_call [] (demo_decode_world (demo_state 0)) = (Inr y, memo', w')
     \<and> fst (growth_pending (dc_state demo_call) memo' w') = Inr False"
proof -
  obtain r m1 w1 where s: "decode_step_gated demo_decode demo_call [] (demo_decode_world (demo_state 0)) = (r, m1, w1)" by (metis prod.collapse)
  obtain g w2 where p: "growth_pending 0 m1 w1 = (g, w2)" by fastforce
  have "is_ok r" "g = Inr True" "is_ok (fst (admit_growth 0 m1 w2))" using demo_gated_runs by (simp_all add: s p)
  moreover have "dc_state demo_call = 0" by (simp add: demo_call_def)
  ultimately obtain y1 where "r = Inr y1" "growth_pending (dc_state demo_call) m1 w1 = (Inr True, w2)"
    "fst (admit_growth (dc_state demo_call) m1 w2) = Inr ()" using p by (cases r; cases "fst (admit_growth 0 m1 w2)") auto
  then show ?thesis using decode_forward_returns [OF demo_ok s [unfolded \<open>r = Inr y1\<close>]] by blast
qed

section \<open>The two backings\<close>

text \<open>
  C6 (backings): A decode step cannot tell its backing. A paged and a dense state of equal contents,
  given the same call on the same operands, return outputs of equal storage and are left with equal
  contents, also when the paged one had to grow.
\<close>

theorem decode_backings_agree:
  assumes "memo_ok decode_good (decode_nodes env) memo" "state_ok pf (dw_states w ! dc_state cx)" "platform_ok pf"
    and "rs_arena (dw_states w ! dc_state cx) = Some (args, a)" "numerics_ok (de_numerics env) a"
    and "ready env cx memo w a" "decode_forward env cx memo w = (Inr y, memo', w')"
    and "memo_ok decode_good (decode_nodes env) m" "state_ok qf (dw_states v ! k)" "k < length (dw_states v)"
    and "rs_plane (dw_states v ! k) = Some d" "dense_numerics_ok (de_numerics env) (state_N (dw_states v ! k) div 16) d"
    and "\<forall>g. call_geometry env cx = Inr g \<longrightarrow> scratch_known (cx\<lparr>dc_state := k\<rparr>) g m v"
    and "decode_forward env (cx\<lparr>dc_state := k\<rparr>) m v = (Inr z, m', v')"
    and "dw_heap v = dw_heap w" "length (dp_pages d) = logical_pages a" "\<forall>i<logical_pages a. dp_pages d ! i = page_at a i"
  shows "dw_heap v' ! tn_ptr z = dw_heap w' ! tn_ptr y \<and> (\<exists>b e. rs_arena (dw_states w' ! dc_state cx) = Some (args, b)
     \<and> rs_plane (dw_states v' ! k) = Some e \<and> (\<forall>i<logical_pages a. dp_pages e ! i = page_at b i))"
proof -
  let ?cx = "cx\<lparr>dc_state := k\<rparr>"
  have g: "call_geometry env ?cx = call_geometry env cx" by (simp add: call_geometry_def)
  have "dense_done env ?cx v d z v'"
    by (rule forward_dense [OF assms(8) _ _ _ _ _ assms(14)]) (use assms(9-13) g in auto)
  note agree = backings_agree [OF forward_once [OF assms(1-7)] this assms(15-17)]
  show ?thesis by (intro conjI agree)
qed

theorem decode_backings_agree_witness:
  "case (decode_forward demo_decode demo_call [] (demo_decode_world (demo_state 0)),
         decode_forward demo_decode demo_call [] (demo_decode_world dense_sequence)) of
     ((Inr y, _, w'), (Inr z, _, v')) \<Rightarrow> dw_heap v' ! tn_ptr z = dw_heap w' ! tn_ptr y
       \<and> (\<exists>b e. rs_arena (dw_states w' ! 0) = Some (demo_args 0, b) \<and> rs_plane (dw_states v' ! 0) = Some e
          \<and> (\<forall>i<4. dp_pages e ! i = page_at b i))
   | _ \<Rightarrow> False"
proof -
  have sel: "dc_state demo_call = 0" "demo_call\<lparr>dc_state := 0\<rparr> = demo_call" by (simp_all add: demo_call_def)
  have four: "logical_pages (demo_arena 0) = 4" by (simp add: demo_arena_def logical_pages_def)
  let ?d = "\<lparr>dp_cols = 1, dp_pages = replicate 4 (blank_page 1)\<rparr>"
  have dense: "dw_states (demo_decode_world dense_sequence) ! 0 = dense_sequence" "rs_plane dense_sequence = Some ?d"
    "state_N dense_sequence div 16 = 4" by (simp_all add: demo_decode_world_def dense_sequence_def demo_state_def state_N_def)
  have ok: "state_ok exact_platform dense_sequence"
    using demo_format_of
    by (simp add: state_ok_def bound_ok_def dense_sequence_def demo_state_def demo_format_def dense_ok_def blank_page_def)
  have num: "dense_numerics_ok (de_numerics demo_decode) 4 ?d"
    by (auto simp: dense_numerics_ok_def token_ok_def demo_decode_def demo_numerics_def)
  have blank: "\<forall>i<logical_pages (demo_arena 0). dp_pages ?d ! i = page_at (demo_arena 0) i"
    unfolding four by code_simp
  have known: "\<forall>g. call_geometry demo_decode demo_call = Inr g \<longrightarrow>
      scratch_known (demo_call\<lparr>dc_state := 0\<rparr>) g [] (demo_decode_world dense_sequence)" by (simp add: scratch_known_def)
  obtain r memo' w' where f: "decode_forward demo_decode demo_call [] (demo_decode_world (demo_state 0)) = (r, memo', w')" by (metis prod.collapse)
  then obtain y where y: "r = Inr y" using demo_paged_runs by (cases r) auto
  obtain q m' v' where h: "decode_forward demo_decode (demo_call\<lparr>dc_state := 0\<rparr>) [] (demo_decode_world dense_sequence) = (q, m', v')" by (metis prod.collapse)
  then obtain z where z: "q = Inr z" using demo_dense_runs unfolding sel by (cases q) auto
  have "dw_heap v' ! tn_ptr z = dw_heap w' ! tn_ptr y \<and> (\<exists>b e. rs_arena (dw_states w' ! dc_state demo_call) = Some (demo_args 0, b)
     \<and> rs_plane (dw_states v' ! 0) = Some e \<and> (\<forall>i<logical_pages (demo_arena 0). dp_pages e ! i = page_at b i))"
    by (rule decode_backings_agree [OF demo_ok f [unfolded y] memo_ok_empty _ _ _ _ known h [unfolded z], where d = ?d])
       (use dense ok num blank four in \<open>simp_all add: demo_decode_world_def\<close>)
  then show ?thesis by (simp only: f h y z h [unfolded sel(2) y z] prod.case sum.case sel four)
qed

section \<open>The walk\<close>

text \<open>
  C20 (decodedag): The decode recipes pass their import-time checks; the captured one touches the
  host nowhere, the other in its last node alone, and a recipe with the gate's reference node is
  refused. A walk from a call's facts ends with every fact bound or with some node's own error.
\<close>

theorem decode_recipes_sound:
  "\<exists>dag. DECODE_STEP env = Inr dag \<and> validate_capturable dag = Inr () \<and> DECODE_VERDICT env = Inr (dag @ [projr read_verdict_node])
     \<and> list_all (\<lambda>s. \<not> n_host_sync s) dag \<and> \<not> is_ok (validate_capturable (dag @ [projr read_verdict_node]))
     \<and> \<not> is_ok (validate_dag (dag @ [projr (write_atom_node env)]) DECODE_SEEDS)
     \<and> (case run (dag @ [projr read_verdict_node]) (decode_facts cx) memo w of
          (Inr f, _, _) \<Rightarrow> dom f = set DECODE_SEEDS \<union> gives_of (dag @ [projr read_verdict_node])
        | (Inl e, _, _) \<Rightarrow> \<exists>s\<in>set (dag @ [projr read_verdict_node]). \<exists>bag. set (n_needs s) \<subseteq> dom bag \<and> own_error s bag e)"
proof (intro exI conjI)
  show "DECODE_STEP env = Inr (decode_nodes env)" by (rule DECODE_STEP_nodes)
  show "validate_capturable (decode_nodes env) = Inr ()" by (rule decode_nodes_capturable)
  show "DECODE_VERDICT env = Inr (decode_nodes env @ [projr read_verdict_node])" using DECODE_VERDICT_nodes by (simp add: verdict_nodes_def)
  show "list_all (\<lambda>s. \<not> n_host_sync s) (decode_nodes env)"
    by (simp add: decode_nodes_def decode_node_defs node_declare_def rule_declare_def)
  show "\<not> is_ok (validate_capturable (decode_nodes env @ [projr read_verdict_node]))"
    by (simp add: validate_capturable_def refuse_def decode_nodes_def decode_node_defs node_declare_def rule_declare_def)
  show "\<not> is_ok (validate_dag (decode_nodes env @ [projr (write_atom_node env)]) DECODE_SEEDS)"
    by (simp add: validate_dag_def decode_nodes_def decode_node_defs write_atom_node_def node_declare_def rule_declare_def DECODE_SEEDS_def)
  have seeds: "dom (decode_facts cx) = set DECODE_SEEDS" by (auto simp: decode_facts_def DECODE_SEEDS_def)
  obtain r memo' w' where r: "run (verdict_nodes env) (decode_facts cx) memo w = (r, memo', w')" by (metis prod.collapse)
  show "case run (decode_nodes env @ [projr read_verdict_node]) (decode_facts cx) memo w of
          (Inr f, _, _) \<Rightarrow> dom f = set DECODE_SEEDS \<union> gives_of (decode_nodes env @ [projr read_verdict_node])
        | (Inl e, _, _) \<Rightarrow> \<exists>s\<in>set (decode_nodes env @ [projr read_verdict_node]). \<exists>bag. set (n_needs s) \<subseteq> dom bag \<and> own_error s bag e"
    unfolding verdict_nodes_def [symmetric]
    using verdict.errors_are_the_nodes [of "decode_facts cx"] verdict.complete [of env "decode_facts cx" memo w] r seeds by (cases r) auto
qed

text \<open>
  C17 (decodestraight): A walk of the recipe is the straight-line program its nodes spell out
  (geometry, scratch, entry, view, plan, launch): neither the order of the walk nor the memoized
  geometry can be seen, and the scratch's table is the only one a later call reads.
\<close>

theorem decode_walk_straight:
  assumes "memo_ok decode_good (decode_nodes env) memo"
  shows "\<exists>memo'. walk_step_dag env cx memo w = decode_straight env cx memo' w \<and> scratch_cells memo' = scratch_cells memo
     \<and> memo_ok decode_good (decode_nodes env) memo'"
  using walk_is_straight [OF assms] by (metis memo_like_def)

theorem decode_walk_straight_witness:
  "\<exists>memo'. walk_step_dag demo_decode demo_call [] (demo_decode_world (demo_state 0)) = decode_straight demo_decode demo_call memo' (demo_decode_world (demo_state 0))
     \<and> scratch_cells memo' = scratch_cells [] \<and> memo_ok decode_good (decode_nodes demo_decode) memo'"
  by (rule decode_walk_straight [OF memo_ok_empty])

section \<open>The scratches\<close>

text \<open>
  C16 (apart): Over any order of entries on any states, interleaved with anything that leaves the
  scratches alone, two sequences never share a scratch, every scratch a table names exists, and the
  tables are the ones the replay theorem asks for.
\<close>

theorem decode_scratches_apart:
  assumes "decode_reach env memo w"
  shows "memo_ok decode_good (decode_nodes env) memo \<and> scratch_known cx g memo w
     \<and> (n = k \<or> set (scratch_table n memo) \<inter> set (scratch_table k memo) = {})"
proof -
  have a: "scratches_apart memo w" "memo_ok decode_good (decode_nodes env) memo" using reach_apart [OF assms] by simp_all
  have "scratch_known cx g memo w"
  proof (cases "map_of memo (scratch_key cx g)")
    case (Some v)
    then have "(scratch_key cx g, v) \<in> set (scratch_cells memo)" by (auto simp: scratch_cells_def scratch_key_def dest: map_of_SomeD)
    then show ?thesis using a(1) Some by (auto simp: scratches_apart_def scratch_cell_ok_def scratch_known_def scratch_key_def)
  qed (simp add: scratch_known_def)
  then show ?thesis using a(2) reach_disjoint(1) [OF assms] by blast
qed

theorem decode_scratches_apart_witness:
  "case decode_forward demo_decode demo_call [] (demo_decode_world (demo_state 0)) of (r, memo, w) \<Rightarrow>
     is_ok r \<and> memo_ok decode_good (decode_nodes demo_decode) memo
     \<and> set (scratch_table 0 memo) \<inter> set (scratch_table 1 memo) = {}"
proof -
  obtain r memo w where f: "decode_forward demo_decode demo_call [] (demo_decode_world (demo_state 0)) = (r, memo, w)" by (metis prod.collapse)
  have "decode_reach demo_decode [] (demo_decode_world (demo_state 0))" by (rule decode_reach.start) (simp add: demo_decode_world_def)
  from decode_scratches_apart [OF decode_reach.forwarded [OF this f], of _ _ 0 1] show ?thesis using demo_paged_runs by (simp add: f)
qed

section \<open>What a call returns and leaves alone\<close>

text \<open>
  C21 (decodetype): The output of a call has the value's own batch, heads and width at one token, is
  contiguous fp32 on the value's device, and is a new storage; every storage the caller held and
  every other state are as they were.
\<close>

theorem decode_forward_type:
  assumes "memo_ok decode_good (decode_nodes env) memo" "decode_forward env cx memo w = (Inr y, memo', w')"
  shows "(\<exists>B T H d. tn_shape (dc_v cx) = [B, T, H, d] \<and> tn_shape y = [B, 1, H, d])
     \<and> tn_dtype y = F32 \<and> tn_device y = tn_device (dc_v cx) \<and> is_contiguous y
     \<and> length (dw_heap w) \<le> tn_ptr y \<and> tn_ptr y < length (dw_heap w') \<and> take (length (dw_heap w)) (dw_heap w') = dw_heap w
     \<and> length (dw_states w') = length (dw_states w) \<and> (\<forall>k. k = dc_state cx \<or> dw_states w' ! k = dw_states w ! k)"
  using forward_framed(1) [OF assms] forward_framed(2) [OF assms refl] by (auto simp: framed_def output_of_def)

theorem decode_forward_type_witness:
  "case decode_forward demo_decode demo_call [] (demo_decode_world (demo_state 0)) of
     (Inr y, memo', w') \<Rightarrow> tn_dtype y = F32 \<and> is_contiguous y \<and> 2 \<le> tn_ptr y \<and> tn_ptr y < length (dw_heap w')
       \<and> take 2 (dw_heap w') = [replicate 64 1, [2]]
   | _ \<Rightarrow> False"
proof -
  have heap: "dw_heap (demo_decode_world (demo_state 0)) = [replicate 64 1, [2]]" by (simp add: demo_decode_world_def)
  have two: "length [replicate 64 (1 :: nat), [2]] = 2" by simp
  obtain r memo' w' where f: "decode_forward demo_decode demo_call [] (demo_decode_world (demo_state 0)) = (r, memo', w')" by (metis prod.collapse)
  then obtain y where y: "r = Inr y" using demo_paged_runs by (cases r) auto
  show ?thesis using decode_forward_type [OF memo_ok_empty f [unfolded y], unfolded heap two] by (simp only: f y prod.case sum.case simp_thms)
qed

text \<open>
  A call whose value width the binary has no arm for, at the bundle's depth and
  with the call's decay, never returns: the geometry is frozen at the padded width and the value is
  then refused for not having it. The routing entry of decode pads nothing.
\<close>

theorem decode_width_refused:
  assumes "memo_ok decode_good (decode_nodes env) memo"
    and "(last (tn_shape (dc_v cx)), length (topology_widths (cr_topology (dc_routes cx))), dc_decay cx \<noteq> None) \<notin> set (db_arms (de_binary env))"
  shows "\<not> is_ok (fst (decode_forward env cx memo w))"
proof
  assume "is_ok (fst (decode_forward env cx memo w))"
  then obtain y memo' w' where "decode_forward env cx memo w = (Inr y, memo', w')"
    by (cases "decode_forward env cx memo w"; cases "fst (decode_forward env cx memo w)") auto
  then show False using forward_width [OF assms(1)] assms(2) by blast
qed

theorem decode_width_refused_witness:
  "\<not> is_ok (fst (decode_forward demo_decode (demo_call\<lparr>dc_v := decode_tensor 0 [1, 1, 1, 32]\<rparr>) [] (demo_decode_world (demo_state 0))))
   \<and> derive_decode_geometry (de_binary demo_decode) [64] 32 False 1 ''cpu'' READOUT_EPS None =
       Inr ((projr (call_geometry demo_decode demo_call))\<lparr>dg_d_v := 64\<rparr>)"
proof
  have "topology_widths (cr_topology (dc_routes (demo_call\<lparr>dc_v := decode_tensor 0 [1, 1, 1, 32]\<rparr>))) = [64]" by code_simp
  then show "\<not> is_ok (fst (decode_forward demo_decode (demo_call\<lparr>dc_v := decode_tensor 0 [1, 1, 1, 32]\<rparr>) [] (demo_decode_world (demo_state 0))))"
    by (intro decode_width_refused [OF memo_ok_empty]) (simp add: demo_decode_def demo_call_def decode_tensor_def)
  show "derive_decode_geometry (de_binary demo_decode) [64] 32 False 1 ''cpu'' READOUT_EPS None =
       Inr ((projr (call_geometry demo_decode demo_call))\<lparr>dg_d_v := 64\<rparr>)" by code_simp
qed

section \<open>The done flags\<close>

text \<open>
  C39 (staleflags): The done flags do not name a token. After a launch that left a verdict, the
  flagged batch-heads hold their deposit and the others are untouched; and a launch of other tokens
  under the same flags deposits nothing into the flagged ones. A refused admission, which raises
  out of \<^verbatim>\<open>decode_forward\<close> between the two walks, is exactly this situation: the step is half done,
  and unless the same token is retried the flagged sequences lose their next one.
\<close>

theorem stale_flags_drop_the_next_token:
  assumes "arena_wf a" "tokens_ok num g a tks" "sc_done sc = replicate (ar_BH a) 0"
    and "paged_step num g tks a sc = (ys1, a1, sc1)" "sc_growth_any sc1 \<noteq> 0"
    and "tokens_ok num g a tks'" "sc_done sc1' = sc_done sc1" "paged_step num g tks' a1 sc1' = (ys2, b, sc2)"
    and "bh < ar_BH a" "x < ar_apb a"
  shows "if sc_done sc1 ! bh = 0 then page_at a1 (bh * ar_apb a + x) = page_at a (bh * ar_apb a + x)
    else page_at a1 (bh * ar_apb a + x) = stepped num g (ar_apb a) tks (page_at a) (bh * ar_apb a + x)
       \<and> page_at b (bh * ar_apb a + x) = page_at a1 (bh * ar_apb a + x)"
  using stale_flags [OF assms] .

definition pair_args :: arena_args where "pair_args = (demo_args 0)\<lparr>aa_BH := 2\<rparr>"

definition pair_start :: arena where
  "pair_start = \<lparr>ar_BH = 2, ar_apb = 4, ar_cols = 1, ar_pool_capacity = 0,
     ar_alloc = \<lparr>al_capacity = 8, al_extent = 2, al_next = 0\<rparr>,
     ar_table = replicate 8 ABSENT, ar_base = replicate 8 (blank_page 1),
     ar_pool_slots = [[], []], ar_cursor = [0, 0], ar_pool_map = replicate 8 ABSENT,
     ar_owner = None, ar_peak = 0, ar_last = None\<rparr>"

definition pair_arena :: arena where
  "pair_arena = snd (plan_exact [[True, True, False, False], [False, False, False, False]] False pair_start)"

lemma pair_make: "make_arena exact_platform pair_args = Inr pair_start"
  by (simp add: make_arena_eval demo_args_def pair_args_def pair_start_def zero_run_blank)
     (simp add: numeral_2_eq_2)

definition pair_tokens :: "nat \<Rightarrow> nat \<Rightarrow> nat token list" where
  "pair_tokens x y = map (\<lambda>n. \<lparr>tk_read = [], tk_write = [], tk_normalize = [], tk_dials = None, tk_gain = n, tk_value = []\<rparr>) [x, y]"

definition pair_scratch :: decode_scratch where
  "pair_scratch = \<lparr>sc_ws = [], sc_ctr = [0, 0], sc_growth = [0, 0], sc_growth_any = 0, sc_growth_ctr = 0, sc_growth_host = 0,
     sc_done = [0, 0], sc_atom_bits = []\<rparr>"

lemma pair_arena_ok: "arena_wf pair_arena" "ar_BH pair_arena = 2" "ar_apb pair_arena = 4"
proof -
  let ?bits = "[[True, True, False, False], [False, False, False, False]]"
  have "is_ok (fst (plan_exact ?bits False pair_start))" by code_simp
  then have "host_admit ?bits pair_start = Inr pair_arena"
    by (cases "plan_exact ?bits False pair_start"; cases "fst (plan_exact ?bits False pair_start)") (simp_all add: host_admit_def pair_arena_def)
  then show "arena_wf pair_arena" by (rule host_admit_ok(1) [OF make_arena_ok(1) [OF pair_make exact_platform_ok]])
  show "ar_BH pair_arena = 2" "ar_apb pair_arena = 4" by code_simp+
qed

lemma pair_tokens_ok: "tokens_ok demo_numerics g pair_arena (pair_tokens x y)"
  using pair_arena_ok by (auto simp: tokens_ok_def token_ok_def demo_numerics_def pair_tokens_def)

theorem stale_flags_drop_the_next_token_witness:
  "case paged_step demo_numerics (projr (call_geometry demo_decode demo_call)) (pair_tokens 1 4) pair_arena pair_scratch of (_, a1, sc1) \<Rightarrow>
   case paged_step demo_numerics (projr (call_geometry demo_decode demo_call)) (pair_tokens 2 0) a1 sc1 of (ys, b, sc2) \<Rightarrow>
     sc_done sc1 = [1, 0] \<and> sc_growth_any sc1 = 1 \<and> sc_growth_any sc2 = 0
     \<and> page_at b 1 = page_at a1 1 \<and> 1 \<in> set (sn_atoms demo_numerics (projr (call_geometry demo_decode demo_call)) (pair_tokens 2 0 ! 0))"
proof -
  let ?g = "projr (call_geometry demo_decode demo_call)"
  have run: "case paged_step demo_numerics ?g (pair_tokens 1 4) pair_arena pair_scratch of (_, a1, sc1) \<Rightarrow>
     case paged_step demo_numerics ?g (pair_tokens 2 0) a1 sc1 of (ys, b, sc2) \<Rightarrow>
       sc_done sc1 = [1, 0] \<and> sc_growth_any sc1 = 1 \<and> sc_growth_any sc2 = 0" by code_simp
  obtain ys1 a1 sc1 where p1: "paged_step demo_numerics ?g (pair_tokens 1 4) pair_arena pair_scratch = (ys1, a1, sc1)" by (metis prod.collapse)
  obtain ys2 b sc2 where p2: "paged_step demo_numerics ?g (pair_tokens 2 0) a1 sc1 = (ys2, b, sc2)" by (metis prod.collapse)
  have d: "sc_done sc1 = [1, 0]" "sc_growth_any sc1 = 1" "sc_growth_any sc2 = 0" using run [unfolded p1 prod.case p2] by blast+
  have clear: "sc_done pair_scratch = replicate (ar_BH pair_arena) 0" by code_simp
  have "page_at b (0 * ar_apb pair_arena + 1) = page_at a1 (0 * ar_apb pair_arena + 1)"
    using stale_flags_drop_the_next_token [OF pair_arena_ok(1) pair_tokens_ok clear p1 _ pair_tokens_ok refl p2, of 0 1] pair_arena_ok(2,3) d
    by simp
  moreover have "1 \<in> set (sn_atoms demo_numerics ?g (pair_tokens 2 0 ! 0))" by (simp add: demo_numerics_def pair_tokens_def)
  ultimately show ?thesis unfolding p1 prod.case p2 using d by simp
qed

end
