(* ===== verification/Rola_Liveness.thy ===== *)
theory Rola_Liveness
  imports Rola_Radix Rola_State
begin

unbundle bit_operations_syntax

text \<open>
  The liveness contract of \<^verbatim>\<open>rola/engine/facts/liveness.py\<close>: the layout of the class-1 words, the
  host's translation of modes and logical widths into bits, the executable model of the pass, its
  reader and the two folds (per box, per page). Amplitudes are bf16 bit patterns, words are 32 bits.
  A python index is an \<^typ>\<open>int\<close>: a negative one counts from the end.
\<close>

section \<open>The layout\<close>

definition TOK_BITS :: nat where "TOK_BITS = 32"
definition SIDES :: nat where "SIDES = 2"
definition SIDE_READ :: nat where "SIDE_READ = 0"
definition SIDE_WRITE :: nat where "SIDE_WRITE = 1"
definition BF16_MAGNITUDE_MASK :: "16 word" where "BF16_MAGNITUDE_MASK = 0x7FFF"
definition ATOM_LEAVES :: nat where "ATOM_LEAVES = 16"

definition token_words :: "nat \<Rightarrow> nat" where "token_words L = (L + TOK_BITS - 1) div TOK_BITS"
definition mask_words :: "nat \<Rightarrow> nat" where "mask_words bits = (bits + 31) div 32"

record layout =
  ly_D :: nat
  ly_B :: "nat list"
  ly_L :: nat

definition make_layout :: "nat \<Rightarrow> nat list \<Rightarrow> int \<Rightarrow> layout res" where
  "make_layout D B L =
     (if length B \<noteq> D then Inl (ValueError ''a layout names D levels'')
      else if L < 1 then Inl (ValueError ''a call carries at least one token'')
      else Inr \<lparr>ly_D = D, ly_B = B, ly_L = nat L\<rparr>)"

definition layout_of :: "state_format \<Rightarrow> int \<Rightarrow> layout res" where
  "layout_of fmt L = make_layout (sf_D fmt) (sf_B fmt) L"

definition row_base :: "layout \<Rightarrow> nat \<Rightarrow> nat" where "row_base ly level = sum_list (take level (ly_B ly))"
definition layout_rows :: "layout \<Rightarrow> nat" where "layout_rows ly = sum_list (ly_B ly)"

definition layout_row_of :: "layout \<Rightarrow> nat \<Rightarrow> int \<Rightarrow> nat res" where
  "layout_row_of ly level digit =
     (if length (ly_B ly) \<le> level then Inl (IndexError ''tuple index out of range'')
      else if \<not> (0 \<le> digit \<and> digit < int (ly_B ly ! level)) then Inl (ValueError ''the level carries fewer digits'')
      else Inr (row_base ly level + nat digit))"

definition layout_words :: "layout \<Rightarrow> nat" where "layout_words ly = token_words (ly_L ly)"
definition side_words :: "layout \<Rightarrow> nat" where "side_words ly = layout_rows ly * layout_words ly"
definition side_bytes :: "layout \<Rightarrow> nat" where "side_bytes ly = side_words ly * 4"
definition call_words :: "layout \<Rightarrow> nat" where "call_words ly = SIDES * side_words ly"

definition word_index :: "layout \<Rightarrow> nat \<Rightarrow> nat \<Rightarrow> nat \<Rightarrow> nat \<Rightarrow> nat" where
  "word_index ly bh side r t = bh * call_words ly + side * side_words ly + r * layout_words ly + t div TOK_BITS"

definition token_bit :: "nat \<Rightarrow> nat" where "token_bit t = 2 ^ (t mod TOK_BITS)"

definition layout_N :: "layout \<Rightarrow> nat" where "layout_N ly = fold (\<lambda>w n. n * w) (ly_B ly) 1"
definition layout_atoms :: "layout \<Rightarrow> nat" where "layout_atoms ly = layout_N ly div ATOM_LEAVES"

section \<open>The statics of a side\<close>

record side_static =
  ss_dense :: "bool list"
  ss_mask :: "bool list"

definition mask_word :: "side_static \<Rightarrow> nat \<Rightarrow> nat" where
  "mask_word ss index =
     fold (\<lambda>bit w. if index * 32 + bit < length (ss_mask ss) \<and> ss_mask ss ! (index * 32 + bit) then w OR push_bit bit 1 else w)
       [0..<32] 0"

definition side_statics :: "layout \<Rightarrow> bool list \<Rightarrow> int list \<Rightarrow> side_static res" where
  "side_statics ly dense logical =
     (if length dense \<noteq> ly_D ly \<or> length logical \<noteq> ly_D ly then Inl (ValueError ''a side names D levels'')
      else if list_ex (\<lambda>(b, B). \<not> (1 \<le> b \<and> b \<le> int B)) (zip logical (ly_B ly)) then Inl (ValueError ''a level pads b_l into B_l'')
      else Inr \<lparr>ss_dense = dense,
        ss_mask = concat (map (\<lambda>level. map (\<lambda>digit. int digit < logical ! level) [0..<ly_B ly ! level]) [0..<ly_D ly])\<rparr>)"

text \<open>\<^verbatim>\<open>_dense_bits\<close> of \<^verbatim>\<open>rola/ops/liveness.py\<close>.\<close>

definition dense_bits :: "side_static \<Rightarrow> nat" where
  "dense_bits ss = fold (\<lambda>(level, d) bits. if d then bits OR push_bit level 1 else bits) (enumerate 0 (ss_dense ss)) 0"

section \<open>The model of the pass\<close>

text \<open>A plane by its dtype, its token extent (\<^verbatim>\<open>shape[-2]\<close>) and its content in row-major order.\<close>

record amp_plane =
  ap_dtype :: string
  ap_tokens :: nat
  ap_data :: "16 word list"

text \<open>\<^verbatim>\<open>[BH, L, rows]\<close>: the reshape refuses a content that is not a whole number of calls.\<close>

definition amplitude_rows :: "amp_plane \<Rightarrow> layout \<Rightarrow> bool list list list res" where
  "amplitude_rows p ly =
     (if ap_dtype p \<noteq> ''bfloat16'' then Inl (ValueError ''the pass reads bf16 amplitudes'')
      else if ly_L ly * layout_rows ly = 0 \<or> length (ap_data p) mod (ly_L ly * layout_rows ly) \<noteq> 0
      then Inl (RuntimeError ''shape is invalid for input'')
      else Inr (map (\<lambda>bh. map (\<lambda>t. map (\<lambda>r. (ap_data p ! ((bh * ly_L ly + t) * layout_rows ly + r)) AND BF16_MAGNITUDE_MASK \<noteq> 0)
             [0..<layout_rows ly]) [0..<ly_L ly]) [0..<length (ap_data p) div (ly_L ly * layout_rows ly)]))"

text \<open>\<^verbatim>\<open>permute(0, 2, 1)\<close>.\<close>

definition by_rows :: "layout \<Rightarrow> bool list list list \<Rightarrow> bool list list list" where
  "by_rows ly live = map (\<lambda>tokens. map (\<lambda>r. map (\<lambda>t. tokens ! t ! r) [0..<ly_L ly]) [0..<layout_rows ly]) live"

text \<open>32 lanes to a word: the weighted sum in 64 bits, brought into the signed 32-bit range.\<close>

definition word_of_lanes :: "bool list \<Rightarrow> 32 word" where
  "word_of_lanes lanes =
     (let s = (\<Sum>i\<leftarrow>[0..<TOK_BITS]. if lanes ! i then 2 ^ i else (0 :: int))
      in word_of_int (s - (if 2 ^ 31 \<le> s then 2 ^ 32 else 0)))"

definition pack_row :: "layout \<Rightarrow> bool list \<Rightarrow> 32 word list" where
  "pack_row ly bits =
     (let padded = bits @ replicate (layout_words ly * TOK_BITS - ly_L ly) False
      in map (\<lambda>j. word_of_lanes (take TOK_BITS (drop (j * TOK_BITS) padded))) [0..<layout_words ly])"

definition pack_words :: "layout \<Rightarrow> bool list list list \<Rightarrow> 32 word list list list" where
  "pack_words ly bits = map (map (pack_row ly)) bits"

text \<open>
  The rows of a dense level are the width mask, over every token; torch broadcasts a mask of length
  one and refuses another length.
\<close>

definition mask_level :: "layout \<Rightarrow> side_static \<Rightarrow> nat \<Rightarrow> bool list list list \<Rightarrow> bool list list list res" where
  "mask_level ly ss level live =
     (if length (ly_B ly) \<le> level then Inl (IndexError ''tuple index out of range'')
      else let base = row_base ly level; width = ly_B ly ! level; m = take width (drop base (ss_mask ss)) in
        if length m \<noteq> width \<and> length m \<noteq> 1 then Inl (RuntimeError ''shape mismatch'')
        else Inr (map (\<lambda>rows. map (\<lambda>r. if base \<le> r \<and> r < base + width
              then replicate (ly_L ly) (if length m = 1 then m ! 0 else m ! (r - base)) else rows ! r) [0..<length rows]) live))"

fun mask_levels :: "layout \<Rightarrow> side_static \<Rightarrow> nat list \<Rightarrow> bool list list list \<Rightarrow> bool list list list res" where
  "mask_levels ly ss [] live = Inr live"
| "mask_levels ly ss (level # levels) live =
     (if ss_dense ss ! level then rbind (mask_level ly ss level live) (mask_levels ly ss levels)
      else mask_levels ly ss levels live)"

definition side_live :: "amp_plane \<Rightarrow> layout \<Rightarrow> side_static \<Rightarrow> bool list list list res" where
  "side_live p ly ss =
     rbind (amplitude_rows p ly) (\<lambda>amp. mask_levels ly ss [0..<length (ss_dense ss)] (by_rows ly amp))"

definition liveness_words ::
    "amp_plane \<Rightarrow> amp_plane \<Rightarrow> layout \<Rightarrow> side_static \<Rightarrow> side_static \<Rightarrow> 32 word list list list list res" where
  "liveness_words read_plane write_plane ly rs ws =
     rbind (side_live read_plane ly rs) (\<lambda>r.
     rbind (side_live write_plane ly ws) (\<lambda>w.
       if length r \<noteq> length w then Inl (RuntimeError ''stack expects each tensor to be equal size'')
       else Inr (map2 (\<lambda>a b. [a, b]) (pack_words ly r) (pack_words ly w))))"

text \<open>The reader: an arithmetic shift, one bit, the first \<open>L\<close> tokens.\<close>

definition unpack_row :: "layout \<Rightarrow> 32 word list \<Rightarrow> bool list" where
  "unpack_row ly ws = take (ly_L ly) (concat (map (\<lambda>w. map (\<lambda>i. signed_drop_bit i w AND 1 \<noteq> 0) [0..<TOK_BITS]) ws))"

definition unpack_words :: "layout \<Rightarrow> 32 word list list list list \<Rightarrow> bool list list list list" where
  "unpack_words ly words = map (map (map (unpack_row ly))) words"

section \<open>Boxes\<close>

record digit_box =
  bx_start :: "int list"
  bx_span :: "int list"

text \<open>\<^verbatim>\<open>width % sp\<close> with a sp below one is never reached: the guard before it has raised.\<close>

definition run_unlawful :: "nat \<Rightarrow> int \<Rightarrow> int \<Rightarrow> bool" where
  "run_unlawful width start sp \<longleftrightarrow> sp < 1 \<or> int width < sp \<or> int width mod sp \<noteq> 0 \<or> start mod sp \<noteq> 0
     \<or> int width < start + sp"

definition box_check :: "digit_box \<Rightarrow> layout \<Rightarrow> unit res" where
  "box_check bx ly =
     (if length (bx_start bx) \<noteq> ly_D ly \<or> length (bx_span bx) \<noteq> ly_D ly then Inl (ValueError ''a box names D runs'')
      else refuse (list_ex (\<lambda>(width, start, sp). run_unlawful width start sp) (zip (ly_B ly) (zip (bx_start bx) (bx_span bx))))
        (ValueError ''the run is not an aligned divisor run''))"

definition box_leaves :: "digit_box \<Rightarrow> layout \<Rightarrow> int list res" where
  "box_leaves bx ly =
     rbind (box_check bx ly) (\<lambda>_.
       Inr (fold (\<lambda>(stride, start, sp) leaves. concat (map (\<lambda>leaf. map (\<lambda>digit. leaf + digit * int stride) [start..start + sp - 1]) leaves))
              (zip (layout_radix_strides (ly_B ly)) (zip (bx_start bx) (bx_span bx))) [0]))"

text \<open>\<^verbatim>\<open>torch.unique\<close> sorts.\<close>

definition box_pages :: "digit_box \<Rightarrow> layout \<Rightarrow> int list res" where
  "box_pages bx ly = rbind (box_leaves bx ly) (\<lambda>leaves. Inr (remdups_adj (sort (map (\<lambda>leaf. leaf div int ATOM_LEAVES) leaves))))"

definition py_index :: "'a list \<Rightarrow> int \<Rightarrow> 'a res" where
  "py_index xs i =
     (if 0 \<le> i \<and> i < int (length xs) then Inr (xs ! nat i)
      else if - int (length xs) \<le> i \<and> i < 0 then Inr (xs ! nat (int (length xs) + i))
      else Inl (IndexError ''index is out of bounds''))"

text \<open>One box over one batch-head: the OR of its run per level, the AND over the levels.\<close>

fun or_rows :: "32 word list list \<Rightarrow> int list \<Rightarrow> 32 word list res" where
  "or_rows rows [] = Inl (IndexError ''index is out of bounds'')"
| "or_rows rows [i] = py_index rows i"
| "or_rows rows (i # j # is) = rbind (py_index rows i) (\<lambda>x. rbind (or_rows rows (j # is)) (\<lambda>y. Inr (map2 (\<lambda>a b. a OR b) x y)))"

fun box_clause :: "layout \<Rightarrow> 32 word list list \<Rightarrow> (nat \<times> int \<times> int) list \<Rightarrow> 32 word list option \<Rightarrow> 32 word list option res" where
  "box_clause ly rows [] acc = Inr acc"
| "box_clause ly rows ((level, start, sp) # rest) acc =
     rbind (or_rows rows [int (row_base ly level) + start..int (row_base ly level) + start + sp - 1]) (\<lambda>r.
       box_clause ly rows rest (Some (case acc of None \<Rightarrow> r | Some c \<Rightarrow> map2 (\<lambda>a b. a AND b) c r)))"

definition box_bit :: "layout \<Rightarrow> digit_box \<Rightarrow> 32 word list list \<Rightarrow> bool res" where
  "box_bit ly bx rows =
     rbind (box_clause ly rows (zip [0..<ly_D ly] (zip (bx_start bx) (bx_span bx))) None) (\<lambda>c.
       (case c of None \<Rightarrow> Inl (TypeError ''NoneType has no any'') | Some ws \<Rightarrow> Inr (list_ex (\<lambda>w. w \<noteq> 0) ws)))"

definition box_activity :: "32 word list list list list \<Rightarrow> layout \<Rightarrow> digit_box list \<Rightarrow> nat \<Rightarrow> bool list list res" where
  "box_activity words ly boxes side =
     rbind (rmap (\<lambda>bx. rbind (box_check bx ly) (\<lambda>_. rmap (\<lambda>bh. box_bit ly bx (bh ! side)) words)) boxes) (\<lambda>cols.
       Inr (map (\<lambda>bh. map (\<lambda>col. col ! bh) cols) [0..<length words]))"

text \<open>The byte per page: every page of a box takes the box's bit.\<close>

definition mark_pages :: "int list \<Rightarrow> 8 word \<Rightarrow> bool \<Rightarrow> 8 word list \<Rightarrow> 8 word list res" where
  "mark_pages pages flag hit row =
     rbind (rmap (\<lambda>i. py_index row i) pages) (\<lambda>old.
       Inr (fold (\<lambda>(i, b) r. r[nat (i mod int (length row)) := b OR (if hit then flag else 0)]) (zip pages old) row))"

fun mark_boxes :: "layout \<Rightarrow> 8 word \<Rightarrow> (digit_box \<times> bool) list \<Rightarrow> 8 word list \<Rightarrow> 8 word list res" where
  "mark_boxes ly flag [] row = Inr row"
| "mark_boxes ly flag ((bx, hit) # rest) row =
     rbind (box_pages bx ly) (\<lambda>pages. rbind (mark_pages pages flag hit row) (mark_boxes ly flag rest))"

text \<open>The bits of one batch-head: torch broadcasts a batch of one and refuses another mismatch.\<close>

definition side_row :: "digit_box list \<Rightarrow> bool list list \<Rightarrow> nat \<Rightarrow> nat \<Rightarrow> bool list res" where
  "side_row boxes bits BH bh =
     (if boxes = [] then Inr []
      else if length bits \<noteq> BH \<and> length bits \<noteq> 1 then Inl (RuntimeError ''the size of the tensors must match'')
      else let row = bits ! (if length bits = BH then bh else 0) in
        if length row < length boxes then Inl (IndexError ''index is out of bounds'') else Inr row)"

definition page_activity ::
    "layout \<Rightarrow> digit_box list \<Rightarrow> bool list list \<Rightarrow> digit_box list \<Rightarrow> bool list list \<Rightarrow> 8 word list list res" where
  "page_activity ly read_boxes read_bits write_boxes write_bits =
     rmap (\<lambda>bh.
       rbind (side_row read_boxes read_bits (length read_bits) bh) (\<lambda>rb.
       rbind (side_row write_boxes write_bits (length read_bits) bh) (\<lambda>wb.
       rbind (mark_boxes ly ATOM_READ (zip read_boxes rb) (replicate (layout_atoms ly) 0))
         (mark_boxes ly ATOM_WRITTEN (zip write_boxes wb))))) [0..<length read_bits]"

section \<open>The atoms\<close>

text \<open>The level widths from the last one inwards, and the leaves the atom still needs.\<close>

fun spans_from :: "nat list \<Rightarrow> nat \<Rightarrow> nat list res" where
  "spans_from [] remaining = (if remaining \<noteq> 1 then Inl (ValueError ''fewer leaves than one page atom'') else Inr [])"
| "spans_from (w # ws) remaining =
     (let sp = min w remaining in
      if sp = 0 then Inl (ZeroDivisionError ''integer modulo by zero'')
      else if remaining mod sp \<noteq> 0 \<or> w mod sp \<noteq> 0 then Inl (ValueError ''the width does not tile the atom'')
      else if remaining div sp = 1 then Inr (sp # replicate (length ws) 1)
      else rbind (spans_from ws (remaining div sp)) (\<lambda>spans. Inr (sp # spans)))"

definition atom_spans :: "layout \<Rightarrow> nat list res" where
  "atom_spans ly = rbind (spans_from (rev (ly_B ly)) ATOM_LEAVES) (\<lambda>spans. Inr (rev spans))"

text \<open>\<^verbatim>\<open>range(0, width, sp)\<close>.\<close>

definition range_steps :: "nat \<Rightarrow> nat \<Rightarrow> nat list" where
  "range_steps width sp = map (\<lambda>j. j * sp) [0..<(width + sp - 1) div sp]"

definition start_grid :: "nat list \<Rightarrow> nat list \<Rightarrow> nat list list" where
  "start_grid widths spans =
     fold (\<lambda>(w, s) grid. concat (map (\<lambda>r. map (\<lambda>digit. r @ [digit]) (range_steps w s)) grid)) (zip widths spans) [[]]"

definition atom_boxes :: "layout \<Rightarrow> digit_box list res" where
  "atom_boxes ly =
     rbind (atom_spans ly) (\<lambda>spans.
       Inr (map (\<lambda>r. \<lparr>bx_start = map int r, bx_span = map int spans\<rparr>) (start_grid (ly_B ly) spans)))"

text \<open>The fold over the atoms: a level's runs, then the outer product over the levels.\<close>

definition level_runs :: "layout \<Rightarrow> nat \<Rightarrow> nat \<Rightarrow> bool list list \<Rightarrow> bool list list" where
  "level_runs ly level sp rows =
     map (\<lambda>j. map (\<lambda>t. list_ex (\<lambda>d. rows ! (row_base ly level + j * sp + d) ! t) [0..<sp]) [0..<ly_L ly])
       [0..<ly_B ly ! level div sp]"

definition outer_and :: "bool list list \<Rightarrow> bool list list \<Rightarrow> bool list list" where
  "outer_and clause runs = concat (map (\<lambda>c. map (\<lambda>r. map2 (\<and>) c r) runs) clause)"

fun atom_clause :: "layout \<Rightarrow> bool list list \<Rightarrow> (nat \<times> nat) list \<Rightarrow> bool list list option \<Rightarrow> bool list list option" where
  "atom_clause ly rows [] acc = acc"
| "atom_clause ly rows ((level, sp) # rest) acc =
     (let runs = level_runs ly level sp rows in
      atom_clause ly rows rest (Some (case acc of None \<Rightarrow> runs | Some c \<Rightarrow> outer_and c runs)))"

definition atom_activity :: "32 word list list list list \<Rightarrow> layout \<Rightarrow> nat \<Rightarrow> bool list list res" where
  "atom_activity words ly side =
     rbind (atom_spans ly) (\<lambda>spans.
       rmap (\<lambda>bh. case atom_clause ly (bh ! side) (enumerate 0 spans) None of
           None \<Rightarrow> Inl (TypeError ''NoneType has no any'') | Some c \<Rightarrow> Inr (map (list_ex (\<lambda>b. b)) c)) (unpack_words ly words))"

definition page_bits :: "32 word list list list list \<Rightarrow> layout \<Rightarrow> 8 word list list res" where
  "page_bits words ly =
     rbind (atom_activity words ly SIDE_READ) (\<lambda>r.
     rbind (atom_activity words ly SIDE_WRITE) (\<lambda>w.
       Inr (map2 (map2 (\<lambda>a b. (if a then ATOM_READ else 0) OR (if b then ATOM_WRITTEN else 0))) r w)))"

section \<open>The op\<close>

text \<open>
  \<^verbatim>\<open>liveness_words\<close> of \<^verbatim>\<open>rola/ops/liveness.py\<close>: the statics cross the seam as bits. The launch is the
  extension's, an argument here.
\<close>

record liveness_args =
  la_read :: amp_plane
  la_write :: amp_plane
  la_B :: "nat list"
  la_read_dense :: nat
  la_read_mask :: "nat list"
  la_write_dense :: nat
  la_write_mask :: "nat list"

definition liveness_args_of :: "amp_plane \<Rightarrow> amp_plane \<Rightarrow> layout \<Rightarrow> side_static \<Rightarrow> side_static \<Rightarrow> liveness_args" where
  "liveness_args_of rp wp ly rs ws =
     (let words = mask_words (layout_rows ly) in
      \<lparr>la_read = rp, la_write = wp, la_B = ly_B ly, la_read_dense = dense_bits rs, la_read_mask = map (mask_word rs) [0..<words],
       la_write_dense = dense_bits ws, la_write_mask = map (mask_word ws) [0..<words]\<rparr>)"

definition liveness_op :: "(liveness_args \<Rightarrow> 'r) \<Rightarrow> amp_plane \<Rightarrow> amp_plane \<Rightarrow> layout \<Rightarrow> side_static \<Rightarrow> side_static \<Rightarrow> 'r" where
  "liveness_op ext rp wp ly rs ws = ext (liveness_args_of rp wp ly rs ws)"

section \<open>The activity byte of two planes\<close>

text \<open>\<^verbatim>\<open>atom_bits\<close> of \<^verbatim>\<open>rola/engine/facts/planes.py\<close>: no level is dense, no width is padded.\<close>

definition atom_bits ::
    "(liveness_args \<Rightarrow> 32 word list list list list res) \<Rightarrow> amp_plane \<Rightarrow> nat list \<Rightarrow> amp_plane option \<Rightarrow> 8 word list list res" where
  "atom_bits ext write_plane widths read_plane =
     rbind (make_layout (length widths) widths (int (ap_tokens write_plane))) (\<lambda>ly.
     rbind (side_statics ly (replicate (ly_D ly) False) (map int widths)) (\<lambda>statics.
     rbind (liveness_op ext (case read_plane of Some p \<Rightarrow> p | None \<Rightarrow> write_plane) write_plane ly statics statics) (\<lambda>words.
       page_bits words ly)))"

end
