(* ===== verification/Rola_Liveness_Props.thy ===== *)
theory Rola_Liveness_Props
  imports Rola_Liveness Rola_State_Props
begin

text \<open>
  The liveness contract, proved: the words hold the bits, a box's bit and an atom's bit are exact,
  the byte per page is exact at the atoms and never under-reports at another carve.
\<close>

section \<open>One word\<close>

lemma lanes_horner: "length bs = n \<Longrightarrow> (\<Sum>i\<leftarrow>[0..<n]. if bs ! i then 2 ^ i else (0 :: int)) = horner_sum of_bool 2 bs"
proof -
  assume n: "length bs = n"
  have "(\<Sum>i\<leftarrow>[0..<n]. if bs ! i then 2 ^ i else (0 :: int)) = (\<Sum>i\<in>{0..<n}. if bs ! i then 2 ^ i else 0)"
    by (simp add: interv_sum_list_conv_sum_set_nat)
  also have "\<dots> = horner_sum of_bool 2 bs" unfolding horner_sum_eq_sum n lessThan_atLeast0 by (rule sum.cong) simp_all
  finally show ?thesis .
qed

lemma word_lanes_bit:
  assumes "length lanes = 32" "i < 32"
  shows "bit (word_of_lanes lanes) i = lanes ! i"
proof -
  define s :: int where "s = horner_sum of_bool 2 lanes"
  have "word_of_lanes lanes = word_of_int (s - (if 2 ^ 31 \<le> s then 2 ^ 32 else 0))"
    using lanes_horner [OF assms(1)] by (simp add: word_of_lanes_def TOK_BITS_def s_def Let_def)
  also have "\<dots> = word_of_int s"
    by (simp add: word_of_int_eq_iff take_bit_eq_mod)
  finally show ?thesis using assms by (simp add: bit_word_of_int_iff s_def bit_horner_sum_bit_iff)
qed

lemma read_lane: "i < 32 \<Longrightarrow> (signed_drop_bit i (w :: 32 word) AND 1 \<noteq> 0) = bit w i"
proof -
  assume i: "i < 32"
  have "(signed_drop_bit i w AND 1 \<noteq> 0) = odd (signed_drop_bit i w)" by (simp add: and_one_eq odd_iff_mod_2_eq_one)
  also have "\<dots> = bit (signed_drop_bit i w) 0" by (simp add: bit_0)
  also have "\<dots> = bit w i" using i by (auto simp: bit_signed_drop_bit_iff)
  finally show ?thesis .
qed

section \<open>One row\<close>

lemma layout_words_cover: "ly_L ly \<le> layout_words ly * 32"
  by (simp add: layout_words_def token_words_def TOK_BITS_def)

lemma concat_const_nth:
  assumes "\<And>r. r \<in> set rs \<Longrightarrow> length r = d" "i < length rs" "k < d"
  shows "concat rs ! (i * d + k) = rs ! i ! k"
proof -
  have "rs ! i ! k = take d (drop (i * d) (concat rs)) ! k" using chunk_concat [of rs d i] assms(1,2) by simp
  moreover have "i * d + k < length (concat rs)"
    using length_concat_const [of rs d] assms mult_add_less [of i "length rs" k d] by simp
  ultimately show ?thesis using assms(3) by simp
qed

text \<open>The bit of a token in a row of words.\<close>

definition row_bit :: "32 word list \<Rightarrow> nat \<Rightarrow> bool" where
  "row_bit ws t = bit (ws ! (t div 32)) (t mod 32)"

lemma length_pack_row [simp]: "length (pack_row ly bits) = layout_words ly"
  by (simp add: pack_row_def Let_def)

lemma pack_row_bit:
  assumes "length bits = ly_L ly" "t < layout_words ly * 32"
  shows "row_bit (pack_row ly bits) t = (t < ly_L ly \<and> bits ! t)"
proof -
  let ?p = "bits @ replicate (layout_words ly * 32 - ly_L ly) False"
  have len: "length ?p = layout_words ly * 32" using assms(1) layout_words_cover [of ly] by simp
  have j: "t div 32 < layout_words ly" using assms(2) by (simp add: less_mult_imp_div_less)
  have le: "t div 32 * 32 + 32 \<le> layout_words ly * 32" using j by simp
  have lanes: "length (take 32 (drop (t div 32 * 32) ?p)) = 32" using len le by simp
  have "row_bit (pack_row ly bits) t = take 32 (drop (t div 32 * 32) ?p) ! (t mod 32)"
    using j word_lanes_bit [OF lanes, of "t mod 32"] by (simp add: row_bit_def pack_row_def Let_def TOK_BITS_def)
  also have "\<dots> = ?p ! (t div 32 * 32 + t mod 32)" using len le by (subst nth_take, simp, subst nth_drop) simp_all
  also have "t div 32 * 32 + t mod 32 = t" by simp
  also have "?p ! t = (t < ly_L ly \<and> bits ! t)" using assms by (simp add: nth_append)
  finally show ?thesis .
qed

lemma unpack_row_bits:
  assumes "length ws = layout_words ly"
  shows "unpack_row ly ws = map (row_bit ws) [0..<ly_L ly]"
proof -
  let ?f = "\<lambda>w :: 32 word. map (\<lambda>i. signed_drop_bit i w AND 1 \<noteq> 0) [0..<TOK_BITS]"
  have len: "length (concat (map ?f ws)) = layout_words ly * 32"
    using assms by (subst length_concat_const [where d = 32]) (auto simp: TOK_BITS_def)
  have nth: "concat (map ?f ws) ! t = row_bit ws t" if t: "t < layout_words ly * 32" for t
  proof -
    have j: "t div 32 < length ws" using t assms by (simp add: less_mult_imp_div_less)
    have "concat (map ?f ws) ! (t div 32 * 32 + t mod 32) = map ?f ws ! (t div 32) ! (t mod 32)"
      using j by (intro concat_const_nth) (auto simp: TOK_BITS_def)
    then show ?thesis using j by (simp add: row_bit_def read_lane TOK_BITS_def)
  qed
  show ?thesis
    by (rule nth_equalityI) (use len layout_words_cover [of ly] nth in \<open>simp_all add: unpack_row_def\<close>)
qed

lemma unpack_pack_row: "length bits = ly_L ly \<Longrightarrow> unpack_row ly (pack_row ly bits) = bits"
  using layout_words_cover [of ly] by (simp add: unpack_row_bits pack_row_bit list_eq_iff_nth_eq)

section \<open>The rows of a layout\<close>

lemma row_base_Suc: "level < length (ly_B ly) \<Longrightarrow> row_base ly (Suc level) = row_base ly level + ly_B ly ! level"
  by (simp add: row_base_def take_Suc_conv_app_nth)

lemma row_base_mono: "l \<le> k \<Longrightarrow> row_base ly l \<le> row_base ly k"
proof -
  assume "l \<le> k"
  then obtain n where "k = l + n" using le_Suc_ex by blast
  then have "take k (ly_B ly) = take l (ly_B ly) @ take n (drop l (ly_B ly))" by (simp add: take_add)
  then show ?thesis by (simp add: row_base_def)
qed

lemma row_in_layout:
  assumes "level < length (ly_B ly)" "digit < ly_B ly ! level"
  shows "row_base ly level + digit < layout_rows ly"
proof -
  have "row_base ly (Suc level) \<le> row_base ly (length (ly_B ly))" using assms(1) by (intro row_base_mono) simp
  then show ?thesis using assms by (simp add: row_base_Suc) (simp add: row_base_def layout_rows_def)
qed

lemma row_level_unique:
  assumes "level < length (ly_B ly)" "digit < ly_B ly ! level" "k < length (ly_B ly)"
    and "row_base ly k \<le> row_base ly level + digit" "row_base ly level + digit < row_base ly k + ly_B ly ! k"
  shows "k = level"
proof (rule ccontr)
  assume "k \<noteq> level"
  then consider "Suc k \<le> level" | "Suc level \<le> k" by linarith
  then show False
  proof cases
    case 1
    then show False using row_base_mono [OF 1, of ly] row_base_Suc [OF assms(3)] assms(5) by linarith
  next
    case 2
    then show False using row_base_mono [OF 2, of ly] row_base_Suc [OF assms(1)] assms(2,4) by linarith
  qed
qed

lemma concat_nth_at: "l < length xss \<Longrightarrow> k < length (xss ! l) \<Longrightarrow> concat xss ! (sum_list (map length (take l xss)) + k) = xss ! l ! k"
proof (induction xss arbitrary: l)
  case (Cons xs xss)
  then show ?case by (cases l) (simp_all add: nth_append add.assoc)
qed simp

section \<open>What the words say\<close>

definition wf_live :: "layout \<Rightarrow> nat \<Rightarrow> bool list list list \<Rightarrow> bool" where
  "wf_live ly BH live \<longleftrightarrow> length live = BH \<and> (\<forall>rows\<in>set live. length rows = layout_rows ly \<and> (\<forall>r\<in>set rows. length r = ly_L ly))"

lemma wf_live_nth: "wf_live ly BH live \<Longrightarrow> bh < BH \<Longrightarrow> length (live ! bh) = layout_rows ly"
  "wf_live ly BH live \<Longrightarrow> bh < BH \<Longrightarrow> r < layout_rows ly \<Longrightarrow> length (live ! bh ! r) = ly_L ly"
  by (auto simp: wf_live_def) (metis nth_mem)

text \<open>The vote of an amplitude: its magnitude is not zero.\<close>

definition voted :: "amp_plane \<Rightarrow> layout \<Rightarrow> nat \<Rightarrow> nat \<Rightarrow> nat \<Rightarrow> bool" where
  "voted p ly bh t r = ((ap_data p ! ((bh * ly_L ly + t) * layout_rows ly + r)) AND BF16_MAGNITUDE_MASK \<noteq> 0)"

definition plane_calls :: "amp_plane \<Rightarrow> layout \<Rightarrow> nat" where
  "plane_calls p ly = length (ap_data p) div (ly_L ly * layout_rows ly)"

lemma by_rows_ok:
  assumes "amplitude_rows p ly = Inr amp"
  shows "wf_live ly (plane_calls p ly) (by_rows ly amp)"
    "bh < plane_calls p ly \<Longrightarrow> t < ly_L ly \<Longrightarrow> r < layout_rows ly \<Longrightarrow> by_rows ly amp ! bh ! r ! t = voted p ly bh t r"
  using assms by (auto simp: amplitude_rows_def wf_live_def by_rows_def plane_calls_def voted_def split: if_splits)

lemma mask_level_ok:
  assumes "wf_live ly BH live" "length (ss_mask ss) = layout_rows ly" "mask_level ly ss level live = Inr live'"
  shows "wf_live ly BH live'" "level < length (ly_B ly)"
    "bh < BH \<Longrightarrow> r < layout_rows ly \<Longrightarrow> t < ly_L ly \<Longrightarrow> live' ! bh ! r ! t =
       (if row_base ly level \<le> r \<and> r < row_base ly level + ly_B ly ! level then ss_mask ss ! r else live ! bh ! r ! t)"
proof -
  let ?b = "row_base ly level" and ?w = "ly_B ly ! level"
  let ?m = "take ?w (drop ?b (ss_mask ss))"
  let ?row = "\<lambda>rows r. if ?b \<le> r \<and> r < ?b + ?w then replicate (ly_L ly) (if length ?m = 1 then ?m ! 0 else ?m ! (r - ?b)) else rows ! r"
  have lv: "level < length (ly_B ly)" and l': "live' = map (\<lambda>rows. map (?row rows) [0..<length rows]) live"
    using assms(3) by (auto simp: mask_level_def Let_def split: if_splits)
  then show "level < length (ly_B ly)" by simp
  show "wf_live ly BH live'" using assms(1) by (auto simp: l' wf_live_def)
  have row: "live' ! bh ! r = ?row (live ! bh) r" if "bh < BH" "r < layout_rows ly"
  proof -
    have "bh < length live" "r < length (live ! bh)" using that assms(1) wf_live_nth(1) [OF assms(1)] by (simp_all add: wf_live_def)
    then show ?thesis by (simp only: l' nth_map length_map length_upt nth_upt add_0 diff_zero)
  qed
  show "live' ! bh ! r ! t = (if ?b \<le> r \<and> r < ?b + ?w then ss_mask ss ! r else live ! bh ! r ! t)"
    if "bh < BH" "r < layout_rows ly" "t < ly_L ly"
  proof (cases "?b \<le> r \<and> r < ?b + ?w")
    case True
    note row = row [OF that(1,2)]
    have len: "length ?m = ?w"
    proof -
      have "?b + ?w \<le> layout_rows ly" using row_in_layout [OF lv, of "?w - 1"] True by (cases ?w) auto
      then show ?thesis using assms(2) by simp
    qed
    have m: "?m ! k = ss_mask ss ! (?b + k)" if "k < ?w" for k using that len by simp
    have "(if length ?m = 1 then ?m ! 0 else ?m ! (r - ?b)) = ss_mask ss ! r"
    proof (cases "?w = 1")
      case one: True
      then have "r = ?b" using True by simp
      then show ?thesis using m [of 0] one len by simp
    next
      case False
      have r: "r - ?b < ?w" "?b + (r - ?b) = r" using True by linarith+
      have "?m ! (r - ?b) = ss_mask ss ! r" using m [OF r(1)] unfolding r(2) .
      then show ?thesis using False len by (simp only: if_False)
    qed
    moreover have "?row (live ! bh) r = replicate (ly_L ly) (if length ?m = 1 then ?m ! 0 else ?m ! (r - ?b))" by (rule if_P [OF True])
    ultimately show ?thesis using True by (simp only: row if_True simp_thms nth_replicate [OF that(3)])
  next
    case False
    note row = row [OF that(1,2)]
    show ?thesis using False by (simp only: row if_False)
  qed
qed

lemma mask_levels_ok:
  assumes "wf_live ly BH live" "length (ss_mask ss) = layout_rows ly" "mask_levels ly ss levels live = Inr live'"
  shows "wf_live ly BH live'"
    "bh < BH \<Longrightarrow> r < layout_rows ly \<Longrightarrow> t < ly_L ly \<Longrightarrow> live' ! bh ! r ! t =
       (if \<exists>k\<in>set levels. ss_dense ss ! k \<and> k < length (ly_B ly) \<and> row_base ly k \<le> r \<and> r < row_base ly k + ly_B ly ! k
        then ss_mask ss ! r else live ! bh ! r ! t)"
proof -
  have "wf_live ly BH live' \<and> (bh < BH \<longrightarrow> r < layout_rows ly \<longrightarrow> t < ly_L ly \<longrightarrow> live' ! bh ! r ! t =
       (if \<exists>k\<in>set levels. ss_dense ss ! k \<and> k < length (ly_B ly) \<and> row_base ly k \<le> r \<and> r < row_base ly k + ly_B ly ! k
        then ss_mask ss ! r else live ! bh ! r ! t))"
    using assms(1,3)
  proof (induction levels arbitrary: live)
    case (Cons k levels)
    show ?case
    proof (cases "ss_dense ss ! k")
      case True
      then obtain mid where mid: "mask_level ly ss k live = Inr mid" "mask_levels ly ss levels mid = Inr live'"
        using Cons.prems(2) by (auto simp: res_simps)
      note m = mask_level_ok [OF Cons.prems(1) assms(2) mid(1)]
      show ?thesis using Cons.IH [OF m(1) mid(2)] m(2,3) True by auto
    next
      case False
      then show ?thesis using Cons by auto
    qed
  qed simp
  then show "wf_live ly BH live'" "bh < BH \<Longrightarrow> r < layout_rows ly \<Longrightarrow> t < ly_L ly \<Longrightarrow> live' ! bh ! r ! t =
       (if \<exists>k\<in>set levels. ss_dense ss ! k \<and> k < length (ly_B ly) \<and> row_base ly k \<le> r \<and> r < row_base ly k + ly_B ly ! k
        then ss_mask ss ! r else live ! bh ! r ! t)" by blast+
qed

text \<open>The statics of a layout: as many mask bits as rows, one per digit.\<close>

lemma side_statics_ok:
  assumes "side_statics ly dense logical = Inr ss" "length (ly_B ly) = ly_D ly"
  shows "length dense = ly_D ly" "length logical = ly_D ly" "ss_dense ss = dense" "length (ss_mask ss) = layout_rows ly"
    "level < ly_D ly \<Longrightarrow> digit < ly_B ly ! level \<Longrightarrow> ss_mask ss ! (row_base ly level + digit) = (int digit < logical ! level)"
    "level < ly_D ly \<Longrightarrow> 1 \<le> logical ! level \<and> logical ! level \<le> int (ly_B ly ! level)"
proof -
  let ?f = "\<lambda>level. map (\<lambda>digit. int digit < logical ! level) [0..<ly_B ly ! level]"
  have s: "length dense = ly_D ly" "length logical = ly_D ly" "ss_dense ss = dense" "ss_mask ss = concat (map ?f [0..<ly_D ly])"
    "\<not> list_ex (\<lambda>(b, B). \<not> (1 \<le> b \<and> b \<le> int B)) (zip logical (ly_B ly))"
    using assms(1) by (auto simp: side_statics_def split: if_splits)
  then show "length dense = ly_D ly" "length logical = ly_D ly" "ss_dense ss = dense" by simp_all
  have lens: "map length (take k (map ?f [0..<ly_D ly])) = take k (ly_B ly)" for k
    using assms(2) by (simp add: list_eq_iff_nth_eq take_map)
  show "length (ss_mask ss) = layout_rows ly"
    using lens [of "ly_D ly"] assms(2) by (simp add: s(4) length_concat layout_rows_def comp_def flip: lens) (metis map_nth)
  show "ss_mask ss ! (row_base ly level + digit) = (int digit < logical ! level)" if "level < ly_D ly" "digit < ly_B ly ! level"
    using concat_nth_at [of level "map ?f [0..<ly_D ly]" digit] that by (simp add: s(4) lens row_base_def)
  show "1 \<le> logical ! level \<and> logical ! level \<le> int (ly_B ly ! level)" if "level < ly_D ly"
  proof -
    have "(logical ! level, ly_B ly ! level) \<in> set (zip logical (ly_B ly))"
      using that s(2) assms(2) by (auto simp: in_set_zip intro!: exI [of _ level])
    then show ?thesis using s(5) by (fastforce simp: list_ex_iff)
  qed
qed

definition live_digit :: "amp_plane \<Rightarrow> layout \<Rightarrow> bool list \<Rightarrow> int list \<Rightarrow> nat \<Rightarrow> nat \<Rightarrow> nat \<Rightarrow> nat \<Rightarrow> bool" where
  "live_digit p ly dense logical bh level digit t =
     (if dense ! level then int digit < logical ! level else voted p ly bh t (row_base ly level + digit))"

lemma side_live_ok:
  assumes st: "side_statics ly dense logical = Inr ss" and B: "length (ly_B ly) = ly_D ly" and sl: "side_live p ly ss = Inr live"
  shows "wf_live ly (plane_calls p ly) live"
    "bh < plane_calls p ly \<Longrightarrow> level < ly_D ly \<Longrightarrow> digit < ly_B ly ! level \<Longrightarrow> t < ly_L ly
       \<Longrightarrow> live ! bh ! (row_base ly level + digit) ! t = live_digit p ly dense logical bh level digit t"
proof -
  obtain amp where amp: "amplitude_rows p ly = Inr amp" "mask_levels ly ss [0..<length (ss_dense ss)] (by_rows ly amp) = Inr live"
    using sl by (auto simp: side_live_def res_simps)
  note s = side_statics_ok [OF st B] and b = by_rows_ok [OF amp(1)]
  note m = mask_levels_ok [OF b(1) s(4) amp(2)]
  show "wf_live ly (plane_calls p ly) live" by (rule m(1))
  show "live ! bh ! (row_base ly level + digit) ! t = live_digit p ly dense logical bh level digit t"
    if i: "bh < plane_calls p ly" "level < ly_D ly" "digit < ly_B ly ! level" "t < ly_L ly"
  proof -
    have lv: "level < length (ly_B ly)" using i(2) B by simp
    have row: "row_base ly level + digit < layout_rows ly" by (rule row_in_layout [OF lv i(3)])
    have "(\<exists>k\<in>set [0..<length (ss_dense ss)]. ss_dense ss ! k \<and> k < length (ly_B ly) \<and> row_base ly k \<le> row_base ly level + digit
        \<and> row_base ly level + digit < row_base ly k + ly_B ly ! k) = dense ! level" (is "?ex = _")
    proof
      show "?ex \<Longrightarrow> dense ! level" using row_level_unique [OF lv i(3)] s(3) by auto
      show "dense ! level \<Longrightarrow> ?ex" using i s(1,3) lv by (intro bexI [of _ level]) auto
    qed
    then show ?thesis using m(2) [OF i(1) row i(4)] b(2) [OF i(1,4) row] s(5) [OF i(2,3)] by (simp add: live_digit_def)
  qed
qed


section \<open>The table\<close>

text \<open>A word table of a layout: its shape, and no bit past the last token.\<close>

definition wf_side :: "layout \<Rightarrow> 32 word list list \<Rightarrow> bool" where
  "wf_side ly rows \<longleftrightarrow> length rows = layout_rows ly \<and> (\<forall>row\<in>set rows. length row = layout_words ly
     \<and> (\<forall>t. ly_L ly \<le> t \<longrightarrow> t < layout_words ly * 32 \<longrightarrow> \<not> row_bit row t))"

definition wf_table :: "layout \<Rightarrow> nat \<Rightarrow> 32 word list list list list \<Rightarrow> bool" where
  "wf_table ly BH words \<longleftrightarrow> length words = BH \<and> (\<forall>bh\<in>set words. length bh = SIDES \<and> (\<forall>rows\<in>set bh. wf_side ly rows))"

text \<open>What the rows of a side say of a token's digit at a level.\<close>

definition says :: "layout \<Rightarrow> 32 word list list \<Rightarrow> nat \<Rightarrow> nat \<Rightarrow> nat \<Rightarrow> bool" where
  "says ly rows t level digit = row_bit (rows ! (row_base ly level + digit)) t"

lemma wf_table_side: "wf_table ly BH words \<Longrightarrow> bh < BH \<Longrightarrow> side < SIDES \<Longrightarrow> wf_side ly (words ! bh ! side)"
  by (simp add: wf_table_def all_set_conv_all_nth)

lemma wf_table_length: "wf_table ly BH words \<Longrightarrow> length words = BH"
  by (simp add: wf_table_def)

lemma pack_wf_side:
  assumes "wf_live ly BH live" "bh < BH"
  shows "wf_side ly (map (pack_row ly) (live ! bh))"
proof -
  have "live ! bh \<in> set live" using assms by (simp add: wf_live_def)
  then show ?thesis using assms(1) by (auto simp: wf_side_def wf_live_def pack_row_bit)
qed

lemma pack_says:
  assumes "wf_live ly BH live" "bh < BH" "level < length (ly_B ly)" "digit < ly_B ly ! level" "t < ly_L ly"
  shows "says ly (map (pack_row ly) (live ! bh)) t level digit = live ! bh ! (row_base ly level + digit) ! t"
proof -
  have row: "row_base ly level + digit < layout_rows ly" by (rule row_in_layout [OF assms(3,4)])
  then show ?thesis using wf_live_nth [OF assms(1,2)] assms(5) layout_words_cover [of ly] by (simp add: says_def pack_row_bit)
qed

lemma liveness_words_ok:
  assumes rs: "side_statics ly rdense rlogical = Inr rs" and ws: "side_statics ly wdense wlogical = Inr ws"
    and B: "length (ly_B ly) = ly_D ly" and w: "liveness_words rp wp ly rs ws = Inr words"
  shows "wf_table ly (plane_calls rp ly) words" "plane_calls wp ly = plane_calls rp ly"
    "bh < plane_calls rp ly \<Longrightarrow> level < ly_D ly \<Longrightarrow> digit < ly_B ly ! level \<Longrightarrow> t < ly_L ly
       \<Longrightarrow> says ly (words ! bh ! SIDE_READ) t level digit = live_digit rp ly rdense rlogical bh level digit t
         \<and> says ly (words ! bh ! SIDE_WRITE) t level digit = live_digit wp ly wdense wlogical bh level digit t"
proof -
  obtain r w' where rw: "side_live rp ly rs = Inr r" "side_live wp ly ws = Inr w'" "length r = length w'"
    "words = map2 (\<lambda>a b. [a, b]) (pack_words ly r) (pack_words ly w')"
    using w by (auto simp: liveness_words_def res_simps split: if_splits)
  note R = side_live_ok [OF rs B rw(1)] and W = side_live_ok [OF ws B rw(2)]
  have len: "length r = plane_calls rp ly" "length w' = plane_calls wp ly" using R(1) W(1) by (simp_all add: wf_live_def)
  then show calls: "plane_calls wp ly = plane_calls rp ly" using rw(3) by simp
  have words: "words ! bh = [map (pack_row ly) (r ! bh), map (pack_row ly) (w' ! bh)]" if "bh < plane_calls rp ly" for bh
    using that len rw(3) by (simp add: rw(4) pack_words_def)
  have wl: "length words = plane_calls rp ly" using len rw(3) by (simp add: rw(4) pack_words_def)
  show "wf_table ly (plane_calls rp ly) words"
    unfolding wf_table_def
  proof (intro conjI ballI)
    fix b assume "b \<in> set words"
    then obtain bh where bh: "bh < plane_calls rp ly" "b = words ! bh" using wl by (auto simp: in_set_conv_nth)
    then show "length b = SIDES" by (simp add: words SIDES_def)
    show "wf_side ly rows" if "rows \<in> set b" for rows
      using that bh pack_wf_side [OF R(1) bh(1)] pack_wf_side [OF W(1), of bh] calls by (auto simp: words)
  qed (rule wl)
  show "says ly (words ! bh ! SIDE_READ) t level digit = live_digit rp ly rdense rlogical bh level digit t
      \<and> says ly (words ! bh ! SIDE_WRITE) t level digit = live_digit wp ly wdense wlogical bh level digit t"
    if i: "bh < plane_calls rp ly" "level < ly_D ly" "digit < ly_B ly ! level" "t < ly_L ly"
    using pack_says [OF R(1) i(1) _ i(3,4)] pack_says [OF W(1) _ _ i(3,4), of bh] R(2) [OF i] W(2) [OF _ i(2,3,4), of bh] i(1,2) B calls
    by (simp add: words SIDE_READ_def SIDE_WRITE_def)
qed

text \<open>The reader returns the bits of a table.\<close>

lemma unpack_words_bits:
  assumes "wf_table ly BH words" "bh < BH" "side < SIDES" "r < layout_rows ly"
  shows "unpack_words ly words ! bh ! side ! r = map (row_bit (words ! bh ! side ! r)) [0..<ly_L ly]"
proof -
  have s: "wf_side ly (words ! bh ! side)" by (rule wf_table_side [OF assms(1-3)])
  then have "length (words ! bh ! side ! r) = layout_words ly" using assms(4) by (simp add: wf_side_def)
  moreover have "bh < length words" "side < length (words ! bh)" "r < length (words ! bh ! side)"
    using assms s by (auto simp: wf_table_def wf_side_def)
  ultimately show ?thesis by (simp add: unpack_words_def unpack_row_bits)
qed

end
