(* ===== verification/Rola_Liveness_Fold.thy ===== *)
theory Rola_Liveness_Fold
  imports Rola_Liveness_Props
begin

text \<open>
  The folds of the liveness table: a box's bit is the OR over the tokens of the AND over the levels
  of the OR over its run, and the pages of a box are the atoms of its leaves.
\<close>

section \<open>Rows of words\<close>

lemma row_bit_map2:
  assumes "length x = W" "length y = W" "t < W * 32"
  shows "row_bit (map2 (\<lambda>a b. a OR b) x y) t = (row_bit x t \<or> row_bit y t)"
    "row_bit (map2 (\<lambda>a b. a AND b) x y) t = (row_bit x t \<and> row_bit y t)"
  using assms less_mult_imp_div_less [OF assms(3)] by (simp_all add: row_bit_def bit_or_iff bit_and_iff)

lemma some_word_live: "length ws = W \<Longrightarrow> list_ex (\<lambda>w. w \<noteq> 0) ws = (\<exists>t<W * 32. row_bit ws t)"
proof -
  assume W: "length ws = W"
  have "(w \<noteq> 0) = (\<exists>i<32. bit w i)" for w :: "32 word" using bit_imp_le_length [of w] by (auto simp: bit_eq_iff [of w 0])
  then have "list_ex (\<lambda>w. w \<noteq> 0) ws = (\<exists>j<W. \<exists>i<32. bit (ws ! j) i)" using W by (auto simp: list_ex_length)
  also have "\<dots> = (\<exists>t<W * 32. row_bit ws t)"
  proof
    assume "\<exists>j<W. \<exists>i<32. bit (ws ! j) i"
    then obtain j i where "j < W" "i < 32" "bit (ws ! j) i" by blast
    then show "\<exists>t<W * 32. row_bit ws t"
      by (intro exI [of _ "j * 32 + i"]) (simp add: row_bit_def mult_add_less)
  next
    assume "\<exists>t<W * 32. row_bit ws t"
    then obtain t where "t < W * 32" "row_bit ws t" by blast
    then show "\<exists>j<W. \<exists>i<32. bit (ws ! j) i"
      by (intro exI [of _ "t div 32"] conjI exI [of _ "t mod 32"]) (simp_all add: row_bit_def less_mult_imp_div_less)
  qed
  finally show ?thesis .
qed

lemma py_index_ok: "0 \<le> i \<Longrightarrow> i < int (length xs) \<Longrightarrow> py_index xs i = Inr (xs ! nat i)"
  by (simp add: py_index_def)

lemma or_rows_ok:
  assumes "wf_side ly rows" "is \<noteq> []" "\<forall>i\<in>set is. 0 \<le> i \<and> i < int (layout_rows ly)"
  shows "\<exists>ws. or_rows rows is = Inr ws \<and> length ws = layout_words ly
    \<and> (\<forall>t<layout_words ly * 32. row_bit ws t = (\<exists>i\<in>set is. row_bit (rows ! nat i) t))"
  using assms(2,3)
proof (induction "is" rule: induct_list012)
  case (2 i)
  then show ?case using assms(1) by (auto simp: py_index_ok wf_side_def nat_less_iff)
next
  case (3 i j "is")
  then obtain ws where ws: "or_rows rows (j # is) = Inr ws" "length ws = layout_words ly"
    "\<And>t. t < layout_words ly * 32 \<Longrightarrow> row_bit ws t = (\<exists>i\<in>set (j # is). row_bit (rows ! nat i) t)" by auto
  have i: "0 \<le> i" "i < int (length rows)" using 3(4) assms(1) by (simp_all add: wf_side_def)
  then have len: "length (rows ! nat i) = layout_words ly" using assms(1) by (simp add: wf_side_def nat_less_iff)
  show ?case by (auto simp: py_index_ok [OF i] ws row_bit_map2 [OF len ws(2)] len)
qed simp

section \<open>A box's bit\<close>

text \<open>The lawful boxes: those of \<^verbatim>\<open>Box.check\<close> whose runs start at a digit.\<close>

definition box_ok :: "layout \<Rightarrow> digit_box \<Rightarrow> bool" where
  "box_ok ly bx \<longleftrightarrow> box_check bx ly = Inr () \<and> (\<forall>s\<in>set (bx_start bx). 0 \<le> s)"

definition in_run :: "digit_box \<Rightarrow> nat \<Rightarrow> nat \<Rightarrow> bool" where
  "in_run bx level digit \<longleftrightarrow> bx_start bx ! level \<le> int digit \<and> int digit < bx_start bx ! level + bx_span bx ! level"

lemma box_ok_run:
  assumes "box_ok ly bx" "length (ly_B ly) = ly_D ly"
  shows "length (bx_start bx) = ly_D ly" "length (bx_span bx) = ly_D ly"
    "level < ly_D ly \<Longrightarrow> 0 \<le> bx_start bx ! level \<and> 1 \<le> bx_span bx ! level
       \<and> bx_start bx ! level + bx_span bx ! level \<le> int (ly_B ly ! level)"
proof -
  have c: "length (bx_start bx) = ly_D ly" "length (bx_span bx) = ly_D ly"
    "\<not> list_ex (\<lambda>(width, start, sp). run_unlawful width start sp) (zip (ly_B ly) (zip (bx_start bx) (bx_span bx)))"
    using assms(1) by (auto simp: box_ok_def box_check_def refuse_def split: if_splits)
  then show "length (bx_start bx) = ly_D ly" "length (bx_span bx) = ly_D ly" by simp_all
  show "0 \<le> bx_start bx ! level \<and> 1 \<le> bx_span bx ! level \<and> bx_start bx ! level + bx_span bx ! level \<le> int (ly_B ly ! level)"
    if l: "level < ly_D ly"
  proof -
    have "(ly_B ly ! level, bx_start bx ! level, bx_span bx ! level) \<in> set (zip (ly_B ly) (zip (bx_start bx) (bx_span bx)))"
      using l c assms(2) by (auto simp: in_set_zip intro!: exI [of _ level])
    then have "\<not> run_unlawful (ly_B ly ! level) (bx_start bx ! level) (bx_span bx ! level)" using c(3) by (fastforce simp: list_ex_iff)
    then show ?thesis using assms(1) l c(1) by (auto simp: run_unlawful_def box_ok_def)
  qed
qed

lemma run_rows_ok:
  assumes ok: "box_ok ly bx" and B: "length (ly_B ly) = ly_D ly" and s: "wf_side ly rows" and l: "level < ly_D ly"
  shows "\<exists>ws. or_rows rows [int (row_base ly level) + bx_start bx ! level..int (row_base ly level) + bx_start bx ! level + bx_span bx ! level - 1] = Inr ws
    \<and> length ws = layout_words ly
    \<and> (\<forall>t<layout_words ly * 32. row_bit ws t = (\<exists>digit<ly_B ly ! level. in_run bx level digit \<and> says ly rows t level digit))"
proof -
  let ?a = "bx_start bx ! level" and ?s = "bx_span bx ! level" and ?b = "int (row_base ly level)"
  note r = box_ok_run(3) [OF ok B l]
  have top: "row_base ly level + ly_B ly ! level \<le> layout_rows ly"
    using row_in_layout [of level ly "ly_B ly ! level - 1"] r l B by simp
  have "\<forall>i\<in>set [?b + ?a..?b + ?a + ?s - 1]. 0 \<le> i \<and> i < int (layout_rows ly)" using r top by auto
  moreover have "[?b + ?a..?b + ?a + ?s - 1] \<noteq> []" using r by simp
  ultimately obtain ws where ws: "or_rows rows [?b + ?a..?b + ?a + ?s - 1] = Inr ws" "length ws = layout_words ly"
    "\<forall>t<layout_words ly * 32. row_bit ws t = (\<exists>i\<in>set [?b + ?a..?b + ?a + ?s - 1]. row_bit (rows ! nat i) t)"
    using or_rows_ok [OF s] by blast
  have "(\<exists>i\<in>set [?b + ?a..?b + ?a + ?s - 1]. row_bit (rows ! nat i) t) = (\<exists>digit<ly_B ly ! level. in_run bx level digit \<and> says ly rows t level digit)"
    (is "?l = ?r") for t
  proof
    assume ?l
    then obtain i where i: "?b + ?a \<le> i" "i \<le> ?b + ?a + ?s - 1" "row_bit (rows ! nat i) t" by auto
    then have "nat i = row_base ly level + nat (i - ?b)" using r by linarith
    then show ?r using i r by (intro exI [of _ "nat (i - ?b)"]) (auto simp: in_run_def says_def)
  next
    assume ?r
    then obtain d where "in_run bx level d" "says ly rows t level d" by blast
    then show ?l by (intro bexI [of _ "?b + int d"]) (auto simp: in_run_def says_def nat_int_add)
  qed
  then show ?thesis using ws by auto
qed

lemma box_clause_ok:
  assumes ok: "box_ok ly bx" and B: "length (ly_B ly) = ly_D ly" and s: "wf_side ly rows"
    and acc: "\<And>c. acc = Some c \<Longrightarrow> length c = layout_words ly"
    and k: "k < ly_D ly"
  shows "\<exists>ws. box_clause ly rows (drop k (zip [0..<ly_D ly] (zip (bx_start bx) (bx_span bx)))) acc = Inr (Some ws) \<and> length ws = layout_words ly
    \<and> (\<forall>t<layout_words ly * 32. row_bit ws t = ((case acc of None \<Rightarrow> True | Some c \<Rightarrow> row_bit c t)
        \<and> (\<forall>level. k \<le> level \<longrightarrow> level < ly_D ly \<longrightarrow> (\<exists>digit<ly_B ly ! level. in_run bx level digit \<and> says ly rows t level digit))))"
  using acc k
proof (induction "ly_D ly - k" arbitrary: k acc)
  case (Suc n)
  note len = box_ok_run(1,2) [OF ok B]
  have dr: "drop k (zip [0..<ly_D ly] (zip (bx_start bx) (bx_span bx)))
      = (k, bx_start bx ! k, bx_span bx ! k) # drop (Suc k) (zip [0..<ly_D ly] (zip (bx_start bx) (bx_span bx)))"
    using Suc.prems(2) len by (subst Cons_nth_drop_Suc [symmetric]) simp_all
  obtain r where r: "or_rows rows [int (row_base ly k) + bx_start bx ! k..int (row_base ly k) + bx_start bx ! k + bx_span bx ! k - 1] = Inr r"
    "length r = layout_words ly" "\<forall>t<layout_words ly * 32. row_bit r t = (\<exists>digit<ly_B ly ! k. in_run bx k digit \<and> says ly rows t k digit)"
    using run_rows_ok [OF ok B s Suc.prems(2)] by blast
  define c where "c = (case acc of None \<Rightarrow> r | Some c \<Rightarrow> map2 (\<lambda>a b. a AND b) c r)"
  have c: "length c = layout_words ly" "\<And>t. t < layout_words ly * 32 \<Longrightarrow>
      row_bit c t = ((case acc of None \<Rightarrow> True | Some c \<Rightarrow> row_bit c t) \<and> (\<exists>digit<ly_B ly ! k. in_run bx k digit \<and> says ly rows t k digit))"
    using Suc.prems(1) r by (auto simp: c_def row_bit_map2 split: option.splits)
  have step: "box_clause ly rows (drop k (zip [0..<ly_D ly] (zip (bx_start bx) (bx_span bx)))) acc
      = box_clause ly rows (drop (Suc k) (zip [0..<ly_D ly] (zip (bx_start bx) (bx_span bx)))) (Some c)"
    by (simp add: dr r(1) c_def)
  have split: "(\<forall>level. k \<le> level \<longrightarrow> level < ly_D ly \<longrightarrow> P level) = (P k \<and> (\<forall>level. Suc k \<le> level \<longrightarrow> level < ly_D ly \<longrightarrow> P level))" for P
    using Suc.prems(2) by (metis Suc_leD le_antisym not_less_eq_eq order_refl)
  show ?case
  proof (cases "Suc k < ly_D ly")
    case True
    have "n = ly_D ly - Suc k" using Suc.hyps(2) by simp
    from Suc.hyps(1) [OF this, of "Some c"] True c(1) obtain ws where ws:
      "box_clause ly rows (drop (Suc k) (zip [0..<ly_D ly] (zip (bx_start bx) (bx_span bx)))) (Some c) = Inr (Some ws)"
      "length ws = layout_words ly" "\<And>t. t < layout_words ly * 32 \<Longrightarrow> row_bit ws t = (row_bit c t
        \<and> (\<forall>level. Suc k \<le> level \<longrightarrow> level < ly_D ly \<longrightarrow> (\<exists>digit<ly_B ly ! level. in_run bx level digit \<and> says ly rows t level digit)))"
      by auto
    show ?thesis unfolding step ws(1) split using ws(2,3) c(2) by auto
  next
    case False
    then have "drop (Suc k) (zip [0..<ly_D ly] (zip (bx_start bx) (bx_span bx))) = []" by simp
    then show ?thesis unfolding step split using c False by auto
  qed
qed simp

text \<open>A token's live leaves are the product of its live digits.\<close>

definition box_live :: "layout \<Rightarrow> 32 word list list \<Rightarrow> digit_box \<Rightarrow> bool" where
  "box_live ly rows bx \<longleftrightarrow>
     (\<exists>t<ly_L ly. \<forall>level<ly_D ly. \<exists>digit<ly_B ly ! level. in_run bx level digit \<and> says ly rows t level digit)"

lemma says_lt:
  assumes "wf_side ly rows" "level < length (ly_B ly)" "digit < ly_B ly ! level" "t < layout_words ly * 32" "says ly rows t level digit"
  shows "t < ly_L ly"
proof -
  have "rows ! (row_base ly level + digit) \<in> set rows" using assms(1) row_in_layout [OF assms(2,3)] by (simp add: wf_side_def)
  then have "\<forall>t. ly_L ly \<le> t \<longrightarrow> t < layout_words ly * 32 \<longrightarrow> \<not> row_bit (rows ! (row_base ly level + digit)) t"
    using assms(1) by (simp add: wf_side_def)
  then show ?thesis using assms(4,5) unfolding says_def by (meson linorder_not_le)
qed

lemma box_bit_ok:
  assumes "box_ok ly bx" "length (ly_B ly) = ly_D ly" "wf_side ly rows" "0 < ly_D ly"
  shows "box_bit ly bx rows = Inr (box_live ly rows bx)"
proof -
  obtain ws where ws: "box_clause ly rows (zip [0..<ly_D ly] (zip (bx_start bx) (bx_span bx))) None = Inr (Some ws)"
    "length ws = layout_words ly" "\<And>t. t < layout_words ly * 32 \<Longrightarrow> row_bit ws t =
        (\<forall>level<ly_D ly. \<exists>digit<ly_B ly ! level. in_run bx level digit \<and> says ly rows t level digit)"
    using box_clause_ok [OF assms(1-3), of None 0] assms(4) by auto
  have "(\<exists>t<layout_words ly * 32. row_bit ws t) = box_live ly rows bx"
  proof
    assume "\<exists>t<layout_words ly * 32. row_bit ws t"
    then obtain t where t: "t < layout_words ly * 32" "row_bit ws t" by blast
    then have all: "\<forall>level<ly_D ly. \<exists>digit<ly_B ly ! level. in_run bx level digit \<and> says ly rows t level digit" by (simp add: ws(3))
    then obtain digit where "digit < ly_B ly ! 0" "says ly rows t 0 digit" using assms(4) by blast
    then have "t < ly_L ly" using says_lt [OF assms(3), of 0 digit t] t(1) assms(2,4) by simp
    then show "box_live ly rows bx" using all by (auto simp: box_live_def)
  next
    assume "box_live ly rows bx"
    then obtain t where "t < ly_L ly" "\<forall>level<ly_D ly. \<exists>digit<ly_B ly ! level. in_run bx level digit \<and> says ly rows t level digit"
      by (auto simp: box_live_def)
    then show "\<exists>t<layout_words ly * 32. row_bit ws t"
      using layout_words_cover [of ly] by (intro exI [of _ t]) (simp add: ws(3))
  qed
  then show ?thesis using ws(1) some_word_live [OF ws(2)] by (simp add: box_bit_def)
qed

lemma box_activity_ok:
  assumes "wf_table ly BH words" "length (ly_B ly) = ly_D ly" "0 < ly_D ly" "side < SIDES" "\<forall>bx\<in>set boxes. box_ok ly bx"
  shows "box_activity words ly boxes side = Inr (map (\<lambda>bh. map (box_live ly (words ! bh ! side)) boxes) [0..<BH])"
proof -
  have s: "wf_side ly (bh ! side)" if "bh \<in> set words" for bh using that assms(1,4) by (auto simp: wf_table_def)
  have "rmap (\<lambda>bx. rbind (box_check bx ly) (\<lambda>_. rmap (\<lambda>bh. box_bit ly bx (bh ! side)) words)) boxes
      = Inr (map (\<lambda>bx. map (\<lambda>bh. box_live ly (bh ! side) bx) words) boxes)"
  proof (intro rmap_all ballI)
    fix bx assume bx: "bx \<in> set boxes"
    then have "rmap (\<lambda>bh. box_bit ly bx (bh ! side)) words = Inr (map (\<lambda>bh. box_live ly (bh ! side) bx) words)"
      using assms(2,3,5) s by (intro rmap_all ballI box_bit_ok) auto
    then show "rbind (box_check bx ly) (\<lambda>_. rmap (\<lambda>bh. box_bit ly bx (bh ! side)) words) = Inr (map (\<lambda>bh. box_live ly (bh ! side) bx) words)"
      using assms(5) bx by (simp add: box_ok_def)
  qed
  then show ?thesis using wf_table_length [OF assms(1)] by (simp add: box_activity_def comp_def)
qed

end
