(* ===== verification/Rola_Liveness_Atoms.thy ===== *)
theory Rola_Liveness_Atoms
  imports Rola_Liveness_Fold
begin

text \<open>
  The page atom as a box: the spans the loop finds tile every level, the grid enumerates the atoms in
  page order, and the outer product over the levels is the bit of every atom at once.
\<close>

section \<open>Spans that tile\<close>

definition quotients :: "nat list \<Rightarrow> nat list \<Rightarrow> nat list" where
  "quotients ws spans = map2 (div) ws spans"

text \<open>Levels of one leaf each, one aligned run, then whole levels: \<open>n\<close> leaves in all.\<close>

definition tiles :: "nat list \<Rightarrow> nat list \<Rightarrow> nat \<Rightarrow> bool" where
  "tiles ws spans n \<longleftrightarrow> (\<exists>us w vs s. ws = us @ w # vs \<and> spans = replicate (length us) 1 @ s # vs \<and> s dvd w
     \<and> 0 < s \<and> s * prod_list vs = n)"

lemma spans_from_tiles:
  assumes "spans_from ws n = Inr spans" "1 < n"
  shows "\<exists>vs w us s. ws = vs @ w # us \<and> spans = vs @ s # replicate (length us) 1 \<and> s dvd w \<and> 0 < s \<and> s * prod_list vs = n"
  using assms
proof (induction ws n arbitrary: spans rule: spans_from.induct)
  case (2 w ws n)
  define s where "s = min w n"
  have s: "0 < s" "s dvd n" "s dvd w" using "2.prems" by (auto simp: s_def Let_def dvd_eq_mod_eq_0 split: if_splits)
  have sp: "spans_from (w # ws) n = (if n div s = 1 then Inr (s # replicate (length ws) 1)
      else rbind (spans_from ws (n div s)) (\<lambda>spans. Inr (s # spans)))"
    using s by (simp add: Let_def flip: s_def)
  have n: "n div s * s = n" using s(2) by simp
  show ?case
  proof (cases "n div s = 1")
    case True
    then have "s = n" "spans = s # replicate (length ws) 1" using "2.prems"(1) n unfolding sp by simp_all
    then show ?thesis using s
      by (intro exI [of _ "[]"] exI [of _ w] exI [of _ ws] exI [of _ s]) simp
  next
    case False
    then have "s \<noteq> n" using "2.prems"(2) by auto
    then have w: "s = w" by (simp add: s_def min_def split: if_splits)
    obtain rest where rest: "spans_from ws (n div s) = Inr rest" "spans = s # rest"
      using "2.prems"(1) False unfolding sp by (auto simp: res_simps)
    have "n div s \<noteq> 0" using n "2.prems"(2) by (metis mult_0 not_less_zero)
    then have "1 < n div s" using False by simp
    moreover have "s = min w n" "s \<noteq> 0" "\<not> (n mod s \<noteq> 0 \<or> w mod s \<noteq> 0)" "n div s \<noteq> 1"
      using s False by (auto simp: s_def dvd_eq_mod_eq_0)
    ultimately obtain vs v us t where "ws = vs @ v # us" "rest = vs @ t # replicate (length us) 1" "t dvd v" "0 < t"
      "t * prod_list vs = n div s"
      using "2.IH" rest(1) by blast
    then show ?thesis using rest(2) w s(2)
      by (intro exI [of _ "s # vs"] exI [of _ v] exI [of _ us] exI [of _ t]) (auto simp: mult.left_commute)
  qed
qed (auto split: if_splits)

lemma atom_spans_tiles:
  assumes "atom_spans ly = Inr spans"
  shows "tiles (ly_B ly) spans 16"
proof -
  obtain r where r: "spans_from (rev (ly_B ly)) 16 = Inr r" "spans = rev r"
    using assms by (auto simp: atom_spans_def ATOM_LEAVES_def res_simps)
  obtain vs w us s where t: "rev (ly_B ly) = vs @ w # us" "r = vs @ s # replicate (length us) 1" "s dvd w" "0 < s" "s * prod_list vs = 16"
    using spans_from_tiles [OF r(1)] by auto
  have "ly_B ly = rev us @ w # rev vs" using t(1) by (simp add: rev_swap)
  moreover have "prod_list (rev vs) = prod_list vs" by (induction vs) (simp_all add: ac_simps)
  ultimately show ?thesis unfolding tiles_def using t(2-5) r(2)
    by (intro exI [of _ "rev us"] exI [of _ w] exI [of _ "rev vs"] exI [of _ s]) (simp add: rev_replicate)
qed

lemma tiles_level:
  assumes "tiles ws spans n" "0 < n"
  shows "length spans = length ws" "l < length ws \<Longrightarrow> 0 < spans ! l" "l < length ws \<Longrightarrow> spans ! l dvd ws ! l"
proof -
  obtain us w vs s where t: "ws = us @ w # vs" "spans = replicate (length us) 1 @ s # vs" "s dvd w" "0 < s" "s * prod_list vs = n"
    using assms(1) unfolding tiles_def by blast
  have vs: "0 < v" if "v \<in> set vs" for v using t(5) assms(2) that by (metis gr0I mult_0_right not_less_zero prod_list_zero_iff)
  show "length spans = length ws" using t by simp
  show "0 < spans ! l" if "l < length ws" using that t vs by (auto simp: nth_append nth_Cons split: nat.splits)
  show "spans ! l dvd ws ! l" if "l < length ws" using that t by (auto simp: nth_append nth_Cons split: nat.splits)
qed

lemma tiles_prod: "tiles ws spans n \<Longrightarrow> 0 < n \<Longrightarrow> prod_list ws = prod_list (quotients ws spans) * n"
proof -
  assume "tiles ws spans n" "0 < n"
  then obtain us w vs s where t: "ws = us @ w # vs" "spans = replicate (length us) 1 @ s # vs" "s dvd w" "0 < s" "s * prod_list vs = n"
    unfolding tiles_def by blast
  have "0 \<notin> set vs" using t(5) \<open>0 < n\<close> by (metis mult_0_right not_less_zero prod_list_zero_iff)
  then have "prod_list (map2 (div) vs vs) = 1" by (induction vs) auto
  moreover have "prod_list (map2 (div) us (replicate (length us) 1)) = prod_list us" by (induction us) simp_all
  moreover have "w * prod_list vs = w div s * n" using t(3,5) by (metis dvd_div_mult_self mult.assoc)
  ultimately show ?thesis by (simp add: t(1,2) quotients_def)
qed

text \<open>The atom of a leaf is the leaf of the quotient digits.\<close>

lemma tiles_undigits:
  assumes "tiles ws spans n" "0 < n" "in_digits ws ds"
  shows "undigits ws ds div n = undigits (quotients ws spans) (map2 (div) ds spans)"
proof -
  obtain us w vs s where t: "ws = us @ w # vs" "spans = replicate (length us) 1 @ s # vs" "s dvd w" "0 < s" "s * prod_list vs = n"
    using assms(1) unfolding tiles_def by blast
  have one: "prod_list (map2 (div) vs vs) = 1"
  proof -
    have "0 \<notin> set vs" using t(5) assms(2) by (metis mult_0_right not_less_zero prod_list_zero_iff)
    then show ?thesis by (induction vs) auto
  qed
  have zero: "undigits (map2 (div) vs vs) (map2 (div) xs vs) = 0" if "in_digits vs xs" for xs
    using that by (induction vs arbitrary: xs) auto
  have "undigits (us @ w # vs) ds div n
      = undigits (map2 (div) us (replicate (length us) 1) @ w div s # map2 (div) vs vs) (map2 (div) ds (replicate (length us) 1 @ s # vs))"
    using assms(3)[unfolded t(1)]
  proof (induction us arbitrary: ds)
    case Nil
    then obtain d xs where ds: "ds = d # xs" "in_digits vs xs" by auto
    have "(d * prod_list vs + undigits vs xs) div n = (d * prod_list vs + undigits vs xs) div prod_list vs div s"
      using t(5) by (metis div_mult2_eq mult.commute)
    also have "\<dots> = d div s" using undigits_less [OF ds(2)] by simp
    finally show ?case using ds one zero by simp
  next
    case (Cons u us)
    then obtain d xs where ds: "ds = d # xs" "in_digits (us @ w # vs) xs" by auto
    have "prod_list (us @ w # vs) = prod_list (map2 (div) us (replicate (length us) 1) @ w div s # map2 (div) vs vs) * n"
    proof -
      have "prod_list (map2 (div) us (replicate (length us) 1)) = prod_list us" by (induction us) simp_all
      moreover have "w * prod_list vs = w div s * n" using t(3,5) by (metis dvd_div_mult_self mult.assoc)
      ultimately show ?thesis by (simp add: one)
    qed
    then show ?case using Cons.IH [OF ds(2)] assms(2) by (simp add: ds(1) mult.assoc [symmetric] del: prod_list.append)
  qed
  then show ?thesis by (simp add: t(1,2) quotients_def)
qed

lemma run_div_less: "d < w \<Longrightarrow> s dvd w \<Longrightarrow> 0 < s \<Longrightarrow> d div s < w div (s :: nat)"
  by (simp add: div_less_iff_less_mult)

lemma quotients_digits:
  assumes "tiles ws spans n" "0 < n" "in_digits ws ds"
  shows "in_digits (quotients ws spans) (map2 (div) ds spans)"
  using tiles_level [OF assms(1,2)] assms(3)
  by (auto simp: in_digits_def quotients_def list_all2_conv_all_nth intro!: run_div_less)


section \<open>The grid and the outer product\<close>

lemma digits_snoc: "digits (us @ [q]) (i * q + j) = digits us i @ [j]" if "j < q"
proof (induction us)
  case (Cons u us)
  have "(i * q + j) div q = i" using that by simp
  then have "(i * q + j) div (prod_list us * q) = i div prod_list us" by (metis div_mult2_eq mult.commute)
  then show ?case using Cons by simp
qed (use that in simp)

lemma digits_snoc_at: "0 < q \<Longrightarrow> digits (us @ [q]) a = digits us (a div q) @ [a mod q]"
  using digits_snoc [of "a mod q" q us "a div q"] by simp

text \<open>A nested comprehension of equal rows, by its index.\<close>

lemma nested_length: "(\<And>x. x \<in> set xs \<Longrightarrow> length (g x) = n) \<Longrightarrow> length (concat (map g xs)) = length xs * n"
  by (induction xs) auto

lemma nested_nth:
  assumes "\<And>x. x \<in> set xs \<Longrightarrow> length (g x) = n" "a < length xs * n"
  shows "concat (map g xs) ! a = g (xs ! (a div n)) ! (a mod n)"
proof -
  have n: "0 < n" using assms(2) by (cases n) auto
  have i: "a div n < length xs" using assms(2) by (simp add: less_mult_imp_div_less)
  have "concat (map g xs) ! (a div n * n + a mod n) = map g xs ! (a div n) ! (a mod n)"
    by (rule concat_const_nth) (use assms(1) i n in auto)
  then show ?thesis using i by simp
qed

lemma prod_snoc: "prod_list (xs @ [q]) = prod_list xs * (q :: nat)"
  by simp

lemma range_steps_dvd: "s dvd w \<Longrightarrow> 0 < s \<Longrightarrow> range_steps w s = map (\<lambda>j. j * s) [0..<w div s]"
proof -
  assume s: "s dvd w" "0 < s"
  then obtain k where "w = k * s" by (metis dvd_def mult.commute)
  then have "(w + s - 1) div s = w div s" using s(2)
    by (metis One_nat_def Suc_pred add_diff_assoc2 div_mult_self1 diff_less div_less less_eq_Suc_le add.commute add_diff_assoc nonzero_mult_div_cancel_right add.right_neutral neq0_conv zero_less_one)
  then show ?thesis by (simp add: range_steps_def)
qed

lemma start_grid_snoc:
  "length us = length ss \<Longrightarrow> start_grid (us @ [w]) (ss @ [s]) = concat (map (\<lambda>r. map (\<lambda>digit. r @ [digit]) (range_steps w s)) (start_grid us ss))"
  by (simp add: start_grid_def)

lemma start_grid_ok:
  assumes "length ws = length ss" "\<forall>l<length ws. 0 < ss ! l \<and> ss ! l dvd ws ! l"
  shows "length (start_grid ws ss) = prod_list (quotients ws ss)
    \<and> (\<forall>a<prod_list (quotients ws ss). start_grid ws ss ! a = map2 (*) (digits (quotients ws ss) a) ss)"
  using assms
proof (induction ws ss rule: rev_induct2)
  case (4 w us s ss)
  have len: "length us = length ss" using "4.prems"(1) by simp
  have pre: "\<forall>l<length us. 0 < ss ! l \<and> ss ! l dvd us ! l" "0 < s" "s dvd w"
  proof -
    have "0 < (ss @ [s]) ! l \<and> (ss @ [s]) ! l dvd (us @ [w]) ! l" if "l \<le> length us" for l using "4.prems"(2) that by simp
    note this [of "length us"] and at = this
    then show "0 < s" "s dvd w" using len by (simp_all add: nth_append)
    show "\<forall>l<length us. 0 < ss ! l \<and> ss ! l dvd us ! l"
    proof (intro allI impI)
      fix l assume "l < length us"
      then show "0 < ss ! l \<and> ss ! l dvd us ! l" using at [of l] len by (simp add: nth_append)
    qed
  qed
  note IH = "4.IH" [OF len pre(1)]
  have q: "quotients (us @ [w]) (ss @ [s]) = quotients us ss @ [w div s]" using len by (simp add: quotients_def)
  show ?case
  proof (intro conjI allI impI)
    show "length (start_grid (us @ [w]) (ss @ [s])) = prod_list (quotients (us @ [w]) (ss @ [s]))"
      unfolding start_grid_snoc [OF len] range_steps_dvd [OF pre(3,2)] by (subst nested_length [where n = "w div s"]) (simp_all add: q IH)
    fix a assume a: "a < prod_list (quotients (us @ [w]) (ss @ [s]))"
    then have pos: "0 < w div s" by (cases "w div s") (auto simp: q)
    have i: "a div (w div s) < prod_list (quotients us ss)" using a by (simp add: q less_mult_imp_div_less)
    show "start_grid (us @ [w]) (ss @ [s]) ! a = map2 (*) (digits (quotients (us @ [w]) (ss @ [s])) a) (ss @ [s])"
      unfolding start_grid_snoc [OF len] range_steps_dvd [OF pre(3,2)]
      using a pos i len IH by (subst nested_nth [where n = "w div s"]) (simp_all add: q digits_snoc_at quotients_def)
  qed
qed (simp_all add: start_grid_def quotients_def)


section \<open>The bit of an atom\<close>

text \<open>A level of a table, over a run: some digit of it carries the token.\<close>

definition run_says :: "layout \<Rightarrow> 32 word list list \<Rightarrow> nat \<Rightarrow> nat \<Rightarrow> nat \<Rightarrow> nat \<Rightarrow> bool" where
  "run_says ly rows t level sp j = (\<exists>d < sp. says ly rows t level (j * sp + d))"

lemma level_runs_ok:
  assumes "j < ly_B ly ! level div sp" "t < ly_L ly" "0 < sp" "sp dvd ly_B ly ! level" "level < length (ly_B ly)"
    and bits: "\<And>r. r < layout_rows ly \<Longrightarrow> bits ! r = map (row_bit (rows ! r)) [0..<ly_L ly]"
  shows "level_runs ly level sp bits ! j ! t = run_says ly rows t level sp j"
proof -
  have row: "row_base ly level + j * sp + d < layout_rows ly" if "d < sp" for d
  proof -
    have "j * sp + d < ly_B ly ! level" using mult_add_less [OF assms(1) that] assms(4) by simp
    then show ?thesis using row_in_layout [OF assms(5)] by (simp add: add.assoc)
  qed
  have "level_runs ly level sp bits ! j ! t = (\<exists>d < sp. bits ! (row_base ly level + j * sp + d) ! t)"
    using assms(1,2) by (auto simp: level_runs_def list_ex_iff)
  also have "\<dots> = run_says ly rows t level sp j"
    using bits row assms(2) by (auto simp: run_says_def says_def add.assoc)
  finally show ?thesis .
qed

lemma outer_and_nth:
  assumes "a < length c * length r" "\<And>x. x \<in> set c \<Longrightarrow> length x = L" "\<And>x. x \<in> set r \<Longrightarrow> length x = L" "t < L"
  shows "length (outer_and c r) = length c * length r" "length (outer_and c r ! a) = L"
    "outer_and c r ! a ! t = (c ! (a div length r) ! t \<and> r ! (a mod length r) ! t)"
proof -
  have pos: "0 < length r" using assms(1) by (cases "length r") auto
  have i: "a div length r < length c" "a mod length r < length r" using assms(1) pos by (simp_all add: less_mult_imp_div_less)
  have lens: "length (c ! (a div length r)) = L" "length (r ! (a mod length r)) = L" using i assms(2,3) by simp_all
  have at: "outer_and c r ! a = map2 (\<and>) (c ! (a div length r)) (r ! (a mod length r))"
    unfolding outer_and_def using assms(1) i by (subst nested_nth [where n = "length r"]) simp_all
  show "length (outer_and c r) = length c * length r" by (simp add: outer_and_def nested_length [where n = "length r"])
  show "length (outer_and c r ! a) = L" "outer_and c r ! a ! t = (c ! (a div length r) ! t \<and> r ! (a mod length r) ! t)"
    using lens assms(4) by (simp_all add: at)
qed

lemma length_level_runs: "length (level_runs ly level sp bits) = ly_B ly ! level div sp"
  "x \<in> set (level_runs ly level sp bits) \<Longrightarrow> length x = ly_L ly"
  by (auto simp: level_runs_def)

text \<open>The clause after the first \<open>k\<close> levels.\<close>

definition clause_ok :: "layout \<Rightarrow> 32 word list list \<Rightarrow> nat list \<Rightarrow> nat \<Rightarrow> bool list list \<Rightarrow> bool" where
  "clause_ok ly rows spans k c \<longleftrightarrow> length c = prod_list (take k (quotients (ly_B ly) spans)) \<and> (\<forall>x\<in>set c. length x = ly_L ly)
     \<and> (\<forall>a<length c. \<forall>t<ly_L ly. c ! a ! t =
          (\<forall>l<k. run_says ly rows t l (spans ! l) (digits (take k (quotients (ly_B ly) spans)) a ! l)))"

lemma clause_step:
  assumes tl: "\<forall>l<length (ly_B ly). 0 < spans ! l \<and> spans ! l dvd ly_B ly ! l" "length spans = length (ly_B ly)"
    and k: "k < length (ly_B ly)" and c: "clause_ok ly rows spans k c"
    and bits: "\<And>r. r < layout_rows ly \<Longrightarrow> bits ! r = map (row_bit (rows ! r)) [0..<ly_L ly]"
  shows "clause_ok ly rows spans (Suc k) (outer_and c (level_runs ly k (spans ! k) bits))"
proof -
  let ?qs = "quotients (ly_B ly) spans" and ?r = "level_runs ly k (spans ! k) bits"
  have q: "take (Suc k) ?qs = take k ?qs @ [ly_B ly ! k div spans ! k]"
    using k tl(2) by (simp add: quotients_def take_Suc_conv_app_nth)
  have len: "length (take k ?qs) = k" using k tl(2) by (simp add: quotients_def)
  have c': "length c = prod_list (take k ?qs)" "\<And>x. x \<in> set c \<Longrightarrow> length x = ly_L ly"
    "\<And>a t. a < length c \<Longrightarrow> t < ly_L ly \<Longrightarrow> c ! a ! t = (\<forall>l<k. run_says ly rows t l (spans ! l) (digits (take k ?qs) a ! l))"
    using c by (simp_all add: clause_ok_def)
  have L: "length (outer_and c ?r) = length c * length ?r" by (simp add: outer_and_def nested_length [where n = "length ?r"])
  have row: "length x = ly_L ly" if "x \<in> set (outer_and c ?r)" for x
    using that c'(2) length_level_runs(2) by (fastforce simp: outer_and_def)
  have bit: "outer_and c ?r ! a ! t = (\<forall>l<Suc k. run_says ly rows t l (spans ! l) (digits (take (Suc k) ?qs) a ! l))"
    if a: "a < length c * length ?r" and t: "t < ly_L ly" for a t
  proof -
    let ?q = "ly_B ly ! k div spans ! k"
    have lr: "length ?r = ?q" by (rule length_level_runs(1))
    have pos: "0 < ?q" using a lr by (cases ?q) auto
    have i: "a div ?q < length c" "a mod ?q < ?q" using a pos lr by (simp_all add: less_mult_imp_div_less)
    have "outer_and c ?r ! a ! t = (c ! (a div ?q) ! t \<and> ?r ! (a mod ?q) ! t)"
      using outer_and_nth(3) [OF a c'(2) length_level_runs(2) t] lr by simp
    also have "?r ! (a mod ?q) ! t = run_says ly rows t k (spans ! k) (a mod ?q)"
      using tl(1) k by (intro level_runs_ok [OF i(2) t _ _ k bits]) auto
    also have "c ! (a div ?q) ! t = (\<forall>l<k. run_says ly rows t l (spans ! l) (digits (take k ?qs) (a div ?q) ! l))" by (rule c'(3) [OF i(1) t])
    also have "(\<dots> \<and> run_says ly rows t k (spans ! k) (a mod ?q))
        = (\<forall>l<Suc k. run_says ly rows t l (spans ! l) (digits (take (Suc k) ?qs) a ! l))"
      unfolding q digits_snoc_at [OF pos] using len by (auto simp: nth_append less_Suc_eq)
    finally show ?thesis .
  qed
  show ?thesis unfolding clause_ok_def using L row bit c'(1) length_level_runs(1) by (simp add: q)
qed


lemma clause_first:
  assumes tl: "\<forall>l<length (ly_B ly). 0 < spans ! l \<and> spans ! l dvd ly_B ly ! l" "length spans = length (ly_B ly)" "0 < length (ly_B ly)"
    and bits: "\<And>r. r < layout_rows ly \<Longrightarrow> bits ! r = map (row_bit (rows ! r)) [0..<ly_L ly]"
  shows "clause_ok ly rows spans 1 (level_runs ly 0 (spans ! 0) bits)"
proof -
  let ?q = "ly_B ly ! 0 div spans ! 0"
  have q: "take (Suc 0) (quotients (ly_B ly) spans) = [?q]"
    using tl(2,3) by (cases "ly_B ly"; cases spans) (simp_all add: quotients_def)
  have "level_runs ly 0 (spans ! 0) bits ! a ! t = run_says ly rows t 0 (spans ! 0) a" if "a < ?q" "t < ly_L ly" for a t
    using tl(1,3) by (intro level_runs_ok [OF that _ _ _ bits]) auto
  then show ?thesis using length_level_runs by (auto simp: clause_ok_def q)
qed

lemma atom_clause_ok:
  assumes tl: "\<forall>l<length (ly_B ly). 0 < spans ! l \<and> spans ! l dvd ly_B ly ! l" "length spans = length (ly_B ly)" "0 < length (ly_B ly)"
    and bits: "\<And>r. r < layout_rows ly \<Longrightarrow> bits ! r = map (row_bit (rows ! r)) [0..<ly_L ly]"
  shows "\<exists>c. atom_clause ly bits (enumerate 0 spans) None = Some c \<and> clause_ok ly rows spans (length (ly_B ly)) c"
proof -
  have run: "\<exists>c'. atom_clause ly bits (drop k (enumerate 0 spans)) (Some c) = Some c' \<and> clause_ok ly rows spans (length (ly_B ly)) c'"
    if "clause_ok ly rows spans k c" "k \<le> length (ly_B ly)" for k c
    using that
  proof (induction "length (ly_B ly) - k" arbitrary: k c)
    case 0
    then show ?case using tl(2) by simp
  next
    case (Suc n)
    then have k: "k < length (ly_B ly)" "n = length (ly_B ly) - Suc k" by simp_all
    then have "drop k (enumerate 0 spans) = (k, spans ! k) # drop (Suc k) (enumerate 0 spans)"
      using tl(2) by (subst Cons_nth_drop_Suc [symmetric]) (simp_all add: nth_enumerate_eq)
    then show ?case
      using Suc.hyps(1) [OF k(2) clause_step [OF tl(1,2) k(1) Suc.prems(1) bits]] k(1) by simp
  qed
  have "enumerate 0 spans = (0, spans ! 0) # drop 1 (enumerate 0 spans)"
    using tl(2,3) by (cases spans) simp_all
  then have "atom_clause ly bits (enumerate 0 spans) None = atom_clause ly bits (drop 1 (enumerate 0 spans)) (Some (level_runs ly 0 (spans ! 0) bits))"
    by (metis (no_types, lifting) atom_clause.simps(2) option.simps(4))
  then show ?thesis using run [OF clause_first [OF tl bits]] tl(3) by simp
qed

text \<open>A token's live leaves are the product of its live digits; an atom is live when one of its leaves is.\<close>

definition leaf_says :: "layout \<Rightarrow> 32 word list list \<Rightarrow> nat \<Rightarrow> nat \<Rightarrow> bool" where
  "leaf_says ly rows t leaf = (\<forall>level<ly_D ly. says ly rows t level (leaf_digit (ly_B ly) level leaf))"

definition atom_live :: "layout \<Rightarrow> 32 word list list \<Rightarrow> nat \<Rightarrow> bool" where
  "atom_live ly rows a = (\<exists>t<ly_L ly. \<exists>leaf<prod_list (ly_B ly). leaf div 16 = a \<and> leaf_says ly rows t leaf)"

lemma atom_leaves:
  assumes tl: "tiles ws spans n" "0 < n" and a: "a < prod_list (quotients ws spans)"
  shows "(\<forall>l<length ws. \<exists>d < spans ! l. P l (digits (quotients ws spans) a ! l * spans ! l + d))
    = (\<exists>leaf<prod_list ws. leaf div n = a \<and> (\<forall>l<length ws. P l (leaf_digit ws l leaf)))" (is "?l = ?r")
proof
  let ?qs = "quotients ws spans"
  note lv = tiles_level [OF tl]
  have lq: "length ?qs = length ws" using lv(1) by (simp add: quotients_def)
  have qpos: "\<forall>q\<in>set ?qs. 0 < q" using a by (metis gr0I not_less_zero prod_list_zero_iff)
  have dq: "digits ?qs a ! l < ws ! l div spans ! l" if "l < length ws" for l
    using in_digits_digits [OF qpos, of a] that lq lv(1) by (auto simp: in_digits_def list_all2_conv_all_nth quotients_def)
  {
    assume ?l
    then obtain f where f: "\<And>l. l < length ws \<Longrightarrow> f l < spans ! l \<and> P l (digits ?qs a ! l * spans ! l + f l)" by metis
    define ds where "ds = map (\<lambda>l. digits ?qs a ! l * spans ! l + f l) [0..<length ws]"
    have ds: "in_digits ws ds"
      using f dq lv(3) by (auto simp: in_digits_def list_all2_conv_all_nth ds_def) (metis dvd_div_mult_self mult_add_less)
    have "map2 (div) ds spans = digits ?qs a"
    proof (rule nth_equalityI)
      fix l assume "l < length (map2 (div) ds spans)"
      then have l: "l < length ws" by (simp add: ds_def)
      then show "map2 (div) ds spans ! l = digits ?qs a ! l" using f [OF l] lv(1) lv(2) [OF l] by (simp add: ds_def)
    qed (simp add: ds_def lq lv(1))
    then have "undigits ws ds div n = a" using tiles_undigits [OF tl ds] undigits_digits_id [OF a] by simp
    moreover have "P l (leaf_digit ws l (undigits ws ds))" if "l < length ws" for l
      using nth_digits [OF that, of "undigits ws ds"] digits_undigits [OF ds] f [OF that] that by (simp add: ds_def)
    ultimately show ?r using undigits_less [OF ds] by blast
  }
  assume ?r
  then obtain leaf where leaf: "leaf < prod_list ws" "leaf div n = a" "\<And>l. l < length ws \<Longrightarrow> P l (leaf_digit ws l leaf)" by blast
  have "\<forall>w\<in>set ws. 0 < w" using leaf(1) by (metis gr0I not_less_zero prod_list_zero_iff)
  then have ds: "in_digits ws (digits ws leaf)" by (rule in_digits_digits)
  have "a = undigits ?qs (map2 (div) (digits ws leaf) spans)" using tiles_undigits [OF tl ds] leaf(1,2) by simp
  then have da: "digits ?qs a = map2 (div) (digits ws leaf) spans" using digits_undigits [OF quotients_digits [OF tl ds]] by simp
  show ?l
  proof (intro allI impI)
    fix l assume l: "l < length ws"
    have "digits ?qs a ! l = leaf_digit ws l leaf div spans ! l" using lv(1) nth_digits [OF l, of leaf] l by (simp add: da)
    then have "digits ?qs a ! l * spans ! l + leaf_digit ws l leaf mod spans ! l = leaf_digit ws l leaf"
      by (simp only: div_mult_mod_eq)
    then show "\<exists>d < spans ! l. P l (digits ?qs a ! l * spans ! l + d)" using leaf(3) [OF l] lv(2) [OF l]
      by (intro exI [of _ "leaf_digit ws l leaf mod spans ! l"]) simp
  qed
qed

lemma atom_runs:
  assumes sp: "atom_spans ly = Inr spans" and B: "length (ly_B ly) = ly_D ly" and a: "a < layout_atoms ly"
  shows "(\<exists>t<ly_L ly. \<forall>l<ly_D ly. run_says ly rows t l (spans ! l) (digits (quotients (ly_B ly) spans) a ! l)) = atom_live ly rows a"
proof -
  have tl: "tiles (ly_B ly) spans 16" by (rule atom_spans_tiles [OF sp])
  have "layout_atoms ly = prod_list (quotients (ly_B ly) spans)"
    using tiles_prod [OF tl] by (simp add: layout_atoms_def layout_N_def fold_mult ATOM_LEAVES_def)
  then show ?thesis
    using atom_leaves [OF tl _ , of a "says ly rows t" for t] a B by (simp add: run_says_def atom_live_def leaf_says_def) 
qed

lemma atom_count:
  assumes "atom_spans ly = Inr spans"
  shows "layout_atoms ly = prod_list (quotients (ly_B ly) spans)" "0 < length (ly_B ly)" "layout_N ly = layout_atoms ly * 16"
proof -
  have tl: "tiles (ly_B ly) spans 16" by (rule atom_spans_tiles [OF assms])
  show "layout_atoms ly = prod_list (quotients (ly_B ly) spans)" "layout_N ly = layout_atoms ly * 16"
    using tiles_prod [OF tl] by (simp_all add: layout_atoms_def layout_N_def fold_mult ATOM_LEAVES_def)
  show "0 < length (ly_B ly)" using tl by (auto simp: tiles_def)
qed

lemma atom_activity_ok:
  assumes "wf_table ly BH words" "length (ly_B ly) = ly_D ly" "atom_spans ly = Inr spans" "side < SIDES"
  shows "atom_activity words ly side = Inr (map (\<lambda>bh. map (atom_live ly (words ! bh ! side)) [0..<layout_atoms ly]) [0..<BH])"
proof -
  have tl: "tiles (ly_B ly) spans 16" by (rule atom_spans_tiles [OF assms(3)])
  have lv: "\<forall>l<length (ly_B ly). 0 < spans ! l \<and> spans ! l dvd ly_B ly ! l" "length spans = length (ly_B ly)"
    using tiles_level [OF tl] by simp_all
  have row: "(case atom_clause ly (unpack_words ly words ! bh ! side) (enumerate 0 spans) None of
           None \<Rightarrow> Inl (TypeError ''NoneType has no any'') | Some c \<Rightarrow> Inr (map (list_ex (\<lambda>b. b)) c))
      = Inr (map (atom_live ly (words ! bh ! side)) [0..<layout_atoms ly])" if bh: "bh < BH" for bh
  proof -
    obtain c where c: "atom_clause ly (unpack_words ly words ! bh ! side) (enumerate 0 spans) None = Some c"
      "clause_ok ly (words ! bh ! side) spans (length (ly_B ly)) c"
      using atom_clause_ok [OF lv atom_count(2) [OF assms(3)] unpack_words_bits [OF assms(1) bh assms(4)]] by blast
    have len: "length c = layout_atoms ly" and rows: "\<And>x. x \<in> set c \<Longrightarrow> length x = ly_L ly"
      and bit: "\<And>a t. a < length c \<Longrightarrow> t < ly_L ly \<Longrightarrow> c ! a ! t =
        (\<forall>l<ly_D ly. run_says ly (words ! bh ! side) t l (spans ! l) (digits (quotients (ly_B ly) spans) a ! l))"
      using c(2) lv(2) assms(2) by (simp_all add: clause_ok_def atom_count(1) [OF assms(3)] quotients_def)
    have "list_ex (\<lambda>b. b) (c ! a) = atom_live ly (words ! bh ! side) a" if a: "a < length c" for a
      using atom_runs [OF assms(3,2) a [unfolded len], of "words ! bh ! side"] bit [OF a] rows [OF nth_mem [OF a]]
      by (simp add: list_ex_length) (metis (no_types, lifting))
    then have "map (list_ex (\<lambda>b. b)) c = map (atom_live ly (words ! bh ! side)) [0..<layout_atoms ly]"
      using len by (intro nth_equalityI) simp_all
    then show ?thesis using c(1) by simp
  qed
  have "length (unpack_words ly words) = BH" using assms(1) by (simp add: unpack_words_def wf_table_def)
  then show ?thesis using row by (simp add: atom_activity_def assms(3) rmap_Inr list_all2_conv_all_nth)
qed

end
