(* ===== verification/Rola_Liveness_Pages.thy ===== *)
theory Rola_Liveness_Pages
  imports Rola_Liveness_Atoms
begin

text \<open>
  The byte per page: the pages of a box, the OR over the boxes, the atoms as boxes, and the page bits
  as the kernel entry's growth bitmap.
\<close>

section \<open>The leaves of a box\<close>

definition in_runs :: "int list \<Rightarrow> int list \<Rightarrow> nat list \<Rightarrow> bool" where
  "in_runs starts spans ds = list_all2 (\<lambda>(a, s) d. a \<le> int d \<and> int d < a + s) (zip starts spans) ds"

lemma in_runs_Cons: "in_runs (a # starts) (s # spans) ds = (\<exists>d ds'. ds = d # ds' \<and> a \<le> int d \<and> int d < a + s \<and> in_runs starts spans ds')"
  by (auto simp: in_runs_def list_all2_Cons1)

lemma leaves_step: "y \<in> set (concat (map (\<lambda>leaf. map (\<lambda>digit. leaf + digit * c) [a..b - 1]) leaves))
   = (\<exists>x digit. x \<in> set leaves \<and> a \<le> digit \<and> digit < (b :: int) \<and> y = x + digit * c)"
proof -
  have "y \<in> set (map (\<lambda>digit. x + digit * c) [a..b - 1]) = (\<exists>digit. a \<le> digit \<and> digit < b \<and> y = x + digit * c)" for x
    unfolding set_map image_iff by auto
  then have row: "\<And>x. y \<in> set (map (\<lambda>digit. x + digit * c) [a..b - 1]) = (\<exists>digit. a \<le> digit \<and> digit < b \<and> y = x + digit * c)" .
  show ?thesis by (induction leaves) (simp, simp only: list.map concat.simps set_append Un_iff row list.set insert_iff, blast)
qed

lemma fold_leaves:
  assumes "length starts = length ws" "length spans = length ws" "\<forall>a\<in>set starts. 0 \<le> a"
  shows "y \<in> set (fold (\<lambda>(stride, start, sp) leaves. concat (map (\<lambda>leaf. map (\<lambda>digit. leaf + digit * int stride) [start..start + sp - 1]) leaves))
      (zip (suffix_products ws) (zip starts spans)) leaves)
    = (\<exists>x ds. x \<in> set leaves \<and> in_runs starts spans ds \<and> y = x + int (undigits ws ds))"
  using assms
proof (induction ws arbitrary: starts spans leaves)
  case (Cons w ws)
  obtain a starts' where st: "starts = a # starts'" using Cons.prems(1) by (cases starts) auto
  obtain s spans' where sp: "spans = s # spans'" using Cons.prems(2) by (cases spans) auto
  have a: "0 \<le> a" and tl: "length starts' = length ws" "length spans' = length ws" "\<forall>a\<in>set starts'. 0 \<le> a"
    using Cons.prems st sp by simp_all
  let ?leaves = "concat (map (\<lambda>leaf. map (\<lambda>digit. leaf + digit * int (prod_list ws)) [a..a + s - 1]) leaves)"
  have "y \<in> set (fold (\<lambda>(stride, start, sp) leaves. concat (map (\<lambda>leaf. map (\<lambda>digit. leaf + digit * int stride) [start..start + sp - 1]) leaves))
      (zip (suffix_products (w # ws)) (zip starts spans)) leaves)
    = (\<exists>x ds. x \<in> set ?leaves \<and> in_runs starts' spans' ds \<and> y = x + int (undigits ws ds))"
    by (simp add: st sp Cons.IH [OF tl] del: set_concat)
  also have "\<dots> = (\<exists>x ds. x \<in> set leaves \<and> in_runs starts spans ds \<and> y = x + int (undigits (w # ws) ds))" (is "?L = ?R")
  proof
    assume ?L
    then obtain x digit ds where y: "x \<in> set leaves" "a \<le> digit" "digit < a + s" "in_runs starts' spans' ds"
      "y = x + digit * int (prod_list ws) + int (undigits ws ds)" unfolding leaves_step by blast
    then have "in_runs starts spans (nat digit # ds)" "y = x + int (undigits (w # ws) (nat digit # ds))"
      using a by (simp_all add: st sp in_runs_Cons)
    then show ?R using y(1) by blast
  next
    assume ?R
    then obtain x d ds where y: "x \<in> set leaves" "a \<le> int d" "int d < a + s" "in_runs starts' spans' ds"
      "y = x + int (undigits (w # ws) (d # ds))" unfolding st sp in_runs_Cons by blast
    then have "y = (x + int d * int (prod_list ws)) + int (undigits ws ds)" by simp
    then show ?L using y(1-4) unfolding leaves_step by blast
  qed
  finally show ?case .
qed (simp add: in_runs_def)

text \<open>The leaves of a box, by their digits.\<close>

definition in_box :: "layout \<Rightarrow> digit_box \<Rightarrow> nat \<Rightarrow> bool" where
  "in_box ly bx leaf \<longleftrightarrow> leaf < prod_list (ly_B ly) \<and> (\<forall>level<ly_D ly. in_run bx level (leaf_digit (ly_B ly) level leaf))"

lemma in_runs_box:
  assumes "length starts = n" "length spans = n"
  shows "in_runs starts spans ds = (length ds = n \<and> (\<forall>l<n. starts ! l \<le> int (ds ! l) \<and> int (ds ! l) < starts ! l + spans ! l))"
  using assms by (auto simp: in_runs_def list_all2_conv_all_nth)

lemma box_leaves_ok:
  assumes "box_ok ly bx" "length (ly_B ly) = ly_D ly"
  shows "\<exists>leaves. box_leaves bx ly = Inr leaves \<and> set leaves = {int leaf | leaf. in_box ly bx leaf}"
proof -
  let ?ws = "ly_B ly" and ?a = "bx_start bx" and ?s = "bx_span bx"
  note r = box_ok_run [OF assms]
  have runs: "in_runs ?a ?s ds = (length ds = length ?ws \<and> (\<forall>l<ly_D ly. in_run bx l (ds ! l)))" for ds
    using in_runs_box [OF r(1,2)] assms(2) by (simp add: in_run_def)
  have eq: "(\<exists>ds. in_runs ?a ?s ds \<and> y = int (undigits ?ws ds)) = (\<exists>leaf. y = int leaf \<and> in_box ly bx leaf)" for y
  proof
    assume "\<exists>ds. in_runs ?a ?s ds \<and> y = int (undigits ?ws ds)"
    then obtain ds where y: "y = int (undigits ?ws ds)" "length ds = length ?ws" "\<And>l. l < ly_D ly \<Longrightarrow> in_run bx l (ds ! l)"
      unfolding runs by blast
    have "ds ! l < ?ws ! l" if "l < ly_D ly" for l using y(3) [OF that] r(3) [OF that] by (simp add: in_run_def)
    then have ds: "in_digits ?ws ds" using y(2) assms(2) by (simp add: in_digits_def list_all2_conv_all_nth)
    then have "in_box ly bx (undigits ?ws ds)"
      using undigits_less [OF ds] y(3) digits_undigits [OF ds] nth_digits [of _ ?ws "undigits ?ws ds"] assms(2) by (simp add: in_box_def)
    then show "\<exists>leaf. y = int leaf \<and> in_box ly bx leaf" using y(1) by blast
  next
    assume "\<exists>leaf. y = int leaf \<and> in_box ly bx leaf"
    then obtain leaf where y: "y = int leaf" "in_box ly bx leaf" by blast
    then have "in_runs ?a ?s (digits ?ws leaf)" unfolding runs using nth_digits [of _ ?ws leaf] assms(2) by (simp add: in_box_def)
    then show "\<exists>ds. in_runs ?a ?s ds \<and> y = int (undigits ?ws ds)" using y by (intro exI [of _ "digits ?ws leaf"]) (simp add: in_box_def)
  qed
  have nn: "\<forall>a\<in>set ?a. 0 \<le> a" using assms(1) by (simp add: box_ok_def)
  define leaves where "leaves = fold (\<lambda>(stride, start, sp) leaves. concat (map (\<lambda>leaf. map (\<lambda>digit. leaf + digit * int stride) [start..start + sp - 1]) leaves))
      (zip (suffix_products ?ws) (zip ?a ?s)) [0]"
  have "y \<in> set leaves = (\<exists>leaf. y = int leaf \<and> in_box ly bx leaf)" for y
    unfolding leaves_def using fold_leaves [of ?a ?ws ?s y "[0]"] r(1,2) assms(2) nn eq [of y] by simp
  then have "set leaves = {int leaf | leaf. in_box ly bx leaf}" by blast
  moreover have "box_leaves bx ly = Inr leaves"
    using assms(1) by (simp add: box_leaves_def box_ok_def layout_radix_strides_suffix leaves_def)
  ultimately show ?thesis by blast
qed

lemma distinct_remdups_adj_sorted: "sorted xs \<Longrightarrow> distinct (remdups_adj xs)"
proof (induction xs rule: remdups_adj.induct)
  case (3 x y xs)
  show ?case
  proof (cases "x = y")
    case False
    then have "x < y" "\<forall>z\<in>set xs. y \<le> z" using "3.prems" by auto
    then have "x \<notin> set (y # xs)" using leD by fastforce
    then show ?thesis using 3 False by simp
  qed (use 3 in simp)
qed simp_all

lemma box_pages_ok:
  assumes "box_ok ly bx" "length (ly_B ly) = ly_D ly"
  shows "\<exists>pages. box_pages bx ly = Inr pages \<and> distinct pages \<and> set pages = {int (leaf div 16) | leaf. in_box ly bx leaf}"
proof -
  obtain leaves where l: "box_leaves bx ly = Inr leaves" "set leaves = {int leaf | leaf. in_box ly bx leaf}" using box_leaves_ok [OF assms] by blast
  have "set (map (\<lambda>leaf. leaf div int ATOM_LEAVES) leaves) = {int (leaf div 16) | leaf. in_box ly bx leaf}"
    unfolding set_map l(2) by (auto simp: ATOM_LEAVES_def zdiv_int)
  then show ?thesis using l(1) by (simp add: box_pages_def distinct_remdups_adj_sorted)
qed

section \<open>Marking\<close>

lemma mark_pages_ok:
  assumes "distinct pages" "\<forall>p\<in>set pages. 0 \<le> p \<and> p < int (length row)"
  shows "\<exists>row'. mark_pages pages flag hit row = Inr row' \<and> length row' = length row
    \<and> (\<forall>a<length row. row' ! a = (row ! a) OR (if hit \<and> int a \<in> set pages then flag else 0))"
proof -
  let ?x = "if hit then flag else 0 :: 8 word"
  define ps where "ps = map (\<lambda>p. (nat p, (row ! nat p) OR ?x)) pages"
  have old: "rmap (\<lambda>i. py_index row i) pages = Inr (map (\<lambda>p. row ! nat p) pages)" using assms(2) by (intro rmap_all) (auto simp: py_index_ok)
  have fold_eq: "fold (\<lambda>(i, b) r. r[nat (i mod int (length row)) := b OR ?x]) (zip pages (map (\<lambda>p. row ! nat p) pages)) r
      = fold (\<lambda>(i, x) r. r[i := x]) ps r" for r
    unfolding ps_def using assms(2) by (induction pages arbitrary: r) auto
  have fsts: "map fst ps = map nat pages" by (simp add: ps_def comp_def)
  have "inj_on nat (set pages)" using assms(2) by (simp add: inj_on_def eq_nat_nat_iff)
  then have dist: "distinct (map fst ps)" using assms(1) by (simp add: fsts distinct_map)
  have nth: "fold (\<lambda>(i, x) r. r[i := x]) ps row ! a = (row ! a) OR (if hit \<and> int a \<in> set pages then flag else 0)" if a: "a < length row" for a
  proof (cases "int a \<in> set pages")
    case True
    then obtain k where k: "k < length ps" "ps ! k = (a, (row ! a) OR ?x)" by (auto simp: ps_def in_set_conv_nth)
    then show ?thesis using fold_update_nth [OF dist k(1), of row] a True by auto
  next
    case False
    then have "a \<notin> set (map fst ps)" using assms(2) by (auto simp: fsts)
    then show ?thesis using fold_update_other [of a ps row] False by simp
  qed
  show ?thesis unfolding mark_pages_def old using nth by (simp add: fold_eq)
qed

lemma or_flags: "(x OR (if p then f else 0)) OR (if q then f else 0) = x OR (if p \<or> q then f else (0 :: 8 word))"
  by (simp add: or.assoc)

definition page_of_box :: "layout \<Rightarrow> digit_box \<Rightarrow> nat \<Rightarrow> bool" where
  "page_of_box ly bx a = (\<exists>leaf. in_box ly bx leaf \<and> leaf div 16 = a)"

lemma mark_boxes_ok:
  assumes "\<forall>(bx, hit)\<in>set bs. box_ok ly bx" "length (ly_B ly) = ly_D ly" "layout_N ly = 16 * length row"
  shows "\<exists>row'. mark_boxes ly flag bs row = Inr row' \<and> length row' = length row
    \<and> (\<forall>a<length row. row' ! a = (row ! a) OR (if \<exists>(bx, hit)\<in>set bs. hit \<and> page_of_box ly bx a then flag else 0))"
  using assms(1,3)
proof (induction bs arbitrary: row)
  case (Cons b bs)
  obtain bx hit where b: "b = (bx, hit)" by (cases b)
  have ok: "box_ok ly bx" using Cons.prems(1) b by simp
  obtain pages where p: "box_pages bx ly = Inr pages" "distinct pages" "set pages = {int (leaf div 16) | leaf. in_box ly bx leaf}"
    using box_pages_ok [OF ok assms(2)] by blast
  have "\<forall>p\<in>set pages. 0 \<le> p \<and> p < int (length row)"
  proof -
    have "prod_list (ly_B ly) = length row * 16" using Cons.prems(2) fold_mult [of "ly_B ly" 1] by (simp add: layout_N_def)
    then show ?thesis by (auto simp: p(3) in_box_def less_mult_imp_div_less)
  qed
  from mark_pages_ok [OF p(2) this] obtain r where r: "mark_pages pages flag hit row = Inr r" "length r = length row"
    "\<And>a. a < length row \<Longrightarrow> r ! a = (row ! a) OR (if hit \<and> int a \<in> set pages then flag else 0)" by blast
  have pg: "(int a \<in> set pages) = page_of_box ly bx a" for a by (auto simp: p(3) page_of_box_def)
  have "\<forall>(bx, hit)\<in>set bs. box_ok ly bx" "layout_N ly = 16 * length r" using Cons.prems r(2) by auto
  from Cons.IH [OF this] obtain r' where r': "mark_boxes ly flag bs r = Inr r'" "length r' = length r"
    "\<And>a. a < length r \<Longrightarrow> r' ! a = (r ! a) OR (if \<exists>(bx, hit)\<in>set bs. hit \<and> page_of_box ly bx a then flag else 0)" by blast
  have "r' ! a = (row ! a) OR (if \<exists>(bx, hit)\<in>set (b # bs). hit \<and> page_of_box ly bx a then flag else 0)" if "a < length row" for a
    using r'(3) [of a] r(2,3) that by (simp add: pg or_flags b)
  then show ?case using p(1) r(1,2) r'(1,2) by (simp add: b)
qed simp


section \<open>The byte of a page\<close>

lemma side_row_at:
  assumes "BH = length bits" "bh < BH" "length (bits ! bh) = length boxes"
  shows "\<exists>row. side_row boxes bits BH bh = Inr row \<and> zip boxes row = zip boxes (bits ! bh)"
  using assms by (cases "boxes = []") (auto simp: side_row_def Let_def)

lemma page_activity_ok:
  assumes r: "\<forall>bx\<in>set rboxes. box_ok ly bx" and w: "\<forall>bx\<in>set wboxes. box_ok ly bx" and B: "length (ly_B ly) = ly_D ly"
    and rb: "length rbits = BH" "\<forall>row\<in>set rbits. length row = length rboxes" and wb: "length wbits = BH" "\<forall>row\<in>set wbits. length row = length wboxes"
    and N: "layout_N ly = 16 * layout_atoms ly"
  shows "\<exists>bytes. page_activity ly rboxes rbits wboxes wbits = Inr bytes \<and> length bytes = BH \<and> (\<forall>bh<BH. length (bytes ! bh) = layout_atoms ly
    \<and> (\<forall>a<layout_atoms ly. bytes ! bh ! a =
        (if \<exists>(bx, hit)\<in>set (zip rboxes (rbits ! bh)). hit \<and> page_of_box ly bx a then ATOM_READ else 0)
        OR (if \<exists>(bx, hit)\<in>set (zip wboxes (wbits ! bh)). hit \<and> page_of_box ly bx a then ATOM_WRITTEN else 0)))"
proof -
  let ?byte = "\<lambda>bh a. (if \<exists>(bx, hit)\<in>set (zip rboxes (rbits ! bh)). hit \<and> page_of_box ly bx a then ATOM_READ else 0)
        OR (if \<exists>(bx, hit)\<in>set (zip wboxes (wbits ! bh)). hit \<and> page_of_box ly bx a then ATOM_WRITTEN else (0 :: 8 word))"
  have one: "(rbind (side_row rboxes rbits (length rbits) bh) (\<lambda>rb.
       rbind (side_row wboxes wbits (length rbits) bh) (\<lambda>wb.
       rbind (mark_boxes ly ATOM_READ (zip rboxes rb) (replicate (layout_atoms ly) 0))
         (mark_boxes ly ATOM_WRITTEN (zip wboxes wb))))) = Inr (map (?byte bh) [0..<layout_atoms ly])" if bh: "bh < BH" for bh
  proof -
    obtain ro wo where rows: "side_row rboxes rbits (length rbits) bh = Inr ro" "zip rboxes ro = zip rboxes (rbits ! bh)"
      "side_row wboxes wbits (length rbits) bh = Inr wo" "zip wboxes wo = zip wboxes (wbits ! bh)"
      using side_row_at [of "length rbits" rbits bh rboxes] side_row_at [of "length rbits" wbits bh wboxes] bh rb wb by auto
    have okr: "\<forall>(bx, hit)\<in>set (zip rboxes (rbits ! bh)). box_ok ly bx" and okw: "\<forall>(bx, hit)\<in>set (zip wboxes (wbits ! bh)). box_ok ly bx"
      using r w by (auto dest: set_zip_leftD)
    obtain x where x: "mark_boxes ly ATOM_READ (zip rboxes (rbits ! bh)) (replicate (layout_atoms ly) 0) = Inr x" "length x = layout_atoms ly"
      "\<And>a. a < layout_atoms ly \<Longrightarrow> x ! a = (if \<exists>(bx, hit)\<in>set (zip rboxes (rbits ! bh)). hit \<and> page_of_box ly bx a then ATOM_READ else 0)"
      using mark_boxes_ok [OF okr B, of "replicate (layout_atoms ly) 0" ATOM_READ] N by auto
    obtain y where y: "mark_boxes ly ATOM_WRITTEN (zip wboxes (wbits ! bh)) x = Inr y" "length y = layout_atoms ly"
      "\<And>a. a < layout_atoms ly \<Longrightarrow> y ! a = (x ! a) OR (if \<exists>(bx, hit)\<in>set (zip wboxes (wbits ! bh)). hit \<and> page_of_box ly bx a then ATOM_WRITTEN else 0)"
      using mark_boxes_ok [OF okw B, of x ATOM_WRITTEN] N x(2) by auto
    have "y = map (?byte bh) [0..<layout_atoms ly]" by (rule nth_equalityI) (simp_all add: x y)
    then show ?thesis using rows x(1) y(1) by simp
  qed
  have "page_activity ly rboxes rbits wboxes wbits = Inr (map (\<lambda>bh. map (?byte bh) [0..<layout_atoms ly]) [0..<BH])"
    unfolding page_activity_def using one rb(1) by (intro rmap_all [THEN trans]) auto
  then show ?thesis by simp
qed

section \<open>The atoms as boxes\<close>

lemma run_of_div: "0 < s \<Longrightarrow> (j * s \<le> d \<and> d < j * s + s) = (d div s = (j :: nat))"
proof
  assume "0 < s" "d div s = j"
  then show "j * s \<le> d \<and> d < j * s + s" using dividend_less_div_times [of s d] div_times_less_eq_dividend [of d s] by (simp add: add.commute)
next
  assume s: "0 < s" and "j * s \<le> d \<and> d < j * s + s"
  then have "d = j * s + (d - j * s)" "d - j * s < s" by linarith+
  then show "d div s = j" by (metis add.right_neutral add.commute div_less div_mult_self3 less_nat_zero_code)
qed

lemma atom_boxes_ok:
  assumes "atom_spans ly = Inr spans" "length (ly_B ly) = ly_D ly"
  shows "\<exists>boxes. atom_boxes ly = Inr boxes \<and> length boxes = layout_atoms ly \<and> (\<forall>a<layout_atoms ly. box_ok ly (boxes ! a)
     \<and> (\<forall>l<ly_D ly. \<forall>d. in_run (boxes ! a) l d = (d div spans ! l = digits (quotients (ly_B ly) spans) a ! l)))"
proof -
  let ?qs = "quotients (ly_B ly) spans"
  have tl: "tiles (ly_B ly) spans 16" by (rule atom_spans_tiles [OF assms(1)])
  note lv = tiles_level [OF tl]
  have g: "length (start_grid (ly_B ly) spans) = layout_atoms ly"
    "\<And>a. a < layout_atoms ly \<Longrightarrow> start_grid (ly_B ly) spans ! a = map2 (*) (digits ?qs a) spans"
    using start_grid_ok [of "ly_B ly" spans] lv by (simp_all add: atom_count(1) [OF assms(1)])
  define boxes where "boxes = map (\<lambda>r. \<lparr>bx_start = map int r, bx_span = map int spans\<rparr>) (start_grid (ly_B ly) spans)"
  have at: "bx_start (boxes ! a) = map int (map2 (*) (digits ?qs a) spans)" "bx_span (boxes ! a) = map int spans" if "a < layout_atoms ly" for a
    using that g by (simp_all add: boxes_def)
  have lq: "length ?qs = length (ly_B ly)" using lv(1) by (simp add: quotients_def)
  have dq: "digits ?qs a ! l < ly_B ly ! l div spans ! l" if "a < layout_atoms ly" "l < length (ly_B ly)" for a l
  proof -
    have "\<forall>q\<in>set ?qs. 0 < q" using that(1) atom_count(1) [OF assms(1)] by (metis gr0I not_less_zero prod_list_zero_iff)
    then show ?thesis using in_digits_digits [of ?qs a] that(2) lq lv(1) by (auto simp: in_digits_def list_all2_conv_all_nth quotients_def)
  qed
  have lawful: "\<not> run_unlawful (ly_B ly ! l) (int (digits ?qs a ! l * spans ! l)) (int (spans ! l))" "digits ?qs a ! l * spans ! l + spans ! l \<le> ly_B ly ! l"
    if "a < layout_atoms ly" "l < length (ly_B ly)" for a l
  proof -
    have s: "0 < spans ! l" "spans ! l dvd ly_B ly ! l" using lv that(2) by simp_all
    have "Suc (digits ?qs a ! l) * spans ! l \<le> ly_B ly ! l div spans ! l * spans ! l" using dq [OF that] by (intro mult_le_mono1) simp
    then show top: "digits ?qs a ! l * spans ! l + spans ! l \<le> ly_B ly ! l" using s(2) by simp
    then show "\<not> run_unlawful (ly_B ly ! l) (int (digits ?qs a ! l * spans ! l)) (int (spans ! l))"
      using s unfolding run_unlawful_def by (auto simp flip: of_nat_mod of_nat_add of_nat_mult)
  qed
  have "box_ok ly (boxes ! a)" if a: "a < layout_atoms ly" for a
    using at [OF a] lawful(1) [OF a] lq lv(1) assms(2)
    by (auto simp: box_ok_def box_check_def refuse_def list_ex_iff in_set_zip)
  moreover have "in_run (boxes ! a) l d = (d div spans ! l = digits ?qs a ! l)" if a: "a < layout_atoms ly" and l: "l < ly_D ly" for a l d
  proof -
    have s: "0 < spans ! l" using lv(2) l assms(2) by simp
    have "in_run (boxes ! a) l d = (digits ?qs a ! l * spans ! l \<le> d \<and> d < digits ?qs a ! l * spans ! l + spans ! l)"
      using at [OF a] l lq lv(1) assms(2) by (simp add: in_run_def flip: of_nat_mult of_nat_add)
    also have "\<dots> = (d div spans ! l = digits ?qs a ! l)" using run_of_div [OF s] .
    finally show ?thesis .
  qed
  ultimately show ?thesis using g(1) by (simp add: atom_boxes_def assms(1) boxes_def)
qed

end
