(* ===== verification/Rola_Liveness_Claims.thy ===== *)
theory Rola_Liveness_Claims
  imports Rola_Liveness_Pages
begin

text \<open>
  The properties of the liveness contract, from the amplitudes to the pages a kernel entry makes
  resident, and their witnesses.
\<close>

section \<open>The live leaves of a side\<close>

definition leaf_live :: "amp_plane \<Rightarrow> layout \<Rightarrow> bool list \<Rightarrow> int list \<Rightarrow> nat \<Rightarrow> nat \<Rightarrow> nat \<Rightarrow> bool" where
  "leaf_live p ly dense logical bh t leaf =
     (\<forall>level<ly_D ly. live_digit p ly dense logical bh level (leaf_digit (ly_B ly) level leaf) t)"

definition atom_touched :: "amp_plane \<Rightarrow> layout \<Rightarrow> bool list \<Rightarrow> int list \<Rightarrow> nat \<Rightarrow> nat \<Rightarrow> bool" where
  "atom_touched p ly dense logical bh a =
     (\<exists>t<ly_L ly. \<exists>leaf<prod_list (ly_B ly). leaf div 16 = a \<and> leaf_live p ly dense logical bh t leaf)"

definition activity_byte :: "bool \<Rightarrow> bool \<Rightarrow> 8 word" where
  "activity_byte r w = (if r then ATOM_READ else 0) OR (if w then ATOM_WRITTEN else 0)"

lemma activity_byte_flags: "activity_byte r w AND ATOM_READ \<noteq> 0 \<longleftrightarrow> r" "activity_byte r w AND ATOM_WRITTEN \<noteq> 0 \<longleftrightarrow> w"
  by (simp_all add: activity_byte_def ATOM_READ_def ATOM_WRITTEN_def)

lemma layout_levels: "make_layout D B L = Inr ly \<Longrightarrow> length (ly_B ly) = ly_D ly \<and> ly_D ly = D \<and> ly_B ly = B \<and> ly_L ly = nat L \<and> length B = D"
  by (auto simp: make_layout_def split: if_splits)

lemma words_leaf_live:
  assumes "side_statics ly rdense rlogical = Inr rs" "side_statics ly wdense wlogical = Inr ws"
    and B: "length (ly_B ly) = ly_D ly" and w: "liveness_words rp wp ly rs ws = Inr words"
    and i: "bh < plane_calls rp ly" "t < ly_L ly" "leaf < prod_list (ly_B ly)"
  shows "leaf_says ly (words ! bh ! SIDE_READ) t leaf = leaf_live rp ly rdense rlogical bh t leaf"
    "leaf_says ly (words ! bh ! SIDE_WRITE) t leaf = leaf_live wp ly wdense wlogical bh t leaf"
proof -
  have "\<forall>w\<in>set (ly_B ly). 0 < w" using i(3) by (metis gr0I not_less_zero prod_list_zero_iff)
  then have d: "leaf_digit (ly_B ly) l leaf < ly_B ly ! l" if "l < ly_D ly" for l using that B by (simp add: leaf_digit_def)
  note s = liveness_words_ok(3) [OF assms(1-4) i(1) _ d i(2)]
  show "leaf_says ly (words ! bh ! SIDE_READ) t leaf = leaf_live rp ly rdense rlogical bh t leaf"
    "leaf_says ly (words ! bh ! SIDE_WRITE) t leaf = leaf_live wp ly wdense wlogical bh t leaf"
    using s by (simp_all add: leaf_says_def leaf_live_def)
qed

lemma words_atom_live:
  assumes "side_statics ly rdense rlogical = Inr rs" "side_statics ly wdense wlogical = Inr ws"
    and B: "length (ly_B ly) = ly_D ly" and w: "liveness_words rp wp ly rs ws = Inr words" and bh: "bh < plane_calls rp ly"
  shows "atom_live ly (words ! bh ! SIDE_READ) a = atom_touched rp ly rdense rlogical bh a"
    "atom_live ly (words ! bh ! SIDE_WRITE) a = atom_touched wp ly wdense wlogical bh a"
  unfolding atom_live_def atom_touched_def
  using words_leaf_live(1) [OF assms(1-4) bh] words_leaf_live(2) [OF assms(1-4) bh] by (metis (no_types, lifting))+

lemma map2_rows: "map2 (map2 f) (map (\<lambda>i. map (g i) ys) xs) (map (\<lambda>i. map (h i) ys) xs) = map (\<lambda>i. map (\<lambda>y. f (g i y) (h i y)) ys) xs"
proof -
  have "map2 f (map u ys) (map v ys) = map (\<lambda>y. f (u y) (v y)) ys" for u v by (induction ys) simp_all
  then show ?thesis by (induction xs) simp_all
qed

lemma page_bits_table:
  assumes "wf_table ly BH words" "length (ly_B ly) = ly_D ly" "atom_spans ly = Inr spans"
  shows "page_bits words ly = Inr (map (\<lambda>bh. map (\<lambda>a. activity_byte (atom_live ly (words ! bh ! SIDE_READ) a) (atom_live ly (words ! bh ! SIDE_WRITE) a))
      [0..<layout_atoms ly]) [0..<BH])"
  using atom_activity_ok [OF assms, of SIDE_READ] atom_activity_ok [OF assms, of SIDE_WRITE]
  by (simp add: page_bits_def map2_rows activity_byte_def SIDES_def SIDE_READ_def SIDE_WRITE_def)

lemma page_bits_ok:
  assumes "side_statics ly rdense rlogical = Inr rs" "side_statics ly wdense wlogical = Inr ws"
    and B: "length (ly_B ly) = ly_D ly" and w: "liveness_words rp wp ly rs ws = Inr words" and sp: "atom_spans ly = Inr spans"
  shows "page_bits words ly = Inr (map (\<lambda>bh. map (\<lambda>a. activity_byte (atom_touched rp ly rdense rlogical bh a) (atom_touched wp ly wdense wlogical bh a))
      [0..<layout_atoms ly]) [0..<plane_calls rp ly])"
  using page_bits_table [OF liveness_words_ok(1) [OF assms(1-4)] B sp] words_atom_live [OF assms(1-4)] by simp

section \<open>The atoms as boxes\<close>

lemma ex_lt_cong: "(\<And>i. i < n \<Longrightarrow> P i = Q i) \<Longrightarrow> (\<exists>i<n. P i) = (\<exists>i<(n :: nat). Q i)"
  by auto

lemma zip_map_any: "(\<exists>(b, hit)\<in>set (zip xs (map f xs)). hit \<and> P b) = (\<exists>b\<in>set xs. P b \<and> f b)"
  by (induction xs) auto

lemma atom_box_live:
  assumes B: "length (ly_B ly) = ly_D ly" and sp: "atom_spans ly = Inr spans" and a: "a < layout_atoms ly"
    and run: "\<forall>l<ly_D ly. \<forall>d. in_run bx l d = (d div spans ! l = digits (quotients (ly_B ly) spans) a ! l)"
  shows "box_live ly rows bx = atom_live ly rows a" "page_of_box ly bx b = (b = a)"
proof -
  let ?qs = "quotients (ly_B ly) spans"
  have tl: "tiles (ly_B ly) spans 16" by (rule atom_spans_tiles [OF sp])
  note lv = tiles_level [OF tl]
  have aq: "a < prod_list ?qs" using a atom_count(1) [OF sp] by simp
  have qpos: "\<forall>q\<in>set ?qs. 0 < q" using aq by (metis gr0I not_less_zero prod_list_zero_iff)
  have dq: "digits ?qs a ! l < ly_B ly ! l div spans ! l" if "l < ly_D ly" for l
    using in_digits_digits [OF qpos, of a] that B lv(1) by (auto simp: in_digits_def list_all2_conv_all_nth quotients_def)
  have "(\<exists>digit<ly_B ly ! l. in_run bx l digit \<and> says ly rows t l digit) = run_says ly rows t l (spans ! l) (digits ?qs a ! l)"
    if l: "l < ly_D ly" for l t
  proof
    have s: "0 < spans ! l" "spans ! l dvd ly_B ly ! l" using lv l B by simp_all
    {
      assume "\<exists>digit<ly_B ly ! l. in_run bx l digit \<and> says ly rows t l digit"
      then obtain d where d: "d div spans ! l = digits ?qs a ! l" "says ly rows t l d" using run l by auto
      then have "digits ?qs a ! l * spans ! l + d mod spans ! l = d" by (metis div_mult_mod_eq)
      then show "run_says ly rows t l (spans ! l) (digits ?qs a ! l)" using d s(1)
        by (auto simp: run_says_def intro!: exI [of _ "d mod spans ! l"])
    next
      assume "run_says ly rows t l (spans ! l) (digits ?qs a ! l)"
      then obtain d where d: "d < spans ! l" "says ly rows t l (digits ?qs a ! l * spans ! l + d)" by (auto simp: run_says_def)
      then have "digits ?qs a ! l * spans ! l + d < ly_B ly ! l" using mult_add_less [OF dq [OF l] d(1)] s(2) by simp
      then show "\<exists>digit<ly_B ly ! l. in_run bx l digit \<and> says ly rows t l digit"
        using run l d by (intro exI [of _ "digits ?qs a ! l * spans ! l + d"]) simp
    }
  qed
  then show "box_live ly rows bx = atom_live ly rows a"
    unfolding box_live_def atom_runs [OF sp B a, symmetric] by simp
  have leaf: "in_box ly bx leaf = (leaf < prod_list (ly_B ly) \<and> leaf div 16 = a)" for leaf
  proof -
    have "(\<forall>l<ly_D ly. leaf_digit (ly_B ly) l leaf div spans ! l = digits ?qs a ! l) = (leaf div 16 = a)" if N: "leaf < prod_list (ly_B ly)"
    proof -
      have "\<forall>w\<in>set (ly_B ly). 0 < w" using N by (metis gr0I not_less_zero prod_list_zero_iff)
      then have ds: "in_digits (ly_B ly) (digits (ly_B ly) leaf)" by (rule in_digits_digits)
      have "(\<forall>l<ly_D ly. leaf_digit (ly_B ly) l leaf div spans ! l = digits ?qs a ! l) = (map2 (div) (digits (ly_B ly) leaf) spans = digits ?qs a)"
        using B lv(1) nth_digits [of _ "ly_B ly" leaf] by (auto simp: list_eq_iff_nth_eq quotients_def)
      also have "\<dots> = (undigits ?qs (map2 (div) (digits (ly_B ly) leaf) spans) = undigits ?qs (digits ?qs a))"
        using undigits_inject [OF quotients_digits [OF tl _ ds] in_digits_digits [OF qpos]] by simp
      also have "\<dots> = (leaf div 16 = a)" using tiles_undigits [OF tl _ ds] N aq by simp
      finally show ?thesis .
    qed
    then show ?thesis using run by (auto simp: in_box_def)
  qed
  have "a * 16 < prod_list (ly_B ly)" using a atom_count(3) [OF sp] fold_mult [of "ly_B ly" 1] by (simp add: layout_N_def)
  then show "page_of_box ly bx b = (b = a)" unfolding page_of_box_def leaf by auto
qed


lemma kernel_entry_format:
  assumes "kernel_entry pf rt bits d_v paging BC s = (Inr out, t)" "format_of (rt_widths rt) d_v (rt_batch rt * rt_heads rt) = Inr fmt"
  shows "rs_format t = Some fmt"
proof -
  obtain u where u: "bind_or_check rt d_v paging s = (Inr (), u)"
    using assms(1) by (cases "bind_or_check rt d_v paging s"; cases "fst (bind_or_check rt d_v paging s)") (auto simp: kernel_entry_def)
  then have "rs_format u = Some fmt"
    using assms(2) by (auto simp: bind_or_check_def bind_state_def format_check_Inr split: if_splits option.splits)
  then show ?thesis using assms(1) u
    by (auto simp: kernel_entry_def split: sum.splits option.splits prod.splits if_splits)
qed

lemma format_of_ids: "format_of ws d BH = Inr f \<Longrightarrow> sf_ids f = BH * (prod_list ws div 16) \<and> sf_B f = ws \<and> lawful_format f \<and> sf_D f = length ws"
  by (auto simp: format_of_Inr)

lemma kernel_entry_resident:
  assumes st: "state_ok pf s" "platform_ok pf" and k: "kernel_entry pf rt bits d_v paging BC s = (Inr out, t)"
    and f: "format_of (rt_widths rt) d_v (rt_batch rt * rt_heads rt) = Inr fmt" and a: "rs_arena t = Some (g, a)"
  shows "written_resident bits t" "logical_pages a = rt_batch rt * rt_heads rt * (prod_list (sf_B fmt) div 16)"
proof -
  have ok: "state_ok pf t \<and> written_resident bits t" using kernel_entry_cases [OF st k] by cases (auto simp: carries_on_def)
  then show "written_resident bits t" by simp
  note d = state_ok_arenaD [OF conjunct1 [OF ok] a]
  note dim = arena_fits_dims [OF d(4) st(2)]
  have ft: "rs_format t = Some fmt" by (rule kernel_entry_format [OF k f])
  obtain B H where bh: "format_of (sf_B fmt) (sf_DV fmt) (B * H) = Inr fmt" "state_BH t = B * H"
    using state_okE [OF conjunct1 [OF ok] d(1)] ft by (metis option.inject)
  have "ar_apb a = prod_list (sf_B fmt) div 16" using dim(3) d(3) ft by simp
  then have "logical_pages a = B * H * (prod_list (sf_B fmt) div 16)" using dim(1) bh(2) by (simp add: logical_pages_def)
  also have "\<dots> = sf_ids fmt" using format_of_ids [OF bh(1)] by simp
  also have "\<dots> = rt_batch rt * rt_heads rt * (prod_list (sf_B fmt) div 16)" using format_of_ids [OF f] by simp
  finally show "logical_pages a = rt_batch rt * rt_heads rt * (prod_list (sf_B fmt) div 16)" .
qed

text \<open>On a lawful format the atom is a run of the last level.\<close>

lemma lawful_atom_spans:
  assumes "lawful_format fmt" "ly_B ly = sf_B fmt" "0 < length (sf_B fmt)"
  shows "\<exists>spans. atom_spans ly = Inr spans"
proof -
  obtain ws w where ws: "sf_B fmt = ws @ [w]" using assms(3) by (cases "sf_B fmt" rule: rev_cases) auto
  then have w: "16 \<le> w" "is_pow2 w" using assms(1) by (auto simp: lawful_format_def)
  then obtain k where k: "w = 2 ^ k" by (auto simp: is_pow2_iff)
  then have "16 dvd w" using w(1) le_imp_power_dvd [of 4 k "2 :: nat"] power_le_imp_le_exp [of "2 :: nat" 4 k] by simp
  then have "spans_from (rev (ly_B ly)) ATOM_LEAVES = Inr (16 # replicate (length ws) 1)"
    using w(1) by (simp add: ws assms(2) ATOM_LEAVES_def dvd_eq_mod_eq_0 min_def)
  then show ?thesis by (simp add: atom_spans_def)
qed


section \<open>Properties\<close>

text \<open>
  C24 (words): The words are exact. The reader returns, for every digit of every level and side, the
  bit the contract names: the amplitude's magnitude is not zero, or, at a dense level, the digit is
  below the logical width. Every bit past the last token is zero.
\<close>

theorem liveness_words_exact:
  assumes "make_layout D B L = Inr ly" "side_statics ly rdense rlogical = Inr rs" "side_statics ly wdense wlogical = Inr ws"
    and "liveness_words rp wp ly rs ws = Inr words" "bh < length words" "level < D" "digit < B ! level"
  shows "(t < ly_L ly \<longrightarrow>
        unpack_words ly words ! bh ! SIDE_READ ! (row_base ly level + digit) ! t = live_digit rp ly rdense rlogical bh level digit t
      \<and> unpack_words ly words ! bh ! SIDE_WRITE ! (row_base ly level + digit) ! t = live_digit wp ly wdense wlogical bh level digit t)
    \<and> (ly_L ly \<le> t \<and> t < layout_words ly * 32 \<and> side < SIDES \<longrightarrow>
        \<not> bit (words ! bh ! side ! (row_base ly level + digit) ! (t div 32)) (t mod 32))"
proof -
  have ly: "length (ly_B ly) = ly_D ly" "ly_D ly = D" "ly_B ly = B" using layout_levels [OF assms(1)] by simp_all
  note w = liveness_words_ok [OF assms(2,3) ly(1) assms(4)]
  have bh: "bh < plane_calls rp ly" using assms(5) wf_table_length [OF w(1)] by simp
  have lv: "level < ly_D ly" "digit < ly_B ly ! level" using assms(6,7) ly by simp_all
  have row: "row_base ly level + digit < layout_rows ly" using row_in_layout [of level ly digit] lv ly(1) by simp
  have "t < ly_L ly \<longrightarrow>
        unpack_words ly words ! bh ! SIDE_READ ! (row_base ly level + digit) ! t = live_digit rp ly rdense rlogical bh level digit t
      \<and> unpack_words ly words ! bh ! SIDE_WRITE ! (row_base ly level + digit) ! t = live_digit wp ly wdense wlogical bh level digit t"
    using unpack_words_bits [OF w(1) bh _ row] w(3) [OF bh lv] by (auto simp: SIDES_def SIDE_READ_def SIDE_WRITE_def says_def)
  moreover have "\<not> bit (words ! bh ! side ! (row_base ly level + digit) ! (t div 32)) (t mod 32)"
    if t: "ly_L ly \<le> t \<and> t < layout_words ly * 32 \<and> side < SIDES"
  proof -
    have "wf_side ly (words ! bh ! side)" using wf_table_side [OF w(1) bh] t by simp
    then show ?thesis using t row by (auto simp: wf_side_def row_bit_def)
  qed
  ultimately show ?thesis by blast
qed

text \<open>
  C22 (pagebits): The byte of a page is exact: the READ bit is set exactly when some token of the call
  reads some leaf of the page, the WRITTEN bit exactly when some token writes one.
\<close>

theorem page_bits_exact:
  assumes "make_layout D B L = Inr ly" "atom_spans ly = Inr spans" "side_statics ly rdense rlogical = Inr rs"
    and "side_statics ly wdense wlogical = Inr ws" "liveness_words rp wp ly rs ws = Inr words"
  shows "page_bits words ly = Inr (map (\<lambda>bh. map (\<lambda>a.
      (if \<exists>t<ly_L ly. \<exists>leaf<prod_list B. leaf div 16 = a \<and> leaf_live rp ly rdense rlogical bh t leaf then ATOM_READ else 0)
      OR (if \<exists>t<ly_L ly. \<exists>leaf<prod_list B. leaf div 16 = a \<and> leaf_live wp ly wdense wlogical bh t leaf then ATOM_WRITTEN else 0))
      [0..<prod_list B div 16]) [0..<plane_calls rp ly])"
proof -
  have ly: "length (ly_B ly) = ly_D ly" "ly_B ly = B" using layout_levels [OF assms(1)] by simp_all
  have "layout_atoms ly = prod_list B div 16" using fold_mult [of B 1] by (simp add: layout_atoms_def layout_N_def ATOM_LEAVES_def ly)
  then show ?thesis
    using page_bits_ok [OF assms(3,4) ly(1) assms(5,2)] by (simp add: activity_byte_def atom_touched_def ly(2))
qed

text \<open>
  C31 (pagefold): The fold over an arbitrary carve, at the atoms: the same byte as the direct fold.
\<close>

theorem page_activity_at_atoms:
  assumes "make_layout D B L = Inr ly" "side_statics ly rdense rlogical = Inr rs" "side_statics ly wdense wlogical = Inr ws"
    and "liveness_words rp wp ly rs ws = Inr words" "atom_boxes ly = Inr boxes"
  shows "rbind (box_activity words ly boxes SIDE_READ) (\<lambda>r. rbind (box_activity words ly boxes SIDE_WRITE) (\<lambda>w.
      page_activity ly boxes r boxes w)) = page_bits words ly
    \<and> is_ok (page_bits words ly)"
proof -
  have B: "length (ly_B ly) = ly_D ly" using layout_levels [OF assms(1)] by simp
  note w = liveness_words_ok(1) [OF assms(2,3) B assms(4)]
  obtain spans where sp: "atom_spans ly = Inr spans" using assms(5) by (auto simp: atom_boxes_def res_simps)
  note bx = atom_boxes_ok [OF sp B, unfolded assms(5)]
  have len: "length boxes = layout_atoms ly" and ok: "\<forall>b\<in>set boxes. box_ok ly b"
    and run: "\<And>a. a < layout_atoms ly \<Longrightarrow> \<forall>l<ly_D ly. \<forall>d. in_run (boxes ! a) l d = (d div spans ! l = digits (quotients (ly_B ly) spans) a ! l)"
    using bx by (auto simp: in_set_conv_nth)
  have D: "0 < ly_D ly" using atom_count(2) [OF sp] B by simp
  let ?BH = "plane_calls rp ly"
  have act: "box_activity words ly boxes side = Inr (map (\<lambda>bh. map (box_live ly (words ! bh ! side)) boxes) [0..<?BH])" if "side < SIDES" for side
    by (rule box_activity_ok [OF w B D that ok])
  have hit: "(\<exists>(b, hit)\<in>set (zip boxes (map (box_live ly rows) boxes)). hit \<and> page_of_box ly b a) = atom_live ly rows a"
    if a: "a < layout_atoms ly" for rows a
  proof -
    have "(\<exists>(b, hit)\<in>set (zip boxes (map (box_live ly rows) boxes)). hit \<and> page_of_box ly b a)
        = (\<exists>i<length boxes. box_live ly rows (boxes ! i) \<and> page_of_box ly (boxes ! i) a)"
      unfolding zip_map_any by (auto simp: in_set_conv_nth Bex_def)
    also have "\<dots> = (\<exists>i<layout_atoms ly. atom_live ly rows i \<and> a = i)"
    proof -
      have "(box_live ly rows (boxes ! i) \<and> page_of_box ly (boxes ! i) a) = (atom_live ly rows i \<and> a = i)" if "i < layout_atoms ly" for i
        using atom_box_live [OF B sp that run [OF that]] by simp
      then show ?thesis unfolding len by (rule ex_lt_cong)
    qed
    finally show ?thesis using a by simp
  qed
  let ?bits = "\<lambda>side. map (\<lambda>bh. map (box_live ly (words ! bh ! side)) boxes) [0..<?BH]"
  have N: "layout_N ly = 16 * layout_atoms ly" using atom_count(3) [OF sp] by simp
  obtain bytes where bytes: "page_activity ly boxes (?bits SIDE_READ) boxes (?bits SIDE_WRITE) = Inr bytes" "length bytes = ?BH"
    "\<And>bh. bh < ?BH \<Longrightarrow> length (bytes ! bh) = layout_atoms ly"
    "\<And>bh a. bh < ?BH \<Longrightarrow> a < layout_atoms ly \<Longrightarrow> bytes ! bh ! a =
        (if \<exists>(bx, hit)\<in>set (zip boxes (?bits SIDE_READ ! bh)). hit \<and> page_of_box ly bx a then ATOM_READ else 0)
        OR (if \<exists>(bx, hit)\<in>set (zip boxes (?bits SIDE_WRITE ! bh)). hit \<and> page_of_box ly bx a then ATOM_WRITTEN else 0)"
    using page_activity_ok [OF ok ok B, of "?bits SIDE_READ" ?BH "?bits SIDE_WRITE"] N by auto
  have "bytes = map (\<lambda>bh. map (\<lambda>a. activity_byte (atom_live ly (words ! bh ! SIDE_READ) a) (atom_live ly (words ! bh ! SIDE_WRITE) a))
      [0..<layout_atoms ly]) [0..<?BH]"
  proof (rule nth_equalityI)
    fix bh assume "bh < length bytes"
    then have bh: "bh < ?BH" using bytes(2) by simp
    show "bytes ! bh = map (\<lambda>bh. map (\<lambda>a. activity_byte (atom_live ly (words ! bh ! SIDE_READ) a) (atom_live ly (words ! bh ! SIDE_WRITE) a))
      [0..<layout_atoms ly]) [0..<?BH] ! bh"
      using bh bytes(3) [OF bh] bytes(4) [OF bh] hit by (intro nth_equalityI) (simp_all add: activity_byte_def)
  qed (use bytes(2) in simp)
  then show ?thesis
    using act [of SIDE_READ] act [of SIDE_WRITE] bytes(1) page_bits_table [OF w B sp] by (simp_all add: SIDES_def SIDE_READ_def SIDE_WRITE_def)
qed

text \<open>
  C32 (carve): At another lawful carve the fold returns and never under-reports: a page with a live
  leaf inside a box carries the flag; and a flag is only set on a page that meets a live box.
\<close>

theorem page_activity_sound:
  assumes "make_layout D B L = Inr ly" "0 < D" "16 dvd prod_list B"
    and "side_statics ly rdense rlogical = Inr rs" "side_statics ly wdense wlogical = Inr ws"
    and "liveness_words rp wp ly rs ws = Inr words" "\<forall>bx\<in>set rboxes. box_ok ly bx" "\<forall>bx\<in>set wboxes. box_ok ly bx"
  shows "\<exists>r w bytes. box_activity words ly rboxes SIDE_READ = Inr r \<and> box_activity words ly wboxes SIDE_WRITE = Inr w
     \<and> page_activity ly rboxes r wboxes w = Inr bytes
     \<and> (\<forall>bh<plane_calls rp ly. \<forall>a<prod_list B div 16.
          ((\<exists>bx\<in>set rboxes. \<exists>t<ly_L ly. \<exists>leaf. in_box ly bx leaf \<and> leaf div 16 = a \<and> leaf_live rp ly rdense rlogical bh t leaf)
             \<longrightarrow> bytes ! bh ! a AND ATOM_READ \<noteq> 0)
          \<and> ((\<exists>bx\<in>set wboxes. \<exists>t<ly_L ly. \<exists>leaf. in_box ly bx leaf \<and> leaf div 16 = a \<and> leaf_live wp ly wdense wlogical bh t leaf)
             \<longrightarrow> bytes ! bh ! a AND ATOM_WRITTEN \<noteq> 0)
          \<and> (bytes ! bh ! a AND ATOM_READ \<noteq> 0 \<longrightarrow> (\<exists>bx\<in>set rboxes. page_of_box ly bx a \<and> box_live ly (words ! bh ! SIDE_READ) bx))
          \<and> (bytes ! bh ! a AND ATOM_WRITTEN \<noteq> 0 \<longrightarrow> (\<exists>bx\<in>set wboxes. page_of_box ly bx a \<and> box_live ly (words ! bh ! SIDE_WRITE) bx)))"
proof -
  have B: "length (ly_B ly) = ly_D ly" "ly_B ly = B" "0 < ly_D ly" using layout_levels [OF assms(1)] assms(2) by simp_all
  note w = liveness_words_ok(1) [OF assms(4,5) B(1) assms(6)]
  let ?BH = "plane_calls rp ly"
  let ?r = "map (\<lambda>bh. map (box_live ly (words ! bh ! SIDE_READ)) rboxes) [0..<?BH]"
  let ?w = "map (\<lambda>bh. map (box_live ly (words ! bh ! SIDE_WRITE)) wboxes) [0..<?BH]"
  have act: "box_activity words ly rboxes SIDE_READ = Inr ?r" "box_activity words ly wboxes SIDE_WRITE = Inr ?w"
    using box_activity_ok [OF w B(1,3) _ assms(7)] box_activity_ok [OF w B(1,3) _ assms(8)] by (simp_all add: SIDES_def SIDE_READ_def SIDE_WRITE_def)
  have N: "layout_N ly = 16 * layout_atoms ly" "layout_atoms ly = prod_list B div 16"
    using fold_mult [of B 1] assms(3) by (simp_all add: layout_atoms_def layout_N_def ATOM_LEAVES_def B(2))
  have any: "(\<exists>(bx, hit)\<in>set (zip boxes (map (box_live ly rows) boxes)). hit \<and> page_of_box ly bx a)
      = (\<exists>bx\<in>set boxes. page_of_box ly bx a \<and> box_live ly rows bx)" for boxes rows a
    by (rule zip_map_any)
  have pre: "length ?r = ?BH" "\<forall>row\<in>set ?r. length row = length rboxes" "length ?w = ?BH" "\<forall>row\<in>set ?w. length row = length wboxes" by auto
  obtain bytes where b: "page_activity ly rboxes ?r wboxes ?w = Inr bytes"
    "\<forall>bh<?BH. length (bytes ! bh) = layout_atoms ly \<and> (\<forall>a<layout_atoms ly. bytes ! bh ! a =
        (if \<exists>(bx, hit)\<in>set (zip rboxes (?r ! bh)). hit \<and> page_of_box ly bx a then ATOM_READ else 0)
        OR (if \<exists>(bx, hit)\<in>set (zip wboxes (?w ! bh)). hit \<and> page_of_box ly bx a then ATOM_WRITTEN else 0))"
    using page_activity_ok [OF assms(7,8) B(1) pre N(1)] by blast
  have byte: "bytes ! bh ! a = activity_byte (\<exists>bx\<in>set rboxes. page_of_box ly bx a \<and> box_live ly (words ! bh ! SIDE_READ) bx)
          (\<exists>bx\<in>set wboxes. page_of_box ly bx a \<and> box_live ly (words ! bh ! SIDE_WRITE) bx)"
    if bh: "bh < ?BH" and a: "a < layout_atoms ly" for bh a
  proof -
    have "?r ! bh = map (box_live ly (words ! bh ! SIDE_READ)) rboxes" "?w ! bh = map (box_live ly (words ! bh ! SIDE_WRITE)) wboxes"
      using bh by simp_all
    then show ?thesis using b(2) bh a unfolding activity_byte_def by (simp only: any)
  qed
  have live: "box_live ly rows bx" if "t < ly_L ly" "in_box ly bx leaf" "leaf_says ly rows t leaf" for rows bx t leaf
  proof -
    have "\<forall>w\<in>set B. 0 < w" using that(2) B(2) unfolding in_box_def by (metis gr0I not_less_zero prod_list_zero_iff)
    then have "leaf_digit (ly_B ly) l leaf < ly_B ly ! l" if "l < ly_D ly" for l using that B(1,2) by (simp add: leaf_digit_def)
    then have "\<forall>level<ly_D ly. \<exists>digit<ly_B ly ! level. in_run bx level digit \<and> says ly rows t level digit"
      using that(2,3) unfolding in_box_def leaf_says_def by blast
    then show ?thesis unfolding box_live_def using that(1) by blast
  qed
  note says = words_leaf_live [OF assms(4,5) B(1) assms(6)]
  have bound: "in_box ly bx leaf \<Longrightarrow> leaf < prod_list (ly_B ly)" for bx leaf by (simp add: in_box_def)
  have cover: "(\<exists>bx\<in>set rboxes. \<exists>t<ly_L ly. \<exists>leaf. in_box ly bx leaf \<and> leaf div 16 = a \<and> leaf_live rp ly rdense rlogical bh t leaf)
        \<Longrightarrow> (\<exists>bx\<in>set rboxes. page_of_box ly bx a \<and> box_live ly (words ! bh ! SIDE_READ) bx)"
    "(\<exists>bx\<in>set wboxes. \<exists>t<ly_L ly. \<exists>leaf. in_box ly bx leaf \<and> leaf div 16 = a \<and> leaf_live wp ly wdense wlogical bh t leaf)
        \<Longrightarrow> (\<exists>bx\<in>set wboxes. page_of_box ly bx a \<and> box_live ly (words ! bh ! SIDE_WRITE) bx)" if "bh < ?BH" for bh a
    using live says [OF that] bound unfolding page_of_box_def by metis+
  have flags: "(bytes ! bh ! a AND ATOM_READ \<noteq> 0) = (\<exists>bx\<in>set rboxes. page_of_box ly bx a \<and> box_live ly (words ! bh ! SIDE_READ) bx)"
    "(bytes ! bh ! a AND ATOM_WRITTEN \<noteq> 0) = (\<exists>bx\<in>set wboxes. page_of_box ly bx a \<and> box_live ly (words ! bh ! SIDE_WRITE) bx)"
    if "bh < ?BH" "a < prod_list B div 16" for bh a
    using byte [of bh a] that N(2) by (simp_all add: activity_byte_flags)
  show ?thesis
  proof (intro exI conjI allI impI)
    show "box_activity words ly rboxes SIDE_READ = Inr ?r" "box_activity words ly wboxes SIDE_WRITE = Inr ?w"
      "page_activity ly rboxes ?r wboxes ?w = Inr bytes" by (fact act b(1))+
  qed (rule flags(1) [THEN iffD2], assumption, assumption, rule cover(1), assumption, assumption,
      rule flags(2) [THEN iffD2], assumption, assumption, rule cover(2), assumption, assumption,
      rule flags(1) [THEN iffD1], assumption, assumption, assumption,
      rule flags(2) [THEN iffD1], assumption, assumption, assumption)
qed

text \<open>
  C7 (resident): From the amplitudes to the pages. A kernel entry over the page bits of a call that
  succeeds on a paged state leaves every leaf some token of the call writes in a resident page.
\<close>

theorem written_leaves_resident:
  assumes "state_ok pf s" "platform_ok pf" "format_of (rt_widths rt) d_v (rt_batch rt * rt_heads rt) = Inr fmt"
    and "layout_of fmt L = Inr ly" "0 < sf_D fmt" "side_statics ly rdense rlogical = Inr rs" "side_statics ly wdense wlogical = Inr ws"
    and "liveness_words rp wp ly rs ws = Inr words" "plane_calls rp ly = rt_batch rt * rt_heads rt" "page_bits words ly = Inr bytes"
    and "kernel_entry pf rt (Some (concat bytes)) d_v paging BC s = (Inr out, t)" "rs_arena t = Some (g, a)"
    and "bh < rt_batch rt * rt_heads rt" "leaf < prod_list (rt_widths rt)" "tok < ly_L ly" "leaf_live wp ly wdense wlogical bh tok leaf"
  shows "bh * (prod_list (rt_widths rt) div 16) + leaf div 16 < logical_pages a
    \<and> 0 \<le> ar_table a ! (bh * (prod_list (rt_widths rt) div 16) + leaf div 16)"
proof -
  note f = format_of_ids [OF assms(3)]
  have ly: "length (ly_B ly) = ly_D ly" "ly_B ly = rt_widths rt" using layout_levels [of "sf_D fmt" "sf_B fmt" L ly] assms(4) f by (simp_all add: layout_of_def)
  obtain spans where sp: "atom_spans ly = Inr spans" using lawful_atom_spans [of fmt ly] f ly assms(5) by (auto simp flip: length_greater_0_conv)
  note r = kernel_entry_resident [OF assms(1,2,11,3,12)]
  let ?n = "prod_list (rt_widths rt) div 16"
  have n: "layout_atoms ly = ?n" "prod_list (rt_widths rt) = ?n * 16"
    using atom_count(3) [OF sp] fold_mult [of "ly_B ly" 1] ly by (simp_all add: layout_atoms_def layout_N_def ATOM_LEAVES_def)
  have at: "leaf div 16 < ?n" using assms(14) n(2) by (metis less_mult_imp_div_less)
  have ix: "bh * ?n + leaf div 16 < rt_batch rt * rt_heads rt * ?n" by (rule mult_add_less [OF assms(13) at])
  have bytes: "bytes = map (\<lambda>bh. map (\<lambda>a. activity_byte (atom_touched rp ly rdense rlogical bh a) (atom_touched wp ly wdense wlogical bh a))
      [0..<?n]) [0..<rt_batch rt * rt_heads rt]"
    using page_bits_ok [OF assms(6,7) ly(1) assms(8) sp] assms(9,10) n(1) by simp
  have "concat bytes ! (bh * ?n + leaf div 16) = bytes ! bh ! (leaf div 16)"
    by (rule concat_const_nth) (use assms(13) at in \<open>auto simp: bytes\<close>)
  also have "\<dots> = activity_byte (atom_touched rp ly rdense rlogical bh (leaf div 16)) (atom_touched wp ly wdense wlogical bh (leaf div 16))"
    using assms(13) at by (simp add: bytes)
  finally have byte: "concat bytes ! (bh * ?n + leaf div 16) AND ATOM_WRITTEN \<noteq> 0"
    using assms(14-16) ly(2) by (auto simp: activity_byte_flags atom_touched_def)
  have len: "length (concat bytes) = rt_batch rt * rt_heads rt * ?n"
  proof -
    have "length (concat bytes) = length bytes * ?n" by (rule length_concat_const) (auto simp: bytes)
    moreover have "length bytes = rt_batch rt * rt_heads rt" by (simp add: bytes)
    ultimately show ?thesis by simp
  qed
  have "written_atoms (concat bytes) ! (bh * ?n + leaf div 16)" using byte ix len by (simp add: written_atoms_def)
  moreover have "bh * ?n + leaf div 16 < logical_pages a" using r(2) ix f by simp
  ultimately show ?thesis using r(1) ix len assms(12) by (simp add: written_resident_def)
qed


text \<open>The statics as bits.\<close>

lemma fold_or_bits: "bit (fold (\<lambda>i w. if P i then w OR push_bit i 1 else w) [0..<n] (0 :: nat)) k = (k < n \<and> P k)"
proof (induction n)
  case (Suc n)
  then show ?case by (auto simp: bit_or_iff bit_exp_iff less_Suc_eq)
qed simp

lemma mask_word_bit: "bit (mask_word ss i) k = (k < 32 \<and> i * 32 + k < length (ss_mask ss) \<and> ss_mask ss ! (i * 32 + k))"
  unfolding mask_word_def by (simp add: fold_or_bits)

lemma dense_bits_bit: "bit (dense_bits ss) k = (k < length (ss_dense ss) \<and> ss_dense ss ! k)"
proof -
  have "fold (\<lambda>(l, d) b. if d then b OR push_bit l 1 else b) (enumerate 0 xs) (0 :: nat)
      = fold (\<lambda>i w. if xs ! i then w OR push_bit i 1 else w) [0..<length xs] 0" for xs
  proof -
    have "enumerate 0 xs = map (\<lambda>i. (i, xs ! i)) [0..<length xs]" by (rule nth_equalityI) (simp_all add: nth_enumerate_eq)
    then show ?thesis by (simp add: fold_map comp_def)
  qed
  then show ?thesis by (simp add: dense_bits_def fold_or_bits)
qed

text \<open>
  What crosses the seam is exactly the statics: the dense bits name the skipped levels,
  and the mask words hold the width mask, one bit per row, all rows covered and nothing past them.
\<close>

theorem liveness_args_exact:
  assumes "make_layout D B L = Inr ly" "side_statics ly rdense rlogical = Inr rs" "side_statics ly wdense wlogical = Inr ws"
    and "args = liveness_args_of rp wp ly rs ws"
  shows "(\<forall>k. (bit (la_read_dense args) k \<longleftrightarrow> k < D \<and> rdense ! k) \<and> (bit (la_write_dense args) k \<longleftrightarrow> k < D \<and> wdense ! k))
    \<and> layout_rows ly \<le> length (la_read_mask args) * 32 \<and> length (la_write_mask args) = length (la_read_mask args)
    \<and> (\<forall>level<D. \<forall>digit<B ! level. let row = row_base ly level + digit in
         (bit (la_read_mask args ! (row div 32)) (row mod 32) \<longleftrightarrow> int digit < rlogical ! level)
       \<and> (bit (la_write_mask args ! (row div 32)) (row mod 32) \<longleftrightarrow> int digit < wlogical ! level))"
proof -
  have ly: "length (ly_B ly) = ly_D ly" "ly_D ly = D" "ly_B ly = B" using layout_levels [OF assms(1)] by simp_all
  note r = side_statics_ok [OF assms(2) ly(1)] and w = side_statics_ok [OF assms(3) ly(1)]
  let ?n = "mask_words (layout_rows ly)"
  have cover: "layout_rows ly \<le> ?n * 32" by (simp add: mask_words_def)
  have row: "bit (map (mask_word ss) [0..<?n] ! (row div 32)) (row mod 32) = ss_mask ss ! row"
    if "row < layout_rows ly" "length (ss_mask ss) = layout_rows ly" for ss row
  proof -
    have "row div 32 < ?n" using that(1) cover by (simp add: less_mult_imp_div_less)
    then show ?thesis using that by (simp add: mask_word_bit)
  qed
  have "\<forall>level<D. \<forall>digit<B ! level. let row = row_base ly level + digit in
         (bit (la_read_mask args ! (row div 32)) (row mod 32) \<longleftrightarrow> int digit < rlogical ! level)
       \<and> (bit (la_write_mask args ! (row div 32)) (row mod 32) \<longleftrightarrow> int digit < wlogical ! level)"
  proof (intro allI impI)
    fix level digit assume i: "level < D" "digit < B ! level"
    have "row_base ly level + digit < layout_rows ly" using row_in_layout [of level ly digit] i ly by simp
    then show "let row = row_base ly level + digit in
         (bit (la_read_mask args ! (row div 32)) (row mod 32) \<longleftrightarrow> int digit < rlogical ! level)
       \<and> (bit (la_write_mask args ! (row div 32)) (row mod 32) \<longleftrightarrow> int digit < wlogical ! level)"
      using row r(4) w(4) r(5) [of level digit] w(5) [of level digit] i ly by (simp add: assms(4) liveness_args_of_def Let_def)
  qed
  moreover have "layout_rows ly \<le> length (la_read_mask args) * 32 \<and> length (la_write_mask args) = length (la_read_mask args)"
    using cover by (simp add: assms(4) liveness_args_of_def Let_def)
  ultimately show ?thesis using r(1,3) w(1,3) ly(2) by (simp add: assms(4) liveness_args_of_def Let_def dense_bits_bit)
qed

text \<open>
  Every (batch-head, side, row, token) has a bit of its own inside the table.
\<close>

theorem liveness_bit_address:
  assumes "bh < BH" "side < SIDES" "r < layout_rows ly" "t < ly_L ly"
    and "bh' < BH" "side' < SIDES" "r' < layout_rows ly" "t' < ly_L ly"
  shows "word_index ly bh side r t < BH * call_words ly
    \<and> (word_index ly bh side r t = word_index ly bh' side' r' t' \<and> token_bit t = token_bit t' \<longleftrightarrow> bh = bh' \<and> side = side' \<and> r = r' \<and> t = t')"
proof -
  let ?ws = "[BH, SIDES, layout_rows ly, layout_words ly]"
  have at: "word_index ly b s q u = undigits ?ws [b, s, q, u div 32]" for b s q u
    by (simp add: word_index_def call_words_def side_words_def TOK_BITS_def algebra_simps)
  have word: "u div 32 < layout_words ly" if "u < ly_L ly" for u
    using that layout_words_cover [of ly] by (simp add: less_mult_imp_div_less)
  have d: "in_digits ?ws [bh, side, r, t div 32]" "in_digits ?ws [bh', side', r', t' div 32]" using assms word by simp_all
  have tok: "(token_bit t = token_bit t') = (t mod 32 = t' mod 32)" by (simp add: token_bit_def TOK_BITS_def)
  have split: "(t div 32 = t' div 32 \<and> t mod 32 = t' mod 32) = (t = t')" by (metis div_mult_mod_eq)
  have "word_index ly bh side r t < BH * call_words ly"
    using undigits_less [OF d(1)] unfolding at by (simp add: call_words_def side_words_def)
  then show ?thesis using undigits_inject [OF d] split unfolding at tok by auto
qed

text \<open>
  The box check has no lower bound on a start: a run of length one at digit -1
  of the second level passes it, and its bit is the last digit of the first level.
\<close>

theorem negative_start_reads_another_level:
  "box_check \<lparr>bx_start = [0, -1], bx_span = [4, 1]\<rparr> \<lparr>ly_D = 2, ly_B = [4, 4], ly_L = 1\<rparr> = Inr ()
   \<and> box_activity [[[[0], [0], [0], [1], [0], [0], [0], [0]], []]] \<lparr>ly_D = 2, ly_B = [4, 4], ly_L = 1\<rparr>
       [\<lparr>bx_start = [0, -1], bx_span = [4, 1]\<rparr>] SIDE_READ = Inr [[True]]"
  by code_simp

text \<open>The pass returns on planes of whole calls in bf16.\<close>

lemma mask_levels_total:
  assumes "\<forall>k\<in>set levels. k < length (ly_B ly)" "length (ss_mask ss) = layout_rows ly"
  shows "is_ok (mask_levels ly ss levels live)"
  using assms(1)
proof (induction levels arbitrary: live)
  case (Cons k levels)
  have "row_base ly k + ly_B ly ! k \<le> layout_rows ly"
    using row_base_Suc [of k ly] row_base_mono [of "Suc k" "length (ly_B ly)" ly] Cons.prems by (simp add: row_base_def layout_rows_def)
  then have "is_ok (mask_level ly ss k live)" using Cons.prems assms(2) by (simp add: mask_level_def Let_def)
  then show ?case using Cons by (auto simp: is_ok_iff)
qed simp

lemma side_live_total:
  assumes "side_statics ly dense logical = Inr ss" "length (ly_B ly) = ly_D ly" "ap_dtype p = ''bfloat16''"
    and "length (ap_data p) = BH * (ly_L ly * layout_rows ly)" "0 < ly_L ly * layout_rows ly"
  shows "\<exists>live. side_live p ly ss = Inr live \<and> length live = BH"
proof -
  note s = side_statics_ok [OF assms(1,2)]
  have "is_ok (amplitude_rows p ly)" using assms(3-5) by (simp add: amplitude_rows_def)
  then obtain amp where amp: "amplitude_rows p ly = Inr amp" by (auto simp: is_ok_iff)
  have "is_ok (mask_levels ly ss [0..<length (ss_dense ss)] (by_rows ly amp))"
    using s(1,3) assms(2) by (intro mask_levels_total s(4)) simp
  then obtain live where live: "side_live p ly ss = Inr live" by (auto simp: is_ok_iff side_live_def amp)
  have "plane_calls p ly = BH" using assms(4,5) by (simp add: plane_calls_def)
  then show ?thesis using live side_live_ok(1) [OF assms(1,2) live] by (auto simp: wf_live_def)
qed

lemma liveness_words_total:
  assumes "side_statics ly dense logical = Inr rs" "side_statics ly dense' logical' = Inr ws" "length (ly_B ly) = ly_D ly"
    and "ap_dtype rp = ''bfloat16''" "length (ap_data rp) = BH * (ly_L ly * layout_rows ly)"
    and "ap_dtype wp = ''bfloat16''" "length (ap_data wp) = BH * (ly_L ly * layout_rows ly)" "0 < ly_L ly * layout_rows ly"
  shows "\<exists>words. liveness_words rp wp ly rs ws = Inr words"
  using side_live_total [OF assms(1,3-5,8)] side_live_total [OF assms(2,3,6-8)] by (auto simp: liveness_words_def)

text \<open>
  The launch, as documented: the same answer, bit for bit, as the executable model. The arguments
  do determine that answer: a launch that reads the statics back from the bits is one.
\<close>

definition pass_ok :: "(liveness_args \<Rightarrow> 32 word list list list list res) \<Rightarrow> bool" where
  "pass_ok ext \<longleftrightarrow> (\<forall>rp wp D B L ly dense logical rs wdense wlogical ws.
     make_layout D B L = Inr ly \<longrightarrow> ap_tokens rp = ly_L ly \<longrightarrow> ap_tokens wp = ly_L ly
     \<longrightarrow> side_statics ly dense logical = Inr rs \<longrightarrow> side_statics ly wdense wlogical = Inr ws
     \<longrightarrow> ext (liveness_args_of rp wp ly rs ws) = liveness_words rp wp ly rs ws)"

definition read_static :: "nat list \<Rightarrow> nat \<Rightarrow> nat list \<Rightarrow> side_static" where
  "read_static B dense ms = \<lparr>ss_dense = map (bit dense) [0..<length B], ss_mask = map (\<lambda>row. bit (ms ! (row div 32)) (row mod 32)) [0..<sum_list B]\<rparr>"

definition model_pass :: "liveness_args \<Rightarrow> 32 word list list list list res" where
  "model_pass args = liveness_words (la_read args) (la_write args)
     \<lparr>ly_D = length (la_B args), ly_B = la_B args, ly_L = ap_tokens (la_read args)\<rparr>
     (read_static (la_B args) (la_read_dense args) (la_read_mask args)) (read_static (la_B args) (la_write_dense args) (la_write_mask args))"

lemma read_static_back:
  assumes "side_statics ly dense logical = Inr ss" "length (ly_B ly) = ly_D ly"
  shows "read_static (ly_B ly) (dense_bits ss) (map (mask_word ss) [0..<mask_words (layout_rows ly)]) = ss"
proof -
  note s = side_statics_ok [OF assms]
  have row: "row div 32 < mask_words (layout_rows ly)" if "row < layout_rows ly" for row
    using that by (simp add: mask_words_def less_mult_imp_div_less)
  have "map (bit (dense_bits ss)) [0..<length (ly_B ly)] = ss_dense ss"
    using s(1,3) assms(2) by (intro nth_equalityI) (simp_all add: dense_bits_bit)
  moreover have "map (\<lambda>r. bit (map (mask_word ss) [0..<mask_words (layout_rows ly)] ! (r div 32)) (r mod 32)) [0..<sum_list (ly_B ly)] = ss_mask ss"
    using s(4) row by (intro nth_equalityI) (simp_all add: mask_word_bit layout_rows_def)
  ultimately show ?thesis by (simp add: read_static_def)
qed

lemma model_pass_ok: "pass_ok model_pass"
  unfolding pass_ok_def
proof (intro allI impI)
  fix rp wp :: amp_plane and D B L ly dense logical rs wdense wlogical ws
  assume ly: "make_layout D B L = Inr ly" and t: "ap_tokens rp = ly_L ly"
    and s: "side_statics ly dense logical = Inr rs" "side_statics ly wdense wlogical = Inr ws"
  have B: "length (ly_B ly) = ly_D ly" using layout_levels [OF ly] by simp
  have "\<lparr>ly_D = length (ly_B ly), ly_B = ly_B ly, ly_L = ly_L ly\<rparr> = ly" using B by simp
  then show "model_pass (liveness_args_of rp wp ly rs ws) = liveness_words rp wp ly rs ws"
    using read_static_back [OF s(1) B] read_static_back [OF s(2) B] t
    by (simp add: model_pass_def liveness_args_of_def Let_def)
qed

lemma pass_okD:
  assumes "pass_ok ext" "make_layout D B L = Inr ly" "ap_tokens rp = ly_L ly" "ap_tokens wp = ly_L ly"
    and "side_statics ly dense logical = Inr rs" "side_statics ly wdense wlogical = Inr ws"
  shows "liveness_op ext rp wp ly rs ws = liveness_words rp wp ly rs ws"
  using assms unfolding pass_ok_def liveness_op_def by blast

text \<open>A leaf by its amplitudes: every level's digit has a magnitude.\<close>

definition leaf_voted :: "amp_plane \<Rightarrow> nat list \<Rightarrow> nat \<Rightarrow> nat \<Rightarrow> nat \<Rightarrow> bool" where
  "leaf_voted p widths bh t leaf = (\<forall>level<length widths.
     (ap_data p ! ((bh * ap_tokens p + t) * sum_list widths + (sum_list (take level widths) + leaf_digit widths level leaf))) AND 0x7FFF \<noteq> 0)"

text \<open>
  C23 (atombits): The activity byte of two planes is exact by their amplitudes: a page is written when
  some token of the write plane has a magnitude at every digit of one of its leaves, read likewise,
  the write plane standing in for a missing read plane. The call returns on every pair of whole planes.
\<close>

theorem atom_bits_exact:
  assumes "pass_ok ext" "rp = (case read_plane of Some p \<Rightarrow> p | None \<Rightarrow> wp)" "ap_tokens rp = ap_tokens wp" "0 < ap_tokens wp"
    and "ap_dtype rp = ''bfloat16''" "ap_dtype wp = ''bfloat16''" "\<forall>w\<in>set widths. 0 < w" "widths \<noteq> []"
    and "length (ap_data rp) = BH * (ap_tokens wp * sum_list widths)" "length (ap_data wp) = BH * (ap_tokens wp * sum_list widths)"
    and "atom_spans \<lparr>ly_D = length widths, ly_B = widths, ly_L = ap_tokens wp\<rparr> = Inr spans"
  shows "atom_bits ext wp widths read_plane = Inr (map (\<lambda>bh. map (\<lambda>a.
      (if \<exists>t<ap_tokens wp. \<exists>leaf<prod_list widths. leaf div 16 = a \<and> leaf_voted rp widths bh t leaf then ATOM_READ else 0)
      OR (if \<exists>t<ap_tokens wp. \<exists>leaf<prod_list widths. leaf div 16 = a \<and> leaf_voted wp widths bh t leaf then ATOM_WRITTEN else 0))
      [0..<prod_list widths div 16]) [0..<BH])"
proof -
  define ly where "ly = \<lparr>ly_D = length widths, ly_B = widths, ly_L = ap_tokens wp\<rparr>"
  have ml: "make_layout (length widths) widths (int (ap_tokens wp)) = Inr ly" using assms(4) by (simp add: make_layout_def ly_def)
  have f: "ly_D ly = length widths" "ly_B ly = widths" "ly_L ly = ap_tokens wp" "length (ly_B ly) = ly_D ly" by (simp_all add: ly_def)
  let ?dense = "replicate (length widths) False"
  have "is_ok (side_statics ly ?dense (map int widths))"
    using assms(7) f by (auto simp: side_statics_def list_ex_iff in_set_zip Suc_le_eq)
  then obtain st where st: "side_statics ly ?dense (map int widths) = Inr st" by (auto simp: is_ok_iff)
  have "0 < sum_list widths" using assms(7,8) by (cases widths) auto
  then have pos: "0 < ly_L ly * layout_rows ly" using assms(4) f by (simp add: layout_rows_def)
  obtain words where words: "liveness_words rp wp ly st st = Inr words"
    using liveness_words_total [OF st st f(4) assms(5) _ assms(6) _ pos, of BH] assms(9,10) f by (auto simp: layout_rows_def)
  have ext: "liveness_op ext rp wp ly st st = Inr words"
  proof -
    have "ap_tokens rp = ly_L ly" "ap_tokens wp = ly_L ly" using assms(3) f(3) by simp_all
    from pass_okD [OF assms(1) ml this st st] show ?thesis by (simp only: words)
  qed
  have voted: "leaf_live p ly ?dense (map int widths) bh t leaf = leaf_voted p widths bh t leaf" if "ap_tokens p = ap_tokens wp" for p bh t leaf
    using that f by (simp add: leaf_live_def live_digit_def leaf_voted_def voted_def layout_rows_def row_base_def BF16_MAGNITUDE_MASK_def)
  have calls: "plane_calls rp ly = BH" using assms(9) pos f by (simp add: plane_calls_def layout_rows_def)
  have n: "layout_atoms ly = prod_list widths div 16" using fold_mult [of widths 1] f by (simp add: layout_atoms_def layout_N_def ATOM_LEAVES_def)
  have "page_bits words ly = Inr (map (\<lambda>bh. map (\<lambda>a. activity_byte (atom_touched rp ly ?dense (map int widths) bh a) (atom_touched wp ly ?dense (map int widths) bh a))
      [0..<prod_list widths div 16]) [0..<BH])"
    using page_bits_ok [OF st st f(4) words assms(11) [folded ly_def]] calls n by simp
  also have "page_bits words ly = atom_bits ext wp widths read_plane"
    by (simp only: atom_bits_def ml rbind.simps f(1) st assms(2) [symmetric] ext)
  finally show ?thesis
    unfolding activity_byte_def atom_touched_def f(2,3) voted [OF assms(3)] voted [OF refl] .
qed

section \<open>Concrete calls\<close>

definition live_plane :: "16 word list \<Rightarrow> amp_plane" where
  "live_plane xs = \<lparr>ap_dtype = ''bfloat16'', ap_tokens = 2, ap_data = xs\<rparr>"

definition demo_layout :: layout where "demo_layout = \<lparr>ly_D = 2, ly_B = [8, 4], ly_L = 2\<rparr>"

text \<open>Two tokens over widths eight and four; a negative zero votes dead.\<close>

definition demo_read :: amp_plane where
  "demo_read = live_plane [0, 0x3F80, 0x8000, 0, 0, 0, 0, 0, 1, 0, 0, 0,  0, 0, 0, 0, 0, 0, 0, 0x8001, 0, 0, 0, 0x8000]"
definition demo_write :: amp_plane where
  "demo_write = live_plane [0, 0, 0, 0, 0x3F80, 0, 0, 0, 0, 0, 0, 0,  0, 0, 0, 0, 0, 0, 0, 0, 0, 0, 0, 0]"
definition demo_read_static :: side_static where
  "demo_read_static = \<lparr>ss_dense = [False, False], ss_mask = replicate 12 True\<rparr>"
definition demo_write_static :: side_static where
  "demo_write_static = \<lparr>ss_dense = [False, True], ss_mask = replicate 8 True @ [True, True, True, False]\<rparr>"

lemma demo_layout_made: "make_layout 2 [8, 4] 2 = Inr demo_layout"
  by (simp add: make_layout_def demo_layout_def)

lemma demo_statics: "side_statics demo_layout [False, False] [8, 4] = Inr demo_read_static"
    "side_statics demo_layout [False, True] [8, 3] = Inr demo_write_static"
  by code_simp+

definition demo_words :: "32 word list list list list" where
  "demo_words = [[[[0], [1], [0], [0], [0], [0], [0], [2], [1], [0], [0], [0]], [[0], [0], [0], [0], [1], [0], [0], [0], [3], [3], [3], [0]]]]"

lemma demo_words_made: "liveness_words demo_read demo_write demo_layout demo_read_static demo_write_static = Inr demo_words"
  by code_simp

lemma demo_spans: "atom_spans demo_layout = Inr [4, 4]"
  by code_simp


theorem liveness_words_exact_witness:
  "unpack_words demo_layout demo_words ! 0 ! SIDE_READ ! (row_base demo_layout 0 + 1) ! 0
   \<and> \<not> unpack_words demo_layout demo_words ! 0 ! SIDE_READ ! (row_base demo_layout 0 + 2) ! 0
   \<and> \<not> bit (demo_words ! 0 ! 1 ! (row_base demo_layout 1 + 2) ! 0) 9"
proof -
  note e = liveness_words_exact [OF demo_layout_made demo_statics demo_words_made, of 0]
  have "live_digit demo_read demo_layout [False, False] [8, 4] 0 0 1 0" "\<not> live_digit demo_read demo_layout [False, False] [8, 4] 0 0 2 0"
    "0 < length demo_words" "(0 :: nat) < ly_L demo_layout" "layout_words demo_layout = 1" "ly_L demo_layout = 2" by code_simp+
  then show ?thesis using e [of 0 1 0 0] e [of 0 2 0 0] e [of 1 2 9 1] by (simp add: SIDES_def)
qed

lemma demo_page_bits: "page_bits demo_words demo_layout = Inr [[2, 1]]"
  by code_simp

theorem page_bits_exact_witness:
  "(\<exists>t<ly_L demo_layout. \<exists>leaf<prod_list [8, 4]. leaf div 16 = 0 \<and> leaf_live demo_read demo_layout [False, False] [8, 4] 0 t leaf)
   \<and> \<not> (\<exists>t<ly_L demo_layout. \<exists>leaf<prod_list [8, 4]. leaf div 16 = 1 \<and> leaf_live demo_read demo_layout [False, False] [8, 4] 0 t leaf)
   \<and> (\<exists>t<ly_L demo_layout. \<exists>leaf<prod_list [8, 4]. leaf div 16 = 1 \<and> leaf_live demo_write demo_layout [False, True] [8, 3] 0 t leaf)"
proof -
  have calls: "plane_calls demo_read demo_layout = 1" by code_simp
  have two: "[0..<1] = [0 :: nat]" "[0..<prod_list [8, 4] div 16] = [0, 1 :: nat]" by (simp_all add: upt_rec)
  define R W where "R a = (\<exists>t<ly_L demo_layout. \<exists>leaf<prod_list [8, 4]. leaf div 16 = a \<and> leaf_live demo_read demo_layout [False, False] [8, 4] 0 t leaf)"
    and "W a = (\<exists>t<ly_L demo_layout. \<exists>leaf<prod_list [8, 4]. leaf div 16 = a \<and> leaf_live demo_write demo_layout [False, True] [8, 3] 0 t leaf)" for a
  have "[[2, 1]] = [[(if R 0 then ATOM_READ else 0) OR (if W 0 then ATOM_WRITTEN else 0), (if R 1 then ATOM_READ else 0) OR (if W 1 then ATOM_WRITTEN else 0)]]"
    using page_bits_exact [OF demo_layout_made demo_spans demo_statics demo_words_made, unfolded demo_page_bits calls two list.map]
    unfolding R_def W_def by (simp only: sum.inject)
  then have "R 0 \<and> \<not> R 1 \<and> W 1" by (auto simp: ATOM_READ_def ATOM_WRITTEN_def split: if_splits)
  then show ?thesis unfolding R_def W_def .
qed

theorem page_activity_at_atoms_witness:
  "\<exists>boxes. atom_boxes demo_layout = Inr boxes
     \<and> rbind (box_activity demo_words demo_layout boxes SIDE_READ) (\<lambda>r. rbind (box_activity demo_words demo_layout boxes SIDE_WRITE) (\<lambda>w.
         page_activity demo_layout boxes r boxes w)) = Inr [[2, 1]]"
proof -
  have "is_ok (atom_boxes demo_layout)" by code_simp
  then obtain boxes where "atom_boxes demo_layout = Inr boxes" by (auto simp: is_ok_iff)
  then show ?thesis using page_activity_at_atoms [OF demo_layout_made demo_statics demo_words_made] demo_page_bits by simp
qed

text \<open>A carve whose boxes straddle the pages: the first four digits against the others.\<close>

definition demo_carve :: "digit_box list" where
  "demo_carve = [\<lparr>bx_start = [0, 0], bx_span = [8, 2]\<rparr>, \<lparr>bx_start = [0, 2], bx_span = [8, 2]\<rparr>]"

theorem page_activity_sound_witness:
  "\<exists>r w bytes. box_activity demo_words demo_layout demo_carve SIDE_READ = Inr r \<and> box_activity demo_words demo_layout demo_carve SIDE_WRITE = Inr w
     \<and> page_activity demo_layout demo_carve r demo_carve w = Inr bytes \<and> bytes ! 0 ! 0 AND ATOM_READ \<noteq> 0 \<and> bytes ! 0 ! 1 AND ATOM_WRITTEN \<noteq> 0"
proof -
  have ok: "\<forall>bx\<in>set demo_carve. box_ok demo_layout bx" by code_simp
  have facts: "demo_carve ! 0 \<in> set demo_carve \<and> (0 :: nat) < ly_L demo_layout \<and> in_box demo_layout (demo_carve ! 0) 4
      \<and> 4 div 16 = (0 :: nat) \<and> leaf_live demo_read demo_layout [False, False] [8, 4] 0 0 4"
    "demo_carve ! 0 \<in> set demo_carve \<and> (0 :: nat) < ly_L demo_layout \<and> in_box demo_layout (demo_carve ! 0) 16
      \<and> 16 div 16 = (1 :: nat) \<and> leaf_live demo_write demo_layout [False, True] [8, 3] 0 0 16"
    "plane_calls demo_read demo_layout = 1" by code_simp+
  have "\<exists>bx\<in>set demo_carve. \<exists>t<ly_L demo_layout. \<exists>leaf. in_box demo_layout bx leaf \<and> leaf div 16 = 0 \<and> leaf_live demo_read demo_layout [False, False] [8, 4] 0 t leaf"
    using facts(1) by blast
  note rd = this
  have wr: "\<exists>bx\<in>set demo_carve. \<exists>t<ly_L demo_layout. \<exists>leaf. in_box demo_layout bx leaf \<and> leaf div 16 = 1 \<and> leaf_live demo_write demo_layout [False, True] [8, 3] 0 t leaf"
    using facts(2) by blast
  have calls: "0 < plane_calls demo_read demo_layout" "0 < prod_list [8, 4] div (16 :: nat)" "1 < prod_list [8, 4] div (16 :: nat)" "16 dvd prod_list [8, 4 :: nat]"
    using facts(3) by simp_all
  obtain r w bytes where a: "box_activity demo_words demo_layout demo_carve SIDE_READ = Inr r" "box_activity demo_words demo_layout demo_carve SIDE_WRITE = Inr w"
    "page_activity demo_layout demo_carve r demo_carve w = Inr bytes"
    and b: "\<forall>bh<plane_calls demo_read demo_layout. \<forall>a<prod_list [8, 4] div 16.
          ((\<exists>bx\<in>set demo_carve. \<exists>t<ly_L demo_layout. \<exists>leaf. in_box demo_layout bx leaf \<and> leaf div 16 = a \<and> leaf_live demo_read demo_layout [False, False] [8, 4] bh t leaf)
             \<longrightarrow> bytes ! bh ! a AND ATOM_READ \<noteq> 0)
          \<and> ((\<exists>bx\<in>set demo_carve. \<exists>t<ly_L demo_layout. \<exists>leaf. in_box demo_layout bx leaf \<and> leaf div 16 = a \<and> leaf_live demo_write demo_layout [False, True] [8, 3] bh t leaf)
             \<longrightarrow> bytes ! bh ! a AND ATOM_WRITTEN \<noteq> 0)
          \<and> (bytes ! bh ! a AND ATOM_READ \<noteq> 0 \<longrightarrow> (\<exists>bx\<in>set demo_carve. page_of_box demo_layout bx a \<and> box_live demo_layout (demo_words ! bh ! SIDE_READ) bx))
          \<and> (bytes ! bh ! a AND ATOM_WRITTEN \<noteq> 0 \<longrightarrow> (\<exists>bx\<in>set demo_carve. page_of_box demo_layout bx a \<and> box_live demo_layout (demo_words ! bh ! SIDE_WRITE) bx))"
    using page_activity_sound [OF demo_layout_made zero_less_numeral calls(4) demo_statics demo_words_made ok ok] by (elim exE conjE) rule
  have "bytes ! 0 ! 0 AND ATOM_READ \<noteq> 0" "bytes ! 0 ! 1 AND ATOM_WRITTEN \<noteq> 0"
    using b [rule_format, OF calls(1,2)] b [rule_format, OF calls(1,3)] rd wr by (iprover, iprover)
  then show ?thesis using a by blast
qed

text \<open>A paged state of one batch-head over 64 leaves, dense levels: five digits written, all read.\<close>

definition wide_layout :: layout where "wide_layout = \<lparr>ly_D = 1, ly_B = [64], ly_L = 1\<rparr>"
definition wide_plane :: amp_plane where "wide_plane = live_plane (replicate 64 0)"
definition wide_static :: "nat \<Rightarrow> side_static" where
  "wide_static b = \<lparr>ss_dense = [True], ss_mask = replicate b True @ replicate (64 - b) False\<rparr>"

lemma wide_static_made: "b \<le> 64 \<Longrightarrow> 0 < b \<Longrightarrow> side_statics wide_layout [True] [int b] = Inr (wide_static b)"
  by (auto simp: side_statics_def wide_layout_def wide_static_def list_eq_iff_nth_eq nth_append)

lemma wide_words: "\<exists>words. liveness_words wide_plane wide_plane wide_layout (wide_static 64) (wide_static 5) = Inr words"
  by (rule liveness_words_total [OF wide_static_made wide_static_made, where BH = 1])
     (simp_all add: wide_layout_def wide_plane_def live_plane_def layout_rows_def)

lemma wide_touched: "atom_touched wide_plane wide_layout [True] [int b] 0 a \<longleftrightarrow> (\<exists>leaf<64. leaf div 16 = a \<and> leaf < b)"
proof -
  have "leaf_live wide_plane wide_layout [True] [int b] 0 t leaf = (leaf < b)" if "leaf < 64" for t leaf
    using that by (simp add: leaf_live_def live_digit_def wide_layout_def leaf_digit_def radix_strides_def)
  then show ?thesis by (auto simp: atom_touched_def wide_layout_def)
qed


lemma wide_bytes:
  assumes "liveness_words wide_plane wide_plane wide_layout (wide_static 64) (wide_static 5) = Inr words"
  shows "page_bits words wide_layout = Inr [[3, 2, 2, 2]]"
proof -
  have sp: "atom_spans wide_layout = Inr [16]" by code_simp
  have n: "[0..<layout_atoms wide_layout] = [0, 1, 2, 3]" "[0..<plane_calls wide_plane wide_layout] = [0]"
    by (simp_all add: layout_atoms_def layout_N_def ATOM_LEAVES_def wide_layout_def plane_calls_def wide_plane_def live_plane_def layout_rows_def upt_rec)
  have r: "atom_touched wide_plane wide_layout [True] [int 64] 0 a" if "a < 4" for a
    unfolding wide_touched using that by (intro exI [of _ "a * 16"]) simp
  have w: "atom_touched wide_plane wide_layout [True] [int 5] 0 a = (a = 0)" for a
    unfolding wide_touched by (auto intro: exI [of _ 0])
  have "length (ly_B wide_layout) = ly_D wide_layout" by (simp add: wide_layout_def)
  then show ?thesis
    using page_bits_ok [OF wide_static_made wide_static_made _ assms sp] r w
    by (simp add: n activity_byte_def ATOM_READ_def ATOM_WRITTEN_def)
qed

theorem written_leaves_resident_witness:
  "\<exists>words t g a. liveness_words wide_plane wide_plane wide_layout (wide_static 64) (wide_static 5) = Inr words
     \<and> page_bits words wide_layout = Inr [[3, 2, 2, 2]]
     \<and> snd (kernel_entry exact_platform demo_routes (Some [3, 2, 2, 2]) 0 False 32 (demo_state 0)) = t
     \<and> rs_arena t = Some (g, a) \<and> 0 \<le> ar_table a ! (4 div 16)"
proof -
  obtain words where words: "liveness_words wide_plane wide_plane wide_layout (wide_static 64) (wide_static 5) = Inr words"
    using wide_words by blast
  obtain r t where k: "kernel_entry exact_platform demo_routes (Some [3, 2, 2, 2]) 0 False 32 (demo_state 0) = (r, t)"
    by (cases "kernel_entry exact_platform demo_routes (Some [3, 2, 2, 2]) 0 False 32 (demo_state 0)")
  have "bind_or_check demo_routes 0 False (demo_state 0) = (Inr (), demo_state 0)"
    using demo_format_of format_check_Inr [of demo_format demo_format]
    by (simp add: bind_or_check_def demo_routes_def demo_state_def bound_def)
  moreover have "entry_bitmap (Some [3, 2, 2, 2]) (demo_state 0) = Inr (Some [[True, False, False, False]])" by code_simp
  moreover have "is_ok (fst (plan_exact [[True, False, False, False]] False (demo_arena 0)))" by code_simp
  ultimately obtain out g a where ok: "r = Inr out" "rs_arena t = Some (g, a)" using k
    by (auto simp: kernel_entry_def demo_state_def plan_bits_def is_ok_iff split: prod.splits sum.splits)
  have f: "format_of (rt_widths demo_routes) 0 (rt_batch demo_routes * rt_heads demo_routes) = Inr demo_format"
    using demo_format_of by (simp add: demo_routes_def)
  have c: "layout_of demo_format 1 = Inr wide_layout" "0 < sf_D demo_format" "plane_calls wide_plane wide_layout = rt_batch demo_routes * rt_heads demo_routes"
    "0 < rt_batch demo_routes * rt_heads demo_routes" "4 < prod_list (rt_widths demo_routes)" "0 < ly_L wide_layout"
    by (simp_all add: layout_of_def make_layout_def demo_format_def wide_layout_def demo_routes_def plane_calls_def wide_plane_def live_plane_def layout_rows_def)
  have live: "leaf_live wide_plane wide_layout [True] [int 5] 0 0 4"
    by (simp add: leaf_live_def live_digit_def wide_layout_def leaf_digit_def radix_strides_def)
  have st: "side_statics wide_layout [True] [int 64] = Inr (wide_static 64)" "side_statics wide_layout [True] [int 5] = Inr (wide_static 5)"
    by (rule wide_static_made; simp)+
  have k': "kernel_entry exact_platform demo_routes (Some (concat [[3, 2, 2, 2]])) 0 False 32 (demo_state 0) = (Inr out, t)"
    using k ok(1) by simp
  have "0 \<le> ar_table a ! (0 * (prod_list (rt_widths demo_routes) div 16) + 4 div 16)"
    by (rule written_leaves_resident [OF demo_states_ok(1) exact_platform_ok f c(1,2) st words c(3) wide_bytes [OF words] k' ok(2) c(4-6) live, THEN conjunct2])
  then show ?thesis using words wide_bytes [OF words] k ok(2) by auto
qed


theorem liveness_bit_address_witness:
  "word_index demo_layout 0 1 11 1 < 1 * call_words demo_layout \<and> word_index demo_layout 0 1 11 1 \<noteq> word_index demo_layout 0 0 11 1"
proof -
  have "(1 :: nat) < SIDES" "0 < SIDES" "11 < layout_rows demo_layout" "1 < ly_L demo_layout" by code_simp+
  then show ?thesis using liveness_bit_address [of 0 1 1 11 demo_layout 1 0 0 11 1] by simp
qed


theorem liveness_args_exact_witness:
  "case liveness_args_of demo_read demo_write demo_layout demo_read_static demo_write_static of args \<Rightarrow>
     \<not> bit (la_read_dense args) 1 \<and> bit (la_write_dense args) 1
     \<and> \<not> bit (la_write_mask args ! ((row_base demo_layout 1 + 3) div 32)) ((row_base demo_layout 1 + 3) mod 32)"
proof -
  note e = liveness_args_exact [OF demo_layout_made demo_statics refl, of demo_read demo_write]
  have "\<not> (int 3 < [8, 3] ! 1)" "(1 :: nat) < 2" "(3 :: nat) < [8, 4] ! 1" by simp_all
  then have "\<not> bit (la_write_mask (liveness_args_of demo_read demo_write demo_layout demo_read_static demo_write_static)
      ! ((row_base demo_layout 1 + 3) div 32)) ((row_base demo_layout 1 + 3) mod 32)"
    using e [THEN conjunct2, THEN conjunct2, THEN conjunct2, rule_format, of 1 3, unfolded Let_def] by blast
  then show ?thesis using e [THEN conjunct1, THEN spec, of 1] by simp
qed


theorem atom_bits_exact_witness:
  "\<exists>bytes. atom_bits model_pass demo_write [8, 4] (Some demo_read) = Inr bytes \<and> length bytes = 1"
proof -
  have p: "demo_read = (case Some demo_read of Some p \<Rightarrow> p | None \<Rightarrow> demo_write)" "ap_tokens demo_read = ap_tokens demo_write" "0 < ap_tokens demo_write"
    "ap_dtype demo_read = ''bfloat16''" "ap_dtype demo_write = ''bfloat16''" "\<forall>w\<in>set [8, 4 :: nat]. 0 < w" "[8, 4 :: nat] \<noteq> []"
    "length (ap_data demo_read) = 1 * (ap_tokens demo_write * sum_list [8, 4])" "length (ap_data demo_write) = 1 * (ap_tokens demo_write * sum_list [8, 4])"
    by (simp_all add: demo_read_def demo_write_def live_plane_def)
  have sp: "atom_spans \<lparr>ly_D = length [8, 4 :: nat], ly_B = [8, 4], ly_L = ap_tokens demo_write\<rparr> = Inr [4, 4]" by code_simp
  show ?thesis using atom_bits_exact [OF model_pass_ok p sp] by simp
qed

end
