(* ===== verification/Rola_Oracle.thy ===== *)
theory Rola_Oracle
  imports Rola_Bundle_Props
begin

text \<open>
  The reference operator: \<^verbatim>\<open>naive_rola\<close> (\<^verbatim>\<open>rola/ops/naive.py\<close>) and its input contract
  (\<^verbatim>\<open>rola/ops/_oracle_contract.py\<close>). A tensor is a shape and an entry per index; its entries are
  reals, the exact arithmetic the fp64 reference stands for. What is not a tensor is
  \<^const>\<open>None\<close>.
\<close>

record ntensor =
  nt_shape :: "nat list"
  nt_at :: "nat list \<Rightarrow> real"

text \<open>The indices of a shape, in row-major order.\<close>

fun indices :: "nat list \<Rightarrow> nat list list" where
  "indices [] = [[]]"
| "indices (n # ns) = concat (map (\<lambda>i. map (\<lambda>idx. i # idx) (indices ns)) [0..<n])"

definition tensor_any :: "(real \<Rightarrow> bool) \<Rightarrow> ntensor \<Rightarrow> bool" where
  "tensor_any p x \<longleftrightarrow> list_ex (\<lambda>idx. p (nt_at x idx)) (indices (nt_shape x))"

section \<open>The input contract\<close>

definition SIMPLEX_ATOL :: real where "SIMPLEX_ATOL = 5 / 1000"

text \<open>\<^verbatim>\<open>torch.allclose(mass, 1, atol=atol)\<close>, whose relative tolerance is its default.\<close>

definition close_to_one :: "real \<Rightarrow> real \<Rightarrow> bool" where
  "close_to_one atol mass \<longleftrightarrow> \<bar>mass - 1\<bar> \<le> atol + 1 / 100000 * \<bar>1\<bar>"

definition row_mass :: "ntensor \<Rightarrow> nat list \<Rightarrow> real" where
  "row_mass x idx = (\<Sum>d\<leftarrow>[0..<last (nt_shape x)]. nt_at x (idx @ [d]))"

definition check_simplex_level :: "real \<Rightarrow> ntensor \<Rightarrow> unit res" where
  "check_simplex_level atol x =
     (if tensor_any (\<lambda>p. p < - atol) x then Inl (ValueError ''must be nonnegative (p >= 0)'')
      else refuse (\<not> list_all (\<lambda>idx. close_to_one atol (row_mass x idx)) (indices (butlast (nt_shape x))))
        (ValueError ''must sum to 1 over its width''))"

definition validate_simplex :: "real \<Rightarrow> ntensor list \<Rightarrow> unit res" where
  "validate_simplex atol levels = checks (map (check_simplex_level atol) levels)"

definition check_side_level :: "nat list \<Rightarrow> ntensor option \<Rightarrow> nat \<Rightarrow> unit res" where
  "check_side_level prefix factors width =
     (case factors of None \<Rightarrow> Inl (TypeError ''must be a torch.Tensor'')
      | Some x \<Rightarrow> refuse (nt_shape x \<noteq> prefix @ [width]) (ValueError ''must have shape [B,T,H,width_l]''))"

definition check_side :: "nat list \<Rightarrow> ntensor option list \<Rightarrow> level list \<Rightarrow> unit res" where
  "check_side prefix levels topology =
     (if length levels \<noteq> topology_D topology then Inl (ValueError ''must contain one tensor per level'')
      else checks (map2 (check_side_level prefix) levels (topology_widths topology)))"

text \<open>The decay: absent, the dials of a \<^verbatim>\<open>LeafMassDecay\<close>, or an object of another class.\<close>

datatype oracle_decay = NoDecay | Dials "ntensor list" | OtherDecay

definition dial_meta :: "ntensor \<Rightarrow> dial" where "dial_meta x = Dial (nt_shape x) [] False"

definition check_decay :: "nat \<Rightarrow> oracle_decay \<Rightarrow> level list \<Rightarrow> unit res" where
  "check_decay H decay topology =
     (case decay of NoDecay \<Rightarrow> Inr ()
      | OtherDecay \<Rightarrow> Inl (TypeError ''decay must be None or LeafMassDecay'')
      | Dials dials \<Rightarrow>
          rbind (decay_validate_against (map dial_meta dials) topology) (\<lambda>_.
            checks (map (\<lambda>d. refuse (hd (nt_shape d) \<noteq> H) (ValueError ''head dim must match H'')) dials)))"

definition validate_inputs ::
    "ntensor \<Rightarrow> ntensor option list \<Rightarrow> ntensor option list \<Rightarrow> ntensor \<Rightarrow> level list \<Rightarrow> oracle_decay
     \<Rightarrow> (nat \<times> nat \<times> nat \<times> nat) res" where
  "validate_inputs v read_levels write_levels g_write topology decay =
     (case nt_shape v of
        [B, T, H, d_v] \<Rightarrow>
          rbind (check_side [B, T, H] read_levels topology) (\<lambda>_.
          rbind (check_side [B, T, H] write_levels topology) (\<lambda>_.
          rbind (refuse (nt_shape g_write \<noteq> [B, T, H]) (ValueError ''g_write must have shape [B,T,H]'')) (\<lambda>_.
          rbind (refuse (tensor_any (\<lambda>g. g \<le> 0) g_write) (ValueError ''g_write must be strictly positive'')) (\<lambda>_.
          rbind (check_decay H decay topology) (\<lambda>_. Inr (B, T, H, d_v))))))
      | _ \<Rightarrow> Inl (ValueError ''v must have shape [B,T,H,d_v]''))"

definition initial_cache :: "ntensor option option \<Rightarrow> nat \<Rightarrow> nat \<Rightarrow> nat \<Rightarrow> nat \<Rightarrow> ntensor res" where
  "initial_cache initial_state B H N d_v =
     (case initial_state of
        None \<Rightarrow> Inr \<lparr>nt_shape = [B, H, N, d_v + 1], nt_at = \<lambda>_. 0\<rparr>
      | Some None \<Rightarrow> Inl (ValueError ''initial_state must have shape'')
      | Some (Some x) \<Rightarrow>
          if nt_shape x \<noteq> [B, H, N, d_v + 1] then Inl (ValueError ''initial_state must have shape'') else Inr x)"

section \<open>The recurrence\<close>

text \<open>One leaf's product, from the source's \<^verbatim>\<open>leaves = None\<close> on.\<close>

fun leaf_product :: "(ntensor \<times> nat) list \<Rightarrow> nat list \<Rightarrow> nat \<Rightarrow> real option" where
  "leaf_product [] idx s = None"
| "leaf_product [(x, stride)] idx s = Some (nt_at x (idx @ [(s div stride) mod last (nt_shape x)]))"
| "leaf_product ((x, stride) # y # levels) idx s =
     (case leaf_product (y # levels) idx s of None \<Rightarrow> None
      | Some p \<Rightarrow> Some (nt_at x (idx @ [(s div stride) mod last (nt_shape x)]) * p))"

text \<open>\<^verbatim>\<open>torch.pow\<close> on a base that is not negative.\<close>

definition tpow :: "real \<Rightarrow> real \<Rightarrow> real" where
  "tpow x y = (if y = 0 then 1 else x powr y)"

record oracle_call =
  oc_N :: nat
  oc_d_v :: nat
  oc_eps :: real
  oc_R :: "nat list \<Rightarrow> real"
  oc_W :: "nat list \<Rightarrow> real"
  oc_keep :: "nat list \<Rightarrow> real"
  oc_value :: "nat list \<Rightarrow> real"

type_synonym oracle_state = "nat list \<Rightarrow> real"

text \<open>\<^verbatim>\<open>state = keep[:, t, ..., None] * state + W[:, t, ..., None] * deposit_value[:, t, :, None, :]\<close>\<close>

definition oracle_state_step :: "oracle_call \<Rightarrow> nat \<Rightarrow> oracle_state \<Rightarrow> oracle_state" where
  "oracle_state_step oc t state = (\<lambda>idx. case idx of
      [b, h, n, c] \<Rightarrow> oc_keep oc [b, t, h, n] * state [b, h, n, c] + oc_W oc [b, t, h, n] * oc_value oc [b, t, h, c]
    | _ \<Rightarrow> 0)"

definition oracle_readout :: "oracle_call \<Rightarrow> nat \<Rightarrow> oracle_state \<Rightarrow> nat \<Rightarrow> nat \<Rightarrow> nat \<Rightarrow> real" where
  "oracle_readout oc t state b h c = (\<Sum>n\<leftarrow>[0..<oc_N oc]. oc_R oc [b, t, h, n] * state [b, h, n, c])"

definition oracle_output :: "oracle_call \<Rightarrow> nat \<Rightarrow> oracle_state \<Rightarrow> nat \<Rightarrow> nat \<Rightarrow> nat \<Rightarrow> real" where
  "oracle_output oc t state b h c =
     oracle_readout oc t state b h c / (oracle_readout oc t state b h (oc_d_v oc) + oc_eps oc)"

fun oracle_loop :: "oracle_call \<Rightarrow> nat list \<Rightarrow> oracle_state \<Rightarrow> (nat \<Rightarrow> nat \<Rightarrow> nat \<Rightarrow> real) list \<times> oracle_state" where
  "oracle_loop oc [] state = ([], state)"
| "oracle_loop oc (t # ts) state =
     (let state = oracle_state_step oc t state;
          (outputs, final) = oracle_loop oc ts state
      in (oracle_output oc t state # outputs, final))"

text \<open>The operands: the ones column, the products per leaf and the gate.\<close>

definition with_ones :: "ntensor \<Rightarrow> nat \<Rightarrow> nat list \<Rightarrow> real" where
  "with_ones v d_v = (\<lambda>idx. case idx of [b, t, h, c] \<Rightarrow> if c < d_v then nt_at v [b, t, h, c] else 1 | _ \<Rightarrow> 0)"

definition product_at :: "ntensor list \<Rightarrow> nat list \<Rightarrow> nat list \<Rightarrow> nat \<Rightarrow> real" where
  "product_at levels strides idx s = (case leaf_product (zip levels strides) idx s of None \<Rightarrow> 0 | Some p \<Rightarrow> p)"

definition keep_of :: "oracle_decay \<Rightarrow> ntensor list \<Rightarrow> nat list \<Rightarrow> nat list \<Rightarrow> real" where
  "keep_of decay write_levels strides = (\<lambda>idx. case idx of
      [b, t, h, n] \<Rightarrow> (case decay of
          Dials dials \<Rightarrow> tpow (1 - product_at dials strides [h] n) (product_at write_levels strides [b, t, h] n)
        | _ \<Rightarrow> 1)
    | _ \<Rightarrow> 0)"

definition oracle_call_of ::
    "ntensor \<Rightarrow> ntensor list \<Rightarrow> ntensor list \<Rightarrow> ntensor \<Rightarrow> nat list \<Rightarrow> oracle_decay \<Rightarrow> real \<Rightarrow> nat \<Rightarrow> oracle_call" where
  "oracle_call_of v read_levels write_levels g_write widths decay eps d_v =
     (let strides = oracle_radix_strides widths in
      \<lparr>oc_N = oracle_leaf_capacity widths, oc_d_v = d_v, oc_eps = eps,
       oc_R = (\<lambda>idx. case idx of [b, t, h, n] \<Rightarrow> product_at read_levels strides [b, t, h] n | _ \<Rightarrow> 0),
       oc_W = (\<lambda>idx. case idx of [b, t, h, n] \<Rightarrow> nt_at g_write [b, t, h] * product_at write_levels strides [b, t, h] n | _ \<Rightarrow> 0),
       oc_keep = keep_of decay write_levels strides, oc_value = with_ones v d_v\<rparr>)"

text \<open>A topology without a level fails in the product, which reads the device of the first level.\<close>

definition naive_rola ::
    "ntensor \<Rightarrow> ntensor option list \<Rightarrow> ntensor option list \<Rightarrow> ntensor \<Rightarrow> level list \<Rightarrow> oracle_decay \<Rightarrow> real
     \<Rightarrow> ntensor option option \<Rightarrow> bool \<Rightarrow> (ntensor \<times> ntensor option) res" where
  "naive_rola v read_levels write_levels g_write topology decay eps initial_state output_final_state =
     rbind (validate_inputs v read_levels write_levels g_write topology decay) (\<lambda>(B, T, H, d_v).
     let widths = topology_widths topology; N = oracle_leaf_capacity widths;
         reads = map the read_levels; writes = map the write_levels in
     rbind (validate_simplex SIMPLEX_ATOL reads) (\<lambda>_.
     rbind (validate_simplex SIMPLEX_ATOL writes) (\<lambda>_.
     if topology_D topology = 0 then Inl (IndexError ''tuple index out of range'')
     else let oc = oracle_call_of v reads writes g_write widths decay eps d_v in
       rbind (initial_cache initial_state B H N d_v) (\<lambda>state.
         let (outputs, final) = oracle_loop oc [0..<T] (nt_at state) in
         Inr (\<lparr>nt_shape = [B, T, H, d_v], nt_at = (\<lambda>idx. case idx of [b, t, h, c] \<Rightarrow> (outputs ! t) b h c | _ \<Rightarrow> 0)\<rparr>,
              if output_final_state then Some \<lparr>nt_shape = [B, H, N, d_v + 1], nt_at = final\<rparr> else None)))))"

end
