(* ===== verification/Rola_Oracle_Props.thy ===== *)
theory Rola_Oracle_Props
  imports Rola_Oracle Rola_Padding
begin

text \<open>
  The reference operator, proved: what its input contract accepts, and its recurrence unrolled into
  what the entry state keeps and what every deposit keeps of itself.
\<close>

section \<open>The loop\<close>

fun state_at :: "oracle_call \<Rightarrow> oracle_state \<Rightarrow> nat \<Rightarrow> oracle_state" where
  "state_at oc S 0 = S"
| "state_at oc S (Suc t) = oracle_state_step oc t (state_at oc S t)"

lemma oracle_loop_at:
  "oracle_loop oc [t..<t + n] (state_at oc S t)
   = (map (\<lambda>i. oracle_output oc i (state_at oc S (Suc i))) [t..<t + n], state_at oc S (t + n))"
proof (induction n arbitrary: t)
  case (Suc n)
  have "[t..<t + Suc n] = t # [Suc t..<Suc t + n]" by (simp add: upt_rec)
  then show ?case using Suc.IH [of "Suc t"] by (simp add: Let_def)
qed simp

lemma oracle_loop_start:
  "oracle_loop oc [0..<T] S = (map (\<lambda>i. oracle_output oc i (state_at oc S (Suc i))) [0..<T], state_at oc S T)"
  using oracle_loop_at [of oc 0 T S] by simp

text \<open>The state, unrolled: what the entry state keeps, and what every deposit keeps of itself.\<close>

definition kept :: "oracle_call \<Rightarrow> nat \<Rightarrow> nat \<Rightarrow> nat \<Rightarrow> nat \<Rightarrow> nat \<Rightarrow> real" where
  "kept oc b h n t T = (\<Prod>u\<in>{t..<T}. oc_keep oc [b, u, h, n])"

lemma kept_Suc: "t \<le> T \<Longrightarrow> kept oc b h n t (Suc T) = oc_keep oc [b, T, h, n] * kept oc b h n t T"
  by (simp add: kept_def)

lemma kept_split: "t \<le> m \<Longrightarrow> m \<le> T \<Longrightarrow> kept oc b h n t T = kept oc b h n t m * kept oc b h n m T"
  unfolding kept_def by (subst prod.atLeastLessThan_concat [symmetric, of t m T]) simp_all

lemma state_unrolled:
  "state_at oc S T [b, h, n, c] = kept oc b h n 0 T * S [b, h, n, c]
     + (\<Sum>\<tau><T. kept oc b h n (Suc \<tau>) T * (oc_W oc [b, \<tau>, h, n] * oc_value oc [b, \<tau>, h, c]))"
proof (induction T)
  case (Suc T)
  have "oc_keep oc [b, T, h, n] * (\<Sum>\<tau><T. kept oc b h n (Suc \<tau>) T * (oc_W oc [b, \<tau>, h, n] * oc_value oc [b, \<tau>, h, c]))
      = (\<Sum>\<tau><T. kept oc b h n (Suc \<tau>) (Suc T) * (oc_W oc [b, \<tau>, h, n] * oc_value oc [b, \<tau>, h, c]))"
    unfolding sum_distrib_left by (rule sum.cong) (simp_all add: kept_Suc mult.assoc)
  then show ?case by (simp add: oracle_state_step_def Suc.IH kept_Suc distrib_left mult.assoc) (simp add: kept_def)
qed (simp add: kept_def)

section \<open>The products\<close>

definition leaf_weight :: "ntensor list \<Rightarrow> nat list \<Rightarrow> nat list \<Rightarrow> nat \<Rightarrow> real" where
  "leaf_weight levels widths idx n = (\<Prod>l<length widths. nt_at (levels ! l) (idx @ [leaf_digit widths l n]))"

lemma leaf_product_some:
  "levels \<noteq> [] \<Longrightarrow> leaf_product levels idx n
     = Some (\<Prod>l<length levels. nt_at (fst (levels ! l)) (idx @ [(n div snd (levels ! l)) mod last (nt_shape (fst (levels ! l)))]))"
proof (induction levels idx n rule: leaf_product.induct)
  case (3 x stride y levels idx s)
  then show ?case by (simp add: prod.lessThan_Suc_shift del: prod.lessThan_Suc)
qed simp_all

lemma product_at_weight:
  assumes "length levels = length widths" "widths \<noteq> []" "\<And>l. l < length widths \<Longrightarrow> last (nt_shape (levels ! l)) = widths ! l"
  shows "product_at levels (oracle_radix_strides widths) idx n = leaf_weight levels widths idx n"
proof -
  let ?ps = "zip levels (oracle_radix_strides widths)"
  have len: "length ?ps = length widths" using assms(1) by (simp add: strides_agree)
  then have "?ps \<noteq> []" using assms(2) by auto
  then have "product_at levels (oracle_radix_strides widths) idx n
      = (\<Prod>l<length widths. nt_at (levels ! l) (idx @ [(n div (oracle_radix_strides widths ! l)) mod last (nt_shape (levels ! l))]))"
    using len assms(1) by (simp add: product_at_def leaf_product_some strides_agree)
  also have "\<dots> = leaf_weight levels widths idx n"
    using assms(3) unfolding leaf_weight_def by (intro prod.cong) (simp_all add: leaf_digit_def strides_agree)
  finally show ?thesis .
qed

text \<open>The sum over the leaves of a product of digits is the product of the levels' sums.\<close>

lemma sum_prod_digits:
  "(\<Sum>s<prod_list ws. \<Prod>l<length ws. f l (digits ws s ! l)) = (\<Prod>l<length ws. \<Sum>d<ws ! l. (f l d :: 'a :: comm_semiring_1))"
proof (induction ws arbitrary: f)
  case (Cons w ws)
  have bij: "bij_betw (\<lambda>(d, s). d * prod_list ws + s) ({..<w} \<times> {..<prod_list ws}) {..<w * prod_list ws}"
  proof (rule bij_betw_byWitness [where f' = "\<lambda>s. (s div prod_list ws, s mod prod_list ws)"])
    show "(\<lambda>(d, s). d * prod_list ws + s) ` ({..<w} \<times> {..<prod_list ws}) \<subseteq> {..<w * prod_list ws}"
      by (auto simp: mult_add_less)
    show "(\<lambda>s. (s div prod_list ws, s mod prod_list ws)) ` {..<w * prod_list ws} \<subseteq> {..<w} \<times> {..<prod_list ws}"
      by (auto simp: less_mult_imp_div_less) (metis gr0I mod_less_divisor mult_0_right not_less_zero)
  qed auto
  have "(\<Sum>s<w * prod_list ws. \<Prod>l<Suc (length ws). f l (digits (w # ws) s ! l))
      = (\<Sum>(d, s)\<in>{..<w} \<times> {..<prod_list ws}. \<Prod>l<Suc (length ws). f l (digits (w # ws) (d * prod_list ws + s) ! l))"
    using sum.reindex_bij_betw [OF bij, of "\<lambda>s. \<Prod>l<Suc (length ws). f l (digits (w # ws) s ! l)"] by (simp add: case_prod_beta)
  also have "\<dots> = (\<Sum>(d, s)\<in>{..<w} \<times> {..<prod_list ws}. f 0 d * (\<Prod>l<length ws. f (Suc l) (digits ws s ! l)))"
    by (intro sum.cong) (auto simp: prod.lessThan_Suc_shift digits_shift simp del: prod.lessThan_Suc)
  also have "\<dots> = (\<Sum>d<w. f 0 d) * (\<Sum>s<prod_list ws. \<Prod>l<length ws. f (Suc l) (digits ws s ! l))"
    by (simp add: sum.cartesian_product [symmetric] sum_product)
  also have "\<dots> = (\<Prod>l<Suc (length ws). \<Sum>d<(w # ws) ! l. f l d)"
    using Cons.IH [of "\<lambda>l. f (Suc l)"] by (simp add: prod.lessThan_Suc_shift del: prod.lessThan_Suc)
  finally show ?case by simp
qed simp

lemma leaf_weight_mass:
  "(\<Sum>n<prod_list widths. leaf_weight levels widths idx n) = (\<Prod>l<length widths. \<Sum>d<widths ! l. nt_at (levels ! l) (idx @ [d]))"
proof -
  have "(\<Sum>n<prod_list widths. leaf_weight levels widths idx n)
      = (\<Sum>n<prod_list widths. \<Prod>l<length widths. nt_at (levels ! l) (idx @ [digits widths n ! l]))"
    unfolding leaf_weight_def by (intro sum.cong prod.cong refl) (simp add: nth_digits)
  then show ?thesis using sum_prod_digits [where ws = widths and f = "\<lambda>l d. nt_at (levels ! l) (idx @ [d])"] by simp
qed


section \<open>What the contract accepts\<close>

lemma indices_iff: "idx \<in> set (indices ns) \<longleftrightarrow> list_all2 (<) idx ns"
proof (induction ns arbitrary: idx)
  case (Cons n ns)
  have "idx \<in> set (indices (n # ns)) \<longleftrightarrow> (\<exists>i<n. \<exists>is\<in>set (indices ns). idx = i # is)" by auto
  then show ?case by (auto simp: Cons list_all2_Cons2)
qed simp

lemma tensor_any_iff: "tensor_any p x \<longleftrightarrow> (\<exists>idx. list_all2 (<) idx (nt_shape x) \<and> p (nt_at x idx))"
  by (auto simp: tensor_any_def list_ex_iff indices_iff)

lemma checks_ok: "is_ok (checks cs) \<longleftrightarrow> (\<forall>c\<in>set cs. is_ok c)"
  by (induction cs) (auto simp: res_simps is_ok_iff)

lemma unit_res: "r = Inr (u :: unit) \<longleftrightarrow> is_ok r"
  by (auto simp: is_ok_iff)

definition side_shapes :: "nat list \<Rightarrow> ntensor option list \<Rightarrow> nat list \<Rightarrow> bool" where
  "side_shapes prefix levels widths \<longleftrightarrow> length levels = length widths
     \<and> (\<forall>l<length widths. levels ! l \<noteq> None \<and> nt_shape (the (levels ! l)) = prefix @ [widths ! l])"

lemma check_side_ok: "is_ok (check_side prefix levels topology) \<longleftrightarrow> side_shapes prefix levels (topology_widths topology)"
proof -
  have D: "topology_D topology = length (topology_widths topology)" by (simp add: topology_D_def topology_widths_def)
  have l: "is_ok (check_side_level prefix f w) \<longleftrightarrow> f \<noteq> None \<and> nt_shape (the f) = prefix @ [w]" for f w
    by (auto simp: check_side_level_def refuse_def split: option.splits)
  have "(\<forall>c\<in>set (map2 (check_side_level prefix) levels ws). is_ok c)
      \<longleftrightarrow> (\<forall>i<length ws. levels ! i \<noteq> None \<and> nt_shape (the (levels ! i)) = prefix @ [ws ! i])" if "length levels = length ws" for ws
    using that by (simp add: all_set_conv_all_nth l del: not_None_eq)
  then show ?thesis by (simp add: check_side_def checks_ok side_shapes_def D)
qed

lemma decay_dials_shapes:
  assumes "decay_validate_against (map dial_meta dials) topology = Inr u"
  shows "length dials = length (topology_widths topology)" "l < length (topology_widths topology) \<Longrightarrow> last (nt_shape (dials ! l)) = topology_widths topology ! l"
proof -
  have len: "length dials = length (topology_widths topology)"
    and c: "\<And>u'. u' = () \<Longrightarrow> checks (map (\<lambda>(d, w). refuse (last (dial_shape d) \<noteq> w) (ValueError ''dial width'')) (zip (map dial_meta dials) (topology_widths topology))) = Inr u'"
    using assms by (auto simp: decay_validate_against_def res_simps split: if_splits)
  then show "length dials = length (topology_widths topology)" by simp
  show "last (nt_shape (dials ! l)) = topology_widths topology ! l" if l: "l < length (topology_widths topology)"
  proof -
    have "(dial_meta (dials ! l), topology_widths topology ! l) \<in> set (zip (map dial_meta dials) (topology_widths topology))"
      using l len by (auto simp: in_set_zip intro!: exI [of _ l])
    then have "is_ok (refuse (last (dial_shape (dial_meta (dials ! l))) \<noteq> topology_widths topology ! l) (ValueError ''dial width''))"
      using c unfolding unit_res checks_ok by fastforce
    then show ?thesis by (simp add: dial_meta_def)
  qed
qed

definition decay_ok :: "nat \<Rightarrow> oracle_decay \<Rightarrow> level list \<Rightarrow> bool" where
  "decay_ok H decay topology \<longleftrightarrow> (case decay of NoDecay \<Rightarrow> True | OtherDecay \<Rightarrow> False
     | Dials dials \<Rightarrow> is_ok (decay_validate_against (map dial_meta dials) topology) \<and> (\<forall>d\<in>set dials. hd (nt_shape d) = H))"

lemma check_decay_ok: "is_ok (check_decay H decay topology) \<longleftrightarrow> decay_ok H decay topology"
proof (cases decay)
  case (Dials dials)
  then show ?thesis
    by (cases "decay_validate_against (map dial_meta dials) topology") (simp_all add: check_decay_def decay_ok_def checks_ok)
qed (simp_all add: check_decay_def decay_ok_def)

definition simplex_ok :: "ntensor \<Rightarrow> bool" where
  "simplex_ok x \<longleftrightarrow> (\<forall>idx. list_all2 (<) idx (nt_shape x) \<longrightarrow> - SIMPLEX_ATOL \<le> nt_at x idx)
     \<and> (\<forall>idx. list_all2 (<) idx (butlast (nt_shape x)) \<longrightarrow> \<bar>(\<Sum>d<last (nt_shape x). nt_at x (idx @ [d])) - 1\<bar> \<le> 501 / 100000)"

lemma simplex_level_ok: "is_ok (check_simplex_level SIMPLEX_ATOL x) \<longleftrightarrow> simplex_ok x"
proof -
  have "row_mass x idx = (\<Sum>d<last (nt_shape x). nt_at x (idx @ [d]))" for idx
    by (simp add: row_mass_def interv_sum_list_conv_sum_set_nat lessThan_atLeast0)
  then have "close_to_one SIMPLEX_ATOL (row_mass x idx) \<longleftrightarrow> \<bar>(\<Sum>d<last (nt_shape x). nt_at x (idx @ [d])) - 1\<bar> \<le> 501 / 100000" for idx
    by (simp add: close_to_one_def SIMPLEX_ATOL_def)
  then show ?thesis
    by (auto simp: check_simplex_level_def simplex_ok_def tensor_any_iff refuse_def list_all_iff indices_iff not_less split: if_splits)
qed

lemma validate_simplex_ok: "is_ok (validate_simplex SIMPLEX_ATOL levels) \<longleftrightarrow> (\<forall>x\<in>set levels. simplex_ok x)"
  by (simp add: validate_simplex_def checks_ok simplex_level_ok)

text \<open>The lawful inputs, clause by clause.\<close>

definition oracle_inputs ::
    "ntensor \<Rightarrow> ntensor option list \<Rightarrow> ntensor option list \<Rightarrow> ntensor \<Rightarrow> level list \<Rightarrow> oracle_decay \<Rightarrow> nat \<Rightarrow> nat \<Rightarrow> nat \<Rightarrow> nat \<Rightarrow> bool" where
  "oracle_inputs v reads writes g topology decay B T H d_v \<longleftrightarrow>
     nt_shape v = [B, T, H, d_v] \<and> side_shapes [B, T, H] reads (topology_widths topology) \<and> side_shapes [B, T, H] writes (topology_widths topology)
     \<and> nt_shape g = [B, T, H] \<and> (\<forall>idx. list_all2 (<) idx [B, T, H] \<longrightarrow> 0 < nt_at g idx) \<and> decay_ok H decay topology"

lemma validate_inputs_ok:
  "validate_inputs v reads writes g topology decay = Inr (B, T, H, d_v) \<longleftrightarrow> oracle_inputs v reads writes g topology decay B T H d_v"
proof (cases "\<exists>B T H d. nt_shape v = [B, T, H, d]")
  case True
  then obtain B' T' H' d' where sh: "nt_shape v = [B', T', H', d']" by blast
  have "validate_inputs v reads writes g topology decay = Inr (B, T, H, d_v) \<longleftrightarrow>
      B = B' \<and> T = T' \<and> H = H' \<and> d_v = d' \<and> side_shapes [B', T', H'] reads (topology_widths topology)
      \<and> side_shapes [B', T', H'] writes (topology_widths topology) \<and> nt_shape g = [B', T', H'] \<and> \<not> tensor_any (\<lambda>x. x \<le> 0) g
      \<and> decay_ok H' decay topology"
    unfolding validate_inputs_def sh by (auto simp: res_simps unit_res check_side_ok check_decay_ok split: if_splits)
  then show ?thesis by (auto simp: oracle_inputs_def sh tensor_any_iff not_le)
next
  case False
  then have "\<not> oracle_inputs v reads writes g topology decay B T H d_v" by (auto simp: oracle_inputs_def)
  moreover have "validate_inputs v reads writes g topology decay \<noteq> Inr (B, T, H, d_v)"
    using False by (auto simp: validate_inputs_def split: list.splits)
  ultimately show ?thesis by blast
qed

definition cache_ok :: "ntensor option option \<Rightarrow> nat list \<Rightarrow> bool" where
  "cache_ok init shape \<longleftrightarrow> (case init of None \<Rightarrow> True | Some None \<Rightarrow> False | Some (Some x) \<Rightarrow> nt_shape x = shape)"

definition cache_at :: "ntensor option option \<Rightarrow> oracle_state" where
  "cache_at init = (case init of Some (Some x) \<Rightarrow> nt_at x | _ \<Rightarrow> (\<lambda>_. 0))"

lemma initial_cache_ok: "initial_cache init B H N d = Inr x \<Longrightarrow> cache_ok init [B, H, N, d + 1] \<and> nt_at x = cache_at init"
  "cache_ok init [B, H, N, d + 1] \<Longrightarrow> \<exists>x. initial_cache init B H N d = Inr x \<and> nt_at x = cache_at init"
  by (auto simp: initial_cache_def cache_ok_def cache_at_def split: option.splits if_splits)

definition accepted ::
    "ntensor \<Rightarrow> ntensor option list \<Rightarrow> ntensor option list \<Rightarrow> ntensor \<Rightarrow> level list \<Rightarrow> oracle_decay \<Rightarrow> ntensor option option \<Rightarrow> nat \<Rightarrow> nat \<Rightarrow> nat \<Rightarrow> nat \<Rightarrow> bool" where
  "accepted v reads writes g topology decay init B T H d_v \<longleftrightarrow> oracle_inputs v reads writes g topology decay B T H d_v
     \<and> (\<forall>x\<in>set (map the reads @ map the writes). simplex_ok x) \<and> topology \<noteq> []
     \<and> cache_ok init [B, H, prod_list (topology_widths topology), d_v + 1]"

lemma naive_ok:
  fixes eps :: real
  assumes "accepted v reads writes g topology decay init B T H d_v"
  defines "oc \<equiv> oracle_call_of v (map the reads) (map the writes) g (topology_widths topology) decay eps d_v"
  shows "naive_rola v reads writes g topology decay eps init keep = Inr
    (\<lparr>nt_shape = [B, T, H, d_v], nt_at = (\<lambda>idx. case idx of [b, t, h, c] \<Rightarrow>
        (map (\<lambda>i. oracle_output oc i (state_at oc (cache_at init) (Suc i))) [0..<T] ! t) b h c | _ \<Rightarrow> 0)\<rparr>,
     if keep then Some \<lparr>nt_shape = [B, H, prod_list (topology_widths topology), d_v + 1], nt_at = state_at oc (cache_at init) T\<rparr> else None)"
proof -
  have N: "oracle_leaf_capacity (topology_widths topology) = prod_list (topology_widths topology)"
    by (simp add: oracle_leaf_capacity_def fold_mult)
  have v: "validate_inputs v reads writes g topology decay = Inr (B, T, H, d_v)"
    using assms(1) by (simp add: validate_inputs_ok accepted_def)
  have s: "validate_simplex SIMPLEX_ATOL (map the reads) = Inr ()" "validate_simplex SIMPLEX_ATOL (map the writes) = Inr ()"
    unfolding unit_res validate_simplex_ok using assms(1) by (auto simp: accepted_def)
  obtain x where x: "initial_cache init B H (prod_list (topology_widths topology)) d_v = Inr x" "nt_at x = cache_at init"
    using initial_cache_ok(2) assms(1) unfolding accepted_def by blast
  have D: "topology_D topology \<noteq> 0" using assms(1) by (simp add: accepted_def topology_D_def)
  show ?thesis
    unfolding naive_rola_def v using D
    by (simp add: s N x oracle_loop_start Let_def oc_def [symmetric])
qed

lemma naive_accepted:
  assumes "naive_rola v reads writes g topology decay eps init keep = Inr r"
  shows "\<exists>B T H d_v. accepted v reads writes g topology decay init B T H d_v"
proof -
  obtain B T H d_v where v: "validate_inputs v reads writes g topology decay = Inr (B, T, H, d_v)"
    using assms by (auto simp: naive_rola_def res_simps)
  have N: "oracle_leaf_capacity (topology_widths topology) = prod_list (topology_widths topology)"
    by (simp add: oracle_leaf_capacity_def fold_mult)
  have "accepted v reads writes g topology decay init B T H d_v"
    using assms v initial_cache_ok(1) [of init B H "prod_list (topology_widths topology)" d_v]
    by (auto simp: naive_rola_def res_simps Let_def accepted_def validate_inputs_ok unit_res validate_simplex_ok N topology_D_def split: if_splits)
  then show ?thesis by blast
qed

end
