(* ===== verification/Rola_Oracle_Closed.thy ===== *)
theory Rola_Oracle_Closed
  imports Rola_Oracle_Props
begin

text \<open>The reference operator in closed form: masked linear attention over the leaves.\<close>

section \<open>The operands of an accepted call\<close>

definition gate :: "oracle_decay \<Rightarrow> ntensor list \<Rightarrow> nat list \<Rightarrow> nat \<Rightarrow> nat \<Rightarrow> nat \<Rightarrow> nat \<Rightarrow> real" where
  "gate decay writes widths b t h n = (case decay of
     Dials dials \<Rightarrow> tpow (1 - leaf_weight dials widths [h] n) (leaf_weight writes widths [b, t, h] n) | _ \<Rightarrow> 1)"

lemma accepted_facts:
  assumes "accepted v reads writes g topology decay init B T H d_v"
  shows "topology_widths topology \<noteq> []" "length reads = length (topology_widths topology)" "length writes = length (topology_widths topology)"
    "nt_shape v = [B, T, H, d_v]" "list_all2 (<) idx [B, T, H] \<Longrightarrow> 0 < nt_at g idx"
    "l < length (topology_widths topology) \<Longrightarrow> nt_shape (map the reads ! l) = [B, T, H, topology_widths topology ! l]"
    "l < length (topology_widths topology) \<Longrightarrow> nt_shape (map the writes ! l) = [B, T, H, topology_widths topology ! l]"
  using assms by (auto simp: accepted_def oracle_inputs_def side_shapes_def topology_widths_def)

lemma accepted_operands:
  fixes eps :: real
  assumes "accepted v reads writes g topology decay init B T H d_v"
  defines "oc \<equiv> oracle_call_of v (map the reads) (map the writes) g (topology_widths topology) decay eps d_v"
  shows "oc_R oc [b, t, h, n] = leaf_weight (map the reads) (topology_widths topology) [b, t, h] n"
    "oc_W oc [b, t, h, n] = nt_at g [b, t, h] * leaf_weight (map the writes) (topology_widths topology) [b, t, h] n"
    "oc_keep oc [b, t, h, n] = gate decay (map the writes) (topology_widths topology) b t h n"
    "oc_value oc [b, t, h, c] = (if c < d_v then nt_at v [b, t, h, c] else 1)"
    "oc_N oc = prod_list (topology_widths topology)" "oc_d_v oc = d_v" "oc_eps oc = eps"
proof -
  note f = accepted_facts [OF assms(1)]
  have r: "product_at (map the reads) (oracle_radix_strides (topology_widths topology)) idx n = leaf_weight (map the reads) (topology_widths topology) idx n" for idx n
    using f by (intro product_at_weight) simp_all
  have w: "product_at (map the writes) (oracle_radix_strides (topology_widths topology)) idx n = leaf_weight (map the writes) (topology_widths topology) idx n" for idx n
    using f by (intro product_at_weight) simp_all
  have d: "product_at dials (oracle_radix_strides (topology_widths topology)) idx n = leaf_weight dials (topology_widths topology) idx n"
    if "decay = Dials dials" for dials idx n
  proof -
    have "is_ok (decay_validate_against (map dial_meta dials) topology)"
      using assms(1) that by (simp add: accepted_def oracle_inputs_def decay_ok_def)
    then obtain u where u: "decay_validate_against (map dial_meta dials) topology = Inr u" by (auto simp: is_ok_iff)
    show ?thesis using decay_dials_shapes [OF u] f(1) by (intro product_at_weight) simp_all
  qed
  show "oc_R oc [b, t, h, n] = leaf_weight (map the reads) (topology_widths topology) [b, t, h] n"
    "oc_W oc [b, t, h, n] = nt_at g [b, t, h] * leaf_weight (map the writes) (topology_widths topology) [b, t, h] n"
    "oc_keep oc [b, t, h, n] = gate decay (map the writes) (topology_widths topology) b t h n"
    "oc_value oc [b, t, h, c] = (if c < d_v then nt_at v [b, t, h, c] else 1)"
    "oc_N oc = prod_list (topology_widths topology)" "oc_d_v oc = d_v" "oc_eps oc = eps"
    using d by (simp_all add: oc_def oracle_call_of_def Let_def r w keep_of_def gate_def with_ones_def oracle_leaf_capacity_def fold_mult
        split: oracle_decay.splits)
qed

text \<open>A column of the state, unrolled over the tokens, and its readout.\<close>

definition carried :: "ntensor \<Rightarrow> ntensor list \<Rightarrow> ntensor \<Rightarrow> nat list \<Rightarrow> oracle_decay \<Rightarrow> oracle_state \<Rightarrow> nat \<Rightarrow> nat \<Rightarrow> nat \<Rightarrow> nat \<Rightarrow> nat \<Rightarrow> nat \<Rightarrow> real" where
  "carried v writes g widths decay S d_v b T h n c =
     (\<Prod>u\<in>{0..<T}. gate decay writes widths b u h n) * S [b, h, n, c]
     + (\<Sum>\<tau><T. (\<Prod>u\<in>{Suc \<tau>..<T}. gate decay writes widths b u h n)
          * (nt_at g [b, \<tau>, h] * leaf_weight writes widths [b, \<tau>, h] n * (if c < d_v then nt_at v [b, \<tau>, h, c] else 1)))"

definition attention ::
    "ntensor \<Rightarrow> ntensor list \<Rightarrow> ntensor list \<Rightarrow> ntensor \<Rightarrow> nat list \<Rightarrow> oracle_decay \<Rightarrow> oracle_state \<Rightarrow> nat \<Rightarrow> nat \<Rightarrow> nat \<Rightarrow> nat \<Rightarrow> nat \<Rightarrow> real" where
  "attention v reads writes g widths decay S d_v b t h c =
     (\<Sum>n<prod_list widths. leaf_weight reads widths [b, t, h] n * carried v writes g widths decay S d_v b (Suc t) h n c)"

lemma accepted_state:
  fixes eps :: real
  assumes "accepted v reads writes g topology decay init B T H d_v"
  defines "oc \<equiv> oracle_call_of v (map the reads) (map the writes) g (topology_widths topology) decay eps d_v"
  shows "state_at oc S m [b, h, n, c] = carried v (map the writes) g (topology_widths topology) decay S d_v b m h n c"
    "oracle_readout oc t (state_at oc S (Suc t)) b h c = attention v (map the reads) (map the writes) g (topology_widths topology) decay S d_v b t h c"
proof -
  note o = accepted_operands [OF assms(1), of eps, folded oc_def]
  show st: "state_at oc S m [b, h, n, c] = carried v (map the writes) g (topology_widths topology) decay S d_v b m h n c" for m n c
    unfolding state_unrolled carried_def kept_def by (simp add: o mult.assoc)
  show "oracle_readout oc t (state_at oc S (Suc t)) b h c = attention v (map the reads) (map the writes) g (topology_widths topology) decay S d_v b t h c"
    unfolding oracle_readout_def attention_def st o
    by (simp add: interv_sum_list_conv_sum_set_nat lessThan_atLeast0)
qed

lemma accepted_result:
  assumes "accepted v reads writes g topology decay init B T H d_v"
  shows "\<exists>y F. naive_rola v reads writes g topology decay eps init keep = Inr (y, if keep then Some F else None)
    \<and> nt_shape y = [B, T, H, d_v] \<and> nt_shape F = [B, H, prod_list (topology_widths topology), d_v + 1]
    \<and> (\<forall>b t h c. t < T \<longrightarrow> nt_at y [b, t, h, c] =
        attention v (map the reads) (map the writes) g (topology_widths topology) decay (cache_at init) d_v b t h c
        / (attention v (map the reads) (map the writes) g (topology_widths topology) decay (cache_at init) d_v b t h d_v + eps))
    \<and> (\<forall>b h n c. nt_at F [b, h, n, c] = carried v (map the writes) g (topology_widths topology) decay (cache_at init) d_v b T h n c)"
  unfolding naive_ok [OF assms]
  using accepted_state [OF assms, of eps] accepted_operands(6,7) [OF assms, of eps]
  by (intro exI conjI) (auto simp: oracle_output_def)

lemma accepted_unique:
  assumes "accepted v reads writes g topology decay init B T H d_v" "accepted v reads writes g topology decay init' B' T' H' d'"
  shows "B' = B \<and> T' = T \<and> H' = H \<and> d' = d_v"
  using accepted_facts(4) [OF assms(1)] accepted_facts(4) [OF assms(2)] by simp

lemma naive_result:
  assumes "naive_rola v reads writes g topology decay eps init keep = Inr (y, F)" "nt_shape v = [B, T, H, d_v]"
  shows "accepted v reads writes g topology decay init B T H d_v"
    "nt_shape y = [B, T, H, d_v]"
    "t < T \<Longrightarrow> nt_at y [b, t, h, c] =
        attention v (map the reads) (map the writes) g (topology_widths topology) decay (cache_at init) d_v b t h c
        / (attention v (map the reads) (map the writes) g (topology_widths topology) decay (cache_at init) d_v b t h d_v + eps)"
    "keep \<Longrightarrow> F \<noteq> None \<and> nt_at (the F) [b, h, n, c] = carried v (map the writes) g (topology_widths topology) decay (cache_at init) d_v b T h n c"
proof -
  obtain B' T' H' d' where a: "accepted v reads writes g topology decay init B' T' H' d'" using naive_accepted [OF assms(1)] by blast
  then show acc: "accepted v reads writes g topology decay init B T H d_v" using accepted_facts(4) [OF a] assms(2) by simp
  obtain y' F' where r: "naive_rola v reads writes g topology decay eps init keep = Inr (y', if keep then Some F' else None)"
    "nt_shape y' = [B, T, H, d_v]"
    "\<forall>b t h c. t < T \<longrightarrow> nt_at y' [b, t, h, c] =
        attention v (map the reads) (map the writes) g (topology_widths topology) decay (cache_at init) d_v b t h c
        / (attention v (map the reads) (map the writes) g (topology_widths topology) decay (cache_at init) d_v b t h d_v + eps)"
    "\<forall>b h n c. nt_at F' [b, h, n, c] = carried v (map the writes) g (topology_widths topology) decay (cache_at init) d_v b T h n c"
    using accepted_result [OF acc, of eps keep] by blast
  have "y = y'" "F = (if keep then Some F' else None)" using r(1) assms(1) by simp_all
  then show "nt_shape y = [B, T, H, d_v]"
    "t < T \<Longrightarrow> nt_at y [b, t, h, c] =
        attention v (map the reads) (map the writes) g (topology_widths topology) decay (cache_at init) d_v b t h c
        / (attention v (map the reads) (map the writes) g (topology_widths topology) decay (cache_at init) d_v b t h d_v + eps)"
    "keep \<Longrightarrow> F \<noteq> None \<and> nt_at (the F) [b, h, n, c] = carried v (map the writes) g (topology_widths topology) decay (cache_at init) d_v b T h n c"
    using r(2-4) by simp_all
qed

end
