(* ===== verification/Rola_Oracle_Runs.thy ===== *)
theory Rola_Oracle_Runs
  imports Rola_Oracle_Closed
begin

text \<open>
  Lemmas on runs of the reference operator: runs in pieces, ranges and masses, padded levels.
\<close>

section \<open>Runs in pieces\<close>

text \<open>The tokens \<^verbatim>\<open>x[:, s : s + n]\<close> of a tensor.\<close>

definition time_slice :: "nat \<Rightarrow> nat \<Rightarrow> ntensor \<Rightarrow> ntensor" where
  "time_slice s n x = \<lparr>nt_shape = (nt_shape x)[1 := n],
     nt_at = (\<lambda>idx. case idx of b # t # rest \<Rightarrow> nt_at x (b # (s + t) # rest) | _ \<Rightarrow> nt_at x idx)\<rparr>"

lemma time_slice_simps [simp]:
  "nt_shape (time_slice s n x) = (nt_shape x)[1 := n]"
  "nt_at (time_slice s n x) (b # t # rest) = nt_at x (b # (s + t) # rest)"
  by (simp_all add: time_slice_def)

lemma gate_NoDecay [simp]: "gate NoDecay writes widths b t h n = 1"
  by (simp add: gate_def)

lemma carried_0: "carried v writes g widths decay S d_v b 0 h n c = S [b, h, n, c]"
  by (simp add: carried_def)

lemma carried_Suc:
  "carried v writes g widths decay S d_v b (Suc T) h n c
     = gate decay writes widths b T h n * carried v writes g widths decay S d_v b T h n c
       + nt_at g [b, T, h] * leaf_weight writes widths [b, T, h] n * (if c < d_v then nt_at v [b, T, h, c] else 1)"
proof -
  let ?w = "\<lambda>u. gate decay writes widths b u h n"
  let ?x = "\<lambda>\<tau>. nt_at g [b, \<tau>, h] * leaf_weight writes widths [b, \<tau>, h] n * (if c < d_v then nt_at v [b, \<tau>, h, c] else 1)"
  have "(\<Sum>\<tau><Suc T. (\<Prod>u\<in>{Suc \<tau>..<Suc T}. ?w u) * ?x \<tau>) = ?w T * (\<Sum>\<tau><T. (\<Prod>u\<in>{Suc \<tau>..<T}. ?w u) * ?x \<tau>) + ?x T"
    unfolding sum.lessThan_Suc sum_distrib_left
    by (intro arg_cong2 [where f = plus] sum.cong) (simp_all add: mult_ac)
  then show ?thesis unfolding carried_def by (simp add: distrib_left mult.assoc)
qed

lemmas carried_rec = carried_0 carried_Suc

lemma leaf_weight_slice:
  assumes "length levels = length widths"
  shows "leaf_weight (map (time_slice s m) levels) widths (b # t # rest) n = leaf_weight levels widths (b # (s + t) # rest) n"
  unfolding leaf_weight_def using assms by (intro prod.cong) simp_all

lemma carried_slice:
  assumes "length writes = length widths" "\<And>n c. S' [b, h, n, c] = carried v writes g widths decay S d_v b s h n c"
  shows "carried (time_slice s m v) (map (time_slice s m) writes) (time_slice s m g) widths decay S' d_v b T h n c
    = carried v writes g widths decay S d_v b (s + T) h n c"
proof (induction T)
  case (Suc T)
  have "gate decay (map (time_slice s m) writes) widths b T h n = gate decay writes widths b (s + T) h n"
    by (simp add: gate_def leaf_weight_slice assms(1) split: oracle_decay.splits)
  then show ?case using Suc by (simp add: carried_Suc leaf_weight_slice assms(1))
qed (simp add: carried_0 assms(2))

lemma attention_slice:
  assumes "length reads = length widths" "length writes = length widths"
    "\<And>n c. S' [b, h, n, c] = carried v writes g widths decay S d_v b s h n c"
  shows "attention (time_slice s m v) (map (time_slice s m) reads) (map (time_slice s m) writes) (time_slice s m g) widths decay S' d_v b t h c
    = attention v reads writes g widths decay S d_v b (s + t) h c"
  unfolding attention_def using assms by (simp add: carried_slice leaf_weight_slice)

lemma simplex_slice:
  assumes "simplex_ok x" "nt_shape x = [B, T, H, w]" "s + n \<le> T"
  shows "simplex_ok (time_slice s n x)"
proof -
  have *: "list_all2 (<) idx (B # n # xs) \<Longrightarrow> \<exists>b t rest. idx = b # t # rest \<and> list_all2 (<) (b # (s + t) # rest) (B # T # xs)" for idx xs
    using assms(3) by (auto simp: list_all2_Cons2)
  have "- SIMPLEX_ATOL \<le> nt_at (time_slice s n x) idx" if "list_all2 (<) idx [B, n, H, w]" for idx
    using * [OF that] assms(1,2) by (auto simp: simplex_ok_def)
  moreover have "\<bar>(\<Sum>d<w. nt_at (time_slice s n x) (idx @ [d])) - 1\<bar> \<le> 501 / 100000" if ix: "list_all2 (<) idx [B, n, H]" for idx
  proof -
    obtain b t rest where i: "idx = b # t # rest" "list_all2 (<) (b # (s + t) # rest) [B, T, H]" using * [OF ix] by blast
    then have "\<bar>(\<Sum>d<w. nt_at x ((b # (s + t) # rest) @ [d])) - 1\<bar> \<le> 501 / 100000" using assms(1,2) unfolding simplex_ok_def by force
    then show ?thesis using i by simp
  qed
  ultimately show ?thesis using assms(2) by (simp add: simplex_ok_def)
qed

lemma accepted_slice:
  assumes "accepted v reads writes g topology decay init B T H d_v" "s + n \<le> T"
    "cache_ok init' [B, H, prod_list (topology_widths topology), d_v + 1]"
  shows "accepted (time_slice s n v) (map (map_option (time_slice s n)) reads) (map (map_option (time_slice s n)) writes)
      (time_slice s n g) topology decay init' B n H d_v"
proof -
  let ?m = "map (map_option (time_slice s n))"
  note f = accepted_facts [OF assms(1)]
  have acc: "oracle_inputs v reads writes g topology decay B T H d_v" "\<forall>x\<in>set (map the reads @ map the writes). simplex_ok x" "topology \<noteq> []"
    using assms(1) by (simp_all add: accepted_def)
  have side: "side_shapes [B, n, H] (?m side) (topology_widths topology)"
    if "side_shapes [B, T, H] side (topology_widths topology)" for side
    using that by (auto simp: side_shapes_def)
  have the: "map the (?m side) = map (time_slice s n) (map the side)"
    if "side_shapes [B, T, H] side (topology_widths topology)" for side
    using that by (auto simp: side_shapes_def in_set_conv_nth intro!: option.map_sel)
  have simp: "\<forall>x\<in>set (map the (?m side)). simplex_ok x"
    if sh: "side_shapes [B, T, H] side (topology_widths topology)" and ok: "\<forall>x\<in>set (map the side). simplex_ok x" for side
  proof
    fix y assume "y \<in> set (map the (?m side))"
    then obtain x where x: "x \<in> set (map the side)" "y = time_slice s n x" unfolding the [OF sh] by auto
    then obtain l where "l < length side" "x = the (side ! l)" by (auto simp: in_set_conv_nth)
    then have "nt_shape x = [B, T, H, topology_widths topology ! l]" using sh by (auto simp: side_shapes_def)
    then show "simplex_ok y" using simplex_slice ok x assms(2) by blast
  qed
  have g: "0 < nt_at (time_slice s n g) idx" if ix: "list_all2 (<) idx [B, n, H]" for idx
  proof -
    obtain b t h where "idx = [b, t, h]" "b < B" "t < n" "h < H" using ix by (auto simp: list_all2_Cons2)
    then show ?thesis using acc(1) assms(2) by (simp add: oracle_inputs_def)
  qed
  have s: "side_shapes [B, T, H] reads (topology_widths topology)" "side_shapes [B, T, H] writes (topology_widths topology)"
    using acc(1) by (simp_all add: oracle_inputs_def)
  have "oracle_inputs (time_slice s n v) (?m reads) (?m writes) (time_slice s n g) topology decay B n H d_v"
    using acc(1) side s g by (auto simp: oracle_inputs_def)
  moreover have "\<forall>x\<in>set (map the (?m reads)). simplex_ok x" "\<forall>x\<in>set (map the (?m writes)). simplex_ok x"
    using acc(2) simp [OF s(1)] simp [OF s(2)] unfolding set_append ball_Un by blast+
  ultimately show ?thesis unfolding accepted_def set_append ball_Un using acc(3) assms(3) by blast
qed

section \<open>Ranges and masses\<close>

lemma gate_nonneg: "0 \<le> gate decay writes widths b t h n"
  by (auto simp: gate_def tpow_def split: oracle_decay.splits)

definition nonnegative :: "ntensor list \<Rightarrow> bool" where
  "nonnegative levels \<longleftrightarrow> (\<forall>x\<in>set levels. \<forall>idx. list_all2 (<) idx (nt_shape x) \<longrightarrow> 0 \<le> nt_at x idx)"

lemma leaf_weight_nonneg:
  assumes "nonnegative levels" "length levels = length widths" "\<And>l. l < length widths \<Longrightarrow> nt_shape (levels ! l) = [B, T, H, widths ! l]"
    "b < B" "t < T" "h < H" "n < prod_list widths"
  shows "0 \<le> leaf_weight levels widths [b, t, h] n"
  unfolding leaf_weight_def
proof (rule prod_nonneg)
  fix l assume "l \<in> {..<length widths}"
  then have l: "l < length widths" by simp
  have "0 \<notin> set widths" using assms(7) prod_list_zero_iff [of widths] by auto
  then have "0 < widths ! l" using l nth_mem [OF l] by (metis gr0I)
  then have "leaf_digit widths l n < widths ! l" by (simp add: leaf_digit_def)
  then have "list_all2 (<) [b, t, h, leaf_digit widths l n] (nt_shape (levels ! l))" using assms(3) [OF l] assms(4-6) by simp
  then show "0 \<le> nt_at (levels ! l) ([b, t, h] @ [leaf_digit widths l n])"
    using assms(1,2) l unfolding nonnegative_def by simp
qed

text \<open>A column of values bounded by \<^term>\<open>M\<close> stays within \<^term>\<open>M\<close> times the mass column.\<close>

lemma carried_bounded:
  assumes "\<And>\<tau>. \<tau> < T \<Longrightarrow> 0 \<le> nt_at g [b, \<tau>, h] * leaf_weight writes widths [b, \<tau>, h] n"
    "\<And>\<tau>. \<tau> < T \<Longrightarrow> \<bar>nt_at v [b, \<tau>, h, c]\<bar> \<le> M" "c < d_v"
  shows "0 \<le> carried v writes g widths decay (\<lambda>_. 0) d_v b T h n d_v
    \<and> \<bar>carried v writes g widths decay (\<lambda>_. 0) d_v b T h n c\<bar> \<le> M * carried v writes g widths decay (\<lambda>_. 0) d_v b T h n d_v"
  using assms(1,2)
proof (induction T)
  case (Suc T)
  let ?C = "carried v writes g widths decay (\<lambda>_. 0) d_v b T h n" and ?a = "gate decay writes widths b T h n"
  let ?w = "nt_at g [b, T, h] * leaf_weight writes widths [b, T, h] n"
  have ih: "0 \<le> ?C d_v" "\<bar>?C c\<bar> \<le> M * ?C d_v" using Suc by auto
  have w: "0 \<le> ?w" "\<bar>nt_at v [b, T, h, c]\<bar> \<le> M" using Suc.prems by auto
  have "\<bar>?a * ?C c + ?w * nt_at v [b, T, h, c]\<bar> \<le> ?a * \<bar>?C c\<bar> + ?w * \<bar>nt_at v [b, T, h, c]\<bar>"
    using abs_triangle_ineq [of "?a * ?C c" "?w * nt_at v [b, T, h, c]"]
    unfolding abs_mult [of ?a] abs_mult [of ?w] abs_of_nonneg [OF w(1)] abs_of_nonneg [OF gate_nonneg] .
  also have "\<dots> \<le> ?a * (M * ?C d_v) + ?w * M"
    using ih w gate_nonneg by (intro add_mono mult_left_mono) auto
  finally have "\<bar>?a * ?C c + ?w * nt_at v [b, T, h, c]\<bar> \<le> M * (?a * ?C d_v + ?w)" by (simp add: algebra_simps)
  moreover have "0 \<le> ?a * ?C d_v + ?w" by (rule add_nonneg_nonneg [OF mult_nonneg_nonneg [OF gate_nonneg ih(1)] w(1)])
  ultimately show ?case using assms(3) by (simp add: carried_Suc)
qed (simp add: carried_0)

lemma attention_bounded:
  assumes "\<And>n. n < prod_list widths \<Longrightarrow> 0 \<le> leaf_weight reads widths [b, t, h] n"
    "\<And>n. n < prod_list widths \<Longrightarrow> 0 \<le> X n d_v \<and> \<bar>X n c\<bar> \<le> M * X n d_v"
    "\<And>c. attention v reads writes g widths decay S d_v b t h c = (\<Sum>n<prod_list widths. leaf_weight reads widths [b, t, h] n * X n c)"
  shows "0 \<le> attention v reads writes g widths decay S d_v b t h d_v
    \<and> \<bar>attention v reads writes g widths decay S d_v b t h c\<bar> \<le> M * attention v reads writes g widths decay S d_v b t h d_v"
proof
  let ?r = "leaf_weight reads widths [b, t, h]"
  show "0 \<le> attention v reads writes g widths decay S d_v b t h d_v" unfolding assms(3)
    using assms(1,2) by (intro sum_nonneg mult_nonneg_nonneg) auto
  have "\<bar>\<Sum>n<prod_list widths. ?r n * X n c\<bar> \<le> (\<Sum>n<prod_list widths. ?r n * (M * X n d_v))"
    using assms(1,2) by (intro order_trans [OF sum_abs] sum_mono) (auto simp: abs_mult intro!: mult_mono)
  also have "\<dots> = M * (\<Sum>n<prod_list widths. ?r n * X n d_v)" by (simp add: sum_distrib_left mult.left_commute)
  finally show "\<bar>attention v reads writes g widths decay S d_v b t h c\<bar> \<le> M * attention v reads writes g widths decay S d_v b t h d_v"
    unfolding assms(3) .
qed

text \<open>Without decay nothing is lost: the leaves hold what the tokens deposited.\<close>

lemma mass_conserved:
  "(\<Sum>n<prod_list widths. carried v writes g widths NoDecay (\<lambda>_. 0) d_v b T h n d_v)
     = (\<Sum>\<tau><T. nt_at g [b, \<tau>, h] * (\<Prod>l<length widths. \<Sum>d<widths ! l. nt_at (writes ! l) [b, \<tau>, h, d]))"
proof (induction T)
  case (Suc T)
  then show ?case
    by (simp add: carried_Suc sum.distrib leaf_weight_mass sum_distrib_left [symmetric])
qed (simp add: carried_0)

section \<open>Padded levels\<close>

definition widened_side :: "nat list \<Rightarrow> ntensor list \<Rightarrow> ntensor list \<Rightarrow> bool" where
  "widened_side ws levels levels' \<longleftrightarrow> (\<forall>l<length ws. \<forall>idx d. nt_at (levels' ! l) (idx @ [d]) = (if d < ws ! l then nt_at (levels ! l) (idx @ [d]) else 0))"

definition widened_decay :: "nat list \<Rightarrow> oracle_decay \<Rightarrow> oracle_decay \<Rightarrow> bool" where
  "widened_decay ws decay decay' \<longleftrightarrow> (case (decay, decay') of
     (Dials ds, Dials ds') \<Rightarrow> widened_side ws ds ds' | (NoDecay, NoDecay) \<Rightarrow> True | _ \<Rightarrow> False)"

definition digit_weight :: "ntensor list \<Rightarrow> nat list \<Rightarrow> nat list \<Rightarrow> real" where
  "digit_weight levels idx ds = (\<Prod>l<length ds. nt_at (levels ! l) (idx @ [ds ! l]))"

lemma leaf_weight_digits: "leaf_weight levels ws idx n = digit_weight levels idx (digits ws n)"
  unfolding leaf_weight_def digit_weight_def by (intro prod.cong) (simp_all add: nth_digits)

lemma digit_weight_widened:
  assumes "widened_side ws levels levels'" "length ds = length ws"
  shows "digit_weight levels' idx ds = (if in_digits ws ds then digit_weight levels idx ds else 0)"
proof (cases "in_digits ws ds")
  case True
  then show ?thesis using assms unfolding digit_weight_def
    by (simp add: widened_side_def in_digits_def list_all2_conv_all_nth)
next
  case False
  then obtain l where "l < length ws" "\<not> ds ! l < ws ! l" using assms(2) by (auto simp: in_digits_def list_all2_conv_all_nth)
  then show ?thesis using False assms unfolding digit_weight_def
    by (auto simp: widened_side_def prod_zero_iff intro!: bexI [of _ l])
qed

lemma sum_box:
  assumes "list_all2 (\<le>) vs ws" "\<And>ds. in_digits ws ds \<Longrightarrow> \<not> in_digits vs ds \<Longrightarrow> f ds = 0"
  shows "(\<Sum>s<prod_list ws. f (digits ws s)) = (\<Sum>s<prod_list vs. f (digits vs s) :: real)"
  unfolding sum_leaves using assms in_digits_mono [OF assms(1)] finite_digits
  by (intro sum.mono_neutral_right) auto

fun column :: "ntensor \<Rightarrow> ntensor list \<Rightarrow> ntensor \<Rightarrow> oracle_decay \<Rightarrow> nat \<Rightarrow> nat \<Rightarrow> nat \<Rightarrow> nat \<Rightarrow> nat list \<Rightarrow> nat \<Rightarrow> real" where
  "column v writes g decay d_v b 0 h ds c = 0"
| "column v writes g decay d_v b (Suc T) h ds c =
     (case decay of Dials dials \<Rightarrow> tpow (1 - digit_weight dials [h] ds) (digit_weight writes [b, T, h] ds) | _ \<Rightarrow> 1)
       * column v writes g decay d_v b T h ds c
     + nt_at g [b, T, h] * digit_weight writes [b, T, h] ds * (if c < d_v then nt_at v [b, T, h, c] else 1)"

lemma carried_column: "carried v writes g ws decay (\<lambda>_. 0) d_v b T h n c = column v writes g decay d_v b T h (digits ws n) c"
  by (induction T) (simp_all add: carried_0 carried_Suc gate_def leaf_weight_digits split: oracle_decay.splits)

lemma column_widened:
  assumes "widened_side vs writes writes'" "widened_decay vs decay decay'" "in_digits vs ds"
  shows "column v writes' g decay' d_v b T h ds c = column v writes g decay d_v b T h ds c"
proof -
  have len: "length ds = length vs" using assms(3) by (simp add: in_digits_def list_all2_lengthD)
  show ?thesis
  proof (induction T)
    case (Suc T)
    then show ?case using assms(2,3) digit_weight_widened [OF assms(1) len]
      by (auto simp: widened_decay_def digit_weight_widened len split: oracle_decay.splits)
  qed simp
qed

lemma attention_widened:
  assumes "widened_side vs reads reads'" "widened_side vs writes writes'" "widened_decay vs decay decay'" "list_all2 (\<le>) vs ws"
  shows "attention v reads' writes' g ws decay' (\<lambda>_. 0) d_v b t h c = attention v reads writes g vs decay (\<lambda>_. 0) d_v b t h c"
proof -
  let ?f = "\<lambda>ds. digit_weight reads' [b, t, h] ds * column v writes' g decay' d_v b (Suc t) h ds c"
  have z: "?f ds = 0" if "in_digits ws ds" "\<not> in_digits vs ds" for ds
    using that digit_weight_widened [OF assms(1)] assms(4) by (simp add: in_digits_def list_all2_lengthD [symmetric])
  have e: "?f ds = digit_weight reads [b, t, h] ds * column v writes g decay d_v b (Suc t) h ds c" if "in_digits vs ds" for ds
    using that digit_weight_widened [OF assms(1), of ds] column_widened [OF assms(2,3) that]
    by (simp only:) (simp add: in_digits_def list_all2_lengthD [symmetric])
  have "attention v reads' writes' g ws decay' (\<lambda>_. 0) d_v b t h c = (\<Sum>s<prod_list ws. ?f (digits ws s))"
    by (simp only: attention_def carried_column leaf_weight_digits)
  also have "\<dots> = (\<Sum>s<prod_list vs. ?f (digits vs s))" by (rule sum_box [OF assms(4) z])
  also have "\<dots> = (\<Sum>s<prod_list vs. digit_weight reads [b, t, h] (digits vs s) * column v writes g decay d_v b (Suc t) h (digits vs s) c)"
  proof (rule sum.cong [OF refl])
    fix s assume "s \<in> {..<prod_list vs}"
    then have "0 \<notin> set vs" using prod_list_zero_iff [of vs] by auto
    then show "?f (digits vs s) = digit_weight reads [b, t, h] (digits vs s) * column v writes g decay d_v b (Suc t) h (digits vs s) c"
      by (intro e in_digits_digits) (auto intro: gr0I)
  qed
  finally show ?thesis by (simp only: attention_def carried_column leaf_weight_digits)
qed

end
