(* ===== verification/Rola_Oracle_Claims.thy ===== *)
theory Rola_Oracle_Claims
  imports Rola_Oracle_Runs
begin

text \<open>The properties of the reference operator.\<close>

section \<open>Two small calls\<close>

definition flat :: "nat list \<Rightarrow> real \<Rightarrow> ntensor" where
  "flat shape x = \<lparr>nt_shape = shape, nt_at = (\<lambda>_. x)\<rparr>"

lemma flat_simps [simp]: "nt_shape (flat shape x) = shape" "nt_at (flat shape x) idx = x"
  by (simp_all add: flat_def)

definition demo_side :: "nat \<Rightarrow> ntensor option list" where
  "demo_side w = [Some \<lparr>nt_shape = [1, 2, 1, w], nt_at = (\<lambda>idx. if last idx < 2 then 1 / 2 else 0)\<rparr>]"

definition demo_topology :: "nat \<Rightarrow> level list" where
  "demo_topology w = [TiedLevel w Softmax]"

lemma demo_accepted:
  "2 \<le> w \<Longrightarrow> accepted (flat [1, 2, 1, 1] 3) (demo_side w) (demo_side w) (flat [1, 2, 1] 1) (demo_topology w) NoDecay None 1 2 1 1"
proof -
  assume w: "2 \<le> w"
  let ?f = "\<lambda>d :: nat. if d < 2 then 1 / 2 else (0 :: real)"
  have "(\<Sum>d<w. ?f d) = (\<Sum>d<2. ?f d)" using w by (intro sum.mono_neutral_right) auto
  then have "(\<Sum>d<w. ?f d) = 1" by (simp add: numeral_2_eq_2)
  then show ?thesis
    by (simp add: accepted_def oracle_inputs_def side_shapes_def demo_side_def demo_topology_def flat_def topology_widths_def decay_ok_def
        cache_ok_def simplex_ok_def SIMPLEX_ATOL_def)
qed

lemma demo_runs:
  assumes "2 \<le> w"
  shows "\<exists>y F. naive_rola (flat [1, 2, 1, 1] 3) (demo_side w) (demo_side w) (flat [1, 2, 1] 1) (demo_topology w) NoDecay eps None True
     = Inr (y, Some F) \<and> nt_shape y = [1, 2, 1, 1]"
  using accepted_result [OF demo_accepted [OF assms], of eps True] by auto

section \<open>What is accepted and what is returned\<close>

text \<open>
  C25 (oracleaccepts): The reference returns exactly on the lawful inputs: the values are
  [B,T,H,d_v], each side has one [B,T,H,width] tensor per level, every level is a simplex within the
  tolerance, the gains are positive, the decay is absent or a lawful set of dials with H heads, and
  an initial state has the shape of the cache.
\<close>
theorem naive_rola_accepts:
  "is_ok (naive_rola v reads writes g topology decay eps init keep) \<longleftrightarrow> (\<exists>B T H d_v. accepted v reads writes g topology decay init B T H d_v)"
proof
  show "\<exists>B T H d_v. accepted v reads writes g topology decay init B T H d_v" if "is_ok (naive_rola v reads writes g topology decay eps init keep)"
    using naive_accepted that by (auto simp: is_ok_iff)
  show "is_ok (naive_rola v reads writes g topology decay eps init keep)" if "\<exists>B T H d_v. accepted v reads writes g topology decay init B T H d_v"
    using accepted_result that by (fastforce simp: is_ok_iff)
qed

text \<open>
  C4 (attention): The recurrence is masked linear attention over the leaves. The output of a
  token is the readout of its value column over the readout of the ones column plus eps; a readout
  sums, over the leaves, the read product times what the leaf carries: the initial state under all
  gates, and every deposit up to and including the token under the gates after it. The final state
  is what the leaves carry after the last token.
\<close>
theorem naive_rola_attention:
  assumes "naive_rola v reads writes g topology decay eps init keep = Inr (y, F)" "nt_shape v = [B, T, H, d_v]" "t < T"
  shows "nt_shape y = [B, T, H, d_v]
    \<and> nt_at y [b, t, h, c] =
        attention v (map the reads) (map the writes) g (topology_widths topology) decay (cache_at init) d_v b t h c
        / (attention v (map the reads) (map the writes) g (topology_widths topology) decay (cache_at init) d_v b t h d_v + eps)
    \<and> (keep \<longrightarrow> F \<noteq> None \<and> nt_at (the F) [b, h, n, c'] =
        carried v (map the writes) g (topology_widths topology) decay (cache_at init) d_v b T h n c')"
  using naive_result [OF assms(1,2)] assms(3) by blast

theorem naive_rola_attention_witness:
  "\<exists>y F. naive_rola (flat [1, 2, 1, 1] 3) (demo_side 2) (demo_side 2) (flat [1, 2, 1] 1) (demo_topology 2) NoDecay 1 None True = Inr (y, F)
     \<and> nt_at y [0, 1, 0, 0] = 3 / 2 \<and> nt_at (the F) [0, 0, 1, 1] = 1"
proof -
  obtain y F where r: "naive_rola (flat [1, 2, 1, 1] 3) (demo_side 2) (demo_side 2) (flat [1, 2, 1] 1) (demo_topology 2) NoDecay 1 None True = Inr (y, Some F)"
    using demo_runs [of 2 1] by auto
  have d: "leaf_digit [2] 0 n < 2" for n by (simp add: leaf_digit_def)
  have s2: "sum f {..<2} = f 0 + f 1" for f :: "nat \<Rightarrow> real" by (simp add: numeral_2_eq_2)
  have e: "attention (flat [1, 2, 1, 1] 3) (map the (demo_side 2)) (map the (demo_side 2)) (flat [1, 2, 1] 1) [2] NoDecay (\<lambda>_. 0) 1 0 1 0 c = (if c = 0 then 3 else 1)"
    for c by (simp add: attention_def carried_def leaf_weight_def demo_side_def s2 d)
  have "nt_at y [0, 1, 0, 0] = 3 / (1 + 1) \<and> nt_at (the (Some F)) [0, 0, 1, 1] = carried (flat [1, 2, 1, 1] 3) (map the (demo_side 2)) (flat [1, 2, 1] 1) [2] NoDecay (\<lambda>_. 0) 1 0 2 0 1 1"
    using naive_rola_attention [OF r, where t = 1 and b = 0 and h = 0 and c = 0 and n = 1 and c' = 1 and B = 1 and T = 2 and H = 1 and d_v = 1]
    by (simp del: One_nat_def add: demo_topology_def topology_widths_def cache_at_def e)
  moreover have "carried (flat [1, 2, 1, 1] 3) (map the (demo_side 2)) (flat [1, 2, 1] 1) [2] NoDecay (\<lambda>_. 0) 1 0 2 0 1 1 = 1"
    by (simp add: carried_def leaf_weight_def demo_side_def s2 d)
  ultimately show ?thesis using r by auto
qed

text \<open>
  C11 (chained): A run may be cut anywhere. The first tokens run on their own, the rest run from
  the final state of the first run, both return, and together they give the outputs and the final
  state of the whole run.
\<close>
theorem naive_rola_chained:
  assumes "naive_rola v reads writes g topology decay eps init True = Inr (y, Some F)" "nt_shape v = [B, m + k, H, d_v]"
  shows "\<exists>y1 F1 y2 F2.
      naive_rola (time_slice 0 m v) (map (map_option (time_slice 0 m)) reads) (map (map_option (time_slice 0 m)) writes)
        (time_slice 0 m g) topology decay eps init True = Inr (y1, Some F1)
    \<and> naive_rola (time_slice m k v) (map (map_option (time_slice m k)) reads) (map (map_option (time_slice m k)) writes)
        (time_slice m k g) topology decay eps (Some (Some F1)) True = Inr (y2, Some F2)
    \<and> (\<forall>b t h c. t < m + k \<longrightarrow> nt_at y [b, t, h, c] = (if t < m then nt_at y1 [b, t, h, c] else nt_at y2 [b, t - m, h, c]))
    \<and> (\<forall>b h n c. nt_at F [b, h, n, c] = nt_at F2 [b, h, n, c])"
proof -
  let ?ws = "topology_widths topology" and ?r = "map the reads" and ?w = "map the writes"
  let ?s = "\<lambda>s n. map (map_option (time_slice s n))"
  note whole = naive_result [OF assms(1,2)]
  note len = accepted_facts(2,3) [OF whole(1)]
  have shapes: "side_shapes [B, m + k, H] reads ?ws" "side_shapes [B, m + k, H] writes ?ws"
    using whole(1) by (simp_all add: accepted_def oracle_inputs_def)
  then have the: "map the (?s s n reads) = map (time_slice s n) ?r" "map the (?s s n writes) = map (time_slice s n) ?w" for s n
    by (auto simp: side_shapes_def in_set_conv_nth intro!: option.map_sel)
  have c0: "cache_ok init [B, H, prod_list ?ws, d_v + 1]" using whole(1) by (simp add: accepted_def)
  have a1: "accepted (time_slice 0 m v) (?s 0 m reads) (?s 0 m writes) (time_slice 0 m g) topology decay init B m H d_v"
    by (rule accepted_slice [OF whole(1) _ c0]) simp
  obtain y1 F1 where r1: "naive_rola (time_slice 0 m v) (?s 0 m reads) (?s 0 m writes) (time_slice 0 m g) topology decay eps init True = Inr (y1, Some F1)"
    and sh1: "nt_shape F1 = [B, H, prod_list ?ws, d_v + 1]"
    using accepted_result [OF a1, of eps True] by (simp only: if_True) blast
  have a2: "accepted (time_slice m k v) (?s m k reads) (?s m k writes) (time_slice m k g) topology decay (Some (Some F1)) B k H d_v"
    by (rule accepted_slice [OF whole(1)]) (simp_all add: cache_ok_def sh1)
  obtain y2 F2 where r2: "naive_rola (time_slice m k v) (?s m k reads) (?s m k writes) (time_slice m k g) topology decay eps (Some (Some F1)) True = Inr (y2, Some F2)"
    using accepted_result [OF a2, of eps True] by (simp only: if_True) blast
  note first = naive_result [OF r1 accepted_facts(4) [OF a1]] and second = naive_result [OF r2 accepted_facts(4) [OF a2]]
  have F1: "nt_at F1 [b, h, n, c] = carried v ?w g ?ws decay (cache_at init) d_v b m h n c" for b h n c
    using first(4) unfolding the by (simp del: map_map add: carried_slice carried_0 len)
  have c1: "cache_at (Some (Some F1)) = nt_at F1" by (simp add: cache_at_def)
  have "nt_at y [b, t, h, c] = (if t < m then nt_at y1 [b, t, h, c] else nt_at y2 [b, t - m, h, c])" if t: "t < m + k" for b t h c
  proof (cases "t < m")
    case True
    then show ?thesis using whole(3) [OF t] first(3) [OF True] True unfolding the by (simp del: map_map add: attention_slice carried_0 len)
  next
    case False
    then have "t - m < k" "m + (t - m) = t" using t by simp_all
    then show ?thesis using whole(3) [OF t] second(3) False unfolding the
      by (simp del: map_map add: attention_slice [where s = m and S = "cache_at init"] c1 F1 len)
  qed
  moreover have "nt_at F [b, h, n, c] = nt_at F2 [b, h, n, c]" for b h n c
    using whole(4) second(4) unfolding the by (simp del: map_map add: carried_slice [where s = m and S = "cache_at init"] c1 F1 len)
  ultimately show ?thesis using r1 r2 by blast
qed

theorem naive_rola_chained_witness:
  "\<exists>y1 F1 y2 F2. naive_rola (time_slice 0 1 (flat [1, 2, 1, 1] 3)) (map (map_option (time_slice 0 1)) (demo_side 2)) (map (map_option (time_slice 0 1)) (demo_side 2))
      (time_slice 0 1 (flat [1, 2, 1] 1)) (demo_topology 2) NoDecay 1 None True = Inr (y1, Some F1)
    \<and> naive_rola (time_slice 1 1 (flat [1, 2, 1, 1] 3)) (map (map_option (time_slice 1 1)) (demo_side 2)) (map (map_option (time_slice 1 1)) (demo_side 2))
      (time_slice 1 1 (flat [1, 2, 1] 1)) (demo_topology 2) NoDecay 1 (Some (Some F1)) True = Inr (y2, Some F2)"
proof -
  obtain y F where "naive_rola (flat [1, 2, 1, 1] 3) (demo_side 2) (demo_side 2) (flat [1, 2, 1] 1) (demo_topology 2) NoDecay 1 None True = Inr (y, Some F)"
    using demo_runs [of 2 1] by auto
  from naive_rola_chained [OF this, of 1 1 1 1 1] show ?thesis by auto
qed

section \<open>Ranges, masses and padding\<close>

text \<open>
  C27 (bounded): The output is an average. From an empty state, over nonnegative levels and at a
  positive eps, an output is at most the largest value in absolute value, scaled down by
  mass / (mass + eps): what no token wrote reads zero.
\<close>
theorem naive_rola_bounded:
  assumes "naive_rola v reads writes g topology decay eps None keep = Inr (y, F)"
    and "nonnegative (map the reads)" "nonnegative (map the writes)" "0 < eps"
    and "\<And>idx. list_all2 (<) idx (nt_shape v) \<Longrightarrow> \<bar>nt_at v idx\<bar> \<le> M"
    and "list_all2 (<) [b, t, h, c] (nt_shape v)"
  shows "\<exists>mass\<ge>0. mass = attention v (map the reads) (map the writes) g (topology_widths topology) decay (\<lambda>_. 0) (nt_shape v ! 3) b t h (nt_shape v ! 3)
    \<and> \<bar>nt_at y [b, t, h, c]\<bar> \<le> M * (mass / (mass + eps)) \<and> M * (mass / (mass + eps)) \<le> M"
proof -
  obtain B T H d_v where sh: "nt_shape v = [B, T, H, d_v]" using assms(6) by (auto simp: list_all2_Cons1)
  then have ix: "b < B" "t < T" "h < H" "c < d_v" using assms(6) by simp_all
  note r = naive_result [OF assms(1) sh]
  note f = accepted_facts [OF r(1)]
  let ?ws = "topology_widths topology"
  let ?A = "attention v (map the reads) (map the writes) g ?ws decay (\<lambda>_. 0) d_v b t h"
  let ?C = "\<lambda>n. carried v (map the writes) g ?ws decay (\<lambda>_. 0) d_v b (Suc t) h n"
  have rd: "0 \<le> leaf_weight (map the reads) ?ws [b, t, h] n" if "n < prod_list ?ws" for n
    by (rule leaf_weight_nonneg [OF assms(2) _ _ ix(1-3) that]) (use f in simp_all)
  have wr: "0 \<le> nt_at g [b, \<tau>, h] * leaf_weight (map the writes) ?ws [b, \<tau>, h] n" if "n < prod_list ?ws" "\<tau> < Suc t" for n \<tau>
  proof (rule mult_nonneg_nonneg)
    have \<tau>: "\<tau> < T" using that(2) ix(2) by simp
    show "0 \<le> nt_at g [b, \<tau>, h]" using f(5) [of "[b, \<tau>, h]"] \<tau> ix by simp
    show "0 \<le> leaf_weight (map the writes) ?ws [b, \<tau>, h] n"
      by (rule leaf_weight_nonneg [OF assms(3) _ _ ix(1) \<tau> ix(3) that(1)]) (use f in simp_all)
  qed
  have vM: "\<bar>nt_at v [b, \<tau>, h, c]\<bar> \<le> M" if "\<tau> < Suc t" for \<tau> using assms(5) [of "[b, \<tau>, h, c]"] that ix sh by simp
  have C: "0 \<le> ?C n d_v \<and> \<bar>?C n c\<bar> \<le> M * ?C n d_v" if "n < prod_list ?ws" for n
    by (rule carried_bounded [OF wr [OF that] vM ix(4)])
  have A: "0 \<le> ?A d_v \<and> \<bar>?A c\<bar> \<le> M * ?A d_v"
    by (rule attention_bounded [where X = ?C, OF rd C attention_def])
  have M: "0 \<le> M" using vM [of t] by simp
  have y: "nt_at y [b, t, h, c] = ?A c / (?A d_v + eps)" using r(3) [OF ix(2), of b h c] by (simp add: cache_at_def)
  have "\<bar>nt_at y [b, t, h, c]\<bar> \<le> M * (?A d_v / (?A d_v + eps))"
    using A assms(4) by (simp add: y divide_right_mono)
  moreover have "?A d_v / (?A d_v + eps) \<le> 1" using A assms(4) by simp
  then have "M * (?A d_v / (?A d_v + eps)) \<le> M" using mult_left_mono [OF _ M] by fastforce
  ultimately show ?thesis using A sh by (intro exI [of _ "?A d_v"]) simp
qed

lemma demo_nonnegative: "nonnegative (map the (demo_side w))"
  by (simp add: nonnegative_def demo_side_def)

theorem naive_rola_bounded_witness:
  "\<exists>y F. naive_rola (flat [1, 2, 1, 1] 3) (demo_side 2) (demo_side 2) (flat [1, 2, 1] 1) (demo_topology 2) NoDecay 1 None True = Inr (y, F)
     \<and> \<bar>nt_at y [0, 1, 0, 0]\<bar> \<le> 3"
proof -
  obtain y F where r: "naive_rola (flat [1, 2, 1, 1] 3) (demo_side 2) (demo_side 2) (flat [1, 2, 1] 1) (demo_topology 2) NoDecay 1 None True = Inr (y, Some F)"
    using demo_runs [of 2 1] by auto
  have "\<exists>x. \<bar>nt_at y [0, 1, 0, 0]\<bar> \<le> x \<and> x \<le> 3"
    using naive_rola_bounded [OF r demo_nonnegative demo_nonnegative, of 3 0 1 0 0] by (simp del: One_nat_def) blast
  then show ?thesis using r by auto
qed

text \<open>
  C30 (mass): Without decay no mass is lost. From an empty state the ones columns of the final
  cache sum to the gains of the tokens, each times the masses of its write levels; over exact
  simplices that is the sum of the gains.
\<close>
theorem naive_rola_mass:
  assumes "naive_rola v reads writes g topology NoDecay eps None True = Inr (y, Some F)" "nt_shape v = [B, T, H, d_v]"
  shows "(\<Sum>n<prod_list (topology_widths topology). nt_at F [b, h, n, d_v])
    = (\<Sum>\<tau><T. nt_at g [b, \<tau>, h] * (\<Prod>l<length writes. row_mass (the (writes ! l)) [b, \<tau>, h]))"
proof -
  note r = naive_result [OF assms] and f = accepted_facts [OF naive_result(1) [OF assms]]
  have "row_mass (the (writes ! l)) [b, \<tau>, h] = (\<Sum>d<topology_widths topology ! l. nt_at (map the writes ! l) [b, \<tau>, h, d])"
    if "l < length (topology_widths topology)" for l \<tau>
    using that f(3) f(7) [OF that] by (simp add: row_mass_def interv_sum_list_conv_sum_set_nat lessThan_atLeast0)
  then show ?thesis using r(4) f(3) mass_conserved [of v "map the writes" g "topology_widths topology" d_v b T h]
    by (simp add: cache_at_def)
qed

theorem naive_rola_mass_witness:
  "\<exists>y F. naive_rola (flat [1, 2, 1, 1] 3) (demo_side 2) (demo_side 2) (flat [1, 2, 1] 1) (demo_topology 2) NoDecay 1 None True = Inr (y, Some F)
     \<and> (\<Sum>n<2. nt_at F [0, 0, n, 1]) = 2"
proof -
  obtain y F where r: "naive_rola (flat [1, 2, 1, 1] 3) (demo_side 2) (demo_side 2) (flat [1, 2, 1] 1) (demo_topology 2) NoDecay 1 None True = Inr (y, Some F)"
    using demo_runs [of 2 1] by auto
  have "row_mass (the (demo_side 2 ! 0)) [0, \<tau>, 0] = 1" for \<tau> by (simp add: row_mass_def demo_side_def numeral_2_eq_2)
  then have "(\<Sum>n<2. nt_at F [0, 0, n, 1]) = 2"
    using naive_rola_mass [OF r, of 1 2 1 1 0 0] by (simp add: demo_topology_def topology_widths_def demo_side_def)
  then show ?thesis using r by blast
qed

text \<open>
  C26 (padinvisible): Padding is invisible to the mathematics. Two calls over the same values
  and gains, the second over wider levels (and dials) that agree inside the widths of the first and
  are zero beyond, give the same outputs from an empty state when both return.
\<close>
theorem naive_rola_padding_invisible:
  assumes "naive_rola v reads writes g topology decay eps None keep = Inr (y, F)"
    and "naive_rola v reads' writes' g topology' decay' eps None keep' = Inr (y', F')"
    and "list_all2 (\<le>) (topology_widths topology) (topology_widths topology')"
    and "widened_side (topology_widths topology) (map the reads) (map the reads')"
    and "widened_side (topology_widths topology) (map the writes) (map the writes')"
    and "widened_decay (topology_widths topology) decay decay'"
    and "list_all2 (<) [b, t, h, c] (nt_shape v)"
  shows "nt_shape y' = nt_shape y \<and> nt_at y' [b, t, h, c] = nt_at y [b, t, h, c]"
proof -
  obtain B T H d_v where sh: "nt_shape v = [B, T, H, d_v]" and t: "t < T" using assms(7) by (auto simp: list_all2_Cons1)
  show ?thesis using naive_result(2,3) [OF assms(1) sh] naive_result(2,3) [OF assms(2) sh] t
    by (simp add: cache_at_def attention_widened [OF assms(4-6,3)])
qed

theorem naive_rola_padding_invisible_witness:
  "\<exists>y F y' F'. naive_rola (flat [1, 2, 1, 1] 3) (demo_side 2) (demo_side 2) (flat [1, 2, 1] 1) (demo_topology 2) NoDecay 1 None True = Inr (y, F)
     \<and> naive_rola (flat [1, 2, 1, 1] 3) (demo_side 16) (demo_side 16) (flat [1, 2, 1] 1) (demo_topology 16) NoDecay 1 None True = Inr (y', F')
     \<and> nt_at y' [0, 1, 0, 0] = nt_at y [0, 1, 0, 0]"
proof -
  obtain y F where r: "naive_rola (flat [1, 2, 1, 1] 3) (demo_side 2) (demo_side 2) (flat [1, 2, 1] 1) (demo_topology 2) NoDecay 1 None True = Inr (y, Some F)"
    using demo_runs [of 2 1] by auto
  obtain y' F' where r': "naive_rola (flat [1, 2, 1, 1] 3) (demo_side 16) (demo_side 16) (flat [1, 2, 1] 1) (demo_topology 16) NoDecay 1 None True = Inr (y', Some F')"
    using demo_runs [of 16 1] by auto
  have "widened_side [2] (map the (demo_side 2)) (map the (demo_side 16))" by (simp add: widened_side_def demo_side_def)
  then have "nt_at y' [0, 1, 0, 0] = nt_at y [0, 1, 0, 0]"
    using naive_rola_padding_invisible [OF r r', of 0 1 0 0] by (simp add: demo_topology_def topology_widths_def widened_decay_def)
  then show ?thesis using r r' by blast
qed

end
