(* ===== verification/Rola_Carry.thy ===== *)
theory Rola_Carry
  imports Rola_Liveness Rola_Lattice
begin

text \<open>
  The launch surface of the carry kernel (\<^verbatim>\<open>rola/ops/carry.py\<close>): the launch shape, the order
  policy, the addressing block and its reader, the refusals of the kernel boundary and the two entries.
  A tensor is a shape, a dtype and an entry per index. The kernels are parameters; a launch returns
  the contents of the buffers it was handed. An argument of another class is \<^const>\<open>None\<close>.
\<close>

record 'a tens =
  te_shape :: "nat list"
  te_dtype :: string
  te_at :: "nat list \<Rightarrow> 'a"

section \<open>The launch shape and the order policy\<close>

definition SHIPPED_DV :: "nat list" where "SHIPPED_DV = [32, 64, 128]"
definition WARPS_PER_CTA :: "nat list" where "WARPS_PER_CTA = [8, 4]"
definition SHIPPED_WARPS_PER_CTA :: nat where "SHIPPED_WARPS_PER_CTA = 8"
definition LEAVES_PER_WARP_BUDGET :: nat where "LEAVES_PER_WARP_BUDGET = 32 * 64"
definition CARRY_WINDOW :: nat where "CARRY_WINDOW = 512"
definition PAGE_LEAVES :: nat where "PAGE_LEAVES = MMA_K_QUANTUM"
definition ACTIVITY_WRITTEN :: "8 word" where "ACTIVITY_WRITTEN = 1"
definition ACTIVITY_READ :: "8 word" where "ACTIVITY_READ = 2"

definition carry_leaves_per_warp :: "nat \<Rightarrow> nat res" where
  "carry_leaves_per_warp DV = (if DV = 0 then Inl (ZeroDivisionError ''integer division by zero'') else Inr (LEAVES_PER_WARP_BUDGET div DV))"

definition carry_box_leaves :: "nat \<Rightarrow> nat \<Rightarrow> nat res" where
  "carry_box_leaves DV warps = rbind (carry_leaves_per_warp DV) (\<lambda>l. Inr (l * warps))"

record launch_shape =
  ls_warps :: nat

definition make_launch :: "nat \<Rightarrow> launch_shape res" where
  "make_launch warps = rbind (refuse (warps \<notin> set WARPS_PER_CTA) (CarryRefusal ''not a launch shape this family builds'')) (\<lambda>_.
     Inr \<lparr>ls_warps = warps\<rparr>)"

definition launch_threads :: "launch_shape \<Rightarrow> nat" where "launch_threads ls = ls_warps ls * 32"

definition ORDER_FIRST_BOX :: string where "ORDER_FIRST_BOX = ''first''"
definition ORDER_IDENTITY :: string where "ORDER_IDENTITY = ''identity''"
definition ORDER_POLICIES :: "(string \<times> nat) list" where "ORDER_POLICIES = [(ORDER_FIRST_BOX, 0), (ORDER_IDENTITY, 1)]"

record carry_schedule =
  cs_order :: string

definition make_schedule :: "string \<Rightarrow> carry_schedule res" where
  "make_schedule order = rbind (refuse (order \<notin> fst ` set ORDER_POLICIES) (CarryRefusal ''not an order policy'')) (\<lambda>_.
     Inr \<lparr>cs_order = order\<rparr>)"

definition schedule_flat :: "carry_schedule \<Rightarrow> nat list res" where
  "schedule_flat cs = (case map_of ORDER_POLICIES (cs_order cs) of None \<Rightarrow> Inl (KeyError ''order'') | Some code \<Rightarrow> Inr [code])"

definition select_schedule :: "state_format \<Rightarrow> nat \<Rightarrow> carry_schedule res" where
  "select_schedule descriptor level_modes = make_schedule ORDER_FIRST_BOX"

section \<open>The addressing block\<close>

text \<open>The reader of the positional vector: \<^verbatim>\<open>take(n)\<close> consumes, and stops where the vector ends.\<close>

type_synonym 'a reader = "int list \<Rightarrow> ('a \<times> int list) res"

definition GEOM_MAX_LEVELS :: nat where "GEOM_MAX_LEVELS = 4"
definition GEOM_LEVEL :: "string list" where
  "GEOM_LEVEL = [''width'', ''span'', ''grid'', ''col_base'', ''run_shift'', ''owner_div'', ''weight'']"
definition GEOM_SCALAR :: "string list" where
  "GEOM_SCALAR = [''wtot'', ''owners'', ''leaves'', ''local_bits'', ''min_width'', ''identity_map'']"
definition SIDE_LEVEL :: "string list" where
  "SIDE_LEVEL = [''level_at'', ''rank'', ''row_span'', ''grid'', ''grid_div'', ''row_g'', ''row_prefix'', ''sub_bits'', ''sub_shift'']"
definition SIDE_SCALAR :: "string list" where
  "SIDE_SCALAR = [''carves'', ''rows'', ''leaf'', ''streams'', ''assign'']"

definition read_ints :: "nat \<Rightarrow> int list reader" where
  "read_ints n xs = (if length xs < n then Inl (StopIteration ''the vector ends'') else Inr (take n xs, drop n xs))"

definition read_scalar :: "int reader" where
  "read_scalar xs = rbind (read_ints 1 xs) (\<lambda>(y, rest). Inr (y ! 0, rest))"

text \<open>\<^verbatim>\<open>[:D]\<close>: a negative bound counts from the end.\<close>

definition first_levels :: "int \<Rightarrow> int list \<Rightarrow> int list" where
  "first_levels D xs = (if 0 \<le> D then take (nat D) xs else take (length xs - nat (- D)) xs)"

fun read_level_fields :: "int \<Rightarrow> string list \<Rightarrow> (string \<times> int list) list reader" where
  "read_level_fields D [] xs = Inr ([], xs)"
| "read_level_fields D (name # names) xs =
     rbind (read_ints GEOM_MAX_LEVELS xs) (\<lambda>(y, rest).
     rbind (read_level_fields D names rest) (\<lambda>(ys, rest).
       Inr ((name, first_levels D y) # ys, rest)))"

fun read_scalar_fields :: "string list \<Rightarrow> (string \<times> int) list reader" where
  "read_scalar_fields [] xs = Inr ([], xs)"
| "read_scalar_fields (name # names) xs =
     rbind (read_scalar xs) (\<lambda>(y, rest). rbind (read_scalar_fields names rest) (\<lambda>(ys, rest). Inr ((name, y) # ys, rest)))"

fun read_rows :: "nat \<Rightarrow> nat \<Rightarrow> int list list reader" where
  "read_rows 0 n xs = Inr ([], xs)"
| "read_rows (Suc k) n xs =
     rbind (read_ints n xs) (\<lambda>(y, rest). rbind (read_rows k n rest) (\<lambda>(ys, rest). Inr (y # ys, rest)))"

record geom_side =
  gs_levels :: "(string \<times> int list) list"
  gs_scalars :: "(string \<times> int) list"

definition read_side :: "int \<Rightarrow> geom_side reader" where
  "read_side D xs =
     rbind (read_level_fields D SIDE_LEVEL xs) (\<lambda>(ls, rest).
     rbind (read_scalar_fields SIDE_SCALAR rest) (\<lambda>(ss, rest).
       Inr (\<lparr>gs_levels = ls, gs_scalars = ss\<rparr>, rest)))"

definition side_scalar :: "geom_side \<Rightarrow> string \<Rightarrow> nat" where
  "side_scalar side name = (case map_of (gs_scalars side) name of None \<Rightarrow> 0 | Some x \<Rightarrow> nat x)"

record geom_fields =
  gf_D :: int
  gf_bc :: int
  gf_levels :: "(string \<times> int list) list"
  gf_scalars :: "(string \<times> int) list"
  gf_r :: geom_side
  gf_w :: geom_side
  gf_xch_w :: "int list list"
  gf_xch_r :: "int list list"

text \<open>\<^verbatim>\<open>range(n)\<close> of a negative count is empty, which is what \<^const>\<open>nat\<close> gives.\<close>

definition read_block :: "int list \<Rightarrow> geom_fields res" where
  "read_block flat =
     rbind (read_scalar flat) (\<lambda>(D, rest).
     rbind (read_scalar rest) (\<lambda>(bc, rest).
     rbind (read_level_fields D GEOM_LEVEL rest) (\<lambda>(levels, rest).
     rbind (read_scalar_fields GEOM_SCALAR rest) (\<lambda>(scalars, rest).
     rbind (read_side D rest) (\<lambda>(r, rest).
     rbind (read_side D rest) (\<lambda>(w, rest).
     rbind (read_rows (side_scalar w ''streams'') (side_scalar w ''leaf'') rest) (\<lambda>(xw, rest).
     rbind (read_rows (side_scalar r ''streams'') (side_scalar r ''leaf'') rest) (\<lambda>(xr, rest).
       if rest \<noteq> [] then Inl (AssertionError ''the flattened field order drifted'')
       else Inr \<lparr>gf_D = D, gf_bc = bc, gf_levels = levels, gf_scalars = scalars, gf_r = r, gf_w = w,
                  gf_xch_w = xw, gf_xch_r = xr\<rparr>))))))))"

type_synonym geom_op = "nat list \<Rightarrow> nat \<Rightarrow> nat \<Rightarrow> nat \<Rightarrow> nat \<Rightarrow> nat \<Rightarrow> int list res"

definition geometry :: "geom_op \<Rightarrow> nat list \<Rightarrow> nat \<Rightarrow> nat \<Rightarrow> nat \<Rightarrow> nat \<Rightarrow> nat \<Rightarrow> geom_fields res" where
  "geometry ext widths level_modes bc nsr nsw d_v = rbind (ext widths level_modes bc nsr nsw d_v) read_block"

record geometry_block =
  gb_D :: nat
  gb_B :: "nat list"
  gb_DV :: nat
  gb_warps :: nat
  gb_BC :: nat
  gb_fields :: geom_fields
  gb_modes :: nat

definition side_level_at :: "geom_side \<Rightarrow> int list res" where
  "side_level_at side = (case map_of (gs_levels side) ''level_at'' of None \<Rightarrow> Inl (KeyError ''level_at'') | Some xs \<Rightarrow> Inr xs)"

definition carve_order :: "geometry_block \<Rightarrow> int list res" where
  "carve_order gb = rbind (side_level_at (gf_r (gb_fields gb))) (\<lambda>r. rbind (side_level_at (gf_w (gb_fields gb))) (\<lambda>w. Inr (r @ w)))"

definition block_leaves :: "geometry_block \<Rightarrow> nat" where
  "block_leaves gb = fold (\<lambda>width n. n * width) (gb_B gb) 1"

section \<open>The refusals\<close>

definition refuse_descriptor :: "state_format option \<Rightarrow> unit res" where
  "refuse_descriptor descriptor =
     (case descriptor of None \<Rightarrow> Inl (CarryRefusal ''driven by the state format descriptor'')
      | Some f \<Rightarrow> checks
          [checks (map (\<lambda>width. refuse (unlawful_width width) (CarryRefusal ''the kernel does not pad'')) (sf_B f)),
           refuse (sf_DV f \<notin> set SHIPPED_DV) (CarryRefusal ''not a shipped value width''),
           refuse (format_N f mod PAGE_LEAVES \<noteq> 0) (CarryRefusal ''there is no ragged state''),
           refuse (sf_dtype f \<noteq> SPLIT_PLANE_DTYPE) (CarryRefusal ''the state dtype'')])"

definition refuse_bf16 :: "'a tens \<Rightarrow> unit res" where
  "refuse_bf16 x = refuse (te_dtype x \<noteq> ''bfloat16'') (CarryRefusal ''operands are bf16 and only bf16'')"

definition refuse_launch :: "launch_shape option \<Rightarrow> unit res" where
  "refuse_launch launch = refuse (launch = None) (CarryRefusal ''the launch shape is a LaunchShape'')"

definition refuse_geometry :: "geometry_block option \<Rightarrow> state_format \<Rightarrow> launch_shape \<Rightarrow> unit res" where
  "refuse_geometry block descriptor launch =
     (case block of None \<Rightarrow> Inl (CarryRefusal ''the geometry block is a GeometryBlock'')
      | Some gb \<Rightarrow> rbind (carry_box_leaves (sf_DV descriptor) (ls_warps launch)) (\<lambda>bc.
          refuse ((gb_D gb, gb_B gb, gb_DV gb, gb_warps gb, gb_BC gb)
              \<noteq> (sf_D descriptor, sf_B descriptor, sf_DV descriptor, ls_warps launch, bc))
            (CarryRefusal ''the geometry block was derived for another shape'')))"

record route_planes =
  rp_read :: "real tens"
  rp_write :: "real tens"
  rp_gain :: "real tens"

definition refuse_operands ::
    "route_planes option \<Rightarrow> real tens \<Rightarrow> state_format \<Rightarrow> 32 word tens option \<Rightarrow> 8 word tens \<Rightarrow> (nat \<times> nat) res" where
  "refuse_operands routes v descriptor liveness activity =
     (case routes of None \<Rightarrow> Inl (CarryRefusal ''the routing operands are a RoutePlanes'')
      | Some rp \<Rightarrow>
        let wtot = sum_list (sf_B descriptor); pages = format_N descriptor div PAGE_LEAVES in
        rbind (checks (map refuse_bf16 [rp_read rp, rp_write rp, rp_gain rp, v])) (\<lambda>_.
        rbind (checks (map (\<lambda>plane. refuse (length (te_shape plane) \<noteq> 3 \<or> te_shape plane ! 2 \<noteq> wtot)
            (CarryRefusal ''the packed routing plane'')) [rp_read rp, rp_write rp])) (\<lambda>_.
        let bh = te_shape (rp_read rp) ! 0; L = te_shape (rp_read rp) ! 1 in
        rbind (refuse (te_shape (rp_write rp) \<noteq> [bh, L, wtot]) (CarryRefusal ''the two sides disagree'')) (\<lambda>_.
        rbind (refuse (te_shape (rp_gain rp) \<noteq> [bh, L]) (CarryRefusal ''routes.gain'')) (\<lambda>_.
        rbind (refuse (length (te_shape v) \<noteq> 3 \<or> te_shape v \<noteq> [bh, L, sf_DV descriptor]) (CarryRefusal ''v'')) (\<lambda>_.
        (case liveness of None \<Rightarrow> Inl (CarryRefusal ''the liveness words are a LivenessWords'')
         | Some words \<Rightarrow>
           rbind (layout_of descriptor (int L)) (\<lambda>ly.
           rbind (refuse (te_dtype words \<noteq> ''int32'' \<or> te_shape words \<noteq> [bh, 2, layout_rows ly, layout_words ly]) (CarryRefusal ''liveness.words'')) (\<lambda>_.
           rbind (refuse (te_dtype activity \<noteq> ''uint8'' \<or> te_shape activity \<noteq> [bh, pages]) (CarryRefusal ''the activity bits'')) (\<lambda>_.
             Inr (bh, L)))))))))))"

text \<open>A state plane is a storage and its words: the caller may hand the same storage in and out.\<close>

type_synonym state_ref = "nat \<times> 32 word tens"

definition refuse_state :: "state_ref option \<Rightarrow> state_format \<Rightarrow> nat \<Rightarrow> bool \<Rightarrow> unit res" where
  "refuse_state plane descriptor bh paged =
     (case plane of None \<Rightarrow> Inr ()
      | Some (ptr, x) \<Rightarrow>
        if paged then refuse (length (te_shape x) \<noteq> 3 \<or> tl (te_shape x) \<noteq> [PAGE_LEAVES, format_cols descriptor] \<or> te_shape x ! 0 < 1)
          (CarryRefusal ''with a page table a state is the page pool'')
        else refuse (te_shape x \<noteq> [bh, format_N descriptor div PAGE_LEAVES, PAGE_LEAVES, format_cols descriptor]) (CarryRefusal ''a state plane''))"

section \<open>The entries\<close>

record carry_args =
  ca_routes :: route_planes
  ca_v :: "real tens"
  ca_num :: "real tens"
  ca_den :: "real tens"
  ca_B :: "nat list"
  ca_DV :: nat
  ca_page_bits :: nat
  ca_warps :: nat
  ca_carve :: "int list"
  ca_schedule :: "nat list"
  ca_words :: "32 word tens"
  ca_activity :: "8 word tens"
  ca_state_in :: "state_ref option"
  ca_state_out :: "state_ref option"
  ca_page_table :: "int tens option"

definition zeros :: "nat list \<Rightarrow> string \<Rightarrow> 'a :: zero tens" where
  "zeros shape dtype = \<lparr>te_shape = shape, te_dtype = dtype, te_at = (\<lambda>_. 0)\<rparr>"

text \<open>What the checks of both entries establish, and the batch and length they read.\<close>

definition carry_checks ::
    "route_planes option \<Rightarrow> real tens \<Rightarrow> state_format option \<Rightarrow> geometry_block option \<Rightarrow> 32 word tens option \<Rightarrow> 8 word tens
     \<Rightarrow> launch_shape option \<Rightarrow> (nat \<times> nat) res" where
  "carry_checks routes v descriptor block liveness activity launch =
     rbind (refuse_descriptor descriptor) (\<lambda>_.
     rbind (refuse_launch launch) (\<lambda>_.
     rbind (refuse_geometry block (the descriptor) (the launch)) (\<lambda>_.
       refuse_operands routes v (the descriptor) liveness activity)))"

text \<open>The launch returns the contents of the two accumulators and of \<^verbatim>\<open>state_out\<close>.\<close>

type_synonym carry_op = "carry_args \<Rightarrow> (real tens \<times> real tens \<times> 32 word tens option) res"

definition carry_forward ::
    "carry_op \<Rightarrow> route_planes option \<Rightarrow> real tens \<Rightarrow> state_format option \<Rightarrow> geometry_block option \<Rightarrow> 32 word tens option
     \<Rightarrow> 8 word tens \<Rightarrow> launch_shape option \<Rightarrow> carry_schedule option \<Rightarrow> state_ref option \<Rightarrow> state_ref option \<Rightarrow> int tens option
     \<Rightarrow> (real tens \<times> real tens \<times> 32 word tens option) res" where
  "carry_forward ext routes v descriptor block liveness activity launch schedule state_in state_out page_table =
     rbind (carry_checks routes v descriptor block liveness activity launch) (\<lambda>(bh, L).
     let f = the descriptor; gb = the block in
     rbind (refuse_state state_in f bh (page_table \<noteq> None)) (\<lambda>_.
     rbind (refuse_state state_out f bh (page_table \<noteq> None)) (\<lambda>_.
     rbind (case schedule of None \<Rightarrow> select_schedule f (gb_modes gb) | Some s \<Rightarrow> Inr s) (\<lambda>s.
     rbind (carve_order gb) (\<lambda>carve.
     rbind (schedule_flat s) (\<lambda>codes.
       ext \<lparr>ca_routes = the routes, ca_v = v, ca_num = zeros [bh, L, sf_DV f] ''float32'', ca_den = zeros [bh, L] ''float32'',
             ca_B = sf_B f, ca_DV = sf_DV f, ca_page_bits = sf_page_bits f, ca_warps = ls_warps (the launch), ca_carve = carve,
             ca_schedule = codes, ca_words = the liveness, ca_activity = activity, ca_state_in = state_in, ca_state_out = state_out,
             ca_page_table = page_table\<rparr>))))))"

text \<open>The reverse entry: the seeds stand where the accumulators stood.\<close>

definition carry_backward ::
    "(carry_args \<Rightarrow> 'r res) \<Rightarrow> route_planes option \<Rightarrow> real tens \<Rightarrow> real tens \<Rightarrow> real tens \<Rightarrow> state_format option
     \<Rightarrow> geometry_block option \<Rightarrow> 32 word tens option \<Rightarrow> 8 word tens \<Rightarrow> launch_shape option \<Rightarrow> state_ref option \<Rightarrow> state_ref option
     \<Rightarrow> int tens option \<Rightarrow> 'r res" where
  "carry_backward ext routes v d_num d_den descriptor block liveness activity launch state_in d_state_out page_table =
     rbind (carry_checks routes v descriptor block liveness activity launch) (\<lambda>(bh, L).
     let f = the descriptor; gb = the block in
     rbind (checks (map (\<lambda>(seed, want). refuse (te_dtype seed \<noteq> ''float32'' \<or> te_shape seed \<noteq> want) (CarryRefusal ''the reverse seeds''))
         [(d_num, [bh, L, sf_DV f]), (d_den, [bh, L])])) (\<lambda>_.
     rbind (refuse_state state_in f bh (page_table \<noteq> None)) (\<lambda>_.
     rbind (refuse_state d_state_out f bh (page_table \<noteq> None)) (\<lambda>_.
     rbind (carve_order gb) (\<lambda>carve.
       ext \<lparr>ca_routes = the routes, ca_v = v, ca_num = d_num, ca_den = d_den,
             ca_B = sf_B f, ca_DV = sf_DV f, ca_page_bits = sf_page_bits f, ca_warps = ls_warps (the launch), ca_carve = carve,
             ca_schedule = [], ca_words = the liveness, ca_activity = activity, ca_state_in = state_in, ca_state_out = d_state_out,
             ca_page_table = page_table\<rparr>)))))"

definition derive_geometry_block :: "geom_op \<Rightarrow> state_format option \<Rightarrow> launch_shape option \<Rightarrow> nat \<Rightarrow> geometry_block res" where
  "derive_geometry_block ext descriptor launch level_modes =
     rbind (refuse_descriptor descriptor) (\<lambda>_.
     rbind (refuse_launch launch) (\<lambda>_.
     let f = the descriptor; warps = ls_warps (the launch) in
     rbind (carry_box_leaves (sf_DV f) warps) (\<lambda>BC.
     rbind (geometry ext (sf_B f) level_modes BC 1 1 (sf_DV f)) (\<lambda>fields.
       Inr \<lparr>gb_D = sf_D f, gb_B = sf_B f, gb_DV = sf_DV f, gb_warps = warps, gb_BC = BC, gb_fields = fields, gb_modes = level_modes\<rparr>))))"

section \<open>Packing on the host\<close>

text \<open>
  \<^verbatim>\<open>out[:, :, :, off:off + w].copy_(level.permute(0, 2, 1, 3))\<close>: a source of another shape is
  refused unless its extents are one, which torch broadcasts. The rounding to bf16 is a parameter.
\<close>

definition broadcasts :: "nat list \<Rightarrow> nat list \<Rightarrow> bool" where
  "broadcasts src dst \<longleftrightarrow> length src = length dst \<and> list_all2 (\<lambda>s d. s = d \<or> s = 1) src dst"

definition bcast_index :: "nat list \<Rightarrow> nat list \<Rightarrow> nat list" where
  "bcast_index src idx = map2 (\<lambda>s i. if s = 1 then 0 else i) src idx"

fun pack_columns :: "(real \<Rightarrow> real) \<Rightarrow> real tens list \<Rightarrow> nat \<Rightarrow> nat \<Rightarrow> nat \<Rightarrow> nat \<Rightarrow> real" where
  "pack_columns narrow [] b h t col = 0"
| "pack_columns narrow (x # xs) b h t col =
     (let w = last (te_shape x) in
      if col < w then narrow (te_at x (bcast_index (te_shape x) [b, t, h, col])) else pack_columns narrow xs b h t (col - w))"

definition carry_pack_side :: "(real \<Rightarrow> real) \<Rightarrow> real tens list \<Rightarrow> real tens res" where
  "carry_pack_side narrow levels =
     (case levels of [] \<Rightarrow> Inl (IndexError ''tuple index out of range'')
      | base # _ \<Rightarrow>
        (case te_shape base of
           [B, T, H, _] \<Rightarrow>
             if list_ex (\<lambda>x. te_shape x = []) levels then Inl (IndexError ''tuple index out of range'')
             else if list_ex (\<lambda>x. \<not> broadcasts (te_shape x) [B, T, H, last (te_shape x)]) levels
             then Inl (RuntimeError ''the shape does not match'')
             else if B * H * T = 0 then Inl (RuntimeError ''cannot reshape tensor of 0 elements'')
             else Inr \<lparr>te_shape = [B * H, T, sum_list (map (\<lambda>x. last (te_shape x)) levels)], te_dtype = ''bfloat16'',
               te_at = (\<lambda>idx. case idx of [bh, t, col] \<Rightarrow> pack_columns narrow levels (bh div H) (bh mod H) t col | _ \<Rightarrow> 0)\<rparr>
         | _ \<Rightarrow> Inl (ValueError ''not enough values to unpack'')))"

text \<open>The gain, \<^verbatim>\<open>[B, T, H]\<close> brought to \<^verbatim>\<open>[BH, T]\<close>.\<close>

definition pack_gain :: "(real \<Rightarrow> real) \<Rightarrow> real tens \<Rightarrow> real tens res" where
  "pack_gain narrow g =
     (case te_shape g of
        [B, T, H] \<Rightarrow> if B * H = 0 then Inl (RuntimeError ''cannot reshape tensor of 0 elements'')
          else Inr \<lparr>te_shape = [B * H, T], te_dtype = ''bfloat16'',
          te_at = (\<lambda>idx. case idx of [bh, t] \<Rightarrow> narrow (te_at g [bh div H, t, bh mod H]) | _ \<Rightarrow> 0)\<rparr>
      | _ \<Rightarrow> Inl (RuntimeError ''permute: number of dimensions''))"

definition make_route_planes :: "(real \<Rightarrow> real) \<Rightarrow> real tens list \<Rightarrow> real tens list \<Rightarrow> real tens \<Rightarrow> route_planes res" where
  "make_route_planes narrow read_levels write_levels g_write =
     rbind (pack_gain narrow g_write) (\<lambda>gain.
     rbind (carry_pack_side narrow read_levels) (\<lambda>r.
     rbind (carry_pack_side narrow write_levels) (\<lambda>w.
       Inr \<lparr>rp_read = r, rp_write = w, rp_gain = gain\<rparr>)))"

definition dense_state_plane :: "state_format \<Rightarrow> nat \<Rightarrow> 32 word tens" where
  "dense_state_plane f BH = zeros [BH, format_N f div PAGE_LEAVES, PAGE_LEAVES, format_cols f] ''float32''"

text \<open>The wrappers over the lattice.\<close>

definition carry_box_shape :: "nat list \<Rightarrow> nat \<Rightarrow> nat \<Rightarrow> (nat list \<times> nat list \<times> nat list \<times> nat \<times> nat) res" where
  "carry_box_shape widths k m =
     rbind (box_shape widths k m) (\<lambda>(m_l, s, g, bc, owners).
       if bc mod PAGE_LEAVES \<noteq> 0 then Inl (AssertionError ''a whole number of pages'') else Inr (m_l, s, g, bc, owners))"

definition lattice_of_canonical :: "nat list \<Rightarrow> nat \<Rightarrow> nat \<Rightarrow> nat list res" where
  "lattice_of_canonical widths k m = rbind (carry_box_shape widths k m) (\<lambda>_. permutation widths k m)"

end
