(* ===== verification/Rola_Carry_Props.thy ===== *)
theory Rola_Carry_Props
  imports Rola_Carry Rola_State_Props
begin

text \<open>
  The carry surface, proved: what its checks accept, and the reader of the addressing block against
  the positional vector it reads.
\<close>

section \<open>The checks\<close>

text \<open>One clause per refusal of the surface.\<close>

definition carry_conforms ::
    "route_planes option \<Rightarrow> real tens \<Rightarrow> state_format option \<Rightarrow> geometry_block option \<Rightarrow> 32 word tens option \<Rightarrow> 8 word tens
     \<Rightarrow> launch_shape option \<Rightarrow> bool" where
  "carry_conforms routes v descriptor block liveness activity launch \<longleftrightarrow>
     (\<exists>rp f gb words ls bh L. routes = Some rp \<and> descriptor = Some f \<and> block = Some gb \<and> liveness = Some words \<and> launch = Some ls
      \<and> (\<forall>w\<in>set (sf_B f). is_pow2 w \<and> 16 \<le> w) \<and> sf_DV f \<in> {32, 64, 128} \<and> prod_list (sf_B f) mod 16 = 0 \<and> sf_dtype f = SPLIT_PLANE_DTYPE
      \<and> gb_D gb = sf_D f \<and> gb_B gb = sf_B f \<and> gb_DV gb = sf_DV f \<and> gb_warps gb = ls_warps ls \<and> gb_BC gb = 2048 div sf_DV f * ls_warps ls
      \<and> (\<forall>x\<in>{rp_read rp, rp_write rp, rp_gain rp, v}. te_dtype x = ''bfloat16'')
      \<and> te_shape (rp_read rp) = [bh, L, sum_list (sf_B f)] \<and> te_shape (rp_write rp) = [bh, L, sum_list (sf_B f)]
      \<and> te_shape (rp_gain rp) = [bh, L] \<and> te_shape v = [bh, L, sf_DV f] \<and> 0 < L \<and> length (sf_B f) = sf_D f
      \<and> te_dtype words = ''int32'' \<and> te_shape words = [bh, 2, sum_list (sf_B f), token_words L]
      \<and> te_dtype activity = ''uint8'' \<and> te_shape activity = [bh, prod_list (sf_B f) div 16])"

definition state_conforms :: "state_ref option \<Rightarrow> state_format \<Rightarrow> nat \<Rightarrow> bool \<Rightarrow> bool" where
  "state_conforms plane f bh paged \<longleftrightarrow> (case plane of None \<Rightarrow> True
     | Some (ptr, x) \<Rightarrow> if paged then \<exists>pages\<ge>1. te_shape x = [pages, 16, sf_DV f + 1]
         else te_shape x = [bh, prod_list (sf_B f) div 16, 16, sf_DV f + 1])"

lemma list3: "length xs = 3 \<longleftrightarrow> (\<exists>a b c. xs = [a, b, c])"
  by (auto simp: numeral_3_eq_3 length_Suc_conv)

lemma refuse_state_iff: "is_ok (refuse_state plane f bh paged) \<longleftrightarrow> state_conforms plane f bh paged"
proof -
  have "(length s = 3 \<and> tl s = [16, c] \<and> \<not> s ! 0 < 1) \<longleftrightarrow> (\<exists>pages\<ge>1. s = [pages, 16, c])" for s and c :: nat
    by (auto simp: list3 not_less)
  then show ?thesis
    by (auto simp: refuse_state_def state_conforms_def refuse_def PAGE_LEAVES_def MMA_K_QUANTUM_def format_N_prod format_cols_def
        split: option.splits)
qed

lemma unit_ok: "r = Inr () \<longleftrightarrow> is_ok (r :: unit res)"
  by (auto simp: is_ok_iff)

lemma ok_rbind: "is_ok (rbind m k) \<longleftrightarrow> (\<exists>x. m = Inr x \<and> is_ok (k x))"
  by (cases m) auto

lemma ok_unit_rbind: "is_ok (rbind (m :: unit res) k) \<longleftrightarrow> is_ok m \<and> is_ok (k ())"
  by (cases m) auto

lemma ok_checks: "is_ok (checks cs) \<longleftrightarrow> (\<forall>c\<in>set cs. is_ok c)"
  by (induction cs) (auto simp: ok_unit_rbind)

lemma refuse_descriptor_iff:
  "is_ok (refuse_descriptor d) \<longleftrightarrow> (\<exists>f. d = Some f \<and> (\<forall>w\<in>set (sf_B f). is_pow2 w \<and> 16 \<le> w) \<and> sf_DV f \<in> {32, 64, 128}
     \<and> prod_list (sf_B f) mod 16 = 0 \<and> sf_dtype f = SPLIT_PLANE_DTYPE)"
  by (cases d) (auto simp: refuse_descriptor_def ok_checks ok_unit_rbind unlawful_width_iff SHIPPED_DV_def PAGE_LEAVES_def MMA_K_QUANTUM_def format_N_prod)

lemma refuse_geometry_iff:
  "sf_DV f \<in> {32, 64, 128} \<Longrightarrow> is_ok (refuse_geometry b f ls) \<longleftrightarrow> (\<exists>gb. b = Some gb \<and> gb_D gb = sf_D f \<and> gb_B gb = sf_B f \<and> gb_DV gb = sf_DV f
     \<and> gb_warps gb = ls_warps ls \<and> gb_BC gb = 2048 div sf_DV f * ls_warps ls)"
  by (cases b) (auto simp: refuse_geometry_def carry_box_leaves_def carry_leaves_per_warp_def LEAVES_PER_WARP_BUDGET_def)

lemma layout_of_iff: "layout_of f (int L) = Inr ly \<longleftrightarrow> length (sf_B f) = sf_D f \<and> 0 < L \<and> ly = \<lparr>ly_D = sf_D f, ly_B = sf_B f, ly_L = L\<rparr>"
  by (auto simp: layout_of_def make_layout_def)

lemma refuse_operands_iff:
  "refuse_operands routes v f liveness activity = Inr (bh, L) \<longleftrightarrow> (\<exists>rp words. routes = Some rp \<and> liveness = Some words
     \<and> (\<forall>x\<in>{rp_read rp, rp_write rp, rp_gain rp, v}. te_dtype x = ''bfloat16'')
     \<and> te_shape (rp_read rp) = [bh, L, sum_list (sf_B f)] \<and> te_shape (rp_write rp) = [bh, L, sum_list (sf_B f)]
     \<and> te_shape (rp_gain rp) = [bh, L] \<and> te_shape v = [bh, L, sf_DV f] \<and> 0 < L \<and> length (sf_B f) = sf_D f
     \<and> te_dtype words = ''int32'' \<and> te_shape words = [bh, 2, sum_list (sf_B f), token_words L]
     \<and> te_dtype activity = ''uint8'' \<and> te_shape activity = [bh, prod_list (sf_B f) div 16])"
proof (cases routes)
  case (Some rp)
  show ?thesis
  proof (cases liveness)
    case (Some words)
    have s3: "(length s = 3 \<and> s ! 2 = w) \<and> s ! 0 = b \<and> s ! 1 = l \<longleftrightarrow> s = [b, l, w]" for s and b l w :: nat
      by (auto simp: list3)
    show ?thesis
      unfolding refuse_operands_def \<open>routes = Some rp\<close> Some option.case Let_def
      using s3 [of "te_shape (rp_read rp)"]
      by (auto simp: res_simps unit_ok ok_checks ok_unit_rbind refuse_bf16_def layout_of_iff layout_rows_def layout_words_def
          format_N_prod PAGE_LEAVES_def MMA_K_QUANTUM_def)
  qed (auto simp: refuse_operands_def Some Let_def res_simps)
qed (simp add: refuse_operands_def)

lemma carry_checks_iff:
  "carry_checks routes v d b liveness activity launch = Inr (bh, L) \<longleftrightarrow>
     carry_conforms routes v d b liveness activity launch \<and> te_shape (rp_read (the routes)) = [bh, L, sum_list (sf_B (the d))]"
proof -
  have "carry_checks routes v d b liveness activity launch = Inr (bh, L) \<longleftrightarrow> is_ok (refuse_descriptor d) \<and> launch \<noteq> None
      \<and> is_ok (refuse_geometry b (the d) (the launch)) \<and> refuse_operands routes v (the d) liveness activity = Inr (bh, L)"
    by (auto simp: carry_checks_def res_simps unit_ok refuse_launch_def)
  then show ?thesis
    unfolding refuse_descriptor_iff refuse_operands_iff carry_conforms_def
    by (cases d; cases launch) (auto simp: refuse_geometry_iff)
qed

section \<open>The entry\<close>

text \<open>The call the surface hands the kernel, or its refusal.\<close>

definition carry_call ::
    "route_planes option \<Rightarrow> real tens \<Rightarrow> state_format option \<Rightarrow> geometry_block option \<Rightarrow> 32 word tens option
     \<Rightarrow> 8 word tens \<Rightarrow> launch_shape option \<Rightarrow> carry_schedule option \<Rightarrow> state_ref option \<Rightarrow> state_ref option \<Rightarrow> int tens option \<Rightarrow> carry_args res" where
  "carry_call routes v descriptor block liveness activity launch schedule state_in state_out page_table =
     rbind (carry_checks routes v descriptor block liveness activity launch) (\<lambda>(bh, L).
     let f = the descriptor; gb = the block in
     rbind (refuse_state state_in f bh (page_table \<noteq> None)) (\<lambda>_.
     rbind (refuse_state state_out f bh (page_table \<noteq> None)) (\<lambda>_.
     rbind (case schedule of None \<Rightarrow> select_schedule f (gb_modes gb) | Some s \<Rightarrow> Inr s) (\<lambda>s.
     rbind (carve_order gb) (\<lambda>carve.
     rbind (schedule_flat s) (\<lambda>codes.
       Inr \<lparr>ca_routes = the routes, ca_v = v, ca_num = zeros [bh, L, sf_DV f] ''float32'', ca_den = zeros [bh, L] ''float32'',
             ca_B = sf_B f, ca_DV = sf_DV f, ca_page_bits = sf_page_bits f, ca_warps = ls_warps (the launch), ca_carve = carve,
             ca_schedule = codes, ca_words = the liveness, ca_activity = activity, ca_state_in = state_in, ca_state_out = state_out,
             ca_page_table = page_table\<rparr>))))))"

lemma rbind_assoc_aux: "rbind (rbind m k) f = rbind m (\<lambda>x. rbind (k x) f)"
  by (cases m) simp_all

lemma carry_forward_call:
  "carry_forward ext routes v d b l a launch s si so pt = rbind (carry_call routes v d b l a launch s si so pt) ext"
  unfolding carry_forward_def carry_call_def
  by (cases "carry_checks routes v d b l a launch") (simp_all add: Let_def rbind_assoc_aux split: prod.split)

lemma schedule_codes: "(\<exists>s' codes. (case s of None \<Rightarrow> select_schedule f m | Some x \<Rightarrow> Inr x) = Inr s' \<and> schedule_flat s' = Inr codes)
    \<longleftrightarrow> (\<forall>x. s = Some x \<longrightarrow> cs_order x \<in> {''first'', ''identity''})"
  by (cases s) (auto simp: select_schedule_def make_schedule_def schedule_flat_def ORDER_POLICIES_def ORDER_FIRST_BOX_def ORDER_IDENTITY_def
      split: option.splits if_splits)

text \<open>
  C18 (carrycall): The carry surface decides before it launches. Either one of its own refusals
  is the answer and no kernel runs, or the kernel runs once, on exactly the operands of the call and
  two zeroed accumulators of its shapes. The second happens exactly when every clause of the surface
  holds, the state planes have the shape their backing names, the order policy is one of the two and
  the block holds a carve order.
\<close>
theorem carry_forward_decides:
  "\<exists>call. (\<forall>ext. carry_forward ext routes v d b l a launch s si so pt = rbind call ext)
     \<and> (is_ok call \<longleftrightarrow> carry_conforms routes v d b l a launch
          \<and> state_conforms si (the d) (te_shape v ! 0) (pt \<noteq> None) \<and> state_conforms so (the d) (te_shape v ! 0) (pt \<noteq> None)
          \<and> (\<forall>x. s = Some x \<longrightarrow> cs_order x \<in> {''first'', ''identity''}) \<and> is_ok (carve_order (the b)))
     \<and> (\<forall>c. call = Inr c \<longrightarrow> ca_routes c = the routes \<and> ca_v c = v \<and> ca_words c = the l \<and> ca_activity c = a
          \<and> ca_state_in c = si \<and> ca_state_out c = so \<and> ca_page_table c = pt
          \<and> ca_num c = zeros (te_shape v) ''float32'' \<and> ca_den c = zeros (butlast (te_shape v)) ''float32'')"
proof (rule exI [of _ "carry_call routes v d b l a launch s si so pt"], intro conjI)
  let ?call = "carry_call routes v d b l a launch s si so pt"
  have body: "?call = Inr c \<longleftrightarrow> (\<exists>bh L s' carve codes. carry_conforms routes v d b l a launch
        \<and> te_shape (rp_read (the routes)) = [bh, L, sum_list (sf_B (the d))]
        \<and> state_conforms si (the d) bh (pt \<noteq> None) \<and> state_conforms so (the d) bh (pt \<noteq> None)
        \<and> (case s of None \<Rightarrow> select_schedule (the d) (gb_modes (the b)) | Some x \<Rightarrow> Inr x) = Inr s'
        \<and> carve_order (the b) = Inr carve \<and> schedule_flat s' = Inr codes
        \<and> c = \<lparr>ca_routes = the routes, ca_v = v, ca_num = zeros [bh, L, sf_DV (the d)] ''float32'', ca_den = zeros [bh, L] ''float32'',
             ca_B = sf_B (the d), ca_DV = sf_DV (the d), ca_page_bits = sf_page_bits (the d), ca_warps = ls_warps (the launch), ca_carve = carve,
             ca_schedule = codes, ca_words = the l, ca_activity = a, ca_state_in = si, ca_state_out = so, ca_page_table = pt\<rparr>)" for c
    unfolding carry_call_def Let_def
    by (auto simp: rbind_Inr_iff unit_ok refuse_state_iff carry_checks_iff split: prod.splits)
  have shape: "te_shape v = [bh, L, sf_DV (the d)]"
    if "carry_conforms routes v d b l a launch" "te_shape (rp_read (the routes)) = [bh, L, sum_list (sf_B (the d))]" for bh L
    using that by (auto simp: carry_conforms_def)
  show "\<forall>ext. carry_forward ext routes v d b l a launch s si so pt = rbind ?call ext" by (simp add: carry_forward_call)
  show "\<forall>c. ?call = Inr c \<longrightarrow> ca_routes c = the routes \<and> ca_v c = v \<and> ca_words c = the l \<and> ca_activity c = a
          \<and> ca_state_in c = si \<and> ca_state_out c = so \<and> ca_page_table c = pt
          \<and> ca_num c = zeros (te_shape v) ''float32'' \<and> ca_den c = zeros (butlast (te_shape v)) ''float32''"
    unfolding body using shape by auto
  have "is_ok ?call \<longleftrightarrow> (\<exists>bh L s' carve codes. carry_conforms routes v d b l a launch
        \<and> te_shape (rp_read (the routes)) = [bh, L, sum_list (sf_B (the d))]
        \<and> state_conforms si (the d) bh (pt \<noteq> None) \<and> state_conforms so (the d) bh (pt \<noteq> None)
        \<and> (case s of None \<Rightarrow> select_schedule (the d) (gb_modes (the b)) | Some x \<Rightarrow> Inr x) = Inr s'
        \<and> carve_order (the b) = Inr carve \<and> schedule_flat s' = Inr codes)"
    unfolding is_ok_iff body by blast
  also have "\<dots> \<longleftrightarrow> carry_conforms routes v d b l a launch
          \<and> state_conforms si (the d) (te_shape v ! 0) (pt \<noteq> None) \<and> state_conforms so (the d) (te_shape v ! 0) (pt \<noteq> None)
          \<and> (\<forall>x. s = Some x \<longrightarrow> cs_order x \<in> {''first'', ''identity''}) \<and> is_ok (carve_order (the b))"
  proof -
    have "\<exists>bh L. te_shape (rp_read (the routes)) = [bh, L, sum_list (sf_B (the d))]" if "carry_conforms routes v d b l a launch"
      using that by (auto simp: carry_conforms_def)
    then show ?thesis unfolding schedule_codes [where f = "the d" and m = "gb_modes (the b)", symmetric] is_ok_iff
      using shape by (metis nth_Cons_0)
  qed
  finally show "is_ok ?call \<longleftrightarrow> carry_conforms routes v d b l a launch
          \<and> state_conforms si (the d) (te_shape v ! 0) (pt \<noteq> None) \<and> state_conforms so (the d) (te_shape v ! 0) (pt \<noteq> None)
          \<and> (\<forall>x. s = Some x \<longrightarrow> cs_order x \<in> {''first'', ''identity''}) \<and> is_ok (carve_order (the b))" .
qed

definition flat_plane :: "nat list \<Rightarrow> real tens" where
  "flat_plane shape = \<lparr>te_shape = shape, te_dtype = ''bfloat16'', te_at = (\<lambda>_. 1)\<rparr>"

definition demo_carry_format :: state_format where
  "demo_carry_format = \<lparr>sf_D = 1, sf_B = [16], sf_order = CANONICAL_ORDER, sf_page_bits = 4, sf_DV = 32, sf_dtype = SPLIT_PLANE_DTYPE, sf_ids = 1\<rparr>"

definition demo_fields :: geom_fields where
  "demo_fields = (let side = \<lparr>gs_levels = [(''level_at'', [0])], gs_scalars = []\<rparr> in
     \<lparr>gf_D = 1, gf_bc = 512, gf_levels = [], gf_scalars = [], gf_r = side, gf_w = side, gf_xch_w = [], gf_xch_r = []\<rparr>)"

definition demo_block :: geometry_block where
  "demo_block = \<lparr>gb_D = 1, gb_B = [16], gb_DV = 32, gb_warps = 8, gb_BC = 512, gb_fields = demo_fields, gb_modes = 0\<rparr>"

theorem carry_forward_decides_witness:
  "\<exists>call. is_ok call \<and> (\<forall>ext. carry_forward ext (Some \<lparr>rp_read = flat_plane [1, 1, 16], rp_write = flat_plane [1, 1, 16], rp_gain = flat_plane [1, 1]\<rparr>)
      (flat_plane [1, 1, 32]) (Some demo_carry_format) (Some demo_block) (Some (zeros [1, 2, 16, 1] ''int32'')) (zeros [1, 1] ''uint8'')
      (Some \<lparr>ls_warps = 8\<rparr>) None None None None = rbind call ext)"
proof -
  have "is_pow2 (16 :: nat)" using is_pow2_power [of 4] by simp
  then have "carry_conforms (Some \<lparr>rp_read = flat_plane [1, 1, 16], rp_write = flat_plane [1, 1, 16], rp_gain = flat_plane [1, 1]\<rparr>)
      (flat_plane [1, 1, 32]) (Some demo_carry_format) (Some demo_block) (Some (zeros [1, 2, 16, 1] ''int32'')) (zeros [1, 1] ''uint8'') (Some \<lparr>ls_warps = 8\<rparr>)"
    by (simp add: carry_conforms_def flat_plane_def demo_carry_format_def demo_block_def zeros_def token_words_def TOK_BITS_def)
  moreover have "is_ok (carve_order demo_block)" by (simp add: carve_order_def side_level_at_def demo_block_def demo_fields_def Let_def)
  ultimately show ?thesis
    using carry_forward_decides [of "Some \<lparr>rp_read = flat_plane [1, 1, 16], rp_write = flat_plane [1, 1, 16], rp_gain = flat_plane [1, 1]\<rparr>"
        "flat_plane [1, 1, 32]" "Some demo_carry_format" "Some demo_block" "Some (zeros [1, 2, 16, 1] ''int32'')" "zeros [1, 1] ''uint8''"
        "Some \<lparr>ls_warps = 8\<rparr>" None None None None]
    by (auto simp: state_conforms_def)
qed

section \<open>The reader of the addressing block\<close>

text \<open>
  A reader returns a value from the ints that spell it, leaves what follows, and stops on every
  shorter vector.
\<close>

definition reads :: "'a reader \<Rightarrow> int list \<Rightarrow> 'a \<Rightarrow> bool" where
  "reads f used y \<longleftrightarrow> (\<forall>rest. f (used @ rest) = Inr (y, rest)) \<and> (\<forall>k<length used. f (take k used) = Inl (StopIteration ''the vector ends''))"

lemma reads_bind:
  assumes "reads f u y" "reads (g y) u' z"
  shows "reads (\<lambda>xs. rbind (f xs) (\<lambda>(y, rest). g y rest)) (u @ u') z"
  unfolding reads_def
proof (intro conjI allI impI)
  show "rbind (f ((u @ u') @ rest)) (\<lambda>(y, rest). g y rest) = Inr (z, rest)" for rest
    using assms by (simp add: reads_def)
  fix k assume k: "k < length (u @ u')"
  show "rbind (f (take k (u @ u'))) (\<lambda>(y, rest). g y rest) = Inl (StopIteration ''the vector ends'')"
  proof (cases "k < length u")
    case True
    then show ?thesis using assms(1) by (simp add: reads_def)
  next
    case False
    then have "f (take k (u @ u')) = Inr (y, take (k - length u) u')" using assms(1) by (simp add: reads_def)
    moreover have "k - length u < length u'" using k False by simp
    ultimately show ?thesis using assms(2) by (simp add: reads_def)
  qed
qed

lemma reads_done: "reads (\<lambda>rest. Inr (y, rest)) [] y"
  by (simp add: reads_def)

lemma reads_map: "reads f u y \<Longrightarrow> reads (\<lambda>xs. rbind (f xs) (\<lambda>(y, rest). Inr (h y, rest))) u (h y)"
  using reads_bind [OF _ reads_done, of f u y h] by simp

lemma reads_ints: "length ys = n \<Longrightarrow> reads (read_ints n) ys ys"
  by (auto simp: reads_def read_ints_def)

lemma reads_scalar: "reads read_scalar [x] x"
  unfolding read_scalar_def using reads_map [OF reads_ints, of "[x]" 1 "\<lambda>y. y ! 0"] by simp

lemma reads_levels:
  "length ls = length names \<Longrightarrow> \<forall>l\<in>set ls. length l = GEOM_MAX_LEVELS
   \<Longrightarrow> reads (read_level_fields D names) (concat ls) (zip names (map (first_levels D) ls))"
proof (induction names arbitrary: ls)
  case (Cons name names)
  then obtain l ls' where ls: "ls = l # ls'" by (cases ls) auto
  have "reads (\<lambda>rest. rbind (read_level_fields D names rest) (\<lambda>(ys, rest). Inr ((name, first_levels D l) # ys, rest)))
      (concat ls') ((name, first_levels D l) # zip names (map (first_levels D) ls'))"
    using Cons ls by (intro reads_map) simp
  moreover have "read_level_fields D (name # names) = (\<lambda>xs. rbind (read_ints GEOM_MAX_LEVELS xs) (\<lambda>(y, rest).
      rbind (read_level_fields D names rest) (\<lambda>(ys, rest). Inr ((name, first_levels D y) # ys, rest))))"
    by (rule ext) simp
  moreover have "reads (read_ints GEOM_MAX_LEVELS) l l" using Cons.prems ls by (intro reads_ints) simp
  ultimately show ?case unfolding ls concat.simps list.map zip_Cons_Cons by (simp only: reads_bind [where y = l])
qed (simp add: reads_def)

lemma reads_scalars: "length xs = length names \<Longrightarrow> reads (read_scalar_fields names) xs (zip names xs)"
proof (induction names arbitrary: xs)
  case (Cons name names)
  then obtain x xs' where xs: "xs = x # xs'" by (cases xs) auto
  have "reads (\<lambda>rest. rbind (read_scalar_fields names rest) (\<lambda>(ys, rest). Inr ((name, x) # ys, rest))) xs' ((name, x) # zip names xs')"
    using Cons xs by (intro reads_map) simp
  moreover have "read_scalar_fields (name # names) = (\<lambda>xs. rbind (read_scalar xs) (\<lambda>(y, rest).
      rbind (read_scalar_fields names rest) (\<lambda>(ys, rest). Inr ((name, y) # ys, rest))))"
    by (rule ext) simp
  ultimately show ?case using reads_bind [where u = "[x]" and y = x, OF reads_scalar] unfolding xs zip_Cons_Cons by simp
qed (simp add: reads_def)

lemma reads_rows: "length rows = k \<Longrightarrow> \<forall>r\<in>set rows. length r = n \<Longrightarrow> reads (read_rows k n) (concat rows) rows"
proof (induction k arbitrary: rows)
  case (Suc k)
  then obtain r rs where rows: "rows = r # rs" by (cases rows) auto
  have "reads (\<lambda>rest. rbind (read_rows k n rest) (\<lambda>(ys, rest). Inr (r # ys, rest))) (concat rs) (r # rs)"
    using Suc rows by (intro reads_map) simp
  moreover have "read_rows (Suc k) n = (\<lambda>xs. rbind (read_ints n xs) (\<lambda>(y, rest). rbind (read_rows k n rest) (\<lambda>(ys, rest). Inr (y # ys, rest))))"
    by (rule ext) simp
  moreover have "reads (read_ints n) r r" using Suc.prems rows by (intro reads_ints) simp
  ultimately show ?case unfolding rows concat.simps by (simp only: reads_bind [where y = r])
qed (simp add: reads_def)

text \<open>The vector the derivation returns: every per-level field padded to four levels.\<close>

record raw_side =
  rw_levels :: "int list list"
  rw_scalars :: "int list"

record raw_block =
  rb_D :: int
  rb_bc :: int
  rb_levels :: "int list list"
  rb_scalars :: "int list"
  rb_r :: raw_side
  rb_w :: raw_side
  rb_xch_w :: "int list list"
  rb_xch_r :: "int list list"

definition side_vector :: "raw_side \<Rightarrow> int list" where
  "side_vector s = concat (rw_levels s) @ rw_scalars s"

definition block_vector :: "raw_block \<Rightarrow> int list" where
  "block_vector b = [rb_D b] @ [rb_bc b] @ concat (rb_levels b) @ rb_scalars b @ side_vector (rb_r b) @ side_vector (rb_w b)
     @ concat (rb_xch_w b) @ concat (rb_xch_r b)"

definition raw_side_ok :: "raw_side \<Rightarrow> int list list \<Rightarrow> bool" where
  "raw_side_ok s xch \<longleftrightarrow> length (rw_levels s) = 9 \<and> (\<forall>l\<in>set (rw_levels s). length l = 4) \<and> length (rw_scalars s) = 5
     \<and> length xch = nat (rw_scalars s ! 3) \<and> (\<forall>r\<in>set xch. length r = nat (rw_scalars s ! 2))"

definition raw_block_ok :: "raw_block \<Rightarrow> bool" where
  "raw_block_ok b \<longleftrightarrow> length (rb_levels b) = 7 \<and> (\<forall>l\<in>set (rb_levels b). length l = 4) \<and> length (rb_scalars b) = 6
     \<and> raw_side_ok (rb_r b) (rb_xch_r b) \<and> raw_side_ok (rb_w b) (rb_xch_w b)"

definition named_side :: "int \<Rightarrow> raw_side \<Rightarrow> geom_side" where
  "named_side D s = \<lparr>gs_levels = zip SIDE_LEVEL (map (first_levels D) (rw_levels s)), gs_scalars = zip SIDE_SCALAR (rw_scalars s)\<rparr>"

definition named_block :: "raw_block \<Rightarrow> geom_fields" where
  "named_block b = \<lparr>gf_D = rb_D b, gf_bc = rb_bc b, gf_levels = zip GEOM_LEVEL (map (first_levels (rb_D b)) (rb_levels b)),
     gf_scalars = zip GEOM_SCALAR (rb_scalars b), gf_r = named_side (rb_D b) (rb_r b), gf_w = named_side (rb_D b) (rb_w b),
     gf_xch_w = rb_xch_w b, gf_xch_r = rb_xch_r b\<rparr>"

lemma reads_side: "raw_side_ok s xch \<Longrightarrow> reads (read_side D) (side_vector s) (named_side D s)"
proof -
  assume s: "raw_side_ok s xch"
  have l: "reads (read_level_fields D SIDE_LEVEL) (concat (rw_levels s)) (zip SIDE_LEVEL (map (first_levels D) (rw_levels s)))"
    using s by (intro reads_levels) (simp_all add: raw_side_ok_def SIDE_LEVEL_def GEOM_MAX_LEVELS_def)
  have "reads (read_scalar_fields SIDE_SCALAR) (rw_scalars s) (zip SIDE_SCALAR (rw_scalars s))"
    using s by (intro reads_scalars) (simp add: raw_side_ok_def SIDE_SCALAR_def)
  from reads_map [OF this, of "\<lambda>ss. \<lparr>gs_levels = zip SIDE_LEVEL (map (first_levels D) (rw_levels s)), gs_scalars = ss\<rparr>"]
  show ?thesis unfolding read_side_def side_vector_def named_side_def by (intro reads_bind [OF l]) simp
qed

lemma side_counts: "raw_side_ok s xch \<Longrightarrow> side_scalar (named_side D s) ''streams'' = length xch \<and> side_scalar (named_side D s) ''leaf'' = nat (rw_scalars s ! 2)"
proof -
  assume s: "raw_side_ok s xch"
  then obtain a b c d e where "rw_scalars s = [a, b, c, d, e]" by (auto simp: raw_side_ok_def length_Suc_conv eval_nat_numeral)
  then show ?thesis using s by (simp add: raw_side_ok_def side_scalar_def named_side_def SIDE_SCALAR_def)
qed

lemma reads_exchange: "raw_side_ok s xch \<Longrightarrow> reads (read_rows (side_scalar (named_side D s) ''streams'') (side_scalar (named_side D s) ''leaf'')) (concat xch) xch"
  using side_counts by (intro reads_rows) (auto simp: raw_side_ok_def)

text \<open>The reader without its last check.\<close>

definition read_fields :: "geom_fields reader" where
  "read_fields flat =
     rbind (read_scalar flat) (\<lambda>(D, rest).
     rbind (read_scalar rest) (\<lambda>(bc, rest).
     rbind (read_level_fields D GEOM_LEVEL rest) (\<lambda>(levels, rest).
     rbind (read_scalar_fields GEOM_SCALAR rest) (\<lambda>(scalars, rest).
     rbind (read_side D rest) (\<lambda>(r, rest).
     rbind (read_side D rest) (\<lambda>(w, rest).
     rbind (read_rows (side_scalar w ''streams'') (side_scalar w ''leaf'') rest) (\<lambda>(xw, rest).
     rbind (read_rows (side_scalar r ''streams'') (side_scalar r ''leaf'') rest) (\<lambda>(xr, rest).
       Inr (\<lparr>gf_D = D, gf_bc = bc, gf_levels = levels, gf_scalars = scalars, gf_r = r, gf_w = w, gf_xch_w = xw, gf_xch_r = xr\<rparr>, rest)))))))))"

lemma read_block_fields: "read_block flat = rbind (read_fields flat) (\<lambda>(gf, rest).
    if rest \<noteq> [] then Inl (AssertionError ''the flattened field order drifted'') else Inr gf)"
  unfolding read_block_def read_fields_def by (auto simp: rbind_assoc_aux split_def intro!: arg_cong2 [where f = rbind] ext)

lemma reads_fields:
  assumes "raw_block_ok b"
  shows "reads read_fields (block_vector b) (named_block b)"
proof -
  let ?D = "rb_D b" and ?r = "named_side (rb_D b) (rb_r b)" and ?w = "named_side (rb_D b) (rb_w b)"
  have levels: "reads (read_level_fields ?D GEOM_LEVEL) (concat (rb_levels b)) (zip GEOM_LEVEL (map (first_levels ?D) (rb_levels b)))"
    using assms by (intro reads_levels) (simp_all add: raw_block_ok_def GEOM_LEVEL_def GEOM_MAX_LEVELS_def)
  have scalars: "reads (read_scalar_fields GEOM_SCALAR) (rb_scalars b) (zip GEOM_SCALAR (rb_scalars b))"
    using assms by (intro reads_scalars) (simp add: raw_block_ok_def GEOM_SCALAR_def)
  have r: "raw_side_ok (rb_r b) (rb_xch_r b)" and w: "raw_side_ok (rb_w b) (rb_xch_w b)" using assms by (simp_all add: raw_block_ok_def)
  have xr: "reads (\<lambda>rest. rbind (read_rows (side_scalar ?r ''streams'') (side_scalar ?r ''leaf'') rest) (\<lambda>(xr, rest).
       Inr (\<lparr>gf_D = ?D, gf_bc = rb_bc b, gf_levels = zip GEOM_LEVEL (map (first_levels ?D) (rb_levels b)), gf_scalars = zip GEOM_SCALAR (rb_scalars b),
             gf_r = ?r, gf_w = ?w, gf_xch_w = rb_xch_w b, gf_xch_r = xr\<rparr>, rest))) (concat (rb_xch_r b)) (named_block b)"
    using reads_map [OF reads_exchange [OF r, of ?D], of "\<lambda>xr. \<lparr>gf_D = ?D, gf_bc = rb_bc b, gf_levels = zip GEOM_LEVEL (map (first_levels ?D) (rb_levels b)),
        gf_scalars = zip GEOM_SCALAR (rb_scalars b), gf_r = ?r, gf_w = ?w, gf_xch_w = rb_xch_w b, gf_xch_r = xr\<rparr>"]
    by (simp add: named_block_def)
  have fields: "read_fields = (\<lambda>flat.
     rbind (read_scalar flat) (\<lambda>(D, rest).
     rbind (read_scalar rest) (\<lambda>(bc, rest).
     rbind (read_level_fields D GEOM_LEVEL rest) (\<lambda>(levels, rest).
     rbind (read_scalar_fields GEOM_SCALAR rest) (\<lambda>(scalars, rest).
     rbind (read_side D rest) (\<lambda>(r, rest).
     rbind (read_side D rest) (\<lambda>(w, rest).
     rbind (read_rows (side_scalar w ''streams'') (side_scalar w ''leaf'') rest) (\<lambda>(xw, rest).
     rbind (read_rows (side_scalar r ''streams'') (side_scalar r ''leaf'') rest) (\<lambda>(xr, rest).
       Inr (\<lparr>gf_D = D, gf_bc = bc, gf_levels = levels, gf_scalars = scalars, gf_r = r, gf_w = w, gf_xch_w = xw, gf_xch_r = xr\<rparr>, rest))))))))))"
    by (rule ext) (simp only: read_fields_def)
  show ?thesis unfolding fields block_vector_def
    by (rule reads_bind [where y = ?D, OF reads_scalar], rule reads_bind [where y = "rb_bc b", OF reads_scalar],
        rule reads_bind [OF levels], rule reads_bind [OF scalars], rule reads_bind [OF reads_side [OF r]], rule reads_bind [OF reads_side [OF w]],
        rule reads_bind [OF reads_exchange [OF w]], rule xr)
qed

text \<open>
  C28 (geomread): The reader of the addressing block returns, for every vector in the layout of
  the derivation, exactly the fields it spells, by name, with the padding levels beyond the depth
  dropped. A longer vector is refused by the drift assertion and a shorter one stops the reader, so no
  vector of another length is ever read.
\<close>
theorem read_block_exact:
  assumes "raw_block_ok b"
  shows "read_block (block_vector b) = Inr (named_block b)
    \<and> read_block (block_vector b @ x # xs) = Inl (AssertionError ''the flattened field order drifted'')
    \<and> (k < length (block_vector b) \<longrightarrow> read_block (take k (block_vector b)) = Inl (StopIteration ''the vector ends''))"
proof -
  have f: "read_fields (block_vector b @ rest) = Inr (named_block b, rest)" for rest
    using reads_fields [OF assms] by (simp add: reads_def)
  have "read_block (block_vector b) = Inr (named_block b)" using f [of "[]"] by (simp add: read_block_fields)
  moreover have "read_block (block_vector b @ x # xs) = Inl (AssertionError ''the flattened field order drifted'')"
    using f by (simp add: read_block_fields)
  moreover have "read_block (take k (block_vector b)) = Inl (StopIteration ''the vector ends'')" if "k < length (block_vector b)"
    using reads_fields [OF assms] that by (simp add: read_block_fields reads_def)
  ultimately show ?thesis by blast
qed

definition demo_raw :: raw_block where
  "demo_raw = (let side = \<lparr>rw_levels = replicate 9 [0, 7, 7, 7], rw_scalars = [1, 2, 2, 1, 0]\<rparr> in
     \<lparr>rb_D = 1, rb_bc = 512, rb_levels = replicate 7 [16, 0, 0, 0], rb_scalars = [16, 1, 16, 4, 16, 1],
      rb_r = side, rb_w = side, rb_xch_w = [[0, 1]], rb_xch_r = [[1, 0]]\<rparr>)"

theorem read_block_exact_witness:
  "\<exists>gf. read_block (block_vector demo_raw) = Inr gf \<and> gf_xch_r gf = [[1, 0]] \<and> side_level_at (gf_r gf) = Inr [0]
     \<and> read_block (take 5 (block_vector demo_raw)) = Inl (StopIteration ''the vector ends'')"
proof -
  have ok: "raw_block_ok demo_raw" by (simp add: raw_block_ok_def raw_side_ok_def demo_raw_def Let_def)
  have "5 < length (block_vector demo_raw)" by (simp add: block_vector_def demo_raw_def Let_def)
  moreover have "side_level_at (gf_r (named_block demo_raw)) = Inr [0]" "gf_xch_r (named_block demo_raw) = [[1, 0]]"
    by (simp_all add: side_level_at_def named_block_def named_side_def demo_raw_def Let_def SIDE_LEVEL_def first_levels_def numeral_eq_Suc)
  ultimately show ?thesis using read_block_exact [OF ok, of 0 "[]" 5] by blast
qed

end
