(* ===== verification/Rola_Intra.thy ===== *)
theory Rola_Intra
  imports Rola_Carry Rola_Padding
begin

text \<open>
  The intra kernel's call surface (\<^verbatim>\<open>rola/ops/intra.py\<close>): the mode word, the frozen support words,
  the raw and the padding entry. The kernel and its arm table are parameters; it reduces into the two
  buffers it is handed.
\<close>

definition DENSE_BOTH :: int where "DENSE_BOTH = 0"
definition READ_SPARSE :: int where "READ_SPARSE = 1"
definition WRITE_SPARSE :: int where "WRITE_SPARSE = 2"
definition BOTH_SPARSE :: int where "BOTH_SPARSE = 3"
definition INTRA_WINDOW :: nat where "INTRA_WINDOW = 384"
definition VALUE_WIDTH :: nat where "VALUE_WIDTH = 64"
definition WORD_TOKENS :: nat where "WORD_TOKENS = 32"

section \<open>The mode word\<close>

fun pack_modes_from :: "nat \<Rightarrow> int list \<Rightarrow> nat \<Rightarrow> nat res" where
  "pack_modes_from level [] packed = Inr packed"
| "pack_modes_from level (mode # modes) packed =
     (if mode \<notin> {DENSE_BOTH, READ_SPARSE, WRITE_SPARSE, BOTH_SPARSE} then Inl (ValueError ''unknown support mode'')
      else pack_modes_from (Suc level) modes (packed OR push_bit (2 * level) (nat mode)))"

definition pack_modes :: "int list \<Rightarrow> nat res" where "pack_modes modes = pack_modes_from 0 modes 0"

section \<open>Tensors\<close>

text \<open>\<^verbatim>\<open>t.permute(0, 2, 1, 3)\<close>, \<^verbatim>\<open>t.reshape(shape)\<close>, and the widening and slicing of the last dimension.\<close>

definition permute_heads :: "'a tens \<Rightarrow> 'a tens res" where
  "permute_heads x = (case te_shape x of
     [a, b, c, d] \<Rightarrow> Inr (x\<lparr>te_shape := [a, c, b, d], te_at := (\<lambda>idx. te_at x [idx ! 0, idx ! 2, idx ! 1, idx ! 3])\<rparr>)
   | _ \<Rightarrow> Inl (RuntimeError ''permute: number of dimensions''))"

definition reshape :: "nat list \<Rightarrow> 'a tens \<Rightarrow> 'a tens res" where
  "reshape shape x =
     (if prod_list shape \<noteq> prod_list (te_shape x) then Inl (RuntimeError ''shape is invalid for input'')
      else Inr (x\<lparr>te_shape := shape, te_at := (\<lambda>idx. te_at x (digits (te_shape x) (undigits shape idx)))\<rparr>))"

definition pad_last :: "'a :: zero tens \<Rightarrow> nat \<Rightarrow> 'a tens res" where
  "pad_last x width =
     (if te_shape x = [] then Inl (IndexError ''tuple index out of range'')
      else let current = last (te_shape x) in
        if current = width then Inr x
        else if current > width then Inl (ValueError ''padding only ever widens'')
        else Inr (x\<lparr>te_shape := butlast (te_shape x) @ [width], te_at := (\<lambda>idx. if last idx < current then te_at x idx else 0)\<rparr>))"

definition pad_levels :: "'a :: zero tens list \<Rightarrow> nat list \<Rightarrow> 'a tens list res" where
  "pad_levels levels padded_widths =
     (if length levels \<noteq> length padded_widths then Inl (ValueError ''one padded width per level is required'')
      else rmap (\<lambda>(x, w). pad_last x w) (zip levels padded_widths))"

definition slice_last :: "'a tens \<Rightarrow> nat \<Rightarrow> 'a tens" where
  "slice_last y d_v = y\<lparr>te_shape := butlast (te_shape y) @ [min d_v (last (te_shape y))]\<rparr>"

definition last_dim :: "'a tens \<Rightarrow> nat res" where
  "last_dim x = (if te_shape x = [] then Inl (IndexError ''tuple index out of range'') else Inr (last (te_shape x)))"

section \<open>The support words\<close>

text \<open>Bit \<open>b\<close> of word \<open>w\<close> is token \<open>32 w + b\<close>; the shift and the OR are those of 32-bit words.\<close>

definition support_word :: "(real \<Rightarrow> real) \<Rightarrow> real tens \<Rightarrow> nat \<Rightarrow> nat \<Rightarrow> nat \<Rightarrow> 32 word" where
  "support_word narrow plane bh w col =
     fold (\<lambda>b acc. acc OR push_bit b (of_bool (narrow (te_at plane [bh, w * WORD_TOKENS + b, col]) \<noteq> 0))) [0..<WORD_TOKENS] 0"

definition support_words :: "(real \<Rightarrow> real) \<Rightarrow> real tens \<Rightarrow> 32 word tens res" where
  "support_words narrow plane =
     (case te_shape plane of
        [bh, L, width] \<Rightarrow>
          if L mod WORD_TOKENS \<noteq> 0 then Inl (ValueError ''the support word blocks 32 tokens'')
          else Inr \<lparr>te_shape = [bh, L div WORD_TOKENS, width], te_dtype = ''int32'',
            te_at = (\<lambda>idx. case idx of [i, w, col] \<Rightarrow> support_word narrow plane i w col | _ \<Rightarrow> 0)\<rparr>
      | _ \<Rightarrow> Inl (ValueError ''not enough values to unpack''))"

fun cat_columns :: "'a :: zero tens list \<Rightarrow> nat list \<Rightarrow> nat \<Rightarrow> 'a" where
  "cat_columns [] idx col = 0"
| "cat_columns (x # xs) idx col = (let w = last (te_shape x) in if col < w then te_at x (idx @ [col]) else cat_columns xs idx (col - w))"

text \<open>\<^verbatim>\<open>torch.cat(parts, dim=-1)\<close> of parts whose other extents agree, as they do here.\<close>

definition cat_last :: "'a :: zero tens list \<Rightarrow> 'a tens" where
  "cat_last xs = \<lparr>te_shape = butlast (te_shape (hd xs)) @ [sum_list (map (\<lambda>x. last (te_shape x)) xs)], te_dtype = te_dtype (hd xs),
     te_at = (\<lambda>idx. cat_columns xs (butlast idx) (last idx))\<rparr>"

definition pack_support :: "(real \<Rightarrow> real) \<Rightarrow> real tens list \<Rightarrow> 32 word tens res" where
  "pack_support narrow levels =
     (case levels of [] \<Rightarrow> Inl (IndexError ''tuple index out of range'')
      | base # _ \<Rightarrow>
        (case te_shape base of
           [batch, tokens, heads, _] \<Rightarrow>
             rbind (rmap (\<lambda>level. rbind (permute_heads level) (\<lambda>p.
               rbind (reshape [batch * heads, tokens, last (te_shape level)] p) (support_words narrow))) levels) (\<lambda>parts.
               Inr (cat_last parts))
         | _ \<Rightarrow> Inl (ValueError ''not enough values to unpack'')))"

section \<open>The entries\<close>

record intra_args =
  ia_read :: "real tens"
  ia_write :: "real tens"
  ia_gain :: "real tens"
  ia_v :: "real tens"
  ia_sread :: "32 word tens"
  ia_swrite :: "32 word tens"
  ia_num :: "real tens"
  ia_den :: "real tens"
  ia_levels :: nat
  ia_level_width :: nat
  ia_modes :: nat
  ia_window :: nat

type_synonym intra_op = "intra_args \<Rightarrow> (real tens \<times> real tens) res"

definition intra_forward ::
    "intra_op \<Rightarrow> real tens \<Rightarrow> real tens \<Rightarrow> real tens \<Rightarrow> real tens \<Rightarrow> 32 word tens \<Rightarrow> 32 word tens \<Rightarrow> int list
     \<Rightarrow> real tens option \<Rightarrow> real tens option \<Rightarrow> nat \<Rightarrow> (real tens \<times> real tens) res" where
  "intra_forward ext pread pwrite gwrite v sread swrite modes out den window =
     (case te_shape pread of
        [bh, L, width] \<Rightarrow>
          let levels = length modes in
          if levels = 0 \<or> width mod levels \<noteq> 0 then Inl (ValueError ''cannot hold the uniform levels'')
          else rbind (pack_modes modes) (\<lambda>packed.
            ext \<lparr>ia_read = pread, ia_write = pwrite, ia_gain = gwrite, ia_v = v, ia_sread = sread, ia_swrite = swrite,
                  ia_num = (case out of Some x \<Rightarrow> x | None \<Rightarrow> zeros [bh, L, VALUE_WIDTH] ''float32''),
                  ia_den = (case den of Some x \<Rightarrow> x | None \<Rightarrow> zeros [bh, L] ''float32''),
                  ia_levels = levels, ia_level_width = width div levels, ia_modes = packed, ia_window = window\<rparr>)
      | _ \<Rightarrow> Inl (ValueError ''not enough values to unpack''))"

text \<open>The arm rows \<^verbatim>\<open>(levels, level_width, window, smem)\<close>; the least width of a depth and window.\<close>

type_synonym arm_rows = "(nat \<times> nat \<times> nat \<times> nat) list"

definition shipped_level_width :: "arm_rows \<Rightarrow> nat \<Rightarrow> nat \<Rightarrow> nat res" where
  "shipped_level_width arms D window =
     (case sort (remdups (concat (map (\<lambda>(levels, lw, w, smem). if levels = D \<and> w = window then [lw] else []) arms))) of
        [] \<Rightarrow> Inl (ValueError ''no shipped intra arm'')
      | lw # _ \<Rightarrow> Inr lw)"

definition intra_forward_padded ::
    "intra_op \<Rightarrow> arm_rows \<Rightarrow> (real \<Rightarrow> real) \<Rightarrow> real tens list \<Rightarrow> real tens list \<Rightarrow> real tens \<Rightarrow> real tens \<Rightarrow> int list \<Rightarrow> nat
     \<Rightarrow> real tens option \<Rightarrow> real tens option \<Rightarrow> (real tens \<times> real tens) res" where
  "intra_forward_padded ext arms narrow reads writes gwrite v modes window out den =
     rbind (shipped_level_width arms (length reads) window) (\<lambda>level_width.
     rbind (pad_levels reads (replicate (length reads) level_width)) (\<lambda>reads.
     rbind (pad_levels writes (replicate (length reads) level_width)) (\<lambda>writes.
     rbind (last_dim v) (\<lambda>d_v.
     rbind (pad_last v VALUE_WIDTH) (\<lambda>v.
     rbind (carry_pack_side narrow reads) (\<lambda>pread.
     rbind (carry_pack_side narrow writes) (\<lambda>pwrite.
     rbind (pack_support narrow reads) (\<lambda>sread.
     rbind (pack_support narrow writes) (\<lambda>swrite.
     rbind (intra_forward ext pread pwrite gwrite v sread swrite modes out den window) (\<lambda>(num, den).
       Inr (slice_last num d_v, den)))))))))))"

end
