(* ===== verification/Rola_Prefill.thy ===== *)
theory Rola_Prefill
  imports Rola_Intra
begin

text \<open>
  The prefill operator (\<^verbatim>\<open>rola/ops/prefill.py\<close>): the carry and the intra kernel as one call over
  the same packed planes and the same two accumulators. What the operator calls out of the
  repository's Python (the kernels, the liveness pass, the addressing derivation, the arm table), the
  rounding to bf16 and the bits of a stored amplitude are an environment.
\<close>

record prefill_env =
  pe_carry :: carry_op
  pe_intra :: intra_op
  pe_liveness :: "liveness_args \<Rightarrow> 32 word list list list list res"
  pe_geometry :: geom_op
  pe_arms :: arm_rows
  pe_narrow :: "real \<Rightarrow> real"
  pe_bits :: "real \<Rightarrow> 16 word"

definition prefill_descriptor :: "nat list \<Rightarrow> nat \<Rightarrow> nat \<Rightarrow> state_format res" where
  "prefill_descriptor widths dv bh =
     rbind (padded_shape_of widths dv SHIPPED_DV) (\<lambda>shape.
     let n = foldl (*) 1 (ps_padded_widths shape) in
       make_format \<lparr>sf_D = length (ps_padded_widths shape), sf_B = ps_padded_widths shape, sf_order = CANONICAL_ORDER,
         sf_page_bits = PAGE_RECTANGLE_BITS, sf_DV = ps_DV shape, sf_dtype = SPLIT_PLANE_DTYPE,
         sf_ids = bh * drop_bit PAGE_RECTANGLE_BITS n\<rparr>)"

text \<open>A plane as the pass reads it: its tokens and its stored bits in row-major order.\<close>

definition amp_of :: "(real \<Rightarrow> 16 word) \<Rightarrow> real tens \<Rightarrow> amp_plane" where
  "amp_of bits x = \<lparr>ap_dtype = te_dtype x, ap_tokens = te_shape x ! 1,
     ap_data = map (\<lambda>i. bits (te_at x (digits (te_shape x) i))) [0..<prod_list (te_shape x)]\<rparr>"

definition words_tens :: "nat \<Rightarrow> layout \<Rightarrow> 32 word list list list list \<Rightarrow> 32 word tens" where
  "words_tens bh ly words = \<lparr>te_shape = [bh, 2, layout_rows ly, layout_words ly], te_dtype = ''int32'',
     te_at = (\<lambda>idx. case idx of [b, s, r, w] \<Rightarrow> words ! b ! s ! r ! w | _ \<Rightarrow> 0)\<rparr>"

definition prefill_liveness :: "prefill_env \<Rightarrow> real tens \<Rightarrow> real tens \<Rightarrow> state_format \<Rightarrow> 32 word tens res" where
  "prefill_liveness env pread pwrite descriptor =
     rbind (layout_of descriptor (int (te_shape pread ! 1))) (\<lambda>ly.
     rbind (side_statics ly (replicate (ly_D ly) False) (map int (ly_B ly))) (\<lambda>statics.
     rbind (liveness_op (pe_liveness env) (amp_of (pe_bits env) pread) (amp_of (pe_bits env) pwrite) ly statics statics) (\<lambda>words.
       Inr (words_tens (length words) ly words))))"

definition conservative_activity :: "state_format \<Rightarrow> nat \<Rightarrow> 8 word tens" where
  "conservative_activity descriptor bh =
     \<lparr>te_shape = [bh, format_N descriptor div PAGE_LEAVES], te_dtype = ''uint8'', te_at = (\<lambda>_. ACTIVITY_READ OR ACTIVITY_WRITTEN)\<rparr>"

record packed_operands =
  po_read :: "real tens"
  po_write :: "real tens"
  po_gain :: "real tens"
  po_v_bh :: "real tens"
  po_v :: "real tens"

definition cast_bf16 :: "(real \<Rightarrow> real) \<Rightarrow> real tens \<Rightarrow> real tens" where
  "cast_bf16 narrow x = x\<lparr>te_dtype := ''bfloat16'', te_at := (\<lambda>idx. narrow (te_at x idx))\<rparr>"

definition value_by_head :: "real tens \<Rightarrow> real tens res" where
  "value_by_head v = (case te_shape v of
     [B, T, H, dv] \<Rightarrow> rbind (permute_heads v) (reshape [B * H, T, dv])
   | _ \<Rightarrow> Inl (ValueError ''not enough values to unpack''))"

definition pack_operands :: "(real \<Rightarrow> real) \<Rightarrow> real tens list \<Rightarrow> real tens list \<Rightarrow> real tens \<Rightarrow> real tens \<Rightarrow> packed_operands res" where
  "pack_operands narrow reads writes g_write v =
     rbind (rmap last_dim reads) (\<lambda>widths.
     rbind (last_dim v) (\<lambda>d_v.
     rbind (padded_shape_of widths d_v SHIPPED_DV) (\<lambda>shape.
     rbind (rbind (pad_levels reads (ps_padded_widths shape)) (carry_pack_side narrow)) (\<lambda>pread.
     rbind (rbind (pad_levels writes (ps_padded_widths shape)) (carry_pack_side narrow)) (\<lambda>pwrite.
     rbind (pack_gain narrow g_write) (\<lambda>gain.
     rbind (pad_last (cast_bf16 narrow v) (ps_DV shape)) (\<lambda>v_bthd.
     rbind (value_by_head v_bthd) (\<lambda>v_bh.
       Inr \<lparr>po_read = pread, po_write = pwrite, po_gain = gain, po_v_bh = v_bh, po_v = v_bthd\<rparr>))))))))"

text \<open>\<^verbatim>\<open>_intra_level_width\<close>: the refusal of the arm table is \<^const>\<open>None\<close>.\<close>

definition intra_level_width :: "arm_rows \<Rightarrow> nat \<Rightarrow> nat option" where
  "intra_level_width arms D = (case shipped_level_width arms D CARRY_WINDOW of Inl _ \<Rightarrow> None | Inr w \<Rightarrow> Some w)"

definition prefill_guards :: "arm_rows \<Rightarrow> real tens list \<Rightarrow> nat list \<Rightarrow> int list \<Rightarrow> unit res" where
  "prefill_guards arms reads widths modes =
     (let D = length widths in
      if length modes \<noteq> D then Inl (ValueError ''one support mode per level'')
      else case intra_level_width arms D of
        None \<Rightarrow> Inl (ValueError ''this build carries no intra arm'')
      | Some shipped \<Rightarrow>
          if length (remdups widths) \<noteq> 1 \<or> widths ! 0 \<noteq> shipped then Inl (ValueError ''the one uniform level width'')
          else if reads = [] \<or> length (te_shape (hd reads)) < 2 then Inl (IndexError ''tuple index out of range'')
          else refuse (te_shape (hd reads) ! 1 mod CARRY_WINDOW \<noteq> 0) (ValueError ''a whole number of windows''))"

definition prefill ::
    "prefill_env \<Rightarrow> real tens list \<Rightarrow> real tens list \<Rightarrow> real tens \<Rightarrow> real tens \<Rightarrow> nat list \<Rightarrow> int list
     \<Rightarrow> 32 word tens \<Rightarrow> 32 word tens \<Rightarrow> state_ref option \<Rightarrow> state_ref option \<Rightarrow> int tens option \<Rightarrow> 8 word tens option
     \<Rightarrow> (real tens \<times> real tens \<times> 32 word tens option) res" where
  "prefill env reads writes g_write v widths modes sread swrite state_in state_out page_table given_bits =
     rbind (prefill_guards (pe_arms env) reads widths modes) (\<lambda>_.
     rbind (last_dim v) (\<lambda>dv_logical.
     rbind (pack_operands (pe_narrow env) reads writes g_write v) (\<lambda>po.
     let bh = te_shape (po_v_bh po) ! 0; dv = te_shape (po_v_bh po) ! 2 in
     rbind (prefill_descriptor widths dv bh) (\<lambda>descriptor.
     rbind (make_launch SHIPPED_WARPS_PER_CTA) (\<lambda>launch.
     rbind (pack_modes modes) (\<lambda>packed.
     rbind (derive_geometry_block (pe_geometry env) (Some descriptor) (Some launch) packed) (\<lambda>block.
     rbind (prefill_liveness env (po_read po) (po_write po) descriptor) (\<lambda>liveness.
     let activity = (case given_bits of Some bits \<Rightarrow> bits | None \<Rightarrow> conservative_activity descriptor bh);
         routes = \<lparr>rp_read = po_read po, rp_write = po_write po, rp_gain = po_gain po\<rparr> in
     rbind (carry_forward (pe_carry env) (Some routes) (po_v_bh po) (Some descriptor) (Some block) (Some liveness) activity
         (Some launch) None state_in state_out page_table) (\<lambda>(num, den, state).
     rbind (pe_intra env \<lparr>ia_read = po_read po, ia_write = po_write po, ia_gain = po_gain po, ia_v = po_v po, ia_sread = sread,
         ia_swrite = swrite, ia_num = num, ia_den = den, ia_levels = length widths, ia_level_width = widths ! 0,
         ia_modes = packed, ia_window = CARRY_WINDOW\<rparr>) (\<lambda>(num, den).
       Inr (slice_last num dv_logical, den, state)))))))))))"

end
