(* ===== verification/Rola_Prefill_Pack.thy ===== *)
theory Rola_Prefill_Pack
  imports Rola_Prefill Rola_Liveness_Claims Rola_Oracle_Claims
begin

text \<open>
  What the host hands the two kernels: the packed planes, entry by entry, the descriptor of a padded
  call, the liveness words and the checks they all pass.
\<close>

section \<open>Indices of a packed plane\<close>

lemma div_mod_head: "h < H \<Longrightarrow> (b * H + h) div H = b \<and> (b * H + h) mod H = (h :: nat)"
  by simp

lemma head_less: "b < B \<Longrightarrow> h < H \<Longrightarrow> b * H + h < B * (H :: nat)"
  by (rule mult_add_less)

lemma reshape_heads: "b < B \<Longrightarrow> h < H \<Longrightarrow> t < T \<Longrightarrow> c < w
   \<Longrightarrow> digits [B, H, T, w] (undigits [B * H, T, w] [b * H + h, t, c]) = [b, h, t, c]"
proof -
  assume r: "b < B" "h < H" "t < T" "c < w"
  have "undigits [B * H, T, w] [b * H + h, t, c] = undigits [B, H, T, w] [b, h, t, c]" by (simp add: algebra_simps)
  then show ?thesis using r by (simp only:) (rule digits_undigits, simp)
qed

section \<open>Padding and packing\<close>

lemma pad_last_ok:
  assumes "te_shape x = pre @ [w]" "w \<le> W"
  shows "\<exists>x'. pad_last x W = Inr x' \<and> te_shape x' = pre @ [W] \<and> te_dtype x' = te_dtype x
    \<and> (\<forall>idx. last idx < W \<longrightarrow> te_at x' idx = (if last idx < w then te_at x idx else 0))"
  using assms by (auto simp: pad_last_def Let_def)

lemma pad_levels_ok:
  assumes "length xs = length ws" "\<And>l. l < length ws \<Longrightarrow> te_shape (xs ! l) = pre @ [vs ! l] \<and> vs ! l \<le> ws ! l"
  shows "\<exists>ys. pad_levels xs ws = Inr ys \<and> length ys = length ws
    \<and> (\<forall>l<length ws. te_shape (ys ! l) = pre @ [ws ! l]
         \<and> (\<forall>idx. last idx < ws ! l \<longrightarrow> te_at (ys ! l) idx = (if last idx < vs ! l then te_at (xs ! l) idx else 0)))"
proof -
  let ?f = "\<lambda>(x, w). pad_last x w" and ?p = "zip xs ws"
  have "\<exists>y. ?f (?p ! l) = Inr y \<and> te_shape y = pre @ [ws ! l]
      \<and> (\<forall>idx. last idx < ws ! l \<longrightarrow> te_at y idx = (if last idx < vs ! l then te_at (xs ! l) idx else 0))" if "l < length ws" for l
    using pad_last_ok [of "xs ! l" pre "vs ! l" "ws ! l"] assms that by auto
  then obtain y where y: "\<And>l. l < length ws \<Longrightarrow> ?f (?p ! l) = Inr (y l) \<and> te_shape (y l) = pre @ [ws ! l]
      \<and> (\<forall>idx. last idx < ws ! l \<longrightarrow> te_at (y l) idx = (if last idx < vs ! l then te_at (xs ! l) idx else 0))"
    by metis
  have "rmap ?f ps = Inr (map (\<lambda>l. y (n + l)) [0..<length ps])" if "\<forall>l<length ps. ?f (ps ! l) = Inr (y (n + l))" for ps n
    using that
  proof (induction ps arbitrary: n)
    case (Cons p ps)
    have "?f p = Inr (y n)" using Cons.prems by (metis add_0_right length_greater_0_conv list.discI nth_Cons_0)
    moreover have "rmap ?f ps = Inr (map (\<lambda>l. y (Suc n + l)) [0..<length ps])" using Cons.prems by (intro Cons.IH) force
    moreover have "map (\<lambda>l. y (n + l)) [0..<length (p # ps)] = y n # map (\<lambda>l. y (Suc n + l)) [0..<length ps]"
      by (simp only: length_Cons upt_conv_Cons [OF zero_less_Suc] list.map add_0_right map_Suc_upt [symmetric] map_map comp_def add_Suc_shift add_Suc)
    ultimately show ?case by (simp only: rmap.simps rbind.simps)
  qed simp
  from this [of ?p 0] have "rmap ?f ?p = Inr (map y [0..<length ws])" using y assms(1) by simp
  then show ?thesis using y assms(1) by (intro exI [of _ "map y [0..<length ws]"]) (simp add: pad_levels_def)
qed

lemma pack_columns_at:
  assumes "l < length xs" "d < last (te_shape (xs ! l))"
  shows "pack_columns narrow xs b h t (sum_list (map (\<lambda>x. last (te_shape x)) (take l xs)) + d)
    = narrow (te_at (xs ! l) (bcast_index (te_shape (xs ! l)) [b, t, h, d]))"
  using assms
proof (induction xs arbitrary: l)
  case (Cons x xs)
  then show ?case by (cases l) (simp_all add: Let_def add.assoc)
qed simp

lemma carry_pack_side_hd: "carry_pack_side narrow xs = (if xs = [] then Inl (IndexError ''tuple index out of range'') else
    case te_shape (hd xs) of
      [B, T, H, _] \<Rightarrow>
        if list_ex (\<lambda>x. te_shape x = []) xs then Inl (IndexError ''tuple index out of range'')
        else if list_ex (\<lambda>x. \<not> broadcasts (te_shape x) [B, T, H, last (te_shape x)]) xs then Inl (RuntimeError ''the shape does not match'')
        else if B * H * T = 0 then Inl (RuntimeError ''cannot reshape tensor of 0 elements'')
        else Inr \<lparr>te_shape = [B * H, T, sum_list (map (\<lambda>x. last (te_shape x)) xs)], te_dtype = ''bfloat16'',
               te_at = (\<lambda>idx. case idx of [bh, t, col] \<Rightarrow> pack_columns narrow xs (bh div H) (bh mod H) t col | _ \<Rightarrow> 0)\<rparr>
    | _ \<Rightarrow> Inl (ValueError ''not enough values to unpack''))"
  unfolding carry_pack_side_def by (cases xs) (simp_all only: list.case list.sel simp_thms if_True if_False list.distinct)

lemma carry_pack_ok:
  assumes "xs \<noteq> []" "length xs = length ws" "\<And>l. l < length ws \<Longrightarrow> te_shape (xs ! l) = [B, T, H, ws ! l]" "0 < B" "0 < T" "0 < H"
  shows "\<exists>p. carry_pack_side narrow xs = Inr p \<and> te_shape p = [B * H, T, sum_list ws] \<and> te_dtype p = ''bfloat16''
    \<and> (\<forall>b h t l d. b < B \<longrightarrow> h < H \<longrightarrow> t < T \<longrightarrow> l < length ws \<longrightarrow> d < ws ! l \<longrightarrow>
         te_at p [b * H + h, t, sum_list (take l ws) + d] = narrow (te_at (xs ! l) [b, t, h, d]))"
proof -
  obtain base rest where xs: "xs = base # rest" using assms(1) by (cases xs) auto
  have base: "te_shape base = [B, T, H, ws ! 0]" using assms(2) assms(3) [of 0] unfolding xs by force
  have shape: "\<exists>w. te_shape x = [B, T, H, w]" if "x \<in> set xs" for x
    using that assms(2,3) by (auto simp: in_set_conv_nth)
  have lasts: "map (\<lambda>x. last (te_shape x)) xs = ws" using assms(2,3) by (intro nth_equalityI) simp_all
  have "\<not> list_ex (\<lambda>x. te_shape x = []) xs" "\<not> list_ex (\<lambda>x. \<not> broadcasts (te_shape x) [B, T, H, last (te_shape x)]) xs"
    using shape by (auto simp: list_ex_iff broadcasts_def) fastforce+
  then have "carry_pack_side narrow xs = Inr \<lparr>te_shape = [B * H, T, sum_list ws], te_dtype = ''bfloat16'',
      te_at = (\<lambda>idx. case idx of [bh, t, col] \<Rightarrow> pack_columns narrow xs (bh div H) (bh mod H) t col | _ \<Rightarrow> 0)\<rparr>"
    using base lasts assms(1,4-6) xs unfolding carry_pack_side_hd by simp
  moreover have "pack_columns narrow xs b h t (sum_list (take l ws) + d) = narrow (te_at (xs ! l) [b, t, h, d])"
    if "b < B" "h < H" "t < T" "l < length ws" "d < ws ! l" for b h t l d
  proof -
    have sh: "te_shape (xs ! l) = [B, T, H, ws ! l]" by (rule assms(3) [OF that(4)])
    have "bcast_index [B, T, H, ws ! l] [b, t, h, d] = [b, t, h, d]" using that by (simp add: bcast_index_def)
    then show ?thesis using pack_columns_at [of l xs d narrow b h t] that assms(2) sh
      by (simp add: take_map [symmetric] lasts)
  qed
  ultimately show ?thesis by (intro exI conjI) (assumption | simp add: div_mod_head)+
qed

lemma pack_gain_ok:
  assumes "te_shape g = [B, T, H]" "0 < B" "0 < H"
  shows "\<exists>p. pack_gain narrow g = Inr p \<and> te_shape p = [B * H, T] \<and> te_dtype p = ''bfloat16''
    \<and> (\<forall>b h t. h < H \<longrightarrow> te_at p [b * H + h, t] = narrow (te_at g [b, t, h]))"
  using assms by (simp add: pack_gain_def div_mod_head)

lemma value_by_head_ok:
  assumes "te_shape v = [B, T, H, dv]"
  shows "\<exists>p. value_by_head v = Inr p \<and> te_shape p = [B * H, T, dv] \<and> te_dtype p = te_dtype v
    \<and> (\<forall>b h t c. b < B \<longrightarrow> h < H \<longrightarrow> t < T \<longrightarrow> c < dv \<longrightarrow> te_at p [b * H + h, t, c] = te_at v [b, t, h, c])"
proof -
  let ?q = "v\<lparr>te_shape := [B, H, T, dv], te_at := (\<lambda>idx. te_at v [idx ! 0, idx ! 2, idx ! 1, idx ! 3])\<rparr>"
  have q: "permute_heads v = Inr ?q" using assms by (simp add: permute_heads_def)
  have "prod_list [B * H, T, dv] = prod_list (te_shape ?q)" by (simp add: mult.assoc)
  then have "value_by_head v = Inr (?q\<lparr>te_shape := [B * H, T, dv], te_at := (\<lambda>idx. te_at ?q (digits (te_shape ?q) (undigits [B * H, T, dv] idx)))\<rparr>)"
    unfolding value_by_head_def assms list.case q rbind.simps reshape_def by (simp only: simp_thms if_True if_False)
  moreover have "te_at ?q (digits (te_shape ?q) (undigits [B * H, T, dv] [b * H + h, t, c])) = te_at v [b, t, h, c]"
    if "b < B" "h < H" "t < T" "c < dv" for b h t c
    using reshape_heads [OF that] by (simp del: digits.simps undigits.simps)
  ultimately show ?thesis by (intro exI conjI) (assumption | simp del: digits.simps undigits.simps)+
qed

section \<open>The planes of a call\<close>

definition plane_of :: "(real \<Rightarrow> real) \<Rightarrow> real tens list \<Rightarrow> nat list \<Rightarrow> nat list \<Rightarrow> nat \<Rightarrow> nat \<Rightarrow> nat \<Rightarrow> real tens \<Rightarrow> bool" where
  "plane_of narrow xs vs ws B T H p \<longleftrightarrow> te_shape p = [B * H, T, sum_list ws] \<and> te_dtype p = ''bfloat16''
     \<and> (\<forall>b h t l d. b < B \<longrightarrow> h < H \<longrightarrow> t < T \<longrightarrow> l < length ws \<longrightarrow> d < ws ! l \<longrightarrow>
          te_at p [b * H + h, t, sum_list (take l ws) + d] = (if d < vs ! l then narrow (te_at (xs ! l) [b, t, h, d]) else narrow 0))"

lemma pad_pack_ok:
  assumes "xs \<noteq> []" "length xs = length ws" "\<And>l. l < length ws \<Longrightarrow> te_shape (xs ! l) = [B, T, H, vs ! l] \<and> vs ! l \<le> ws ! l"
    "0 < B" "0 < T" "0 < H"
  shows "\<exists>p. rbind (pad_levels xs ws) (carry_pack_side narrow) = Inr p \<and> plane_of narrow xs vs ws B T H p"
proof -
  obtain ys where ys: "pad_levels xs ws = Inr ys" "length ys = length ws"
    "\<And>l. l < length ws \<Longrightarrow> te_shape (ys ! l) = [B, T, H] @ [ws ! l]"
    "\<And>l idx. l < length ws \<Longrightarrow> last idx < ws ! l \<Longrightarrow> te_at (ys ! l) idx = (if last idx < vs ! l then te_at (xs ! l) idx else 0)"
    using pad_levels_ok [of xs ws "[B, T, H]" vs] assms(2,3) by auto
  have "ys \<noteq> []" using ys(2) assms(1,2) by auto
  from carry_pack_ok [OF this ys(2) _ assms(4-6), of narrow] ys(3)
  obtain p where p: "carry_pack_side narrow ys = Inr p" "te_shape p = [B * H, T, sum_list ws]" "te_dtype p = ''bfloat16''"
    "\<forall>b h t l d. b < B \<longrightarrow> h < H \<longrightarrow> t < T \<longrightarrow> l < length ws \<longrightarrow> d < ws ! l \<longrightarrow>
         te_at p [b * H + h, t, sum_list (take l ws) + d] = narrow (te_at (ys ! l) [b, t, h, d])"
    by auto
  have "plane_of narrow xs vs ws B T H p"
    unfolding plane_of_def using p(2,3,4) ys(4) by simp
  then show ?thesis using ys(1) p(1) by simp
qed

end
