(* ===== verification/Rola_Prefill_Call.thy ===== *)
theory Rola_Prefill_Call
  imports Rola_Prefill_Pack
begin

text \<open>
  The call the prefill makes: the descriptor, the addressing block and the liveness words of a padded
  call, and the checks of the carry surface, which they pass.
\<close>

section \<open>The descriptor\<close>

definition lawful_ws :: "nat list \<Rightarrow> bool" where
  "lawful_ws ws \<longleftrightarrow> ws \<noteq> [] \<and> (\<forall>w\<in>set ws. is_pow2 w \<and> 16 \<le> w)"

definition call_format :: "nat list \<Rightarrow> nat \<Rightarrow> nat \<Rightarrow> state_format" where
  "call_format ws DV bh = \<lparr>sf_D = length ws, sf_B = ws, sf_order = CANONICAL_ORDER, sf_page_bits = PAGE_RECTANGLE_BITS, sf_DV = DV,
     sf_dtype = SPLIT_PLANE_DTYPE, sf_ids = bh * drop_bit PAGE_RECTANGLE_BITS (foldl (*) 1 ws)\<rparr>"

lemma padded_widths_ok: "\<forall>w\<in>set vs. 0 < w \<Longrightarrow> rmap (\<lambda>w. padded_level_width PADDED_LEVEL_FLOOR (PyInt (int w))) vs = Inr (map pad_width vs)"
  by (induction vs) (auto simp: padded_level_width_def)

lemma lawful_ws_pad: "vs \<noteq> [] \<Longrightarrow> lawful_ws (map pad_width vs)"
  by (auto simp: lawful_ws_def padded_width_floor pad_width_floor)

lemma lawful_ws_id: "lawful_ws ws \<Longrightarrow> map pad_width ws = ws"
  by (auto simp: lawful_ws_def PADDED_LEVEL_FLOOR_def intro!: map_idI padded_width_id)

lemma lawful_ws_page: "lawful_ws ws \<Longrightarrow> 16 dvd prod_list ws"
  by (cases ws) (auto simp: lawful_ws_def intro!: dvd_mult2 is_pow2_dvd is_pow2_power [of 4, simplified])

lemma call_format_ok:
  assumes "lawful_ws ws" "DV \<in> set SHIPPED_DV"
  shows "prefill_descriptor ws DV bh = Inr (call_format ws DV bh)" "refuse_descriptor (Some (call_format ws DV bh)) = Inr ()"
proof -
  have pos: "\<forall>w\<in>set ws. 0 < w" using assms(1) by (auto simp: lawful_ws_def)
  have dv: "padded_value_width SHIPPED_DV DV = Inr DV" "even DV" "0 < DV" using assms(2) by (auto simp: SHIPPED_DV_def)
  have pg: "prod_list ws mod 16 = 0" using lawful_ws_page [OF assms(1)] by (simp add: mod_eq_0_iff_dvd)
  have bits: "push_bit PAGE_RECTANGLE_BITS 1 = (16 :: nat)" by code_simp
  have "\<forall>w\<in>set ws. \<not> unlawful_width w" using assms(1) by (auto simp: unlawful_width_iff lawful_ws_def)
  then have w: "checks (map (\<lambda>w. refuse (unlawful_width w) e) ws) = Inr ()" for e by simp
  have "make_format (call_format ws DV bh) = Inr (call_format ws DV bh)"
    unfolding make_format_def format_post_init_def
    using dv pg bits by (simp add: w call_format_def format_N_prod)
  then show "prefill_descriptor ws DV bh = Inr (call_format ws DV bh)"
    using padded_widths_ok [OF pos] dv lawful_ws_id [OF assms(1)] by (simp add: prefill_descriptor_def padded_shape_of_def call_format_def)
  show "refuse_descriptor (Some (call_format ws DV bh)) = Inr ()"
    unfolding refuse_descriptor_def
    using assms(2) pg by (simp add: w call_format_def format_N_prod PAGE_LEAVES_def MMA_K_QUANTUM_def)
qed

section \<open>The addressing block\<close>

lemma read_level_fields_names: "read_level_fields D names xs = Inr (ys, rest) \<Longrightarrow> map fst ys = names"
  by (induction D names xs arbitrary: ys rest rule: read_level_fields.induct) (auto simp: res_simps)

lemma read_side_level_at:
  assumes "read_side D xs = Inr (side, rest)"
  shows "\<exists>order. side_level_at side = Inr order"
proof -
  obtain ys where ys: "map fst (gs_levels side) = SIDE_LEVEL" using assms read_level_fields_names by (fastforce simp: read_side_def res_simps)
  then have "''level_at'' \<in> fst ` set (gs_levels side)" by (simp add: SIDE_LEVEL_def flip: set_map)
  then obtain order where "map_of (gs_levels side) ''level_at'' = Some order" by (metis map_of_eq_None_iff option.exhaust)
  then show ?thesis by (simp add: side_level_at_def)
qed

lemma geometry_level_at:
  assumes "geometry ext ws modes bc nsr nsw dv = Inr gf"
  shows "\<exists>r w. side_level_at (gf_r gf) = Inr r \<and> side_level_at (gf_w gf) = Inr w"
proof -
  obtain D x y r z w z' where "read_side D x = Inr (r, z)" "read_side y z = Inr (w, z')" "gf_r gf = r" "gf_w gf = w"
    using assms by (auto simp: geometry_def read_block_def res_simps split: if_splits)
  then show ?thesis using read_side_level_at by metis
qed

definition call_box :: "nat \<Rightarrow> nat" where "call_box DV = LEAVES_PER_WARP_BUDGET div DV * SHIPPED_WARPS_PER_CTA"

definition call_block :: "nat list \<Rightarrow> nat \<Rightarrow> geom_fields \<Rightarrow> nat \<Rightarrow> geometry_block" where
  "call_block ws DV gf modes = \<lparr>gb_D = length ws, gb_B = ws, gb_DV = DV, gb_warps = SHIPPED_WARPS_PER_CTA, gb_BC = call_box DV,
     gb_fields = gf, gb_modes = modes\<rparr>"

definition shipped_launch :: launch_shape where "shipped_launch = \<lparr>ls_warps = SHIPPED_WARPS_PER_CTA\<rparr>"

lemma shipped_launch_made: "make_launch SHIPPED_WARPS_PER_CTA = Inr shipped_launch"
  by (simp add: make_launch_def shipped_launch_def SHIPPED_WARPS_PER_CTA_def WARPS_PER_CTA_def)

lemma call_block_ok:
  assumes "lawful_ws ws" "DV \<in> set SHIPPED_DV" "geometry ext ws modes (call_box DV) 1 1 DV = Inr gf"
  shows "derive_geometry_block ext (Some (call_format ws DV bh)) (Some shipped_launch) modes = Inr (call_block ws DV gf modes)"
    "refuse_geometry (Some (call_block ws DV gf modes)) (call_format ws DV bh) shipped_launch = Inr ()"
    "\<exists>carve. carve_order (call_block ws DV gf modes) = Inr carve"
proof -
  have box: "carry_box_leaves DV SHIPPED_WARPS_PER_CTA = Inr (call_box DV)"
    using assms(2) by (auto simp: carry_box_leaves_def carry_leaves_per_warp_def call_box_def SHIPPED_DV_def)
  show "derive_geometry_block ext (Some (call_format ws DV bh)) (Some shipped_launch) modes = Inr (call_block ws DV gf modes)"
    unfolding derive_geometry_block_def call_format_ok(2) [OF assms(1,2)]
    using box assms(3) by (simp add: refuse_launch_def refuse_def shipped_launch_def call_format_def call_block_def)
  show "refuse_geometry (Some (call_block ws DV gf modes)) (call_format ws DV bh) shipped_launch = Inr ()"
    using box by (simp add: refuse_geometry_def call_block_def call_format_def shipped_launch_def)
  show "\<exists>carve. carve_order (call_block ws DV gf modes) = Inr carve"
    using geometry_level_at [OF assms(3)] by (auto simp: carve_order_def call_block_def)
qed

section \<open>The liveness words\<close>

text \<open>The words of a side vote exactly where the plane stores an amplitude.\<close>

definition words_cover :: "nat \<Rightarrow> nat \<Rightarrow> nat list \<Rightarrow> real tens \<Rightarrow> (nat \<Rightarrow> nat \<Rightarrow> nat \<Rightarrow> 32 word) \<Rightarrow> bool" where
  "words_cover BH T ws plane word \<longleftrightarrow> (\<forall>bh t l d. bh < BH \<longrightarrow> t < T \<longrightarrow> l < length ws \<longrightarrow> d < ws ! l
     \<longrightarrow> te_at plane [bh, t, sum_list (take l ws) + d] \<noteq> 0 \<longrightarrow> bit (word bh (sum_list (take l ws) + d) (t div 32)) (t mod 32))"

definition stored_bits :: "(real \<Rightarrow> 16 word) \<Rightarrow> bool" where
  "stored_bits bits \<longleftrightarrow> (\<forall>x. (bits x AND BF16_MAGNITUDE_MASK \<noteq> 0) = (x \<noteq> 0))"

lemma amp_of_at:
  assumes "te_shape p = [BH, T, W]" "bh < BH" "t < T" "r < W"
  shows "ap_data (amp_of bits p) ! ((bh * T + t) * W + r) = bits (te_at p [bh, t, r])"
proof -
  have u: "undigits [BH, T, W] [bh, t, r] = (bh * T + t) * W + r" by (simp add: algebra_simps)
  have "in_digits [BH, T, W] [bh, t, r]" using assms by simp
  then have "(bh * T + t) * W + r < prod_list [BH, T, W]" "digits [BH, T, W] ((bh * T + t) * W + r) = [bh, t, r]"
    using undigits_less [of "[BH, T, W]" "[bh, t, r]"] digits_undigits [of "[BH, T, W]" "[bh, t, r]"] unfolding u by blast+
  then show ?thesis unfolding amp_of_def using assms(1) by (simp del: digits.simps)
qed

lemma prefill_liveness_ok:
  assumes "pass_ok (pe_liveness env)" "stored_bits (pe_bits env)" "lawful_ws ws" "0 < T"
    and "te_shape rp = [BH, T, sum_list ws]" "te_dtype rp = ''bfloat16''" "te_shape wp = [BH, T, sum_list ws]" "te_dtype wp = ''bfloat16''"
  shows "\<exists>words. prefill_liveness env rp wp (call_format ws DV BH) = Inr words \<and> te_dtype words = ''int32''
    \<and> te_shape words = [BH, 2, sum_list ws, token_words T]
    \<and> words_cover BH T ws rp (\<lambda>bh r w. te_at words [bh, 0, r, w]) \<and> words_cover BH T ws wp (\<lambda>bh r w. te_at words [bh, 1, r, w])"
proof -
  let ?ly = "\<lparr>ly_D = length ws, ly_B = ws, ly_L = T\<rparr>" and ?bits = "pe_bits env"
  let ?d = "replicate (length ws) False" and ?b = "map int ws"
  have ly: "make_layout (length ws) ws (int T) = Inr ?ly" using assms(4) by (simp add: make_layout_def)
  then have lof: "layout_of (call_format ws DV BH) (int (te_shape rp ! 1)) = Inr ?ly" by (simp add: layout_of_def call_format_def assms(5))
  have pos: "\<forall>w\<in>set ws. 1 \<le> w" using assms(3) by (auto simp: lawful_ws_def)
  then have "is_ok (side_statics ?ly ?d ?b)"
    by (auto simp: side_statics_def list_ex_iff in_set_zip)
  then obtain st where st: "side_statics ?ly ?d ?b = Inr st" by (auto simp: is_ok_iff)
  have W: "layout_rows ?ly = sum_list ws" "layout_words ?ly = token_words T" by (simp_all add: layout_rows_def layout_words_def)
  have "0 < sum_list ws" using assms(3) by (cases ws) (auto simp: lawful_ws_def)
  then have TW: "0 < T * sum_list ws" using assms(4) by simp
  have data: "length (ap_data (amp_of ?bits p)) = BH * (T * sum_list ws)" if "te_shape p = [BH, T, sum_list ws]" for p
    using that by (simp add: amp_of_def)
  obtain words where words: "liveness_words (amp_of ?bits rp) (amp_of ?bits wp) ?ly st st = Inr words"
    using liveness_words_total [OF st st, of "amp_of ?bits rp" BH "amp_of ?bits wp"] data assms(5-8) TW W by (auto simp: amp_of_def)
  have op: "liveness_op (pe_liveness env) (amp_of ?bits rp) (amp_of ?bits wp) ?ly st st = Inr words"
    using pass_okD [OF assms(1) ly _ _ st st] words assms(5,7) by (simp add: amp_of_def)
  have calls: "plane_calls (amp_of ?bits rp) ?ly = BH" using data [OF assms(5)] TW by (simp add: plane_calls_def W)
  note ok = liveness_words_ok [OF st st _ words, unfolded calls, simplified]
  have len: "length words = BH" using wf_table_length [OF ok(1)] .
  have pl: "prefill_liveness env rp wp (call_format ws DV BH) = Inr (words_tens BH ?ly words)"
    unfolding prefill_liveness_def lof using st op len by simp
  have vote: "live_digit (amp_of ?bits p) ?ly ?d ?b bh l d t = (te_at p [bh, t, sum_list (take l ws) + d] \<noteq> 0)"
    if "te_shape p = [BH, T, sum_list ws]" "bh < BH" "t < T" "l < length ws" "d < ws ! l" for p bh t l d
  proof -
    have "sum_list (take l ws) + d < sum_list ws" using row_in_layout [of l ?ly d] that(4,5) by (simp add: row_base_def layout_rows_def)
    then show ?thesis using amp_of_at [OF that(1-3), of "sum_list (take l ws) + d" ?bits] that assms(2)
      by (simp add: live_digit_def voted_def row_base_def W stored_bits_def)
  qed
  have "words_cover BH T ws rp (\<lambda>bh r w. te_at (words_tens BH ?ly words) [bh, 0, r, w])"
    "words_cover BH T ws wp (\<lambda>bh r w. te_at (words_tens BH ?ly words) [bh, 1, r, w])"
    unfolding words_cover_def words_tens_def
    using ok(3) vote [OF assms(5)] vote [OF assms(7)]
    by (auto simp: says_def row_bit_def row_base_def SIDE_READ_def SIDE_WRITE_def)
  then show ?thesis using pl by (intro exI conjI) (assumption | simp add: words_tens_def W)+
qed

end
