(* ===== verification/Rola_Prefill_Props.thy ===== *)
theory Rola_Prefill_Props
  imports Rola_Prefill_Call
begin

text \<open>
  The prefill against the reference: what the two kernels document, the window decomposition of the
  causal sum, and the accumulators of a call as the attention of the reference operator.
\<close>

section \<open>What the kernels document\<close>

text \<open>A leaf's product at a token of a plane, and the weight a read token gives a written one.\<close>

definition plane_leaf :: "real tens \<Rightarrow> nat list \<Rightarrow> nat \<Rightarrow> nat \<Rightarrow> nat \<Rightarrow> real" where
  "plane_leaf p ws bh t n = (\<Prod>l<length ws. te_at p [bh, t, sum_list (take l ws) + leaf_digit ws l n])"

definition plane_pair :: "real tens \<Rightarrow> real tens \<Rightarrow> real tens \<Rightarrow> nat list \<Rightarrow> nat \<Rightarrow> nat \<Rightarrow> nat \<Rightarrow> real" where
  "plane_pair r w g ws bh t \<tau> = te_at g [bh, \<tau>] * (\<Sum>n<prod_list ws. plane_leaf r ws bh t n * plane_leaf w ws bh \<tau> n)"

text \<open>Pairs whose write fell in a strictly earlier window; causal pairs inside one window.\<close>

definition inter_sum :: "nat \<Rightarrow> nat \<Rightarrow> nat \<Rightarrow> (nat \<Rightarrow> real) \<Rightarrow> real" where
  "inter_sum W L t f = (\<Sum>\<tau><L. if \<tau> div W < t div W then f \<tau> else 0)"

definition intra_sum :: "nat \<Rightarrow> nat \<Rightarrow> nat \<Rightarrow> (nat \<Rightarrow> real) \<Rightarrow> real" where
  "intra_sum W L t f = (\<Sum>\<tau><L. if \<tau> div W = t div W \<and> \<tau> \<le> t then f \<tau> else 0)"

lemma window_decomposition: "t < L \<Longrightarrow> inter_sum W L t f + intra_sum W L t f = (\<Sum>\<tau><Suc t. f \<tau>)"
proof -
  assume t: "t < L"
  have "inter_sum W L t f + intra_sum W L t f = (\<Sum>\<tau><L. if \<tau> \<le> t then f \<tau> else 0)"
    unfolding inter_sum_def intra_sum_def sum.distrib [symmetric]
  proof (rule sum.cong [OF refl])
    fix \<tau>
    have "\<tau> div W < t div W \<Longrightarrow> \<tau> \<le> t" by (rule ccontr) (use div_le_mono [of t \<tau> W] in auto)
    moreover have "\<tau> \<le> t \<Longrightarrow> \<tau> div W \<le> t div W" by (rule div_le_mono)
    ultimately show "(if \<tau> div W < t div W then f \<tau> else 0) + (if \<tau> div W = t div W \<and> \<tau> \<le> t then f \<tau> else 0) = (if \<tau> \<le> t then f \<tau> else 0)"
      by auto
  qed
  also have "\<dots> = (\<Sum>\<tau><Suc t. f \<tau>)" using t by (intro sum.mono_neutral_cong_right) auto
  finally show ?thesis .
qed

text \<open>
  A stateless call over planes of the surface's shapes whose liveness words vote every stored amplitude
  and whose activity names every page.
\<close>

definition carry_call_ok :: "carry_args \<Rightarrow> nat \<Rightarrow> nat \<Rightarrow> bool" where
  "carry_call_ok a BH L \<longleftrightarrow>
     te_shape (rp_read (ca_routes a)) = [BH, L, sum_list (ca_B a)] \<and> te_shape (rp_write (ca_routes a)) = [BH, L, sum_list (ca_B a)]
     \<and> te_shape (rp_gain (ca_routes a)) = [BH, L] \<and> te_shape (ca_v a) = [BH, L, ca_DV a]
     \<and> te_shape (ca_num a) = [BH, L, ca_DV a] \<and> te_shape (ca_den a) = [BH, L]
     \<and> ca_state_in a = None \<and> ca_state_out a = None \<and> ca_page_table a = None
     \<and> words_cover BH L (ca_B a) (rp_read (ca_routes a)) (\<lambda>bh r w. te_at (ca_words a) [bh, 0, r, w])
     \<and> words_cover BH L (ca_B a) (rp_write (ca_routes a)) (\<lambda>bh r w. te_at (ca_words a) [bh, 1, r, w])
     \<and> (\<forall>bh p. te_at (ca_activity a) [bh, p] = ACTIVITY_READ OR ACTIVITY_WRITTEN)"

definition carry_documented :: "carry_op \<Rightarrow> bool" where
  "carry_documented ext \<longleftrightarrow> (\<forall>a BH L. carry_call_ok a BH L \<longrightarrow>
     (\<exists>num den. ext a = Inr (num, den, None) \<and> te_shape num = te_shape (ca_num a) \<and> te_shape den = te_shape (ca_den a)
      \<and> (\<forall>bh<BH. \<forall>t<L.
           let pair = plane_pair (rp_read (ca_routes a)) (rp_write (ca_routes a)) (rp_gain (ca_routes a)) (ca_B a) bh t in
           te_at den [bh, t] = te_at (ca_den a) [bh, t] + inter_sum CARRY_WINDOW L t pair
           \<and> (\<forall>c<ca_DV a. te_at num [bh, t, c] = te_at (ca_num a) [bh, t, c] + inter_sum CARRY_WINDOW L t (\<lambda>\<tau>. pair \<tau> * te_at (ca_v a) [bh, \<tau>, c])))))"

text \<open>
  The intra kernel, over whole windows, reads the value token-major, at its one value width: its entry
  (\<^verbatim>\<open>csrc/rola/src/intra/intra.cu\<close>) refuses every other.
\<close>

definition intra_call_ok :: "intra_args \<Rightarrow> nat \<Rightarrow> nat \<Rightarrow> nat \<Rightarrow> bool" where
  "intra_call_ok a B L H \<longleftrightarrow>
     (let ws = replicate (ia_levels a) (ia_level_width a); DV = VALUE_WIDTH in
      te_shape (ia_read a) = [B * H, L, sum_list ws] \<and> te_shape (ia_write a) = [B * H, L, sum_list ws]
      \<and> te_shape (ia_gain a) = [B * H, L] \<and> te_shape (ia_v a) = [B, L, H, DV]
      \<and> te_shape (ia_num a) = [B * H, L, DV] \<and> te_shape (ia_den a) = [B * H, L]
      \<and> 0 < ia_window a \<and> L mod ia_window a = 0
      \<and> words_cover (B * H) L ws (ia_read a) (\<lambda>bh r w. te_at (ia_sread a) [bh, w, r])
      \<and> words_cover (B * H) L ws (ia_write a) (\<lambda>bh r w. te_at (ia_swrite a) [bh, w, r]))"

definition intra_documented :: "intra_op \<Rightarrow> bool" where
  "intra_documented ext \<longleftrightarrow> (\<forall>a B L H. intra_call_ok a B L H \<longrightarrow>
     (\<exists>num den. ext a = Inr (num, den) \<and> te_shape num = te_shape (ia_num a) \<and> te_shape den = te_shape (ia_den a)
      \<and> (\<forall>b<B. \<forall>h<H. \<forall>t<L.
           let pair = plane_pair (ia_read a) (ia_write a) (ia_gain a) (replicate (ia_levels a) (ia_level_width a)) (b * H + h) t in
           te_at den [b * H + h, t] = te_at (ia_den a) [b * H + h, t] + intra_sum (ia_window a) L t pair
           \<and> (\<forall>c<VALUE_WIDTH. te_at num [b * H + h, t, c] = te_at (ia_num a) [b * H + h, t, c]
                + intra_sum (ia_window a) L t (\<lambda>\<tau>. pair \<tau> * te_at (ia_v a) [b, \<tau>, h, c])))))"

definition intra_refuses_widths :: "intra_op \<Rightarrow> bool" where
  "intra_refuses_widths ext \<longleftrightarrow> (\<forall>a. te_shape (ia_v a) ! 3 \<noteq> VALUE_WIDTH \<longrightarrow> \<not> is_ok (ext a))"

section \<open>The accumulators are the attention of the reference\<close>

definition to_nt :: "real tens \<Rightarrow> ntensor" where "to_nt x = \<lparr>nt_shape = te_shape x, nt_at = te_at x\<rparr>"

definition wide :: "real tens \<Rightarrow> nat \<Rightarrow> ntensor" where
  "wide x w = \<lparr>nt_shape = te_shape x, nt_at = (\<lambda>idx. if last idx < w then te_at x idx else 0)\<rparr>"

definition exact_on :: "(real \<Rightarrow> real) \<Rightarrow> real tens \<Rightarrow> bool" where
  "exact_on narrow x \<longleftrightarrow> narrow 0 = 0 \<and> (\<forall>idx. narrow (te_at x idx) = te_at x idx)"

lemma wide_widened: "length xs = length vs \<Longrightarrow> widened_side vs (map to_nt xs) (map2 wide xs vs)"
  by (simp add: widened_side_def to_nt_def wide_def)

lemma plane_leaf_weight:
  assumes "plane_of narrow xs vs ws B T H p" "\<forall>x\<in>set xs. exact_on narrow x" "length xs = length ws" "length vs = length ws"
    and "b < B" "h < H" "t < T" "n < prod_list ws"
  shows "plane_leaf p ws (b * H + h) t n = leaf_weight (map2 wide xs vs) ws [b, t, h] n"
  unfolding plane_leaf_def leaf_weight_def
proof (rule prod.cong [OF refl])
  fix l assume "l \<in> {..<length ws}"
  then have l: "l < length ws" by simp
  have "0 \<notin> set ws" using assms(8) prod_list_zero_iff [of ws] by auto
  then have "0 < ws ! l" using nth_mem [OF l] by (metis gr0I)
  then have d: "leaf_digit ws l n < ws ! l" by (simp add: leaf_digit_def)
  have x: "exact_on narrow (xs ! l)" using assms(2,3) l by simp
  show "te_at p [b * H + h, t, sum_list (take l ws) + leaf_digit ws l n] = nt_at (map2 wide xs vs ! l) ([b, t, h] @ [leaf_digit ws l n])"
    using assms(1) x d l assms(3-7) by (simp add: plane_of_def wide_def exact_on_def)
qed

lemma pair_attention:
  assumes "\<And>n. n < prod_list ws \<Longrightarrow> plane_leaf r ws bh t n = leaf_weight reads ws [b, t, h] n"
    and "\<And>n \<tau>. n < prod_list ws \<Longrightarrow> \<tau> < Suc t \<Longrightarrow> plane_leaf w ws bh \<tau> n = leaf_weight writes ws [b, \<tau>, h] n"
    and "\<And>\<tau>. \<tau> < Suc t \<Longrightarrow> te_at g [bh, \<tau>] = nt_at gn [b, \<tau>, h]"
    and "\<And>\<tau>. \<tau> < Suc t \<Longrightarrow> x \<tau> = (if c < d_v then nt_at vn [b, \<tau>, h, c] else 1)"
  shows "(\<Sum>\<tau><Suc t. plane_pair r w g ws bh t \<tau> * x \<tau>) = attention vn reads writes gn ws NoDecay (\<lambda>_. 0) d_v b t h c"
proof -
  let ?R = "\<lambda>n. leaf_weight reads ws [b, t, h] n" and ?W = "\<lambda>\<tau> n. leaf_weight writes ws [b, \<tau>, h] n"
  let ?g = "\<lambda>\<tau>. nt_at gn [b, \<tau>, h]" and ?x = "\<lambda>\<tau>. if c < d_v then nt_at vn [b, \<tau>, h, c] else 1"
  have "(\<Sum>\<tau><Suc t. plane_pair r w g ws bh t \<tau> * x \<tau>) = (\<Sum>\<tau><Suc t. \<Sum>n<prod_list ws. ?R n * (?g \<tau> * ?W \<tau> n * ?x \<tau>))"
  proof (rule sum.cong [OF refl])
    fix \<tau> assume "\<tau> \<in> {..<Suc t}"
    then have \<tau>: "\<tau> < Suc t" by simp
    have "plane_pair r w g ws bh t \<tau> = ?g \<tau> * (\<Sum>n<prod_list ws. ?R n * ?W \<tau> n)"
      unfolding plane_pair_def using assms(1,2) \<tau> assms(3) [OF \<tau>] by simp
    then show "plane_pair r w g ws bh t \<tau> * x \<tau> = (\<Sum>n<prod_list ws. ?R n * (?g \<tau> * ?W \<tau> n * ?x \<tau>))"
      using assms(4) [OF \<tau>] by (simp only: sum_distrib_left sum_distrib_right mult_ac)
  qed
  also have "\<dots> = (\<Sum>n<prod_list ws. ?R n * (\<Sum>\<tau><Suc t. ?g \<tau> * ?W \<tau> n * ?x \<tau>))"
    unfolding sum_distrib_left by (rule sum.swap)
  also have "\<dots> = attention vn reads writes gn ws NoDecay (\<lambda>_. 0) d_v b t h c"
    by (simp only: attention_def carried_def gate_NoDecay prod.neutral_const mult_1 mult_zero_right add_0_left)
  finally show ?thesis .
qed

section \<open>The call, step by step\<close>

text \<open>Support words that vote every stored amplitude of the levels they certify.\<close>

definition support_given :: "nat \<Rightarrow> nat \<Rightarrow> nat \<Rightarrow> nat list \<Rightarrow> nat list \<Rightarrow> real tens list \<Rightarrow> 32 word tens \<Rightarrow> bool" where
  "support_given B T H vs ws xs s \<longleftrightarrow> (\<forall>b h t l d. b < B \<longrightarrow> h < H \<longrightarrow> t < T \<longrightarrow> l < length ws \<longrightarrow> d < vs ! l
     \<longrightarrow> te_at (xs ! l) [b, t, h, d] \<noteq> 0 \<longrightarrow> bit (te_at s [b * H + h, t div 32, sum_list (take l ws) + d]) (t mod 32))"

lemma support_covers:
  assumes "support_given B T H vs ws xs s" "plane_of narrow xs vs ws B T H p" "\<forall>x\<in>set xs. exact_on narrow x" "length xs = length ws" "0 < H" "ws \<noteq> []"
  shows "words_cover (B * H) T ws p (\<lambda>bh r w. te_at s [bh, w, r])"
  unfolding words_cover_def
proof (intro allI impI)
  fix bh t l d
  assume r: "bh < B * H" "t < T" "l < length ws" "d < ws ! l" and ne: "te_at p [bh, t, sum_list (take l ws) + d] \<noteq> 0"
  have bh: "bh div H < B" "bh mod H < H" "bh div H * H + bh mod H = bh" using r(1) assms(5) by (simp_all add: less_mult_imp_div_less)
  have x: "exact_on narrow (xs ! l)" using assms(3,4) r(3) by simp
  have "te_at p [bh, t, sum_list (take l ws) + d] = (if d < vs ! l then narrow (te_at (xs ! l) [bh div H, t, bh mod H, d]) else narrow 0)"
    using assms(2) bh r unfolding plane_of_def by metis
  then have "d < vs ! l" "te_at (xs ! l) [bh div H, t, bh mod H, d] \<noteq> 0" using x ne by (auto simp: exact_on_def split: if_splits)
  then show "bit (te_at s [bh, t div 32, sum_list (take l ws) + d]) (t mod 32)"
    using assms(1) bh r unfolding support_given_def by metis
qed

lemma rmap_last_dim:
  assumes "length xs = length vs" "\<And>l. l < length vs \<Longrightarrow> te_shape (xs ! l) = pre @ [vs ! l]"
  shows "rmap last_dim xs = Inr vs"
  using assms
proof (induction xs arbitrary: vs)
  case (Cons x xs)
  then obtain w us where vs: "vs = w # us" by (cases vs) auto
  have "last_dim x = Inr w" using Cons.prems(2) [of 0] by (simp add: vs last_dim_def)
  moreover have "rmap last_dim xs = Inr us" using Cons.prems vs by (intro Cons.IH) force+
  ultimately show ?case by (simp add: vs)
qed simp

lemma value_width_shipped:
  assumes "padded_value_width SHIPPED_DV d_v = Inr DV"
  shows "DV \<in> set SHIPPED_DV" "d_v \<le> DV"
  using assms by (auto simp: SHIPPED_DV_def split: if_splits)

lemma pack_operands_ok:
  assumes len: "length reads = length vs" "length writes = length vs" "vs \<noteq> []" "\<forall>w\<in>set vs. 0 < w"
    and r: "\<And>l. l < length vs \<Longrightarrow> te_shape (reads ! l) = [B, T, H, vs ! l]"
    and w: "\<And>l. l < length vs \<Longrightarrow> te_shape (writes ! l) = [B, T, H, vs ! l]"
    and g: "te_shape g = [B, T, H]" and v: "te_shape v = [B, T, H, d_v]" and pos: "0 < B" "0 < T" "0 < H"
    and dv: "padded_value_width SHIPPED_DV d_v = Inr DV" and ex: "exact_on narrow g" "exact_on narrow v"
  shows "\<exists>po. pack_operands narrow reads writes g v = Inr po
    \<and> plane_of narrow reads vs (map pad_width vs) B T H (po_read po) \<and> plane_of narrow writes vs (map pad_width vs) B T H (po_write po)
    \<and> te_shape (po_gain po) = [B * H, T] \<and> te_dtype (po_gain po) = ''bfloat16''
    \<and> (\<forall>b h t. h < H \<longrightarrow> te_at (po_gain po) [b * H + h, t] = te_at g [b, t, h])
    \<and> te_shape (po_v po) = [B, T, H, DV] \<and> te_shape (po_v_bh po) = [B * H, T, DV] \<and> te_dtype (po_v_bh po) = ''bfloat16''
    \<and> (\<forall>b h t c. c < d_v \<longrightarrow> te_at (po_v po) [b, t, h, c] = te_at v [b, t, h, c])
    \<and> (\<forall>b h t c. b < B \<longrightarrow> h < H \<longrightarrow> t < T \<longrightarrow> c < d_v \<longrightarrow> te_at (po_v_bh po) [b * H + h, t, c] = te_at v [b, t, h, c])"
proof -
  let ?ws = "map pad_width vs"
  have le: "vs ! l \<le> ?ws ! l" if "l < length vs" for l using that padded_width_ge by simp
  have d: "d_v \<le> DV" by (rule value_width_shipped [OF dv])
  have vs: "rmap last_dim reads = Inr vs" using rmap_last_dim [of reads vs "[B, T, H]"] len(1) r by simp
  have last: "last_dim v = Inr d_v" by (simp add: last_dim_def v)
  have shape: "padded_shape_of vs d_v SHIPPED_DV = Inr \<lparr>ps_widths = vs, ps_padded_widths = ?ws, ps_d_v = d_v, ps_DV = DV\<rparr>"
    by (simp add: padded_shape_of_def padded_widths_ok [OF len(4)] dv)
  have ne: "reads \<noteq> []" "writes \<noteq> []" using len by auto
  obtain pr where pr: "rbind (pad_levels reads ?ws) (carry_pack_side narrow) = Inr pr" "plane_of narrow reads vs ?ws B T H pr"
    using pad_pack_ok [of reads ?ws B T H vs narrow] ne(1) len r le pos by auto
  obtain pw where pw: "rbind (pad_levels writes ?ws) (carry_pack_side narrow) = Inr pw" "plane_of narrow writes vs ?ws B T H pw"
    using pad_pack_ok [of writes ?ws B T H vs narrow] ne(2) len w le pos by auto
  obtain pg where pg: "pack_gain narrow g = Inr pg" "te_shape pg = [B * H, T]" "te_dtype pg = ''bfloat16''"
    "\<forall>b h t. h < H \<longrightarrow> te_at pg [b * H + h, t] = narrow (te_at g [b, t, h])"
    using pack_gain_ok [OF g pos(1,3)] by blast
  have "te_shape (cast_bf16 narrow v) = [B, T, H] @ [d_v]" by (simp add: cast_bf16_def v)
  from pad_last_ok [OF this d] obtain pv where pv: "pad_last (cast_bf16 narrow v) DV = Inr pv" "te_shape pv = [B, T, H, DV]" "te_dtype pv = ''bfloat16''"
    "\<And>idx. last idx < DV \<Longrightarrow> te_at pv idx = (if last idx < d_v then narrow (te_at v idx) else 0)"
    by (auto simp: cast_bf16_def)
  obtain ph where ph: "value_by_head pv = Inr ph" "te_shape ph = [B * H, T, DV]" "te_dtype ph = ''bfloat16''"
    "\<forall>b h t c. b < B \<longrightarrow> h < H \<longrightarrow> t < T \<longrightarrow> c < DV \<longrightarrow> te_at ph [b * H + h, t, c] = te_at pv [b, t, h, c]"
    using value_by_head_ok [OF pv(2)] pv(3) by auto
  have "pack_operands narrow reads writes g v = Inr \<lparr>po_read = pr, po_write = pw, po_gain = pg, po_v_bh = ph, po_v = pv\<rparr>"
    unfolding pack_operands_def vs last shape rbind.simps padded_shape.simps pr(1) pw(1) pg(1) pv(1) ph(1) by (rule refl)
  then show ?thesis using pr(2) pw(2) pg pv ph d ex
    by (intro exI [of _ "\<lparr>po_read = pr, po_write = pw, po_gain = pg, po_v_bh = ph, po_v = pv\<rparr>"]) (simp add: exact_on_def)
qed

text \<open>
  A lawful prefill: operands of one call, levels that pad to the one width the intra kernel ships at
  this depth, whole windows, a served value width, one lawful mode per level, an addressing vector in
  the reader's order, support words that certify the amplitudes, operands already stored in bf16, and
  an environment that does what it documents.
\<close>

definition prefill_ready ::
    "prefill_env \<Rightarrow> real tens list \<Rightarrow> real tens list \<Rightarrow> real tens \<Rightarrow> real tens \<Rightarrow> nat list \<Rightarrow> int list \<Rightarrow> 32 word tens \<Rightarrow> 32 word tens
     \<Rightarrow> nat \<Rightarrow> nat \<Rightarrow> nat \<Rightarrow> nat \<Rightarrow> bool" where
  "prefill_ready env reads writes g v vs modes sread swrite B T H d_v \<longleftrightarrow>
     (let ws = map pad_width vs in
      vs \<noteq> [] \<and> (\<forall>w\<in>set vs. 0 < w) \<and> 0 < B \<and> 0 < T \<and> 0 < H \<and> T mod CARRY_WINDOW = 0
      \<and> length reads = length vs \<and> (\<forall>l<length vs. te_shape (reads ! l) = [B, T, H, vs ! l])
      \<and> length writes = length vs \<and> (\<forall>l<length vs. te_shape (writes ! l) = [B, T, H, vs ! l])
      \<and> te_shape g = [B, T, H] \<and> te_shape v = [B, T, H, d_v]
      \<and> (\<forall>x\<in>set (reads @ writes @ [g, v]). exact_on (pe_narrow env) x)
      \<and> (\<exists>w. (\<forall>x\<in>set ws. x = w) \<and> shipped_level_width (pe_arms env) (length vs) CARRY_WINDOW = Inr w)
      \<and> (\<exists>DV packed gf. padded_value_width SHIPPED_DV d_v = Inr DV \<and> pack_modes modes = Inr packed
           \<and> geometry (pe_geometry env) ws packed (call_box DV) 1 1 DV = Inr gf)
      \<and> length modes = length vs
      \<and> support_given B T H vs ws reads sread \<and> support_given B T H vs ws writes swrite
      \<and> carry_documented (pe_carry env) \<and> pass_ok (pe_liveness env) \<and> stored_bits (pe_bits env))"

text \<open>Up to the intra launch: the packed operands, the carry's answer and what is left to do.\<close>

definition intra_call :: "packed_operands \<Rightarrow> nat list \<Rightarrow> 32 word tens \<Rightarrow> 32 word tens \<Rightarrow> nat \<Rightarrow> real tens \<Rightarrow> real tens \<Rightarrow> intra_args" where
  "intra_call po ws sread swrite packed num den = \<lparr>ia_read = po_read po, ia_write = po_write po, ia_gain = po_gain po, ia_v = po_v po, ia_sread = sread,
     ia_swrite = swrite, ia_num = num, ia_den = den, ia_levels = length ws, ia_level_width = ws ! 0, ia_modes = packed, ia_window = CARRY_WINDOW\<rparr>"

lemma prefill_until_intra:
  assumes ready: "prefill_ready env reads writes g v vs modes sread swrite B T H d_v"
  defines "ws \<equiv> map pad_width vs"
  shows "\<exists>DV po packed a num den. padded_value_width SHIPPED_DV d_v = Inr DV
    \<and> plane_of (pe_narrow env) reads vs ws B T H (po_read po) \<and> plane_of (pe_narrow env) writes vs ws B T H (po_write po)
    \<and> te_shape (po_gain po) = [B * H, T] \<and> (\<forall>b h t. h < H \<longrightarrow> te_at (po_gain po) [b * H + h, t] = te_at g [b, t, h])
    \<and> te_shape (po_v po) = [B, T, H, DV] \<and> (\<forall>b h t c. c < d_v \<longrightarrow> te_at (po_v po) [b, t, h, c] = te_at v [b, t, h, c])
    \<and> (\<forall>b h t c. b < B \<longrightarrow> h < H \<longrightarrow> t < T \<longrightarrow> c < d_v \<longrightarrow> te_at (po_v_bh po) [b * H + h, t, c] = te_at v [b, t, h, c])
    \<and> pe_carry env a = Inr (num, den, None) \<and> te_shape num = [B * H, T, DV] \<and> te_shape den = [B * H, T]
    \<and> (\<forall>bh t. bh < B * H \<longrightarrow> t < T \<longrightarrow> te_at den [bh, t] = inter_sum CARRY_WINDOW T t (plane_pair (po_read po) (po_write po) (po_gain po) ws bh t))
    \<and> (\<forall>bh t c. bh < B * H \<longrightarrow> t < T \<longrightarrow> c < DV \<longrightarrow> te_at num [bh, t, c]
        = inter_sum CARRY_WINDOW T t (\<lambda>\<tau>. plane_pair (po_read po) (po_write po) (po_gain po) ws bh t \<tau> * te_at (po_v_bh po) [bh, \<tau>, c]))
    \<and> (\<forall>carry. prefill (env\<lparr>pe_carry := carry\<rparr>) reads writes g v ws modes sread swrite None None None None
        = rbind (carry a) (\<lambda>(num, den, state). rbind (pe_intra env (intra_call po ws sread swrite packed num den))
            (\<lambda>(num, den). Inr (slice_last num d_v, den, state))))"
proof -
  note R = ready [unfolded prefill_ready_def Let_def, folded ws_def]
  from R have vs: "vs \<noteq> []" "\<forall>w\<in>set vs. 0 < w" and pos: "0 < B" "0 < T" "0 < H" and win: "T mod CARRY_WINDOW = 0"
    and rl: "length reads = length vs" "\<And>l. l < length vs \<Longrightarrow> te_shape (reads ! l) = [B, T, H, vs ! l]"
    and wl: "length writes = length vs" "\<And>l. l < length vs \<Longrightarrow> te_shape (writes ! l) = [B, T, H, vs ! l]"
    and gs: "te_shape g = [B, T, H]" and vsh: "te_shape v = [B, T, H, d_v]"
    and ml: "length modes = length vs"
    and sup: "support_given B T H vs ws reads sread" "support_given B T H vs ws writes swrite"
    and kernels: "carry_documented (pe_carry env)" "pass_ok (pe_liveness env)" "stored_bits (pe_bits env)"
    by blast+
  have exact: "\<forall>x\<in>set reads. exact_on (pe_narrow env) x" "\<forall>x\<in>set writes. exact_on (pe_narrow env) x"
    "exact_on (pe_narrow env) g" "exact_on (pe_narrow env) v"
    using R unfolding set_append by (blast intro: list.set_intros)+
  obtain w0 where w0: "\<forall>x\<in>set ws. x = w0" "shipped_level_width (pe_arms env) (length vs) CARRY_WINDOW = Inr w0" using R by blast
  obtain DV packed gf where dv: "padded_value_width SHIPPED_DV d_v = Inr DV" and packed: "pack_modes modes = Inr packed"
    and gf: "geometry (pe_geometry env) ws packed (call_box DV) 1 1 DV = Inr gf" using R by blast
  have DV: "DV \<in> set SHIPPED_DV" "d_v \<le> DV" using value_width_shipped [OF dv] .
  have law: "lawful_ws ws" unfolding ws_def by (rule lawful_ws_pad [OF vs(1)])
  have len: "length ws = length vs" by (simp add: ws_def)
  have w00: "ws ! 0 = w0" using w0(1) vs(1) len by (metis length_greater_0_conv nth_mem)
  have rep: "replicate (length ws) (ws ! 0) = ws" using w0(1) w00 by (intro replicate_eqI [symmetric]) auto
  then have rep': "replicate (length vs) (ws ! 0) = ws" by (simp only: len)
  have wne: "ws \<noteq> []" using vs(1) len by auto
  obtain po where po: "pack_operands (pe_narrow env) reads writes g v = Inr po"
    and pr: "plane_of (pe_narrow env) reads vs ws B T H (po_read po)" and pw: "plane_of (pe_narrow env) writes vs ws B T H (po_write po)"
    and pg: "te_shape (po_gain po) = [B * H, T]" "te_dtype (po_gain po) = ''bfloat16''"
      "\<And>b h t. h < H \<Longrightarrow> te_at (po_gain po) [b * H + h, t] = te_at g [b, t, h]"
    and pv: "te_shape (po_v po) = [B, T, H, DV]" "\<And>b h t c. c < d_v \<Longrightarrow> te_at (po_v po) [b, t, h, c] = te_at v [b, t, h, c]"
    and ph: "te_shape (po_v_bh po) = [B * H, T, DV]" "te_dtype (po_v_bh po) = ''bfloat16''"
      "\<And>b h t c. b < B \<Longrightarrow> h < H \<Longrightarrow> t < T \<Longrightarrow> c < d_v \<Longrightarrow> te_at (po_v_bh po) [b * H + h, t, c] = te_at v [b, t, h, c]"
    using pack_operands_ok [OF rl(1) wl(1) vs rl(2) wl(2) gs vsh pos dv exact(3,4), folded ws_def] by blast
  have shapes: "te_shape (po_read po) = [B * H, T, sum_list ws]" "te_dtype (po_read po) = ''bfloat16''"
    "te_shape (po_write po) = [B * H, T, sum_list ws]" "te_dtype (po_write po) = ''bfloat16''"
    using pr pw by (simp_all add: plane_of_def)
  let ?f = "call_format ws DV (B * H)"
  note f = call_format_ok [OF law DV(1), of "B * H"]
  note blk = call_block_ok(1,2) [OF law DV(1) gf, of "B * H"]
  obtain carve where carve: "carve_order (call_block ws DV gf packed) = Inr carve" using call_block_ok(3) [OF law DV(1) gf] by blast
  obtain words where words: "prefill_liveness env (po_read po) (po_write po) ?f = Inr words" "te_dtype words = ''int32''"
    "te_shape words = [B * H, 2, sum_list ws, token_words T]"
    "words_cover (B * H) T ws (po_read po) (\<lambda>bh r w. te_at words [bh, 0, r, w])"
    "words_cover (B * H) T ws (po_write po) (\<lambda>bh r w. te_at words [bh, 1, r, w])"
    using prefill_liveness_ok [OF kernels(2,3) law pos(2) shapes] by blast
  let ?rp = "\<lparr>rp_read = po_read po, rp_write = po_write po, rp_gain = po_gain po\<rparr>"
  let ?act = "conservative_activity ?f (B * H)"
  have "layout_of ?f (int T) = Inr \<lparr>ly_D = length ws, ly_B = ws, ly_L = T\<rparr>" using pos(2) by (simp add: layout_of_def make_layout_def call_format_def)
  then have ops: "refuse_operands (Some ?rp) (po_v_bh po) ?f (Some words) ?act = Inr (B * H, T)"
    using shapes pg ph words(2,3)
    by (simp add: refuse_operands_def refuse_bf16_def call_format_def conservative_activity_def layout_rows_def layout_words_def)
  have chk: "carry_checks (Some ?rp) (po_v_bh po) (Some ?f) (Some (call_block ws DV gf packed)) (Some words) ?act (Some shipped_launch) = Inr (B * H, T)"
    unfolding carry_checks_def f(2) option.sel blk(2) rbind.simps by (simp add: refuse_launch_def ops)
  define a where "a = \<lparr>ca_routes = ?rp, ca_v = po_v_bh po, ca_num = zeros [B * H, T, DV] ''float32'', ca_den = zeros [B * H, T] ''float32'',
       ca_B = ws, ca_DV = DV, ca_page_bits = PAGE_RECTANGLE_BITS, ca_warps = SHIPPED_WARPS_PER_CTA, ca_carve = carve,
       ca_schedule = [0], ca_words = words, ca_activity = ?act, ca_state_in = None, ca_state_out = None, ca_page_table = None\<rparr>"
  have fwd: "carry_forward carry (Some ?rp) (po_v_bh po) (Some ?f) (Some (call_block ws DV gf packed)) (Some words) ?act (Some shipped_launch)
      None None None None = carry a" for carry
    unfolding carry_forward_def chk a_def
    by (simp add: refuse_state_def carve select_schedule_def make_schedule_def schedule_flat_def ORDER_POLICIES_def call_format_def shipped_launch_def)
  have a_ok: "carry_call_ok a (B * H) T"
    using shapes pg(1) ph(1) words(4,5) by (simp add: carry_call_ok_def a_def zeros_def conservative_activity_def)
  obtain num den where cr: "pe_carry env a = Inr (num, den, None)" "te_shape num = [B * H, T, DV]" "te_shape den = [B * H, T]"
    and cd: "\<And>bh t. bh < B * H \<Longrightarrow> t < T \<Longrightarrow> te_at den [bh, t] = inter_sum CARRY_WINDOW T t (plane_pair (po_read po) (po_write po) (po_gain po) ws bh t)"
    and cn: "\<And>bh t c. bh < B * H \<Longrightarrow> t < T \<Longrightarrow> c < DV \<Longrightarrow> te_at num [bh, t, c]
        = inter_sum CARRY_WINDOW T t (\<lambda>\<tau>. plane_pair (po_read po) (po_write po) (po_gain po) ws bh t \<tau> * te_at (po_v_bh po) [bh, \<tau>, c])"
    using kernels(1) [unfolded carry_documented_def, rule_format, OF a_ok]
    by (auto simp: a_def zeros_def Let_def)
  have guards: "prefill_guards (pe_arms env) reads ws modes = Inr ()"
  proof -
    have "remdups (replicate (Suc n) w0) = [w0]" for n by (induction n) simp_all
    from this [of "length ws - 1"] have "remdups ws = [w0]" using rep w00 wne by simp
    moreover have "reads \<noteq> []" using rl(1) vs(1) by auto
    moreover from this have "te_shape (hd reads) = [B, T, H, vs ! 0]" using rl(2) [of 0] vs(1) by (simp add: hd_conv_nth)
    ultimately show ?thesis using ml len w0(2) w00 win by (simp add: prefill_guards_def Let_def intra_level_width_def)
  qed
  have live: "prefill_liveness (env\<lparr>pe_carry := carry\<rparr>) = prefill_liveness env" for carry
    by (intro ext) (simp add: prefill_liveness_def)
  have "prefill (env\<lparr>pe_carry := carry\<rparr>) reads writes g v ws modes sread swrite None None None None
      = rbind (carry a) (\<lambda>(num, den, state). rbind (pe_intra env (intra_call po ws sread swrite packed num den))
          (\<lambda>(num, den). Inr (slice_last num d_v, den, state)))" for carry
    unfolding prefill_def live using guards po f(1) blk(1) fwd
    by (simp add: last_dim_def vsh ph(1) shipped_launch_made packed words(1) Let_def intra_call_def)
  then have run: "\<forall>carry. prefill (env\<lparr>pe_carry := carry\<rparr>) reads writes g v ws modes sread swrite None None None None
      = rbind (carry a) (\<lambda>(num, den, state). rbind (pe_intra env (intra_call po ws sread swrite packed num den))
          (\<lambda>(num, den). Inr (slice_last num d_v, den, state)))" by blast
  show ?thesis using dv pr pw pg(1,3) pv ph(3) cr cd cn run by blast
qed

lemma ready_exact:
  assumes "prefill_ready env reads writes g v vs modes sread swrite B T H d_v"
  shows "\<forall>x\<in>set reads. exact_on (pe_narrow env) x" "\<forall>x\<in>set writes. exact_on (pe_narrow env) x"
    "length reads = length vs" "length writes = length vs" "vs \<noteq> []" "0 < H" "T mod CARRY_WINDOW = 0"
    "support_given B T H vs (map pad_width vs) reads sread" "support_given B T H vs (map pad_width vs) writes swrite"
    "replicate (length vs) (map pad_width vs ! 0) = map pad_width vs"
proof -
  note R = assms [unfolded prefill_ready_def Let_def]
  then show ne: "vs \<noteq> []" and "length reads = length vs" "length writes = length vs" "0 < H" "T mod CARRY_WINDOW = 0"
    "support_given B T H vs (map pad_width vs) reads sread" "support_given B T H vs (map pad_width vs) writes swrite" by blast+
  show "\<forall>x\<in>set reads. exact_on (pe_narrow env) x" "\<forall>x\<in>set writes. exact_on (pe_narrow env) x"
    using R unfolding set_append by blast+
  obtain w0 where w0: "\<forall>x\<in>set (map pad_width vs). x = w0" using R by blast
  then have "map pad_width vs ! 0 = w0" using ne by (metis length_greater_0_conv length_map nth_mem)
  then show "replicate (length vs) (map pad_width vs ! 0) = map pad_width vs" using w0 by (intro replicate_eqI [symmetric]) auto
qed

lemma prefill_runs:
  assumes ready: "prefill_ready env reads writes g v vs modes sread swrite B T H d_v"
    and intra: "intra_documented (pe_intra env)" and width: "32 < d_v" "d_v \<le> VALUE_WIDTH"
  defines "ws \<equiv> map pad_width vs"
  shows "\<exists>num den. prefill env reads writes g v ws modes sread swrite None None None None = Inr (num, den, None)
    \<and> te_shape num = [B * H, T, d_v] \<and> te_shape den = [B * H, T]
    \<and> (\<forall>b<B. \<forall>h<H. \<forall>t<T.
         te_at den [b * H + h, t] = attention (to_nt v) (map2 wide reads vs) (map2 wide writes vs) (to_nt g) ws NoDecay (\<lambda>_. 0) d_v b t h d_v
         \<and> (\<forall>c<d_v. te_at num [b * H + h, t, c] = attention (to_nt v) (map2 wide reads vs) (map2 wide writes vs) (to_nt g) ws NoDecay (\<lambda>_. 0) d_v b t h c))"
proof -
  note x = ready_exact [OF ready, folded ws_def]
  have len: "length ws = length vs" by (simp add: ws_def)
  have wne: "ws \<noteq> []" using x(5) len by auto
  obtain DV po packed a num den where dv: "padded_value_width SHIPPED_DV d_v = Inr DV"
    and pr: "plane_of (pe_narrow env) reads vs ws B T H (po_read po)" and pw: "plane_of (pe_narrow env) writes vs ws B T H (po_write po)"
    and pg: "te_shape (po_gain po) = [B * H, T]" "\<And>b h t. h < H \<Longrightarrow> te_at (po_gain po) [b * H + h, t] = te_at g [b, t, h]"
    and pv: "te_shape (po_v po) = [B, T, H, DV]" "\<And>b h t c. c < d_v \<Longrightarrow> te_at (po_v po) [b, t, h, c] = te_at v [b, t, h, c]"
    and ph: "\<And>b h t c. b < B \<Longrightarrow> h < H \<Longrightarrow> t < T \<Longrightarrow> c < d_v \<Longrightarrow> te_at (po_v_bh po) [b * H + h, t, c] = te_at v [b, t, h, c]"
    and cr: "te_shape num = [B * H, T, DV]" "te_shape den = [B * H, T]"
    and cd: "\<And>bh t. bh < B * H \<Longrightarrow> t < T \<Longrightarrow> te_at den [bh, t] = inter_sum CARRY_WINDOW T t (plane_pair (po_read po) (po_write po) (po_gain po) ws bh t)"
    and cn: "\<And>bh t c. bh < B * H \<Longrightarrow> t < T \<Longrightarrow> c < DV \<Longrightarrow> te_at num [bh, t, c]
        = inter_sum CARRY_WINDOW T t (\<lambda>\<tau>. plane_pair (po_read po) (po_write po) (po_gain po) ws bh t \<tau> * te_at (po_v_bh po) [bh, \<tau>, c])"
    and crun: "pe_carry env a = Inr (num, den, None)"
    and all: "\<forall>carry. prefill (env\<lparr>pe_carry := carry\<rparr>) reads writes g v ws modes sread swrite None None None None
        = rbind (carry a) (\<lambda>(num, den, state). rbind (pe_intra env (intra_call po ws sread swrite packed num den))
            (\<lambda>(num, den). Inr (slice_last num d_v, den, state)))"
    by (insert prefill_until_intra [OF ready, folded ws_def], elim exE conjE, rule that) (assumption | simp)+
  have run: "prefill env reads writes g v ws modes sread swrite None None None None
        = rbind (pe_intra env (intra_call po ws sread swrite packed num den)) (\<lambda>(num, den). Inr (slice_last num d_v, den, None))"
    using all [rule_format, of "pe_carry env"] crun by simp
  have DV: "DV = VALUE_WIDTH" using dv width by (auto simp: SHIPPED_DV_def VALUE_WIDTH_def split: if_splits)
  define ia where "ia = intra_call po ws sread swrite packed num den"
  have ia_ok: "intra_call_ok ia B T H"
    using pr pw pg(1) pv(1) cr x(7) support_covers [OF x(8) pr x(1) _ x(6) wne] support_covers [OF x(9) pw x(2) _ x(6) wne] x(3,4) len
    by (simp add: intra_call_ok_def ia_def intra_call_def plane_of_def x(10) Let_def CARRY_WINDOW_def DV)
  obtain num' den' where ir: "pe_intra env ia = Inr (num', den')" "te_shape num' = [B * H, T, DV]" "te_shape den' = [B * H, T]"
    and id: "\<And>b h t. b < B \<Longrightarrow> h < H \<Longrightarrow> t < T \<Longrightarrow> te_at den' [b * H + h, t] = te_at den [b * H + h, t]
        + intra_sum CARRY_WINDOW T t (plane_pair (po_read po) (po_write po) (po_gain po) ws (b * H + h) t)"
    and inn: "\<And>b h t c. b < B \<Longrightarrow> h < H \<Longrightarrow> t < T \<Longrightarrow> c < DV \<Longrightarrow> te_at num' [b * H + h, t, c] = te_at num [b * H + h, t, c]
        + intra_sum CARRY_WINDOW T t (\<lambda>\<tau>. plane_pair (po_read po) (po_write po) (po_gain po) ws (b * H + h) t \<tau> * te_at (po_v po) [b, \<tau>, h, c])"
    using intra [unfolded intra_documented_def, rule_format, OF ia_ok] cr
    by (auto simp: ia_def intra_call_def Let_def len x(10) DV)
  let ?A = "attention (to_nt v) (map2 wide reads vs) (map2 wide writes vs) (to_nt g) ws NoDecay (\<lambda>_. 0) d_v"
  let ?pair = "\<lambda>b h t. plane_pair (po_read po) (po_write po) (po_gain po) ws (b * H + h) t"
  have leaf: "plane_leaf (po_read po) ws (b * H + h) t n = leaf_weight (map2 wide reads vs) ws [b, t, h] n"
    "plane_leaf (po_write po) ws (b * H + h) t n = leaf_weight (map2 wide writes vs) ws [b, t, h] n"
    if "b < B" "h < H" "t < T" "n < prod_list ws" for b h t n
    by (rule plane_leaf_weight [OF pr x(1) _ _ that], simp_all only: x(3) len)
      (rule plane_leaf_weight [OF pw x(2) _ _ that], simp_all only: x(4) len)
  have att: "(\<Sum>\<tau><Suc t. ?pair b h t \<tau> * x \<tau>) = ?A b t h c"
    if r: "b < B" "h < H" "t < T" and xx: "\<And>\<tau>. \<tau> < Suc t \<Longrightarrow> x \<tau> = (if c < d_v then te_at v [b, \<tau>, h, c] else 1)" for b h t c x
  proof (rule pair_attention)
    show "plane_leaf (po_read po) ws (b * H + h) t n = leaf_weight (map2 wide reads vs) ws [b, t, h] n" if "n < prod_list ws" for n
      by (rule leaf(1) [OF r that])
    show "plane_leaf (po_write po) ws (b * H + h) \<tau> n = leaf_weight (map2 wide writes vs) ws [b, \<tau>, h] n" if "n < prod_list ws" "\<tau> < Suc t" for n \<tau>
      by (rule leaf(2) [OF r(1,2) _ that(1)]) (use that(2) r(3) in simp)
    show "te_at (po_gain po) [b * H + h, \<tau>] = nt_at (to_nt g) [b, \<tau>, h]" for \<tau> using pg(2) [OF r(2)] by (simp add: to_nt_def)
    show "x \<tau> = (if c < d_v then nt_at (to_nt v) [b, \<tau>, h, c] else 1)" if "\<tau> < Suc t" for \<tau> using xx [OF that] by (simp add: to_nt_def)
  qed
  have "te_at den' [b * H + h, t] = ?A b t h d_v" if r: "b < B" "h < H" "t < T" for b h t
    using id [OF r] cd [OF head_less [OF r(1,2)] r(3)] window_decomposition [OF r(3), of CARRY_WINDOW "?pair b h t"] att [OF r, of "\<lambda>_. 1" d_v]
    by simp
  moreover have "te_at num' [b * H + h, t, c] = ?A b t h c" if r: "b < B" "h < H" "t < T" and c: "c < d_v" for b h t c
  proof -
    have same: "intra_sum CARRY_WINDOW T t (\<lambda>\<tau>. ?pair b h t \<tau> * te_at (po_v po) [b, \<tau>, h, c])
        = intra_sum CARRY_WINDOW T t (\<lambda>\<tau>. ?pair b h t \<tau> * te_at v [b, \<tau>, h, c])"
      "inter_sum CARRY_WINDOW T t (\<lambda>\<tau>. ?pair b h t \<tau> * te_at (po_v_bh po) [b * H + h, \<tau>, c])
        = inter_sum CARRY_WINDOW T t (\<lambda>\<tau>. ?pair b h t \<tau> * te_at v [b, \<tau>, h, c])"
      unfolding intra_sum_def inter_sum_def using pv(2) ph r c by (auto intro!: sum.cong)
    have "c < DV" using c width(2) DV by simp
    then show ?thesis
      using inn [OF r] cn [OF head_less [OF r(1,2)] r(3)] window_decomposition [OF r(3), of CARRY_WINDOW "\<lambda>\<tau>. ?pair b h t \<tau> * te_at v [b, \<tau>, h, c]"]
        att [OF r, of "\<lambda>\<tau>. te_at v [b, \<tau>, h, c]" c] c
      by (simp add: same)
  qed
  ultimately show ?thesis using run ir width(2) DV
    by (intro exI [of _ "slice_last num' d_v"] exI [of _ den']) (simp add: slice_last_def ia_def)
qed

end
