(* ===== verification/Rola_Intra_Props.thy ===== *)
theory Rola_Intra_Props
  imports Rola_Prefill_Props
begin

text \<open>
  The intra surface, proved: the mode word keeps every level's mode, and the support words of a plane
  are exact, so the words a drawn plane gets certify it.
\<close>

section \<open>The mode word\<close>

definition lawful_modes :: "int list \<Rightarrow> bool" where
  "lawful_modes modes \<longleftrightarrow> (\<forall>m\<in>set modes. 0 \<le> m \<and> m < 4)"

lemma mode_lawful: "m \<in> {DENSE_BOTH, READ_SPARSE, WRITE_SPARSE, BOTH_SPARSE} \<longleftrightarrow> 0 \<le> m \<and> m < 4"
  by (auto simp: DENSE_BOTH_def READ_SPARSE_def WRITE_SPARSE_def BOTH_SPARSE_def)

lemma or_push_mode: "packed < 2 ^ n \<Longrightarrow> packed OR push_bit n m = packed + m * 2 ^ n" for packed m :: nat
proof -
  assume "packed < 2 ^ n"
  then have "take_bit n packed = packed" by (simp add: take_bit_nat_eq_self_iff)
  then have "\<not> bit packed k \<or> \<not> bit (push_bit n m) k" for k by (metis bit_push_bit_iff bit_take_bit_iff linorder_not_less)
  then have "packed AND push_bit n m = 0" by (intro bit_eqI) (simp only: bit_and_iff bit_0_eq bot_fun_def bot_bool_def, blast)
  then have "packed + push_bit n m = packed OR push_bit n m" by (rule disjunctive_add_eq_or)
  then show ?thesis by (simp add: push_bit_eq_mult)
qed

lemma pack_modes_from_ok:
  "packed < 4 ^ level \<Longrightarrow> pack_modes_from level modes packed
     = (if lawful_modes modes then Inr (packed + (\<Sum>i<length modes. nat (modes ! i) * 4 ^ (level + i))) else Inl (ValueError ''unknown support mode''))"
proof (induction modes arbitrary: level packed)
  case (Cons m ms)
  show ?case
  proof (cases "0 \<le> m \<and> m < 4")
    case True
    have four: "(4 :: nat) ^ level = 2 ^ (2 * level)" by (simp add: power_mult)
    have step: "packed OR push_bit (2 * level) (nat m) = packed + nat m * 4 ^ level" using or_push_mode Cons.prems unfolding four by blast
    have "nat m * 4 ^ level \<le> 3 * 4 ^ level" using True by (intro mult_right_mono) auto
    then have "packed + nat m * 4 ^ level < 4 ^ Suc level" using Cons.prems unfolding power_Suc by linarith
    from Cons.IH [OF this] show ?thesis
      using True mode_lawful [of m] by (simp add: step lawful_modes_def sum.lessThan_Suc_shift add.assoc del: sum.lessThan_Suc)
  qed (use mode_lawful [of m] in \<open>auto simp: lawful_modes_def\<close>)
qed (simp add: lawful_modes_def)

lemma base_four_digit:
  "(\<And>i. i < n \<Longrightarrow> f i < 4) \<Longrightarrow> (\<Sum>i<n. f i * 4 ^ i) < 4 ^ n \<and> (\<forall>l<n. (\<Sum>i<n. f i * 4 ^ i) div 4 ^ l mod 4 = (f l :: nat))"
proof (induction n)
  case (Suc n)
  then have ih: "(\<Sum>i<n. f i * 4 ^ i) < 4 ^ n" "\<forall>l<n. (\<Sum>i<n. f i * 4 ^ i) div 4 ^ l mod 4 = f l" and fn: "f n < 4" by auto
  have "f n * 4 ^ n \<le> 3 * 4 ^ n" using fn by (intro mult_right_mono) auto
  then have bound: "(\<Sum>i<Suc n. f i * 4 ^ i) < 4 ^ Suc n" using ih(1) unfolding sum.lessThan_Suc power_Suc by linarith
  have "(\<Sum>i<Suc n. f i * 4 ^ i) div 4 ^ l mod 4 = f l" if l: "l < Suc n" for l
  proof (cases "l = n")
    case True
    have "((\<Sum>i<n. f i * 4 ^ i) + f n * 4 ^ n) div 4 ^ n = f n + (\<Sum>i<n. f i * 4 ^ i) div 4 ^ n" by (rule div_mult_self1) simp
    also have "\<dots> = f n" using ih(1) by (simp only: div_less add_0_right)
    finally show ?thesis using fn True by (simp only: sum.lessThan_Suc mod_less)
  next
    case False
    then have ln: "l < n" using l by simp
    define k where "k = n - Suc l"
    then have k: "n = l + Suc k" using ln by simp
    have "f n * 4 ^ n = 4 ^ l * (4 * (f n * 4 ^ k))" unfolding k power_add power_Suc by (simp only: mult_ac)
    then have "(\<Sum>i<Suc n. f i * 4 ^ i) div 4 ^ l = ((\<Sum>i<n. f i * 4 ^ i) + 4 ^ l * (4 * (f n * 4 ^ k))) div 4 ^ l" by (simp only: sum.lessThan_Suc)
    also have "\<dots> = 4 * (f n * 4 ^ k) + (\<Sum>i<n. f i * 4 ^ i) div 4 ^ l" by (rule div_mult_self2) simp
    finally show ?thesis using ih(2) ln by (simp only: mod_mult_self4)
  qed
  then show ?case using bound by blast
qed simp

text \<open>
  The mode word is a faithful encoding: it exists exactly for lists of the four
  modes, it is below 4 to the number of levels, and the two bits of a level are its mode.
\<close>
theorem pack_modes_exact:
  "(is_ok (pack_modes modes) \<longleftrightarrow> lawful_modes modes)
   \<and> (\<forall>packed. pack_modes modes = Inr packed \<longrightarrow> packed < 4 ^ length modes
        \<and> (\<forall>l<length modes. int (drop_bit (2 * l) packed mod 4) = modes ! l))"
proof -
  have pm: "pack_modes modes = (if lawful_modes modes then Inr (\<Sum>i<length modes. nat (modes ! i) * 4 ^ i) else Inl (ValueError ''unknown support mode''))"
    using pack_modes_from_ok [of 0 0 modes] by (simp add: pack_modes_def)
  have "packed < 4 ^ length modes \<and> (\<forall>l<length modes. int (drop_bit (2 * l) packed mod 4) = modes ! l)" if p: "pack_modes modes = Inr packed" for packed
  proof -
    have law: "lawful_modes modes" and packed: "packed = (\<Sum>i<length modes. nat (modes ! i) * 4 ^ i)" using p unfolding pm by (auto split: if_splits)
    have m: "0 \<le> modes ! i \<and> modes ! i < 4" if "i < length modes" for i using law that by (simp add: lawful_modes_def)
    have "nat (modes ! i) < 4" if "i < length modes" for i using m [OF that] by linarith
    note d = base_four_digit [of "length modes" "\<lambda>i. nat (modes ! i)", OF this]
    have four: "(2 :: nat) ^ (2 * l) = 4 ^ l" for l by (simp add: power_mult)
    have "packed < 4 ^ length modes" "\<forall>l<length modes. packed div 4 ^ l mod 4 = nat (modes ! l)"
      using d unfolding packed by blast+
    then show ?thesis using m by (simp add: drop_bit_eq_div four)
  qed
  then show ?thesis using pm by auto
qed

theorem pack_modes_exact_witness: "\<exists>packed. pack_modes [1, 3] = Inr packed \<and> packed < 16 \<and> int (drop_bit 2 packed mod 4) = 3"
proof -
  have "is_ok (pack_modes [1, 3])" using pack_modes_exact [of "[1, 3]"] by (simp add: lawful_modes_def)
  then obtain p where "pack_modes [1, 3] = Inr p" by (auto simp: is_ok_iff)
  moreover from this have "p < 16 \<and> int (drop_bit 2 p mod 4) = 3" using pack_modes_exact [of "[1, 3]"] by fastforce
  ultimately show ?thesis by blast
qed

section \<open>The support words\<close>

lemma support_word_bit: "bit (support_word narrow p bh w col) k \<longleftrightarrow> k < 32 \<and> narrow (te_at p [bh, w * 32 + k, col]) \<noteq> 0"
proof -
  have "bit (fold (\<lambda>b acc. acc OR push_bit b (of_bool (P b))) [0..<n] (0 :: 32 word)) k \<longleftrightarrow> k < n \<and> k < 32 \<and> P k" for P n
    by (induction n) (auto simp: bit_simps less_Suc_eq)
  then show ?thesis by (auto simp: support_word_def WORD_TOKENS_def)
qed

lemma cat_columns_at:
  assumes "l < length xs" "d < last (te_shape (xs ! l))"
  shows "cat_columns xs idx (sum_list (map (\<lambda>x. last (te_shape x)) (take l xs)) + d) = te_at (xs ! l) (idx @ [d])"
  using assms
proof (induction xs arbitrary: l)
  case (Cons x xs)
  then show ?case by (cases l) (simp_all add: Let_def add.assoc)
qed simp

lemma support_words_ok:
  "te_shape p = [a, L, w] \<Longrightarrow> L mod 32 = 0 \<Longrightarrow> support_words narrow p = Inr \<lparr>te_shape = [a, L div 32, w], te_dtype = ''int32'',
      te_at = (\<lambda>idx. case idx of [i, j, col] \<Rightarrow> support_word narrow p i j col | _ \<Rightarrow> 0)\<rparr>"
  by (simp add: support_words_def WORD_TOKENS_def)

lemma level_support_ok:
  assumes "te_shape x = [B, T, H, w]" "T mod 32 = 0"
  shows "\<exists>s. rbind (permute_heads x) (\<lambda>p. rbind (reshape [B * H, T, last (te_shape x)] p) (support_words narrow)) = Inr s
    \<and> te_shape s = [B * H, T div 32, w]
    \<and> (\<forall>b h t d. b < B \<longrightarrow> h < H \<longrightarrow> t < T \<longrightarrow> d < w \<longrightarrow> bit (te_at s [b * H + h, t div 32, d]) (t mod 32) = (narrow (te_at x [b, t, h, d]) \<noteq> 0))"
proof -
  let ?q = "x\<lparr>te_shape := [B, H, T, w], te_at := (\<lambda>idx. te_at x [idx ! 0, idx ! 2, idx ! 1, idx ! 3])\<rparr>"
  have q: "permute_heads x = Inr ?q" using assms(1) by (simp add: permute_heads_def)
  let ?p = "?q\<lparr>te_shape := [B * H, T, w], te_at := (\<lambda>idx. te_at ?q (digits (te_shape ?q) (undigits [B * H, T, w] idx)))\<rparr>"
  have "prod_list [B * H, T, w] = prod_list (te_shape ?q)" by (simp add: mult.assoc)
  then have p: "reshape [B * H, T, last (te_shape x)] ?q = Inr ?p" using assms(1) by (simp add: reshape_def)
  have at: "te_at ?p [b * H + h, t, d] = te_at x [b, t, h, d]" if "b < B" "h < H" "t < T" "d < w" for b h t d
    using reshape_heads [OF that] by (simp del: digits.simps undigits.simps)
  have "support_words narrow ?p = Inr \<lparr>te_shape = [B * H, T div 32, w], te_dtype = ''int32'',
      te_at = (\<lambda>idx. case idx of [i, j, col] \<Rightarrow> support_word narrow ?p i j col | _ \<Rightarrow> 0)\<rparr>"
    by (rule support_words_ok [OF _ assms(2)]) simp
  moreover have "bit (support_word narrow ?p (b * H + h) (t div 32) d) (t mod 32) = (narrow (te_at x [b, t, h, d]) \<noteq> 0)"
    if "b < B" "h < H" "t < T" "d < w" for b h t d
    using at [OF that] by (simp only: support_word_bit) simp
  ultimately show ?thesis unfolding q rbind.simps p by (intro exI conjI) (assumption | simp)+
qed

lemma pack_support_ok:
  assumes "xs \<noteq> []" "length xs = length ws" "\<And>l. l < length ws \<Longrightarrow> te_shape (xs ! l) = [B, T, H, ws ! l]" "T mod 32 = 0"
  shows "\<exists>s. pack_support narrow xs = Inr s \<and> te_shape s = [B * H, T div 32, sum_list ws]
    \<and> (\<forall>b h t l d. b < B \<longrightarrow> h < H \<longrightarrow> t < T \<longrightarrow> l < length ws \<longrightarrow> d < ws ! l \<longrightarrow>
         bit (te_at s [b * H + h, t div 32, sum_list (take l ws) + d]) (t mod 32) = (narrow (te_at (xs ! l) [b, t, h, d]) \<noteq> 0))"
proof -
  let ?f = "\<lambda>x. rbind (permute_heads x) (\<lambda>p. rbind (reshape [B * H, T, last (te_shape x)] p) (support_words narrow))"
  have "\<forall>l<length ws. \<exists>s. ?f (xs ! l) = Inr s \<and> te_shape s = [B * H, T div 32, ws ! l]
    \<and> (\<forall>b h t d. b < B \<longrightarrow> h < H \<longrightarrow> t < T \<longrightarrow> d < ws ! l \<longrightarrow> bit (te_at s [b * H + h, t div 32, d]) (t mod 32) = (narrow (te_at (xs ! l) [b, t, h, d]) \<noteq> 0))"
    using level_support_ok [OF assms(3) assms(4)] by blast
  then obtain y where y: "\<And>l. l < length ws \<Longrightarrow> ?f (xs ! l) = Inr (y l)" "\<And>l. l < length ws \<Longrightarrow> te_shape (y l) = [B * H, T div 32, ws ! l]"
    "\<And>l b h t d. l < length ws \<Longrightarrow> b < B \<Longrightarrow> h < H \<Longrightarrow> t < T \<Longrightarrow> d < ws ! l
       \<Longrightarrow> bit (te_at (y l) [b * H + h, t div 32, d]) (t mod 32) = (narrow (te_at (xs ! l) [b, t, h, d]) \<noteq> 0)"
    by metis
  let ?ys = "map y [0..<length ws]"
  have parts: "rmap ?f xs = Inr ?ys" unfolding rmap_Inr using y(1) assms(2) by (simp add: list_all2_conv_all_nth)
  have lasts: "map (\<lambda>x. last (te_shape x)) ?ys = ws" using y(2) by (intro nth_equalityI) simp_all
  have ne: "ws \<noteq> []" using assms(1,2) by auto
  then have hd: "te_shape (hd ?ys) = [B * H, T div 32, ws ! 0]" using y(2) [of 0] by (simp add: hd_map)
  obtain base rest where xs: "xs = base # rest" using assms(1) by (cases xs) auto
  have base: "te_shape base = [B, T, H, ws ! 0]" using assms(2) assms(3) [of 0] ne unfolding xs by simp
  have "pack_support narrow xs = Inr (cat_last ?ys)" using parts base unfolding pack_support_def xs by simp
  moreover have "te_shape (cat_last ?ys) = [B * H, T div 32, sum_list ws]" using hd lasts by (simp add: cat_last_def)
  moreover have "te_at (cat_last ?ys) [b * H + h, t div 32, sum_list (take l ws) + d] = te_at (y l) [b * H + h, t div 32, d]"
    if "l < length ws" "d < ws ! l" for b h t l d
    using cat_columns_at [of l ?ys d "[b * H + h, t div 32]"] that y(2) [OF that(1)] lasts by (simp add: cat_last_def take_map [symmetric])
  ultimately show ?thesis using y(3) by (intro exI [of _ "cat_last ?ys"]) simp
qed

text \<open>
  C29 (supportwords): The support words of drawn levels are exact: over a whole number of 32-token
  blocks the call returns the word table of the packed plane's shape, and the bit of a token's digit is
  set exactly when the amplitude stored there is not zero; levels of another length are refused.
\<close>
theorem pack_support_exact:
  assumes "levels \<noteq> []" "\<And>l. l < length levels \<Longrightarrow> te_shape (levels ! l) = [B, T, H, ws ! l]" "length ws = length levels"
  shows "if T mod 32 = 0 then \<exists>s. pack_support narrow levels = Inr s \<and> te_shape s = [B * H, T div 32, sum_list ws]
      \<and> (\<forall>b<B. \<forall>h<H. \<forall>t<T. \<forall>l<length ws. \<forall>d<ws ! l.
           bit (te_at s [b * H + h, t div 32, sum_list (take l ws) + d]) (t mod 32) = (narrow (te_at (levels ! l) [b, t, h, d]) \<noteq> 0))
    else pack_support narrow levels = Inl (ValueError ''the support word blocks 32 tokens'')"
proof (cases "T mod 32 = 0")
  case True
  then show ?thesis using pack_support_ok [of levels ws B T H narrow] assms by simp
next
  case False
  obtain base rest where xs: "levels = base # rest" using assms(1) by (cases levels) auto
  have base: "te_shape base = [B, T, H, ws ! 0]" using assms(2) [of 0] unfolding xs by simp
  then have "rbind (permute_heads base) (\<lambda>p. rbind (reshape [B * H, T, last (te_shape base)] p) (support_words narrow))
      = Inl (ValueError ''the support word blocks 32 tokens'')"
    using False by (simp add: permute_heads_def reshape_def support_words_def WORD_TOKENS_def mult.assoc)
  then show ?thesis using False base by (simp add: pack_support_def xs)
qed

theorem pack_support_exact_witness:
  "\<exists>s. pack_support id [\<lparr>te_shape = [1, 32, 1, 2], te_dtype = ''bfloat16'', te_at = (\<lambda>idx. if idx ! 3 = 1 then 1 else 0)\<rparr>] = Inr s
     \<and> te_shape s = [1, 1, 2] \<and> bit (te_at s [0, 0, 1]) 7 \<and> \<not> bit (te_at s [0, 0, 0]) 7"
proof -
  let ?x = "\<lparr>te_shape = [1, 32, 1, 2], te_dtype = ''bfloat16'', te_at = (\<lambda>idx :: nat list. if idx ! 3 = 1 then 1 else (0 :: real))\<rparr>"
  obtain s where s: "pack_support id [?x] = Inr s" "te_shape s = [1, 1, 2]"
    "\<forall>b<1. \<forall>h<1. \<forall>t<32. \<forall>l<1. \<forall>d<[2] ! l. bit (te_at s [b * 1 + h, t div 32, sum_list (take l [2]) + d]) (t mod 32) = (id (te_at ([?x] ! l) [b, t, h, d]) \<noteq> 0)"
    using pack_support_exact [of "[?x]" 1 32 1 "[2]" id] by auto
  have "bit (te_at s [0, 0, d]) 7 = (d = 1)" if "d < 2" for d
    using s(3) [rule_format, of 0 0 7 0 d] that by simp
  then show ?thesis using s(1,2) by (intro exI [of _ s]) simp
qed

end
