(* ===== verification/Rola_Prefill_Claims.thy ===== *)
theory Rola_Prefill_Claims
  imports Rola_Intra_Props
begin

text \<open>The prefill computes the reference, and what it takes for granted of its levels.\<close>

lemma attention_of_wide:
  assumes "length reads = length vs" "length writes = length vs"
  shows "attention v (map2 wide reads vs) (map2 wide writes vs) g (map pad_width vs) NoDecay (\<lambda>_. 0) d_v b t h c
    = attention v (map to_nt reads) (map to_nt writes) g vs NoDecay (\<lambda>_. 0) d_v b t h c"
  by (rule attention_widened [OF wide_widened [OF assms(1)] wide_widened [OF assms(2)]])
    (simp_all add: widened_decay_def list_all2_conv_all_nth padded_width_ge)

text \<open>
  C1 (prefill): The prefill is the reference operator. On every lawful call whose values pad to
  the intra kernel's width the prefill returns, without touching a state, and the value accumulator over the mass accumulator plus eps is
  the output of the fp64 reference on the logical, unpadded levels: padding, packing, the liveness words,
  the split of the causal sum between the two kernels at the window grid and the shared accumulators
  change nothing. The kernels, the liveness pass and the addressing derivation are taken at what they
  document: the carry adds the pairs whose write fell in a strictly earlier window, the intra the causal
  pairs inside one window.
\<close>
theorem prefill_matches_reference:
  assumes "prefill_ready env reads writes g v (topology_widths topology) modes sread swrite B T H d_v"
    and "intra_documented (pe_intra env)" "32 < d_v" "d_v \<le> VALUE_WIDTH"
    and "naive_rola (to_nt v) (map (Some \<circ> to_nt) reads) (map (Some \<circ> to_nt) writes) (to_nt g) topology NoDecay eps None keep = Inr (y, F)"
  shows "\<exists>num den. prefill env reads writes g v (map pad_width (topology_widths topology)) modes sread swrite None None None None = Inr (num, den, None)
    \<and> te_shape num = [B * H, T, d_v] \<and> te_shape den = [B * H, T]
    \<and> (\<forall>b<B. \<forall>t<T. \<forall>h<H. \<forall>c<d_v. nt_at y [b, t, h, c] = te_at num [b * H + h, t, c] / (te_at den [b * H + h, t] + eps))"
proof -
  let ?vs = "topology_widths topology"
  have len: "length reads = length ?vs" "length writes = length ?vs" "te_shape v = [B, T, H, d_v]"
    using assms(1) by (simp_all add: prefill_ready_def Let_def)
  have "nt_shape (to_nt v) = [B, T, H, d_v]" by (simp add: to_nt_def len(3))
  note ref = naive_result(3) [OF assms(5) this]
  have maps: "map the (map (Some \<circ> to_nt) xs) = map to_nt xs" for xs by simp
  obtain num den where run: "prefill env reads writes g v (map pad_width ?vs) modes sread swrite None None None None = Inr (num, den, None)"
    "te_shape num = [B * H, T, d_v]" "te_shape den = [B * H, T]"
    and out: "\<And>b h t. b < B \<Longrightarrow> h < H \<Longrightarrow> t < T \<Longrightarrow>
         te_at den [b * H + h, t] = attention (to_nt v) (map to_nt reads) (map to_nt writes) (to_nt g) ?vs NoDecay (\<lambda>_. 0) d_v b t h d_v
         \<and> (\<forall>c<d_v. te_at num [b * H + h, t, c] = attention (to_nt v) (map to_nt reads) (map to_nt writes) (to_nt g) ?vs NoDecay (\<lambda>_. 0) d_v b t h c)"
    using prefill_runs [OF assms(1-4)] unfolding attention_of_wide [OF len(1,2)] by blast
  have "nt_at y [b, t, h, c] = te_at num [b * H + h, t, c] / (te_at den [b * H + h, t] + eps)" if "b < B" "t < T" "h < H" "c < d_v" for b t h c
    using ref [OF that(2), of b h c] out [OF that(1,3,2)] that(4) by (simp only: maps cache_at_def option.case)
  then show ?thesis using run by blast
qed

section \<open>A concrete prefill\<close>

text \<open>Kernels that compute what they document.\<close>

definition model_carry :: carry_op where
  "model_carry a = (let L = te_shape (ca_den a) ! 1; rp = ca_routes a;
       pair = plane_pair (rp_read rp) (rp_write rp) (rp_gain rp) (ca_B a) in
     Inr ((ca_num a)\<lparr>te_at := (\<lambda>idx. te_at (ca_num a) idx + inter_sum CARRY_WINDOW L (idx ! 1) (\<lambda>\<tau>. pair (idx ! 0) (idx ! 1) \<tau> * te_at (ca_v a) [idx ! 0, \<tau>, idx ! 2]))\<rparr>,
          (ca_den a)\<lparr>te_at := (\<lambda>idx. te_at (ca_den a) idx + inter_sum CARRY_WINDOW L (idx ! 1) (pair (idx ! 0) (idx ! 1)))\<rparr>, None))"

definition model_intra :: intra_op where
  "model_intra a = (let L = te_shape (ia_den a) ! 1; H = te_shape (ia_v a) ! 2; W = ia_window a;
       pair = plane_pair (ia_read a) (ia_write a) (ia_gain a) (replicate (ia_levels a) (ia_level_width a)) in
     if te_shape (ia_v a) ! 3 \<noteq> VALUE_WIDTH then Inl (RuntimeError ''v must be a contiguous CUDA bf16 [B, T, H, 64] tensor'')
     else Inr ((ia_num a)\<lparr>te_at := (\<lambda>idx. te_at (ia_num a) idx + intra_sum W L (idx ! 1)
            (\<lambda>\<tau>. pair (idx ! 0) (idx ! 1) \<tau> * te_at (ia_v a) [idx ! 0 div H, \<tau>, idx ! 0 mod H, idx ! 2]))\<rparr>,
          (ia_den a)\<lparr>te_at := (\<lambda>idx. te_at (ia_den a) idx + intra_sum W L (idx ! 1) (pair (idx ! 0) (idx ! 1)))\<rparr>))"

lemma model_carry_documented: "carry_documented model_carry"
  unfolding carry_documented_def model_carry_def by (auto simp: carry_call_ok_def Let_def)

lemma model_intra_documented: "intra_documented model_intra"
  unfolding intra_documented_def model_intra_def by (auto simp: intra_call_ok_def Let_def)

lemma model_intra_refuses: "intra_refuses_widths model_intra"
  unfolding intra_refuses_widths_def model_intra_def by (simp add: Let_def)

definition demo_ints :: "int list" where "demo_ints = 1 # replicate 117 0"

definition demo_env :: prefill_env where
  "demo_env = \<lparr>pe_carry = model_carry, pe_intra = model_intra, pe_liveness = model_pass, pe_geometry = (\<lambda>_ _ _ _ _ _. Inr demo_ints),
     pe_arms = [(1, 16, 512, 0)], pe_narrow = id, pe_bits = (\<lambda>x. if x = 0 then 0 else 1)\<rparr>"

definition even_tens :: "nat list \<Rightarrow> real \<Rightarrow> real tens" where
  "even_tens shape x = \<lparr>te_shape = shape, te_dtype = ''bfloat16'', te_at = (\<lambda>_. x)\<rparr>"

definition all_words :: "32 word tens" where
  "all_words = \<lparr>te_shape = [1, 16, 16], te_dtype = ''int32'', te_at = (\<lambda>_. - 1)\<rparr>"

lemma demo_vector: "is_ok (read_block demo_ints)"
  by code_simp

lemma demo_call_ready:
  assumes "dv \<le> 64"
  shows
  "prefill_ready demo_env [even_tens [1, 512, 1, 2] (1 / 2)] [even_tens [1, 512, 1, 2] (1 / 2)] (even_tens [1, 512, 1] 1) (even_tens [1, 512, 1, dv] 3)
     [2] [0] all_words all_words 1 512 1 dv"
proof -
  have pad: "pad_width 2 = 16" by code_simp
  have pm: "pack_modes [0] = Inr 0" by code_simp
  have arms: "shipped_level_width [(1, 16, 512, 0)] (Suc 0) CARRY_WINDOW = Inr 16" by (simp add: shipped_level_width_def CARRY_WINDOW_def)
  obtain gf where "read_block demo_ints = Inr gf" using demo_vector by (auto simp: is_ok_iff)
  then have geo: "geometry (pe_geometry demo_env) [16] 0 bc 1 1 DV = Inr gf" for bc DV by (simp add: geometry_def demo_env_def)
  have sup: "support_given 1 512 1 [2] [16] xs all_words" for xs by (simp add: support_given_def all_words_def bit_minus_1_iff)
  have bits: "stored_bits (pe_bits demo_env)" by (simp add: stored_bits_def demo_env_def BF16_MAGNITUDE_MASK_def)
  have "\<exists>DV packed gf. padded_value_width SHIPPED_DV dv = Inr DV \<and> pack_modes [0] = Inr packed
       \<and> geometry (pe_geometry demo_env) [16] packed (call_box DV) 1 1 DV = Inr gf"
    using pm geo assms by (cases "dv \<le> 32") (auto simp: SHIPPED_DV_def)
  then show ?thesis
    unfolding prefill_ready_def Let_def list.map pad
    using sup bits arms model_carry_documented model_intra_documented model_pass_ok
    by (simp add: even_tens_def exact_on_def demo_env_def CARRY_WINDOW_def)
qed

lemma demo_reference:
  "\<exists>y F. naive_rola (to_nt (even_tens [1, 512, 1, dv] 3)) (map (Some \<circ> to_nt) [even_tens [1, 512, 1, 2] (1 / 2)])
      (map (Some \<circ> to_nt) [even_tens [1, 512, 1, 2] (1 / 2)]) (to_nt (even_tens [1, 512, 1] 1)) [TiedLevel 2 Softmax] NoDecay 1 None False = Inr (y, F)"
proof -
  have "accepted (to_nt (even_tens [1, 512, 1, dv] 3)) (map (Some \<circ> to_nt) [even_tens [1, 512, 1, 2] (1 / 2)])
      (map (Some \<circ> to_nt) [even_tens [1, 512, 1, 2] (1 / 2)]) (to_nt (even_tens [1, 512, 1] 1)) [TiedLevel 2 Softmax] NoDecay None 1 512 1 dv"
    by (simp add: accepted_def oracle_inputs_def side_shapes_def to_nt_def even_tens_def topology_widths_def decay_ok_def
        cache_ok_def simplex_ok_def SIMPLEX_ATOL_def)
  from accepted_result [OF this, of 1 False] show ?thesis by blast
qed

theorem prefill_matches_reference_witness:
  "\<exists>num den. prefill demo_env [even_tens [1, 512, 1, 2] (1 / 2)] [even_tens [1, 512, 1, 2] (1 / 2)] (even_tens [1, 512, 1] 1) (even_tens [1, 512, 1, 40] 3)
      [16] [0] all_words all_words None None None None = Inr (num, den, None)
    \<and> te_shape num = [1, 512, 40]"
proof -
  obtain y F where r: "naive_rola (to_nt (even_tens [1, 512, 1, 40] 3)) (map (Some \<circ> to_nt) [even_tens [1, 512, 1, 2] (1 / 2)])
      (map (Some \<circ> to_nt) [even_tens [1, 512, 1, 2] (1 / 2)]) (to_nt (even_tens [1, 512, 1] 1)) [TiedLevel 2 Softmax] NoDecay 1 None False = Inr (y, F)"
    using demo_reference by blast
  have w: "topology_widths [TiedLevel 2 Softmax] = [2]" by (simp add: topology_widths_def)
  have pad: "map pad_width [2] = [16]" by code_simp
  show ?thesis using prefill_matches_reference [OF _ _ _ _ r, unfolded w, OF demo_call_ready [of 40]] model_intra_documented unfolding pad by (auto simp: VALUE_WIDTH_def demo_env_def)
qed

section \<open>The value widths the combined call cannot serve\<close>

text \<open>
  C40 (intrawidth): The prefill pads a value to one of the three widths of the carry surface, but
  the intra kernel's entry takes 64 only. On every otherwise lawful call whose values pad to 32 or 128
  the prefill fails, and it fails after the carry has been launched: a carry that fails decides the
  call before the intra is asked.
\<close>
theorem prefill_fails_after_the_carry:
  assumes "prefill_ready env reads writes g v vs modes sread swrite B T H d_v" "intra_refuses_widths (pe_intra env)" "d_v \<le> 32 \<or> VALUE_WIDTH < d_v"
  shows "\<not> is_ok (prefill env reads writes g v (map pad_width vs) modes sread swrite None None None None)
    \<and> prefill (env\<lparr>pe_carry := \<lambda>_. Inl e\<rparr>) reads writes g v (map pad_width vs) modes sread swrite None None None None = Inl e"
proof -
  obtain DV po packed a num den where dv: "padded_value_width SHIPPED_DV d_v = Inr DV" and pv: "te_shape (po_v po) = [B, T, H, DV]"
    and cr: "pe_carry env a = Inr (num, den, None)"
    and run: "\<forall>carry. prefill (env\<lparr>pe_carry := carry\<rparr>) reads writes g v (map pad_width vs) modes sread swrite None None None None
        = rbind (carry a) (\<lambda>(num, den, state). rbind (pe_intra env (intra_call po (map pad_width vs) sread swrite packed num den))
            (\<lambda>(num, den). Inr (slice_last num d_v, den, state)))"
    by (insert prefill_until_intra [OF assms(1)], elim exE conjE, rule that) (assumption | simp)+
  have "DV \<noteq> VALUE_WIDTH" using dv assms(3) by (auto simp: SHIPPED_DV_def VALUE_WIDTH_def split: if_splits)
  then have "\<not> is_ok (pe_intra env (intra_call po (map pad_width vs) sread swrite packed num den))"
    using assms(2) pv by (simp add: intra_refuses_widths_def intra_call_def)
  then obtain e' where "pe_intra env (intra_call po (map pad_width vs) sread swrite packed num den) = Inl e'"
    by (cases "pe_intra env (intra_call po (map pad_width vs) sread swrite packed num den)") auto
  then show ?thesis using run [rule_format, of "pe_carry env"] run [rule_format, of "\<lambda>_. Inl e"] cr by simp
qed

theorem prefill_fails_after_the_carry_witness:
  "\<not> is_ok (prefill demo_env [even_tens [1, 512, 1, 2] (1 / 2)] [even_tens [1, 512, 1, 2] (1 / 2)] (even_tens [1, 512, 1] 1) (even_tens [1, 512, 1, 16] 3)
      [16] [0] all_words all_words None None None None)"
proof -
  have pad: "map pad_width [2] = [16]" by code_simp
  have "intra_refuses_widths (pe_intra demo_env)" by (simp add: demo_env_def model_intra_refuses)
  from prefill_fails_after_the_carry [OF demo_call_ready [of 16] this] show ?thesis unfolding pad by simp
qed

end
