(* ===== verification/Spec2Isabelle.thy ===== *)
theory Spec2Isabelle
  imports Rola_Topology Rola_Radix Rola_Lattice Rola_Lattice_Best Rola_Planes Rola_Slots Rola_Arena Rola_Arena_Inv Rola_Paging Rola_Paging_Props Rola_Paging_Stale Rola_State Rola_State_Props
    Rola_Rules Rola_Routing Rola_Resolved Rola_Resolved_Props Rola_Bundle Rola_Bundle_Props
    Rola_Runner Rola_Runner_Props Rola_Pack Rola_Call Rola_Chunk Rola_Chunk_Props Rola_Padding Rola_Decode Rola_Step Rola_Step_Props Rola_Decode_Dag Rola_Decode_Walk Rola_Decode_Cache
    Rola_Decode_Replay Rola_Decode_Live Rola_Decode_Dense Rola_Decode_Apart Rola_Decode_Frame Rola_Decode_Props Rola_Liveness_Claims Rola_Oracle_Claims Rola_Carry_Props Rola_Prefill_Claims
begin

text \<open>
  RoLA (routed linear attention): a verification library of the package \<^verbatim>\<open>src/rola\<close>, its host side
  and the two device protocols the host depends on.

  \<^bold>\<open>The program.\<close> A routed linear attention layer keeps, per batch-head, a state of \<^verbatim>\<open>N\<close> leaves; a leaf
  is a digit per routing level, and a token reads and writes the leaves with the products of its
  levels' weights. The reference operator states what a call computes. The fast path cuts the
  leaves into pages of 16 (atoms), keeps only touched pages in an arena (\<^verbatim>\<open>PageArena\<close>), and runs three
  kernels over them: the carry and the intra kernel (prefill, whole windows) and the decode step (one
  token). Rules choose an arm and refuse unlawful calls; a small DAG runner walks the nodes that
  derive a launch's operands.

  \<^bold>\<open>Theories and sources\<close> (paths under \<^verbatim>\<open>src/rola\<close> unless said otherwise), in dependency order.

    \<^item> \<^verbatim>\<open>Rola_Prelude\<close>: exceptions as values (\<^verbatim>\<open>exc\<close>, \<^verbatim>\<open>res\<close>), methods that raise after changing their object
      (\<^verbatim>\<open>step\<close>), untyped Python values, powers of two; the collection \<^verbatim>\<open>res_simps\<close>.
    \<^item> \<^verbatim>\<open>Rola_Topology\<close>, \<^verbatim>\<open>Rola_Radix\<close>: \<^verbatim>\<open>routing/topology.py\<close>; the mixed-radix leaf address of
      \<^verbatim>\<open>routing/types.py\<close>, \<^verbatim>\<open>ops/naive.py\<close> and \<^verbatim>\<open>engine/facts/liveness.py\<close>, and the contract of a leaf order.
    \<^item> \<^verbatim>\<open>Rola_Lattice\<close>, \<^verbatim>\<open>Rola_Lattice_Best\<close>: \<^verbatim>\<open>ops/lattice.py\<close>: boxes, atom rectangles, the search, the leaf
      permutation; the search's optimality and its closed table.
    \<^item> \<^verbatim>\<open>Rola_Planes\<close>, \<^verbatim>\<open>Rola_Slots\<close>, \<^verbatim>\<open>Rola_Arena\<close>, \<^verbatim>\<open>Rola_Arena_Inv\<close>, \<^verbatim>\<open>Rola_Paging\<close>, \<^verbatim>\<open>Rola_Paging_Props\<close>,
      \<^verbatim>\<open>Rola_Paging_Stale\<close>: \<^verbatim>\<open>ops/paging.py\<close>, \<^verbatim>\<open>engine/rules/paging.py\<close>, the page arithmetic of
      \<^verbatim>\<open>csrc/rola/src/paging/vmm_owner.cu\<close> and the claim and fold of \<^verbatim>\<open>csrc/rola/src/decode/decode.cu\<close>. An
      \<^verbatim>\<open>arena\<close> record is a \<^verbatim>\<open>PageArena\<close>: page table, allocator, value base, pool slots, cursor, shadow map.
    \<^item> \<^verbatim>\<open>Rola_State\<close>, \<^verbatim>\<open>Rola_State_Props\<close>: \<^verbatim>\<open>_state.py\<close>, \<^verbatim>\<open>StateFormat\<close> and \<^verbatim>\<open>RoLAState\<close>.
    \<^item> \<^verbatim>\<open>Rola_Rules\<close>: \<^verbatim>\<open>engine/types.py\<close>, \<^verbatim>\<open>engine/rules\<close>, the engine's constants.
    \<^item> \<^verbatim>\<open>Rola_Routing\<close>, \<^verbatim>\<open>Rola_Resolved\<close>, \<^verbatim>\<open>Rola_Bundle\<close> with their \<^verbatim>\<open>_Props\<close>: \<^verbatim>\<open>routing/activations.py\<close>,
      \<^verbatim>\<open>routing/types.py\<close>, \<^verbatim>\<open>routing/factors.py\<close> and the descriptor entry of \<^verbatim>\<open>routing/entmax/production.py\<close>.
    \<^item> \<^verbatim>\<open>Rola_Runner\<close>, \<^verbatim>\<open>Rola_Runner_Props\<close>: \<^verbatim>\<open>engine/runner.py\<close>: nodes, import checks, the walk, memo tables.
    \<^item> \<^verbatim>\<open>Rola_Pack\<close>, \<^verbatim>\<open>Rola_Call\<close>, \<^verbatim>\<open>Rola_Chunk\<close>, \<^verbatim>\<open>Rola_Chunk_Props\<close>, \<^verbatim>\<open>Rola_Padding\<close>: \<^verbatim>\<open>engine/facts\<close>,
      \<^verbatim>\<open>engine/dags/chunk_dag.py\<close>, \<^verbatim>\<open>engine/plan.py\<close>, \<^verbatim>\<open>ops/padding.py\<close>.
    \<^item> \<^verbatim>\<open>Rola_Decode\<close>, \<^verbatim>\<open>Rola_Step\<close>, \<^verbatim>\<open>Rola_Step_Props\<close> and the \<^verbatim>\<open>Rola_Decode_\<close> theories: \<^verbatim>\<open>ops/decode.py\<close>,
      \<^verbatim>\<open>engine/dags/decode_dag.py\<close> and the protocol of \<^verbatim>\<open>decode.cu\<close> (verdict, claim, done flags, condensation,
      publication).
    \<^item> \<^verbatim>\<open>Rola_Liveness\<close> and its \<^verbatim>\<open>_Props\<close>, \<^verbatim>\<open>_Fold\<close>, \<^verbatim>\<open>_Atoms\<close>, \<^verbatim>\<open>_Pages\<close>, \<^verbatim>\<open>_Claims\<close>:
      \<^verbatim>\<open>engine/facts/liveness.py\<close>, \<^verbatim>\<open>ops/liveness.py\<close>.
    \<^item> \<^verbatim>\<open>Rola_Oracle\<close> and its \<^verbatim>\<open>_Props\<close>, \<^verbatim>\<open>_Closed\<close>, \<^verbatim>\<open>_Runs\<close>, \<^verbatim>\<open>_Claims\<close>: \<^verbatim>\<open>ops/naive.py\<close>,
      \<^verbatim>\<open>ops/_oracle_contract.py\<close>.
    \<^item> \<^verbatim>\<open>Rola_Carry\<close>, \<^verbatim>\<open>Rola_Intra\<close>, \<^verbatim>\<open>Rola_Prefill\<close> with their theories: \<^verbatim>\<open>ops/carry.py\<close>, \<^verbatim>\<open>ops/intra.py\<close>,
      \<^verbatim>\<open>ops/prefill.py\<close>.

  \<^bold>\<open>Interfaces.\<close> \<^verbatim>\<open>leaf_order\<close> (canonical and lattice order), \<^verbatim>\<open>slot_allocator\<close> (the extent allocator),
  \<^verbatim>\<open>page_store\<close> (the arena under host admission, the arena under device claims, the dense plane), \<^verbatim>\<open>recipe\<close>
  and \<^verbatim>\<open>cached_recipe\<close> (the chunk recipe and both decode recipes, with and without their memo tables).
  Each law is discharged on the model's own definitions in the theory that provides them.

  \<^bold>\<open>What the lemmas show.\<close>
    \<^item> Storage: the arena's invariant under every operation; any sequence of calls leaves a paged and a
      pooled arena that reads, word for word, like the dense plane; a plan grants all or nothing; the split
      planes are lossless; the state's invariant over every reachable state, one binding for life, clones.
    \<^item> Decode: the recipes are accepted at import and walk like straight-line programs; one token
      deposits exactly once through verdict, admission and second walk; the entry returns and leaves no verdict pending;
      both backings agree; concurrent sequences never share a scratch; the type of the output.
    \<^item> Liveness: words, boxes, atoms and pages are exact, and every leaf a token writes is resident at the
      kernel entry.
    \<^item> Reference: what it accepts, its closed form, chaining, bounds, mass, invisible padding.
    \<^item> Prefill: the call, from packing to the window split, computes the reference once the two kernels do
      what their docs say; the carry surface decides exactly; the block reader and the support words are exact.
    \<^item> Rules and routing: the lattice search is optimal and has a closed table; stream counts, admission;
      the route descriptor's constructor accepts exactly the lawful descriptors.
    \<^item> Defects: a reset that keeps the device's claims, done flags left by a refused admission, a value width the
      prefill pads to and the intra kernel refuses.

  \<^bold>\<open>Conventions.\<close> State words are \<^verbatim>\<open>32 word\<close>, amplitudes 16-bit patterns, liveness words \<^verbatim>\<open>32 word\<close>; Python ints
  are \<^verbatim>\<open>int\<close>, or \<^verbatim>\<open>nat\<close> where a check has made them so. Entries of the reference and of the accumulators are
  reals: fp64 and fp32 rounding are not modelled. Refusal texts are shortened. Loops terminate by a
  measure or by structure; there is no fuel. The reachable states are \<^verbatim>\<open>reaches\<close> and \<^verbatim>\<open>decode_reach\<close>, step
  relations with rule induction.

  \<^bold>\<open>Parameters.\<close> The extension's kernels (carry, intra, liveness pass, the arithmetic of the decode walk), the
  entmax solve, bf16 rounding, uninitialised memory, and the device's facts are arguments of the definitions that
  use them; the hypotheses on them are the contracts the host code documents (\<^verbatim>\<open>carry_documented\<close>,
  \<^verbatim>\<open>intra_documented\<close>, \<^verbatim>\<open>pass_ok\<close>, \<^verbatim>\<open>numerics_ok\<close>, \<^verbatim>\<open>platform_ok\<close>), and each has an instance in a witness.

  \<^bold>\<open>Not modelled.\<close> The CUDA kernels beyond the decode protocol, the claim and the page arithmetic; host-entry
  checks of \<^verbatim>\<open>decode.cu\<close>; driver failures inside \<^verbatim>\<open>VmmOwner::grow\<close>, its rollback and teardown; streams and events
  (operations are taken in program order); autograd. The entmax solves (\<^verbatim>\<open>routing/entmax\<close>), the reference solves, the producer,
  the projections and the decay parametrisation are floating-point torch programs with no contract apart from their
  values; \<^verbatim>\<open>layer.py\<close>, \<^verbatim>\<open>interface.py\<close> and \<^verbatim>\<open>expert.py\<close> are glue over the operators modelled here. \<^verbatim>\<open>tools\<close>,
  \<^verbatim>\<open>measure\<close>, \<^verbatim>\<open>tests\<close>, \<^verbatim>\<open>setup.py\<close> and \<^verbatim>\<open>declare.py\<close> build, lint, replay and measure the package and are no part of what it computes.
\<close>

end
